(* ===== verification/Critiq_Prelude.thy ===== *)
theory Critiq_Prelude
  imports Main "HOL-Library.Multiset"
begin

section \<open>Shared vocabulary of the critiq-be development\<close>

text \<open>
  Types, collections of rewrite rules and generic facts on lists, options and association
  lists that every component theory uses.  A JavaScript \<open>Map\<close> iterates in insertion order
  and the code relies on it, so a \<open>Map\<close> is an association list here: \<open>al_get\<close>, \<open>al_set\<close>
  (which keeps the position of an existing key) and \<open>al_delete\<close> are its \<open>get\<close>, \<open>set\<close> and
  \<open>delete\<close>.  \<open>Array.prototype.sort\<close> is stable, so \<open>js_sort\<close> is a stable insertion sort over
  the comparator the code passes; the locale \<open>js_comparator\<close> states what a comparator must
  satisfy for the result to be sorted.
\<close>

subsection \<open>Names\<close>

type_synonym jstr = string
type_synonym line_no = int
type_synonym span = "nat \<times> nat"

named_theorems js_defs \<open>definitions of the string functions of the JavaScript library\<close>
named_theorems rx_defs \<open>abbreviating constructors of regular expressions\<close>
named_theorems enum_defs \<open>rank and membership tables of the enumerations\<close>

subsection \<open>Insertion-ordered maps\<close>

fun al_get :: "('k \<times> 'v) list \<Rightarrow> 'k \<Rightarrow> 'v option" where
  "al_get [] k = None"
| "al_get ((k', v) # m) k = (if k' = k then Some v else al_get m k)"

fun al_set :: "'k \<Rightarrow> 'v \<Rightarrow> ('k \<times> 'v) list \<Rightarrow> ('k \<times> 'v) list" where
  "al_set k v [] = [(k, v)]"
| "al_set k v ((k', v') # m) = (if k' = k then (k, v) # m else (k', v') # al_set k v m)"

fun al_delete :: "'k \<Rightarrow> ('k \<times> 'v) list \<Rightarrow> ('k \<times> 'v) list" where
  "al_delete k [] = []"
| "al_delete k ((k', v') # m) = (if k' = k then m else (k', v') # al_delete k m)"

text \<open>\<open>new Map(entries)\<close>: later entries overwrite earlier ones, at the earlier position.\<close>

definition al_of :: "('k \<times> 'v) list \<Rightarrow> ('k \<times> 'v) list" where
  "al_of es = fold (\<lambda>(k, v) m. al_set k v m) es []"

abbreviation al_distinct :: "('k \<times> 'v) list \<Rightarrow> bool" where
  "al_distinct m \<equiv> distinct (map fst m)"

lemma al_get_map_of: "al_get m k = map_of m k"
  by (induction m k rule: al_get.induct) auto

lemma al_get_set [simp]: "al_get (al_set k v m) k' = (if k' = k then Some v else al_get m k')"
  by (induction k v m rule: al_set.induct) auto

lemma al_keys_set: "map fst (al_set k v m) = (if k \<in> fst ` set m then map fst m else map fst m @ [k])"
  by (induction k v m rule: al_set.induct) auto

lemma al_distinct_set [intro]: "al_distinct m \<Longrightarrow> al_distinct (al_set k v m)"
  by (auto simp: al_keys_set)

lemma al_get_None: "al_get m k = None \<longleftrightarrow> k \<notin> fst ` set m"
  by (simp add: al_get_map_of map_of_eq_None_iff)

lemma al_get_Some_in: "al_get m k = Some v \<Longrightarrow> (k, v) \<in> set m"
  by (simp add: al_get_map_of map_of_SomeD)

lemma al_get_in: "al_distinct m \<Longrightarrow> (k, v) \<in> set m \<Longrightarrow> al_get m k = Some v"
  by (simp add: al_get_map_of)

lemma al_set_in: "al_distinct m \<Longrightarrow>
    (k', v') \<in> set (al_set k v m) \<longleftrightarrow> (if k' = k then v' = v else (k', v') \<in> set m)"
  by (induction k v m rule: al_set.induct) (auto simp: rev_image_eqI split: if_splits)

lemma al_keys_delete: "al_distinct m \<Longrightarrow> map fst (al_delete k m) = filter (\<lambda>x. x \<noteq> k) (map fst m)"
proof (induction k m rule: al_delete.induct)
  case (2 k k' v' m)
  then have "k' = k \<Longrightarrow> filter (\<lambda>x. x \<noteq> k) (map fst m) = map fst m"
    by (auto simp: filter_id_conv)
  with 2 show ?case by auto
qed simp

lemma al_delete_filter: "al_distinct m \<Longrightarrow> al_delete k m = filter (\<lambda>e. fst e \<noteq> k) m"
proof (induction k m rule: al_delete.induct)
  case (2 k k' v' m)
  then have "k' = k \<Longrightarrow> filter (\<lambda>e. fst e \<noteq> k) m = m"
    by (auto simp: filter_id_conv)
  with 2 show ?case by auto
qed simp

lemma al_distinct_delete [intro]: "al_distinct m \<Longrightarrow> al_distinct (al_delete k m)"
  by (simp add: al_keys_delete)

lemma fold_al_set_distinct: "al_distinct m \<Longrightarrow> al_distinct (fold (\<lambda>(k, v) m. al_set k v m) es m)"
proof (induction es arbitrary: m)
  case (Cons e es)
  obtain k v where "e = (k, v)" by (cases e)
  with Cons.IH [OF al_distinct_set [OF Cons.prems, of k v]] show ?case by simp
qed simp

lemma al_distinct_of [simp]: "al_distinct (al_of es)"
  by (simp add: al_of_def fold_al_set_distinct)

lemma fold_al_set_get:
  "al_get (fold (\<lambda>(k, v) m. al_set k v m) es m) k =
    (case map_of (rev es) k of Some v \<Rightarrow> Some v | None \<Rightarrow> al_get m k)"
  by (induction es arbitrary: m) (auto simp: map_add_def split: option.splits)

lemma al_get_of: "al_get (al_of es) k = map_of (rev es) k"
  by (simp add: al_of_def fold_al_set_get split: option.splits)

lemma al_get_of_in: "al_get (al_of es) k = Some v \<Longrightarrow> (k, v) \<in> set es"
  using map_of_SomeD [of "rev es" k v] by (simp add: al_get_of)

lemma al_get_of_None: "al_get (al_of es) k = None \<longleftrightarrow> k \<notin> fst ` set es"
  by (simp add: al_get_of map_of_eq_None_iff)

subsection \<open>Stable sorting with a comparator\<close>

fun js_insert :: "('a \<Rightarrow> 'a \<Rightarrow> int) \<Rightarrow> 'a \<Rightarrow> 'a list \<Rightarrow> 'a list" where
  "js_insert cmp x [] = [x]"
| "js_insert cmp x (y # ys) = (if cmp x y \<le> 0 then x # y # ys else y # js_insert cmp x ys)"

definition js_sort :: "('a \<Rightarrow> 'a \<Rightarrow> int) \<Rightarrow> 'a list \<Rightarrow> 'a list" where
  "js_sort cmp xs = foldr (js_insert cmp) xs []"

lemma mset_js_insert [simp]: "mset (js_insert cmp x ys) = add_mset x (mset ys)"
  by (induction cmp x ys rule: js_insert.induct) auto

lemma mset_js_sort [simp]: "mset (js_sort cmp xs) = mset xs"
  by (induction xs) (auto simp: js_sort_def)

lemma set_js_sort [simp]: "set (js_sort cmp xs) = set xs"
  by (metis mset_js_sort set_mset_mset)

lemma length_js_sort [simp]: "length (js_sort cmp xs) = length xs"
  by (metis mset_js_sort size_mset)

lemma js_sort_simps [simp]:
  "js_sort cmp [] = []" "js_sort cmp (x # xs) = js_insert cmp x (js_sort cmp xs)"
  by (simp_all add: js_sort_def)

text \<open>What the sort needs of a comparator: a total preorder read off its sign.\<close>

locale js_comparator =
  fixes cmp :: "'a \<Rightarrow> 'a \<Rightarrow> int"
  assumes cmp_total: "cmp x y \<le> 0 \<or> cmp y x \<le> 0"
    and cmp_trans: "cmp x y \<le> 0 \<Longrightarrow> cmp y z \<le> 0 \<Longrightarrow> cmp x z \<le> 0"
begin

lemma sorted_insert:
  "sorted_wrt (\<lambda>x y. cmp x y \<le> 0) ys \<Longrightarrow> sorted_wrt (\<lambda>x y. cmp x y \<le> 0) (js_insert cmp x ys)"
proof (induction ys)
  case (Cons y ys)
  have set_ins: "set (js_insert cmp x ys) = insert x (set ys)" for ys
    by (induction ys) auto
  from Cons show ?case
    using cmp_total [of x y] by (auto simp: set_ins intro: cmp_trans)
qed simp

lemma sorted_sort: "sorted_wrt (\<lambda>x y. cmp x y \<le> 0) (js_sort cmp xs)"
  by (induction xs) (auto intro: sorted_insert)

text \<open>Stability: elements the comparator cannot tell apart keep their order.\<close>

lemma insert_stable:
  assumes "\<And>y. y \<in> set ys \<Longrightarrow> P y \<Longrightarrow> P x \<Longrightarrow> cmp x y \<le> 0"
  shows "filter P (js_insert cmp x ys) = filter P (x # ys)"
  using assms by (induction ys) auto

lemma sort_stable:
  assumes "\<And>x y. P x \<Longrightarrow> P y \<Longrightarrow> cmp x y \<le> 0"
  shows "filter P (js_sort cmp xs) = filter P xs"
  using assms by (induction xs) (simp_all add: insert_stable)

end

text \<open>\<open>(a, b) => a - b\<close>, the comparator of every numeric sort of the code.\<close>

definition number_asc :: "int \<Rightarrow> int \<Rightarrow> int" where
  "number_asc a b = a - b"

interpretation num_asc: js_comparator number_asc
  by unfold_locales (auto simp: number_asc_def)

lemma sorted_number_asc: "sorted (js_sort number_asc xs)"
  using num_asc.sorted_sort [of xs] by (simp add: number_asc_def)

subsection \<open>Lists and options\<close>

lemma find_SomeD: "List.find P xs = Some x \<Longrightarrow> x \<in> set xs \<and> P x"
  by (auto simp: find_Some_iff)

lemma find_NoneD: "List.find P xs = None \<Longrightarrow> x \<in> set xs \<Longrightarrow> \<not> P x"
  by (auto simp: find_None_iff)

lemma take_drop_bound:
  assumes "take (length ys) (drop k xs) = ys" "k \<le> length xs"
  shows "k + length ys \<le> length xs"
proof -
  have "length ys = length (take (length ys) (drop k xs))" by (simp add: assms(1))
  with assms(2) show ?thesis by simp
qed

lemma mset_partition: "mset (filter P xs) + mset (filter (\<lambda>x. \<not> P x) xs) = mset xs"
  by (induction xs) auto

lemma remove1_mset_in: "x \<in> set xs \<Longrightarrow> mset xs = add_mset x (mset (remove1 x xs))"
  by simp

lemma sum_list_filter_le: "sum_list (map f (filter P xs)) \<le> sum_list (map (f :: 'a \<Rightarrow> nat) xs)"
  by (induction xs) auto

text \<open>Removing repeated values: \<open>[...new Set(xs)]\<close> keeps the first occurrence of each.\<close>

fun js_unique :: "'a list \<Rightarrow> 'a list" where
  "js_unique [] = []"
| "js_unique (x # xs) = x # filter (\<lambda>y. y \<noteq> x) (js_unique xs)"

lemma set_js_unique [simp]: "set (js_unique xs) = set xs"
  by (induction xs) auto

lemma distinct_js_unique [simp]: "distinct (js_unique xs)"
  by (induction xs) (auto simp: distinct_filter)

lemma sorted_distinct_js_sort: "distinct xs \<Longrightarrow> sorted_wrt (<) (js_sort number_asc xs)"
proof -
  assume "distinct xs"
  then have "distinct (js_sort number_asc xs)"
    by (metis mset_eq_imp_distinct_iff mset_js_sort)
  with sorted_number_asc [of xs] show ?thesis
    by (simp add: strict_sorted_iff)
qed

end
