(* ===== verification/Js_Text.thy ===== *)
theory Js_Text
  imports Critiq_Prelude
begin

section \<open>The string functions of the JavaScript library\<close>

text \<open>
  A JavaScript string is a sequence of code units.  The development works on texts whose
  code units are below 256 (type \<open>string\<close>: one \<open>char\<close> per code unit), and models the
  library functions the source calls exactly on those: \<open>\s\<close>, \<open>trim\<close> and \<open>toLowerCase\<close>
  include the non-ASCII code units below 256 (the no-break space, the accented letters).
  An index is a \<open>nat\<close>; \<open>indexOf\<close> and \<open>lastIndexOf\<close> return \<open>None\<close> where JavaScript
  returns -1.
\<close>

subsection \<open>Code units\<close>

text \<open>
  Character classes are membership in explicit lists, which the simplifier decides
  quickly on concrete texts.
\<close>

definition is_space :: "char \<Rightarrow> bool" where
  "is_space c \<longleftrightarrow> c \<in> set [CHR 0x20, CHR 0x09, CHR 0x0A, CHR 0x0B, CHR 0x0C, CHR 0x0D, CHR 0xA0]"

definition is_digit :: "char \<Rightarrow> bool" where
  "is_digit c \<longleftrightarrow> c \<in> set ''0123456789''"

definition is_lower :: "char \<Rightarrow> bool" where
  "is_lower c \<longleftrightarrow> c \<in> set ''abcdefghijklmnopqrstuvwxyz''"

definition is_upper :: "char \<Rightarrow> bool" where
  "is_upper c \<longleftrightarrow> c \<in> set ''ABCDEFGHIJKLMNOPQRSTUVWXYZ''"

definition is_alpha :: "char \<Rightarrow> bool" where
  "is_alpha c \<longleftrightarrow> is_lower c \<or> is_upper c"

definition is_alnum :: "char \<Rightarrow> bool" where
  "is_alnum c \<longleftrightarrow> is_alpha c \<or> is_digit c"

text \<open>\<open>\w\<close>.\<close>

definition is_word :: "char \<Rightarrow> bool" where
  "is_word c \<longleftrightarrow> is_alnum c \<or> c = CHR ''_''"

text \<open>The upper-case letters from 192 and the lower-case letters they map to.\<close>

definition accented_upper :: "char list" where
  "accented_upper =
   [CHR 0xC0, CHR 0xC1, CHR 0xC2, CHR 0xC3, CHR 0xC4, CHR 0xC5, CHR 0xC6, CHR 0xC7, CHR 0xC8,
    CHR 0xC9, CHR 0xCA, CHR 0xCB, CHR 0xCC, CHR 0xCD, CHR 0xCE, CHR 0xCF, CHR 0xD0, CHR 0xD1,
    CHR 0xD2, CHR 0xD3, CHR 0xD4, CHR 0xD5, CHR 0xD6, CHR 0xD8, CHR 0xD9, CHR 0xDA, CHR 0xDB,
    CHR 0xDC, CHR 0xDD, CHR 0xDE]"

definition accented_lower :: "char list" where
  "accented_lower =
   [CHR 0xE0, CHR 0xE1, CHR 0xE2, CHR 0xE3, CHR 0xE4, CHR 0xE5, CHR 0xE6, CHR 0xE7, CHR 0xE8,
    CHR 0xE9, CHR 0xEA, CHR 0xEB, CHR 0xEC, CHR 0xED, CHR 0xEE, CHR 0xEF, CHR 0xF0, CHR 0xF1,
    CHR 0xF2, CHR 0xF3, CHR 0xF4, CHR 0xF5, CHR 0xF6, CHR 0xF8, CHR 0xF9, CHR 0xFA, CHR 0xFB,
    CHR 0xFC, CHR 0xFD, CHR 0xFE]"

text \<open>The Unicode letters and numbers below 256 (\<open>\p{L}\<close>, \<open>\p{N}\<close>).\<close>

definition is_letter :: "char \<Rightarrow> bool" where
  "is_letter c \<longleftrightarrow> is_alpha c \<or> c \<in> set accented_upper \<or> c \<in> set accented_lower \<or>
    c \<in> set [CHR 0xAA, CHR 0xB5, CHR 0xBA, CHR 0xDF, CHR 0xFF]"

definition is_number :: "char \<Rightarrow> bool" where
  "is_number c \<longleftrightarrow> is_digit c \<or> c \<in> set [CHR 0xB2, CHR 0xB3, CHR 0xB9, CHR 0xBC, CHR 0xBD, CHR 0xBE]"

definition lower_char :: "char \<Rightarrow> char" where
  "lower_char c =
    (case map_of (zip ''ABCDEFGHIJKLMNOPQRSTUVWXYZ'' ''abcdefghijklmnopqrstuvwxyz'') c of
      Some d \<Rightarrow> d
    | None \<Rightarrow> (case map_of (zip accented_upper accented_lower) c of Some d \<Rightarrow> d | None \<Rightarrow> c))"

definition to_lower :: "jstr \<Rightarrow> jstr" where
  "to_lower s = map lower_char s"

subsection \<open>Slices and searches\<close>

definition slice :: "jstr \<Rightarrow> nat \<Rightarrow> nat \<Rightarrow> jstr" where
  "slice s i j = take (j - i) (drop i s)"

definition starts_at :: "jstr \<Rightarrow> nat \<Rightarrow> jstr \<Rightarrow> bool" where
  "starts_at s i p \<longleftrightarrow> take (length p) (drop i s) = p"

definition starts_with :: "jstr \<Rightarrow> jstr \<Rightarrow> bool" where
  "starts_with s p \<longleftrightarrow> take (length p) s = p"

definition ends_with :: "jstr \<Rightarrow> jstr \<Rightarrow> bool" where
  "ends_with s p \<longleftrightarrow> length p \<le> length s \<and> drop (length s - length p) s = p"

definition index_of :: "jstr \<Rightarrow> jstr \<Rightarrow> nat \<Rightarrow> nat option" where
  "index_of s p i = List.find (\<lambda>k. starts_at s k p) [i..<Suc (length s)]"

definition last_index_of :: "jstr \<Rightarrow> jstr \<Rightarrow> nat option" where
  "last_index_of s p = List.find (\<lambda>k. starts_at s k p) (rev [0..<Suc (length s)])"

definition contains :: "jstr \<Rightarrow> jstr \<Rightarrow> bool" where
  "contains s p \<longleftrightarrow> index_of s p 0 \<noteq> None"

subsection \<open>Trimming, splitting, joining\<close>

definition trim_start :: "jstr \<Rightarrow> jstr" where
  "trim_start s = dropWhile is_space s"

definition trim_end :: "jstr \<Rightarrow> jstr" where
  "trim_end s = rev (dropWhile is_space (rev s))"

definition trim :: "jstr \<Rightarrow> jstr" where
  "trim s = trim_end (trim_start s)"

text \<open>\<open>s.split(c)\<close> for a one-character separator: always at least one piece.\<close>

fun split_on :: "char \<Rightarrow> jstr \<Rightarrow> jstr list" where
  "split_on c [] = [[]]"
| "split_on c (x # xs) =
    (if x = c then [] # split_on c xs
     else (case split_on c xs of [] \<Rightarrow> [[x]] | p # ps \<Rightarrow> (x # p) # ps))"

fun join :: "jstr \<Rightarrow> jstr list \<Rightarrow> jstr" where
  "join sep [] = []"
| "join sep [x] = x"
| "join sep (x # y # ys) = x @ sep @ join sep (y # ys)"

text \<open>\<open>x.split(c).pop()\<close>, the last piece.\<close>

definition last_piece :: "char \<Rightarrow> jstr \<Rightarrow> jstr" where
  "last_piece c s = last (split_on c s)"

subsection \<open>Numbers\<close>

definition digit_char :: "nat \<Rightarrow> char" where
  "digit_char d = ''0123456789'' ! d"

definition digit_of :: "char \<Rightarrow> nat" where
  "digit_of c = (case map_of (zip ''0123456789'' [0, 1, 2, 3, 4, 5, 6, 7, 8, 9]) c of
    Some d \<Rightarrow> d | None \<Rightarrow> 0)"

fun show_nat :: "nat \<Rightarrow> jstr" where
  "show_nat n = (if n < 10 then [digit_char n] else show_nat (n div 10) @ [digit_char (n mod 10)])"

declare show_nat.simps [simp del]

definition show_int :: "int \<Rightarrow> jstr" where
  "show_int i = (if i < 0 then ''-'' @ show_nat (nat (- i)) else show_nat (nat i))"

text \<open>\<open>Number(s)\<close> for a string of decimal digits.\<close>

definition digits_val :: "jstr \<Rightarrow> nat" where
  "digits_val s = fold (\<lambda>c n. 10 * n + digit_of c) s 0"

subsection \<open>Facts\<close>

lemmas char_class_defs = is_space_def is_digit_def is_lower_def is_upper_def is_alpha_def
  is_alnum_def is_word_def

lemma length_slice: "length (slice s i j) = min (j - i) (length s - i)"
  by (simp add: slice_def)

lemma length_slice_le: "length (slice s i j) \<le> j - i"
  by (simp add: slice_def)

lemma index_of_bounds:
  assumes "index_of s p i = Some k"
  shows "i \<le> k \<and> k \<le> length s \<and> starts_at s k p"
  using find_SomeD [OF assms [unfolded index_of_def]] by auto

lemma starts_at_bound: "starts_at s k p \<Longrightarrow> k \<le> length s \<Longrightarrow> k + length p \<le> length s"
  by (simp add: starts_at_def take_drop_bound)

lemma index_of_end:
  assumes "index_of s p i = Some k"
  shows "k + length p \<le> length s"
  using index_of_bounds [OF assms] starts_at_bound by blast

lemma last_index_of_bounds:
  assumes "last_index_of s p = Some k"
  shows "k + length p \<le> length s"
proof -
  from find_SomeD [OF assms [unfolded last_index_of_def]]
  have "k \<le> length s" "starts_at s k p" by auto
  then show ?thesis using starts_at_bound by blast
qed

lemma split_on_nonempty [simp]: "split_on c s \<noteq> []"
  by (induction c s rule: split_on.induct) (auto split: list.splits)

lemma split_on_no_sep: "c \<notin> set s \<Longrightarrow> split_on c s = [s]"
  by (induction s) auto

lemma split_on_append: "c \<notin> set a \<Longrightarrow> split_on c (a @ c # b) = a # split_on c b"
  by (induction a) auto

lemma split_on_parts: "p \<in> set (split_on c s) \<Longrightarrow> c \<notin> set p"
proof (induction c s arbitrary: p rule: split_on.induct)
  case (2 c x xs)
  then show ?case by (cases "split_on c xs") (auto split: if_splits)
qed simp

lemma join_split_on: "join [c] (split_on c s) = s"
proof (induction c s rule: split_on.induct)
  case (2 c x xs)
  obtain p ps where "split_on c xs = p # ps"
    using split_on_nonempty by (metis list.exhaust)
  with 2 show ?case by (cases ps) auto
qed simp

lemma split_on_join:
  assumes "ls \<noteq> []" "\<forall>l \<in> set ls. c \<notin> set l"
  shows "split_on c (join [c] ls) = ls"
  using assms
proof (induction "[c]" ls rule: join.induct)
  case (3 x y ys)
  then show ?case using split_on_append [of c x] by auto
qed (auto simp: split_on_no_sep)

lemma set_dropWhile_subset: "set (dropWhile P xs) \<subseteq> set xs"
  by (meson set_dropWhileD subsetI)

lemma set_trim: "set (trim s) \<subseteq> set s"
proof
  fix x assume "x \<in> set (trim s)"
  then have "x \<in> set (dropWhile is_space (rev (dropWhile is_space s)))"
    by (simp add: trim_def trim_end_def trim_start_def)
  then have "x \<in> set (dropWhile is_space s)"
    by (metis set_dropWhileD set_rev)
  then show "x \<in> set s" using set_dropWhileD by fast
qed

lemma length_trim: "length (trim s) \<le> length s"
proof -
  have "length (dropWhile is_space (rev (dropWhile is_space s))) \<le> length (dropWhile is_space s)"
    by (metis length_dropWhile_le length_rev)
  also have "\<dots> \<le> length s" by (rule length_dropWhile_le)
  finally show ?thesis by (simp add: trim_def trim_end_def trim_start_def)
qed

lemma show_nat_nonempty [simp]: "show_nat n \<noteq> []"
  by (subst show_nat.simps) simp

lemma below_ten: "d < 10 \<Longrightarrow> d \<in> set [0, 1, 2, 3, 4, 5, 6, 7, 8, 9 :: nat]"
  by auto

lemma is_digit_char [simp]: "d < 10 \<Longrightarrow> is_digit (digit_char d)"
  by (drule below_ten) (auto simp: is_digit_def digit_char_def)

lemma digit_of_char [simp]: "d < 10 \<Longrightarrow> digit_of (digit_char d) = d"
  by (drule below_ten) (auto simp: digit_of_def digit_char_def)

lemma show_nat_digits: "c \<in> set (show_nat n) \<Longrightarrow> is_digit c"
proof (induction n rule: show_nat.induct)
  case (1 n)
  then show ?case
    by (subst (asm) show_nat.simps)
      (auto split: if_splits)
qed

lemma digits_val_show [simp]: "digits_val (show_nat n) = n"
proof (induction n rule: show_nat.induct)
  case (1 n)
  show ?case
  proof (cases "n < 10")
    case True
    then show ?thesis
      by (subst show_nat.simps) (simp add: digits_val_def)
  next
    case False
    with 1 have "digits_val (show_nat (n div 10)) = n div 10" by simp
    then have "digits_val (show_nat (n div 10) @ [digit_char (n mod 10)]) = 10 * (n div 10) + n mod 10"
      by (simp add: digits_val_def)
    with False show ?thesis by (subst show_nat.simps) simp
  qed
qed

lemma show_nat_inj: "show_nat m = show_nat n \<longleftrightarrow> m = n"
  by (metis digits_val_show)

end
