(* ===== verification/Js_Regex.thy ===== *)
theory Js_Regex
  imports Js_Text
begin

section \<open>Regular expressions with the backtracking semantics of JavaScript\<close>

text \<open>
  The scan engine is written in regular expressions, so the development carries a matcher
  for them.  \<open>rx_run r s (i, caps)\<close> lists every way \<open>r\<close> can match the subject \<open>s\<close> from
  position \<open>i\<close>, in the order the backtracking matcher of ECMA-262 (\<open>RepeatMatcher\<close>,
  \<open>Disjunction\<close>) tries them: the left branch of an alternation first, one more round of a
  greedy repetition before stopping.  The first element is the match the engine reports.
  A repetition carries fuel; \<open>rep_run_enough\<close> shows that the fuel \<open>rx_run\<close> gives it never
  runs out.  Captures are kept with the latest first (no pattern of the source captures
  inside a repetition and reads the capture afterwards).
\<close>

subsection \<open>Syntax\<close>

type_synonym rx_caps = "(nat \<times> span) list"
type_synonym rx_state = "nat \<times> rx_caps"

datatype rx =
  REps
| RSet "char \<Rightarrow> bool"
| RSeq rx rx
| RAlt rx rx
| RRep rx nat "nat option" bool  \<comment> \<open>at least, at most, greedy\<close>
| RGroup nat rx
| RBol
| REol
| RWordB
| RNotAhead rx

abbreviation rchar :: "char \<Rightarrow> rx" where
  "rchar c \<equiv> RSet (\<lambda>x. x = c)"

abbreviation rchar_i :: "char \<Rightarrow> rx" where
  "rchar_i c \<equiv> RSet (\<lambda>x. lower_char x = lower_char c)"

abbreviation rany :: "jstr \<Rightarrow> rx" where
  "rany cs \<equiv> RSet (\<lambda>x. x \<in> set cs)"

abbreviation rnone :: "jstr \<Rightarrow> rx" where
  "rnone cs \<equiv> RSet (\<lambda>x. x \<notin> set cs)"

text \<open>\<open>.\<close>: any code unit but a line terminator.\<close>

abbreviation rdot :: rx where
  "rdot \<equiv> RSet (\<lambda>x. x \<noteq> CHR 0x0A \<and> x \<noteq> CHR 0x0D)"

fun rseq :: "rx list \<Rightarrow> rx" where
  "rseq [] = REps"
| "rseq [r] = r"
| "rseq (r # q # rs) = RSeq r (rseq (q # rs))"

fun ralt :: "rx list \<Rightarrow> rx" where
  "ralt [] = RNotAhead REps"
| "ralt [r] = r"
| "ralt (r # q # rs) = RAlt r (ralt (q # rs))"

fun rlit :: "jstr \<Rightarrow> rx" where
  "rlit [] = REps"
| "rlit (c # cs) = RSeq (rchar c) (rlit cs)"

fun rlit_i :: "jstr \<Rightarrow> rx" where
  "rlit_i [] = REps"
| "rlit_i (c # cs) = RSeq (rchar_i c) (rlit_i cs)"

abbreviation rstar :: "rx \<Rightarrow> rx" where "rstar r \<equiv> RRep r 0 None True"
abbreviation rplus :: "rx \<Rightarrow> rx" where "rplus r \<equiv> RRep r 1 None True"
abbreviation ropt :: "rx \<Rightarrow> rx" where "ropt r \<equiv> RRep r 0 (Some 1) True"
abbreviation rtimes :: "nat \<Rightarrow> nat \<Rightarrow> rx \<Rightarrow> rx" where "rtimes m n r \<equiv> RRep r m (Some n) True"
abbreviation rmin :: "nat \<Rightarrow> rx \<Rightarrow> rx" where "rmin m r \<equiv> RRep r m None True"
abbreviation rspaces :: rx where "rspaces \<equiv> rstar (RSet is_space)"

subsection \<open>Matching\<close>

fun rep_run ::
  "(rx_state \<Rightarrow> rx_state list) \<Rightarrow> nat \<Rightarrow> nat \<Rightarrow> nat option \<Rightarrow> bool \<Rightarrow> rx_state \<Rightarrow> rx_state list" where
  "rep_run f 0 lo hi greedy st = []"
| "rep_run f (Suc fuel) lo hi greedy st =
    (if hi = Some 0 then [st]
     else
       (let more = concat (map (rep_run f fuel (lo - 1) (map_option (\<lambda>n. n - 1) hi) greedy)
                     (filter (\<lambda>st'. 0 < lo \<or> fst st' \<noteq> fst st) (f st)))
        in if 0 < lo then more else if greedy then more @ [st] else st # more))"

definition word_at :: "jstr \<Rightarrow> nat \<Rightarrow> bool" where
  "word_at s i \<longleftrightarrow> i < length s \<and> is_word (s ! i)"

primrec rx_run :: "rx \<Rightarrow> jstr \<Rightarrow> rx_state \<Rightarrow> rx_state list" where
  "rx_run REps s st = [st]"
| "rx_run (RSet P) s st = (if fst st < length s \<and> P (s ! fst st) then [(Suc (fst st), snd st)] else [])"
| "rx_run (RSeq a b) s st = concat (map (rx_run b s) (rx_run a s st))"
| "rx_run (RAlt a b) s st = rx_run a s st @ rx_run b s st"
| "rx_run (RRep r lo hi greedy) s st =
    rep_run (rx_run r s) (Suc (lo + (length s - fst st))) lo hi greedy st"
| "rx_run (RGroup n r) s st = map (\<lambda>st'. (fst st', (n, (fst st, fst st')) # snd st')) (rx_run r s st)"
| "rx_run RBol s st = (if fst st = 0 then [st] else [])"
| "rx_run REol s st = (if fst st = length s then [st] else [])"
| "rx_run RWordB s st =
    (if (0 < fst st \<and> word_at s (fst st - 1)) \<noteq> word_at s (fst st) then [st] else [])"
| "rx_run (RNotAhead r) s st = (if rx_run r s st = [] then [st] else [])"

text \<open>A match: where it starts, where it ends, what it captured.\<close>

type_synonym rx_match = "nat \<times> rx_state"

definition rx_exec :: "rx \<Rightarrow> jstr \<Rightarrow> nat \<Rightarrow> rx_match option" where
  "rx_exec r s i =
    (case List.find (\<lambda>k. rx_run r s (k, []) \<noteq> []) [i..<Suc (length s)] of
      None \<Rightarrow> None
    | Some k \<Rightarrow> Some (k, hd (rx_run r s (k, []))))"

definition rx_test :: "rx \<Rightarrow> jstr \<Rightarrow> bool" where
  "rx_test r s \<longleftrightarrow> (\<exists>k \<in> set [0..<Suc (length s)]. rx_run r s (k, []) \<noteq> [])"

text \<open>A sticky match at \<open>i\<close>: its end, or \<open>None\<close>.\<close>

definition rx_at :: "rx \<Rightarrow> jstr \<Rightarrow> nat \<Rightarrow> nat option" where
  "rx_at r s i = (case rx_run r s (i, []) of [] \<Rightarrow> None | st # _ \<Rightarrow> Some (fst st))"

definition rx_group :: "nat \<Rightarrow> rx_match \<Rightarrow> jstr \<Rightarrow> jstr option" where
  "rx_group n m s = (case map_of (snd (snd m)) n of None \<Rightarrow> None | Some (i, j) \<Rightarrow> Some (slice s i j))"

definition rx_start :: "rx_match \<Rightarrow> nat" where "rx_start m = fst m"
definition rx_end :: "rx_match \<Rightarrow> nat" where "rx_end m = fst (snd m)"
definition rx_text :: "rx_match \<Rightarrow> jstr \<Rightarrow> jstr" where "rx_text m s = slice s (fst m) (fst (snd m))"

subsection \<open>Matches move forward and stay inside the subject\<close>

definition forward :: "nat \<Rightarrow> (rx_state \<Rightarrow> rx_state list) \<Rightarrow> nat \<Rightarrow> bool" where
  "forward n f w \<longleftrightarrow>
    (\<forall>st st'. st' \<in> set (f st) \<longrightarrow> fst st + w \<le> fst st' \<and> (fst st \<le> n \<longrightarrow> fst st' \<le> n))"

definition rep_min :: "nat \<Rightarrow> nat option \<Rightarrow> nat" where
  "rep_min lo hi = (case hi of None \<Rightarrow> lo | Some h \<Rightarrow> min lo h)"

primrec rx_width :: "rx \<Rightarrow> nat" where
  "rx_width REps = 0"
| "rx_width (RSet P) = 1"
| "rx_width (RSeq a b) = rx_width a + rx_width b"
| "rx_width (RAlt a b) = min (rx_width a) (rx_width b)"
| "rx_width (RRep r lo hi g) = rep_min lo hi * rx_width r"
| "rx_width (RGroup n r) = rx_width r"
| "rx_width RBol = 0"
| "rx_width REol = 0"
| "rx_width RWordB = 0"
| "rx_width (RNotAhead r) = 0"

lemma forwardD:
  assumes "forward n f w" "st' \<in> set (f st)"
  shows "fst st + w \<le> fst st'" "fst st \<le> n \<Longrightarrow> fst st' \<le> n"
  using assms unfolding forward_def by blast+

lemma rep_run_iff:
  "st' \<in> set (rep_run f (Suc fuel) lo hi g st) \<longleftrightarrow>
    (if hi = Some 0 then st' = st
     else (lo = 0 \<and> st' = st) \<or>
       (\<exists>st1 \<in> set (f st). (0 < lo \<or> fst st1 \<noteq> fst st) \<and>
          st' \<in> set (rep_run f fuel (lo - 1) (map_option (\<lambda>n. n - 1) hi) g st1)))"
  by (simp add: Let_def Bex_def, (cases "lo = 0"; cases g; blast)?)

lemma rep_run_forward:
  assumes "forward n f w" "st' \<in> set (rep_run f fuel lo hi g st)"
  shows "fst st + rep_min lo hi * w \<le> fst st' \<and> (fst st \<le> n \<longrightarrow> fst st' \<le> n)"
  using assms(2)
proof (induction fuel arbitrary: lo hi st)
  case (Suc fuel)
  show ?case
  proof (cases "hi = Some 0 \<or> (lo = 0 \<and> st' = st)")
    case True
    with Suc.prems show ?thesis
      by (auto simp: rep_min_def rep_run_iff split: option.splits if_splits simp del: rep_run.simps)
  next
    case False
    with Suc.prems obtain st1 where st1: "st1 \<in> set (f st)"
      and more: "st' \<in> set (rep_run f fuel (lo - 1) (map_option (\<lambda>n. n - 1) hi) g st1)"
      unfolding rep_run_iff by auto
    have min: "rep_min lo hi \<le> Suc (rep_min (lo - 1) (map_option (\<lambda>n. n - 1) hi))"
      by (auto simp: rep_min_def split: option.splits)
    have "rep_min lo hi * w \<le> w + rep_min (lo - 1) (map_option (\<lambda>n. n - 1) hi) * w"
      using mult_le_mono1 [OF min, of w] by simp
    with forwardD [OF assms(1) st1] Suc.IH [OF more] show ?thesis by auto
  qed
qed simp

lemma rx_run_forward: "forward (length s) (rx_run r s) (rx_width r)"
proof (induction r)
  case (RSeq a b)
  then show ?case unfolding forward_def by fastforce
next
  case (RAlt a b)
  then show ?case unfolding forward_def by fastforce
next
  case (RRep r lo hi g)
  have "fst st + rep_min lo hi * rx_width r \<le> fst st' \<and> (fst st \<le> length s \<longrightarrow> fst st' \<le> length s)"
    if "st' \<in> set (rx_run (RRep r lo hi g) s st)" for st st'
    using rep_run_forward [OF RRep] that by (simp del: rep_run.simps)
  then show ?case by (simp add: forward_def del: rx_run.simps)
next
  case (RGroup n r)
  then show ?case unfolding forward_def by fastforce
qed (auto simp: forward_def)

text \<open>The fuel of a repetition is enough: one more unit changes nothing.\<close>

lemma rep_run_enough:
  assumes "forward n f w" "fst st \<le> n" "lo + (n - fst st) < fuel"
  shows "rep_run f (Suc fuel) lo hi g st = rep_run f fuel lo hi g st"
  using assms(2,3)
proof (induction fuel arbitrary: lo hi st)
  case (Suc k)
  have step: "rep_run f (Suc k) (lo - 1) hi' g st1 = rep_run f k (lo - 1) hi' g st1"
    if "st1 \<in> set (f st)" "0 < lo \<or> fst st1 \<noteq> fst st" for hi' st1
  proof (rule Suc.IH)
    from forwardD [OF assms(1) that(1)] Suc.prems(1)
    have le: "fst st \<le> fst st1" "fst st1 \<le> n" by auto
    then show "fst st1 \<le> n" by simp
    from that(2) le Suc.prems show "lo - 1 + (n - fst st1) < k" by auto
  qed
  have more: "concat (map (rep_run f (Suc k) (lo - 1) hi' g) (filter (\<lambda>st'. 0 < lo \<or> fst st' \<noteq> fst st) (f st)))
      = concat (map (rep_run f k (lo - 1) hi' g) (filter (\<lambda>st'. 0 < lo \<or> fst st' \<noteq> fst st) (f st)))"
    for hi'
    by (rule arg_cong [where f = concat], rule map_cong, rule refl, rule step) simp_all
  show ?case
    unfolding rep_run.simps(2) [of f "Suc k"] rep_run.simps(2) [of f k] more ..
qed simp

lemma rx_run_mono:
  assumes "(j, c') \<in> set (rx_run r s (i, c))"
  shows "i + rx_width r \<le> j" "i \<le> length s \<Longrightarrow> j \<le> length s"
  using forwardD [OF rx_run_forward assms] by auto

lemma rx_execD:
  assumes "rx_exec r s i = Some m"
  shows "i \<le> rx_start m" "rx_start m + rx_width r \<le> rx_end m" "rx_end m \<le> length s"
    "snd m \<in> set (rx_run r s (rx_start m, []))"
proof -
  from assms obtain k where k: "List.find (\<lambda>k. rx_run r s (k, []) \<noteq> []) [i..<Suc (length s)] = Some k"
    and m: "m = (k, hd (rx_run r s (k, [])))"
    by (auto simp: rx_exec_def split: option.splits)
  from find_SomeD [OF k] have b: "i \<le> k" "k \<le> length s" and ne: "rx_run r s (k, []) \<noteq> []"
    by auto
  show mem: "snd m \<in> set (rx_run r s (rx_start m, []))"
    using ne by (simp add: m rx_start_def)
  show "i \<le> rx_start m" using b by (simp add: m rx_start_def)
  from forwardD [OF rx_run_forward mem] b
  show "rx_start m + rx_width r \<le> rx_end m" "rx_end m \<le> length s"
    by (simp_all add: m rx_start_def rx_end_def)
qed

lemma rx_exec_None: "rx_exec r s 0 = None \<longleftrightarrow> \<not> rx_test r s"
proof -
  have "rx_exec r s 0 = None \<longleftrightarrow> List.find (\<lambda>k. rx_run r s (k, []) \<noteq> []) [0..<Suc (length s)] = None"
    by (simp add: rx_exec_def split: option.splits)
  then show ?thesis
    unfolding find_None_iff rx_test_def by blast
qed

lemma rx_atD:
  assumes "rx_at r s i = Some j" "i \<le> length s"
  shows "i + rx_width r \<le> j" "j \<le> length s"
proof -
  from assms(1) obtain st sts where st: "rx_run r s (i, []) = st # sts" "j = fst st"
    by (auto simp: rx_at_def split: list.splits)
  then have "(j, snd st) \<in> set (rx_run r s (i, []))"
    by (metis list.set_intros(1) prod.collapse)
  from rx_run_mono [OF this] assms(2) show "i + rx_width r \<le> j" "j \<le> length s" by auto
qed

lemma length_rx_text:
  assumes "rx_exec r s i = Some m"
  shows "length (rx_text m s) = rx_end m - rx_start m" "rx_width r \<le> length (rx_text m s)"
  using rx_execD [OF assms] by (auto simp: rx_text_def length_slice rx_start_def rx_end_def)

subsection \<open>Global matching\<close>

text \<open>\<open>matchAll\<close>: after an empty match the search goes on one code unit further.\<close>

function rx_all_from :: "rx \<Rightarrow> jstr \<Rightarrow> nat \<Rightarrow> rx_match list" where
  "rx_all_from r s i =
    (case rx_exec r s i of
      None \<Rightarrow> []
    | Some m \<Rightarrow> m # rx_all_from r s (if rx_end m = rx_start m then Suc (rx_end m) else rx_end m))"
  by pat_completeness auto
termination
proof (relation "measure (\<lambda>(r, s, i). Suc (length s) - i)")
  fix r s i m
  assume "rx_exec r s i = Some m"
  from rx_execD [OF this]
  show "((r, s, if rx_end m = rx_start m then Suc (rx_end m) else rx_end m), r, s, i)
      \<in> measure (\<lambda>(r, s, i). Suc (length s) - i)"
    by auto
qed simp

declare rx_all_from.simps [simp del]

definition rx_all :: "rx \<Rightarrow> jstr \<Rightarrow> rx_match list" where
  "rx_all r s = rx_all_from r s 0"

lemma rx_all_from_exec:
  assumes "m \<in> set (rx_all_from r s i)"
  shows "\<exists>k. i \<le> k \<and> rx_exec r s k = Some m"
  using assms
proof (induction r s i rule: rx_all_from.induct)
  case (1 r s i)
  show ?case
  proof (cases "rx_exec r s i")
    case None
    with "1.prems" show ?thesis by (simp add: rx_all_from.simps [of r s i])
  next
    case (Some m0)
    with "1.prems" have "m = m0 \<or>
        m \<in> set (rx_all_from r s (if rx_end m0 = rx_start m0 then Suc (rx_end m0) else rx_end m0))"
      by (simp add: rx_all_from.simps [of r s i])
    then show ?thesis
    proof
      assume "m = m0"
      with Some show ?thesis by auto
    next
      assume "m \<in> set (rx_all_from r s (if rx_end m0 = rx_start m0 then Suc (rx_end m0) else rx_end m0))"
      from "1.IH" [OF Some this] obtain k where "rx_end m0 \<le> k" "rx_exec r s k = Some m"
        by (metis Suc_leD)
      moreover have "i \<le> rx_end m0" using rx_execD [OF Some] by linarith
      ultimately show ?thesis by (auto intro: exI [of _ k])
    qed
  qed
qed

lemma rx_all_bounds:
  assumes "m \<in> set (rx_all r s)"
  shows "rx_start m + rx_width r \<le> rx_end m" "rx_end m \<le> length s"
  using assms rx_all_from_exec rx_execD unfolding rx_all_def by blast+

text \<open>\<open>replace\<close> with a constant: the first match, or (flag \<open>g\<close>) every match.\<close>

definition rx_replace :: "rx \<Rightarrow> jstr \<Rightarrow> jstr \<Rightarrow> jstr" where
  "rx_replace r by_str s =
    (case rx_exec r s 0 of
      None \<Rightarrow> s
    | Some m \<Rightarrow> take (rx_start m) s @ by_str @ drop (rx_end m) s)"

definition rx_replace_all :: "rx \<Rightarrow> jstr \<Rightarrow> jstr \<Rightarrow> jstr" where
  "rx_replace_all r by_str s =
    (let ms = rx_all r s;
         go = fold (\<lambda>m (out, at). (out @ slice s at (rx_start m) @ by_str, rx_end m)) ms ([], 0)
     in fst go @ drop (snd go) s)"

subsection \<open>What a match is made of\<close>

primrec rx_over :: "(char \<Rightarrow> bool) \<Rightarrow> rx \<Rightarrow> bool" where
  "rx_over Q REps = True"
| "rx_over Q (RSet P) = (\<forall>c. P c \<longrightarrow> Q c)"
| "rx_over Q (RSeq a b) = (rx_over Q a \<and> rx_over Q b)"
| "rx_over Q (RAlt a b) = (rx_over Q a \<and> rx_over Q b)"
| "rx_over Q (RRep r lo hi g) = rx_over Q r"
| "rx_over Q (RGroup n r) = rx_over Q r"
| "rx_over Q RBol = True"
| "rx_over Q REol = True"
| "rx_over Q RWordB = True"
| "rx_over Q (RNotAhead r) = True"

lemma rep_run_over:
  assumes f: "\<And>st st' k. st' \<in> set (f st) \<Longrightarrow> fst st \<le> k \<Longrightarrow> k < fst st' \<Longrightarrow> R k"
    and "st' \<in> set (rep_run f fuel lo hi g st)" "fst st \<le> k" "k < fst st'"
  shows "R k"
  using assms(2,3)
proof (induction fuel arbitrary: lo hi st)
  case (Suc fuel)
  from Suc.prems assms(4) obtain st1 where st1: "st1 \<in> set (f st)"
    and more: "st' \<in> set (rep_run f fuel (lo - 1) (map_option (\<lambda>n. n - 1) hi) g st1)"
    unfolding rep_run_iff by (auto split: if_splits)
  show ?case
  proof (cases "k < fst st1")
    case True
    with f [OF st1 Suc.prems(2)] show ?thesis by simp
  next
    case False
    with Suc.IH [OF more] show ?thesis by simp
  qed
qed simp

lemma rx_run_over:
  assumes "rx_over Q r" "st' \<in> set (rx_run r s st)" "fst st \<le> k" "k < fst st'"
  shows "Q (s ! k)"
  using assms
proof (induction r arbitrary: st st' k)
  case (RSet P)
  then have "k = fst st" by (auto split: if_splits)
  with RSet show ?case by (auto split: if_splits)
next
  case (RSeq a b)
  from RSeq.prems obtain st1 where "st1 \<in> set (rx_run a s st)" "st' \<in> set (rx_run b s st1)"
    by auto
  with RSeq show ?case by (metis linorder_not_le rx_over.simps(3))
next
  case (RRep r lo hi g)
  from RRep.prems(2) have mem: "st' \<in> set (rep_run (rx_run r s) (Suc (lo + (length s - fst st))) lo hi g st)"
    by (simp del: rep_run.simps)
  show ?case
    by (rule rep_run_over [OF _ mem RRep.prems(3,4)]) (use RRep in auto)
next
  case (RGroup n r)
  from RGroup.prems(2) obtain st1 where st1: "st1 \<in> set (rx_run r s st)" "fst st1 = fst st'"
    by auto
  with RGroup.IH [OF _ st1(1) RGroup.prems(3)] RGroup.prems(1,4) show ?case by simp
qed (auto split: if_splits)

lemma rx_text_over:
  assumes "rx_exec r s i = Some m" "rx_over Q r" "c \<in> set (rx_text m s)"
  shows "Q c"
proof -
  note b = rx_execD [OF assms(1)]
  from assms(3) obtain n where "n < rx_end m - rx_start m" "c = s ! (rx_start m + n)"
    using b by (auto simp: rx_text_def slice_def in_set_conv_nth rx_start_def rx_end_def)
  with rx_run_over [OF assms(2) b(4), of "rx_start m + n"] show ?thesis
    by (auto simp: rx_start_def rx_end_def)
qed

text \<open>Testing a one-character class looks for a character of the class.\<close>

lemma rx_test_set: "rx_test (RSet P) s \<longleftrightarrow> (\<exists>c \<in> set s. P c)"
proof
  assume "rx_test (RSet P) s"
  then show "\<exists>c \<in> set s. P c"
    by (auto simp: rx_test_def split: if_splits)
next
  assume "\<exists>c \<in> set s. P c"
  then obtain k where "k < length s" "P (s ! k)"
    by (auto simp: in_set_conv_nth)
  then show "rx_test (RSet P) s"
    by (auto simp: rx_test_def intro!: bexI [of _ k])
qed

lemma rx_test_alt: "rx_test (RAlt a b) s \<longleftrightarrow> rx_test a s \<or> rx_test b s"
  by (auto simp: rx_test_def)

subsection \<open>The first match of the common shapes\<close>

lemma rx_seq_hd:
  assumes "rx_run a s st = x # xs" "rx_run b s x = y # ys"
  shows "\<exists>zs. rx_run (RSeq a b) s st = y # zs"
  using assms by simp

lemma rx_run_lit:
  "rx_run (rlit p) s (i, c) = (if starts_at s i p then [(i + length p, c)] else [])"
proof (induction p arbitrary: i)
  case (Cons x p)
  show ?case
  proof (cases "i < length s")
    case True
    then have "drop i s = s ! i # drop (Suc i) s" by (simp add: Cons_nth_drop_Suc)
    with True Cons [of "Suc i"] show ?thesis by (auto simp: starts_at_def)
  qed (simp add: starts_at_def)
qed (simp add: starts_at_def)

text \<open>A greedy repetition of a class takes the whole run of characters of the class.\<close>

lemma rep_run_class:
  assumes run: "\<forall>k < length ds. i + k < length s \<and> s ! (i + k) = ds ! k \<and> P (ds ! k)"
    and stop: "i + length ds < length s \<longrightarrow> \<not> P (s ! (i + length ds))"
    and fuel: "length ds < fuel" and lo: "lo \<le> length ds"
  shows "\<exists>zs. rep_run (rx_run (RSet P) s) fuel lo None True (i, c) = (i + length ds, c) # zs"
  using assms
proof (induction ds arbitrary: i fuel lo)
  case Nil
  then obtain k where "fuel = Suc k" by (cases fuel) auto
  with Nil show ?case by (auto simp: Let_def)
next
  case (Cons d ds)
  from Cons.prems(3) obtain k where k: "fuel = Suc k" "length ds < k" by (cases fuel) auto
  from Cons.prems(1) have d: "i < length s" "s ! i = d" "P d"
    by (metis add.right_neutral length_Cons nth_Cons_0 zero_less_Suc)+
  have "\<exists>zs. rep_run (rx_run (RSet P) s) k (lo - 1) None True (Suc i, c) = (Suc i + length ds, c) # zs"
  proof (rule Cons.IH)
    show "\<forall>k < length ds. Suc i + k < length s \<and> s ! (Suc i + k) = ds ! k \<and> P (ds ! k)"
      using Cons.prems(1) by (metis Suc_less_eq add_Suc_shift length_Cons nth_Cons_Suc)
  qed (use Cons.prems k in auto)
  then obtain zs where zs: "rep_run (rx_run (RSet P) s) k (lo - 1) None True (Suc i, c)
      = (i + length (d # ds), c) # zs"
    by auto
  have "rx_run (RSet P) s (i, c) = [(Suc i, c)]" using d by simp
  then show ?case
    unfolding k rep_run.simps(2) using zs by (simp add: Let_def)
qed

lemma rx_run_plus_class:
  assumes "drop i s = ds @ rest" "\<forall>d \<in> set ds. P d" "rest = [] \<or> \<not> P (hd rest)" "ds \<noteq> []"
  shows "\<exists>zs. rx_run (rplus (RSet P)) s (i, c) = (i + length ds, c) # zs"
proof -
  have len: "length s - i = length ds + length rest"
    using arg_cong [OF assms(1), of length] by simp
  have nth: "s ! (i + k) = (ds @ rest) ! k" if "k < length ds + length rest" for k
  proof -
    from that len have "i \<le> length s" by linarith
    then have "drop i s ! k = s ! (i + k)" by (rule nth_drop)
    with assms(1) show ?thesis by simp
  qed
  have "\<exists>zs. rep_run (rx_run (RSet P) s) (Suc (1 + (length s - i))) 1 None True (i, c)
      = (i + length ds, c) # zs"
  proof (rule rep_run_class)
    show "\<forall>k < length ds. i + k < length s \<and> s ! (i + k) = ds ! k \<and> P (ds ! k)"
      using nth len assms(2) by (auto simp: nth_append)
    show "i + length ds < length s \<longrightarrow> \<not> P (s ! (i + length ds))"
      using nth [of "length ds"] len assms(3) by (cases rest) (auto simp: nth_append)
    show "length ds < Suc (1 + (length s - i))" using len by simp
    show "1 \<le> length ds" using assms(4) by (cases ds) auto
  qed
  then show ?thesis unfolding rx_run.simps fst_conv .
qed

lemma rx_run_opt:
  assumes "rx_run r s st = x # xs" "fst x \<noteq> fst st" "fst st \<le> length s"
  shows "\<exists>zs. rx_run (ropt r) s st = x # zs"
proof -
  from assms(1) have "x \<in> set (rx_run r s st)" by simp
  with forwardD [OF rx_run_forward this] assms(2,3) have "fst st < length s" by auto
  then obtain k where "length s - fst st = Suc k" by (metis Suc_diff_Suc)
  with assms show ?thesis by (auto simp: Let_def)
qed

lemma rx_exec_bol:
  "rx_exec (RSeq RBol r) s 0 = (case rx_run r s (0, []) of [] \<Rightarrow> None | st # _ \<Rightarrow> Some (0, st))"
proof (cases "rx_run r s (0, [])")
  case Nil
  then have "List.find (\<lambda>k. rx_run (RSeq RBol r) s (k, []) \<noteq> []) [0..<Suc (length s)] = None"
    by (auto simp: find_None_iff)
  with Nil show ?thesis by (simp add: rx_exec_def)
next
  case (Cons st sts)
  then show ?thesis by (simp add: rx_exec_def upt_rec)
qed

text \<open>\<open>rx_takes r s st st'\<close>: the first way \<open>r\<close> matches from \<open>st\<close> ends in \<open>st'\<close>.\<close>

definition rx_takes :: "rx \<Rightarrow> jstr \<Rightarrow> rx_state \<Rightarrow> rx_state \<Rightarrow> bool" where
  "rx_takes r s st st' \<longleftrightarrow> (\<exists>zs. rx_run r s st = st' # zs)"

lemma rx_takes_seq:
  "rx_takes a s st st1 \<Longrightarrow> rx_takes b s st1 st2 \<Longrightarrow> rx_takes (RSeq a b) s st st2"
  using rx_seq_hd unfolding rx_takes_def by blast

lemma rx_takes_lit:
  "drop i s = p @ rest \<Longrightarrow> rx_takes (rlit p) s (i, c) (i + length p, c)"
  by (simp add: rx_takes_def rx_run_lit starts_at_def)

lemma rx_takes_digits:
  assumes "drop i s = ds @ rest" "\<forall>d \<in> set ds. P d" "rest = [] \<or> \<not> P (hd rest)" "ds \<noteq> []"
  shows "rx_takes (rplus (RSet P)) s (i, c) (i + length ds, c)"
  using rx_run_plus_class [OF assms] by (simp add: rx_takes_def del: rx_run.simps)

lemma rx_takes_group:
  "rx_takes r s st st' \<Longrightarrow> rx_takes (RGroup n r) s st (fst st', (n, (fst st, fst st')) # snd st')"
  by (auto simp: rx_takes_def)

lemma rx_takes_opt:
  "rx_takes r s st st' \<Longrightarrow> fst st' \<noteq> fst st \<Longrightarrow> fst st \<le> length s \<Longrightarrow> rx_takes (ropt r) s st st'"
  using rx_run_opt unfolding rx_takes_def by blast

end
