(* ===== verification/Diff_Parser.thy ===== *)
theory Diff_Parser
  imports Js_Regex
begin

section \<open>Unified-diff parsing and line mapping\<close>

text \<open>
  \<open>src/queue/diff/diff-parser.ts\<close> and \<open>src/queue/lifecycle/line-mapping.ts\<close>: a file's
  patch text becomes hunks whose lines carry their old-side and new-side numbers, and an
  old line is followed through the hunks to its place in the new file.  The contract of a
  unified diff is \<open>diff_between\<close>: the hunks, applied in order to the old file, give the new
  one.  The lemmas show that the parser numbers lines consecutively, that it inverts
  printing, and that the line mapping finds the line with the same text.
\<close>

subsection \<open>Data\<close>

datatype line_kind = Add | Del | Context

record diff_line =
  dl_kind :: line_kind
  dl_newLine :: "line_no option"
  dl_oldLine :: "line_no option"
  dl_text :: jstr

record diff_hunk =
  dh_oldStart :: line_no
  dh_oldCount :: int
  dh_newStart :: line_no
  dh_lines :: "diff_line list"

text \<open>\<open>/^@@ -(\d+)(?:,(\d+))? \+(\d+)(?:,\d+)? @@/\<close>\<close>

definition HUNK_HEADER_PATTERN :: rx where
  "HUNK_HEADER_PATTERN = RSeq RBol (rseq
    [rlit ''@@ -'', RGroup 1 (rplus (RSet is_digit)),
     ropt (RSeq (rlit '','') (RGroup 2 (rplus (RSet is_digit)))),
     rlit '' +'', RGroup 3 (rplus (RSet is_digit)),
     ropt (RSeq (rlit '','') (rplus (RSet is_digit))),
     rlit '' @@''])"

text \<open>
  The parser's variables: the hunks already closed, \<open>currentHunk\<close>, and the next line number
  of each side.
\<close>

record parse_state =
  ps_closed :: "diff_hunk list"
  ps_current :: "diff_hunk option"
  ps_nextNew :: line_no
  ps_nextOld :: line_no

definition push_line :: "diff_line \<Rightarrow> parse_state \<Rightarrow> parse_state" where
  "push_line l st = st\<lparr>ps_current := map_option (\<lambda>h. h\<lparr>dh_lines := dh_lines h @ [l]\<rparr>) (ps_current st)\<rparr>"

definition number_group :: "nat \<Rightarrow> rx_match \<Rightarrow> jstr \<Rightarrow> int option" where
  "number_group n m s = map_option (\<lambda>d. int (digits_val d)) (rx_group n m s)"

definition open_hunk :: "rx_match \<Rightarrow> jstr \<Rightarrow> parse_state \<Rightarrow> parse_state" where
  "open_hunk m raw st =
    (let old = (case number_group 1 m raw of Some k \<Rightarrow> k | None \<Rightarrow> 0);
         new = (case number_group 3 m raw of Some k \<Rightarrow> k | None \<Rightarrow> 0)
     in \<lparr>ps_closed = ps_closed st @ (case ps_current st of None \<Rightarrow> [] | Some h \<Rightarrow> [h]),
         ps_current = Some \<lparr>dh_oldStart = old,
           dh_oldCount = (case number_group 2 m raw of None \<Rightarrow> 1 | Some k \<Rightarrow> k),
           dh_newStart = new, dh_lines = []\<rparr>,
         ps_nextNew = new, ps_nextOld = old\<rparr>)"

definition parse_raw_line :: "parse_state \<Rightarrow> jstr \<Rightarrow> parse_state" where
  "parse_raw_line st raw =
    (case rx_exec HUNK_HEADER_PATTERN raw 0 of
      Some m \<Rightarrow> open_hunk m raw st
    | None \<Rightarrow>
        if ps_current st = None then st
        else if starts_with raw ''+'' then
          (push_line \<lparr>dl_kind = Add, dl_newLine = Some (ps_nextNew st), dl_oldLine = None,
            dl_text = drop 1 raw\<rparr> st)\<lparr>ps_nextNew := ps_nextNew st + 1\<rparr>
        else if starts_with raw ''-'' then
          (push_line \<lparr>dl_kind = Del, dl_newLine = None, dl_oldLine = Some (ps_nextOld st),
            dl_text = drop 1 raw\<rparr> st)\<lparr>ps_nextOld := ps_nextOld st + 1\<rparr>
        else if starts_with raw '' '' \<or> raw = [] then
          (push_line \<lparr>dl_kind = Context, dl_newLine = Some (ps_nextNew st),
            dl_oldLine = Some (ps_nextOld st), dl_text = drop 1 raw\<rparr> st)
            \<lparr>ps_nextNew := ps_nextNew st + 1, ps_nextOld := ps_nextOld st + 1\<rparr>
        else st)"

definition parse_init :: parse_state where
  "parse_init = \<lparr>ps_closed = [], ps_current = None, ps_nextNew = 0, ps_nextOld = 0\<rparr>"

definition parse_result :: "parse_state \<Rightarrow> diff_hunk list" where
  "parse_result st = ps_closed st @ (case ps_current st of None \<Rightarrow> [] | Some h \<Rightarrow> [h])"

definition parsePatch :: "jstr \<Rightarrow> diff_hunk list" where
  "parsePatch patch = parse_result (foldl parse_raw_line parse_init (split_on CHR 0x0A patch))"

text \<open>\<open>mapOldLine\<close>: \<open>offset\<close> is the loop's running difference between the two sides.\<close>

definition count_kind :: "line_kind \<Rightarrow> diff_line list \<Rightarrow> int" where
  "count_kind k ls = int (length (filter (\<lambda>l. dl_kind l = k) ls))"

definition first_old :: "diff_hunk \<Rightarrow> line_no" where
  "first_old h = (if dh_oldCount h = 0 then dh_oldStart h + 1 else dh_oldStart h)"

fun map_old_from :: "int \<Rightarrow> diff_hunk list \<Rightarrow> line_no \<Rightarrow> line_no option" where
  "map_old_from offset [] oldLine = Some (oldLine + offset)"
| "map_old_from offset (h # hs) oldLine =
    (if oldLine < first_old h then Some (oldLine + offset)
     else if oldLine \<le> first_old h + dh_oldCount h - 1 then
       (case List.find (\<lambda>l. dl_oldLine l = Some oldLine) (dh_lines h) of
         Some l \<Rightarrow> if dl_kind l = Context then dl_newLine l else None
       | None \<Rightarrow> None)
     else map_old_from (offset + (count_kind Add (dh_lines h) - count_kind Del (dh_lines h))) hs oldLine)"

definition mapOldLine :: "diff_hunk list \<Rightarrow> line_no \<Rightarrow> line_no option" where
  "mapOldLine hunks oldLine = map_old_from 0 hunks oldLine"

text \<open>\<open>mapLineThroughHunks\<close>: the loop over \<open>oldStart..oldEnd\<close>, stopping at the first lost line.\<close>

fun map_lines_loop ::
  "diff_hunk list \<Rightarrow> line_no list \<Rightarrow> line_no option \<Rightarrow> line_no option \<Rightarrow> (line_no \<times> line_no) option" where
  "map_lines_loop hunks [] start stop =
    (case (start, stop) of (Some s, Some e) \<Rightarrow> Some (s, e) | _ \<Rightarrow> None)"
| "map_lines_loop hunks (l # ls) start stop =
    (case mapOldLine hunks l of
      None \<Rightarrow> None
    | Some m \<Rightarrow> map_lines_loop hunks ls (case start of None \<Rightarrow> Some m | Some s \<Rightarrow> Some s) (Some m))"

definition mapLineThroughHunks ::
  "diff_hunk list \<Rightarrow> line_no \<Rightarrow> line_no \<Rightarrow> (line_no \<times> line_no) option" where
  "mapLineThroughHunks hunks oldStart oldEnd = map_lines_loop hunks [oldStart..oldEnd] None None"

subsection \<open>Consecutive numbering\<close>

text \<open>
  \<open>numbered a b ls\<close>: the old-side numbers of \<open>ls\<close> run from \<open>a\<close>, the new-side numbers
  from \<open>b\<close>, and each line carries exactly the numbers its kind has.
\<close>

fun numbered :: "line_no \<Rightarrow> line_no \<Rightarrow> diff_line list \<Rightarrow> bool" where
  "numbered a b [] = True"
| "numbered a b (l # ls) =
    (case dl_kind l of
      Add \<Rightarrow> dl_newLine l = Some b \<and> dl_oldLine l = None \<and> numbered a (b + 1) ls
    | Del \<Rightarrow> dl_newLine l = None \<and> dl_oldLine l = Some a \<and> numbered (a + 1) b ls
    | Context \<Rightarrow> dl_newLine l = Some b \<and> dl_oldLine l = Some a \<and> numbered (a + 1) (b + 1) ls)"

definition old_side :: "diff_line list \<Rightarrow> jstr list" where
  "old_side ls = map dl_text (filter (\<lambda>l. dl_kind l \<noteq> Add) ls)"

definition new_side :: "diff_line list \<Rightarrow> jstr list" where
  "new_side ls = map dl_text (filter (\<lambda>l. dl_kind l \<noteq> Del) ls)"

lemma side_simps [simp]:
  "old_side [] = []" "new_side [] = []"
  "old_side (l # ls) = (if dl_kind l = Add then old_side ls else dl_text l # old_side ls)"
  "new_side (l # ls) = (if dl_kind l = Del then new_side ls else dl_text l # new_side ls)"
  "old_side (ks @ ls) = old_side ks @ old_side ls" "new_side (ks @ ls) = new_side ks @ new_side ls"
  by (simp_all add: old_side_def new_side_def)

lemma count_kind_sides:
  "count_kind Add ls - count_kind Del ls = int (length (new_side ls)) - int (length (old_side ls))"
proof (induction ls)
  case (Cons l ls)
  then show ?case by (cases "dl_kind l") (simp_all add: count_kind_def)
qed (simp add: count_kind_def)

lemma numbered_snoc:
  "numbered a b (ls @ [l]) \<longleftrightarrow>
    numbered a b ls \<and> numbered (a + int (length (old_side ls))) (b + int (length (new_side ls))) [l]"
proof (induction ls arbitrary: a b)
  case (Cons k ls)
  then show ?case by (cases "dl_kind k"; cases "dl_kind l") (auto simp: algebra_simps)
qed simp

definition hunk_numbered :: "diff_hunk \<Rightarrow> bool" where
  "hunk_numbered h \<longleftrightarrow> numbered (dh_oldStart h) (dh_newStart h) (dh_lines h)"

definition parse_inv :: "parse_state \<Rightarrow> bool" where
  "parse_inv st \<longleftrightarrow> (\<forall>h \<in> set (ps_closed st). hunk_numbered h) \<and>
    (\<forall>h. ps_current st = Some h \<longrightarrow> hunk_numbered h \<and>
      ps_nextOld st = dh_oldStart h + int (length (old_side (dh_lines h))) \<and>
      ps_nextNew st = dh_newStart h + int (length (new_side (dh_lines h))))"

lemma parse_raw_line_inv: "parse_inv st \<Longrightarrow> parse_inv (parse_raw_line st raw)"
proof -
  assume inv: "parse_inv st"
  show ?thesis
  proof (cases "rx_exec HUNK_HEADER_PATTERN raw 0")
    case (Some m)
    with inv show ?thesis
      by (auto simp: parse_raw_line_def open_hunk_def parse_inv_def hunk_numbered_def Let_def
          split: option.splits)
  next
    case None
    show ?thesis
    proof (cases "ps_current st")
      case None
      with inv \<open>rx_exec HUNK_HEADER_PATTERN raw 0 = None\<close> show ?thesis
        by (simp add: parse_raw_line_def)
    next
      case (Some h)
      with inv \<open>rx_exec HUNK_HEADER_PATTERN raw 0 = None\<close> show ?thesis
        by (auto simp: parse_raw_line_def parse_inv_def hunk_numbered_def push_line_def numbered_snoc)
    qed
  qed
qed

lemma foldl_parse_inv: "parse_inv st \<Longrightarrow> parse_inv (foldl parse_raw_line st ls)"
  by (induction ls arbitrary: st) (simp_all add: parse_raw_line_inv)

lemma parsePatch_hunk_numbered: "h \<in> set (parsePatch patch) \<Longrightarrow> hunk_numbered h"
proof -
  have "parse_inv (foldl parse_raw_line parse_init (split_on CHR 0x0A patch))"
    by (rule foldl_parse_inv) (simp add: parse_inv_def parse_init_def)
  then show "h \<in> set (parsePatch patch) \<Longrightarrow> hunk_numbered h"
    by (auto simp: parsePatch_def parse_result_def parse_inv_def split: option.splits)
qed

lemma numbered_add_line:
  "numbered a b ls \<Longrightarrow> l \<in> set ls \<Longrightarrow> dl_kind l = Add \<Longrightarrow>
    \<exists>n. dl_newLine l = Some n \<and> b \<le> n \<and> n < b + int (length (new_side ls))"
proof (induction a b ls rule: numbered.induct)
  case (2 a b k ls)
  then show ?case by (cases "dl_kind k") fastforce+
qed simp

subsection \<open>The contract of a unified diff\<close>

definition first_new :: "diff_hunk \<Rightarrow> line_no" where
  "first_new h = (if new_side (dh_lines h) = [] then dh_newStart h + 1 else dh_newStart h)"

definition hunk_ok :: "diff_hunk \<Rightarrow> bool" where
  "hunk_ok h \<longleftrightarrow> hunk_numbered h \<and> dh_oldCount h = int (length (old_side (dh_lines h)))"

text \<open>
  \<open>diff_from a b hs old new\<close>: \<open>old\<close> and \<open>new\<close> are what is left of the two files from old
  line \<open>a\<close> and new line \<open>b\<close>; the lines before the next hunk are the same, the hunk's old
  side is replaced by its new side, and so on.
\<close>

fun diff_from :: "line_no \<Rightarrow> line_no \<Rightarrow> diff_hunk list \<Rightarrow> jstr list \<Rightarrow> jstr list \<Rightarrow> bool" where
  "diff_from a b [] old new \<longleftrightarrow> old = new"
| "diff_from a b (h # hs) old new \<longleftrightarrow>
    (let k = nat (first_old h - a);
         os = old_side (dh_lines h); ns = new_side (dh_lines h)
     in hunk_ok h \<and> a \<le> first_old h \<and> first_new h = b + int k \<and>
        k \<le> length old \<and> k \<le> length new \<and> take k old = take k new \<and>
        take (length os) (drop k old) = os \<and> take (length ns) (drop k new) = ns \<and>
        diff_from (a + int k + int (length os)) (b + int k + int (length ns)) hs
          (drop (k + length os) old) (drop (k + length ns) new))"

definition diff_between :: "diff_hunk list \<Rightarrow> jstr list \<Rightarrow> jstr list \<Rightarrow> bool" where
  "diff_between hs old new \<longleftrightarrow> diff_from 1 1 hs old new"

text \<open>Line \<open>l\<close> of a file whose remaining lines start at line \<open>a\<close>.\<close>

definition line_at :: "line_no \<Rightarrow> jstr list \<Rightarrow> line_no \<Rightarrow> jstr option" where
  "line_at a ls l = (if a \<le> l \<and> l < a + int (length ls) then Some (ls ! nat (l - a)) else None)"

lemma line_at_drop:
  "k \<le> length ls \<Longrightarrow> a + int k \<le> l \<Longrightarrow> line_at (a + int k) (drop k ls) l = line_at a ls l"
  by (auto simp: line_at_def nat_diff_distrib algebra_simps intro!: arg_cong [where f = "nth ls"])

lemma line_at_append1: "l < a + int (length xs) \<Longrightarrow> line_at a (xs @ ys) l = line_at a xs l"
  by (auto simp: line_at_def nth_append)

text \<open>
  Inside a hunk: an old number is found, and what it maps to is the new-side line with the
  same text; a number that maps to nothing belongs to a deleted line.
\<close>

lemma find_old_line:
  assumes "numbered a b ls" "a \<le> l" "l < a + int (length (old_side ls))"
  shows "\<exists>d. List.find (\<lambda>d. dl_oldLine d = Some l) ls = Some d \<and> d \<in> set ls \<and>
    line_at a (old_side ls) l = Some (dl_text d) \<and>
    (dl_kind d = Del \<or> dl_kind d = Context \<and>
      (\<exists>m. dl_newLine d = Some m \<and> b \<le> m \<and> line_at b (new_side ls) m = Some (dl_text d)))"
  using assms
proof (induction a b ls rule: numbered.induct)
  case (2 a b k ls)
  have shift_old: "line_at a (x # xs) l = line_at (a + 1) xs l" if "a < l" for x xs
    using that line_at_drop [of 1 "x # xs" a l] by (simp add: line_at_def)
  have shift_new: "line_at (b + 1) xs m = Some t \<Longrightarrow> b + 1 \<le> m \<Longrightarrow> line_at b (x # xs) m = Some t" for x xs m t
    using line_at_drop [of 1 "x # xs" b m] by simp
  show ?case
  proof (cases "dl_kind k")
    case Add
    with 2 show ?thesis by (fastforce intro: shift_new)
  next
    case Del
    show ?thesis
    proof (cases "l = a")
      case True
      with Del 2 show ?thesis by (auto simp: line_at_def)
    next
      case False
      with Del 2 show ?thesis by (auto simp: shift_old)
    qed
  next
    case Context
    show ?thesis
    proof (cases "l = a")
      case True
      with Context 2 show ?thesis by (auto simp: line_at_def)
    next
      case False
      with Context "2.prems" "2.IH"(3) have
        "\<exists>d. List.find (\<lambda>d. dl_oldLine d = Some l) ls = Some d \<and> d \<in> set ls \<and>
          line_at (a + 1) (old_side ls) l = Some (dl_text d) \<and>
          (dl_kind d = Del \<or> dl_kind d = Context \<and>
            (\<exists>m. dl_newLine d = Some m \<and> b + 1 \<le> m \<and> line_at (b + 1) (new_side ls) m = Some (dl_text d)))"
        by auto
      with False Context "2.prems" show ?thesis by (fastforce simp: shift_old intro: shift_new)
    qed
  qed
qed simp

subsection \<open>Following an old line\<close>

lemma line_at_segment:
  assumes "take (length ys) (drop k xs) = ys" "line_at (a + int k) ys l = Some t"
  shows "line_at a xs l = Some t"
proof -
  from assms(2) have l: "a + int k \<le> l" "l < a + int k + int (length ys)" "ys ! nat (l - (a + int k)) = t"
    by (auto simp: line_at_def split: if_splits)
  have len: "length ys \<le> length xs - k" using arg_cong [OF assms(1), of length] by simp
  from l have n: "nat (l - (a + int k)) < length ys" "nat (l - a) = k + nat (l - (a + int k))"
    by linarith+
  have "take (length ys) (drop k xs) ! nat (l - (a + int k)) = xs ! (k + nat (l - (a + int k)))"
    using n(1) len by simp
  then have "t = xs ! nat (l - a)" using assms(1) l(3) n(2) by simp
  moreover have "a \<le> l" "l < a + int (length xs)" using l len n by linarith+
  ultimately show ?thesis by (simp add: line_at_def)
qed

text \<open>What a step of the mapping needs of the first hunk, out of \<open>diff_from\<close>.\<close>

lemma diff_from_ConsE:
  assumes "diff_from a b (h # hs) old new"
  obtains k os ns where "os = old_side (dh_lines h)" "ns = new_side (dh_lines h)"
    "hunk_numbered h" "dh_oldCount h = int (length os)" "first_old h = a + int k"
    "first_new h = b + int k" "k + length os \<le> length old" "k + length ns \<le> length new"
    "take k old = take k new" "take (length os) (drop k old) = os" "take (length ns) (drop k new) = ns"
    "diff_from (a + int k + int (length os)) (b + int k + int (length ns)) hs
       (drop (k + length os) old) (drop (k + length ns) new)"
proof -
  define k where "k = nat (first_old h - a)"
  note d = assms [unfolded diff_from.simps Let_def k_def [symmetric]]
  then have fo: "first_old h = a + int k" by (simp add: k_def)
  have "k + length (old_side (dh_lines h)) \<le> length old" "k + length (new_side (dh_lines h)) \<le> length new"
    using d by (simp_all add: take_drop_bound)
  with d fo show ?thesis
    by (intro that [OF refl refl, of k]) (simp_all add: hunk_ok_def)
qed

lemma map_old_from_correct:
  assumes "diff_from a b hs old new" "a \<le> l" "l < a + int (length old)"
  shows "case map_old_from (b - a) hs l of
      Some m \<Rightarrow> b \<le> m \<and> line_at b new m = line_at a old l
    | None \<Rightarrow> \<exists>h \<in> set hs. \<exists>d \<in> set (dh_lines h). dl_kind d = Del \<and> dl_oldLine d = Some l \<and>
        line_at a old l = Some (dl_text d)"
  using assms
proof (induction hs arbitrary: a b old new)
  case Nil
  then show ?case by (auto simp: line_at_def)
next
  case (Cons h hs)
  from Cons.prems(1) show ?case
  proof (rule diff_from_ConsE)
    fix k os ns
    assume os: "os = old_side (dh_lines h)" and ns: "ns = new_side (dh_lines h)"
      and num: "hunk_numbered h" and cnt: "dh_oldCount h = int (length os)"
      and fo: "first_old h = a + int k" and fn: "first_new h = b + int k"
      and lens: "k + length os \<le> length old" "k + length ns \<le> length new"
      and same: "take k old = take k new"
      and seg: "take (length os) (drop k old) = os" "take (length ns) (drop k new) = ns"
      and rest: "diff_from (a + int k + int (length os)) (b + int k + int (length ns)) hs
        (drop (k + length os) old) (drop (k + length ns) new)"
    show ?case
    proof (cases "l < first_old h")
      case True
      with Cons.prems fo lens have "nat (l - a) < k" by linarith
      then have "old ! nat (l - a) = new ! nat (l - a)"
        using same by (metis nth_take)
      with True Cons.prems fo lens show ?thesis by (auto simp: line_at_def)
    next
      case False
      show ?thesis
      proof (cases "l \<le> first_old h + dh_oldCount h - 1")
        case True
        with False cnt have pos: "dh_oldCount h \<noteq> 0" by auto
        then have fo': "dh_oldStart h = a + int k" using fo by (simp add: first_old_def)
        from num have "numbered (a + int k) (dh_newStart h) (dh_lines h)"
          by (simp add: hunk_numbered_def fo')
        from find_old_line [OF this, of l] False True fo cnt os obtain d where
          d: "List.find (\<lambda>d. dl_oldLine d = Some l) (dh_lines h) = Some d" "d \<in> set (dh_lines h)"
             "line_at (a + int k) os l = Some (dl_text d)"
          and kinds: "dl_kind d = Del \<or> dl_kind d = Context \<and> (\<exists>m. dl_newLine d = Some m \<and>
             dh_newStart h \<le> m \<and> line_at (dh_newStart h) ns m = Some (dl_text d))"
          by (auto simp: ns)
        from line_at_segment [OF seg(1) d(3)] have old: "line_at a old l = Some (dl_text d)" .
        show ?thesis
        proof (cases "dl_kind d = Del")
          case True
          have "dl_oldLine d = Some l" using find_SomeD [OF d(1)] by simp
          with True d old \<open>l \<le> _\<close> False show ?thesis by auto
        next
          case False
          with kinds obtain m where m: "dl_kind d = Context" "dl_newLine d = Some m"
            "dh_newStart h \<le> m" "line_at (dh_newStart h) ns m = Some (dl_text d)" by auto
          then have "new_side (dh_lines h) \<noteq> []" by (auto simp: ns line_at_def)
          then have fn': "dh_newStart h = b + int k" using fn by (simp add: first_new_def)
          from line_at_segment [OF seg(2)] m(4) have "line_at b new m = Some (dl_text d)"
            by (simp add: fn')
          with \<open>\<not> l < _\<close> \<open>l \<le> _\<close> d m fn' old show ?thesis by auto
        qed
      next
        case beyond: False
        let ?a = "a + int k + int (length os)" and ?b = "b + int k + int (length ns)"
        from beyond fo cnt have le: "?a \<le> l" by simp
        have off: "b - a + (count_kind Add (dh_lines h) - count_kind Del (dh_lines h)) = ?b - ?a"
          by (simp add: count_kind_sides os ns)
        have old: "line_at ?a (drop (k + length os) old) l = line_at a old l"
          using line_at_drop [of "k + length os" old a l] lens le by (simp add: algebra_simps)
        have new: "line_at ?b (drop (k + length ns) new) m = line_at b new m" if "?b \<le> m" for m
          using line_at_drop [of "k + length ns" new b m] lens that by (simp add: algebra_simps)
        have IH: "case map_old_from (?b - ?a) hs l of
            Some m \<Rightarrow> ?b \<le> m \<and> line_at ?b (drop (k + length ns) new) m = line_at ?a (drop (k + length os) old) l
          | None \<Rightarrow> \<exists>h \<in> set hs. \<exists>d \<in> set (dh_lines h). dl_kind d = Del \<and> dl_oldLine d = Some l \<and>
              line_at ?a (drop (k + length os) old) l = Some (dl_text d)"
          using lens le Cons.prems(3) by (intro Cons.IH [OF rest]) auto
        have "map_old_from (b - a) (h # hs) l = map_old_from (?b - ?a) hs l"
          unfolding off [symmetric] using False beyond by simp
        with IH old new show ?thesis by (auto split: option.splits)
      qed
    qed
  qed
qed

lemma mapOldLine_correct:
  assumes "diff_between hunks old new" "1 \<le> l" "l \<le> int (length old)"
  shows "case mapOldLine hunks l of
      Some m \<Rightarrow> line_at 1 new m = line_at 1 old l
    | None \<Rightarrow> \<exists>h \<in> set hunks. \<exists>d \<in> set (dh_lines h). dl_kind d = Del \<and> dl_oldLine d = Some l \<and>
        line_at 1 old l = Some (dl_text d)"
  using map_old_from_correct [of 1 1 hunks old new l] assms
  by (auto simp: mapOldLine_def diff_between_def split: option.splits)

text \<open>The mapping keeps the order of lines.\<close>

definition in_hunk_map :: "diff_line list \<Rightarrow> line_no \<Rightarrow> line_no option" where
  "in_hunk_map ls l = (case List.find (\<lambda>d. dl_oldLine d = Some l) ls of
      Some d \<Rightarrow> if dl_kind d = Context then dl_newLine d else None
    | None \<Rightarrow> None)"

lemma in_hunk_map_bounds:
  assumes "numbered a b ls" "in_hunk_map ls l = Some m"
  shows "a \<le> l \<and> l < a + int (length (old_side ls)) \<and> b \<le> m \<and> m < b + int (length (new_side ls))"
  using assms
proof (induction a b ls rule: numbered.induct)
  case (2 a b k ls)
  show ?case
  proof (cases "dl_kind k")
    case Add
    with 2 have "in_hunk_map ls l = Some m" "numbered a (b + 1) ls" by (auto simp: in_hunk_map_def)
    with 2 Add show ?thesis by auto
  next
    case Del
    with 2 show ?thesis by (cases "l = a") (auto simp: in_hunk_map_def)
  next
    case Context
    with 2 show ?thesis by (cases "l = a") (auto simp: in_hunk_map_def)
  qed
qed (simp add: in_hunk_map_def)

lemma in_hunk_map_mono:
  assumes "numbered a b ls" "in_hunk_map ls l1 = Some m1" "in_hunk_map ls l2 = Some m2" "l1 < l2"
  shows "m1 < m2"
  using assms
proof (induction a b ls rule: numbered.induct)
  case (2 a b k ls)
  have skip: "in_hunk_map (k # ls) l = in_hunk_map ls l" if "dl_oldLine k \<noteq> Some l" for l
    using that by (simp add: in_hunk_map_def)
  show ?case
  proof (cases "dl_kind k")
    case Add
    with 2 show ?thesis by (auto simp: skip)
  next
    case Del
    with "2.prems" have "l1 \<noteq> a" "l2 \<noteq> a" by (auto simp: in_hunk_map_def)
    with Del 2 show ?thesis by (auto simp: skip)
  next
    case Context
    with "2.prems" have num: "numbered (a + 1) (b + 1) ls" and old: "dl_oldLine k = Some a"
      and new: "dl_newLine k = Some b" by auto
    from "2.prems"(4) in_hunk_map_bounds [OF "2.prems"(1,2)] have "l2 \<noteq> a" by simp
    then have l2: "in_hunk_map ls l2 = Some m2" using "2.prems"(3) old by (simp add: skip)
    show ?thesis
    proof (cases "l1 = a")
      case True
      with "2.prems"(2) old new Context have "m1 = b" by (simp add: in_hunk_map_def)
      with in_hunk_map_bounds [OF num l2] show ?thesis by simp
    next
      case False
      then have "in_hunk_map ls l1 = Some m1" using "2.prems"(2) old by (simp add: skip)
      with Context num l2 "2.prems"(4) "2.IH"(3) show ?thesis by blast
    qed
  qed
qed (simp add: in_hunk_map_def)

lemma map_old_from_Cons:
  "map_old_from off (h # hs) l =
    (if l < first_old h then Some (l + off)
     else if l \<le> first_old h + dh_oldCount h - 1 then in_hunk_map (dh_lines h) l
     else map_old_from (off + (count_kind Add (dh_lines h) - count_kind Del (dh_lines h))) hs l)"
  by (simp add: in_hunk_map_def)

lemma map_old_from_ge:
  assumes "diff_from a b hs old new" "a \<le> l" "l < a + int (length old)" "map_old_from (b - a) hs l = Some m"
  shows "b \<le> m"
  using map_old_from_correct [OF assms(1-3)] assms(4) by simp

lemma map_old_from_mono:
  assumes "diff_from a b hs old new" "a \<le> l1" "l1 < l2" "l2 < a + int (length old)"
    "map_old_from (b - a) hs l1 = Some m1" "map_old_from (b - a) hs l2 = Some m2"
  shows "m1 < m2"
  using assms
proof (induction hs arbitrary: a b old new)
  case (Cons h hs)
  from Cons.prems(1) show ?case
  proof (rule diff_from_ConsE)
    fix k os ns
    assume os: "os = old_side (dh_lines h)" and ns: "ns = new_side (dh_lines h)"
      and num: "hunk_numbered h" and cnt: "dh_oldCount h = int (length os)"
      and fo: "first_old h = a + int k" and fn: "first_new h = b + int k"
      and lens: "k + length os \<le> length old" "k + length ns \<le> length new"
      and rest: "diff_from (a + int k + int (length os)) (b + int k + int (length ns)) hs
        (drop (k + length os) old) (drop (k + length ns) new)"
    let ?a = "a + int k + int (length os)" and ?b = "b + int k + int (length ns)"
    have off: "b - a + (count_kind Add (dh_lines h) - count_kind Del (dh_lines h)) = ?b - ?a"
      by (simp add: count_kind_sides os ns)
    note region = map_old_from_Cons [of "b - a" h hs, unfolded off fo cnt]
    have hunk: "b + int k \<le> m \<and> m < ?b" if "in_hunk_map (dh_lines h) l = Some m" for l m
    proof -
      from in_hunk_map_bounds [OF num [unfolded hunk_numbered_def] that]
      have "dh_newStart h \<le> m" "m < dh_newStart h + int (length ns)" by (auto simp: ns)
      moreover from this have "first_new h = dh_newStart h" by (auto simp: first_new_def ns)
      ultimately show ?thesis using fn by simp
    qed
    have past: "?b \<le> m" if "?a \<le> l" "l < a + int (length old)" "map_old_from (?b - ?a) hs l = Some m" for l m
      using map_old_from_ge [OF rest that(1) _ that(3)] that(2) lens by simp
    show ?case
    proof (cases "l1 < a + int k")
      case True
      with Cons.prems region [of l1] have m1: "m1 < b + int k" by simp
      have "m1 < m2" if "l2 < a + int k" using that True Cons.prems region [of l1] region [of l2] by simp
      moreover have "b + int k \<le> m2" if "\<not> l2 < a + int k"
        using that Cons.prems region [of l2] hunk [of l2 m2] past [of l2 m2]
        by (cases "l2 \<le> a + int k + int (length os) - 1") auto
      ultimately show ?thesis using m1 by linarith
    next
      case False
      show ?thesis
      proof (cases "l1 \<le> a + int k + int (length os) - 1")
        case True
        with False Cons.prems region [of l1] have h1: "in_hunk_map (dh_lines h) l1 = Some m1" by simp
        show ?thesis
        proof (cases "l2 \<le> a + int k + int (length os) - 1")
          case True
          with False Cons.prems region [of l2] have "in_hunk_map (dh_lines h) l2 = Some m2" by simp
          with in_hunk_map_mono [OF num [unfolded hunk_numbered_def] h1] Cons.prems show ?thesis by blast
        next
          case False
          with \<open>\<not> l1 < a + int k\<close> Cons.prems region [of l2] past [of l2 m2] hunk [OF h1]
          show ?thesis by simp
        qed
      next
        case beyond: False
        with False Cons.prems region [of l1] region [of l2]
        have "map_old_from (?b - ?a) hs l1 = Some m1" "map_old_from (?b - ?a) hs l2 = Some m2" by simp_all
        with beyond Cons.prems lens show ?thesis by (intro Cons.IH [OF rest]) auto
      qed
    qed
  qed
qed simp

lemma mapOldLine_mono:
  assumes "diff_between hunks old new" "1 \<le> l1" "l1 < l2" "l2 \<le> int (length old)"
    "mapOldLine hunks l1 = Some m1" "mapOldLine hunks l2 = Some m2"
  shows "m1 < m2"
  using map_old_from_mono [of 1 1 hunks old new l1 l2 m1 m2] assms
  by (simp add: mapOldLine_def diff_between_def)

subsection \<open>Following a range\<close>

lemma map_lines_loop_Some:
  "map_lines_loop hunks ls start stop = Some (s, e) \<longleftrightarrow>
    (\<forall>l \<in> set ls. mapOldLine hunks l \<noteq> None) \<and>
    (case start of Some s' \<Rightarrow> s = s' | None \<Rightarrow> ls \<noteq> [] \<and> mapOldLine hunks (hd ls) = Some s) \<and>
    (if ls = [] then stop = Some e else mapOldLine hunks (last ls) = Some e)"
proof (induction hunks ls start stop rule: map_lines_loop.induct)
  case (1 hunks start stop)
  then show ?case by (auto split: option.splits)
next
  case (2 hunks l ls start stop)
  show ?case
  proof (cases "mapOldLine hunks l")
    case (Some m)
    with 2 [OF Some] show ?thesis by (cases start) auto
  qed auto
qed

lemma upto_last: "i \<le> j \<Longrightarrow> last [i..j] = j"
  by (simp add: upto_rec2)

lemma upto_hd: "i \<le> j \<Longrightarrow> hd [i..j] = i"
  by (simp add: upto.simps)

lemma mapLineThroughHunks_Some:
  "mapLineThroughHunks hunks a b = Some (s, e) \<longleftrightarrow>
    a \<le> b \<and> (\<forall>l \<in> {a..b}. mapOldLine hunks l \<noteq> None) \<and>
    mapOldLine hunks a = Some s \<and> mapOldLine hunks b = Some e"
proof (cases "a \<le> b")
  case True
  then have "[a..b] \<noteq> []" by simp
  with True show ?thesis
    by (simp add: mapLineThroughHunks_def map_lines_loop_Some upto_last upto_hd del: upto_Nil2)
next
  case False
  then show ?thesis by (simp add: mapLineThroughHunks_def)
qed

lemma mapOldLine_gap:
  assumes "diff_between hunks old new" "1 \<le> a" "b \<le> int (length old)"
    "\<forall>l \<in> {a..b}. mapOldLine hunks l \<noteq> None" "mapOldLine hunks a = Some s"
  shows "a \<le> l \<Longrightarrow> l \<le> b \<Longrightarrow> mapOldLine hunks l = Some m \<Longrightarrow> l - a \<le> m - s"
proof (induction l arbitrary: m rule: int_ge_induct)
  case (step l)
  from step.hyps step.prems assms(4) obtain m' where m': "mapOldLine hunks l = Some m'" by force
  with step have "l - a \<le> m' - s" by simp
  moreover have "m' < m"
    using mapOldLine_mono [OF assms(1) _ _ _ m' step.prems(2)] step assms by simp
  ultimately show ?case by simp
qed (use assms(5) in simp)

lemma mapLineThroughHunks_range:
  assumes "diff_between hunks old new" "1 \<le> a" "b \<le> int (length old)"
    "mapLineThroughHunks hunks a b = Some (s, e)"
  shows "b - a \<le> e - s \<and> line_at 1 new s = line_at 1 old a \<and> line_at 1 new e = line_at 1 old b"
proof -
  from assms(4) have ab: "a \<le> b" "\<forall>l \<in> {a..b}. mapOldLine hunks l \<noteq> None"
    "mapOldLine hunks a = Some s" "mapOldLine hunks b = Some e"
    by (auto simp: mapLineThroughHunks_Some)
  from mapOldLine_gap [OF assms(1-3) ab(2,3) ab(1) order_refl ab(4)]
    mapOldLine_correct [OF assms(1), of a] mapOldLine_correct [OF assms(1), of b] ab assms(2,3)
  show ?thesis by simp
qed

subsection \<open>Printing a patch, and reading it back\<close>

definition render_line :: "diff_line \<Rightarrow> jstr" where
  "render_line l = (case dl_kind l of Add \<Rightarrow> CHR ''+'' | Del \<Rightarrow> CHR ''-'' | Context \<Rightarrow> CHR 0x20) # dl_text l"

definition render_header :: "diff_hunk \<Rightarrow> jstr" where
  "render_header h = ''@@ -'' @ show_nat (nat (dh_oldStart h)) @ '','' @ show_nat (nat (dh_oldCount h)) @
    '' +'' @ show_nat (nat (dh_newStart h)) @ '','' @ show_nat (length (new_side (dh_lines h))) @ '' @@''"

definition render_patch :: "diff_hunk list \<Rightarrow> jstr" where
  "render_patch hs = join [CHR 0x0A] (concat (map (\<lambda>h. render_header h # map render_line (dh_lines h)) hs))"

text \<open>Hunks a provider can print: numbered, no negative number, no line break in a line.\<close>

definition printable :: "diff_hunk \<Rightarrow> bool" where
  "printable h \<longleftrightarrow> 0 \<le> dh_oldStart h \<and> 0 \<le> dh_oldCount h \<and> 0 \<le> dh_newStart h \<and> hunk_numbered h \<and>
    (\<forall>l \<in> set (dh_lines h). CHR 0x0A \<notin> set (dl_text l))"

lemma show_nat_all_digits: "\<forall>d \<in> set (show_nat n). is_digit d"
  using show_nat_digits by blast

lemma drop_step: "drop i s = p @ rest \<Longrightarrow> drop (i + length p) s = rest"
  by (metis add.commute append_eq_conv_conj drop_drop)

lemma header_takes:
  fixes A B C D :: jstr
  defines "s \<equiv> ''@@ -'' @ A @ '','' @ B @ '' +'' @ C @ '','' @ D @ '' @@''"
  assumes digits: "\<forall>d \<in> set A. is_digit d" "\<forall>d \<in> set B. is_digit d"
      "\<forall>d \<in> set C. is_digit d" "\<forall>d \<in> set D. is_digit d"
    and ne: "A \<noteq> []" "B \<noteq> []" "C \<noteq> []" "D \<noteq> []"
  shows "\<exists>e i j k. rx_exec HUNK_HEADER_PATTERN s 0 =
      Some (0, e, [(3, (k, k + length C)), (2, (j, j + length B)), (1, (i, i + length A))]) \<and>
      slice s i (i + length A) = A \<and> slice s j (j + length B) = B \<and> slice s k (k + length C) = C"
proof -
  have nd: "\<not> is_digit CHR '',''" "\<not> is_digit CHR 0x20" by (simp_all add: is_digit_def)
  let ?ds = "rplus (RSet is_digit)"
  let ?i = "length ''@@ -''"
  let ?ci = "?i + length A"
  let ?j = "?ci + length '',''"
  let ?cj = "?j + length B"
  let ?k = "?cj + length '' +''"
  let ?ck = "?k + length C"
  let ?l = "?ck + length '',''"
  let ?cl = "?l + length D"
  let ?e = "?cl + length '' @@''"
  let ?c1 = "[(1::nat, (?i, ?ci))]"
  let ?c2 = "(2, (?j, ?cj)) # ?c1"
  let ?c3 = "(3, (?k, ?ck)) # ?c2"
  have d0: "drop 0 s = ''@@ -'' @ A @ '','' @ B @ '' +'' @ C @ '','' @ D @ '' @@''" by (simp add: s_def)
  have d1: "drop ?i s = A @ '','' @ B @ '' +'' @ C @ '','' @ D @ '' @@''" by (simp add: s_def)
  have d2: "drop ?ci s = '','' @ B @ '' +'' @ C @ '','' @ D @ '' @@''" by (rule drop_step [OF d1])
  have d3: "drop ?j s = B @ '' +'' @ C @ '','' @ D @ '' @@''" by (rule drop_step [OF d2])
  have d4: "drop ?cj s = '' +'' @ C @ '','' @ D @ '' @@''" by (rule drop_step [OF d3])
  have d5: "drop ?k s = C @ '','' @ D @ '' @@''" by (rule drop_step [OF d4])
  have d6: "drop ?ck s = '','' @ D @ '' @@''" by (rule drop_step [OF d5])
  have d7: "drop ?l s = D @ '' @@''" by (rule drop_step [OF d6])
  have d8: "drop ?cl s = '' @@'' @ []" using drop_step [OF d7] by simp
  note lit = rx_takes_lit and dig = rx_takes_digits
  have t0: "rx_takes (rlit ''@@ -'') s (0, []) (?i, [])"
    using lit [OF d0, of "[]"] by simp
  have t1: "rx_takes (RGroup 1 ?ds) s (?i, []) (?ci, ?c1)"
    using rx_takes_group [OF dig [OF d1 digits(1) _ ne(1)], of 1 "[]"] nd by simp
  have t2: "rx_takes (ropt (RSeq (rlit '','') (RGroup 2 ?ds))) s (?ci, ?c1) (?cj, ?c2)"
  proof (rule rx_takes_opt)
    show "rx_takes (RSeq (rlit '','') (RGroup 2 ?ds)) s (?ci, ?c1) (?cj, ?c2)"
      by (rule rx_takes_seq [OF lit [OF d2]])
        (use rx_takes_group [OF dig [OF d3 digits(2) _ ne(2)], of 2 "?c1"] nd in simp)
  qed (use ne in \<open>simp_all add: s_def\<close>)
  have t3: "rx_takes (rlit '' +'') s (?cj, ?c2) (?k, ?c2)"
    by (rule lit [OF d4])
  have t4: "rx_takes (RGroup 3 ?ds) s (?k, ?c2) (?ck, ?c3)"
    using rx_takes_group [OF dig [OF d5 digits(3) _ ne(3)], of 3 "?c2"] nd by simp
  have t5: "rx_takes (ropt (RSeq (rlit '','') ?ds)) s (?ck, ?c3) (?cl, ?c3)"
  proof (rule rx_takes_opt)
    show "rx_takes (RSeq (rlit '','') ?ds) s (?ck, ?c3) (?cl, ?c3)"
      by (rule rx_takes_seq [OF lit [OF d6]])
        (use dig [OF d7 digits(4) _ ne(4), of "?c3"] nd in simp)
  qed (use ne in \<open>simp_all add: s_def\<close>)
  have t6: "rx_takes (rlit '' @@'') s (?cl, ?c3) (?e, ?c3)"
    by (rule lit [OF d8])
  have body: "rx_takes (rseq [rlit ''@@ -'', RGroup 1 ?ds, ropt (RSeq (rlit '','') (RGroup 2 ?ds)),
      rlit '' +'', RGroup 3 ?ds, ropt (RSeq (rlit '','') ?ds), rlit '' @@'']) s (0, []) (?e, ?c3)"
    unfolding rseq.simps
    by (rule rx_takes_seq [OF t0 rx_takes_seq [OF t1 rx_takes_seq [OF t2 rx_takes_seq [OF t3
          rx_takes_seq [OF t4 rx_takes_seq [OF t5 t6]]]]]])
  then have ex: "rx_exec HUNK_HEADER_PATTERN s 0 = Some (0, ?e, ?c3)"
    unfolding HUNK_HEADER_PATTERN_def rx_exec_bol rx_takes_def by (auto simp del: rseq.simps rlit.simps rx_run.simps)
  have sl: "slice s ?i ?ci = A" "slice s ?j ?cj = B" "slice s ?k ?ck = C"
    using d1 d3 d5 by (simp_all add: slice_def)
  with ex show ?thesis by blast
qed

lemma parse_header:
  assumes "printable h"
  shows "\<exists>m. rx_exec HUNK_HEADER_PATTERN (render_header h) 0 = Some m \<and>
    number_group 1 m (render_header h) = Some (dh_oldStart h) \<and>
    number_group 2 m (render_header h) = Some (dh_oldCount h) \<and>
    number_group 3 m (render_header h) = Some (dh_newStart h)"
proof -
  let ?s = "render_header h"
  let ?A = "show_nat (nat (dh_oldStart h))" and ?B = "show_nat (nat (dh_oldCount h))"
    and ?C = "show_nat (nat (dh_newStart h))"
  from header_takes [OF show_nat_all_digits show_nat_all_digits show_nat_all_digits show_nat_all_digits
      show_nat_nonempty show_nat_nonempty show_nat_nonempty show_nat_nonempty]
  obtain e i j k where
    ex: "rx_exec HUNK_HEADER_PATTERN ?s 0 =
      Some (0, e, [(3, (k, k + length ?C)), (2, (j, j + length ?B)), (1, (i, i + length ?A))])"
    and sl: "slice ?s i (i + length ?A) = ?A" "slice ?s j (j + length ?B) = ?B" "slice ?s k (k + length ?C) = ?C"
    unfolding render_header_def by blast
  from assms have "0 \<le> dh_oldStart h" "0 \<le> dh_oldCount h" "0 \<le> dh_newStart h"
    by (auto simp: printable_def)
  with sl ex show ?thesis by (simp add: number_group_def rx_group_def)
qed

lemma parse_render_line:
  assumes "rx_exec HUNK_HEADER_PATTERN (render_line l) 0 = None" "ps_current st = Some h"
    "numbered (ps_nextOld st) (ps_nextNew st) [l]"
  shows "parse_raw_line st (render_line l) = st\<lparr>ps_current := Some (h\<lparr>dh_lines := dh_lines h @ [l]\<rparr>),
    ps_nextOld := ps_nextOld st + int (length (old_side [l])),
    ps_nextNew := ps_nextNew st + int (length (new_side [l]))\<rparr>"
proof (cases "dl_kind l")
  case Add
  with assms show ?thesis
    by (cases l) (simp add: parse_raw_line_def push_line_def render_line_def starts_with_def)
next
  case Del
  with assms show ?thesis
    by (cases l) (simp add: parse_raw_line_def push_line_def render_line_def starts_with_def)
next
  case Context
  with assms show ?thesis
    by (cases l) (simp add: parse_raw_line_def push_line_def render_line_def starts_with_def)
qed

lemma render_line_no_header: "rx_exec HUNK_HEADER_PATTERN (render_line l) 0 = None"
proof -
  have "hd (render_line l) \<noteq> CHR ''@''" "render_line l \<noteq> []"
    by (simp_all add: render_line_def split: line_kind.split)
  then have "rx_run (rlit ''@@ -'') (render_line l) (0, []) = []"
    by (auto simp: rx_run_lit starts_at_def neq_Nil_conv)
  then show ?thesis
    by (simp add: HUNK_HEADER_PATTERN_def rx_exec_bol del: rlit.simps rx_run.simps(5))
qed

lemma foldl_render_lines:
  assumes "ps_current st = Some h" "numbered (ps_nextOld st) (ps_nextNew st) ls"
  shows "foldl parse_raw_line st (map render_line ls) = st\<lparr>ps_current := Some (h\<lparr>dh_lines := dh_lines h @ ls\<rparr>),
    ps_nextOld := ps_nextOld st + int (length (old_side ls)),
    ps_nextNew := ps_nextNew st + int (length (new_side ls))\<rparr>"
  using assms
proof (induction ls arbitrary: st h)
  case (Cons l ls)
  from Cons.prems(2) have one: "numbered (ps_nextOld st) (ps_nextNew st) [l]"
    and rest: "numbered (ps_nextOld st + int (length (old_side [l]))) (ps_nextNew st + int (length (new_side [l]))) ls"
    by (cases "dl_kind l"; simp)+
  show ?case
    using Cons.IH [of "st\<lparr>ps_current := Some (h\<lparr>dh_lines := dh_lines h @ [l]\<rparr>),
        ps_nextOld := ps_nextOld st + int (length (old_side [l])),
        ps_nextNew := ps_nextNew st + int (length (new_side [l]))\<rparr>"] rest
      parse_render_line [OF render_line_no_header Cons.prems(1) one]
    by simp
qed simp

lemma foldl_render_hunk:
  assumes "printable h"
  shows "\<exists>n k. foldl parse_raw_line st (render_header h # map render_line (dh_lines h)) =
    \<lparr>ps_closed = parse_result st, ps_current = Some h, ps_nextNew = n, ps_nextOld = k\<rparr>"
proof -
  from parse_header [OF assms] obtain m where
    m: "rx_exec HUNK_HEADER_PATTERN (render_header h) 0 = Some m"
       "number_group 1 m (render_header h) = Some (dh_oldStart h)"
       "number_group 2 m (render_header h) = Some (dh_oldCount h)"
       "number_group 3 m (render_header h) = Some (dh_newStart h)"
    by blast
  let ?st = "\<lparr>ps_closed = parse_result st, ps_current = Some (h\<lparr>dh_lines := []\<rparr>),
    ps_nextNew = dh_newStart h, ps_nextOld = dh_oldStart h\<rparr>"
  have "parse_raw_line st (render_header h) = ?st"
    using m by (cases h) (simp add: parse_raw_line_def open_hunk_def parse_result_def)
  moreover have "numbered (ps_nextOld ?st) (ps_nextNew ?st) (dh_lines h)"
    using assms by (simp add: printable_def hunk_numbered_def)
  ultimately show ?thesis
    using foldl_render_lines [of ?st "h\<lparr>dh_lines := []\<rparr>" "dh_lines h"] by simp
qed

lemma parse_result_render:
  assumes "\<forall>h \<in> set hs. printable h"
  shows "parse_result (foldl parse_raw_line st (concat (map (\<lambda>h. render_header h # map render_line (dh_lines h)) hs)))
    = parse_result st @ hs"
  using assms
proof (induction hs arbitrary: st)
  case (Cons h hs)
  then obtain n k where "foldl parse_raw_line st (render_header h # map render_line (dh_lines h)) =
      \<lparr>ps_closed = parse_result st, ps_current = Some h, ps_nextNew = n, ps_nextOld = k\<rparr>"
    using foldl_render_hunk by (metis list.set_intros(1))
  then have "parse_result (foldl parse_raw_line st (concat (map (\<lambda>h. render_header h # map render_line (dh_lines h)) (h # hs))))
      = parse_result (foldl parse_raw_line
          \<lparr>ps_closed = parse_result st, ps_current = Some h, ps_nextNew = n, ps_nextOld = k\<rparr>
          (concat (map (\<lambda>h. render_header h # map render_line (dh_lines h)) hs)))"
    by simp
  also have "\<dots> = parse_result st @ h # hs"
    using Cons by (simp add: parse_result_def)
  finally show ?case .
qed simp

lemma digit_not_newline: "\<not> is_digit CHR 0x0A"
  by (simp add: is_digit_def)

lemma parsePatch_render:
  assumes "\<forall>h \<in> set hs. printable h"
  shows "parsePatch (render_patch hs) = hs"
proof (cases "hs = []")
  case True
  have "rx_exec HUNK_HEADER_PATTERN [] 0 = None" by code_simp
  with True show ?thesis
    by (simp add: parsePatch_def render_patch_def parse_raw_line_def parse_init_def parse_result_def)
next
  case False
  let ?ls = "concat (map (\<lambda>h. render_header h # map render_line (dh_lines h)) hs)"
  have header: "CHR 0x0A \<notin> set (render_header h)" for h
    using show_nat_all_digits digit_not_newline by (auto simp: render_header_def)
  have "split_on CHR 0x0A (render_patch hs) = ?ls"
    unfolding render_patch_def
  proof (rule split_on_join)
    show "?ls \<noteq> []" using False by (cases hs) auto
    show "\<forall>l \<in> set ?ls. CHR 0x0A \<notin> set l"
      using assms header by (fastforce simp: render_line_def printable_def split: line_kind.splits)
  qed
  then show ?thesis
    using parse_result_render [OF assms, of parse_init]
    by (simp add: parsePatch_def) (simp add: parse_init_def parse_result_def)
qed

subsection \<open>The properties of the diff model\<close>

text \<open>Every hunk \<open>parsePatch\<close> returns, for any patch text whatever, is numbered without a
  gap: its old-side numbers count up from \<open>oldStart\<close>, its new-side numbers from \<open>newStart\<close>,
  an added line has no old number and a deleted line no new one.\<close>

theorem parsePatch_numbers_lines:
  "\<forall>h \<in> set (parsePatch patch). numbered (dh_oldStart h) (dh_newStart h) (dh_lines h)"
  using parsePatch_hunk_numbered by (auto simp: hunk_numbered_def)

definition sample_patch :: jstr where
  "sample_patch = ''@@ -2,2 +2,3 @@'' @ [CHR 0x0A] @ '' b'' @ [CHR 0x0A] @ ''-c'' @ [CHR 0x0A] @
    ''+C'' @ [CHR 0x0A] @ ''+D''"

definition sample_hunk :: diff_hunk where
  "sample_hunk = \<lparr>dh_oldStart = 2, dh_oldCount = 2, dh_newStart = 2, dh_lines =
    [\<lparr>dl_kind = Context, dl_newLine = Some 2, dl_oldLine = Some 2, dl_text = ''b''\<rparr>,
     \<lparr>dl_kind = Del, dl_newLine = None, dl_oldLine = Some 3, dl_text = ''c''\<rparr>,
     \<lparr>dl_kind = Add, dl_newLine = Some 3, dl_oldLine = None, dl_text = ''C''\<rparr>,
     \<lparr>dl_kind = Add, dl_newLine = Some 4, dl_oldLine = None, dl_text = ''D''\<rparr>]\<rparr>"

lemma sample_parse: "parsePatch sample_patch = [sample_hunk]"
  by code_simp

lemma parsePatch_numbers_lines_witness:
  "parsePatch sample_patch = [sample_hunk] \<and>
    numbered (dh_oldStart sample_hunk) (dh_newStart sample_hunk) (dh_lines sample_hunk)"
  using parsePatch_numbers_lines [of sample_patch] sample_parse by simp

text \<open>C21: reading back a printed diff gives the hunks it was printed from, whatever they
  hold, as long as their numbers are consecutive and no line contains a line break.\<close>

theorem parsePatch_render_patch:
  assumes "\<forall>h \<in> set hs. printable h"
  shows "parsePatch (render_patch hs) = hs"
  using assms by (rule parsePatch_render)

lemma parsePatch_render_patch_witness:
  "parsePatch (render_patch [sample_hunk, sample_hunk]) = [sample_hunk, sample_hunk]"
  by (rule parsePatch_render_patch) code_simp

text \<open>\<open>mapOldLine\<close> follows a line correctly.  When the hunks turn the file \<open>old\<close> into the
  file \<open>new\<close>, a line number it returns points at the same text in \<open>new\<close>, and a line it loses
  is one the diff deletes.\<close>

theorem mapOldLine_traces_line:
  assumes "diff_between hunks old new" "1 \<le> l" "l \<le> int (length old)"
  shows "case mapOldLine hunks l of
      Some m \<Rightarrow> line_at 1 new m = line_at 1 old l
    | None \<Rightarrow> \<exists>h \<in> set hunks. \<exists>d \<in> set (dh_lines h). dl_kind d = Del \<and> dl_oldLine d = Some l \<and>
        line_at 1 old l = Some (dl_text d)"
  using assms by (rule mapOldLine_correct)

lemma mapOldLine_traces_line_witness:
  "line_at 1 [''a'', ''b'', ''C'', ''D'', ''e''] 5 = line_at 1 [''a'', ''b'', ''c'', ''e''] 4"
  using mapOldLine_traces_line [of "[sample_hunk]" "[''a'', ''b'', ''c'', ''e'']"
      "[''a'', ''b'', ''C'', ''D'', ''e'']" 4]
  by (simp add: diff_between_def hunk_ok_def hunk_numbered_def sample_hunk_def first_old_def
      first_new_def mapOldLine_def count_kind_def line_at_def)

text \<open>\<open>mapLineThroughHunks\<close> returns a range exactly when every line of the old range
  survives, and the range it returns is never shorter than the old one and starts and ends
  at the texts the old range starts and ends with.\<close>

theorem mapLineThroughHunks_traces_range:
  assumes "diff_between hunks old new" "1 \<le> a" "a \<le> b" "b \<le> int (length old)"
  shows "case mapLineThroughHunks hunks a b of
      Some (s, e) \<Rightarrow> b - a \<le> e - s \<and> line_at 1 new s = line_at 1 old a \<and> line_at 1 new e = line_at 1 old b \<and>
        (\<forall>l \<in> {a..b}. mapOldLine hunks l \<noteq> None)
    | None \<Rightarrow> \<exists>l \<in> {a..b}. mapOldLine hunks l = None"
proof (cases "mapLineThroughHunks hunks a b")
  case None
  then show ?thesis
    using mapLineThroughHunks_Some [of hunks a b] assms(3) by fastforce
next
  case (Some r)
  then show ?thesis
    using mapLineThroughHunks_range [OF assms(1,2,4), of "fst r" "snd r"]
      mapLineThroughHunks_Some [of hunks a b "fst r" "snd r"] by (cases r) simp
qed

lemma mapLineThroughHunks_traces_range_witness:
  "mapLineThroughHunks [sample_hunk] 1 2 = Some (1, 2) \<and>
    line_at 1 [''a'', ''b'', ''C'', ''D'', ''e''] 2 = line_at 1 [''a'', ''b'', ''c'', ''e''] 2"
proof -
  have m: "mapLineThroughHunks [sample_hunk] 1 2 = Some (1, 2)" by code_simp
  have d: "diff_between [sample_hunk] [''a'', ''b'', ''c'', ''e''] [''a'', ''b'', ''C'', ''D'', ''e'']"
    by code_simp
  from mapLineThroughHunks_traces_range [OF d, of 1 2] m show ?thesis by simp
qed

end
