(* ===== verification/Title_Similarity.thy ===== *)
theory Title_Similarity
  imports Complex_Main Js_Regex
begin

section \<open>Title similarity (Jaro-Winkler)\<close>

text \<open>
  \<open>src/common/text/jaro-winkler.ts\<close>.  Similarities are exact rationals; the code computes them
  in doubles, whose rounding (below one part in 10^15) is not modelled.  The inner
  \<open>while (!bMatched[k])\<close> would run for ever past the end of the array: that is \<open>None\<close> here,
  and \<open>transpositions_terminates\<close> shows it never happens.
\<close>

text \<open>\<open>/[^\p{L}\s]+/gu\<close> and \<open>/\s+/g\<close>, each replaced by one space.\<close>

definition NON_LETTERS :: rx where
  "NON_LETTERS = rplus (RSet (\<lambda>c. \<not> is_letter c \<and> \<not> is_space c))"

definition SPACES :: rx where
  "SPACES = rplus (RSet is_space)"

definition normalizeTitle :: "jstr \<Rightarrow> jstr" where
  "normalizeTitle title =
    trim (rx_replace_all SPACES '' '' (rx_replace_all NON_LETTERS '' '' (to_lower title)))"

subsection \<open>Matching characters\<close>

record jaro_state =
  js_aMatched :: "bool list"
  js_bMatched :: "bool list"
  js_matches :: nat

definition jaro_window :: "jstr \<Rightarrow> jstr \<Rightarrow> nat" where
  "jaro_window a b = max (length a) (length b) div 2 - 1"

definition jaro_match_at :: "jstr \<Rightarrow> jstr \<Rightarrow> jaro_state \<Rightarrow> nat \<Rightarrow> jaro_state" where
  "jaro_match_at a b st i =
    (case List.find (\<lambda>j. \<not> js_bMatched st ! j \<and> a ! i = b ! j)
        [i - jaro_window a b..<Suc (min (length b - 1) (i + jaro_window a b))] of
      None \<Rightarrow> st
    | Some j \<Rightarrow> st\<lparr>js_aMatched := (js_aMatched st)[i := True], js_bMatched := (js_bMatched st)[j := True],
        js_matches := js_matches st + 1\<rparr>)"

definition jaro_matches :: "jstr \<Rightarrow> jstr \<Rightarrow> jaro_state" where
  "jaro_matches a b = foldl (jaro_match_at a b)
    \<lparr>js_aMatched = replicate (length a) False, js_bMatched = replicate (length b) False, js_matches = 0\<rparr>
    [0..<length a]"

text \<open>
  The second loop: both sides as characters with their flags, the second one from \<open>k\<close> on.
\<close>

fun transpositions :: "(char \<times> bool) list \<Rightarrow> (char \<times> bool) list \<Rightarrow> nat option" where
  "transpositions [] bs = Some 0"
| "transpositions ((x, matched) # as) bs =
    (if \<not> matched then transpositions as bs
     else (case dropWhile (\<lambda>(_, m). \<not> m) bs of
        [] \<Rightarrow> None
      | (y, _) # bs' \<Rightarrow> map_option (\<lambda>t. if x \<noteq> y then t + 1 else t) (transpositions as bs')))"

definition jaro_value :: "nat \<Rightarrow> nat \<Rightarrow> nat \<Rightarrow> nat \<Rightarrow> rat" where
  "jaro_value m la lb t =
    (of_nat m / of_nat la + of_nat m / of_nat lb + (of_nat m - of_nat t / 2) / of_nat m) / 3"

definition jaro :: "jstr \<Rightarrow> jstr \<Rightarrow> rat option" where
  "jaro a b =
    (if a = b then Some 1
     else if a = [] \<or> b = [] then Some 0
     else (let st = jaro_matches a b; m = js_matches st
       in if m = 0 then Some 0
          else map_option (jaro_value m (length a) (length b))
            (transpositions (zip a (js_aMatched st)) (zip b (js_bMatched st)))))"

fun common_prefix :: "nat \<Rightarrow> jstr \<Rightarrow> jstr \<Rightarrow> nat" where
  "common_prefix (Suc n) (x # xs) (y # ys) = (if x = y then Suc (common_prefix n xs ys) else 0)"
| "common_prefix _ _ _ = 0"

definition MAX_PREFIX :: nat where
  "MAX_PREFIX = 4"

definition jaroWinkler :: "jstr \<Rightarrow> jstr \<Rightarrow> rat option" where
  "jaroWinkler a b = map_option (\<lambda>s. s + of_nat (common_prefix MAX_PREFIX a b) * (1 / 10) * (1 - s)) (jaro a b)"

subsection \<open>Invariant of the matching loop\<close>

definition flags_on :: "bool list \<Rightarrow> nat" where
  "flags_on fs = length (filter id fs)"

lemma flags_on_replicate [simp]: "flags_on (replicate n False) = 0"
  by (simp add: flags_on_def)

lemma flags_on_update: "i < length fs \<Longrightarrow> \<not> fs ! i \<Longrightarrow> flags_on (fs[i := True]) = Suc (flags_on fs)"
proof (induction fs arbitrary: i)
  case (Cons f fs)
  then show ?case by (cases i) (auto simp: flags_on_def)
qed simp

lemma flags_on_le: "flags_on fs \<le> length fs"
  by (simp add: flags_on_def)

definition jaro_inv :: "jstr \<Rightarrow> jstr \<Rightarrow> nat \<Rightarrow> jaro_state \<Rightarrow> bool" where
  "jaro_inv a b n st \<longleftrightarrow> length (js_aMatched st) = length a \<and> length (js_bMatched st) = length b \<and>
    (\<forall>i. n \<le> i \<and> i < length a \<longrightarrow> \<not> js_aMatched st ! i) \<and>
    flags_on (js_aMatched st) = js_matches st \<and> flags_on (js_bMatched st) = js_matches st"

lemma jaro_match_at_inv:
  assumes "jaro_inv a b i st" "i < length a" "b \<noteq> []"
  shows "jaro_inv a b (Suc i) (jaro_match_at a b st i)"
proof (cases "List.find (\<lambda>j. \<not> js_bMatched st ! j \<and> a ! i = b ! j)
    [i - jaro_window a b..<Suc (min (length b - 1) (i + jaro_window a b))]")
  case None
  with assms show ?thesis by (simp add: jaro_match_at_def jaro_inv_def)
next
  case (Some j)
  from find_SomeD [OF Some] assms(3) have j: "j < length b" "\<not> js_bMatched st ! j"
    by (cases b; auto simp: less_Suc_eq_le)+
  from assms have "\<not> js_aMatched st ! i" by (auto simp: jaro_inv_def)
  with assms j Some show ?thesis
    unfolding jaro_match_at_def by (auto simp: jaro_inv_def flags_on_update)
qed

lemma jaro_matches_inv:
  assumes "b \<noteq> []"
  shows "jaro_inv a b (length a) (jaro_matches a b)"
proof -
  let ?s0 = "\<lparr>js_aMatched = replicate (length a) False, js_bMatched = replicate (length b) False, js_matches = 0\<rparr>"
  have "n \<le> length a \<Longrightarrow> jaro_inv a b n (foldl (jaro_match_at a b) ?s0 [0..<n])" for n
  proof (induction n)
    case 0
    then show ?case by (simp add: jaro_inv_def)
  next
    case (Suc n)
    then show ?case using jaro_match_at_inv [of a b n] assms by simp
  qed
  then show ?thesis by (simp add: jaro_matches_def)
qed

lemma transpositions_terminates:
  "length (filter snd as) \<le> length (filter snd bs) \<Longrightarrow>
    \<exists>t. transpositions as bs = Some t \<and> t \<le> length (filter snd as)"
proof (induction as bs rule: transpositions.induct)
  case (2 x matched as bs)
  show ?case
  proof (cases matched)
    case False
    with 2 show ?thesis by simp
  next
    case True
    have drop: "filter snd (dropWhile (\<lambda>(_, m). \<not> m) bs) = filter snd bs"
      by (induction bs) auto
    show ?thesis
    proof (cases "dropWhile (\<lambda>(_, m). \<not> m) bs")
      case Nil
      with drop 2(3) True show ?thesis by simp
    next
      case (Cons yb bs')
      obtain y b where yb: "yb = (y, b)" by (cases yb)
      have b: b
        using hd_dropWhile [of "\<lambda>(_, m). \<not> m" bs] Cons yb by auto
      from b have "filter snd bs = (y, b) # filter snd bs'"
        using drop unfolding Cons yb by simp
      with 2(3) True have "length (filter snd as) \<le> length (filter snd bs')" by simp
      with "2.IH"(2) [OF _ Cons yb [symmetric]] True obtain t
        where t: "transpositions as bs' = Some t" "t \<le> length (filter snd as)" by blast
      from True Cons yb have "transpositions ((x, matched) # as) bs = map_option (\<lambda>t. if x \<noteq> y then t + 1 else t) (transpositions as bs')"
        by simp
      with t True show ?thesis by simp
    qed
  qed
qed simp

lemma filter_zip_flags: "length xs = length fs \<Longrightarrow> length (filter snd (zip xs fs)) = flags_on fs"
  by (induction xs fs rule: list_induct2) (simp_all add: flags_on_def)

lemma jaro_value_bounds:
  assumes "0 < m" "m \<le> la" "m \<le> lb" "t \<le> m"
  shows "0 \<le> jaro_value m la lb t" "jaro_value m la lb t \<le> 1"
proof -
  let ?x = "of_nat m / of_nat la :: rat" and ?y = "of_nat m / of_nat lb :: rat"
    and ?z = "(of_nat m - of_nat t / 2) / of_nat m :: rat"
  have "0 \<le> ?x" "?x \<le> 1" "0 \<le> ?y" "?y \<le> 1" using assms by simp_all
  moreover have "of_nat t \<le> (of_nat m :: rat)" "0 < (of_nat m :: rat)" "0 \<le> (of_nat t :: rat)"
    using assms by simp_all
  then have "0 \<le> ?z" "?z \<le> 1" by (simp_all add: field_simps)
  ultimately have "0 \<le> ?x + ?y + ?z" "?x + ?y + ?z \<le> 3" by linarith+
  then show "0 \<le> jaro_value m la lb t" "jaro_value m la lb t \<le> 1"
    unfolding jaro_value_def by simp_all
qed

lemma jaro_returns: "\<exists>s. jaro a b = Some s \<and> 0 \<le> s \<and> s \<le> 1 \<and> (a = b \<longrightarrow> s = 1)"
proof (cases "a = b \<or> a = [] \<or> b = [] \<or> js_matches (jaro_matches a b) = 0")
  case True
  then show ?thesis by (auto simp: jaro_def)
next
  case False
  let ?st = "jaro_matches a b" and ?m = "js_matches (jaro_matches a b)"
  from False have "jaro_inv a b (length a) ?st" by (intro jaro_matches_inv) simp
  then have len: "length (js_aMatched ?st) = length a" "length (js_bMatched ?st) = length b"
    and cnt: "flags_on (js_aMatched ?st) = ?m" "flags_on (js_bMatched ?st) = ?m"
    by (auto simp: jaro_inv_def)
  then have m: "?m \<le> length a" "?m \<le> length b"
    using flags_on_le [of "js_aMatched ?st"] flags_on_le [of "js_bMatched ?st"] by simp_all
  obtain t where t: "transpositions (zip a (js_aMatched ?st)) (zip b (js_bMatched ?st)) = Some t" "t \<le> ?m"
    using transpositions_terminates [of "zip a (js_aMatched ?st)" "zip b (js_bMatched ?st)"] len cnt
    by (auto simp: filter_zip_flags)
  show ?thesis
    using False m t jaro_value_bounds [of ?m "length a" "length b" t]
    by (simp add: jaro_def Let_def)
qed

lemma common_prefix_le: "common_prefix n a b \<le> n"
  by (induction n a b rule: common_prefix.induct) simp_all

lemma jaroWinkler_some: "\<exists>s. jaroWinkler a b = Some s \<and> 0 \<le> s \<and> s \<le> 1 \<and> (a = b \<longrightarrow> s = 1)"
proof -
  obtain s where s: "jaro a b = Some s" "0 \<le> s" "s \<le> 1" "a = b \<longrightarrow> s = 1" using jaro_returns by blast
  let ?p = "of_nat (common_prefix MAX_PREFIX a b) * (1 / 10) :: rat"
  have p: "0 \<le> ?p" "?p \<le> 1"
    using common_prefix_le [of MAX_PREFIX a b] by (simp_all add: MAX_PREFIX_def)
  have "?p * (1 - s) \<le> 1 * (1 - s)" using p s by (intro mult_right_mono) auto
  moreover have "0 \<le> ?p * (1 - s)" using p s by simp
  ultimately show ?thesis using s by (auto simp: jaroWinkler_def)
qed

text \<open>The similarity score always exists and lies between 0 and 1, whatever the two titles: the
  transposition loop never runs past the end of its array.  Equal titles score 1.\<close>

theorem jaroWinkler_terminates_in_bounds:
  "(\<exists>s. jaroWinkler a b = Some s \<and> 0 \<le> s \<and> s \<le> 1) \<and> jaroWinkler a a = Some 1"
  using jaroWinkler_some [of a b] jaroWinkler_some [of a a] by auto

end
