(* ===== verification/Finding_Model.thy ===== *)
theory Finding_Model
  imports Complex_Main Js_Text
begin

section \<open>Findings: their data, categories and tiers\<close>

text \<open>
  The enumerations of \<open>prisma/schema.prisma\<close>, the rows the lifecycle works on
  (\<open>src/queue/lifecycle/plan-findings.ts\<close>), and the tables that give a rule or a category its
  place: \<open>src/queue/finding-category.ts\<close> and \<open>src/queue/rules/rule-tiers.ts\<close>.
\<close>

datatype finding_source = STATIC | AI
datatype finding_severity = CRITICAL | MAJOR | MINOR | INFO
datatype finding_status = NEW | PERSISTED | REOPENED | RESOLVED
datatype suppression_reason = TEST_FILE | REGEX_LITERAL | COMMENT | DEDUPE_STATIC

datatype finding_category =
  CatSecret | CatInjection | CatInsecureTls | CatErrorHandling | CatPerformance | CatLogic
| CatAuth | CatConcurrency | CatDataLoss | CatConfig | CatOther | CatCrash | CatBreakingChange

datatype rule_tier = TierSecrets | TierCrash | TierBreakingChange | TierErrorHandling
| TierPerformance | TierSecurity

text \<open>What a stored row, a fresh candidate and a row to write share.\<close>

record finding_data =
  fd_source :: finding_source
  fd_ruleId :: jstr
  fd_severity :: finding_severity
  fd_title :: jstr
  fd_message :: jstr
  fd_filePath :: jstr
  fd_lineStart :: line_no
  fd_lineEnd :: line_no
  fd_snippet :: "jstr option"
  fd_fingerprint :: jstr
  fd_suppressedReason :: "suppression_reason option"
  fd_category :: "finding_category option"
  fd_confidence :: "rat option"
  fd_reportedSeverity :: "finding_severity option"
  fd_dedupeOfId :: "jstr option"

type_synonym candidate_finding = finding_data

record stored_finding = finding_data +
  st_id :: jstr
  st_previousRunSeverity :: "finding_severity option"
  st_latestRunSeverity :: "finding_severity option"
  st_notReproduced :: bool
  st_firstSeenScanId :: jstr

record finding_row = stored_finding +
  fr_status :: finding_status
  fr_originFindingId :: "jstr option"
  fr_resolvedInScanId :: "jstr option"

subsection \<open>Categories\<close>

definition INJECTION_RULES :: "jstr list" where
  "INJECTION_RULES = [''code.sql_string_concat'', ''code.shell_injection'', ''code.eval_dynamic'']"

definition categoryForRule :: "jstr \<Rightarrow> finding_category" where
  "categoryForRule ruleId =
    (if starts_with ruleId ''secret.'' then CatSecret
     else if ruleId \<in> set INJECTION_RULES then CatInjection
     else if ruleId = ''code.insecure_tls'' then CatInsecureTls
     else if starts_with ruleId ''config.'' then CatConfig
     else if ruleId = ''code.syntax_error'' \<or> ruleId = ''code.debugger_left'' then CatCrash
     else if ruleId = ''code.empty_catch'' then CatErrorHandling
     else CatOther)"

subsection \<open>Tiers\<close>

definition ALL_RULE_TIERS :: "rule_tier list" where
  "ALL_RULE_TIERS = [TierSecrets, TierCrash, TierBreakingChange, TierErrorHandling, TierPerformance, TierSecurity]"

definition AI_ONLY_TIERS :: "rule_tier list" where
  "AI_ONLY_TIERS = [TierBreakingChange, TierPerformance]"

definition SECURITY_RULES :: "jstr list" where
  "SECURITY_RULES = [''code.sql_string_concat'', ''code.shell_injection'', ''code.eval_dynamic'',
    ''code.insecure_tls'', ''config.cors_wildcard_credentials'']"

definition CRASH_RULES :: "jstr list" where
  "CRASH_RULES = [''code.syntax_error'', ''code.debugger_left'']"

definition ERROR_HANDLING_RULES :: "jstr list" where
  "ERROR_HANDLING_RULES = [''code.empty_catch'']"

definition tierForRule :: "jstr \<Rightarrow> rule_tier option" where
  "tierForRule ruleId =
    (if starts_with ruleId ''secret.'' \<or> ruleId = ''config.dockerfile_root_secret'' then Some TierSecrets
     else if ruleId \<in> set SECURITY_RULES then Some TierSecurity
     else if ruleId \<in> set CRASH_RULES then Some TierCrash
     else if ruleId \<in> set ERROR_HANDLING_RULES then Some TierErrorHandling
     else None)"

fun CATEGORY_TIER :: "finding_category \<Rightarrow> rule_tier option" where
  "CATEGORY_TIER CatSecret = Some TierSecrets"
| "CATEGORY_TIER CatCrash = Some TierCrash"
| "CATEGORY_TIER CatConcurrency = Some TierCrash"
| "CATEGORY_TIER CatBreakingChange = Some TierBreakingChange"
| "CATEGORY_TIER CatErrorHandling = Some TierErrorHandling"
| "CATEGORY_TIER CatPerformance = Some TierPerformance"
| "CATEGORY_TIER CatInjection = Some TierSecurity"
| "CATEGORY_TIER CatInsecureTls = Some TierSecurity"
| "CATEGORY_TIER CatAuth = Some TierSecurity"
| "CATEGORY_TIER CatConfig = Some TierSecurity"
| "CATEGORY_TIER CatDataLoss = Some TierSecurity"
| "CATEGORY_TIER CatLogic = None"
| "CATEGORY_TIER CatOther = None"

definition tierForCategory :: "finding_category option \<Rightarrow> rule_tier option" where
  "tierForCategory category = (case category of Some c \<Rightarrow> CATEGORY_TIER c | None \<Rightarrow> None)"

definition tierOfFinding :: "'a finding_data_scheme \<Rightarrow> rule_tier option" where
  "tierOfFinding f = (if fd_source f = STATIC then tierForRule (fd_ruleId f) else tierForCategory (fd_category f))"

definition isFindingEnabled :: "'a finding_data_scheme \<Rightarrow> rule_tier list \<Rightarrow> bool" where
  "isFindingEnabled f enabled = (case tierOfFinding f of None \<Rightarrow> True | Some t \<Rightarrow> t \<in> set enabled)"

definition enabledTiers :: "rule_tier list \<Rightarrow> rule_tier list" where
  "enabledTiers disabled = filter (\<lambda>t. t \<notin> set disabled) ALL_RULE_TIERS"

definition sameTiers :: "rule_tier list \<Rightarrow> rule_tier list \<Rightarrow> bool" where
  "sameTiers a b \<longleftrightarrow> length a = length b \<and> (\<forall>t \<in> set a. t \<in> set b)"

fun tier_name :: "rule_tier \<Rightarrow> jstr" where
  "tier_name TierSecrets = ''SECRETS''"
| "tier_name TierCrash = ''CRASH''"
| "tier_name TierBreakingChange = ''BREAKING_CHANGE''"
| "tier_name TierErrorHandling = ''ERROR_HANDLING''"
| "tier_name TierPerformance = ''PERFORMANCE''"
| "tier_name TierSecurity = ''SECURITY''"

definition tierKey :: "rule_tier list \<Rightarrow> jstr" where
  "tierKey tiers = join '','' (map tier_name (filter (\<lambda>t. t \<in> set tiers) ALL_RULE_TIERS))"

subsection \<open>Facts\<close>

lemma ALL_RULE_TIERS_all: "t \<in> set ALL_RULE_TIERS"
  by (cases t) (simp_all add: ALL_RULE_TIERS_def)

lemma tier_name_no_comma: "CHR '','' \<notin> set (tier_name t)"
  by (cases t) simp_all

lemma tier_name_inj: "tier_name s = tier_name t \<longleftrightarrow> s = t"
  by (cases s; cases t) simp_all

lemma set_enabledTiers: "set (enabledTiers disabled) = - set disabled"
  using ALL_RULE_TIERS_all by (auto simp: enabledTiers_def)

lemma join_comma_inj:
  assumes "\<forall>x \<in> set xs. CHR '','' \<notin> set x \<and> x \<noteq> []" "\<forall>y \<in> set ys. CHR '','' \<notin> set y \<and> y \<noteq> []"
    "join '','' xs = join '','' ys"
  shows "xs = ys"
proof (cases "xs = [] \<or> ys = []")
  case True
  have empty: "zs = []" if "join '','' zs = []" "\<forall>z \<in> set zs. z \<noteq> []" for zs
  proof (cases zs)
    case (Cons z zs')
    with that show ?thesis by (cases zs') auto
  qed simp
  from True assms(3) have "join '','' xs = []" "join '','' ys = []" by auto
  with empty assms(1,2) have "xs = []" "ys = []" by auto
  then show ?thesis by simp
next
  case False
  then have ne: "xs \<noteq> []" "ys \<noteq> []" by simp_all
  from assms(1,2) have "\<forall>x \<in> set xs. CHR '','' \<notin> set x" "\<forall>y \<in> set ys. CHR '','' \<notin> set y" by blast+
  note parts = split_on_join [OF ne(1) this(1)] split_on_join [OF ne(2) this(2)]
  show ?thesis using parts(1) unfolding assms(3) parts(2) by (rule sym)
qed

text \<open>The cache key tells two profiles apart exactly when they enable different tiers.\<close>

lemma tierKey_inj: "tierKey a = tierKey b \<longleftrightarrow> set a = set b"
proof
  assume eq: "tierKey a = tierKey b"
  have ne: "tier_name t \<noteq> []" for t by (cases t) simp_all
  have "map tier_name (filter (\<lambda>t. t \<in> set a) ALL_RULE_TIERS) = map tier_name (filter (\<lambda>t. t \<in> set b) ALL_RULE_TIERS)"
    by (rule join_comma_inj [OF _ _ eq [unfolded tierKey_def]]) (auto simp: tier_name_no_comma ne)
  moreover have "inj tier_name" by (rule injI) (simp add: tier_name_inj)
  ultimately have "filter (\<lambda>t. t \<in> set a) ALL_RULE_TIERS = filter (\<lambda>t. t \<in> set b) ALL_RULE_TIERS"
    by (simp add: inj_map_eq_map)
  then have "set (filter (\<lambda>t. t \<in> set a) ALL_RULE_TIERS) = set (filter (\<lambda>t. t \<in> set b) ALL_RULE_TIERS)" by simp
  then show "set a = set b" using ALL_RULE_TIERS_all by auto
qed (simp add: tierKey_def)

end
