(* ===== verification/Path_Language.thy ===== *)
theory Path_Language
  imports Js_Text
begin

section \<open>Paths: languages and glob lists\<close>

text \<open>
  \<open>src/queue/rules/language-detector.ts\<close>, \<open>src/queue/rules/path-filter.ts\<close> and the glob lists
  of \<open>src/queue/rules/rules.constants.ts\<close>.  The glob matcher is the third-party package
  \<open>minimatch\<close>: it is the parameter \<open>mm\<close> (path, glob; called with \<open>dot\<close> and \<open>nocase\<close>).

  The extension tables of the source are plain objects, so a lookup also finds what every
  object inherits.  Of the inherited names two are all lower case and can be an extension:
  \<open>constructor\<close> and \<open>__proto__\<close>; the value found there is a function or an object, which no
  comparison of the code equals.  \<open>record_get\<close> returns \<open>Inherited\<close> for them.
\<close>

datatype 'v record_entry = Own 'v | Inherited | Absent

definition inherited_keys :: "jstr list" where
  "inherited_keys = [''constructor'', ''__proto__'']"

definition record_get :: "(jstr \<times> 'v) list \<Rightarrow> jstr \<Rightarrow> 'v record_entry" where
  "record_get table k =
    (case map_of table k of
      Some v \<Rightarrow> Own v
    | None \<Rightarrow> if k \<in> set inherited_keys then Inherited else Absent)"

text \<open>\<open>filePath.split('/').pop()\<close>, and the lower-cased last piece after a dot.\<close>

definition basename :: "jstr \<Rightarrow> jstr" where
  "basename path = last_piece CHR ''/'' path"

definition extension_of :: "jstr \<Rightarrow> jstr" where
  "extension_of base = (if contains base ''.'' then to_lower (last_piece CHR ''.'' base) else [])"

subsection \<open>Languages\<close>

definition EXTENSION_LANGUAGE_MAP :: "(jstr \<times> jstr) list" where
  "EXTENSION_LANGUAGE_MAP =
   [(''ts'', ''js''), (''tsx'', ''js''), (''js'', ''js''), (''jsx'', ''js''), (''mjs'', ''js''),
    (''cjs'', ''js''), (''py'', ''py''), (''go'', ''go''), (''php'', ''php''), (''rb'', ''rb''),
    (''java'', ''java''), (''kt'', ''java'')]"

text \<open>What \<open>detectLanguage\<close> returns for an inherited entry equals no language the code names.\<close>

definition inherited_language :: jstr where
  "inherited_language = ''[inherited]''"

definition detectLanguage :: "jstr \<Rightarrow> jstr" where
  "detectLanguage filePath =
    (let base = basename filePath
     in if starts_with (to_lower base) ''dockerfile'' then ''dockerfile''
        else (case record_get EXTENSION_LANGUAGE_MAP (extension_of base) of
            Own l \<Rightarrow> l
          | Inherited \<Rightarrow> inherited_language
          | Absent \<Rightarrow> ''*''))"

datatype rule_languages = AnyLanguage | Languages "jstr list"

definition ruleAppliesTo :: "rule_languages \<Rightarrow> jstr \<Rightarrow> bool" where
  "ruleAppliesTo ls fileLanguage =
    (case ls of AnyLanguage \<Rightarrow> True | Languages xs \<Rightarrow> fileLanguage \<in> set xs)"

subsection \<open>Glob lists\<close>

definition IGNORE_GLOBS :: "jstr list" where
  "IGNORE_GLOBS =
   [''**/*.lock'', ''**/package-lock.json'', ''**/pnpm-lock.yaml'', ''**/*.min.js'', ''**/*.map'',
    ''**/dist/**'', ''dist/**'', ''**/build/**'', ''build/**'', ''**/node_modules/**'',
    ''node_modules/**'', ''**/vendor/**'', ''vendor/**'', ''**/.git/**'', ''.git/**'', ''**/*.snap'',
    ''**/*.svg'', ''**/*.png'', ''**/*.jpg'', ''**/*.jpeg'', ''**/*.gif'', ''**/*.ico'', ''**/*.woff'',
    ''**/*.woff2'', ''**/*.pdf'']"

definition TEST_FILE_GLOBS :: "jstr list" where
  "TEST_FILE_GLOBS =
   [''**/*.test.*'', ''**/*.spec.*'', ''**/*_test.*'', ''**/test_*.py'', ''**/__tests__/**'',
    ''**/__mocks__/**'', ''**/fixtures/**'', ''**/testdata/**'', ''**/test/**'', ''**/tests/**'',
    ''**/spec/**'', ''**/e2e/**'', ''**/*.example'', ''**/*.example.*'', ''**/*.sample'',
    ''**/*.sample.*'', ''**/*.template'', ''**/*.dist'', ''**/*.md'', ''**/*.mdx'', ''**/*.rst'',
    ''**/*.stories.*'', ''**/*.snap'', ''**/test-helpers.*'', ''**/test-utils.*'',
    ''**/test_helpers.*'', ''**/test_utils.*'']"

definition DATA_FIXTURE_GLOBS :: "jstr list" where
  "DATA_FIXTURE_GLOBS = [''**/fixtures/**'', ''**/testdata/**'']"

definition MUST_SCAN_GLOBS :: "jstr list" where
  "MUST_SCAN_GLOBS =
   [''**/.env'', ''**/.env.local'', ''**/.env.development'', ''**/.env.staging'',
    ''**/.env.production'', ''**/.env.test'', ''**/docker-compose*.yml'', ''**/docker-compose*.yaml'',
    ''**/Dockerfile*'', ''**/*.tf'', ''**/*.tfvars'', ''**/*.properties'', ''**/*.ini'', ''**/*.cfg'',
    ''**/*.toml'']"

type_synonym glob_match = "jstr \<Rightarrow> jstr \<Rightarrow> bool"

definition matchesAny :: "glob_match \<Rightarrow> jstr \<Rightarrow> jstr list \<Rightarrow> bool" where
  "matchesAny mm filePath globs \<longleftrightarrow> (\<exists>g \<in> set globs. mm filePath g)"

definition isIgnoredPath :: "glob_match \<Rightarrow> jstr \<Rightarrow> bool" where
  "isIgnoredPath mm filePath = matchesAny mm filePath IGNORE_GLOBS"

definition isDataFixturePath :: "glob_match \<Rightarrow> jstr \<Rightarrow> bool" where
  "isDataFixturePath mm filePath = matchesAny mm filePath DATA_FIXTURE_GLOBS"

definition isMustScanPath :: "glob_match \<Rightarrow> jstr \<Rightarrow> bool" where
  "isMustScanPath mm filePath = matchesAny mm filePath MUST_SCAN_GLOBS"

definition isTestLikePath :: "glob_match \<Rightarrow> jstr \<Rightarrow> bool" where
  "isTestLikePath mm filePath =
    (if isDataFixturePath mm filePath then True
     else if isMustScanPath mm filePath then False
     else matchesAny mm filePath TEST_FILE_GLOBS)"

subsection \<open>Facts\<close>

lemma fixture_is_test_like: "isDataFixturePath mm p \<Longrightarrow> isTestLikePath mm p"
  by (simp add: isTestLikePath_def)

lemma must_scan_not_test_like:
  "isMustScanPath mm p \<Longrightarrow> isTestLikePath mm p \<longleftrightarrow> isDataFixturePath mm p"
  by (simp add: isTestLikePath_def)

lemma test_like_globs: "isTestLikePath mm p \<Longrightarrow> matchesAny mm p TEST_FILE_GLOBS"
  by (auto simp: isTestLikePath_def isDataFixturePath_def matchesAny_def DATA_FIXTURE_GLOBS_def
      TEST_FILE_GLOBS_def split: if_splits)

end
