(* ===== verification/Syntax_Check.thy ===== *)
theory Syntax_Check
  imports Diff_Parser Path_Language
begin

section \<open>The syntax check of a changed file\<close>

text \<open>
  \<open>src/queue/rules/syntax/syntax-check.ts\<close> and \<open>syntax-step.ts\<close>.  The parsers are parameters:
  \<open>babel\<close> (the package \<open>@babel/parser\<close>, from the list of plugins and the text to the error
  it throws) and \<open>json\<close> (the message of the error \<open>JSON.parse\<close> throws, which is the
  engine's own wording).  The fingerprint's SHA-1 is the parameter \<open>sha1\<close>.  Besides the
  functional behaviour of \<open>checkSyntax\<close> the lemmas show that \<open>reconstructBase\<close> inverts the
  diff: applied to the new file it gives the old one back.
\<close>

subsection \<open>Kinds of file\<close>

definition SYNTAX_RULE_ID :: jstr where
  "SYNTAX_RULE_ID = ''code.syntax_error''"

datatype syntax_kind = KJs | KTs | KTsx | KJson | KInherited

definition KIND_BY_EXTENSION :: "(jstr \<times> syntax_kind) list" where
  "KIND_BY_EXTENSION =
   [(''js'', KJs), (''jsx'', KJs), (''mjs'', KJs), (''cjs'', KJs), (''ts'', KTs), (''mts'', KTs),
    (''cts'', KTs), (''tsx'', KTsx), (''json'', KJson)]"

text \<open>\<open>(^|\/)\<close> and the two patterns for JSON with comments.\<close>

definition at_segment_start :: rx where
  "at_segment_start = RAlt RBol (rchar CHR ''/'')"

definition JSONC_FILE :: rx where
  "JSONC_FILE = rseq
    [at_segment_start,
     ralt [RSeq (rlit_i ''tsconfig'') (rstar (rnone ''/'')), RSeq (rlit_i ''jsconfig'') (rstar (rnone ''/'')),
       rlit_i ''.eslintrc'', rlit_i ''devcontainer'', rlit_i ''.babelrc'', rlit_i ''.swcrc''],
     rlit_i ''.json'', REol]"

definition JSONC_DIR :: rx where
  "JSONC_DIR = rseq [at_segment_start, rlit_i ''.vscode/'']"

definition syntaxKindOf :: "jstr \<Rightarrow> syntax_kind option" where
  "syntaxKindOf filePath =
    (let kind = (case record_get KIND_BY_EXTENSION (extension_of (basename filePath)) of
           Own k \<Rightarrow> Some k | Inherited \<Rightarrow> Some KInherited | Absent \<Rightarrow> None)
     in if kind = Some KJson \<and> (rx_test JSONC_FILE filePath \<or> rx_test JSONC_DIR filePath) then None
        else kind)"

subsection \<open>Parsing\<close>

record parse_failure =
  pf_line :: line_no
  pf_message :: jstr
  pf_unsupported :: bool

text \<open>What the parser threw: \<open>loc.line\<close>, \<open>reasonCode\<close> and \<open>message\<close>, each possibly missing.\<close>

record babel_error =
  be_line :: "line_no option"
  be_reason :: "jstr option"
  be_message :: "jstr option"

type_synonym babel = "jstr list \<Rightarrow> jstr \<Rightarrow> babel_error option"
type_synonym json_parser = "jstr \<Rightarrow> jstr option"

definition pluginsFor :: "syntax_kind \<Rightarrow> jstr list" where
  "pluginsFor kind =
    (if kind = KTs then [''typescript'', ''decorators-legacy'']
     else if kind = KTsx then [''typescript'', ''jsx'', ''decorators-legacy'']
     else [''jsx'', ''decorators-legacy''])"

definition UNSUPPORTED_REASONS :: "jstr list" where
  "UNSUPPORTED_REASONS = [''MissingPlugin'', ''MissingOneOfPlugins'']"

text \<open>\<open>/\s*\(\d+:\d+\)$/\<close>.\<close>

definition POSITION_SUFFIX :: rx where
  "POSITION_SUFFIX = rseq [rspaces, rchar CHR ''('', rplus (RSet is_digit), rchar CHR '':'',
    rplus (RSet is_digit), rchar CHR '')'', REol]"

definition jsParseFailure :: "babel \<Rightarrow> jstr \<Rightarrow> syntax_kind \<Rightarrow> parse_failure option" where
  "jsParseFailure babel content kind =
    (case babel (pluginsFor kind) content of
      None \<Rightarrow> None
    | Some e \<Rightarrow>
      (case be_line e of
        None \<Rightarrow> Some \<lparr>pf_line = 1, pf_message = [], pf_unsupported = True\<rparr>
      | Some l \<Rightarrow> Some \<lparr>pf_line = l,
          pf_message = (case be_message e of Some m \<Rightarrow> rx_replace POSITION_SUFFIX [] m | None \<Rightarrow> ''Syntax error''),
          pf_unsupported = (case be_reason e of Some r \<Rightarrow> r \<in> set UNSUPPORTED_REASONS | None \<Rightarrow> False)\<rparr>))"

definition LINE_IN_MESSAGE :: rx where
  "LINE_IN_MESSAGE = RSeq (rlit ''line '') (RGroup 1 (rplus (RSet is_digit)))"

definition POSITION_IN_MESSAGE :: rx where
  "POSITION_IN_MESSAGE = RSeq (rlit ''position '') (RGroup 1 (rplus (RSet is_digit)))"

definition captured_number :: "rx \<Rightarrow> jstr \<Rightarrow> nat option" where
  "captured_number r s = (case rx_exec r s 0 of
      None \<Rightarrow> None
    | Some m \<Rightarrow> map_option digits_val (rx_group 1 m s))"

text \<open>A byte-order mark, which the source strips first, is not a code unit below 256.\<close>

definition jsonParseFailure :: "json_parser \<Rightarrow> jstr \<Rightarrow> parse_failure option" where
  "jsonParseFailure json text =
    (if trim text = [] then None
     else (case json text of
        None \<Rightarrow> None
      | Some message \<Rightarrow> Some \<lparr>pf_line =
            (case captured_number LINE_IN_MESSAGE message of
              Some l \<Rightarrow> int l
            | None \<Rightarrow> (case captured_number POSITION_IN_MESSAGE message of
                Some p \<Rightarrow> int (length (split_on CHR 0x0A (take p text)))
              | None \<Rightarrow> 1)),
          pf_message = ''Invalid JSON'', pf_unsupported = False\<rparr>))"

definition parseFailure :: "babel \<Rightarrow> json_parser \<Rightarrow> jstr \<Rightarrow> syntax_kind \<Rightarrow> parse_failure option" where
  "parseFailure babel json content kind =
    (if kind = KJson then jsonParseFailure json content else jsParseFailure babel content kind)"

subsection \<open>The file before the change\<close>

text \<open>
  \<open>reverseApply\<close> keeps \<open>old\<close> and a cursor into the head lines.  The state is the lines pushed
  so far and the cursor; \<open>None\<close> is the early \<open>return null\<close>.
\<close>

fun reverse_lines :: "jstr list \<Rightarrow> diff_line list \<Rightarrow> jstr list \<Rightarrow> nat \<Rightarrow> (jstr list \<times> nat) option" where
  "reverse_lines head [] old cursor = Some (old, cursor)"
| "reverse_lines head (l # ls) old cursor =
    (if dl_kind l = Del then reverse_lines head ls (old @ [dl_text l]) cursor
     else if cursor < 1 \<or> length head < cursor \<or> head ! (cursor - 1) \<noteq> dl_text l then None
     else reverse_lines head ls (if dl_kind l = Context then old @ [dl_text l] else old) (cursor + 1))"

definition first_new_line :: "diff_hunk \<Rightarrow> line_no" where
  "first_new_line h = (if \<exists>l \<in> set (dh_lines h). dl_kind l \<noteq> Del then dh_newStart h else dh_newStart h + 1)"

fun reverse_hunks :: "jstr list \<Rightarrow> diff_hunk list \<Rightarrow> jstr list \<Rightarrow> nat \<Rightarrow> (jstr list \<times> nat) option" where
  "reverse_hunks head [] old cursor = Some (old, cursor)"
| "reverse_hunks head (h # hs) old cursor =
    (let firstNew = first_new_line h
     in if firstNew < int cursor \<or> int (length head) < firstNew - 1 then None
        else (case reverse_lines head (dh_lines h)
                (old @ take (nat firstNew - cursor) (drop (cursor - 1) head)) (nat firstNew) of
            None \<Rightarrow> None
          | Some (old', cursor') \<Rightarrow> reverse_hunks head hs old' cursor'))"

definition reverseApply :: "jstr list \<Rightarrow> diff_hunk list \<Rightarrow> jstr list option" where
  "reverseApply headLines hunks =
    (case reverse_hunks headLines hunks [] 1 of
      None \<Rightarrow> None
    | Some (old, cursor) \<Rightarrow> Some (old @ drop (cursor - 1) headLines))"

definition reconstructBase :: "jstr \<Rightarrow> diff_hunk list \<Rightarrow> jstr option" where
  "reconstructBase head hunks =
    (let headLines = split_on CHR 0x0A head
     in case reverseApply headLines hunks of
       Some rebuilt \<Rightarrow> Some (join [CHR 0x0A] rebuilt)
     | None \<Rightarrow>
         if hunks \<noteq> [] \<and> dh_lines (last hunks) \<noteq> [] \<and> dl_kind (last (dh_lines (last hunks))) = Context \<and>
            dl_text (last (dh_lines (last hunks))) = []
         then (let trimmed = butlast hunks @ [(last hunks)\<lparr>dh_lines := butlast (dh_lines (last hunks))\<rparr>]
               in map_option (join [CHR 0x0A]) (reverseApply headLines trimmed))
         else None)"

subsection \<open>The touched lines\<close>

text \<open>The loop over one hunk: what was pushed, \<open>lastNewLine\<close> and \<open>pendingDeletion\<close>.\<close>

fun changed_in :: "diff_line list \<Rightarrow> line_no \<Rightarrow> bool \<Rightarrow> line_no list" where
  "changed_in [] lastNew pending = (if pending then [max 1 lastNew] else [])"
| "changed_in (l # ls) lastNew pending =
    (if dl_kind l = Del then changed_in ls lastNew True
     else (let n = (case dl_newLine l of Some k \<Rightarrow> k | None \<Rightarrow> lastNew + 1)
           in (if pending \<or> dl_kind l = Add then [n] else []) @ changed_in ls n False))"

definition changedLines :: "diff_hunk list \<Rightarrow> line_no list" where
  "changedLines hunks =
    js_sort number_asc (js_unique (concat (map (\<lambda>h. changed_in (dh_lines h) (dh_newStart h - 1) False) hunks)))"

definition locate :: "line_no \<Rightarrow> line_no list \<Rightarrow> line_no option" where
  "locate errorLine touched =
    (if touched = [] then None
     else if errorLine \<in> set touched then Some errorLine
     else (let above = filter (\<lambda>l. l < errorLine) touched
           in if above \<noteq> [] then Some (last above) else Some (hd touched)))"

subsection \<open>The check\<close>

datatype file_status = Added | Removed | Modified | Renamed

record syntax_input =
  sx_path :: jstr
  sx_status :: file_status
  sx_patch :: jstr
  sx_head :: jstr
  sx_skipBase :: bool

record syntax_hit =
  sh_ruleId :: jstr
  sh_title :: jstr
  sh_message :: jstr
  sh_filePath :: jstr
  sh_lineStart :: line_no
  sh_lineEnd :: line_no
  sh_snippet :: "jstr option"
  sh_fingerprint :: jstr

datatype syntax_skip =
  UnsupportedFile | Parses | UnsupportedSyntax | BaseUnknown | BaseBroken | NoChange
| Unavailable | Capped

definition syntax_fingerprint_key :: "jstr \<Rightarrow> jstr" where
  "syntax_fingerprint_key path = SYNTAX_RULE_ID @ [CHR 0x00] @ path"

definition non_empty :: "jstr \<Rightarrow> jstr option" where
  "non_empty s = (if s = [] then None else Some s)"

definition syntax_hit_at :: "(jstr \<Rightarrow> jstr) \<Rightarrow> syntax_input \<Rightarrow> parse_failure \<Rightarrow> line_no \<Rightarrow> syntax_hit" where
  "syntax_hit_at sha1 inp failure line =
    (let ls = split_on CHR 0x0A (sx_head inp);
         lineText = (if 1 \<le> line \<and> line \<le> int (length ls) then ls ! nat (line - 1) else [])
     in \<lparr>sh_ruleId = SYNTAX_RULE_ID, sh_title = ''Syntax error'',
         sh_message = ''This change leaves the file unparseable: '' @ take 200 (pf_message failure) @
           (if pf_line failure = line then ''.''
            else '' (the parser stopped at line '' @ show_int (pf_line failure) @ '').''),
         sh_filePath = sx_path inp, sh_lineStart = line, sh_lineEnd = line,
         sh_snippet = non_empty (take 200 (trim lineText)),
         sh_fingerprint = sha1 (syntax_fingerprint_key (sx_path inp))\<rparr>)"

definition checkSyntax ::
  "babel \<Rightarrow> json_parser \<Rightarrow> (jstr \<Rightarrow> jstr) \<Rightarrow> syntax_input \<Rightarrow> syntax_skip + syntax_hit" where
  "checkSyntax babel json sha1 inp =
    (case syntaxKindOf (sx_path inp) of
      None \<Rightarrow> Inl UnsupportedFile
    | Some kind \<Rightarrow>
      (case parseFailure babel json (sx_head inp) kind of
        None \<Rightarrow> Inl Parses
      | Some failure \<Rightarrow>
          if pf_unsupported failure then Inl UnsupportedSyntax
          else
            (let hunks = parsePatch (sx_patch inp);
                 result = (case locate (pf_line failure) (changedLines hunks) of
                    None \<Rightarrow> Inl NoChange
                  | Some line \<Rightarrow> Inr (syntax_hit_at sha1 inp failure line))
             in if sx_status inp \<noteq> Added \<and> \<not> sx_skipBase inp
                then (case reconstructBase (sx_head inp) hunks of
                    None \<Rightarrow> Inl BaseUnknown
                  | Some base \<Rightarrow>
                      if parseFailure babel json base kind \<noteq> None then Inl BaseBroken else result)
                else result)))"

subsection \<open>The step over the files of a diff\<close>

record step_file =
  sf_path :: jstr
  sf_status :: file_status
  sf_patch :: "jstr option"
  sf_truncated :: bool

definition syntax_eligible :: "glob_match \<Rightarrow> step_file \<Rightarrow> bool" where
  "syntax_eligible mm file \<longleftrightarrow> sf_status file \<noteq> Removed \<and> sf_patch file \<noteq> None \<and> \<not> sf_truncated file \<and>
    \<not> isIgnoredPath mm (sf_path file) \<and> syntaxKindOf (sf_path file) \<noteq> None"

definition syntaxCheckFiles :: "glob_match \<Rightarrow> step_file list \<Rightarrow> nat \<Rightarrow> step_file list \<times> nat" where
  "syntaxCheckFiles mm files maxFiles =
    (let eligible = filter (syntax_eligible mm) files
     in (take maxFiles eligible, length eligible - maxFiles))"

record step_result =
  sr_hits :: "syntax_hit list"
  sr_decided :: "jstr list"
  sr_skipped :: "(syntax_skip \<times> nat) list"

definition skip_by :: "syntax_skip \<Rightarrow> nat \<Rightarrow> step_result \<Rightarrow> step_result" where
  "skip_by reason by_n r = r\<lparr>sr_skipped :=
    al_set reason ((case al_get (sr_skipped r) reason of Some n \<Rightarrow> n | None \<Rightarrow> 0) + by_n) (sr_skipped r)\<rparr>"

definition decide_path :: "jstr \<Rightarrow> step_result \<Rightarrow> step_result" where
  "decide_path path r = r\<lparr>sr_decided := (if path \<in> set (sr_decided r) then sr_decided r else sr_decided r @ [path])\<rparr>"

definition syntax_step_file ::
  "(syntax_input \<Rightarrow> syntax_skip + syntax_hit) \<Rightarrow> (jstr \<Rightarrow> jstr option) \<Rightarrow> jstr list \<Rightarrow> step_result \<Rightarrow> step_file \<Rightarrow> step_result" where
  "syntax_step_file check contents knownBroken r file =
    (case contents (sf_path file) of
      None \<Rightarrow> skip_by Unavailable 1 r
    | Some head \<Rightarrow>
      (case check \<lparr>sx_path = sf_path file, sx_status = sf_status file,
          sx_patch = (case sf_patch file of Some p \<Rightarrow> p | None \<Rightarrow> []), sx_head = head,
          sx_skipBase = (sf_path file \<in> set knownBroken)\<rparr> of
        Inr hit \<Rightarrow> decide_path (sf_path file) (r\<lparr>sr_hits := sr_hits r @ [hit]\<rparr>)
      | Inl reason \<Rightarrow> skip_by reason 1 (if reason = Parses then decide_path (sf_path file) r else r)))"

definition runSyntaxChecks ::
  "(syntax_input \<Rightarrow> syntax_skip + syntax_hit) \<Rightarrow> step_file list \<Rightarrow> (jstr \<Rightarrow> jstr option) \<Rightarrow> jstr list \<Rightarrow> nat \<Rightarrow> step_result" where
  "runSyntaxChecks check files contents knownBroken capped =
    (let start = \<lparr>sr_hits = [], sr_decided = [], sr_skipped = []\<rparr>
     in foldl (syntax_step_file check contents knownBroken)
          (if 0 < capped then skip_by Capped capped start else start) files)"

subsection \<open>Rebuilding the old file\<close>

lemma drop_Cons_nth:
  assumes "take (Suc n) (drop i xs) = y # ys" shows "i < length xs" "xs ! i = y" "take n (drop (Suc i) xs) = ys"
proof -
  from assms have "drop i xs \<noteq> []" by auto
  then show i: "i < length xs" by simp
  then have "drop i xs = xs ! i # drop (Suc i) xs" by (simp add: Cons_nth_drop_Suc)
  with assms show "xs ! i = y" "take n (drop (Suc i) xs) = ys" by simp_all
qed

lemma reverse_lines_side:
  assumes "take (length (new_side ls)) (drop (cursor - 1) head) = new_side ls" "1 \<le> cursor"
  shows "reverse_lines head ls old cursor = Some (old @ old_side ls, cursor + length (new_side ls))"
  using assms
proof (induction ls arbitrary: old cursor)
  case (Cons l ls)
  show ?case
  proof (cases "dl_kind l = Del")
    case True
    with Cons show ?thesis by simp
  next
    case False
    with Cons.prems have "take (Suc (length (new_side ls))) (drop (cursor - 1) head) = dl_text l # new_side ls"
      by simp
    note d = drop_Cons_nth [OF this]
    from d(3) Cons.prems(2) have "take (length (new_side ls)) (drop (cursor + 1 - 1) head) = new_side ls" by simp
    from Cons.IH [OF this] d Cons.prems(2) False show ?thesis
      by (cases "dl_kind l") simp_all
  qed
qed simp

lemma first_new_line_eq: "first_new_line h = first_new h"
proof -
  have "new_side ls = [] \<longleftrightarrow> (\<forall>l \<in> set ls. dl_kind l = Del)" for ls
    by (induction ls) auto
  then show ?thesis by (auto simp: first_new_line_def first_new_def)
qed

lemma reverse_hunks_inverts:
  assumes "diff_from a b hs old new" "head = pre @ new" "b = int (length pre) + 1"
  shows "\<exists>X c. reverse_hunks head hs acc (length pre + 1) = Some (acc @ X, c) \<and> X @ drop (c - 1) head = old"
  using assms
proof (induction hs arbitrary: a b old new pre acc)
  case Nil
  then show ?case by simp
next
  case (Cons h hs)
  from Cons.prems(1) show ?case
  proof (rule diff_from_ConsE)
    fix k os ns
    assume os: "os = old_side (dh_lines h)" and ns: "ns = new_side (dh_lines h)"
      and fn: "first_new h = b + int k" and lens: "k + length os \<le> length old" "k + length ns \<le> length new"
      and same: "take k old = take k new"
      and seg: "take (length os) (drop k old) = os" "take (length ns) (drop k new) = ns"
      and rest: "diff_from (a + int k + int (length os)) (b + int k + int (length ns)) hs
        (drop (k + length os) old) (drop (k + length ns) new)"
    let ?pre = "pre @ take (k + length ns) new"
    let ?acc = "acc @ take k new @ os"
    have len: "length ?pre = length pre + k + length ns" using lens by simp
    from fn Cons.prems(3) have fn': "first_new_line h = int (length pre + k + 1)"
      by (simp add: first_new_line_eq)
    have cur: "nat (first_new_line h) = length pre + k + 1" using fn' by linarith
    have "reverse_lines head (dh_lines h) (acc @ take k new) (length pre + k + 1) = Some (?acc, length ?pre + 1)"
      using reverse_lines_side [of "dh_lines h" "length pre + k + 1" head "acc @ take k new"] seg(2) Cons.prems(2) len
      by (simp add: ns os)
    moreover have "take (length pre + k + 1 - (length pre + 1)) (drop (length pre + 1 - 1) head) = take k new"
      using Cons.prems(2) by simp
    moreover have "\<not> (first_new_line h < int (length pre + 1) \<or> int (length head) < first_new_line h - 1)"
      unfolding fn' using Cons.prems(2) lens by simp
    ultimately have step: "reverse_hunks head (h # hs) acc (length pre + 1) = reverse_hunks head hs ?acc (length ?pre + 1)"
      unfolding reverse_hunks.simps Let_def cur by simp
    have "head = ?pre @ drop (k + length ns) new" using Cons.prems(2) by simp
    moreover have "b + int k + int (length ns) = int (length ?pre) + 1" using Cons.prems(3) len by simp
    ultimately obtain X c where X: "reverse_hunks head hs ?acc (length ?pre + 1) = Some (?acc @ X, c)"
      "X @ drop (c - 1) head = drop (k + length os) old"
      using Cons.IH [OF rest] by blast
    have "old = take k new @ os @ drop (k + length os) old"
      using same seg(1) by (metis append_take_drop_id drop_drop add.commute)
    with X step show ?thesis by (metis append_assoc)
  qed
qed

lemma reverseApply_inverts:
  assumes "diff_between hunks old new"
  shows "reverseApply new hunks = Some old"
  using reverse_hunks_inverts [of 1 1 hunks old new new "[]" "[]"] assms
  by (auto simp: reverseApply_def diff_between_def)

subsection \<open>Touched lines\<close>

lemma changed_in_add:
  "l \<in> set ls \<Longrightarrow> dl_kind l = Add \<Longrightarrow> dl_newLine l = Some n \<Longrightarrow> n \<in> set (changed_in ls k p)"
  by (induction ls k p rule: changed_in.induct) (auto simp: Let_def)

lemma set_changedLines:
  "set (changedLines hunks) = (\<Union>h \<in> set hunks. set (changed_in (dh_lines h) (dh_newStart h - 1) False))"
  by (simp add: changedLines_def)

lemma changedLines_sorted: "sorted_wrt (<) (changedLines hunks)"
  by (simp add: changedLines_def sorted_distinct_js_sort)

lemma changed_in_empty:
  "changed_in ls k p = [] \<longleftrightarrow> \<not> p \<and> (\<forall>l \<in> set ls. dl_kind l = Context)"
proof (induction ls k p rule: changed_in.induct)
  case (2 l ls k p)
  then show ?case by (cases "dl_kind l") (auto simp: Let_def)
qed simp

lemma changedLines_empty:
  "changedLines hunks = [] \<longleftrightarrow> (\<forall>h \<in> set hunks. \<forall>l \<in> set (dh_lines h). dl_kind l = Context)"
proof -
  have "changedLines hunks = [] \<longleftrightarrow> set (changedLines hunks) = {}" by simp
  also have "\<dots> \<longleftrightarrow> (\<forall>h \<in> set hunks. changed_in (dh_lines h) (dh_newStart h - 1) False = [])"
    by (simp add: set_changedLines)
  finally show ?thesis by (simp add: changed_in_empty)
qed

lemma locate_Some:
  assumes "locate e ts = Some l" "sorted_wrt (<) ts"
  shows "l \<in> set ts \<and> (e \<in> set ts \<longrightarrow> l = e) \<and>
    (e \<notin> set ts \<longrightarrow> (\<forall>t \<in> set ts. t < e \<longrightarrow> t \<le> l \<and> l < e))"
proof -
  have srt: "sorted_wrt (<) (filter (\<lambda>t. t < e) ts)" using assms(2) by (rule sorted_wrt_filter)
  have last: "x \<le> last xs" if "x \<in> set xs" "sorted_wrt (<) xs" for x and xs :: "int list"
    using that by (induction xs) (auto split: if_splits simp: less_imp_le)
  from assms(1) have ne: "ts \<noteq> []" by (auto simp: locate_def)
  have above: "last (filter (\<lambda>t. t < e) ts) \<in> set ts \<and> last (filter (\<lambda>t. t < e) ts) < e"
    if "filter (\<lambda>t. t < e) ts \<noteq> []"
    using last_in_set [OF that] by simp
  show ?thesis
  proof (cases "filter (\<lambda>t. t < e) ts = []")
    case True
    with assms(1) ne show ?thesis by (auto simp: locate_def filter_empty_conv split: if_splits)
  next
    case False
    with assms(1) ne above last [OF _ srt] show ?thesis
      by (auto simp: locate_def Let_def split: if_splits)
  qed
qed

lemma locate_None: "locate e ts = None \<longleftrightarrow> ts = []"
  by (simp add: locate_def Let_def)

subsection \<open>Counting the step's outcomes\<close>

definition skipped_total :: "step_result \<Rightarrow> nat" where
  "skipped_total r = sum_list (map snd (sr_skipped r))"

lemma sum_al_set:
  "sum_list (map snd (al_set k ((case al_get m k of Some n \<Rightarrow> n | None \<Rightarrow> 0) + v) m)) = sum_list (map snd m) + (v :: nat)"
  by (induction k v m rule: al_set.induct) auto

lemma skipped_total_skip [simp]: "skipped_total (skip_by reason n r) = skipped_total r + n"
  by (simp add: skipped_total_def skip_by_def sum_al_set)

lemma skip_by_simps [simp]:
  "sr_hits (skip_by reason n r) = sr_hits r" "sr_decided (skip_by reason n r) = sr_decided r"
  "sr_hits (decide_path p r) = sr_hits r" "skipped_total (decide_path p r) = skipped_total r"
  "set (sr_decided (decide_path p r)) = insert p (set (sr_decided r))"
  by (auto simp: skip_by_def decide_path_def skipped_total_def)

lemma syntax_step_file_counts:
  "length (sr_hits (syntax_step_file check contents known r f)) + skipped_total (syntax_step_file check contents known r f)
    = Suc (length (sr_hits r) + skipped_total r)"
proof (cases "contents (sf_path f)")
  case None
  then show ?thesis by (simp add: syntax_step_file_def)
next
  case (Some head)
  have hits: "skipped_total (r\<lparr>sr_hits := hs\<rparr>) = skipped_total r" for hs
    by (simp add: skipped_total_def)
  from Some show ?thesis
    unfolding syntax_step_file_def by (simp add: hits split: sum.split)
qed

lemma foldl_step_counts:
  "length (sr_hits (foldl (syntax_step_file check contents known) r fs)) +
     skipped_total (foldl (syntax_step_file check contents known) r fs)
   = length fs + length (sr_hits r) + skipped_total r"
  by (induction fs arbitrary: r) (simp_all add: syntax_step_file_counts)

subsection \<open>The properties of the syntax check\<close>

definition file_lines :: "jstr list \<Rightarrow> bool" where
  "file_lines ls \<longleftrightarrow> ls \<noteq> [] \<and> (\<forall>l \<in> set ls. CHR 0x0A \<notin> set l)"

abbreviation file_text :: "jstr list \<Rightarrow> jstr" where
  "file_text ls \<equiv> join [CHR 0x0A] ls"

lemma reconstructBase_diff:
  assumes "diff_between hunks old new" "file_lines new"
  shows "reconstructBase (file_text new) hunks = Some (file_text old)"
  using reverseApply_inverts [OF assms(1)] assms(2) split_on_join [of new "CHR 0x0A"]
  by (simp add: reconstructBase_def file_lines_def)

lemma checkSyntax_cases:
  assumes "syntaxKindOf (sx_path inp) = Some kind"
    "sx_status inp \<noteq> Added" "\<not> sx_skipBase inp"
    "reconstructBase (sx_head inp) (parsePatch (sx_patch inp)) = Some base"
  shows "checkSyntax babel json sha1 inp =
    (case parseFailure babel json (sx_head inp) kind of
      None \<Rightarrow> Inl Parses
    | Some f \<Rightarrow>
        if pf_unsupported f then Inl UnsupportedSyntax
        else if parseFailure babel json base kind \<noteq> None then Inl BaseBroken
        else (case locate (pf_line f) (changedLines (parsePatch (sx_patch inp))) of
          None \<Rightarrow> Inl NoChange
        | Some l \<Rightarrow> Inr (syntax_hit_at sha1 inp f l)))"
  using assms by (simp add: checkSyntax_def Let_def split: option.split)

lemma syntax_hit_at_simps [simp]:
  "sh_lineStart (syntax_hit_at sha1 inp f l) = l" "sh_lineEnd (syntax_hit_at sha1 inp f l) = l"
  "sh_filePath (syntax_hit_at sha1 inp f l) = sx_path inp"
  "sh_fingerprint (syntax_hit_at sha1 inp f l) = sha1 (syntax_fingerprint_key (sx_path inp))"
  by (simp_all add: syntax_hit_at_def Let_def)

text \<open>C22: \<open>reconstructBase\<close> inverts the change.  If the hunks turn the lines \<open>old\<close> into the lines
  \<open>new\<close>, then from the head text and the hunks it rebuilds exactly the text before the
  change.\<close>

theorem reconstructBase_inverts_diff:
  assumes "diff_between hunks old new" "file_lines new"
  shows "reconstructBase (file_text new) hunks = Some (file_text old)"
  using assms by (rule reconstructBase_diff)

lemma reconstructBase_inverts_diff_witness:
  "reconstructBase (file_text [''a'', ''b'', ''C'', ''D'', ''e'']) [sample_hunk]
    = Some (file_text [''a'', ''b'', ''c'', ''e''])"
  by (rule reconstructBase_inverts_diff) (code_simp, code_simp)

text \<open>C23: the syntax check reports an error exactly when the change introduced it.  For a changed
  file of a known kind whose patch turns \<open>old\<close> into \<open>new\<close>, a hit means that the head does not
  parse (for a reason the parser supports), that the file before the change did, and the hit
  is placed on a line the change touched; no hit means that the head parses, that the parser
  gave up, that the file was broken before, or that the patch touches no line.\<close>

theorem checkSyntax_reports_introduced_errors:
  assumes "syntaxKindOf (sx_path inp) = Some kind" "sx_status inp \<noteq> Added" "\<not> sx_skipBase inp"
    "sx_head inp = file_text new" "file_lines new" "diff_between (parsePatch (sx_patch inp)) old new"
  shows "case checkSyntax babel json sha1 inp of
      Inr hit \<Rightarrow> (\<exists>f. parseFailure babel json (file_text new) kind = Some f \<and> \<not> pf_unsupported f) \<and>
        parseFailure babel json (file_text old) kind = None \<and>
        sh_filePath hit = sx_path inp \<and> sh_lineStart hit = sh_lineEnd hit \<and>
        sh_lineStart hit \<in> set (changedLines (parsePatch (sx_patch inp)))
    | Inl _ \<Rightarrow> (\<forall>f. parseFailure babel json (file_text new) kind = Some f \<longrightarrow>
        pf_unsupported f \<or> parseFailure babel json (file_text old) kind \<noteq> None \<or>
        (\<forall>h \<in> set (parsePatch (sx_patch inp)). \<forall>l \<in> set (dh_lines h). dl_kind l = Context))"
proof -
  from reconstructBase_diff [OF assms(6,5)] assms(4)
  have base: "reconstructBase (sx_head inp) (parsePatch (sx_patch inp)) = Some (file_text old)" by simp
  show ?thesis
    unfolding checkSyntax_cases [OF assms(1-3) base] assms(4)
    using locate_Some [OF _ changedLines_sorted]
    by (auto simp: locate_None changedLines_empty split: option.splits)
qed

text \<open>\<open>changedLines\<close> is strictly ascending, holds every added line, and is empty only for a
  patch that changes nothing; \<open>locate\<close> answers with the error line itself when the change
  touched it, and otherwise with the last touched line above the error when there is one.\<close>

theorem locate_in_changedLines:
  "sorted_wrt (<) (changedLines hunks) \<and>
   (\<forall>h \<in> set hunks. \<forall>l \<in> set (dh_lines h). \<forall>n. dl_kind l = Add \<and> dl_newLine l = Some n \<longrightarrow>
      n \<in> set (changedLines hunks)) \<and>
   (case locate e (changedLines hunks) of
      None \<Rightarrow> \<forall>h \<in> set hunks. \<forall>l \<in> set (dh_lines h). dl_kind l = Context
    | Some l \<Rightarrow> l \<in> set (changedLines hunks) \<and> (e \<in> set (changedLines hunks) \<longrightarrow> l = e) \<and>
        (e \<notin> set (changedLines hunks) \<longrightarrow> (\<forall>t \<in> set (changedLines hunks). t < e \<longrightarrow> t \<le> l \<and> l < e)))"
proof (intro conjI)
  show "sorted_wrt (<) (changedLines hunks)" by (rule changedLines_sorted)
  show "\<forall>h \<in> set hunks. \<forall>l \<in> set (dh_lines h). \<forall>n. dl_kind l = Add \<and> dl_newLine l = Some n \<longrightarrow>
      n \<in> set (changedLines hunks)"
    by (auto simp: set_changedLines intro!: changed_in_add elim!: bexI [rotated])
  show "case locate e (changedLines hunks) of
      None \<Rightarrow> \<forall>h \<in> set hunks. \<forall>l \<in> set (dh_lines h). dl_kind l = Context
    | Some l \<Rightarrow> l \<in> set (changedLines hunks) \<and> (e \<in> set (changedLines hunks) \<longrightarrow> l = e) \<and>
        (e \<notin> set (changedLines hunks) \<longrightarrow> (\<forall>t \<in> set (changedLines hunks). t < e \<longrightarrow> t \<le> l \<and> l < e))"
    using locate_Some [OF _ changedLines_sorted, of e hunks]
    by (auto simp: locate_None changedLines_empty split: option.split)
qed

text \<open>The step accounts for every file.  Whatever the check answers, the hits, the skips and
  the files over the cap add up to the number of eligible files of the diff.\<close>

theorem runSyntaxChecks_accounts_for_files:
  "(let (kept, capped) = syntaxCheckFiles mm files maxFiles;
        r = runSyntaxChecks check kept contents knownBroken capped
    in length (sr_hits r) + skipped_total r) = length (filter (syntax_eligible mm) files)"
  by (simp add: syntaxCheckFiles_def runSyntaxChecks_def foldl_step_counts Let_def)
    (simp add: skipped_total_def)

subsection \<open>A sample\<close>

definition sample_babel :: babel where
  "sample_babel plugins content =
    (if contains content ''C'' then Some \<lparr>be_line = Some 5, be_reason = None, be_message = Some ''Unexpected token (5:1)''\<rparr>
     else None)"

definition sample_input :: syntax_input where
  "sample_input = \<lparr>sx_path = ''src/a.ts'', sx_status = Modified, sx_patch = sample_patch,
    sx_head = file_text [''a'', ''b'', ''C'', ''D'', ''e''], sx_skipBase = False\<rparr>"

lemma sample_hit:
  "checkSyntax sample_babel (\<lambda>_. None) id sample_input = Inr
    \<lparr>sh_ruleId = SYNTAX_RULE_ID, sh_title = ''Syntax error'',
     sh_message = ''This change leaves the file unparseable: Unexpected token (the parser stopped at line 5).'',
     sh_filePath = ''src/a.ts'', sh_lineStart = 4, sh_lineEnd = 4, sh_snippet = Some ''D'',
     sh_fingerprint = syntax_fingerprint_key ''src/a.ts''\<rparr>"
  by code_simp

lemma checkSyntax_reports_introduced_errors_witness:
  "parseFailure sample_babel (\<lambda>_. None) (file_text [''a'', ''b'', ''c'', ''e'']) KTs = None \<and>
    (4 :: line_no) \<in> set (changedLines (parsePatch sample_patch))"
proof -
  have "diff_between (parsePatch sample_patch) [''a'', ''b'', ''c'', ''e''] [''a'', ''b'', ''C'', ''D'', ''e'']"
    by code_simp
  moreover have "syntaxKindOf (sx_path sample_input) = Some KTs" by code_simp
  moreover have "file_lines [''a'', ''b'', ''C'', ''D'', ''e'']" by code_simp
  ultimately show ?thesis
    using checkSyntax_reports_introduced_errors [of sample_input KTs "[''a'', ''b'', ''C'', ''D'', ''e'']"
        "[''a'', ''b'', ''c'', ''e'']" sample_babel "\<lambda>_. None" id]
    unfolding sample_hit by (simp add: sample_input_def)
qed

lemma locate_in_changedLines_witness:
  "locate 5 (changedLines [sample_hunk]) = Some 4 \<and> (3 :: line_no) \<in> set (changedLines [sample_hunk])"
proof -
  have "locate 5 (changedLines [sample_hunk]) = Some 4" by code_simp
  moreover have "(3 :: line_no) \<in> set (changedLines [sample_hunk])"
    using locate_in_changedLines [of "[sample_hunk]" 5] by (simp add: sample_hunk_def)
  ultimately show ?thesis ..
qed

text \<open>An inherited table entry passes for a kind: such a file is parsed as JavaScript.\<close>

lemma inherited_extension_has_kind:
  "syntaxKindOf ''docs/notes.constructor'' = Some KInherited \<and>
    pluginsFor KInherited = [''jsx'', ''decorators-legacy'']"
  by code_simp

end
