(* ===== verification/Lifecycle.thy ===== *)
theory Lifecycle
  imports Diff_Parser Title_Similarity Finding_Model Syntax_Check
begin

section \<open>The life of a finding across the scans of a pull request\<close>

text \<open>
  \<open>src/queue/lifecycle/carry-forward.ts\<close>, \<open>status-matcher.ts\<close> and \<open>plan-findings.ts\<close>: a base
  scan's findings are carried through an incremental diff or matched by fingerprint, and the
  fresh candidates become NEW or re-open a resolved finding.  \<open>randomUUID\<close> is the parameter
  \<open>uuid\<close>: the identifier of the \<open>n\<close>-th row that is built.
\<close>

subsection \<open>Carrying findings through a diff\<close>

record carry_file =
  cf_path :: jstr
  cf_previousPath :: "jstr option"
  cf_status :: file_status
  cf_patch :: "jstr option"

record 'f carried =
  ca_finding :: 'f
  ca_filePath :: jstr
  ca_lineStart :: line_no
  ca_lineEnd :: line_no

text \<open>A renamed file is found under its previous path (an empty one counts as none).\<close>

definition carry_key :: "carry_file \<Rightarrow> jstr" where
  "carry_key file =
    (case cf_previousPath file of
      Some p \<Rightarrow> if cf_status file = Renamed \<and> p \<noteq> [] then p else cf_path file
    | None \<Rightarrow> cf_path file)"

definition by_old_path :: "carry_file list \<Rightarrow> (jstr \<times> carry_file) list" where
  "by_old_path files = al_of (map (\<lambda>f. (carry_key f, f)) files)"

text \<open>One round of the loop: where the finding lives now, or \<open>None\<close> when it is resolved.\<close>

definition carry_one :: "(jstr \<times> carry_file) list \<Rightarrow> 'a finding_data_scheme \<Rightarrow> 'a finding_data_scheme carried option" where
  "carry_one byOld f =
    (case al_get byOld (fd_filePath f) of
      None \<Rightarrow> Some \<lparr>ca_finding = f, ca_filePath = fd_filePath f, ca_lineStart = fd_lineStart f, ca_lineEnd = fd_lineEnd f\<rparr>
    | Some file \<Rightarrow>
        if cf_status file = Removed then None
        else (case cf_patch file of
          None \<Rightarrow> Some \<lparr>ca_finding = f, ca_filePath = cf_path file, ca_lineStart = fd_lineStart f, ca_lineEnd = fd_lineEnd f\<rparr>
        | Some patch \<Rightarrow>
            (case mapLineThroughHunks (parsePatch patch) (fd_lineStart f) (fd_lineEnd f) of
              None \<Rightarrow> None
            | Some (s, e) \<Rightarrow> Some \<lparr>ca_finding = f, ca_filePath = cf_path file, ca_lineStart = s, ca_lineEnd = e\<rparr>)))"

fun carry_loop :: "(jstr \<times> carry_file) list \<Rightarrow> 'a finding_data_scheme list \<Rightarrow>
    'a finding_data_scheme carried list \<times> 'a finding_data_scheme list" where
  "carry_loop byOld [] = ([], [])"
| "carry_loop byOld (f # fs) =
    (let (persisted, resolved) = carry_loop byOld fs
     in case carry_one byOld f of
       Some c \<Rightarrow> (c # persisted, resolved)
     | None \<Rightarrow> (persisted, f # resolved))"

definition carryForward :: "'a finding_data_scheme list \<Rightarrow> carry_file list \<Rightarrow>
    'a finding_data_scheme carried list \<times> 'a finding_data_scheme list" where
  "carryForward findings files = carry_loop (by_old_path files) findings"

subsection \<open>Matching candidates\<close>

definition REOPEN_WINDOW_SCANS :: nat where "REOPEN_WINDOW_SCANS = 3"
definition REOPEN_LINE_DISTANCE :: int where "REOPEN_LINE_DISTANCE = 5"
definition REOPEN_TITLE_SIMILARITY :: rat where "REOPEN_TITLE_SIMILARITY = 85 / 100"

record matchable =
  m_source :: finding_source
  m_filePath :: jstr
  m_lineStart :: line_no
  m_category :: "finding_category option"
  m_title :: jstr
  m_fingerprint :: jstr

record resolved_finding = matchable +
  rf_id :: jstr
  rf_firstSeenScanId :: jstr

definition matchable_of :: "'a finding_data_scheme \<Rightarrow> matchable" where
  "matchable_of f = \<lparr>m_source = fd_source f, m_filePath = fd_filePath f, m_lineStart = fd_lineStart f,
    m_category = fd_category f, m_title = fd_title f, m_fingerprint = fd_fingerprint f\<rparr>"

definition dropPersistedDuplicates :: "'a finding_data_scheme list \<Rightarrow> jstr list \<Rightarrow> 'a finding_data_scheme list" where
  "dropPersistedDuplicates candidates known = filter (\<lambda>c. fd_fingerprint c \<notin> set known) candidates"

definition similar_titles :: "jstr \<Rightarrow> jstr \<Rightarrow> bool" where
  "similar_titles a b =
    (case jaroWinkler (normalizeTitle a) (normalizeTitle b) of
      Some s \<Rightarrow> REOPEN_TITLE_SIMILARITY \<le> s
    | None \<Rightarrow> False)"

definition isSameFinding :: "'a matchable_scheme \<Rightarrow> 'b matchable_scheme \<Rightarrow> bool" where
  "isSameFinding a b \<longleftrightarrow>
    m_fingerprint a = m_fingerprint b \<or>
    m_source a = m_source b \<and> m_filePath a = m_filePath b \<and> m_category a = m_category b \<and>
    \<bar>m_lineStart a - m_lineStart b\<bar> \<le> REOPEN_LINE_DISTANCE \<and> similar_titles (m_title a) (m_title b)"

definition findReopened :: "matchable \<Rightarrow> resolved_finding list \<Rightarrow> resolved_finding option" where
  "findReopened candidate resolved =
    (case List.find (\<lambda>r. m_fingerprint r = m_fingerprint candidate) resolved of
      Some r \<Rightarrow> Some r
    | None \<Rightarrow> List.find (\<lambda>r. isSameFinding candidate r) resolved)"

text \<open>
  \<open>pool.splice(pool.indexOf(match), 1)\<close> removes the found object; the search returned the
  first entry with its contents, so \<open>remove1\<close> removes the same position.
\<close>

fun assignNewOrReopened :: "candidate_finding list \<Rightarrow> resolved_finding list \<Rightarrow>
    (candidate_finding \<times> resolved_finding option) list" where
  "assignNewOrReopened [] pool = []"
| "assignNewOrReopened (c # cs) pool =
    (case findReopened (matchable_of c) pool of
      Some r \<Rightarrow> (c, Some r) # assignNewOrReopened cs (remove1 r pool)
    | None \<Rightarrow> (c, None) # assignNewOrReopened cs pool)"

text \<open>\<open>matchFullAgainstBase\<close>: a pool of lists per fingerprint, consumed from the front.\<close>

definition pool_add :: "(jstr \<times> 'b list) list \<Rightarrow> jstr \<Rightarrow> 'b \<Rightarrow> (jstr \<times> 'b list) list" where
  "pool_add pool k b = al_set k ((case al_get pool k of Some l \<Rightarrow> l | None \<Rightarrow> []) @ [b]) pool"

definition pool_of :: "'b finding_data_scheme list \<Rightarrow> (jstr \<times> 'b finding_data_scheme list) list" where
  "pool_of base = foldl (\<lambda>pool b. pool_add pool (fd_fingerprint b) b) [] base"

fun match_loop :: "'c finding_data_scheme list \<Rightarrow> (jstr \<times> 'b list) list \<Rightarrow>
    ('c finding_data_scheme \<times> 'b) list \<times> 'c finding_data_scheme list \<times> 'b list" where
  "match_loop [] pool = ([], [], concat (map snd pool))"
| "match_loop (c # cs) pool =
    (case al_get pool (fd_fingerprint c) of
      Some (b # bs) \<Rightarrow>
        (let (persisted, fresh, resolved) = match_loop cs (al_set (fd_fingerprint c) bs pool)
         in ((c, b) # persisted, fresh, resolved))
    | _ \<Rightarrow>
        (let (persisted, fresh, resolved) = match_loop cs pool
         in (persisted, c # fresh, resolved)))"

definition matchFullAgainstBase :: "'c finding_data_scheme list \<Rightarrow> 'b finding_data_scheme list \<Rightarrow>
    ('c finding_data_scheme \<times> 'b finding_data_scheme) list \<times> 'c finding_data_scheme list \<times> 'b finding_data_scheme list" where
  "matchFullAgainstBase candidates base = match_loop candidates (pool_of base)"

subsection \<open>Rows\<close>

definition fromStored :: "stored_finding \<Rightarrow> jstr \<Rightarrow> finding_status \<Rightarrow> (jstr \<times> line_no \<times> line_no) option \<Rightarrow> jstr \<Rightarrow> finding_row" where
  "fromStored base scanId status at_place rid =
    \<lparr>fd_source = fd_source base, fd_ruleId = fd_ruleId base, fd_severity = fd_severity base,
     fd_title = fd_title base, fd_message = fd_message base,
     fd_filePath = (case at_place of Some (p, s, e) \<Rightarrow> p | None \<Rightarrow> fd_filePath base),
     fd_lineStart = (case at_place of Some (p, s, e) \<Rightarrow> s | None \<Rightarrow> fd_lineStart base),
     fd_lineEnd = (case at_place of Some (p, s, e) \<Rightarrow> e | None \<Rightarrow> fd_lineEnd base),
     fd_snippet = fd_snippet base, fd_fingerprint = fd_fingerprint base,
     fd_suppressedReason = fd_suppressedReason base, fd_category = fd_category base,
     fd_confidence = fd_confidence base, fd_reportedSeverity = fd_reportedSeverity base,
     fd_dedupeOfId = fd_dedupeOfId base,
     st_id = rid, st_previousRunSeverity = st_previousRunSeverity base,
     st_latestRunSeverity = st_latestRunSeverity base, st_notReproduced = st_notReproduced base,
     st_firstSeenScanId = st_firstSeenScanId base,
     fr_status = status, fr_originFindingId = Some (st_id base),
     fr_resolvedInScanId = (if status = RESOLVED then Some scanId else None)\<rparr>"

definition fromCandidate :: "candidate_finding \<Rightarrow> jstr \<Rightarrow> finding_status \<Rightarrow> (jstr \<times> jstr) option \<Rightarrow> jstr \<Rightarrow> finding_row" where
  "fromCandidate c scanId status origin rid =
    \<lparr>fd_source = fd_source c, fd_ruleId = fd_ruleId c, fd_severity = fd_severity c,
     fd_title = fd_title c, fd_message = fd_message c, fd_filePath = fd_filePath c,
     fd_lineStart = fd_lineStart c, fd_lineEnd = fd_lineEnd c,
     fd_snippet = fd_snippet c, fd_fingerprint = fd_fingerprint c,
     fd_suppressedReason = fd_suppressedReason c, fd_category = fd_category c,
     fd_confidence = fd_confidence c, fd_reportedSeverity = fd_reportedSeverity c,
     fd_dedupeOfId = fd_dedupeOfId c,
     st_id = rid, st_previousRunSeverity = None, st_latestRunSeverity = None, st_notReproduced = False,
     st_firstSeenScanId = (case origin of Some (_, first) \<Rightarrow> first | None \<Rightarrow> scanId),
     fr_status = status, fr_originFindingId = map_option fst origin, fr_resolvedInScanId = None\<rparr>"

definition asResolved :: "'a stored_finding_scheme \<Rightarrow> resolved_finding" where
  "asResolved row = \<lparr>m_source = fd_source row, m_filePath = fd_filePath row, m_lineStart = fd_lineStart row,
    m_category = fd_category row, m_title = fd_title row, m_fingerprint = fd_fingerprint row,
    rf_id = st_id row, rf_firstSeenScanId = st_firstSeenScanId row\<rparr>"

subsection \<open>The plan of one step\<close>

record plan_input =
  pi_scanId :: jstr
  pi_candidates :: "candidate_finding list"
  pi_carry :: "(stored_finding list \<times> carry_file list) option"
  pi_match :: "stored_finding list option"
  pi_alreadyPersisted :: "jstr list option"
  pi_recentResolved :: "stored_finding list"

text \<open>The variables of \<open>planFindings\<close>: the rows so far, the candidates left, the resolved pool.\<close>

record plan_state =
  pl_rows :: "finding_row list"
  pl_candidates :: "candidate_finding list"
  pl_pool :: "resolved_finding list"
  pl_new :: "jstr list"

definition add_row :: "(nat \<Rightarrow> jstr) \<Rightarrow> (jstr \<Rightarrow> finding_row) \<Rightarrow> plan_state \<Rightarrow> plan_state" where
  "add_row uuid mk st = st\<lparr>pl_rows := pl_rows st @ [mk (uuid (length (pl_rows st)))]\<rparr>"

definition add_resolved :: "(nat \<Rightarrow> jstr) \<Rightarrow> jstr \<Rightarrow> plan_state \<Rightarrow> stored_finding \<Rightarrow> plan_state" where
  "add_resolved uuid scanId st f =
    (let row = fromStored f scanId RESOLVED None (uuid (length (pl_rows st)))
     in st\<lparr>pl_rows := pl_rows st @ [row], pl_pool := pl_pool st @ [asResolved row]\<rparr>)"

definition plan_carry :: "(nat \<Rightarrow> jstr) \<Rightarrow> plan_input \<Rightarrow> plan_state \<Rightarrow> plan_state" where
  "plan_carry uuid inp st =
    (case pi_carry inp of
      None \<Rightarrow> st
    | Some (base, files) \<Rightarrow>
       (let (persisted, resolved) = carryForward base files;
            st1 = foldl (\<lambda>st c. add_row uuid (fromStored (ca_finding c) (pi_scanId inp) PERSISTED
                     (Some (ca_filePath c, ca_lineStart c, ca_lineEnd c))) st) st persisted;
            st2 = foldl (add_resolved uuid (pi_scanId inp)) st1 resolved
        in st2\<lparr>pl_candidates := dropPersistedDuplicates (pl_candidates st2)
                 (map (\<lambda>c. fd_fingerprint (ca_finding c)) persisted)\<rparr>))"

definition plan_match :: "(nat \<Rightarrow> jstr) \<Rightarrow> plan_input \<Rightarrow> plan_state \<Rightarrow> plan_state" where
  "plan_match uuid inp st =
    (case pi_match inp of
      None \<Rightarrow> st
    | Some base \<Rightarrow>
       (let (persisted, fresh, resolved) = matchFullAgainstBase (pl_candidates st) base;
            st1 = foldl (\<lambda>st (c, b). add_row uuid (fromCandidate c (pi_scanId inp) PERSISTED
                     (Some (st_id b, st_firstSeenScanId b))) st) st persisted;
            st2 = foldl (add_resolved uuid (pi_scanId inp)) st1 resolved
        in st2\<lparr>pl_candidates := fresh\<rparr>))"

definition plan_already :: "plan_input \<Rightarrow> plan_state \<Rightarrow> plan_state" where
  "plan_already inp st =
    (case pi_alreadyPersisted inp of
      None \<Rightarrow> st
    | Some known \<Rightarrow> st\<lparr>pl_candidates := dropPersistedDuplicates (pl_candidates st) known\<rparr>)"

definition plan_assigned :: "(nat \<Rightarrow> jstr) \<Rightarrow> jstr \<Rightarrow> plan_state \<Rightarrow> candidate_finding \<times> resolved_finding option \<Rightarrow> plan_state" where
  "plan_assigned uuid scanId st a =
    (case snd a of
      Some r \<Rightarrow> add_row uuid (fromCandidate (fst a) scanId REOPENED (Some (rf_id r, rf_firstSeenScanId r))) st
    | None \<Rightarrow> (add_row uuid (fromCandidate (fst a) scanId NEW None) st)
        \<lparr>pl_new := pl_new st @ [fd_fingerprint (fst a)]\<rparr>)"

definition plan_assign :: "(nat \<Rightarrow> jstr) \<Rightarrow> plan_input \<Rightarrow> plan_state \<Rightarrow> plan_state" where
  "plan_assign uuid inp st =
    foldl (plan_assigned uuid (pi_scanId inp)) st (assignNewOrReopened (pl_candidates st) (pl_pool st))"

definition plan_init :: "plan_input \<Rightarrow> plan_state" where
  "plan_init inp = \<lparr>pl_rows = [], pl_candidates = pi_candidates inp,
    pl_pool = map asResolved (pi_recentResolved inp), pl_new = []\<rparr>"

definition planFindings :: "(nat \<Rightarrow> jstr) \<Rightarrow> plan_input \<Rightarrow> finding_row list \<times> jstr list" where
  "planFindings uuid inp =
    (let st = plan_assign uuid inp (plan_already inp (plan_match uuid inp (plan_carry uuid inp (plan_init inp))))
     in (pl_rows st, pl_new st))"

subsection \<open>Carrying: every finding goes one way\<close>

lemma carry_loop_mset:
  "carry_loop byOld fs = (p, r) \<Longrightarrow> mset (map ca_finding p) + mset r = mset fs"
proof (induction fs arbitrary: p r)
  case (Cons f fs)
  obtain p' r' where rec: "carry_loop byOld fs = (p', r')" by (cases "carry_loop byOld fs")
  have same: "ca_finding c = f" if "carry_one byOld f = Some c" for c
    using that by (auto simp: carry_one_def split: option.splits if_splits)
  from Cons.IH [OF rec] Cons.prems rec same show ?case
    by (auto split: option.splits)
qed simp

lemma carry_loop_set:
  "carry_loop byOld fs = (p, r) \<Longrightarrow>
    set p = {c. \<exists>f \<in> set fs. carry_one byOld f = Some c} \<and> set r = {f \<in> set fs. carry_one byOld f = None}"
proof (induction fs arbitrary: p r)
  case (Cons f fs)
  obtain p' r' where rec: "carry_loop byOld fs = (p', r')" by (cases "carry_loop byOld fs")
  from Cons.IH [OF rec] Cons.prems rec show ?case
    by (auto split: option.splits)
qed auto

lemma carry_one_moved:
  assumes "al_get byOld (fd_filePath f) = Some file" "cf_status file \<noteq> Removed" "cf_patch file = Some patch"
    "diff_between (parsePatch patch) old new"
    "1 \<le> fd_lineStart f" "fd_lineStart f \<le> fd_lineEnd f" "fd_lineEnd f \<le> int (length old)"
  shows "case carry_one byOld f of
      Some c \<Rightarrow> ca_filePath c = cf_path file \<and>
        line_at 1 new (ca_lineStart c) = line_at 1 old (fd_lineStart f) \<and>
        line_at 1 new (ca_lineEnd c) = line_at 1 old (fd_lineEnd f)
    | None \<Rightarrow> \<exists>l \<in> {fd_lineStart f..fd_lineEnd f}. \<exists>h \<in> set (parsePatch patch). \<exists>d \<in> set (dh_lines h).
        dl_kind d = Del \<and> dl_oldLine d = Some l"
proof (cases "mapLineThroughHunks (parsePatch patch) (fd_lineStart f) (fd_lineEnd f)")
  case (Some se)
  then obtain s e where "mapLineThroughHunks (parsePatch patch) (fd_lineStart f) (fd_lineEnd f) = Some (s, e)"
    by (cases se) auto
  with mapLineThroughHunks_range [OF assms(4,5,7) this] assms(1-3) show ?thesis
    by (simp add: carry_one_def)
next
  case None
  have "\<exists>l \<in> {fd_lineStart f..fd_lineEnd f}. mapOldLine (parsePatch patch) l = None"
  proof (rule ccontr)
    assume "\<not> (\<exists>l \<in> {fd_lineStart f..fd_lineEnd f}. mapOldLine (parsePatch patch) l = None)"
    then have all: "\<forall>l \<in> {fd_lineStart f..fd_lineEnd f}. mapOldLine (parsePatch patch) l \<noteq> None" by simp
    with assms(6) obtain s e where "mapOldLine (parsePatch patch) (fd_lineStart f) = Some s"
      "mapOldLine (parsePatch patch) (fd_lineEnd f) = Some e" by fastforce
    with all assms(6) None mapLineThroughHunks_Some [of "parsePatch patch" "fd_lineStart f" "fd_lineEnd f" s e]
    show False by simp
  qed
  then obtain l where l: "l \<in> {fd_lineStart f..fd_lineEnd f}" "mapOldLine (parsePatch patch) l = None" by blast
  with mapOldLine_correct [OF assms(4), of l] assms(5,7)
  have "\<exists>h \<in> set (parsePatch patch). \<exists>d \<in> set (dh_lines h). dl_kind d = Del \<and> dl_oldLine d = Some l"
    by fastforce
  then have "\<exists>l \<in> {fd_lineStart f..fd_lineEnd f}. \<exists>h \<in> set (parsePatch patch). \<exists>d \<in> set (dh_lines h).
      dl_kind d = Del \<and> dl_oldLine d = Some l"
    by (rule bexI [OF _ l(1)])
  with None assms(1-3) show ?thesis by (simp add: carry_one_def)
qed

subsection \<open>Matching a full scan: conservation and maximality\<close>

definition pool_ok :: "(jstr \<times> 'b finding_data_scheme list) list \<Rightarrow> bool" where
  "pool_ok pool \<longleftrightarrow> al_distinct pool \<and> (\<forall>e \<in> set pool. \<forall>b \<in> set (snd e). fd_fingerprint b = fst e)"

abbreviation pool_items :: "(jstr \<times> 'b list) list \<Rightarrow> 'b multiset" where
  "pool_items pool \<equiv> mset (concat (map snd pool))"

lemma pool_items_set:
  "pool_items (al_set k l pool) + mset (case al_get pool k of Some l' \<Rightarrow> l' | None \<Rightarrow> []) = pool_items pool + mset l"
  by (induction k l pool rule: al_set.induct) (auto simp: ac_simps)

lemma pool_ok_set:
  assumes "pool_ok pool" "\<forall>b \<in> set l. fd_fingerprint b = k"
  shows "pool_ok (al_set k l pool)"
proof -
  from assms(1) have d: "al_distinct pool" by (simp add: pool_ok_def)
  have "fd_fingerprint b = fst e" if "e \<in> set (al_set k l pool)" "b \<in> set (snd e)" for e b
    using that assms al_set_in [OF d, of "fst e" "snd e" k l] by (auto simp: pool_ok_def split: if_splits)
  with d show ?thesis by (auto simp: pool_ok_def)
qed

lemma pool_ok_get: "pool_ok pool \<Longrightarrow> al_get pool k = Some l \<Longrightarrow> b \<in> set l \<Longrightarrow> fd_fingerprint b = k"
  using al_get_Some_in by (fastforce simp: pool_ok_def)

lemma pool_ok_absent:
  assumes "pool_ok pool" "al_get pool k = None \<or> al_get pool k = Some []" "b \<in># pool_items pool"
  shows "fd_fingerprint b \<noteq> k"
proof
  assume k: "fd_fingerprint b = k"
  from assms(3) obtain e where e: "e \<in> set pool" "b \<in> set (snd e)" by auto
  with assms(1) k have "fst e = k" "al_distinct pool" by (auto simp: pool_ok_def)
  with e(1) have "al_get pool k = Some (snd e)" by (intro al_get_in) auto
  with assms(2) e(2) show False by simp
qed

lemma pool_of_ok:
  fixes base :: "'b finding_data_scheme list"
  shows "pool_ok (pool_of base) \<and> pool_items (pool_of base) = mset base"
proof -
  have "pool_ok pool \<Longrightarrow> pool_ok (foldl (\<lambda>p b. pool_add p (fd_fingerprint b) b) pool base) \<and>
      pool_items (foldl (\<lambda>p b. pool_add p (fd_fingerprint b) b) pool base) = pool_items pool + mset base"
    for pool :: "(jstr \<times> 'b finding_data_scheme list) list"
  proof (induction base arbitrary: pool)
    case (Cons b base)
    let ?k = "fd_fingerprint b" and ?l = "case al_get pool (fd_fingerprint b) of Some l \<Rightarrow> l | None \<Rightarrow> []"
    have ok: "pool_ok (pool_add pool ?k b)"
      unfolding pool_add_def
      by (rule pool_ok_set [OF Cons.prems])
        (auto split: option.splits dest: pool_ok_get [OF Cons.prems, OF sym])
    have "pool_items (pool_add pool ?k b) + mset ?l = pool_items pool + mset (?l @ [b])"
      unfolding pool_add_def using pool_items_set [of ?k "?l @ [b]" pool] by simp
    then have "pool_items (pool_add pool ?k b) = pool_items pool + {#b#}" by simp
    with Cons.IH [OF ok] show ?case by simp
  qed simp
  from this [of "[]"] show ?thesis by (simp add: pool_of_def pool_ok_def)
qed

lemma match_loop_spec:
  assumes "pool_ok pool" "match_loop cs pool = (p, f, r)"
  shows "mset (map fst p) + mset f = mset cs \<and> mset (map snd p) + mset r = pool_items pool \<and>
    (\<forall>cb \<in> set p. fd_fingerprint (fst cb) = fd_fingerprint (snd cb)) \<and>
    (\<forall>c \<in> set f. \<forall>b \<in> set r. fd_fingerprint c \<noteq> fd_fingerprint b)"
  using assms
proof (induction cs arbitrary: pool p f r)
  case (Cons c cs)
  let ?k = "fd_fingerprint c"
  show ?case
  proof (cases "\<exists>b bs. al_get pool ?k = Some (b # bs)")
    case True
    then obtain b bs where get: "al_get pool ?k = Some (b # bs)" by blast
    from pool_ok_get [OF Cons.prems(1) get] have fp: "fd_fingerprint b = ?k" "\<forall>x \<in> set bs. fd_fingerprint x = ?k"
      by auto
    obtain p' f' r' where rec: "match_loop cs (al_set ?k bs pool) = (p', f', r')"
      by (metis prod_cases3)
    have "pool_items (al_set ?k bs pool) + mset (b # bs) = pool_items pool + mset bs"
      using pool_items_set [of ?k bs pool] get by simp
    then have items: "pool_items pool = add_mset b (pool_items (al_set ?k bs pool))" by simp
    note IH = Cons.IH [OF pool_ok_set [OF Cons.prems(1) fp(2)] rec]
    from Cons.prems(2) get rec have "p = (c, b) # p'" "f = f'" "r = r'" by auto
    with IH fp(1) show ?thesis unfolding items by auto
  next
    case False
    then have none: "al_get pool ?k = None \<or> al_get pool ?k = Some []"
      by (metis list.exhaust option.exhaust)
    obtain p' f' r' where rec: "match_loop cs pool = (p', f', r')" by (metis prod_cases3)
    note IH = Cons.IH [OF Cons.prems(1) rec]
    from IH have sub: "b \<in># pool_items pool" if "b \<in> set r'" for b
      using that by (metis in_multiset_in_set union_iff)
    from Cons.prems(2) none rec have "p = p'" "f = c # f'" "r = r'" by auto
    with IH pool_ok_absent [OF Cons.prems(1) none] sub show ?thesis by (metis (no_types, lifting) add_mset_add_single mset.simps(2) set_ConsD union_mset_add_mset_right)
  qed
qed simp

subsection \<open>Re-opening\<close>

lemma isSame_fingerprint: "m_fingerprint a = m_fingerprint b \<Longrightarrow> isSameFinding a b"
  by (simp add: isSameFinding_def)

lemma findReopened_Some: "findReopened c pool = Some r \<Longrightarrow> r \<in> set pool \<and> isSameFinding c r"
  by (auto simp: findReopened_def isSame_fingerprint split: option.splits dest!: find_SomeD)

lemma findReopened_None: "findReopened c pool = None \<Longrightarrow> r \<in> set pool \<Longrightarrow> \<not> isSameFinding c r"
  by (auto simp: findReopened_def split: option.splits dest: find_NoneD)

text \<open>An exact fingerprint is preferred to a similar finding.\<close>

lemma findReopened_exact:
  assumes "findReopened c pool = Some r" "r' \<in> set pool" "m_fingerprint r' = m_fingerprint c"
  shows "m_fingerprint r = m_fingerprint c"
  using assms by (auto simp: findReopened_def split: option.splits dest: find_SomeD find_NoneD)

definition reopened :: "('c \<times> 'r option) list \<Rightarrow> 'r list" where
  "reopened as = List.map_filter snd as"

lemma reopened_simps [simp]:
  "reopened [] = []" "reopened ((c, Some r) # as) = r # reopened as" "reopened ((c, None) # as) = reopened as"
  by (simp_all add: reopened_def List.map_filter_def)

lemma assign_fst: "map fst (assignNewOrReopened cs pool) = cs"
  by (induction cs pool rule: assignNewOrReopened.induct) (auto split: option.splits)

lemma assign_Cons:
  "findReopened (matchable_of c) pool = Some r \<Longrightarrow>
    assignNewOrReopened (c # cs) pool = (c, Some r) # assignNewOrReopened cs (remove1 r pool)"
  "findReopened (matchable_of c) pool = None \<Longrightarrow>
    assignNewOrReopened (c # cs) pool = (c, None) # assignNewOrReopened cs pool"
  by simp_all

lemma findReopened_mset:
  "findReopened c pool = Some r \<Longrightarrow> mset pool = add_mset r (mset (remove1 r pool))"
  by (rule remove1_mset_in) (simp add: findReopened_Some)

lemma assign_reopened_subset: "mset (reopened (assignNewOrReopened cs pool)) \<subseteq># mset pool"
proof (induction cs arbitrary: pool)
  case (Cons c cs)
  show ?case
  proof (cases "findReopened (matchable_of c) pool")
    case (Some r)
    from Cons [of "remove1 r pool"] show ?thesis
      unfolding assign_Cons(1) [OF Some] findReopened_mset [OF Some] reopened_simps by simp
  next
    case None
    from Cons [of pool] show ?thesis unfolding assign_Cons(2) [OF None] by simp
  qed
qed simp

lemma assign_sound: "(c, Some r) \<in> set (assignNewOrReopened cs pool) \<Longrightarrow> isSameFinding (matchable_of c) r"
proof (induction cs pool rule: assignNewOrReopened.induct)
  case (2 c' cs pool)
  then show ?case
    by (cases "findReopened (matchable_of c') pool") (auto dest: findReopened_Some)
qed simp

lemma assign_complete:
  assumes "(c, None) \<in> set (assignNewOrReopened cs pool)"
    "r \<in># mset pool - mset (reopened (assignNewOrReopened cs pool))"
  shows "\<not> isSameFinding (matchable_of c) r"
  using assms
proof (induction cs arbitrary: pool)
  case (Cons c' cs)
  show ?case
  proof (cases "findReopened (matchable_of c') pool")
    case (Some r')
    from Cons.prems show ?thesis
      unfolding assign_Cons(1) [OF Some] findReopened_mset [OF Some] reopened_simps
      by (intro Cons.IH [of "remove1 r' pool"]) simp_all
  next
    case None
    from Cons.prems(2) have "r \<in> set pool" by (meson in_diffD in_multiset_in_set)
    with findReopened_None [OF None] have here: "\<not> isSameFinding (matchable_of c') r" by blast
    from Cons.prems show ?thesis
      unfolding assign_Cons(2) [OF None] reopened_simps
      using here Cons.IH [of pool] by auto
  qed
qed simp

subsection \<open>The rows of a plan\<close>

definition row_ok :: "jstr \<Rightarrow> finding_row \<Rightarrow> bool" where
  "row_ok scanId r \<longleftrightarrow>
    fr_resolvedInScanId r = (if fr_status r = RESOLVED then Some scanId else None) \<and>
    (if fr_status r = NEW then fr_originFindingId r = None \<and> st_firstSeenScanId r = scanId
     else fr_originFindingId r \<noteq> None)"

abbreviation continues_base :: "finding_row \<Rightarrow> bool" where
  "continues_base r \<equiv> fr_status r = PERSISTED \<or> fr_status r = RESOLVED"

abbreviation row_data :: "finding_row \<Rightarrow> finding_data" where
  "row_data r \<equiv> finding_data.truncate r"

text \<open>
  The invariant of the steps before the assignment: \<open>bases\<close> are the identifiers of the base
  findings continued so far, \<open>recent\<close> the pool the plan started with.
\<close>

definition plan_inv :: "(nat \<Rightarrow> jstr) \<Rightarrow> jstr \<Rightarrow> jstr multiset \<Rightarrow> jstr list \<Rightarrow> plan_state \<Rightarrow> bool" where
  "plan_inv uuid scanId bases recent st \<longleftrightarrow>
    (\<forall>r \<in> set (pl_rows st). row_ok scanId r \<and> continues_base r) \<and>
    map st_id (pl_rows st) = map uuid [0..<length (pl_rows st)] \<and>
    mset (map fr_originFindingId (pl_rows st)) = image_mset Some bases \<and>
    map rf_id (pl_pool st) = recent @ map st_id (filter (\<lambda>r. fr_status r = RESOLVED) (pl_rows st)) \<and>
    pl_new st = []"

lemma plan_inv_cong:
  "pl_rows st' = pl_rows st \<Longrightarrow> pl_pool st' = pl_pool st \<Longrightarrow> pl_new st' = pl_new st \<Longrightarrow>
    plan_inv uuid scanId bases recent st' \<longleftrightarrow> plan_inv uuid scanId bases recent st"
  by (simp add: plan_inv_def)

lemma plan_inv_candidates [simp]:
  "plan_inv uuid scanId bases recent (st\<lparr>pl_candidates := cs\<rparr>) \<longleftrightarrow> plan_inv uuid scanId bases recent st"
  by (rule plan_inv_cong) simp_all

lemma fromStored_simps [simp]:
  "fr_status (fromStored b scanId s p i) = s" "fr_originFindingId (fromStored b scanId s p i) = Some (st_id b)"
  "st_id (fromStored b scanId s p i) = i" "fr_resolvedInScanId (fromStored b scanId s p i) = (if s = RESOLVED then Some scanId else None)"
  by (simp_all add: fromStored_def)

lemma fromCandidate_simps [simp]:
  "fr_status (fromCandidate c scanId s og i) = s" "fr_originFindingId (fromCandidate c scanId s og i) = map_option fst og"
  "st_id (fromCandidate c scanId s og i) = i" "fr_resolvedInScanId (fromCandidate c scanId s og i) = None"
  "st_firstSeenScanId (fromCandidate c scanId s og i) = (case og of Some (_, f) \<Rightarrow> f | None \<Rightarrow> scanId)"
  "fd_fingerprint (fromCandidate c scanId s og i) = fd_fingerprint c"
  by (simp_all add: fromCandidate_def)

lemma row_data_fromCandidate: "row_data (fromCandidate c scanId s og i) = c"
  by (cases c) (simp add: fromCandidate_def finding_data.truncate_def)

lemma plan_inv_persisted:
  assumes "plan_inv uuid scanId bases recent st"
    "\<And>i. st_id (mk i) = i \<and> row_ok scanId (mk i) \<and> fr_status (mk i) = PERSISTED \<and> fr_originFindingId (mk i) = Some b"
  shows "plan_inv uuid scanId (add_mset b bases) recent (add_row uuid mk st)"
  using assms by (auto simp: plan_inv_def add_row_def)

lemma plan_inv_resolved:
  assumes "plan_inv uuid scanId bases recent st"
  shows "plan_inv uuid scanId (add_mset (st_id f) bases) recent (add_resolved uuid scanId st f)"
  using assms by (auto simp: plan_inv_def add_resolved_def Let_def row_ok_def asResolved_def)

lemma foldl_plan_inv:
  assumes "plan_inv uuid scanId bases recent st"
    "\<And>st bases x. plan_inv uuid scanId bases recent st \<Longrightarrow>
      plan_inv uuid scanId (add_mset (bid x) bases) recent (step st x)"
  shows "plan_inv uuid scanId (mset (map bid xs) + bases) recent (foldl step st xs)"
  using assms
proof (induction xs arbitrary: st bases)
  case (Cons x xs)
  have "plan_inv uuid scanId (mset (map bid xs) + add_mset (bid x) bases) recent (foldl step (step st x) xs)"
    by (rule Cons.IH) (use Cons.prems in auto)
  then show ?case by simp
qed simp

lemma plan_inv_init: "plan_inv uuid scanId {#} (map st_id (pi_recentResolved inp)) (plan_init inp)"
  by (auto simp: plan_inv_def plan_init_def asResolved_def)

text \<open>The base findings a plan continues.\<close>

definition base_ids :: "plan_input \<Rightarrow> jstr multiset" where
  "base_ids inp =
    (case pi_carry inp of None \<Rightarrow> {#} | Some (base, _) \<Rightarrow> mset (map st_id base)) +
    (case pi_match inp of None \<Rightarrow> {#} | Some base \<Rightarrow> mset (map st_id base))"

lemma plan_inv_carry:
  assumes "plan_inv uuid (pi_scanId inp) bases recent st"
  shows "plan_inv uuid (pi_scanId inp)
    ((case pi_carry inp of None \<Rightarrow> {#} | Some (base, _) \<Rightarrow> mset (map st_id base)) + bases) recent (plan_carry uuid inp st)"
proof (cases "pi_carry inp")
  case (Some bf)
  obtain base files where bf: "bf = (base, files)" by (cases bf)
  obtain p r where cf: "carryForward base files = (p, r)" by (cases "carryForward base files")
  from carry_loop_mset [OF cf [unfolded carryForward_def]]
  have "image_mset st_id (mset (map ca_finding p) + mset r) = image_mset st_id (mset base)" by simp
  then have ids: "mset (map (\<lambda>c. st_id (ca_finding c)) p) + mset (map st_id r) = mset (map st_id base)"
    by (simp add: image_mset.compositionality comp_def)
  let ?scan = "pi_scanId inp"
  let ?st1 = "foldl (\<lambda>st c. add_row uuid (fromStored (ca_finding c) ?scan PERSISTED
      (Some (ca_filePath c, ca_lineStart c, ca_lineEnd c))) st) st p"
  have "plan_inv uuid ?scan (mset (map (\<lambda>c. st_id (ca_finding c)) p) + bases) recent ?st1"
    by (rule foldl_plan_inv [OF assms]) (rule plan_inv_persisted, assumption, simp add: row_ok_def)
  then have "plan_inv uuid ?scan (mset (map st_id r) + (mset (map (\<lambda>c. st_id (ca_finding c)) p) + bases)) recent
      (foldl (add_resolved uuid ?scan) ?st1 r)"
    by (rule foldl_plan_inv) (rule plan_inv_resolved)
  with Some bf cf ids show ?thesis
    by (simp add: plan_carry_def Let_def ac_simps)
qed (use assms in \<open>simp add: plan_carry_def\<close>)

lemma plan_inv_match:
  assumes "plan_inv uuid (pi_scanId inp) bases recent st"
  shows "plan_inv uuid (pi_scanId inp)
    ((case pi_match inp of None \<Rightarrow> {#} | Some base \<Rightarrow> mset (map st_id base)) + bases) recent (plan_match uuid inp st)"
proof (cases "pi_match inp")
  case (Some base)
  obtain p f r where mf: "matchFullAgainstBase (pl_candidates st) base = (p, f, r)" by (metis prod_cases3)
  from match_loop_spec [OF _ mf [unfolded matchFullAgainstBase_def]] pool_of_ok [of base]
  have "mset (map snd p) + mset r = mset base" by simp
  then have "image_mset st_id (mset (map snd p) + mset r) = image_mset st_id (mset base)" by simp
  then have ids: "mset (map (\<lambda>cb. st_id (snd cb)) p) + mset (map st_id r) = mset (map st_id base)"
    by (simp add: image_mset.compositionality comp_def)
  let ?scan = "pi_scanId inp"
  let ?st1 = "foldl (\<lambda>st (c, b). add_row uuid (fromCandidate c ?scan PERSISTED
      (Some (st_id b, st_firstSeenScanId b))) st) st p"
  have "plan_inv uuid ?scan (mset (map (\<lambda>cb. st_id (snd cb)) p) + bases) recent ?st1"
  proof (rule foldl_plan_inv [OF assms])
    fix st bases x assume inv: "plan_inv uuid ?scan bases recent st"
    show "plan_inv uuid ?scan (add_mset (st_id (snd x)) bases) recent (case x of (c, b) \<Rightarrow>
        add_row uuid (fromCandidate c ?scan PERSISTED (Some (st_id b, st_firstSeenScanId b))) st)"
      unfolding case_prod_beta by (rule plan_inv_persisted [OF inv]) (simp add: row_ok_def)
  qed
  then have "plan_inv uuid ?scan (mset (map st_id r) + (mset (map (\<lambda>cb. st_id (snd cb)) p) + bases)) recent
      (foldl (add_resolved uuid ?scan) ?st1 r)"
    by (rule foldl_plan_inv) (rule plan_inv_resolved)
  with Some mf ids show ?thesis
    by (simp add: plan_match_def Let_def ac_simps)
qed (use assms in \<open>simp add: plan_match_def\<close>)

text \<open>What the assignment appends.\<close>

lemma foldl_assigned:
  "\<exists>new. pl_rows (foldl (plan_assigned uuid scanId) st as) = pl_rows st @ new \<and>
    (\<forall>r \<in> set new. row_ok scanId r \<and> (fr_status r = NEW \<or> fr_status r = REOPENED)) \<and>
    map st_id new = map uuid [length (pl_rows st)..<length (pl_rows st) + length as] \<and>
    pl_new (foldl (plan_assigned uuid scanId) st as) = pl_new st @ map fd_fingerprint (filter (\<lambda>r. fr_status r = NEW) new) \<and>
    map fr_originFindingId (filter (\<lambda>r. fr_status r = REOPENED) new) = map (\<lambda>r. Some (rf_id r)) (reopened as) \<and>
    map row_data new = map fst as"
proof (induction as arbitrary: st)
  case (Cons a as)
  obtain c og where a: "a = (c, og)" by (cases a)
  let ?st = "plan_assigned uuid scanId st a"
  let ?row = "case og of Some r \<Rightarrow> fromCandidate c scanId REOPENED (Some (rf_id r, rf_firstSeenScanId r)) (uuid (length (pl_rows st)))
    | None \<Rightarrow> fromCandidate c scanId NEW None (uuid (length (pl_rows st)))"
  from Cons.IH [of ?st] obtain new where new:
    "pl_rows (foldl (plan_assigned uuid scanId) ?st as) = pl_rows ?st @ new"
    "\<forall>r \<in> set new. row_ok scanId r \<and> (fr_status r = NEW \<or> fr_status r = REOPENED)"
    "map st_id new = map uuid [length (pl_rows ?st)..<length (pl_rows ?st) + length as]"
    "pl_new (foldl (plan_assigned uuid scanId) ?st as) = pl_new ?st @ map fd_fingerprint (filter (\<lambda>r. fr_status r = NEW) new)"
    "map fr_originFindingId (filter (\<lambda>r. fr_status r = REOPENED) new) = map (\<lambda>r. Some (rf_id r)) (reopened as)"
    "map row_data new = map fst as"
    by blast
  have rows: "pl_rows ?st = pl_rows st @ [?row]"
    "pl_new ?st = pl_new st @ (if og = None then [fd_fingerprint c] else [])"
    by (auto simp: a plan_assigned_def add_row_def split: option.split)
  have upt: "[length (pl_rows st)..<length (pl_rows st) + length (a # as)] =
      length (pl_rows st) # [Suc (length (pl_rows st))..<Suc (length (pl_rows st)) + length as]"
    by (subst upt_rec) simp
  show ?case
  proof (intro exI [of _ "?row # new"] conjI)
    show "map st_id (?row # new) = map uuid [length (pl_rows st)..<length (pl_rows st) + length (a # as)]"
      unfolding upt using new(3) rows(1) by (simp split: option.split)
  next
    show "\<forall>r \<in> set (?row # new). row_ok scanId r \<and> (fr_status r = NEW \<or> fr_status r = REOPENED)"
      using new(2) by (simp add: row_ok_def split: option.split)
  next
    show "pl_rows (foldl (plan_assigned uuid scanId) st (a # as)) = pl_rows st @ ?row # new"
      using new(1) rows(1) by simp
  next
    show "pl_new (foldl (plan_assigned uuid scanId) st (a # as)) =
        pl_new st @ map fd_fingerprint (filter (\<lambda>r. fr_status r = NEW) (?row # new))"
      using new(4) rows(2) by (cases og) simp_all
  next
    show "map fr_originFindingId (filter (\<lambda>r. fr_status r = REOPENED) (?row # new)) = map (\<lambda>r. Some (rf_id r)) (reopened (a # as))"
      using new(5) by (cases og) (simp_all add: a)
  next
    show "map row_data (?row # new) = map fst (a # as)"
      using new(6) by (cases og) (simp_all add: a row_data_fromCandidate)
  qed
qed simp

lemma plan_before_assign:
  "plan_inv uuid (pi_scanId inp) (base_ids inp) (map st_id (pi_recentResolved inp))
    (plan_already inp (plan_match uuid inp (plan_carry uuid inp (plan_init inp))))"
  using plan_inv_match [OF plan_inv_carry [OF plan_inv_init, of uuid inp]]
  by (auto simp: plan_already_def base_ids_def ac_simps split: option.split)

lemma plan_assign_rows:
  obtains new where "pl_rows (plan_assign uuid inp st) = pl_rows st @ new"
    "\<forall>r \<in> set new. row_ok (pi_scanId inp) r \<and> (fr_status r = NEW \<or> fr_status r = REOPENED)"
    "map st_id new = map uuid [length (pl_rows st)..<length (pl_rows st) + length new]"
    "pl_new (plan_assign uuid inp st) = pl_new st @ map fd_fingerprint (filter (\<lambda>r. fr_status r = NEW) new)"
    "mset (map fr_originFindingId (filter (\<lambda>r. fr_status r = REOPENED) new)) \<subseteq># image_mset Some (mset (map rf_id (pl_pool st)))"
proof -
  let ?as = "assignNewOrReopened (pl_candidates st) (pl_pool st)"
  from foldl_assigned [of uuid "pi_scanId inp" st ?as, folded plan_assign_def] obtain new where
    n: "pl_rows (plan_assign uuid inp st) = pl_rows st @ new \<and>
      (\<forall>r \<in> set new. row_ok (pi_scanId inp) r \<and> (fr_status r = NEW \<or> fr_status r = REOPENED)) \<and>
      map st_id new = map uuid [length (pl_rows st)..<length (pl_rows st) + length ?as] \<and>
      pl_new (plan_assign uuid inp st) = pl_new st @ map fd_fingerprint (filter (\<lambda>r. fr_status r = NEW) new) \<and>
      map fr_originFindingId (filter (\<lambda>r. fr_status r = REOPENED) new) = map (\<lambda>r. Some (rf_id r)) (reopened ?as) \<and>
      map row_data new = map fst ?as" by (rule exE)
  then have ids: "map st_id new = map uuid [length (pl_rows st)..<length (pl_rows st) + length ?as]" by simp
  from arg_cong [OF this, of length] have len: "length ?as = length new" by simp
  have "image_mset (\<lambda>r. Some (rf_id r)) (mset (reopened ?as)) \<subseteq># image_mset (\<lambda>r. Some (rf_id r)) (mset (pl_pool st))"
    by (rule image_mset_subseteq_mono [OF assign_reopened_subset])
  with n have sub: "mset (map fr_originFindingId (filter (\<lambda>r. fr_status r = REOPENED) new)) \<subseteq># image_mset Some (mset (map rf_id (pl_pool st)))"
    by (simp add: image_mset.compositionality comp_def)
  show ?thesis
    by (rule that [of new]) (use n ids [unfolded len] sub in blast)+
qed

lemma planFindings_rows:
  obtains old new and pool :: "resolved_finding list" where "fst (planFindings uuid inp) = old @ new"
    "snd (planFindings uuid inp) = map fd_fingerprint (filter (\<lambda>r. fr_status r = NEW) new)"
    "\<forall>r \<in> set old. row_ok (pi_scanId inp) r \<and> continues_base r"
    "\<forall>r \<in> set new. row_ok (pi_scanId inp) r \<and> (fr_status r = NEW \<or> fr_status r = REOPENED)"
    "map st_id (old @ new) = map uuid [0..<length (old @ new)]"
    "mset (map fr_originFindingId old) = image_mset Some (base_ids inp)"
    "map rf_id pool = map st_id (pi_recentResolved inp) @ map st_id (filter (\<lambda>r. fr_status r = RESOLVED) old)"
    "mset (map fr_originFindingId (filter (\<lambda>r. fr_status r = REOPENED) new)) \<subseteq># image_mset Some (mset (map rf_id pool))"
proof -
  define st where "st = plan_already inp (plan_match uuid inp (plan_carry uuid inp (plan_init inp)))"
  have "plan_inv uuid (pi_scanId inp) (base_ids inp) (map st_id (pi_recentResolved inp)) st"
    unfolding st_def by (rule plan_before_assign)
  then have inv: "\<forall>r \<in> set (pl_rows st). row_ok (pi_scanId inp) r \<and> continues_base r"
    "map st_id (pl_rows st) = map uuid [0..<length (pl_rows st)]"
    "mset (map fr_originFindingId (pl_rows st)) = image_mset Some (base_ids inp)"
    "map rf_id (pl_pool st) = map st_id (pi_recentResolved inp) @ map st_id (filter (\<lambda>r. fr_status r = RESOLVED) (pl_rows st))"
    "pl_new st = []"
    by (simp_all add: plan_inv_def)
  have plan: "planFindings uuid inp = (pl_rows (plan_assign uuid inp st), pl_new (plan_assign uuid inp st))"
    by (simp add: planFindings_def st_def Let_def)
  show ?thesis
  proof (rule plan_assign_rows [of uuid inp st])
    fix new :: "finding_row list"
    assume new: "pl_rows (plan_assign uuid inp st) = pl_rows st @ new"
      "\<forall>r \<in> set new. row_ok (pi_scanId inp) r \<and> (fr_status r = NEW \<or> fr_status r = REOPENED)"
      "map st_id new = map uuid [length (pl_rows st)..<length (pl_rows st) + length new]"
      "pl_new (plan_assign uuid inp st) = pl_new st @ map fd_fingerprint (filter (\<lambda>r. fr_status r = NEW) new)"
      "mset (map fr_originFindingId (filter (\<lambda>r. fr_status r = REOPENED) new)) \<subseteq># image_mset Some (mset (map rf_id (pl_pool st)))"
    have "map st_id (pl_rows st @ new) = map uuid [0..<length (pl_rows st @ new)]"
      using inv(2) new(3) by (simp add: upt_add_eq_append [of 0])
    then show ?thesis
      using inv new plan by (intro that [of "pl_rows st" new "pl_pool st"]) simp_all
  qed
qed

subsection \<open>The properties of the lifecycle\<close>

lemma carryForward_finding:
  assumes "carryForward findings files = (persisted, resolved)" "f \<in> set findings"
    "al_get (by_old_path files) (fd_filePath f) = Some moved" "cf_status moved \<noteq> Removed"
    "cf_patch moved = Some patch" "diff_between (parsePatch patch) old new"
    "1 \<le> fd_lineStart f" "fd_lineStart f \<le> fd_lineEnd f" "fd_lineEnd f \<le> int (length old)"
  shows "(\<exists>c \<in> set persisted. ca_finding c = f \<and> ca_filePath c = cf_path moved \<and>
          line_at 1 new (ca_lineStart c) = line_at 1 old (fd_lineStart f) \<and>
          line_at 1 new (ca_lineEnd c) = line_at 1 old (fd_lineEnd f)) \<or>
      f \<in> set resolved \<and> (\<exists>l \<in> {fd_lineStart f..fd_lineEnd f}. \<exists>h \<in> set (parsePatch patch).
          \<exists>d \<in> set (dh_lines h). dl_kind d = Del \<and> dl_oldLine d = Some l)"
proof -
  note sets = carry_loop_set [OF assms(1) [unfolded carryForward_def]]
  note moved = carry_one_moved [OF assms(3-9)]
  show ?thesis
  proof (cases "carry_one (by_old_path files) f")
    case None
    with moved assms(2) sets show ?thesis by simp
  next
    case (Some c)
    then have "ca_finding c = f" by (auto simp: carry_one_def split: option.splits if_splits)
    with Some moved assms(2) sets show ?thesis by auto
  qed
qed

text \<open>C20: \<open>carryForward\<close> loses no finding and places each where its text went.  The findings it
  keeps and the ones it resolves are together the findings it was given; a finding of a file
  whose patch turns \<open>old\<close> into \<open>new\<close> is kept at lines with the same text, in the file's new
  path, and one it resolves has a deleted line in its range.\<close>

theorem carryForward_partitions_and_places:
  assumes "carryForward findings files = (persisted, resolved)"
  shows "mset (map ca_finding persisted) + mset resolved = mset findings \<and>
    (\<forall>f \<in> set findings. \<forall>moved patch old new.
      al_get (by_old_path files) (fd_filePath f) = Some moved \<and> cf_status moved \<noteq> Removed \<and>
      cf_patch moved = Some patch \<and> diff_between (parsePatch patch) old new \<and>
      1 \<le> fd_lineStart f \<and> fd_lineStart f \<le> fd_lineEnd f \<and> fd_lineEnd f \<le> int (length old) \<longrightarrow>
      (\<exists>c \<in> set persisted. ca_finding c = f \<and> ca_filePath c = cf_path moved \<and>
          line_at 1 new (ca_lineStart c) = line_at 1 old (fd_lineStart f) \<and>
          line_at 1 new (ca_lineEnd c) = line_at 1 old (fd_lineEnd f)) \<or>
      f \<in> set resolved \<and> (\<exists>l \<in> {fd_lineStart f..fd_lineEnd f}. \<exists>h \<in> set (parsePatch patch).
          \<exists>d \<in> set (dh_lines h). dl_kind d = Del \<and> dl_oldLine d = Some l))"
  using carry_loop_mset [OF assms [unfolded carryForward_def]] carryForward_finding [OF assms] by blast

text \<open>\<open>matchFullAgainstBase\<close> is a maximal matching by fingerprint.  Every candidate is either
  matched or fresh, every base finding either continued or resolved, a matched pair has one
  fingerprint, and no fresh candidate could still have continued a resolved finding.\<close>

theorem matchFullAgainstBase_maximal:
  assumes "matchFullAgainstBase candidates base = (persisted, fresh, resolved)"
  shows "mset (map fst persisted) + mset fresh = mset candidates \<and>
    mset (map snd persisted) + mset resolved = mset base \<and>
    (\<forall>cb \<in> set persisted. fd_fingerprint (fst cb) = fd_fingerprint (snd cb)) \<and>
    (\<forall>c \<in> set fresh. \<forall>b \<in> set resolved. fd_fingerprint c \<noteq> fd_fingerprint b)"
  using match_loop_spec [OF _ assms [unfolded matchFullAgainstBase_def]] pool_of_ok [of base] by simp

text \<open>\<open>assignNewOrReopened\<close> answers for every candidate in order, re-opens a resolved finding
  at most once and only as the same finding, and leaves no candidate NEW that is the same
  finding as a resolved one nobody re-opened.\<close>

theorem assignNewOrReopened_sound_complete:
  "map fst (assignNewOrReopened cs pool) = cs \<and>
   mset (reopened (assignNewOrReopened cs pool)) \<subseteq># mset pool \<and>
   (\<forall>a \<in> set (assignNewOrReopened cs pool). case snd a of
      Some r \<Rightarrow> isSameFinding (matchable_of (fst a)) r
    | None \<Rightarrow> \<forall>r \<in># mset pool - mset (reopened (assignNewOrReopened cs pool)). \<not> isSameFinding (matchable_of (fst a)) r)"
  using assign_fst assign_reopened_subset assign_sound assign_complete
  by (auto split: option.split)

text \<open>Every row of a plan is consistent.  Row \<open>n\<close> has the \<open>n\<close>-th identifier; only a RESOLVED
  row names the scan that closed it; a NEW row has no origin and was first seen in this scan,
  every other row has an origin; and the reported new fingerprints are those of the NEW rows.\<close>

theorem planFindings_rows_consistent:
  "(\<forall>r \<in> set (fst (planFindings uuid inp)). row_ok (pi_scanId inp) r) \<and>
   map st_id (fst (planFindings uuid inp)) = map uuid [0..<length (fst (planFindings uuid inp))] \<and>
   snd (planFindings uuid inp) =
     map fd_fingerprint (filter (\<lambda>r. fr_status r = NEW) (fst (planFindings uuid inp)))"
proof (rule planFindings_rows [of uuid inp])
  fix old new :: "finding_row list"
  assume "\<forall>r \<in> set old. row_ok (pi_scanId inp) r \<and> continues_base r"
    and eq: "fst (planFindings uuid inp) = old @ new"
      "snd (planFindings uuid inp) = map fd_fingerprint (filter (\<lambda>r. fr_status r = NEW) new)"
    and rest: "\<forall>r \<in> set new. row_ok (pi_scanId inp) r \<and> (fr_status r = NEW \<or> fr_status r = REOPENED)"
      "map st_id (old @ new) = map uuid [0..<length (old @ new)]"
  then have "filter (\<lambda>r. fr_status r = NEW) old = []" "\<forall>r \<in> set old. row_ok (pi_scanId inp) r"
    by (auto simp: filter_empty_conv)
  with rest show ?thesis unfolding eq by (auto simp del: map_append)
qed

text \<open>C19: a plan conserves the base scan.  Each base finding, carried or matched, is continued by
  exactly one PERSISTED or RESOLVED row, and a REOPENED row re-opens, at most once each, a
  finding resolved recently or by this very scan.\<close>

theorem planFindings_conserves_base:
  "mset (map fr_originFindingId (filter continues_base (fst (planFindings uuid inp)))) = image_mset Some (base_ids inp) \<and>
   mset (map fr_originFindingId (filter (\<lambda>r. fr_status r = REOPENED) (fst (planFindings uuid inp)))) \<subseteq>#
     image_mset Some (mset (map st_id (pi_recentResolved inp)) +
       mset (map st_id (filter (\<lambda>r. fr_status r = RESOLVED) (fst (planFindings uuid inp)))))"
proof (rule planFindings_rows [of uuid inp])
  fix old new :: "finding_row list" and pool
  assume old: "\<forall>r \<in> set old. row_ok (pi_scanId inp) r \<and> continues_base r"
    and eq: "fst (planFindings uuid inp) = old @ new"
    and new: "\<forall>r \<in> set new. row_ok (pi_scanId inp) r \<and> (fr_status r = NEW \<or> fr_status r = REOPENED)"
    and base: "mset (map fr_originFindingId old) = image_mset Some (base_ids inp)"
    and pool: "map rf_id pool = map st_id (pi_recentResolved inp) @ map st_id (filter (\<lambda>r. fr_status r = RESOLVED) old)"
      "mset (map fr_originFindingId (filter (\<lambda>r. fr_status r = REOPENED) new)) \<subseteq># image_mset Some (mset (map rf_id pool))"
  from old have o: "filter continues_base old = old" "filter (\<lambda>r. fr_status r = REOPENED) old = []"
    by (auto simp: filter_id_conv filter_empty_conv)
  from new have n: "filter continues_base new = []" "filter (\<lambda>r. fr_status r = RESOLVED) new = []"
    by (auto simp: filter_empty_conv)
  from pool o n base show ?thesis unfolding eq by (simp add: image_mset.compositionality)
qed

subsection \<open>A sample\<close>

definition sample_finding :: "jstr \<Rightarrow> line_no \<Rightarrow> jstr \<Rightarrow> stored_finding" where
  "sample_finding fp line rid =
    \<lparr>fd_source = STATIC, fd_ruleId = ''code.eval_dynamic'', fd_severity = CRITICAL, fd_title = ''Eval'',
     fd_message = ''Avoid it'', fd_filePath = ''src/a.ts'', fd_lineStart = line, fd_lineEnd = line,
     fd_snippet = None, fd_fingerprint = fp, fd_suppressedReason = None, fd_category = Some CatInjection,
     fd_confidence = None, fd_reportedSeverity = None, fd_dedupeOfId = None,
     st_id = rid, st_previousRunSeverity = None, st_latestRunSeverity = None, st_notReproduced = False,
     st_firstSeenScanId = ''scan1''\<rparr>"

definition sample_candidate :: "jstr \<Rightarrow> line_no \<Rightarrow> candidate_finding" where
  "sample_candidate fp line = finding_data.truncate (sample_finding fp line [])"

definition sample_files :: "carry_file list" where
  "sample_files = [\<lparr>cf_path = ''src/a.ts'', cf_previousPath = None, cf_status = Modified, cf_patch = Some sample_patch\<rparr>]"

lemma sample_carry:
  "carryForward [sample_finding ''f4'' 4 ''b4'', sample_finding ''f3'' 3 ''b3''] sample_files =
    ([\<lparr>ca_finding = sample_finding ''f4'' 4 ''b4'', ca_filePath = ''src/a.ts'', ca_lineStart = 5, ca_lineEnd = 5\<rparr>],
     [sample_finding ''f3'' 3 ''b3''])"
  by code_simp

lemma carryForward_partitions_and_places_witness:
  "mset [sample_finding ''f4'' 4 ''b4''] + mset [sample_finding ''f3'' 3 ''b3''] =
    mset [sample_finding ''f4'' 4 ''b4'', sample_finding ''f3'' 3 ''b3''] \<and>
   line_at 1 [''a'', ''b'', ''C'', ''D'', ''e''] 5 = line_at 1 [''a'', ''b'', ''c'', ''e''] 4"
proof -
  let ?f = "sample_finding ''f4'' 4 ''b4''"
  have place: "fd_lineStart ?f = 4" "fd_lineEnd ?f = 4" "fd_filePath ?f = ''src/a.ts''"
    "?f \<noteq> sample_finding ''f3'' 3 ''b3''"
    by (simp_all add: sample_finding_def)
  have d: "diff_between (parsePatch sample_patch) [''a'', ''b'', ''c'', ''e''] [''a'', ''b'', ''C'', ''D'', ''e'']"
    by code_simp
  have f: "al_get (by_old_path sample_files) ''src/a.ts'' = Some (hd sample_files)"
    "cf_status (hd sample_files) \<noteq> Removed" "cf_patch (hd sample_files) = Some sample_patch"
    by (simp_all add: sample_files_def by_old_path_def carry_key_def al_of_def)
  note parts = carryForward_partitions_and_places [OF sample_carry]
  from conjunct2 [OF parts, rule_format, of ?f "hd sample_files" sample_patch
      "[''a'', ''b'', ''c'', ''e'']" "[''a'', ''b'', ''C'', ''D'', ''e'']"] d f place
  have "line_at 1 [''a'', ''b'', ''C'', ''D'', ''e''] 5 = line_at 1 [''a'', ''b'', ''c'', ''e''] 4" by simp
  with conjunct1 [OF parts] show ?thesis by simp
qed

lemma matchFullAgainstBase_maximal_witness:
  "mset [sample_candidate ''f1'' 1] + mset [sample_candidate ''f9'' 9] =
    mset [sample_candidate ''f1'' 1, sample_candidate ''f9'' 9]"
proof -
  have "matchFullAgainstBase [sample_candidate ''f1'' 1, sample_candidate ''f9'' 9]
      [sample_finding ''f2'' 2 ''b2'', sample_finding ''f1'' 3 ''b1''] =
    ([(sample_candidate ''f1'' 1, sample_finding ''f1'' 3 ''b1'')], [sample_candidate ''f9'' 9],
     [sample_finding ''f2'' 2 ''b2''])"
    by code_simp
  from matchFullAgainstBase_maximal [OF this] show ?thesis by simp
qed

lemma assignNewOrReopened_sound_complete_witness:
  "assignNewOrReopened [sample_candidate ''f1'' 1] [asResolved (sample_finding ''f7'' 4 ''r'')] =
    [(sample_candidate ''f1'' 1, Some (asResolved (sample_finding ''f7'' 4 ''r'')))] \<and>
   isSameFinding (matchable_of (sample_candidate ''f1'' 1)) (asResolved (sample_finding ''f7'' 4 ''r''))"
proof -
  have "assignNewOrReopened [sample_candidate ''f1'' 1] [asResolved (sample_finding ''f7'' 4 ''r'')] =
    [(sample_candidate ''f1'' 1, Some (asResolved (sample_finding ''f7'' 4 ''r'')))]"
    by code_simp
  with assignNewOrReopened_sound_complete [of "[sample_candidate ''f1'' 1]" "[asResolved (sample_finding ''f7'' 4 ''r'')]"]
  show ?thesis by simp
qed

definition sample_plan :: plan_input where
  "sample_plan = \<lparr>pi_scanId = ''scan2'', pi_candidates = [sample_candidate ''f8'' 3],
    pi_carry = Some ([sample_finding ''f4'' 4 ''b4'', sample_finding ''f3'' 3 ''b3''], sample_files),
    pi_match = None, pi_alreadyPersisted = None, pi_recentResolved = []\<rparr>"

lemma sample_plan_statuses:
  "map fr_status (fst (planFindings show_nat sample_plan)) = [PERSISTED, RESOLVED, REOPENED]"
  by code_simp

lemma planFindings_rows_consistent_witness:
  "fr_resolvedInScanId (fst (planFindings show_nat sample_plan) ! 1) = Some ''scan2''"
proof -
  let ?rows = "fst (planFindings show_nat sample_plan)"
  have "length ?rows = 3" using arg_cong [OF sample_plan_statuses, of length] by simp
  then have row: "?rows ! 1 \<in> set ?rows" by (intro nth_mem) simp
  have "fr_status (?rows ! 1) = map fr_status ?rows ! 1" using \<open>length ?rows = 3\<close> by simp
  also have "\<dots> = RESOLVED" unfolding sample_plan_statuses by simp
  finally have st: "fr_status (?rows ! 1) = RESOLVED" .
  have "row_ok (pi_scanId sample_plan) (?rows ! 1)"
    using planFindings_rows_consistent [of show_nat sample_plan] row by blast
  with st show ?thesis by (simp add: row_ok_def sample_plan_def)
qed

end
