(* ===== verification/Scan_Counts.thy ===== *)
theory Scan_Counts
  imports Lifecycle
begin

section \<open>Counts of a scan and the reads of the lifecycle\<close>

text \<open>
  \<open>src/queue/lifecycle/scan-counts.ts\<close> and \<open>lifecycle-context.ts\<close>.  The tables the functions
  read and write are an explicit state: the finding rows with their scan and pull request, and
  the scans.  Redis is the set of keys it holds, or \<open>None\<close> when it cannot be reached.
\<close>

datatype scan_status = ScanQueued | ScanRunning | ScanDone | ScanFailed | ScanSuperseded

record db_finding = finding_row +
  db_scanId :: jstr
  db_pullId :: jstr

record scan_counts =
  sc_findings :: nat
  sc_critical :: nat
  sc_major :: nat
  sc_minor :: nat
  sc_new :: nat
  sc_persisted :: nat
  sc_reopened :: nat
  sc_resolved :: nat

record db_scan =
  ds_id :: jstr
  ds_pullId :: jstr
  ds_status :: scan_status
  ds_createdAt :: int
  ds_counts :: scan_counts

record lifecycle_db =
  ld_findings :: "db_finding list"
  ld_scans :: "db_scan list"

subsection \<open>Recomputing the counts\<close>

type_synonym count_group = "(finding_status \<times> finding_severity \<times> finding_source) \<times> nat"

definition counted_rows :: "lifecycle_db \<Rightarrow> jstr \<Rightarrow> db_finding list" where
  "counted_rows db scanId =
    filter (\<lambda>f. db_scanId f = scanId \<and> fd_suppressedReason f = None) (ld_findings db)"

definition group_key :: "db_finding \<Rightarrow> finding_status \<times> finding_severity \<times> finding_source" where
  "group_key f = (fr_status f, fd_severity f, fd_source f)"

definition group_rows :: "db_finding list \<Rightarrow> count_group list" where
  "group_rows rows =
    map (\<lambda>k. (k, length (filter (\<lambda>f. group_key f = k) rows))) (js_unique (map group_key rows))"

text \<open>REOPENED rows whose origin is a RESOLVED row of the same scan.\<close>

definition reopened_within_scan :: "lifecycle_db \<Rightarrow> jstr \<Rightarrow> db_finding list" where
  "reopened_within_scan db scanId =
    filter (\<lambda>f. fr_status f = REOPENED \<and>
        (\<exists>g \<in> set (ld_findings db). fr_originFindingId f = Some (st_id g) \<and> db_scanId g = scanId \<and> fr_status g = RESOLVED))
      (counted_rows db scanId)"

definition zero_counts :: scan_counts where
  "zero_counts = \<lparr>sc_findings = 0, sc_critical = 0, sc_major = 0, sc_minor = 0, sc_new = 0,
    sc_persisted = 0, sc_reopened = 0, sc_resolved = 0\<rparr>"

definition ACTIVE :: "finding_status list" where
  "ACTIVE = [NEW, PERSISTED, REOPENED]"

definition add_group :: "scan_counts \<Rightarrow> count_group \<Rightarrow> scan_counts" where
  "add_group c g =
    (case g of ((status, severity, source), n) \<Rightarrow>
      if status = RESOLVED then c\<lparr>sc_resolved := sc_resolved c + n\<rparr>
      else if status \<notin> set ACTIVE then c
      else c\<lparr>sc_new := (if status = NEW then sc_new c + n else sc_new c),
             sc_persisted := (if status = PERSISTED then sc_persisted c + n else sc_persisted c),
             sc_reopened := (if status = REOPENED then sc_reopened c + n else sc_reopened c),
             sc_findings := (if source = STATIC then sc_findings c + n else sc_findings c),
             sc_critical := (if severity = CRITICAL then sc_critical c + n else sc_critical c),
             sc_major := (if severity = MAJOR then sc_major c + n else sc_major c),
             sc_minor := (if severity = MINOR then sc_minor c + n else sc_minor c)\<rparr>)"

definition scan_counts_of :: "lifecycle_db \<Rightarrow> jstr \<Rightarrow> scan_counts" where
  "scan_counts_of db scanId =
    (let counts = foldl add_group zero_counts (group_rows (counted_rows db scanId))
     in counts\<lparr>sc_resolved := sc_resolved counts - length (reopened_within_scan db scanId)\<rparr>)"

definition recomputeScanCounts :: "lifecycle_db \<Rightarrow> jstr \<Rightarrow> scan_counts \<times> lifecycle_db" where
  "recomputeScanCounts db scanId =
    (let counts = scan_counts_of db scanId
     in (counts, db\<lparr>ld_scans := map (\<lambda>s. if ds_id s = scanId then s\<lparr>ds_counts := counts\<rparr> else s) (ld_scans db)\<rparr>))"

subsection \<open>The notification\<close>

type_synonym redis = "jstr list option"

definition notify_key :: "jstr \<Rightarrow> jstr" where
  "notify_key scanId = ''notify:critical-resolved:'' @ scanId"

definition resolved_criticals :: "lifecycle_db \<Rightarrow> jstr \<Rightarrow> nat" where
  "resolved_criticals db scanId =
    length (filter (\<lambda>f. fr_status f = RESOLVED \<and> fd_severity f = CRITICAL) (counted_rows db scanId))"

definition notifyIfAllCriticalResolved :: "lifecycle_db \<Rightarrow> redis \<Rightarrow> jstr \<Rightarrow> nat \<Rightarrow> bool \<times> redis" where
  "notifyIfAllCriticalResolved db redis scanId criticalCount =
    (if 0 < criticalCount then (False, redis)
     else if resolved_criticals db scanId = 0 then (False, redis)
     else (case redis of
        None \<Rightarrow> (True, None)
      | Some keys \<Rightarrow>
          if notify_key scanId \<in> set keys then (False, Some keys)
          else (True, Some (notify_key scanId # keys))))"

subsection \<open>Reads\<close>

definition loadBaseFindings :: "lifecycle_db \<Rightarrow> jstr \<Rightarrow> finding_source option \<Rightarrow> db_finding list" where
  "loadBaseFindings db baseScanId source =
    filter (\<lambda>f. db_scanId f = baseScanId \<and> fr_status f \<noteq> RESOLVED \<and>
        (case source of Some s \<Rightarrow> fd_source f = s | None \<Rightarrow> True)) (ld_findings db)"

definition newest_first :: "db_scan \<Rightarrow> db_scan \<Rightarrow> int" where
  "newest_first a b = ds_createdAt b - ds_createdAt a"

definition window_scans :: "lifecycle_db \<Rightarrow> jstr \<Rightarrow> jstr \<Rightarrow> db_scan list" where
  "window_scans db pullId currentScanId =
    take REOPEN_WINDOW_SCANS (js_sort newest_first
      (filter (\<lambda>s. ds_pullId s = pullId \<and> ds_status s = ScanDone \<and> ds_id s \<noteq> currentScanId) (ld_scans db)))"

definition loadRecentResolved :: "lifecycle_db \<Rightarrow> jstr \<Rightarrow> jstr \<Rightarrow> finding_source option \<Rightarrow> db_finding list \<times> jstr list" where
  "loadRecentResolved db pullId currentScanId excludeCurrentSource =
    (let windowScanIds = map ds_id (window_scans db pullId currentScanId)
     in (filter (\<lambda>f. fr_status f = RESOLVED \<and>
            (db_scanId f \<in> set windowScanIds \<or>
             db_scanId f = currentScanId \<and>
               (case excludeCurrentSource of Some s \<Rightarrow> fd_source f \<noteq> s | None \<Rightarrow> True))) (ld_findings db),
         windowScanIds))"

text \<open>The log entries of \<open>logWindowMisses\<close>: \<open>distinct\<close> keeps one row per fingerprint.\<close>

definition distinct_by_fingerprint :: "db_finding list \<Rightarrow> db_finding list" where
  "distinct_by_fingerprint rows =
    map (\<lambda>fp. hd (filter (\<lambda>f. fd_fingerprint f = fp) rows)) (js_unique (map fd_fingerprint rows))"

definition logWindowMisses :: "lifecycle_db \<Rightarrow> jstr \<Rightarrow> jstr \<Rightarrow> jstr list \<Rightarrow> jstr list \<Rightarrow> (jstr \<times> jstr) list" where
  "logWindowMisses db pullId currentScanId windowScanIds fingerprints =
    (if fingerprints = [] then []
     else map (\<lambda>f. (fd_fingerprint f, db_scanId f))
       (distinct_by_fingerprint (filter (\<lambda>f. db_pullId f = pullId \<and> fr_status f = RESOLVED \<and>
          fd_fingerprint f \<in> set fingerprints \<and> db_scanId f \<notin> set (windowScanIds @ [currentScanId])) (ld_findings db))))"

subsection \<open>Counting by groups\<close>

definition count_where :: "(db_finding \<Rightarrow> bool) \<Rightarrow> db_finding list \<Rightarrow> nat" where
  "count_where P rows = length (filter P rows)"

definition group_total :: "(finding_status \<times> finding_severity \<times> finding_source \<Rightarrow> bool) \<Rightarrow> count_group list \<Rightarrow> nat" where
  "group_total Q gs = sum_list (map (\<lambda>g. if Q (fst g) then snd g else 0) gs)"

lemma sum_groups:
  assumes "\<And>f. P f \<longleftrightarrow> Q (group_key f)"
  shows "group_total Q (group_rows rows) = count_where P rows"
proof -
  have key: "sum_list (map (\<lambda>k. if Q k then length (filter (\<lambda>f. group_key f = k) rows) else 0) ks) =
      length (filter (\<lambda>f. group_key f \<in> set ks \<and> Q (group_key f)) rows)" if "distinct ks" for ks
    using that
  proof (induction ks)
    case (Cons k ks)
    have "length (filter (\<lambda>f. group_key f \<in> set (k # ks) \<and> Q (group_key f)) rows) =
        length (filter (\<lambda>f. group_key f = k \<and> Q k) rows) + length (filter (\<lambda>f. group_key f \<in> set ks \<and> Q (group_key f)) rows)"
      using Cons.prems by (induction rows) auto
    with Cons show ?case by simp
  qed simp
  have "filter (\<lambda>f. group_key f \<in> set (js_unique (map group_key rows)) \<and> Q (group_key f)) rows = filter P rows"
    by (rule filter_cong) (auto simp: assms)
  with key [of "js_unique (map group_key rows)"] show ?thesis
    by (simp add: group_total_def group_rows_def comp_def count_where_def cong: if_cong)
qed

text \<open>Each counter adds the groups its own condition selects.\<close>

lemma add_group_sel:
  "sc_findings (add_group c g) = sc_findings c + (if fst (fst g) \<noteq> RESOLVED \<and> snd (snd (fst g)) = STATIC then snd g else 0)"
  "sc_critical (add_group c g) = sc_critical c + (if fst (fst g) \<noteq> RESOLVED \<and> fst (snd (fst g)) = CRITICAL then snd g else 0)"
  "sc_major (add_group c g) = sc_major c + (if fst (fst g) \<noteq> RESOLVED \<and> fst (snd (fst g)) = MAJOR then snd g else 0)"
  "sc_minor (add_group c g) = sc_minor c + (if fst (fst g) \<noteq> RESOLVED \<and> fst (snd (fst g)) = MINOR then snd g else 0)"
  "sc_new (add_group c g) = sc_new c + (if fst (fst g) = NEW then snd g else 0)"
  "sc_persisted (add_group c g) = sc_persisted c + (if fst (fst g) = PERSISTED then snd g else 0)"
  "sc_reopened (add_group c g) = sc_reopened c + (if fst (fst g) = REOPENED then snd g else 0)"
  "sc_resolved (add_group c g) = sc_resolved c + (if fst (fst g) = RESOLVED then snd g else 0)"
  unfolding add_group_def ACTIVE_def
  by (cases "fst (fst g)"; simp add: case_prod_beta)+

lemma foldl_add_group:
  "sc_findings (foldl add_group c gs) = sc_findings c + group_total (\<lambda>k. fst k \<noteq> RESOLVED \<and> snd (snd k) = STATIC) gs"
  "sc_critical (foldl add_group c gs) = sc_critical c + group_total (\<lambda>k. fst k \<noteq> RESOLVED \<and> fst (snd k) = CRITICAL) gs"
  "sc_major (foldl add_group c gs) = sc_major c + group_total (\<lambda>k. fst k \<noteq> RESOLVED \<and> fst (snd k) = MAJOR) gs"
  "sc_minor (foldl add_group c gs) = sc_minor c + group_total (\<lambda>k. fst k \<noteq> RESOLVED \<and> fst (snd k) = MINOR) gs"
  "sc_new (foldl add_group c gs) = sc_new c + group_total (\<lambda>k. fst k = NEW) gs"
  "sc_persisted (foldl add_group c gs) = sc_persisted c + group_total (\<lambda>k. fst k = PERSISTED) gs"
  "sc_reopened (foldl add_group c gs) = sc_reopened c + group_total (\<lambda>k. fst k = REOPENED) gs"
  "sc_resolved (foldl add_group c gs) = sc_resolved c + group_total (\<lambda>k. fst k = RESOLVED) gs"
  unfolding group_total_def by (induction gs arbitrary: c) (simp_all add: add_group_sel)

lemma count_where_split:
  "count_where (\<lambda>f. P f \<and> Q f) rows + count_where (\<lambda>f. P f \<and> \<not> Q f) rows = count_where P rows"
  unfolding count_where_def by (induction rows) auto

lemma scan_counts_of_sel:
  "sc_findings (scan_counts_of db scanId) = count_where (\<lambda>f. fr_status f \<noteq> RESOLVED \<and> fd_source f = STATIC) (counted_rows db scanId)"
  "sc_critical (scan_counts_of db scanId) = count_where (\<lambda>f. fr_status f \<noteq> RESOLVED \<and> fd_severity f = CRITICAL) (counted_rows db scanId)"
  "sc_major (scan_counts_of db scanId) = count_where (\<lambda>f. fr_status f \<noteq> RESOLVED \<and> fd_severity f = MAJOR) (counted_rows db scanId)"
  "sc_minor (scan_counts_of db scanId) = count_where (\<lambda>f. fr_status f \<noteq> RESOLVED \<and> fd_severity f = MINOR) (counted_rows db scanId)"
  "sc_new (scan_counts_of db scanId) = count_where (\<lambda>f. fr_status f = NEW) (counted_rows db scanId)"
  "sc_persisted (scan_counts_of db scanId) = count_where (\<lambda>f. fr_status f = PERSISTED) (counted_rows db scanId)"
  "sc_reopened (scan_counts_of db scanId) = count_where (\<lambda>f. fr_status f = REOPENED) (counted_rows db scanId)"
  "sc_resolved (scan_counts_of db scanId) = count_where (\<lambda>f. fr_status f = RESOLVED) (counted_rows db scanId) - length (reopened_within_scan db scanId)"
  by (simp_all add: scan_counts_of_def Let_def foldl_add_group zero_counts_def group_key_def sum_groups)

lemma count_where_add:
  assumes "\<And>f. P f \<longleftrightarrow> Q f \<or> R f" "\<And>f. \<not> (Q f \<and> R f)"
  shows "count_where P rows = count_where Q rows + count_where R rows"
  unfolding count_where_def
proof (induction rows)
  case (Cons f rows)
  with assms [of f] show ?case by auto
qed simp

lemma notify_once:
  assumes "notifyIfAllCriticalResolved db (Some keys) scanId n = (sent, redis')"
  shows "\<exists>keys'. redis' = Some keys' \<and> set keys \<subseteq> set keys' \<and> (sent \<longrightarrow> notify_key scanId \<in> set keys' \<and> notify_key scanId \<notin> set keys)"
  using assms by (auto simp: notifyIfAllCriticalResolved_def split: if_splits)

lemma window_scans_newest:
  "s \<in> set (window_scans db pullId cur) \<Longrightarrow> ds_pullId s = pullId \<and> ds_status s = ScanDone \<and> ds_id s \<noteq> cur"
  unfolding window_scans_def using set_take_subset by fastforce

interpretation newest: js_comparator newest_first
  by unfold_locales (auto simp: newest_first_def)

lemma window_scans_sorted: "sorted_wrt (\<lambda>a b. ds_createdAt b \<le> ds_createdAt a) (window_scans db pullId cur)"
  using newest.sorted_sort by (simp add: window_scans_def newest_first_def sorted_wrt_take)

text \<open>The recomputed counts are exact.  They are written to the scan they are of and to no
  other; NEW, PERSISTED and REOPENED add up to the active unsuppressed findings of the scan;
  the severities of those are counted once each; and RESOLVED leaves out the resolutions that
  the same scan re-opened.\<close>

theorem recomputeScanCounts_exact:
  "(let (c, db') = recomputeScanCounts db scanId;
        active = filter (\<lambda>f. fr_status f \<noteq> RESOLVED) (counted_rows db scanId)
    in sc_new c + sc_persisted c + sc_reopened c = length active \<and>
       sc_critical c + sc_major c + sc_minor c + count_where (\<lambda>f. fd_severity f = INFO) active = length active \<and>
       sc_findings c = count_where (\<lambda>f. fd_source f = STATIC) active \<and>
       sc_resolved c = count_where (\<lambda>f. fr_status f = RESOLVED) (counted_rows db scanId)
         - length (reopened_within_scan db scanId) \<and>
       ld_findings db' = ld_findings db \<and>
       ld_scans db' = map (\<lambda>s. if ds_id s = scanId then s\<lparr>ds_counts := c\<rparr> else s) (ld_scans db))"
proof -
  let ?rows = "counted_rows db scanId"
  have st: "count_where (\<lambda>f. fr_status f = NEW) rows + count_where (\<lambda>f. fr_status f = PERSISTED) rows +
      count_where (\<lambda>f. fr_status f = REOPENED) rows = length (filter (\<lambda>f. fr_status f \<noteq> RESOLVED) rows)" for rows
    unfolding count_where_def
  proof (induction rows)
    case (Cons f rows)
    then show ?case by (cases "fr_status f") auto
  qed simp
  have sub: "count_where P (filter (\<lambda>f. fr_status f \<noteq> RESOLVED) rows) = count_where (\<lambda>f. fr_status f \<noteq> RESOLVED \<and> P f) rows"
    for P rows by (simp add: count_where_def conj_commute)
  have sv: "count_where (\<lambda>f. fr_status f \<noteq> RESOLVED \<and> fd_severity f = CRITICAL) rows +
      count_where (\<lambda>f. fr_status f \<noteq> RESOLVED \<and> fd_severity f = MAJOR) rows +
      count_where (\<lambda>f. fr_status f \<noteq> RESOLVED \<and> fd_severity f = MINOR) rows +
      count_where (\<lambda>f. fr_status f \<noteq> RESOLVED \<and> fd_severity f = INFO) rows =
      length (filter (\<lambda>f. fr_status f \<noteq> RESOLVED) rows)" for rows
    unfolding count_where_def
  proof (induction rows)
    case (Cons f rows)
    then show ?case by (cases "fd_severity f") auto
  qed simp
  show ?thesis
    using st [of ?rows] sv [of ?rows] by (simp add: recomputeScanCounts_def Let_def scan_counts_of_sel sub)
qed

end
