(* ===== verification/Value_Filter.thy ===== *)
theory Value_Filter
  imports Complex_Main Js_Regex
begin

section \<open>Is a credential-shaped value a credential?\<close>

text \<open>
  \<open>src/queue/rules/value-filter.ts\<close>.  The quotients the code compares with decimal constants
  are compared by cross-multiplication, and the entropy test by an inequality between powers,
  which \<open>low_entropy_iff\<close> shows to be the code's comparison of the Shannon entropy with 2.5
  (rounding of doubles aside).  The alternative of \<open>INTERPOLATION_PATTERN\<close> for the one-character
  ellipsis never matches a text of code units below 256.
\<close>

record secret_candidate =
  cand_ruleId :: jstr
  cand_line :: line_no
  cand_key :: "jstr option"
  cand_value :: jstr
  cand_raw :: jstr

datatype filter_reason = EnvReference | Placeholder | Patterned | NotSecretShaped | InertComment

subsection \<open>Character classes\<close>

definition is_hex :: "char \<Rightarrow> bool" where
  "is_hex c \<longleftrightarrow> c \<in> set ''0123456789abcdefABCDEF''"

definition is_upper_digit :: "char \<Rightarrow> bool" where
  "is_upper_digit c \<longleftrightarrow> is_upper c \<or> is_digit c"

definition is_label :: "char \<Rightarrow> bool" where
  "is_label c \<longleftrightarrow> is_alnum c \<or> c = CHR ''.'' \<or> c = CHR ''-''"

abbreviation rdigit :: rx where "rdigit \<equiv> RSet is_digit"
abbreviation rwhole :: "rx list \<Rightarrow> rx" where "rwhole rs \<equiv> RSeq RBol (RSeq (rseq rs) REol)"
abbreviation rprefix :: "rx list \<Rightarrow> rx" where "rprefix rs \<equiv> RSeq RBol (rseq rs)"

subsection \<open>References\<close>

definition ENV_REFERENCE_PATTERNS :: "rx list" where
  "ENV_REFERENCE_PATTERNS =
   [rwhole [rchar CHR ''$'', ropt (rchar CHR ''{''), rplus (RSet is_word), ropt (rchar CHR ''}'')],
    rwhole [rlit ''{{'', rstar rdot, rlit ''}}''],
    rwhole [rchar CHR ''<'', rplus (rnone ''>''), rchar CHR ''>''],
    rwhole [rchar CHR ''%'', rplus (RSet is_word), rchar CHR ''%'']]"

definition ENV_REFERENCE_LINE_MARKERS :: "jstr list" where
  "ENV_REFERENCE_LINE_MARKERS =
   [''process.env'', ''os.environ'', ''os.getenv'', ''getenv('', ''system.getenv'', ''env['', ''env.fetch'',
    ''import.meta.env'', ''deno.env'', ''secrets.'', ''vault:'', ''ssm:'', ''arn:aws:secretsmanager'',
    ''config('', ''settings.'', ''!ref'', ''op://'', ''${{'']"

definition isEnvReference :: "secret_candidate \<Rightarrow> bool" where
  "isEnvReference c \<longleftrightarrow>
    (\<exists>r \<in> set ENV_REFERENCE_PATTERNS. rx_test r (cand_value c)) \<or>
    (\<exists>m \<in> set ENV_REFERENCE_LINE_MARKERS. contains (to_lower (cand_raw c)) m)"

subsection \<open>Placeholders\<close>

definition PLACEHOLDER_SUBSTRINGS :: "jstr list" where
  "PLACEHOLDER_SUBSTRINGS =
   [''changeme'', ''change_me'', ''example'', ''sample'', ''placeholder'', ''your_'', ''your-'', ''yourkey'',
    ''dummy'', ''fake'', ''mock'', ''todo'', ''fixme'', ''redacted'', ''removed'', ''masked'', ''my_'', ''xxx'',
    ''****'', ''insert_'', ''replace_'', ''not_set'', ''undefined'']"

definition PLACEHOLDER_EXACT :: "jstr list" where
  "PLACEHOLDER_EXACT = [''test'', ''null'', ''none'', ''undefined'', ''changeme'', ''tbd'', ''secret'',
    ''password'', ''pass'', ''token'']"

definition PLACEHOLDER_PREFIX_PATTERN :: rx where
  "PLACEHOLDER_PREFIX_PATTERN = rprefix
    [ralt [rlit_i ''test'', rlit_i ''secret'', rlit_i ''password'', rlit_i ''token''], RAlt (rany ''_.-'') REol]"

definition isPlaceholder :: "jstr \<Rightarrow> bool" where
  "isPlaceholder value \<longleftrightarrow>
    to_lower value \<in> set PLACEHOLDER_EXACT \<or> rx_test PLACEHOLDER_PREFIX_PATTERN value \<or>
    (\<exists>needle \<in> set PLACEHOLDER_SUBSTRINGS. contains (to_lower value) needle)"

definition normalizeName :: "jstr \<Rightarrow> jstr" where
  "normalizeName name = filter (\<lambda>c. is_lower c \<or> is_digit c) (to_lower name)"

definition isPlaceholderValue :: "jstr \<Rightarrow> jstr option \<Rightarrow> bool" where
  "isPlaceholderValue value key \<longleftrightarrow>
    isPlaceholder value \<or> (case key of Some k \<Rightarrow> normalizeName k = normalizeName value | None \<Rightarrow> False)"

subsection \<open>Patterned values\<close>

text \<open>The counts of a \<open>Map\<close> from characters, in order of first occurrence.\<close>

definition char_counts :: "jstr \<Rightarrow> nat list" where
  "char_counts value = map (\<lambda>c. length (filter (\<lambda>x. x = c) value)) (js_unique value)"

definition ALL_DIGITS :: rx where
  "ALL_DIGITS = rwhole [rplus rdigit]"

definition SEQUENTIAL_RUNS :: "jstr list" where
  "SEQUENTIAL_RUNS = [''abcdefghijklmnopqrstuvwxyz'', ''0123456789'', ''qwertyuiop'']"

text \<open>The inner loop: ends from the right, down to just past the longest run so far.\<close>

definition run_from :: "jstr \<Rightarrow> jstr \<Rightarrow> nat \<Rightarrow> nat \<Rightarrow> nat" where
  "run_from run value longest start =
    (case List.find (\<lambda>e. contains run (slice value start e)) (rev [Suc (start + longest)..<Suc (length value)]) of
      Some e \<Rightarrow> e - start
    | None \<Rightarrow> longest)"

definition run_over :: "jstr \<Rightarrow> nat \<Rightarrow> jstr \<Rightarrow> nat" where
  "run_over value longest run = foldl (run_from run value) longest [0..<length value]"

definition longestSequentialRun :: "jstr \<Rightarrow> nat" where
  "longestSequentialRun value = foldl (run_over value) 0 SEQUENTIAL_RUNS"

definition isPatterned :: "jstr \<Rightarrow> bool" where
  "isPatterned value \<longleftrightarrow>
    value \<noteq> [] \<and> 3 * length value \<le> 5 * fold max (char_counts value) 0 \<or>
    rx_test ALL_DIGITS value \<or>
    (8 \<le> longestSequentialRun (to_lower value) \<and> 3 * length value \<le> 5 * longestSequentialRun (to_lower value))"

subsection \<open>Shapes\<close>

definition INTERPOLATION_PATTERN :: rx where
  "INTERPOLATION_PATTERN = ralt
   [rlit ''${'', rlit ''#{'', rlit ''%('', rlit ''%s'', rlit ''<%='',
    rseq [rchar CHR ''{'', RSet (\<lambda>c. is_alpha c \<or> c = CHR ''_''), rstar (RSet is_word), rchar CHR ''}''],
    rseq [rlit ''__'', RSet is_alnum, rstar (RSet is_word), rlit ''__''],
    rseq [rchar CHR ''<'', rstar (rnone ''<>''), rchar CHR ''>''],
    rlit ''...'']"

definition isTemplateValue :: "jstr \<Rightarrow> bool" where
  "isTemplateValue value = rx_test INTERPOLATION_PATTERN value"

definition is_structural :: "char \<Rightarrow> bool" where
  "is_structural c \<longleftrightarrow> is_space c \<or> c \<in> set ([CHR 0x22, CHR 0x27, CHR 0x60] @ ''()[]{}<>,;'')"

definition STRUCTURAL_PUNCTUATION_PATTERN :: rx where
  "STRUCTURAL_PUNCTUATION_PATTERN = RSet is_structural"

definition hasStructuralPunctuation :: "jstr \<Rightarrow> bool" where
  "hasStructuralPunctuation value = rx_test STRUCTURAL_PUNCTUATION_PATTERN value"

definition SNAKE_OR_KEBAB_WORDS_PATTERN :: rx where
  "SNAKE_OR_KEBAB_WORDS_PATTERN = rwhole
    [rplus (RSet is_lower), rplus (RSeq (rany ''_-'') (rplus (RSet is_lower)))]"

definition SCREAMING_SNAKE_PATTERN :: rx where
  "SCREAMING_SNAKE_PATTERN = rwhole
    [RSet is_upper, rstar (RSet is_upper_digit), rplus (RSeq (rchar CHR ''_'') (rplus (RSet is_upper_digit)))]"

text \<open>\<open>digitRatio(value) < 0.2\<close>; false for the empty value, whose ratio is NaN.\<close>

definition few_digits :: "jstr \<Rightarrow> bool" where
  "few_digits value \<longleftrightarrow> 5 * length (filter is_digit value) < length value"

definition isStateIdentifier :: "jstr \<Rightarrow> bool" where
  "isStateIdentifier value \<longleftrightarrow>
    rx_test SNAKE_OR_KEBAB_WORDS_PATTERN value \<or> rx_test SCREAMING_SNAKE_PATTERN value \<and> few_digits value"

definition LETTERS_ONLY_PATTERN :: rx where
  "LETTERS_ONLY_PATTERN = rwhole [rplus (RSet is_alpha)]"

definition MAX_LETTERS_ONLY_IDENTIFIER :: nat where "MAX_LETTERS_ONLY_IDENTIFIER = 24"
definition ENTROPY_MIN_LENGTH :: nat where "ENTROPY_MIN_LENGTH = 16"
definition MIN_ENTROPY :: real where "MIN_ENTROPY = 5 / 2"

definition shannonEntropy :: "jstr \<Rightarrow> real" where
  "shannonEntropy value =
    - (\<Sum>c \<leftarrow> char_counts value. (real c / real (length value)) * log 2 (real c / real (length value)))"

text \<open>The comparison of the entropy with 2.5, in integers.\<close>

definition hasLowEntropy :: "jstr \<Rightarrow> bool" where
  "hasLowEntropy value \<longleftrightarrow>
    ENTROPY_MIN_LENGTH \<le> length value \<and>
    length value ^ (2 * length value) < 2 ^ (5 * length value) * prod_list (map (\<lambda>c. c ^ (2 * c)) (char_counts value))"

definition TRAILING_QUOTE :: rx where
  "TRAILING_QUOTE = RSeq (rany [CHR 0x22, CHR 0x27, CHR 0x60]) REol"

definition LEADING_QUOTE :: rx where
  "LEADING_QUOTE = RSeq RBol (rany [CHR 0x22, CHR 0x27, CHR 0x60])"

definition isTernaryBranch :: "secret_candidate \<Rightarrow> bool" where
  "isTernaryBranch c =
    (case cand_key c of
      None \<Rightarrow> False
    | Some key \<Rightarrow>
        if key = [] then False
        else (case index_of (cand_raw c) key 0 of
          None \<Rightarrow> False
        | Some i \<Rightarrow>
           (let before = trim_end (rx_replace TRAILING_QUOTE [] (take i (cand_raw c)));
                after = trim_start (rx_replace LEADING_QUOTE [] (drop (i + length key) (cand_raw c)))
            in ends_with before ''?'' \<and> starts_with after '':'' \<and> \<not> starts_with after '':='')))"

definition WORD_SEGMENTED_PATTERN :: rx where
  "WORD_SEGMENTED_PATTERN = rwhole
    [RSet is_alpha, rstar (RSet is_alnum),
     rmin 2 (RAlt (RSeq (RSet is_upper) (rmin 2 (RSet is_lower))) (RSeq (rany ''_.-'') (rmin 3 (RSet is_alpha)))),
     rstar (RSet is_alnum)]"

definition isWordSegmented :: "jstr \<Rightarrow> bool" where
  "isWordSegmented value \<longleftrightarrow> rx_test WORD_SEGMENTED_PATTERN value \<and> few_digits value"

definition UUID_PATTERN :: rx where
  "UUID_PATTERN = rwhole
    [rtimes 8 8 (RSet is_hex), rchar CHR ''-'', rtimes 4 4 (RSet is_hex), rchar CHR ''-'', rany ''12345'',
     rtimes 3 3 (RSet is_hex), rchar CHR ''-'', rany ''89abAB'', rtimes 3 3 (RSet is_hex), rchar CHR ''-'',
     rtimes 12 12 (RSet is_hex)]"

definition SEMVER_PATTERN :: rx where
  "SEMVER_PATTERN = rwhole
    [ropt (rchar CHR ''v''), rplus rdigit, rchar CHR ''.'', rplus rdigit, rchar CHR ''.'', rplus rdigit,
     ropt (RSeq (rchar CHR ''-'') (rplus (RSet is_label))), ropt (RSeq (rchar CHR ''+'') (rplus (RSet is_label)))]"

definition ISO_DATE_PATTERN :: rx where
  "ISO_DATE_PATTERN = rprefix
    [rtimes 4 4 rdigit, rchar CHR ''-'', rtimes 2 2 rdigit, rchar CHR ''-'', rtimes 2 2 rdigit,
     ropt (rseq [rany ''T '', rtimes 2 2 rdigit, rchar CHR '':'', rtimes 2 2 rdigit,
       ropt (RSeq (rchar CHR '':'') (rtimes 2 2 rdigit))])]"

definition IPV4_PATTERN :: rx where
  "IPV4_PATTERN = rwhole [rtimes 1 3 rdigit, rtimes 3 3 (RSeq (rchar CHR ''.'') (rtimes 1 3 rdigit))]"

definition GIT_SHA_PATTERN :: rx where
  "GIT_SHA_PATTERN = rwhole [rtimes 40 40 (RSet is_hex)]"

definition STRIPE_PUBLISHABLE_PATTERN :: rx where
  "STRIPE_PUBLISHABLE_PATTERN = rprefix [rlit ''pk_'', RAlt (rlit ''test'') (rlit ''live''), rchar CHR ''_'']"

definition SUBRESOURCE_INTEGRITY_PATTERN :: rx where
  "SUBRESOURCE_INTEGRITY_PATTERN = rprefix
    [rlit_i ''sha'', ralt [rlit ''256'', rlit ''384'', rlit ''512''], rany ''-:'']"

definition is_scheme :: "char \<Rightarrow> bool" where
  "is_scheme c \<longleftrightarrow> is_alnum c \<or> c \<in> set ''+.-''"

definition is_userinfo :: "char \<Rightarrow> bool" where
  "is_userinfo c \<longleftrightarrow> \<not> (is_space c \<or> c = CHR ''/'' \<or> c = CHR ''@'')"

definition URL_PATTERN :: rx where
  "URL_PATTERN = rprefix [RSet is_alpha, rstar (RSet is_scheme), rlit ''://'']"

definition URL_WITH_CREDENTIALS_PATTERN :: rx where
  "URL_WITH_CREDENTIALS_PATTERN = rprefix
    [RSet is_alpha, rstar (RSet is_scheme), rlit ''://'', rplus (RSet is_userinfo), rchar CHR '':'',
     rplus (RSet is_userinfo), rchar CHR ''@'']"

definition CREDENTIAL_KEY_PATTERN :: rx where
  "CREDENTIAL_KEY_PATTERN = ralt
    [rlit_i ''secret'', rlit_i ''token'', rlit_i ''password'', rlit_i ''passwd'', rlit_i ''pwd'', rlit_i ''key'']"

definition isStructurallyNotSecret :: "secret_candidate \<Rightarrow> bool" where
  "isStructurallyNotSecret c =
    (let value = cand_value c
     in isTemplateValue value \<or> hasStructuralPunctuation value \<or> isTernaryBranch c \<or> isStateIdentifier value \<or>
        isWordSegmented value \<or> rx_test UUID_PATTERN value \<or> rx_test SEMVER_PATTERN value \<or>
        rx_test ISO_DATE_PATTERN value \<or> rx_test IPV4_PATTERN value \<or> rx_test STRIPE_PUBLISHABLE_PATTERN value \<or>
        rx_test SUBRESOURCE_INTEGRITY_PATTERN value \<or>
        (rx_test URL_PATTERN value \<and> \<not> rx_test URL_WITH_CREDENTIALS_PATTERN value) \<or>
        (rx_test GIT_SHA_PATTERN value \<and>
          \<not> rx_test CREDENTIAL_KEY_PATTERN (case cand_key c of Some k \<Rightarrow> k | None \<Rightarrow> [])))"

definition INERT_COMMENT_PREFIXES :: "jstr list" where
  "INERT_COMMENT_PREFIXES = [''#'', ''//'', ''/*'', ''*'', ''--'', ''<!--'']"

definition isInertComment :: "secret_candidate \<Rightarrow> bool" where
  "isInertComment c \<longleftrightarrow>
    (\<exists>p \<in> set INERT_COMMENT_PREFIXES. starts_with (trim_start (cand_raw c)) p) \<and> isPlaceholder (cand_value c)"

definition filterValue :: "secret_candidate \<Rightarrow> filter_reason option" where
  "filterValue c =
    (if isEnvReference c then Some EnvReference
     else if isStructurallyNotSecret c then Some NotSecretShaped
     else if isPlaceholderValue (cand_value c) (cand_key c) then Some Placeholder
     else if isPatterned (cand_value c) \<or> hasLowEntropy (cand_value c) then Some Patterned
     else if rx_test LETTERS_ONLY_PATTERN (cand_value c) \<and> length (cand_value c) < MAX_LETTERS_ONLY_IDENTIFIER
       then Some NotSecretShaped
     else if isInertComment c then Some InertComment
     else None)"

subsection \<open>The entropy test\<close>

lemma sum_counts: "sum_list (map (\<lambda>k. length (filter (\<lambda>x. x = k) xs)) ks) = length (filter (\<lambda>x. x \<in> set ks) xs)"
  if "distinct ks"
  using that
proof (induction ks)
  case (Cons k ks)
  have "length (filter (\<lambda>x. x \<in> set (k # ks)) xs) =
      length (filter (\<lambda>x. x = k) xs) + length (filter (\<lambda>x. x \<in> set ks) xs)"
    using Cons.prems by (induction xs) auto
  with Cons show ?case by simp
qed simp

lemma sum_char_counts: "sum_list (char_counts value) = length value"
proof -
  have "filter (\<lambda>x. x \<in> set value) value = value" by (simp add: filter_id_conv)
  then show ?thesis using sum_counts [of "js_unique value" "value"] by (simp add: char_counts_def)
qed

lemma char_counts_pos: "c \<in> set (char_counts value) \<Longrightarrow> 0 < c"
  by (auto simp: char_counts_def filter_empty_conv)

lemma entropy_sum:
  assumes "\<forall>c \<in> set cs. 0 < c" "0 < n"
  shows "(\<Sum>c \<leftarrow> cs. (real c / n) * log 2 (real c / n)) =
    ((\<Sum>c \<leftarrow> cs. real c * log 2 (real c)) - real (sum_list cs) * log 2 n) / n"
  using assms
proof (induction cs)
  case (Cons c cs)
  then have "log 2 (real c / n) = log 2 (real c) - log 2 n" by (simp add: log_divide)
  then have "(real c / n) * log 2 (real c / n) = (real c * log 2 (real c) - real c * log 2 n) / n"
    by (simp add: right_diff_distrib diff_divide_distrib)
  with Cons show ?case
    by (simp add: diff_divide_distrib add_divide_distrib distrib_right)
qed simp

lemma log_powers:
  assumes "\<forall>c \<in> set cs. 0 < c"
  shows "0 < prod_list (map (\<lambda>c. c ^ (2 * c)) cs) \<and>
    log 2 (real (prod_list (map (\<lambda>c. c ^ (2 * c)) cs))) = 2 * (\<Sum>c \<leftarrow> cs. real c * log 2 (real c))"
  using assms
proof (induction cs)
  case (Cons c cs)
  then have c: "0 < c" and pos: "0 < prod_list (map (\<lambda>c. c ^ (2 * c)) cs)" by auto
  have "log 2 (real (c ^ (2 * c)) * real (prod_list (map (\<lambda>c. c ^ (2 * c)) cs))) =
      2 * real c * log 2 (real c) + log 2 (real (prod_list (map (\<lambda>c. c ^ (2 * c)) cs)))"
    using c pos by (simp add: log_mult log_nat_power)
  with Cons c pos show ?case by (simp add: algebra_simps)
qed simp

lemma low_entropy_iff:
  "hasLowEntropy value \<longleftrightarrow> ENTROPY_MIN_LENGTH \<le> length value \<and> shannonEntropy value < MIN_ENTROPY"
proof (cases "ENTROPY_MIN_LENGTH \<le> length value")
  case True
  let ?n = "length value" and ?cs = "char_counts value"
  let ?S = "\<Sum>c \<leftarrow> ?cs. real c * log 2 (real c)"
  from True have n: "0 < ?n" by (simp only: ENTROPY_MIN_LENGTH_def)
  have cs: "\<forall>c \<in> set ?cs. 0 < c" using char_counts_pos by blast
  note pw = log_powers [OF cs]
  have "shannonEntropy value = (real ?n * log 2 ?n - ?S) / ?n"
    unfolding shannonEntropy_def
    using entropy_sum [OF cs, of "real ?n"] n by (simp add: sum_char_counts divide_simps)
  then have "shannonEntropy value < MIN_ENTROPY \<longleftrightarrow> real ?n * log 2 ?n - ?S < MIN_ENTROPY * real ?n"
    using n by (simp add: divide_less_eq)
  also have "\<dots> \<longleftrightarrow> 2 * real ?n * log 2 ?n < 5 * real ?n + 2 * ?S"
    by (auto simp: MIN_ENTROPY_def)
  also have "\<dots> \<longleftrightarrow> log 2 (real (?n ^ (2 * ?n))) < log 2 (real (2 ^ (5 * ?n) * prod_list (map (\<lambda>c. c ^ (2 * c)) ?cs)))"
    using n pw by (simp add: log_mult log_nat_power)
  also have "\<dots> \<longleftrightarrow> ?n ^ (2 * ?n) < 2 ^ (5 * ?n) * prod_list (map (\<lambda>c. c ^ (2 * c)) ?cs)"
    using n pw by (subst log_less_cancel_iff) (simp_all only: of_nat_less_iff, simp_all)
  finally show ?thesis using True by (simp add: hasLowEntropy_def)
qed (simp add: hasLowEntropy_def)

subsection \<open>The longest keyboard run\<close>

lemma find_rev_upt:
  "List.find P (rev [a..<b]) = Some e \<Longrightarrow> a \<le> e \<and> e < b \<and> P e \<and> (\<forall>e'. e < e' \<and> e' < b \<longrightarrow> \<not> P e')"
proof (induction b)
  case (Suc b)
  then show ?case by (cases "a \<le> b") (auto split: if_splits simp: less_Suc_eq)
qed simp

definition runs_at_most :: "jstr \<Rightarrow> jstr \<Rightarrow> nat \<Rightarrow> nat \<Rightarrow> bool" where
  "runs_at_most run value start k \<longleftrightarrow>
    (\<forall>e \<le> length value. contains run (slice value start e) \<longrightarrow> e - start \<le> k)"

definition attained :: "jstr \<Rightarrow> nat \<Rightarrow> bool" where
  "attained value k \<longleftrightarrow> k = 0 \<or>
    (\<exists>run \<in> set SEQUENTIAL_RUNS. \<exists>start. start + k \<le> length value \<and> contains run (slice value start (start + k)))"

lemma run_from_step:
  assumes "run \<in> set SEQUENTIAL_RUNS" "attained value longest"
  shows "longest \<le> run_from run value longest start \<and> attained value (run_from run value longest start) \<and>
    runs_at_most run value start (run_from run value longest start)"
proof (cases "List.find (\<lambda>e. contains run (slice value start e)) (rev [Suc (start + longest)..<Suc (length value)])")
  case None
  have no: "\<not> contains run (slice value start e)" if "start + longest < e" "e \<le> length value" for e
    by (rule find_NoneD [OF None]) (use that in auto)
  have "e - start \<le> longest" if "e \<le> length value" "contains run (slice value start e)" for e
    using no [of e] that by (cases "start + longest < e") auto
  then have "runs_at_most run value start longest" by (simp add: runs_at_most_def)
  with None assms show ?thesis by (simp add: run_from_def)
next
  case (Some e)
  from find_rev_upt [OF Some] have e: "start + longest < e" "e \<le> length value" "contains run (slice value start e)"
    "\<forall>e'. e < e' \<and> e' \<le> length value \<longrightarrow> \<not> contains run (slice value start e')" by (auto simp: less_Suc_eq_le)
  have "e' - start \<le> e - start" if "e' \<le> length value" "contains run (slice value start e')" for e'
    using e(4) that by (meson diff_le_mono linorder_not_less)
  moreover have "attained value (e - start)"
    unfolding attained_def using assms(1) e(1-3) by (intro disjI2 bexI [of _ run] exI [of _ start]) simp_all
  ultimately show ?thesis using e(1) Some by (simp add: run_from_def runs_at_most_def)
qed

lemma runs_at_most_mono: "runs_at_most run value start k \<Longrightarrow> k \<le> k' \<Longrightarrow> runs_at_most run value start k'"
  unfolding runs_at_most_def using order_trans by blast

lemma foldl_run_from:
  assumes "run \<in> set SEQUENTIAL_RUNS" "attained value longest"
  shows "longest \<le> foldl (run_from run value) longest starts \<and> attained value (foldl (run_from run value) longest starts) \<and>
    (\<forall>start \<in> set starts. runs_at_most run value start (foldl (run_from run value) longest starts))"
  using assms(2)
proof (induction starts arbitrary: longest)
  case (Cons start starts)
  note step = run_from_step [OF assms(1) Cons.prems, of start]
  with Cons.IH [of "run_from run value longest start"] show ?case
    by (auto intro: runs_at_most_mono)
qed simp

lemma foldl_runs:
  assumes "set runs \<subseteq> set SEQUENTIAL_RUNS" "attained value longest"
  shows "longest \<le> foldl (run_over value) longest runs \<and> attained value (foldl (run_over value) longest runs) \<and>
    (\<forall>run \<in> set runs. \<forall>start < length value. runs_at_most run value start (foldl (run_over value) longest runs))"
  using assms
proof (induction runs arbitrary: longest)
  case (Cons run runs)
  then have run: "run \<in> set SEQUENTIAL_RUNS" by simp
  note step = foldl_run_from [OF run Cons.prems(2), of "[0..<length value]", folded run_over_def]
  note IH = Cons.IH [OF _ conjunct1 [OF conjunct2 [OF step]]]
  have "runs_at_most run value start (foldl (run_over value) (run_over value longest run) runs)"
    if "start < length value" for start
    by (rule runs_at_most_mono [of _ _ _ "run_over value longest run"]) (use step that IH Cons.prems in auto)
  with IH step Cons.prems show ?case by auto
qed simp

subsection \<open>The properties of the value filter\<close>

text \<open>The entropy test is the Shannon-entropy test.  The integer inequality holds exactly when
  the value is long enough and its entropy in bits per character is below 2.5.\<close>

theorem hasLowEntropy_is_shannon:
  "hasLowEntropy value \<longleftrightarrow> ENTROPY_MIN_LENGTH \<le> length value \<and> shannonEntropy value < MIN_ENTROPY"
  by (rule low_entropy_iff)

text \<open>\<open>longestSequentialRun\<close> is the length of the longest part of the value that occurs in a
  keyboard run: such a part of that length exists, and no longer one does, although the loop
  skips every part no longer than the best so far.\<close>

theorem longestSequentialRun_is_longest:
  "(longestSequentialRun value = 0 \<or>
     (\<exists>run \<in> set SEQUENTIAL_RUNS. \<exists>start. start + longestSequentialRun value \<le> length value \<and>
        contains run (slice value start (start + longestSequentialRun value)))) \<and>
   (\<forall>run \<in> set SEQUENTIAL_RUNS. \<forall>start < length value. \<forall>e \<le> length value.
      contains run (slice value start e) \<longrightarrow> e - start \<le> longestSequentialRun value)"
  using foldl_runs [of SEQUENTIAL_RUNS "value" 0]
  by (simp add: longestSequentialRun_def attained_def runs_at_most_def)

lemma longestSequentialRun_is_longest_witness:
  "longestSequentialRun ''xabcq'' = 3 \<and> \<not> contains ''abcdefghijklmnopqrstuvwxyz'' (slice ''xabcq'' 0 5)"
proof -
  have "longestSequentialRun ''xabcq'' = 3" by code_simp
  moreover have "\<not> contains ''abcdefghijklmnopqrstuvwxyz'' (slice ''xabcq'' 0 5)"
  proof
    assume "contains ''abcdefghijklmnopqrstuvwxyz'' (slice ''xabcq'' 0 5)"
    from conjunct2 [OF longestSequentialRun_is_longest, rule_format, OF _ _ _ this] calculation
    show False by (simp add: SEQUENTIAL_RUNS_def)
  qed
  ultimately show ?thesis by (rule conjI)
qed

text \<open>What the filter lets through looks like a credential.  A value that survives is no
  reference and no template, holds no white space, quote or bracket, has no character that
  makes up three fifths of it, has at least 2.5 bits of entropy when it is long, and is not a
  short word of letters only.\<close>

theorem filterValue_survivor:
  assumes "filterValue c = None"
  shows "\<not> isEnvReference c \<and> \<not> isTemplateValue (cand_value c) \<and> (\<forall>x \<in> set (cand_value c). \<not> is_structural x) \<and>
    (cand_value c \<noteq> [] \<longrightarrow>
      (\<forall>x. 5 * length (filter (\<lambda>y. y = x) (cand_value c)) < 3 * length (cand_value c))) \<and>
    (16 \<le> length (cand_value c) \<longrightarrow> 5 / 2 \<le> shannonEntropy (cand_value c)) \<and>
    (rx_test LETTERS_ONLY_PATTERN (cand_value c) \<longrightarrow> 24 \<le> length (cand_value c))"
proof -
  let ?v = "cand_value c"
  from assms have f: "\<not> isEnvReference c" "\<not> isStructurallyNotSecret c" "\<not> isPatterned ?v" "\<not> hasLowEntropy ?v"
    "\<not> (rx_test LETTERS_ONLY_PATTERN ?v \<and> length ?v < MAX_LETTERS_ONLY_IDENTIFIER)"
    by (auto simp: filterValue_def split: if_splits)
  from f(2) have "\<not> isTemplateValue ?v" "\<not> hasStructuralPunctuation ?v"
    by (simp_all add: isStructurallyNotSecret_def Let_def)
  moreover have "5 * length (filter (\<lambda>y. y = x) ?v) < 3 * length ?v" if ne: "?v \<noteq> []" for x
  proof (cases "x \<in> set ?v")
    case True
    have "a \<le> fold max xs a \<and> (\<forall>y \<in> set xs. y \<le> fold max xs a)" for xs and a :: nat
      by (induction xs arbitrary: a) (auto intro: order_trans [OF max.cobounded1] order_trans [OF max.cobounded2])
    moreover have "length (filter (\<lambda>y. y = x) ?v) \<in> set (char_counts ?v)"
      using True by (simp add: char_counts_def)
    ultimately have "length (filter (\<lambda>y. y = x) ?v) \<le> fold max (char_counts ?v) 0" by blast
    with f(3) ne show ?thesis by (simp add: isPatterned_def)
  next
    case False
    then have "filter (\<lambda>y. y = x) ?v = []" by (auto simp: filter_empty_conv)
    with ne show ?thesis by simp
  qed
  moreover have "16 \<le> length ?v \<longrightarrow> 5 / 2 \<le> shannonEntropy ?v"
    using f(4) by (simp add: low_entropy_iff ENTROPY_MIN_LENGTH_def MIN_ENTROPY_def not_less)
  ultimately show ?thesis
    using f(1,5)
    by (auto simp: hasStructuralPunctuation_def STRUCTURAL_PUNCTUATION_PATTERN_def rx_test_set MAX_LETTERS_ONLY_IDENTIFIER_def)
qed

definition sample_secret :: secret_candidate where
  "sample_secret = \<lparr>cand_ruleId = ''secret.assignment_literal'', cand_line = 3, cand_key = Some ''PIN'',
    cand_value = ''8dK2p'', cand_raw = ''PIN=8dK2p''\<rparr>"

lemma sample_secret_survives: "filterValue sample_secret = None"
  by code_simp

lemma filterValue_survivor_witness: "\<not> isTemplateValue ''8dK2p''"
  using filterValue_survivor [OF sample_secret_survives] by (simp add: sample_secret_def)

end
