(* ===== verification/Line_Spans.thy ===== *)
theory Line_Spans
  imports Js_Regex Path_Language
begin

section \<open>Comments, strings and regex literals on one line\<close>

text \<open>
  \<open>src/queue/rules/comment-span.ts\<close>, \<open>regex-literal.ts\<close> and \<open>line-context.ts\<close>: where the
  comments and the regex literals of a line are, and whether a match is code.  Both scanners
  promise the same thing, stated by the locale \<open>span_scanner\<close>: their spans lie in the line, in
  order and without overlap.  An index past the end reads \<open>undefined\<close>: \<open>char_at\<close> is \<open>None\<close>.
\<close>

subsection \<open>Spans\<close>

fun span_chain :: "nat \<Rightarrow> nat \<Rightarrow> span list \<Rightarrow> bool" where
  "span_chain lo hi [] = True"
| "span_chain lo hi ((s, e) # spans) \<longleftrightarrow> lo \<le> s \<and> s < e \<and> e \<le> hi \<and> span_chain e hi spans"

definition covered :: "span list \<Rightarrow> nat" where
  "covered spans = sum_list (map (\<lambda>(s, e). e - s) spans)"

lemma span_chain_weaken: "span_chain lo hi spans \<Longrightarrow> lo' \<le> lo \<Longrightarrow> span_chain lo' hi spans"
  by (cases spans) auto

lemma span_chain_covered: "span_chain lo hi spans \<Longrightarrow> lo \<le> hi \<Longrightarrow> covered spans \<le> hi - lo"
proof (induction lo hi spans rule: span_chain.induct)
  case (2 lo hi s e spans)
  then have "covered spans \<le> hi - e" "lo \<le> s" "s < e" "e \<le> hi" by simp_all
  then have "e - s + covered spans \<le> hi - lo" by linarith
  then show ?case by (simp add: covered_def)
qed (simp add: covered_def)

lemma span_chain_in: "span_chain lo hi spans \<Longrightarrow> (s, e) \<in> set spans \<Longrightarrow> lo \<le> s \<and> s < e \<and> e \<le> hi"
  by (induction lo hi spans rule: span_chain.induct) force+

lemma span_chain_unique:
  "span_chain lo hi spans \<Longrightarrow> (s, e) \<in> set spans \<Longrightarrow> (s', e') \<in> set spans \<Longrightarrow>
    s \<le> k \<Longrightarrow> k < e \<Longrightarrow> s' \<le> k \<Longrightarrow> k < e' \<Longrightarrow> (s, e) = (s', e')"
proof (induction lo hi spans rule: span_chain.induct)
  case (2 lo hi s0 e0 spans)
  have later: "e0 \<le> a" if "(a, b) \<in> set spans" for a b
    using span_chain_in [OF _ that] 2 by auto
  from 2 later show ?case by (auto dest: later)
qed simp

text \<open>The contract of a scanner.\<close>

locale span_scanner =
  fixes scan :: "jstr \<Rightarrow> span list"
  assumes scan_chain: "span_chain 0 (length line) (scan line)"
begin

lemma bounds: "(s, e) \<in> set (scan line) \<Longrightarrow> s < e \<and> e \<le> length line"
  using span_chain_in [OF scan_chain] by blast

lemma one_span_at:
  "(s, e) \<in> set (scan line) \<Longrightarrow> (s', e') \<in> set (scan line) \<Longrightarrow>
    s \<le> k \<Longrightarrow> k < e \<Longrightarrow> s' \<le> k \<Longrightarrow> k < e' \<Longrightarrow> (s, e) = (s', e')"
  by (rule span_chain_unique [OF scan_chain])

lemma coverage: "covered (scan line) \<le> length line"
  using span_chain_covered [OF scan_chain] by simp

end

definition char_at :: "jstr \<Rightarrow> nat \<Rightarrow> char option" where
  "char_at s i = (if i < length s then Some (s ! i) else None)"

definition is_ascii_space :: "char \<Rightarrow> bool" where
  "is_ascii_space c \<longleftrightarrow> c \<in> set [CHR 0x20, CHR 0x09, CHR 0x0A, CHR 0x0B, CHR 0x0C, CHR 0x0D]"

definition is_quote :: "char \<Rightarrow> bool" where
  "is_quote c \<longleftrightarrow> c \<in> set [CHR 0x22, CHR 0x27, CHR 0x60]"

abbreviation backslash :: char where
  "backslash \<equiv> CHR 0x5C"

text \<open>The end of the run of characters with a property, from \<open>i\<close>.\<close>

definition run_end :: "(char \<Rightarrow> bool) \<Rightarrow> jstr \<Rightarrow> nat \<Rightarrow> nat" where
  "run_end P s i = i + length (takeWhile P (drop i s))"

lemma run_end_bounds: "i \<le> run_end P s i" "i \<le> length s \<Longrightarrow> run_end P s i \<le> length s"
  using length_takeWhile_le [of P "drop i s"] by (simp_all add: run_end_def)

subsection \<open>Comments\<close>

datatype hash_comment = Anywhere | AfterSpace | NoHash

record comment_syntax =
  cs_line :: "jstr list"
  cs_block :: "(jstr \<times> jstr) list"
  cs_hash :: hash_comment
  cs_docstring :: bool
  cs_quotes :: bool

definition SLASH :: comment_syntax where
  "SLASH = \<lparr>cs_line = [''//''], cs_block = [(''/*'', ''*/'')], cs_hash = NoHash, cs_docstring = False, cs_quotes = True\<rparr>"

definition HASH_ANYWHERE :: comment_syntax where
  "HASH_ANYWHERE = \<lparr>cs_line = [], cs_block = [], cs_hash = Anywhere, cs_docstring = False, cs_quotes = True\<rparr>"

definition PYTHON :: comment_syntax where
  "PYTHON = HASH_ANYWHERE\<lparr>cs_docstring := True\<rparr>"

definition HASH_AFTER_SPACE :: comment_syntax where
  "HASH_AFTER_SPACE = HASH_ANYWHERE\<lparr>cs_hash := AfterSpace\<rparr>"

definition SQL :: comment_syntax where
  "SQL = \<lparr>cs_line = [''--''], cs_block = [(''/*'', ''*/'')], cs_hash = NoHash, cs_docstring = False, cs_quotes = True\<rparr>"

definition DASH :: comment_syntax where
  "DASH = SQL\<lparr>cs_block := []\<rparr>"

definition MARKUP :: comment_syntax where
  "MARKUP = \<lparr>cs_line = [], cs_block = [(''<!--'', ''-->'')], cs_hash = NoHash, cs_docstring = False, cs_quotes = False\<rparr>"

definition CSS :: comment_syntax where
  "CSS = \<lparr>cs_line = [], cs_block = [(''/*'', ''*/'')], cs_hash = NoHash, cs_docstring = False, cs_quotes = True\<rparr>"

definition register_syntax :: "comment_syntax \<Rightarrow> jstr list \<Rightarrow> (jstr \<times> comment_syntax) list" where
  "register_syntax syn exts = map (\<lambda>e. (e, syn)) exts"

definition COMMENT_BY_EXTENSION :: "(jstr \<times> comment_syntax) list" where
  "COMMENT_BY_EXTENSION =
    register_syntax SLASH [''js'', ''ts'', ''jsx'', ''tsx'', ''mjs'', ''cjs'', ''go'', ''java'', ''kt'', ''php'', ''c'',
      ''h'', ''cpp'', ''cc'', ''hpp'', ''cs'', ''swift'', ''rs'', ''scss''] @
    register_syntax PYTHON [''py''] @
    register_syntax HASH_ANYWHERE [''rb'', ''r'', ''pl''] @
    register_syntax HASH_AFTER_SPACE [''sh'', ''bash'', ''zsh'', ''yaml'', ''yml'', ''toml'', ''env'', ''ini'', ''cfg'', ''conf''] @
    register_syntax SQL [''sql''] @
    register_syntax DASH [''lua'', ''hs''] @
    register_syntax MARKUP [''html'', ''htm'', ''xml'', ''vue'', ''svelte'', ''md''] @
    register_syntax CSS [''css'']"

definition commentSyntaxFor :: "jstr \<Rightarrow> comment_syntax record_entry" where
  "commentSyntaxFor filePath =
    (let base = to_lower (basename filePath)
     in if starts_with base ''dockerfile'' \<or> base = ''makefile'' \<or> base = ''.env'' \<or> starts_with base ''.env.''
        then Own HASH_AFTER_SPACE
        else record_get COMMENT_BY_EXTENSION (if contains base ''.'' then last_piece CHR ''.'' base else []))"

text \<open>
  The block comment that opens at \<open>i\<close>: its end, or the end of the line.  A pair of two empty
  markers, which no syntax has, would keep the loop of the source at \<open>i\<close>; it is no comment
  here.
\<close>

definition block_end :: "comment_syntax \<Rightarrow> jstr \<Rightarrow> nat \<Rightarrow> nat option option" where
  "block_end syn line i =
    (case List.find (\<lambda>(opening, closing). starts_at line i opening) (cs_block syn) of
      None \<Rightarrow> None
    | Some (opening, closing) \<Rightarrow> Some (map_option (\<lambda>k. k + length closing) (index_of line closing (i + length opening))))"

definition hash_comment_at :: "comment_syntax \<Rightarrow> jstr \<Rightarrow> nat \<Rightarrow> bool" where
  "hash_comment_at syn line i \<longleftrightarrow> line ! i = CHR ''#'' \<and>
    (cs_hash syn = Anywhere \<or>
     cs_hash syn = AfterSpace \<and> (i = 0 \<or> is_ascii_space (line ! (i - 1))))"

function comment_scan :: "comment_syntax \<Rightarrow> jstr \<Rightarrow> char option \<Rightarrow> nat \<Rightarrow> span list" where
  "comment_scan syn line q i =
    (if length line \<le> i then []
     else (case q of
        Some qc \<Rightarrow>
          if line ! i = backslash then comment_scan syn line q (i + 2)
          else comment_scan syn line (if line ! i = qc then None else q) (i + 1)
      | None \<Rightarrow>
          if cs_quotes syn \<and> is_quote (line ! i) then comment_scan syn line (Some (line ! i)) (i + 1)
          else (case block_end syn line i of
            Some None \<Rightarrow> [(i, length line)]
          | Some (Some e) \<Rightarrow> if i < e then (i, e) # comment_scan syn line None e else []
          | None \<Rightarrow>
              if (\<exists>m \<in> set (cs_line syn). starts_at line i m) \<or> hash_comment_at syn line i then [(i, length line)]
              else comment_scan syn line None (i + 1))))"
  by pat_completeness auto
termination
  by (relation "measure (\<lambda>(syn, line, q, i). length line - i)") auto

declare comment_scan.simps [simp del]

text \<open>A docstring opened at the start of the line.\<close>

definition docstring_opener :: "jstr \<Rightarrow> nat \<Rightarrow> jstr option" where
  "docstring_opener line i =
    (if starts_at line i [CHR 0x22, CHR 0x22, CHR 0x22] then Some [CHR 0x22, CHR 0x22, CHR 0x22]
     else if starts_at line i [CHR 0x27, CHR 0x27, CHR 0x27] then Some [CHR 0x27, CHR 0x27, CHR 0x27]
     else None)"

definition findCommentSpans :: "jstr \<Rightarrow> comment_syntax \<Rightarrow> span list" where
  "findCommentSpans line syn =
    (let first = run_end is_ascii_space line 0
     in case (if cs_docstring syn then docstring_opener line first else None) of
          Some opener \<Rightarrow>
            (let end_at = (case index_of line opener (first + 3) of Some k \<Rightarrow> k + 3 | None \<Rightarrow> length line)
             in (first, end_at) # comment_scan syn line None end_at)
        | None \<Rightarrow> comment_scan syn line None 0)"

definition commentSpanStart :: "jstr \<Rightarrow> comment_syntax \<Rightarrow> nat option" where
  "commentSpanStart line syn =
    (let spans = findCommentSpans line syn
     in if spans \<noteq> [] \<and> snd (last spans) = length line then Some (fst (last spans)) else None)"

text \<open>
  With an inherited table entry for a syntax, \<open>syntax.block\<close> is undefined and the first
  character of the line makes the loop over it throw a \<open>TypeError\<close>: \<open>Inl\<close>.
\<close>

definition isInsideComment :: "jstr \<Rightarrow> nat \<Rightarrow> jstr \<Rightarrow> jstr + bool" where
  "isInsideComment line matchStart filePath =
    (case commentSyntaxFor filePath of
      Absent \<Rightarrow> Inr False
    | Inherited \<Rightarrow> if line = [] then Inr False else Inl ''TypeError''
    | Own syn \<Rightarrow> Inr (\<exists>(s, e) \<in> set (findCommentSpans line syn). s \<le> matchStart \<and> matchStart < e))"

subsection \<open>Comment spans are in order\<close>

lemma block_end_bounds: "block_end syn line i = Some (Some e) \<Longrightarrow> e \<le> length line"
  by (auto simp: block_end_def dest: index_of_end split: option.splits)

lemma comment_scan_chain: "span_chain i (length line) (comment_scan syn line q i)"
proof (induction syn line q i rule: comment_scan.induct)
  case (1 syn line q i)
  show ?case
  proof (cases "i < length line")
    case False
    then show ?thesis by (simp add: comment_scan.simps [of syn line q i])
  next
    case True
    then have in_line: "\<not> length line \<le> i" by simp
    have weak: "span_chain j (length line) ss \<Longrightarrow> i \<le> j \<Longrightarrow> span_chain i (length line) ss" for j ss
      by (rule span_chain_weaken)
    show ?thesis
    proof (cases q)
      case (Some qc)
      have "span_chain i (length line) (comment_scan syn line q (i + 2))" if "line ! i = backslash"
        by (rule weak [OF 1(4) [OF in_line Some that]]) simp
      moreover have "span_chain i (length line) (comment_scan syn line (if line ! i = qc then None else q) (i + 1))"
        if "line ! i \<noteq> backslash"
        by (rule weak [OF 1(5) [OF in_line Some that]]) simp
      ultimately show ?thesis
        unfolding comment_scan.simps [of syn line q i] using in_line Some by simp
    next
      case None
      show ?thesis
      proof (cases "cs_quotes syn \<and> is_quote (line ! i)")
        case True
        have "span_chain i (length line) (comment_scan syn line (Some (line ! i)) (i + 1))"
          by (rule weak [OF 1(1) [OF in_line None True]]) simp
        with True None in_line show ?thesis
          unfolding comment_scan.simps [of syn line q i] by simp
      next
        case False
        note unquoted = this
        show ?thesis
        proof (cases "block_end syn line i")
          case block: None
          have "span_chain i (length line) (comment_scan syn line None (i + 1))"
            if "\<not> ((\<exists>m \<in> set (cs_line syn). starts_at line i m) \<or> hash_comment_at syn line i)"
            by (rule weak [OF 1(2) [OF in_line None unquoted block that]]) simp
          then show ?thesis
            unfolding comment_scan.simps [of syn line q i] using unquoted None in_line block by auto
        next
          case (Some r)
          show ?thesis
          proof (cases r)
            case r: None
            then show ?thesis
              unfolding comment_scan.simps [of syn line q i] using unquoted None in_line Some by auto
          next
            case (Some e)
            with \<open>block_end syn line i = Some r\<close> have e: "block_end syn line i = Some (Some e)" by simp
            show ?thesis
              unfolding comment_scan.simps [of syn line q i]
              using unquoted None in_line e block_end_bounds [OF e] 1(3) [OF in_line None unquoted e refl]
              by auto
          qed
        qed
      qed
    qed
  qed
qed

lemma docstring_opener_bounds:
  assumes "docstring_opener line i = Some opener" "i \<le> length line"
  shows "i + 3 \<le> length line \<and> length opener = 3"
  using assms starts_at_bound [of line i opener]
  by (auto simp: docstring_opener_def split: if_splits)

lemma findCommentSpans_chain: "span_chain 0 (length line) (findCommentSpans line syn)"
proof -
  let ?first = "run_end is_ascii_space line 0"
  have first: "?first \<le> length line" by (rule run_end_bounds) simp
  show ?thesis
  proof (cases "if cs_docstring syn then docstring_opener line ?first else None")
    case None
    then show ?thesis
      unfolding findCommentSpans_def by (simp add: Let_def comment_scan_chain)
  next
    case (Some opener)
    then have op: "docstring_opener line ?first = Some opener" by (auto split: if_splits)
    note len = docstring_opener_bounds [OF op first]
    have e: "?first < k + 3" "k + 3 \<le> length line" if "index_of line opener (?first + 3) = Some k" for k
      using index_of_end [OF that] index_of_bounds [OF that] len by auto
    from Some len e show ?thesis
      unfolding findCommentSpans_def
      by (auto simp: Let_def comment_scan_chain split: option.split)
  qed
qed

interpretation comment: span_scanner "\<lambda>line. findCommentSpans line syn" for syn
  by unfold_locales (rule findCommentSpans_chain)

end
