(* ===== verification/Regex_Literals.thy ===== *)
theory Regex_Literals
  imports Line_Spans
begin

section \<open>Regex literals, and matches that are code\<close>

text \<open>
  \<open>src/queue/rules/regex-literal.ts\<close> and \<open>line-context.ts\<close>.  The scan over a line keeps the
  position, the last significant character and the flag \<open>jsRegexExhausted\<close>; the lemmas show
  that it terminates and fulfils the contract of a \<open>span_scanner\<close>.
\<close>

definition REGEX_METACHARS :: "char list" where
  "REGEX_METACHARS = [CHR 0x5C] @ ''^$.*+?()[]{}|''"

definition MIN_JS_REGEX_BODY :: nat where "MIN_JS_REGEX_BODY = 8"

definition REGEX_ALLOWED_AFTER :: "char list" where
  "REGEX_ALLOWED_AFTER = ''(,=:[!&|?{};+-*%<>~^''"

definition JS_CALL_OPENER :: rx where
  "JS_CALL_OPENER = rseq [rlit ''new'', rplus (RSet is_space), rlit ''RegExp'', rspaces, rchar CHR ''('', rspaces]"

definition PY_CALL_OPENER :: rx where
  "PY_CALL_OPENER = rseq [rlit ''re.'',
    ralt [rlit ''compile'', rlit ''search'', rlit ''match'', rlit ''fullmatch'', rlit ''findall'',
      rlit ''finditer'', rlit ''sub'', rlit ''split''],
    rspaces, rchar CHR ''('', rspaces]"

definition GO_CALL_OPENER :: rx where
  "GO_CALL_OPENER = rseq [rlit ''regexp.'', RAlt (rlit ''MustCompile'') (rlit ''Compile''),
    ropt (rlit ''POSIX''), rspaces, rchar CHR ''('', rspaces]"

definition PROPERTY_OPENER :: rx where
  "PROPERTY_OPENER = rseq [ropt (rany [CHR 0x22, CHR 0x27]),
    ralt [rlit_i ''pattern'', rlit_i ''regex'', rlit_i ''regexp'', rlit_i ''matcher''],
    ropt (rany [CHR 0x22, CHR 0x27]), rspaces, rchar CHR '':'', rspaces]"

definition is_identifier :: "char \<Rightarrow> bool" where
  "is_identifier c \<longleftrightarrow> is_word c \<or> c = CHR ''$''"

definition CALL_OPENER_FIRST :: "char list" where "CALL_OPENER_FIRST = ''nrR''"
definition PROPERTY_OPENER_FIRST :: "char list" where
  "PROPERTY_OPENER_FIRST = [CHR 0x22, CHR 0x27] @ ''pPrRmM''"

definition callOpenersFor :: "jstr \<Rightarrow> rx list" where
  "callOpenersFor language =
    (if language = ''js'' then [JS_CALL_OPENER] else if language = ''py'' then [PY_CALL_OPENER]
     else if language = ''go'' then [GO_CALL_OPENER] else [])"

definition lineCommentStart :: "jstr \<Rightarrow> nat \<Rightarrow> jstr \<Rightarrow> bool" where
  "lineCommentStart line i language =
    (if language = ''js'' \<or> language = ''go'' then char_at line i = Some CHR ''/'' \<and> char_at line (i + 1) = Some CHR ''/''
     else if language = ''py'' \<or> language = ''*'' then char_at line i = Some CHR ''#''
     else False)"

text \<open>\<open>readString\<close>: the loop from \<open>j\<close> for the quote \<open>q\<close>.\<close>

function string_end :: "jstr \<Rightarrow> char \<Rightarrow> nat \<Rightarrow> nat" where
  "string_end line q j =
    (if length line \<le> j then length line
     else if line ! j = backslash then string_end line q (j + 2)
     else if line ! j = q then j + 1
     else string_end line q (j + 1))"
  by pat_completeness auto
termination by (relation "measure (\<lambda>(line, q, j). length line - j)") auto

declare string_end.simps [simp del]

definition readString :: "jstr \<Rightarrow> nat \<Rightarrow> nat" where
  "readString line i = string_end line (line ! i) (i + 1)"

definition is_regex_flag :: "char \<Rightarrow> bool" where
  "is_regex_flag c \<longleftrightarrow> c \<in> set ''dgimsuvy''"

function js_regex_end :: "jstr \<Rightarrow> bool \<Rightarrow> nat \<Rightarrow> nat option" where
  "js_regex_end line inClass j =
    (if length line \<le> j then None
     else if line ! j = backslash then js_regex_end line inClass (j + 2)
     else if line ! j = CHR ''['' then js_regex_end line True (j + 1)
     else if line ! j = CHR '']'' then js_regex_end line False (j + 1)
     else if line ! j = CHR ''/'' \<and> \<not> inClass then Some (run_end is_regex_flag line (j + 1))
     else js_regex_end line inClass (j + 1))"
  by pat_completeness auto
termination by (relation "measure (\<lambda>(line, inClass, j). length line - j)") auto

declare js_regex_end.simps [simp del]

definition readJsRegexLiteral :: "jstr \<Rightarrow> nat \<Rightarrow> nat option" where
  "readJsRegexLiteral line i = js_regex_end line False (i + 1)"

definition qualifiesAsRegexBody :: "jstr \<Rightarrow> bool" where
  "qualifiesAsRegexBody body \<longleftrightarrow>
    MIN_JS_REGEX_BODY \<le> length body \<and> (\<exists>c \<in> set body. c \<in> set REGEX_METACHARS)"

text \<open>A Python string prefix of at most two letters, then a quote.\<close>

definition pythonStringStart :: "jstr \<Rightarrow> nat \<Rightarrow> nat option" where
  "pythonStringStart line i =
    (let j = i + length (takeWhile (\<lambda>c. c \<in> set ''rRbBuUfF'') (take 2 (drop i line)))
     in if char_at line j = Some CHR 0x22 \<or> char_at line j = Some CHR 0x27 then Some j else None)"

text \<open>\<open>readJsRegexOnce\<close>: the end, and the flag afterwards.\<close>

definition readJsRegexOnce :: "jstr \<Rightarrow> nat \<Rightarrow> bool \<Rightarrow> nat option \<times> bool" where
  "readJsRegexOnce line i exhausted =
    (if exhausted then (None, True)
     else (case readJsRegexLiteral line i of
        Some e \<Rightarrow> (Some e, False)
      | None \<Rightarrow> (None, True)))"

definition literalAt :: "jstr \<Rightarrow> nat \<Rightarrow> jstr \<Rightarrow> bool \<Rightarrow> bool \<Rightarrow> span option \<times> bool" where
  "literalAt line i language allowBare exhausted =
    (let c = char_at line i
     in if (case c of Some q \<Rightarrow> is_quote q | None \<Rightarrow> False) then (Some (i, readString line i), exhausted)
        else (case (if language = ''py'' then pythonStringStart line i else None) of
          Some quoteAt \<Rightarrow> (Some (i, readString line quoteAt), exhausted)
        | None \<Rightarrow>
            if c = Some CHR ''/'' \<and> language = ''js'' then
              (case readJsRegexOnce line i exhausted of (e, exhausted') \<Rightarrow> (map_option (\<lambda>e. (i, e)) e, exhausted'))
            else if allowBare \<and> (case c of Some d \<Rightarrow> \<not> (is_space d \<or> d \<in> set '',{}[]'') | None \<Rightarrow> False)
              then (Some (i, length line), exhausted)
            else (None, exhausted)))"

text \<open>The probes at a token start: where the argument starts, and \<open>allowBare\<close>.\<close>

definition probe_openers :: "jstr \<Rightarrow> nat \<Rightarrow> jstr \<Rightarrow> (nat \<times> bool) option" where
  "probe_openers line i language =
    (if \<not> ((i = 0 \<or> \<not> is_identifier (line ! (i - 1))) \<and>
           (is_identifier (line ! i) \<or> line ! i = CHR 0x22 \<or> line ! i = CHR 0x27)) then None
     else (case (if line ! i \<in> set CALL_OPENER_FIRST
                 then List.find (\<lambda>j. j \<noteq> None) (map (\<lambda>r. rx_at r line i) (callOpenersFor language)) else None) of
        Some (Some j) \<Rightarrow> Some (j, False)
      | _ \<Rightarrow> (case (if line ! i \<in> set PROPERTY_OPENER_FIRST then rx_at PROPERTY_OPENER line i else None) of
          Some j \<Rightarrow> Some (j, language = ''*'')
        | None \<Rightarrow> None)))"

definition regex_allowed :: "char option \<Rightarrow> bool" where
  "regex_allowed lastSignificant = (case lastSignificant of None \<Rightarrow> True | Some c \<Rightarrow> c \<in> set REGEX_ALLOWED_AFTER)"

definition last_slash_before :: "jstr \<Rightarrow> nat \<Rightarrow> nat" where
  "last_slash_before line e = (case List.find (\<lambda>k. line ! k = CHR ''/'') (rev [0..<e]) of Some k \<Rightarrow> k | None \<Rightarrow> 0)"

lemma opener_widths:
  "r \<in> set (callOpenersFor language) \<Longrightarrow> 0 < rx_width r" "0 < rx_width PROPERTY_OPENER"
  by (auto simp: callOpenersFor_def JS_CALL_OPENER_def PY_CALL_OPENER_def GO_CALL_OPENER_def
      PROPERTY_OPENER_def rep_min_def split: if_splits)

lemma probe_openers_bounds:
  assumes "probe_openers line i language = Some (j, b)" "i < length line"
  shows "i < j \<and> j \<le> length line"
proof -
  have at: "i < k \<and> k \<le> length line" if "rx_at r line i = Some k" "0 < rx_width r" for r k
    using rx_atD [OF that(1)] that(2) assms(2) by simp
  from assms(1) consider
      (call) r where "r \<in> set (callOpenersFor language)" "rx_at r line i = Some j"
    | (property) "rx_at PROPERTY_OPENER line i = Some j"
    by (auto simp: probe_openers_def dest!: find_SomeD split: if_splits option.splits)
  then show ?thesis using at opener_widths by cases blast+
qed

lemma string_end_bounds: "j \<le> length line \<Longrightarrow> j \<le> string_end line q j \<and> string_end line q j \<le> length line"
proof (induction line q j rule: string_end.induct)
  case (1 line q j)
  show ?case
  proof (cases "j + 2 \<le> length line")
    case True
    with 1 show ?thesis by (subst (1 2) string_end.simps) auto
  next
    case False
    have "string_end line q (j + 2) = length line" using False by (simp add: string_end.simps)
    with False 1 show ?thesis by (subst (1 2) string_end.simps) auto
  qed
qed

lemma readString_bounds: "i < length line \<Longrightarrow> i < readString line i \<and> readString line i \<le> length line"
  using string_end_bounds [of "i + 1" line "line ! i"] by (simp add: readString_def)

lemma js_regex_end_bounds: "js_regex_end line inClass j = Some e \<Longrightarrow> j < e \<and> e \<le> length line"
proof (induction line inClass j rule: js_regex_end.induct)
  case (1 line inClass j)
  have re: "j < run_end is_regex_flag line (j + 1)" "j < length line \<Longrightarrow> run_end is_regex_flag line (j + 1) \<le> length line"
    using run_end_bounds(1) [of "j + 1" is_regex_flag line] run_end_bounds(2) [of "j + 1" line is_regex_flag] by auto
  from "1.prems" show ?case
    by (subst (asm) js_regex_end.simps) (use "1.IH" re in \<open>auto split: if_splits\<close>)
qed

lemma readJsRegexOnce_bounds: "readJsRegexOnce line i ex = (Some e, ex') \<Longrightarrow> i < e \<and> e \<le> length line"
  by (auto simp: readJsRegexOnce_def readJsRegexLiteral_def dest: js_regex_end_bounds split: option.splits if_splits)

lemma pythonStringStart_bounds: "pythonStringStart line i = Some j \<Longrightarrow> i \<le> j \<and> j < length line"
  by (auto simp: pythonStringStart_def Let_def char_at_def split: if_splits)

lemma literalAt_cases:
  assumes "literalAt line i language b ex = (Some (s, e), ex')"
  shows "s = i \<and> ((\<exists>j. i \<le> j \<and> j < length line \<and> e = readString line j) \<or>
    readJsRegexOnce line i ex = (Some e, ex') \<or> i < length line \<and> e = length line)"
proof (cases "char_at line i")
  case None
  with assms show ?thesis
    by (cases "language = ''py''"; cases "pythonStringStart line i")
      (auto simp: literalAt_def dest: pythonStringStart_bounds)
next
  case (Some c)
  then have i: "i < length line" by (simp add: char_at_def split: if_splits)
  show ?thesis
  proof (cases "is_quote c")
    case True
    with assms Some i show ?thesis by (auto simp: literalAt_def)
  next
    case False
    show ?thesis
    proof (cases "if language = ''py'' then pythonStringStart line i else None")
      case (Some j)
      then have "pythonStringStart line i = Some j" by (auto split: if_splits)
      with pythonStringStart_bounds [OF this] assms False \<open>char_at line i = Some c\<close> Some show ?thesis
        by (auto simp: literalAt_def)
    next
      case None
      with assms False Some i show ?thesis
        by (auto simp: literalAt_def split: if_splits prod.splits)
    qed
  qed
qed

lemma literalAt_bounds:
  assumes "literalAt line i language b ex = (Some (s, e), ex')"
  shows "s = i \<and> i < e \<and> e \<le> length line"
proof -
  have "i < readString line j \<and> readString line j \<le> length line" if "i \<le> j" "j < length line" for j
    using readString_bounds [of j line] that by linarith
  with literalAt_cases [OF assms] readJsRegexOnce_bounds [of line i ex e ex'] show ?thesis by blast
qed

text \<open>The loop of \<open>findRegexLiteralSpans\<close>.\<close>

function regex_scan :: "jstr \<Rightarrow> jstr \<Rightarrow> nat \<Rightarrow> char option \<Rightarrow> bool \<Rightarrow> span list" where
  "regex_scan line language i lastSignificant exhausted =
    (if length line \<le> i then []
     else if is_ascii_space (line ! i) then regex_scan line language (i + 1) lastSignificant exhausted
     else if lineCommentStart line i language then []
     else (case probe_openers line i language of
        Some (argStart, allowBare) \<Rightarrow>
          (case literalAt line argStart language allowBare exhausted of
            (Some (s, e), ex) \<Rightarrow> (s, e) # regex_scan line language e (char_at line (e - 1)) ex
          | (None, ex) \<Rightarrow> regex_scan line language argStart lastSignificant ex)
      | None \<Rightarrow>
          if is_identifier (line ! i) then
            (let j = run_end is_identifier line (i + 1)
             in regex_scan line language j (char_at line (j - 1)) exhausted)
          else if is_quote (line ! i) then
            regex_scan line language (readString line i) (Some (line ! i)) exhausted
          else if line ! i = CHR ''/'' \<and> language = ''js'' \<and> regex_allowed lastSignificant then
            (case readJsRegexOnce line i exhausted of
              (Some e, ex) \<Rightarrow>
                (if qualifiesAsRegexBody (slice line (i + 1) (last_slash_before line e)) then [(i, e)] else []) @
                  regex_scan line language e (Some CHR ''/'') ex
            | (None, ex) \<Rightarrow> regex_scan line language (i + 1) (Some (line ! i)) ex)
          else regex_scan line language (i + 1) (Some (line ! i)) exhausted))"
  by pat_completeness auto
termination
proof (relation "measure (\<lambda>(line, language, i, l, ex). length line - i)")
  fix line language :: jstr and i :: nat and l :: "char option" and ex and x2 x and y :: bool and xa and ya :: bool
  assume i: "\<not> length line \<le> i" and p: "probe_openers line i language = Some x2" "(x, y) = x2"
  then have x: "i < x" "x \<le> length line"
    using probe_openers_bounds [of line i language x y] by auto
  then show "((line, language, x, l, ya), line, language, i, l, ex)
      \<in> measure (\<lambda>(line, language, i, l, ex). length line - i)"
    using i by auto
  fix x2a xb yb
  assume "(xa, ya) = literalAt line x language y ex" "xa = Some x2a" "(xb, yb) = x2a"
  then have "x < yb" "yb \<le> length line"
    using literalAt_bounds [of line x language y ex xb yb ya] by auto
  with x show "((line, language, yb, char_at line (yb - 1), ya), line, language, i, l, ex)
      \<in> measure (\<lambda>(line, language, i, l, ex). length line - i)"
    using i by auto
next
  fix line language :: jstr and i :: nat and l :: "char option" and ex x
  assume "\<not> length line \<le> i" "x = run_end is_identifier line (i + 1)"
  then show "((line, language, x, char_at line (x - 1), ex), line, language, i, l, ex)
      \<in> measure (\<lambda>(line, language, i, l, ex). length line - i)"
    using run_end_bounds(1) [of "i + 1" is_identifier line] by auto
next
  fix line language :: jstr and i :: nat and l :: "char option" and ex
  assume "\<not> length line \<le> i"
  then show "((line, language, readString line i, Some (line ! i), ex), line, language, i, l, ex)
      \<in> measure (\<lambda>(line, language, i, l, ex). length line - i)"
    using readString_bounds [of i line] by auto
next
  fix line language :: jstr and i :: nat and l :: "char option" and ex x y x2
  assume "\<not> length line \<le> i" "(x, y) = readJsRegexOnce line i ex" "x = Some x2"
  then show "((line, language, x2, Some CHR ''/'', y), line, language, i, l, ex)
      \<in> measure (\<lambda>(line, language, i, l, ex). length line - i)"
    using readJsRegexOnce_bounds [of line i ex x2 y] by auto
qed auto

declare regex_scan.simps [simp del]

definition findRegexLiteralSpans :: "jstr \<Rightarrow> jstr \<Rightarrow> span list" where
  "findRegexLiteralSpans line language = regex_scan line language 0 None False"

definition isInsideRegexLiteral :: "jstr \<Rightarrow> nat \<Rightarrow> nat \<Rightarrow> jstr \<Rightarrow> bool" where
  "isInsideRegexLiteral line matchStart matchLength language \<longleftrightarrow>
    (\<exists>(s, e) \<in> set (findRegexLiteralSpans line language). s \<le> matchStart \<and> matchStart + matchLength \<le> e)"

text \<open>\<open>covered / trimmed.length >= 0.6\<close>.\<close>

definition isRegexLiteralLine :: "jstr \<Rightarrow> jstr \<Rightarrow> bool" where
  "isRegexLiteralLine line language =
    (if trim line = [] then False
     else 3 * length (trim line) \<le> 5 * covered (findRegexLiteralSpans line language))"

subsection \<open>Code, comments and strings\<close>

definition COMMENT_PREFIXES :: "jstr list" where
  "COMMENT_PREFIXES = [''//'', ''/*'', ''*'', ''#'']"

definition isCommentLine :: "jstr \<Rightarrow> bool" where
  "isCommentLine text \<longleftrightarrow> (\<exists>p \<in> set COMMENT_PREFIXES. starts_with (trim_start text) p)"

text \<open>The loop over the characters before the index, with the open quote.\<close>

fun open_quote :: "char option \<Rightarrow> jstr \<Rightarrow> char option" where
  "open_quote q [] = q"
| "open_quote None (c # cs) = open_quote (if is_quote c then Some c else None) cs"
| "open_quote (Some q) [c] = (if c = backslash then Some q else if c = q then None else Some q)"
| "open_quote (Some q) (c # d # cs) =
    (if c = backslash then open_quote (Some q) cs
     else open_quote (if c = q then None else Some q) (d # cs))"

definition isInsideStringLiteral :: "jstr \<Rightarrow> nat \<Rightarrow> bool" where
  "isInsideStringLiteral text i \<longleftrightarrow> open_quote None (take i text) \<noteq> None"

definition matchesAsCode :: "rx \<Rightarrow> jstr \<Rightarrow> bool" where
  "matchesAsCode r text \<longleftrightarrow>
    \<not> isCommentLine text \<and> (\<exists>m \<in> set (rx_all r text). \<not> isInsideStringLiteral text (rx_start m))"

definition findCodeMatch :: "rx \<Rightarrow> jstr \<Rightarrow> jstr \<Rightarrow> (nat \<times> nat) option" where
  "findCodeMatch r text language =
    (if isCommentLine text then None
     else map_option (\<lambda>m. (rx_start m, rx_end m - rx_start m))
       (List.find (\<lambda>m. \<not> isInsideStringLiteral text (rx_start m) \<or>
          isInsideRegexLiteral text (rx_start m) (rx_end m - rx_start m) language) (rx_all r text)))"

subsection \<open>Regex spans are in order\<close>

lemma regex_scan_chain: "span_chain i (length line) (regex_scan line language i l ex)"
proof (induction line language i l ex rule: regex_scan.induct)
  case (1 line language i l ex)
  have weak: "span_chain j (length line) ss \<Longrightarrow> i \<le> j \<Longrightarrow> span_chain i (length line) ss" for j ss
    by (rule span_chain_weaken)
  note unfold = regex_scan.simps [of line language i l ex]
  show ?case
  proof (cases "length line \<le> i \<or> is_ascii_space (line ! i) \<or> lineCommentStart line i language")
    case True
    have "span_chain i (length line) (regex_scan line language (i + 1) l ex)"
      if "\<not> length line \<le> i" "is_ascii_space (line ! i)"
      by (rule weak [OF "1.IH"(1) [OF that]]) simp
    with True show ?thesis
      unfolding unfold by (cases "length line \<le> i"; cases "is_ascii_space (line ! i)"; simp)
  next
    case False
    then have c: "\<not> length line \<le> i" "\<not> is_ascii_space (line ! i)" "\<not> lineCommentStart line i language"
      by simp_all
    then have i: "i < length line" by simp
    show ?thesis
    proof (cases "probe_openers line i language")
      case (Some jb)
      obtain j b where jb: "(j, b) = jb" by (cases jb) auto
      with probe_openers_bounds [of line i language j b] Some i have j: "i < j" by simp
      obtain sp ex' where lit: "(sp, ex') = literalAt line j language b ex" by (metis surj_pair)
      show ?thesis
      proof (cases sp)
        case None
        have "span_chain i (length line) (regex_scan line language j l ex')"
          by (rule weak [OF "1.IH"(7) [OF c Some jb lit None]]) (use j in simp)
        with c Some show ?thesis unfolding unfold jb [symmetric] by (simp add: lit [symmetric] None jb [symmetric])
      next
        case sp: (Some se)
        obtain s e where se: "(s, e) = se" by (cases se) auto
        have b: "s = j" "j < e" "e \<le> length line"
          using literalAt_bounds [of line j language b ex s e ex'] lit sp se by auto
        have "span_chain e (length line) (regex_scan line language e (char_at line (e - 1)) ex')"
          by (rule "1.IH"(8) [OF c Some jb lit sp se])
        with c Some b j show ?thesis
          unfolding unfold by (simp add: lit [symmetric] sp jb [symmetric] se [symmetric])
      qed
    next
      case None
      note d = c None
      show ?thesis
      proof (cases "is_identifier (line ! i)")
        case True
        have "span_chain i (length line) (regex_scan line language (run_end is_identifier line (i + 1))
            (char_at line (run_end is_identifier line (i + 1) - 1)) ex)"
          by (rule weak [OF "1.IH"(2) [OF d True refl]])
            (use run_end_bounds(1) [of "i + 1" is_identifier line] in simp)
        with d True show ?thesis unfolding unfold by (simp add: Let_def)
      next
        case ident: False
        show ?thesis
        proof (cases "is_quote (line ! i)")
          case True
          have "span_chain i (length line) (regex_scan line language (readString line i) (Some (line ! i)) ex)"
            by (rule weak [OF "1.IH"(3) [OF d ident True]]) (use readString_bounds [OF i] in simp)
          with d ident True show ?thesis unfolding unfold by simp
        next
          case quote: False
          show ?thesis
          proof (cases "line ! i = CHR ''/'' \<and> language = ''js'' \<and> regex_allowed l")
            case False
            have "span_chain i (length line) (regex_scan line language (i + 1) (Some (line ! i)) ex)"
              by (rule weak [OF "1.IH"(6) [OF d ident quote False]]) simp
            with d ident quote False show ?thesis unfolding unfold by auto
          next
            case True
            obtain e ex' where r: "(e, ex') = readJsRegexOnce line i ex" by (metis surj_pair)
            show ?thesis
            proof (cases e)
              case None
              have "span_chain i (length line) (regex_scan line language (i + 1) (Some (line ! i)) ex')"
                by (rule weak [OF "1.IH"(4) [OF d ident quote True r None]]) simp
              with d ident quote True None show ?thesis unfolding unfold by (simp add: r [symmetric])
            next
              case (Some e')
              have e': "i < e'" "e' \<le> length line"
                using readJsRegexOnce_bounds [of line i ex e' ex'] r Some by auto
              have rest: "span_chain e' (length line) (regex_scan line language e' (Some CHR ''/'') ex')"
                by (rule "1.IH"(5) [OF d ident quote True r Some])
              have "span_chain i (length line) (regex_scan line language e' (Some CHR ''/'') ex')"
                by (rule weak [OF rest]) (rule less_imp_le [OF e'(1)])
              with d ident quote True Some e' rest show ?thesis
                unfolding unfold by (simp add: r [symmetric])
            qed
          qed
        qed
      qed
    qed
  qed
qed

interpretation regex_literal: span_scanner "\<lambda>line. findRegexLiteralSpans line language" for language
  by unfold_locales (simp add: findRegexLiteralSpans_def regex_scan_chain)

lemma findCodeMatch_Some:
  assumes "findCodeMatch r text language = Some (start, len)"
  shows "\<not> isCommentLine text" "start + len \<le> length text"
    "\<not> isInsideStringLiteral text start \<or> isInsideRegexLiteral text start len language"
proof -
  from assms obtain m where m: "List.find (\<lambda>m. \<not> isInsideStringLiteral text (rx_start m) \<or>
        isInsideRegexLiteral text (rx_start m) (rx_end m - rx_start m) language) (rx_all r text) = Some m"
    and at_m: "start = rx_start m" "len = rx_end m - rx_start m" and c: "\<not> isCommentLine text"
    by (auto simp: findCodeMatch_def split: if_splits)
  from find_SomeD [OF m] rx_all_bounds [of m r "text"] at_m
  show "start + len \<le> length text"
    "\<not> isInsideStringLiteral text start \<or> isInsideRegexLiteral text start len language" by auto
  show "\<not> isCommentLine text" by (rule c)
qed

subsection \<open>What a comment span starts with\<close>

definition comment_marker_at :: "comment_syntax \<Rightarrow> jstr \<Rightarrow> nat \<Rightarrow> bool" where
  "comment_marker_at syn line i \<longleftrightarrow>
    (\<exists>m \<in> set (cs_line syn). starts_at line i m) \<or> (\<exists>b \<in> set (cs_block syn). starts_at line i (fst b)) \<or>
    hash_comment_at syn line i \<or> cs_docstring syn \<and> docstring_opener line i \<noteq> None"

lemma block_end_marker: "block_end syn line i \<noteq> None \<Longrightarrow> comment_marker_at syn line i"
  by (force simp: block_end_def comment_marker_at_def dest: find_SomeD split: option.splits)

lemma comment_scan_marker: "(s, e) \<in> set (comment_scan syn line q i) \<Longrightarrow> comment_marker_at syn line s"
proof (induction syn line q i rule: comment_scan.induct)
  case (1 syn line q i)
  note unfold = comment_scan.simps [of syn line q i]
  from "1.prems" have inl: "\<not> length line \<le> i" by (auto simp: unfold)
  show ?case
  proof (cases q)
    case (Some qc)
    with "1.prems" inl "1.IH"(4) [OF inl Some] "1.IH"(5) [OF inl Some] show ?thesis
      unfolding unfold by (auto split: if_splits)
  next
    case None
    show ?thesis
    proof (cases "cs_quotes syn \<and> is_quote (line ! i)")
      case True
      with "1.prems" inl None "1.IH"(1) [OF inl None True] show ?thesis unfolding unfold by simp
    next
      case unquoted: False
      show ?thesis
      proof (cases "block_end syn line i")
        case block: None
        show ?thesis
        proof (cases "(\<exists>m \<in> set (cs_line syn). starts_at line i m) \<or> hash_comment_at syn line i")
          case True
          with "1.prems" inl None unquoted block have "s = i" unfolding unfold by auto
          with True show ?thesis by (auto simp: comment_marker_at_def)
        next
          case False
          with "1.prems" inl None unquoted block "1.IH"(2) [OF inl None unquoted block False]
          show ?thesis unfolding unfold by auto
        qed
      next
        case (Some r)
        then have here: "comment_marker_at syn line i" by (simp add: block_end_marker)
        show ?thesis
        proof (cases r)
          case r: None
          with "1.prems" inl None unquoted Some have "s = i" unfolding unfold by auto
          with here show ?thesis by simp
        next
          case r: (Some e')
          with "1.prems" inl None unquoted Some here "1.IH"(3) [OF inl None unquoted Some r]
          show ?thesis unfolding unfold by (auto split: if_splits)
        qed
      qed
    qed
  qed
qed

lemma findCommentSpans_marker:
  assumes "(s, e) \<in> set (findCommentSpans line syn)"
  shows "comment_marker_at syn line s"
proof -
  let ?first = "run_end is_ascii_space line 0"
  show ?thesis
  proof (cases "if cs_docstring syn then docstring_opener line ?first else None")
    case None
    with assms show ?thesis
      unfolding findCommentSpans_def by (auto simp: Let_def dest: comment_scan_marker)
  next
    case (Some opener)
    then have "cs_docstring syn \<and> docstring_opener line ?first = Some opener" by (auto split: if_splits)
    then have "comment_marker_at syn line ?first" by (simp add: comment_marker_at_def)
    with assms Some show ?thesis
      unfolding findCommentSpans_def by (auto simp: Let_def dest: comment_scan_marker)
  qed
qed

subsection \<open>The properties of the line scanners\<close>

text \<open>Both line scanners always terminate with spans that are non-empty, in order, disjoint and
  inside the line, and every comment span starts at a comment marker of the file's syntax.\<close>

theorem line_spans_well_formed:
  "span_chain 0 (length line) (findCommentSpans line syn) \<and>
   span_chain 0 (length line) (findRegexLiteralSpans line language) \<and>
   covered (findRegexLiteralSpans line language) \<le> length line \<and>
   (\<forall>(s, e) \<in> set (findCommentSpans line syn). comment_marker_at syn line s)"
  using comment.scan_chain regex_literal.scan_chain regex_literal.coverage findCommentSpans_marker by auto

lemma line_spans_well_formed_witness:
  "findCommentSpans ''a = 1; /* x */ b // c'' SLASH = [(7, 14), (17, 21)] \<and>
    comment_marker_at SLASH ''a = 1; /* x */ b // c'' 17"
proof -
  have eq: "findCommentSpans ''a = 1; /* x */ b // c'' SLASH = [(7, 14), (17, 21)]" by code_simp
  with line_spans_well_formed [of "''a = 1; /* x */ b // c''" SLASH] show ?thesis by simp
qed

text \<open>\<open>isInsideComment\<close> answers for every file but those whose extension names an inherited
  property: there, on any non-empty line, it throws a \<open>TypeError\<close>.  For every other file a
  position inside a comment lies in exactly one comment span of the line.\<close>

theorem isInsideComment_outcomes:
  "case isInsideComment line k path of
    Inl e \<Rightarrow> e = ''TypeError'' \<and> commentSyntaxFor path = Inherited \<and> line \<noteq> []
  | Inr inside \<Rightarrow> (commentSyntaxFor path = Inherited \<longrightarrow> line = []) \<and>
      inside = (case commentSyntaxFor path of
        Own syn \<Rightarrow> (\<exists>!se. se \<in> set (findCommentSpans line syn) \<and> fst se \<le> k \<and> k < snd se)
      | _ \<Rightarrow> False)"
proof (cases "commentSyntaxFor path")
  case (Own syn)
  have "(\<exists>(s, e) \<in> set (findCommentSpans line syn). s \<le> k \<and> k < e) \<longleftrightarrow>
      (\<exists>!se. se \<in> set (findCommentSpans line syn) \<and> fst se \<le> k \<and> k < snd se)"
    using comment.one_span_at [of _ _ line syn] by (fastforce simp: Ex1_def)
  with Own show ?thesis by (simp add: isInsideComment_def)
qed (simp_all add: isInsideComment_def)

lemma isInsideComment_outcomes_witness:
  "isInsideComment ''x'' 0 ''notes.constructor'' = Inl ''TypeError'' \<and>
    commentSyntaxFor ''notes.constructor'' = Inherited"
proof -
  have "isInsideComment ''x'' 0 ''notes.constructor'' = Inl ''TypeError''" by code_simp
  with isInsideComment_outcomes [where line = "''x''" and k = 0 and path = "''notes.constructor''"] show ?thesis by simp
qed

end
