(* ===== verification/Rule_Interface.thy ===== *)
theory Rule_Interface
  imports Value_Filter Finding_Model Syntax_Check Regex_Literals
begin

section \<open>What a rule is\<close>

text \<open>
  \<open>src/queue/rules/rule.interface.ts\<close>.  A rule is a record whose \<open>test\<close> takes the context of a
  file; it returns its findings or throws, which is \<open>Inl\<close> of the error's name.  The field
  \<open>patterns\<close>, which only the tests of the repository read, is left out.  The locale \<open>rule_set\<close>
  is the contract between the rules and everything that runs them: a rule does not throw, a
  line finding lies on added lines and its column inside the text of its line, a file finding
  names line 1.  Most rules look at one line at a time; \<open>line_rule\<close> runs such a check over the
  added lines, and \<open>line_rule_placed\<close> reduces the contract to the check.
\<close>

record added_line =
  al_newLine :: line_no
  al_text :: jstr

record rule_context =
  ctx_filePath :: jstr
  ctx_language :: jstr
  ctx_addedLines :: "added_line list"
  ctx_status :: "file_status option"
  ctx_previousPath :: "jstr option"
  ctx_sizeBytes :: "nat option"

record rule_finding =
  rf_lineStart :: line_no
  rf_lineEnd :: line_no
  rf_snippet :: "jstr option"
  rf_candidate :: "secret_candidate option"
  rf_matchStart :: "nat option"
  rf_matchLength :: "nat option"

record rule =
  rl_id :: jstr
  rl_severity :: finding_severity
  rl_title :: jstr
  rl_message :: jstr
  rl_languages :: rule_languages
  rl_isFile :: bool
  rl_skipValueFilter :: bool
  rl_test :: "rule_context \<Rightarrow> jstr + rule_finding list"

subsection \<open>Line rules\<close>

type_synonym line_check = "jstr \<Rightarrow> added_line \<Rightarrow> rule_finding option"

text \<open>\<open>for (const line of ctx.addedLines)\<close> with at most one \<open>push\<close> per line.\<close>

definition line_rule :: "line_check \<Rightarrow> rule_context \<Rightarrow> jstr + rule_finding list" where
  "line_rule check ctx = Inr (List.map_filter (check (ctx_language ctx)) (ctx_addedLines ctx))"

definition line_finding :: "added_line \<Rightarrow> jstr option \<Rightarrow> rule_finding" where
  "line_finding l snippet =
    \<lparr>rf_lineStart = al_newLine l, rf_lineEnd = al_newLine l, rf_snippet = snippet, rf_candidate = None,
     rf_matchStart = None, rf_matchLength = None\<rparr>"

definition match_finding :: "added_line \<Rightarrow> rx_match \<Rightarrow> jstr option \<Rightarrow> rule_finding" where
  "match_finding l m snippet =
    (line_finding l snippet)\<lparr>rf_matchStart := Some (rx_start m), rf_matchLength := Some (rx_end m - rx_start m)\<rparr>"

text \<open>\<open>line.text.trim().slice(0, 200)\<close>\<close>

definition line_snippet :: "added_line \<Rightarrow> jstr" where
  "line_snippet l = take 200 (trim (al_text l))"

text \<open>\<open>match[0].slice(0, n) + '****'\<close>\<close>

definition masked :: "nat \<Rightarrow> rx_match \<Rightarrow> added_line \<Rightarrow> jstr option" where
  "masked n m l = Some (take n (rx_text m (al_text l)) @ ''****'')"

subsection \<open>The contract\<close>

definition candidate_of_line :: "added_line \<Rightarrow> secret_candidate \<Rightarrow> bool" where
  "candidate_of_line l c \<longleftrightarrow> cand_line c = al_newLine l \<and> cand_raw c = al_text l \<and>
    contains (cand_raw c) (cand_value c)"

definition starts_on :: "added_line \<Rightarrow> rule_finding \<Rightarrow> bool" where
  "starts_on l f \<longleftrightarrow>
    rf_lineStart f = al_newLine l \<and>
    (case rf_matchStart f of
      None \<Rightarrow> rf_matchLength f = None
    | Some s \<Rightarrow> \<exists>n. rf_matchLength f = Some n \<and> s + n \<le> length (al_text l)) \<and>
    pred_option (candidate_of_line l) (rf_candidate f)"

definition placed_on :: "added_line list \<Rightarrow> rule_finding \<Rightarrow> bool" where
  "placed_on ls f \<longleftrightarrow> (\<exists>l \<in> set ls. starts_on l f) \<and> rf_lineEnd f \<in> al_newLine ` set ls"

definition placed_test :: "(rule_context \<Rightarrow> jstr + rule_finding list) \<Rightarrow> bool" where
  "placed_test t \<longleftrightarrow> (\<forall>ctx. case t ctx of Inl _ \<Rightarrow> False | Inr fs \<Rightarrow> \<forall>f \<in> set fs. placed_on (ctx_addedLines ctx) f)"

definition whole_file_finding :: rule_finding where
  "whole_file_finding = \<lparr>rf_lineStart = 1, rf_lineEnd = 1, rf_snippet = None, rf_candidate = None,
     rf_matchStart = None, rf_matchLength = None\<rparr>"

definition file_test :: "(rule_context \<Rightarrow> jstr + rule_finding list) \<Rightarrow> bool" where
  "file_test t \<longleftrightarrow> (\<forall>ctx. t ctx = Inr [] \<or> t ctx = Inr [whole_file_finding])"

definition lawful_rule :: "rule \<Rightarrow> bool" where
  "lawful_rule r \<longleftrightarrow> (if rl_isFile r then file_test (rl_test r) else placed_test (rl_test r))"

locale rule_set =
  fixes rules :: "rule list"
  assumes lawful: "r \<in> set rules \<Longrightarrow> lawful_rule r"
    and distinct_ids: "distinct (map rl_id rules)"
    and critical_only: "r \<in> set rules \<Longrightarrow> rl_severity r = CRITICAL"
begin

lemma no_throw: "r \<in> set rules \<Longrightarrow> \<exists>fs. rl_test r ctx = Inr fs"
  using lawful [of r] unfolding lawful_rule_def placed_test_def file_test_def
  by (metis (no_types, lifting) sum.case_eq_if sum.collapse(2))

lemma line_placed:
  assumes "r \<in> set rules" "\<not> rl_isFile r" "rl_test r ctx = Inr fs" "f \<in> set fs"
  shows "placed_on (ctx_addedLines ctx) f"
proof -
  from lawful [OF assms(1)] assms(2) have "placed_test (rl_test r)" by (simp add: lawful_rule_def)
  then have "case rl_test r ctx of Inl _ \<Rightarrow> False | Inr fs \<Rightarrow> \<forall>f \<in> set fs. placed_on (ctx_addedLines ctx) f"
    unfolding placed_test_def by blast
  with assms(3,4) show ?thesis by simp
qed

lemma file_whole:
  assumes "r \<in> set rules" "rl_isFile r" "rl_test r ctx = Inr fs" "f \<in> set fs"
  shows "f = whole_file_finding"
proof -
  from lawful [OF assms(1)] assms(2) have "file_test (rl_test r)" by (simp add: lawful_rule_def)
  then have "rl_test r ctx = Inr [] \<or> rl_test r ctx = Inr [whole_file_finding]"
    unfolding file_test_def by blast
  with assms(3,4) show ?thesis by auto
qed

end

subsection \<open>Reducing the contract to one line\<close>

lemma map_filter_iff: "y \<in> set (List.map_filter f xs) \<longleftrightarrow> (\<exists>x \<in> set xs. f x = Some y)"
  by (induction xs) (auto simp: List.map_filter_simps split: option.splits)

lemma line_finding_ok [simp]: "starts_on l (line_finding l snippet)" "rf_lineEnd (line_finding l snippet) = al_newLine l"
  by (simp_all add: starts_on_def line_finding_def)

lemma match_finding_ok:
  assumes "rx_exec p (al_text l) i = Some m"
  shows "starts_on l (match_finding l m snippet)" "rf_lineEnd (match_finding l m snippet) = al_newLine l"
  using rx_execD [OF assms] by (auto simp: starts_on_def match_finding_def line_finding_def)

text \<open>A check whose findings start and end on the line it looked at.\<close>

definition on_its_line :: "line_check \<Rightarrow> bool" where
  "on_its_line check \<longleftrightarrow> (\<forall>lang l f. check lang l = Some f \<longrightarrow> starts_on l f \<and> rf_lineEnd f = al_newLine l)"

lemma on_its_lineI:
  "(\<And>lang l f. check lang l = Some f \<Longrightarrow> starts_on l f \<and> rf_lineEnd f = al_newLine l) \<Longrightarrow> on_its_line check"
  by (simp add: on_its_line_def)

lemma line_rule_placed: "on_its_line check \<Longrightarrow> placed_test (line_rule check)"
  unfolding placed_test_def line_rule_def on_its_line_def placed_on_def
  by (fastforce simp: map_filter_iff)

end
