(* ===== verification/Secret_Rules.thy ===== *)
theory Secret_Rules
  imports Rule_Interface
begin

section \<open>The rules for credentials\<close>

text \<open>
  The files \<open>secret.*.rule.ts\<close> and \<open>provider-token.rules.ts\<close> of \<open>src/queue/rules/definitions\<close>, one
  group per file.  Most have one shape, run the pattern over the line and report the match:
  \<open>exec_check\<close>.  In the messages the dash of the source is written as two hyphens.  The group
  \<open>redaction\<close> shows what a snippet of these rules gives away.
\<close>

definition exec_check :: "rx \<Rightarrow> (rx_match \<Rightarrow> added_line \<Rightarrow> jstr option) \<Rightarrow> line_check" where
  "exec_check p snippet language l =
    map_option (\<lambda>m. match_finding l m (snippet m l)) (rx_exec p (al_text l) 0)"

definition is_alnum_dash :: "char \<Rightarrow> bool" where
  "is_alnum_dash c \<longleftrightarrow> is_alnum c \<or> c = CHR ''-''"

definition is_word_dash :: "char \<Rightarrow> bool" where
  "is_word_dash c \<longleftrightarrow> is_word c \<or> c = CHR ''-''"

definition quotes :: "char list" where
  "quotes = [CHR 0x22, CHR 0x27]"

definition all_quotes :: "char list" where
  "all_quotes = [CHR 0x22, CHR 0x27, CHR 0x60]"

subsection \<open>AWS, GitHub, GitLab, Slack, JWT, private keys\<close>

definition AWS_ACCESS_KEY_PATTERN :: rx where
  "AWS_ACCESS_KEY_PATTERN = RSeq (rlit ''AKIA'') (rtimes 16 16 (RSet is_upper_digit))"

definition secretAwsAccessKeyRule :: rule where
  "secretAwsAccessKeyRule = \<lparr>rl_id = ''secret.aws_access_key'', rl_severity = CRITICAL,
    rl_title = ''AWS access key committed'',
    rl_message =
      ''This looks like an AWS access key ID. Move it to an environment variable or secrets manager '' @
      ''and rotate the key immediately -- a key that has ever been committed to git must be treated '' @
      ''as compromised.'',
    rl_languages = AnyLanguage, rl_isFile = False, rl_skipValueFilter = True,
    rl_test = line_rule (exec_check AWS_ACCESS_KEY_PATTERN (masked 4))\<rparr>"

definition GITHUB_TOKEN_PATTERN :: rx where
  "GITHUB_TOKEN_PATTERN = rseq [rlit ''gh'', rany ''pousr'', rchar CHR ''_'', rmin 36 (RSet is_alnum)]"

definition secretGithubTokenRule :: rule where
  "secretGithubTokenRule = \<lparr>rl_id = ''secret.github_token'', rl_severity = CRITICAL,
    rl_title = ''GitHub token committed'',
    rl_message =
      ''This looks like a GitHub personal access, OAuth, user, or server token. Revoke it in GitHub '' @
      ''settings and rotate immediately -- a token committed to git must be treated as compromised.'',
    rl_languages = AnyLanguage, rl_isFile = False, rl_skipValueFilter = False,
    rl_test = line_rule (exec_check GITHUB_TOKEN_PATTERN (masked 4))\<rparr>"

definition GITLAB_TOKEN_PATTERN :: rx where
  "GITLAB_TOKEN_PATTERN = RSeq (rlit ''glpat-'') (rmin 20 (RSet is_word_dash))"

definition secretGitlabTokenRule :: rule where
  "secretGitlabTokenRule = \<lparr>rl_id = ''secret.gitlab_token'', rl_severity = CRITICAL,
    rl_title = ''GitLab personal/project access token committed'',
    rl_message =
      ''This looks like a GitLab access token. Revoke it in GitLab settings and rotate immediately '' @
      ''-- a token committed to git must be treated as compromised.'',
    rl_languages = AnyLanguage, rl_isFile = False, rl_skipValueFilter = False,
    rl_test = line_rule (exec_check GITLAB_TOKEN_PATTERN (masked 6))\<rparr>"

definition SLACK_WEBHOOK_PATTERN :: rx where
  "SLACK_WEBHOOK_PATTERN = rseq
    [rlit ''https://hooks.slack.com/services/T'', rplus (RSet is_upper_digit), rlit ''/B'', rplus (RSet is_upper_digit),
     rchar CHR ''/'', rplus (RSet is_alnum)]"

definition slack_snippet :: jstr where
  "slack_snippet = ''https://hooks.slack.com/services/****''"

definition secretSlackWebhookRule :: rule where
  "secretSlackWebhookRule = \<lparr>rl_id = ''secret.slack_webhook'', rl_severity = CRITICAL,
    rl_title = ''Slack webhook URL committed'',
    rl_message =
      ''This is a live Slack incoming webhook URL -- anyone with it can post messages to your '' @
      ''workspace. Regenerate the webhook in Slack app settings and move the URL to an environment '' @
      ''variable.'',
    rl_languages = AnyLanguage, rl_isFile = False, rl_skipValueFilter = False,
    rl_test = line_rule (exec_check SLACK_WEBHOOK_PATTERN (\<lambda>m l. Some slack_snippet))\<rparr>"

definition JWT_PATTERN :: rx where
  "JWT_PATTERN = rseq
    [rlit ''eyJ'', rmin 10 (RSet is_word_dash), rlit ''.eyJ'', rmin 10 (RSet is_word_dash), rchar CHR ''.'',
     rmin 10 (RSet is_word_dash)]"

definition secretJwtLiteralRule :: rule where
  "secretJwtLiteralRule = \<lparr>rl_id = ''secret.jwt_literal'', rl_severity = CRITICAL,
    rl_title = ''JWT literal committed'',
    rl_message =
      ''This is a literal JWT (JSON Web Token). If it is a real session/auth token it must be '' @
      ''treated as compromised -- revoke the underlying session/key and move tokens to runtime-only '' @
      ''storage, never source code.'',
    rl_languages = AnyLanguage, rl_isFile = False, rl_skipValueFilter = False,
    rl_test = line_rule (exec_check JWT_PATTERN (masked 8))\<rparr>"

definition PRIVATE_KEY_HEADER_PATTERN :: rx where
  "PRIVATE_KEY_HEADER_PATTERN = rseq
    [rlit ''-----BEGIN '', ralt [rlit ''RSA'', rlit ''EC'', rlit ''OPENSSH'', rlit ''DSA'', rlit ''PGP''],
     rlit '' PRIVATE KEY-----'']"

definition secretPrivateKeyBlockRule :: rule where
  "secretPrivateKeyBlockRule = \<lparr>rl_id = ''secret.private_key_block'', rl_severity = CRITICAL,
    rl_title = ''Private key committed'',
    rl_message =
      ''This looks like a PEM-encoded private key. Remove it from the repository and rotate the key '' @
      ''pair immediately -- a private key that has ever been committed to git must be treated as '' @
      ''compromised, history rewrite alone is not enough.'',
    rl_languages = AnyLanguage, rl_isFile = False, rl_skipValueFilter = False,
    rl_test = line_rule (exec_check PRIVATE_KEY_HEADER_PATTERN (\<lambda>m l. None))\<rparr>"

subsection \<open>An assignment of a literal\<close>

definition key_sep :: rx where "key_sep = ropt (rany ''_-'')"

definition KEY_WORDS :: rx where
  "KEY_WORDS = ralt
    [rlit_i ''SECRET'', rlit_i ''TOKEN'', rlit_i ''PASSWORD'', rlit_i ''PASSWD'', rlit_i ''PWD'',
     rseq [rlit_i ''API'', key_sep, rlit_i ''KEY''], rlit_i ''APIKEY'', rseq [rlit_i ''ACCESS'', key_sep, rlit_i ''KEY''],
     rseq [rlit_i ''PRIVATE'', key_sep, rlit_i ''KEY''], rseq [rlit_i ''CLIENT'', key_sep, rlit_i ''SECRET''],
     rlit_i ''CREDENTIAL'', rseq [rlit_i ''SIGNING'', key_sep, rlit_i ''KEY''],
     rseq [rlit_i ''WEBHOOK'', key_sep, rlit_i ''SECRET''], rseq [rlit_i ''JWT'', key_sep, rlit_i ''SECRET''],
     rseq [rlit_i ''ENCRYPTION'', key_sep, rlit_i ''KEY''], rseq [rlit_i ''AUTH'', key_sep, rlit_i ''KEY''],
     rlit_i ''BEARER'', rlit_i ''DSN'']"

definition is_key_char :: "char \<Rightarrow> bool" where
  "is_key_char c \<longleftrightarrow> is_word c \<or> c = CHR ''.'' \<or> c = CHR ''-''"

definition is_value_char :: "char \<Rightarrow> bool" where
  "is_value_char c \<longleftrightarrow> \<not> is_space c \<and> c \<notin> set (all_quotes @ ''#;,)}]'')"

definition assignment_operator :: rx where
  "assignment_operator = rseq [rspaces, ralt [rlit ''=>'', rlit '':='', rany '':=''], rspaces]"

definition ASSIGNMENT_PATTERN :: rx where
  "ASSIGNMENT_PATTERN = rseq
    [RAlt RBol (RSet (\<lambda>c. is_space c \<or> c \<in> set '',{(['')), ropt (rany quotes),
     RGroup 1 (rseq [rtimes 0 40 (RSet is_key_char), KEY_WORDS, rtimes 0 40 (RSet is_key_char)]),
     ropt (rany quotes), assignment_operator, ropt (rany all_quotes), RGroup 2 (rmin 12 (RSet is_value_char))]"

definition TRAILING_QUOTES :: rx where
  "TRAILING_QUOTES = RSeq (rplus (rany all_quotes)) REol"

definition assignment_finding :: "added_line \<Rightarrow> jstr \<Rightarrow> jstr \<Rightarrow> rule_finding" where
  "assignment_finding l key v =
    (line_finding l (Some (take 120 (key @ ''='' @ take 4 v @ ''****''))))
      \<lparr>rf_candidate := Some \<lparr>cand_ruleId = ''secret.assignment_literal'', cand_line = al_newLine l,
        cand_key = Some key, cand_value = v, cand_raw = al_text l\<rparr>\<rparr>"

definition assignment_check :: line_check where
  "assignment_check language l =
    (case rx_exec ASSIGNMENT_PATTERN (al_text l) 0 of
      None \<Rightarrow> None
    | Some m \<Rightarrow>
       (case (rx_group 1 m (al_text l), rx_group 2 m (al_text l)) of
         (Some key, Some rawValue) \<Rightarrow>
           if key = [] \<or> rawValue = [] then None
           else (let v = rx_replace TRAILING_QUOTES [] rawValue
                 in if length v < 12 then None else Some (assignment_finding l key v))
       | _ \<Rightarrow> None))"

definition secretAssignmentLiteralRule :: rule where
  "secretAssignmentLiteralRule = \<lparr>rl_id = ''secret.assignment_literal'', rl_severity = CRITICAL,
    rl_title = ''Hardcoded credential'',
    rl_message =
      ''This assigns what looks like a real credential as a literal value. Move it to an environment '' @
      ''variable or secrets manager and rotate it -- a credential committed to git must be treated '' @
      ''as compromised.'',
    rl_languages = AnyLanguage, rl_isFile = False, rl_skipValueFilter = False,
    rl_test = line_rule assignment_check\<rparr>"

subsection \<open>Passwords: in code, in database URLs, as fallbacks\<close>

definition PASSWORD_ASSIGNMENT_PATTERN :: rx where
  "PASSWORD_ASSIGNMENT_PATTERN = rseq
    [ralt [rlit_i ''password'', rlit_i ''passwd'', rlit_i ''pwd''], rspaces, rany '':='', rspaces, rany quotes,
     RGroup 1 (rmin 4 (rnone quotes)), rany quotes]"

definition angle_placeholder :: rx where
  "angle_placeholder = rseq [rchar CHR ''<'', rstar rdot, rchar CHR ''>'']"

definition brace_placeholder :: rx where
  "brace_placeholder = rseq [rlit ''${'', rstar rdot, rchar CHR ''}'']"

definition PASSWORD_PLACEHOLDER_PATTERN :: rx where
  "PASSWORD_PLACEHOLDER_PATTERN = rwhole
    [ralt [rlit_i ''changeme'', rlit_i ''example'', RSeq (rlit_i ''xx'') (rplus (rchar_i CHR ''x'')), angle_placeholder,
      brace_placeholder, rseq [rlit_i ''your'', key_sep, rlit_i ''password'']]]"

definition isNotAPassword :: "jstr \<Rightarrow> bool" where
  "isNotAPassword v \<longleftrightarrow>
    rx_test PASSWORD_PLACEHOLDER_PATTERN v \<or> isTemplateValue v \<or> isPlaceholderValue v None \<or>
    isStateIdentifier v \<or> hasStructuralPunctuation v"

definition hardcoded_password_check :: line_check where
  "hardcoded_password_check language l =
    (case rx_exec PASSWORD_ASSIGNMENT_PATTERN (al_text l) 0 of
      None \<Rightarrow> None
    | Some m \<Rightarrow>
       (case rx_group 1 m (al_text l) of
         None \<Rightarrow> None
       | Some v \<Rightarrow> if isNotAPassword v then None else Some (match_finding l m None)))"

definition secretHardcodedPasswordRule :: rule where
  "secretHardcodedPasswordRule = \<lparr>rl_id = ''secret.hardcoded_password'', rl_severity = CRITICAL,
    rl_title = ''Hardcoded password'',
    rl_message =
      ''This assigns a literal password value in code. Move it to an environment variable or secrets '' @
      ''manager, and rotate the credential if it is real -- a password committed to git must be '' @
      ''treated as compromised.'',
    rl_languages = AnyLanguage, rl_isFile = False, rl_skipValueFilter = False,
    rl_test = line_rule hardcoded_password_check\<rparr>"

definition DB_SCHEMES :: rx where
  "DB_SCHEMES = ralt [rlit ''postgresql'', rlit ''postgres'', rlit ''mysql'',
     RSeq (rlit ''mongodb'') (ropt (rlit ''+srv'')), rlit ''redis'', rlit ''amqp'']"

definition DB_URL_PATTERN :: rx where
  "DB_URL_PATTERN = rseq
    [RGroup 1 DB_SCHEMES, rlit ''://'', rplus (RSet (\<lambda>c. c \<noteq> CHR '':'' \<and> \<not> is_space c)), rchar CHR '':'',
     RGroup 2 (rmin 4 (RSet (\<lambda>c. c \<noteq> CHR ''@'' \<and> \<not> is_space c))), rchar CHR ''@'']"

definition DB_PLACEHOLDER_PATTERN :: rx where
  "DB_PLACEHOLDER_PATTERN = rwhole
    [ralt [angle_placeholder, brace_placeholder, rlit_i ''password'', rlit_i ''changeme'', rplus (rchar CHR ''*'')]]"

definition db_url_check :: line_check where
  "db_url_check language l =
    (case rx_exec DB_URL_PATTERN (al_text l) 0 of
      None \<Rightarrow> None
    | Some m \<Rightarrow>
       (case (rx_group 1 m (al_text l), rx_group 2 m (al_text l)) of
         (Some scheme, Some password) \<Rightarrow>
           if rx_test DB_PLACEHOLDER_PATTERN password \<or> isTemplateValue password \<or>
              isPlaceholderValue password None \<or> isStateIdentifier password
           then None else Some (match_finding l m (Some (scheme @ ''://****:****@'')))
       | _ \<Rightarrow> None))"

definition secretDbUrlWithPasswordRule :: rule where
  "secretDbUrlWithPasswordRule = \<lparr>rl_id = ''secret.db_url_with_password'', rl_severity = CRITICAL,
    rl_title = ''Database connection string with embedded password'',
    rl_message =
      ''This connection string embeds a plaintext password. Move it to an environment variable and '' @
      ''rotate the credential -- a password committed to git must be treated as compromised.'',
    rl_languages = AnyLanguage, rl_isFile = False, rl_skipValueFilter = False,
    rl_test = line_rule db_url_check\<rparr>"

definition JS_FALLBACK_PATTERN :: rx where
  "JS_FALLBACK_PATTERN = rseq
    [rlit ''process.env'',
     RAlt (RSeq (rchar CHR ''.'') (RGroup 1 (rplus (RSet is_word))))
       (rseq [rchar CHR ''['', rspaces, rany quotes, RGroup 2 (rplus (RSet is_word)), rany quotes, rspaces, rchar CHR '']'']),
     rspaces, RAlt (rlit ''??'') (rlit ''||''), rspaces, rany all_quotes, RGroup 3 (rmin 4 (rnone all_quotes)),
     rany all_quotes]"

definition PY_FALLBACK_PATTERN :: rx where
  "PY_FALLBACK_PATTERN = rseq
    [rlit ''os.'', RAlt (rlit ''getenv'') (rlit ''environ.get''), rchar CHR ''('', rspaces, rany quotes,
     RGroup 1 (rplus (RSet is_word)), rany quotes, rspaces, rchar CHR '','', rspaces, rany quotes,
     RGroup 2 (rmin 4 (rnone quotes)), rany quotes]"

definition SECRET_NAME_PATTERN :: rx where
  "SECRET_NAME_PATTERN = ralt
    [rlit_i ''SECRET'', rlit_i ''TOKEN'', rlit_i ''PASSWORD'', rlit_i ''PASSWD'', rlit_i ''PRIVATE'', rlit_i ''CREDENTIAL'',
     rseq [rlit_i ''API'', ropt (rchar CHR ''_''), rlit_i ''KEY''],
     rseq [rlit_i ''ACCESS'', ropt (rchar CHR ''_''), rlit_i ''KEY''],
     rseq [rlit_i ''SIGNING'', ropt (rchar CHR ''_''), rlit_i ''KEY''],
     rseq [rlit_i ''ENCRYPTION'', ropt (rchar CHR ''_''), rlit_i ''KEY'']]"

definition env_fallback_check :: line_check where
  "env_fallback_check language l =
    (case rx_exec (if language = ''py'' then PY_FALLBACK_PATTERN else JS_FALLBACK_PATTERN) (al_text l) 0 of
      None \<Rightarrow> None
    | Some m \<Rightarrow>
       (case (case rx_group 1 m (al_text l) of Some n \<Rightarrow> Some n | None \<Rightarrow> rx_group 2 m (al_text l)) of
         None \<Rightarrow> None
       | Some name \<Rightarrow>
           if name = [] \<or> \<not> rx_test SECRET_NAME_PATTERN name then None else Some (match_finding l m None)))"

definition secretEnvFallbackRule :: rule where
  "secretEnvFallbackRule = \<lparr>rl_id = ''secret.env_fallback'', rl_severity = CRITICAL,
    rl_title = ''Secret with a hard-coded fallback'',
    rl_message =
      ''This reads a secret from the environment but falls back to a literal value, so a missing '' @
      ''variable in production silently runs on a secret that is in git. Fail at startup when the '' @
      ''variable is missing instead of falling back.'',
    rl_languages = Languages [''js'', ''py''], rl_isFile = False, rl_skipValueFilter = False,
    rl_test = line_rule env_fallback_check\<rparr>"

subsection \<open>A credential file\<close>

definition SENSITIVE_PATH_GLOBS :: "jstr list" where
  "SENSITIVE_PATH_GLOBS =
   [''**/*.pem'', ''**/*.key'', ''**/*.p12'', ''**/*.pfx'', ''**/*.jks'', ''**/*.keystore'', ''**/*.asc'',
    ''**/id_rsa'', ''**/id_dsa'', ''**/id_ecdsa'', ''**/id_ed25519'', ''**/*.ppk'', ''**/service-account*.json'', ''**/*-credentials.json'',
    ''**/credentials.json'', ''**/.npmrc'', ''**/.pypirc'', ''**/.netrc'', ''**/.htpasswd'', ''**/*.kdbx'', ''**/secrets.yml'',
    ''**/secrets.yaml'', ''**/secrets.json'']"

definition PUBLIC_KEY_GLOB :: jstr where "PUBLIC_KEY_GLOB = ''**/*.pub''"

definition EXEMPT_PATH_WORDS :: "jstr list" where
  "EXEMPT_PATH_WORDS = [''test'', ''fixture'', ''example'', ''sample'', ''mock'']"

definition sensitive_file_test :: "glob_match \<Rightarrow> rule_context \<Rightarrow> jstr + rule_finding list" where
  "sensitive_file_test mm ctx =
    (if ctx_status ctx \<noteq> Some Added \<and> ctx_status ctx \<noteq> Some Renamed then Inr []
     else if mm (ctx_filePath ctx) PUBLIC_KEY_GLOB then Inr []
     else if \<exists>word \<in> set EXEMPT_PATH_WORDS. contains (to_lower (ctx_filePath ctx)) word then Inr []
     else if \<not> (\<exists>g \<in> set SENSITIVE_PATH_GLOBS. mm (ctx_filePath ctx) g) then Inr []
     else Inr [whole_file_finding])"

definition secretSensitiveFileAddedRule :: "glob_match \<Rightarrow> rule" where
  "secretSensitiveFileAddedRule mm = \<lparr>rl_id = ''secret.sensitive_file_added'', rl_severity = CRITICAL,
    rl_title = ''Credential file added'',
    rl_message =
      ''A credential file was added to the repository. Remove it from git, add it to .gitignore, and '' @
      ''treat its contents as leaked -- anything committed to git history must be rotated, even if '' @
      ''the commit is reverted.'',
    rl_languages = AnyLanguage, rl_isFile = True, rl_skipValueFilter = False,
    rl_test = sensitive_file_test mm\<rparr>"

subsection \<open>Tokens with a provider's prefix\<close>

record provider_token_spec =
  pt_id :: jstr
  pt_title :: jstr
  pt_message :: jstr
  pt_pattern :: rx
  pt_prefixLength :: "nat option"
  pt_requiresLineContains :: "jstr option"

definition DEFAULT_PREFIX_LENGTH :: nat where "DEFAULT_PREFIX_LENGTH = 4"

definition prefix_length :: "provider_token_spec \<Rightarrow> nat" where
  "prefix_length spec = (case pt_prefixLength spec of Some n \<Rightarrow> n | None \<Rightarrow> DEFAULT_PREFIX_LENGTH)"

definition provider_check :: "provider_token_spec \<Rightarrow> line_check" where
  "provider_check spec language l =
    (case pt_requiresLineContains spec of
      Some word \<Rightarrow>
        if word \<noteq> [] \<and> \<not> contains (to_lower (al_text l)) (to_lower word) then None
        else exec_check (pt_pattern spec) (masked (prefix_length spec)) language l
    | None \<Rightarrow> exec_check (pt_pattern spec) (masked (prefix_length spec)) language l)"

definition providerTokenRule :: "provider_token_spec \<Rightarrow> rule" where
  "providerTokenRule spec = \<lparr>rl_id = pt_id spec, rl_severity = CRITICAL, rl_title = pt_title spec,
    rl_message = pt_message spec, rl_languages = AnyLanguage, rl_isFile = False, rl_skipValueFilter = True,
    rl_test = line_rule (provider_check spec)\<rparr>"

definition ROTATE :: "jstr \<Rightarrow> jstr \<Rightarrow> jstr" where
  "ROTATE what place = ''This looks like '' @ what @ ''. Revoke it in '' @ place @
    '' and rotate immediately -- a credential committed to git must be treated as compromised, even if the commit is reverted.''"

definition provider_spec :: "jstr \<Rightarrow> jstr \<Rightarrow> jstr \<Rightarrow> rx \<Rightarrow> nat option \<Rightarrow> jstr option \<Rightarrow> provider_token_spec" where
  "provider_spec tokenId title message r prefixLength required =
    \<lparr>pt_id = tokenId, pt_title = title, pt_message = message, pt_pattern = r, pt_prefixLength = prefixLength,
     pt_requiresLineContains = required\<rparr>"

definition provider_token_specs :: "provider_token_spec list" where
  "provider_token_specs =
   [provider_spec ''secret.github_fine_grained'' ''GitHub fine-grained token committed''
      (ROTATE ''a GitHub fine-grained personal access token'' ''GitHub settings'')
      (RSeq (rlit ''github_pat_'') (rtimes 82 82 (RSet is_word)))
      (Some 11) None,
    provider_spec ''secret.gitlab_runner_token'' ''GitLab runner token committed''
      (ROTATE ''a GitLab runner authentication token'' ''GitLab CI/CD settings'')
      (RSeq (rlit ''glrt-'') (rmin 20 (RSet is_word_dash)))
      (Some 5) None,
    provider_spec ''secret.slack_token'' ''Slack token committed''
      (ROTATE ''a Slack API token'' ''your Slack app settings'')
      (rseq [rlit ''xox'', rany ''abprs'', rchar CHR ''-'', rmin 10 (RSet is_alnum_dash)])
      (Some 5) None,
    provider_spec ''secret.stripe_live'' ''Stripe live key committed''
      (ROTATE ''a Stripe live secret key'' ''the Stripe dashboard'')
      (rseq [RAlt (rlit ''sk'') (rlit ''rk''), rlit ''_live_'', rmin 20 (RSet is_alnum)])
      (Some 8) None,
    provider_spec ''secret.google_api_key'' ''Google API key committed''
      (ROTATE ''a Google API key'' ''the Google Cloud console'')
      (RSeq (rlit ''AIza'') (rtimes 35 35 (RSet is_word_dash)))
      None None,
    provider_spec ''secret.anthropic_key'' ''Anthropic API key committed''
      (ROTATE ''an Anthropic API key'' ''the Anthropic console'')
      (RSeq (rlit ''sk-ant-'') (rmin 20 (RSet is_word_dash)))
      (Some 7) None,
    provider_spec ''secret.openai_key'' ''OpenAI API key committed''
      (ROTATE ''an OpenAI API key'' ''the OpenAI dashboard'')
      (rseq [rlit ''sk-'', RNotAhead (rlit ''ant-''), ropt (rlit ''proj-''), rmin 20 (RSet is_word_dash)])
      (Some 3) None,
    provider_spec ''secret.sendgrid_key'' ''SendGrid API key committed''
      (ROTATE ''a SendGrid API key'' ''the SendGrid dashboard'')
      (rseq [rlit ''SG.'', rtimes 22 22 (RSet is_word_dash), rchar CHR ''.'', rtimes 43 43 (RSet is_word_dash)])
      (Some 3) None,
    provider_spec ''secret.twilio_key'' ''Twilio API key committed''
      (ROTATE ''a Twilio API key SID'' ''the Twilio console'')
      (RSeq (rlit ''SK'') (rtimes 32 32 (rany ''0123456789abcdef'')))
      None (Some ''twilio''),
    provider_spec ''secret.npm_token'' ''npm token committed''
      (ROTATE ''an npm access token'' ''your npm account settings'')
      (RSeq (rlit ''npm_'') (rtimes 36 36 (RSet is_alnum)))
      None None,
    provider_spec ''secret.telegram_bot'' ''Telegram bot token committed''
      (ROTATE ''a Telegram bot token'' ''BotFather'')
      (rseq [RWordB, rtimes 8 10 rdigit, rchar CHR '':'', rtimes 35 35 (RSet is_word_dash), RWordB])
      (Some 6) None,
    provider_spec ''secret.azure_storage_key'' ''Azure storage key committed''
      (ROTATE ''an Azure Storage account key'' ''the Azure portal'')
      (RSeq (rlit ''AccountKey='') (rmin 86 (RSet (\<lambda>c. is_alnum c \<or> c \<in> set ''+/=''))))
      (Some 11) None,
    provider_spec ''secret.discord_webhook'' ''Discord webhook committed''
      (ROTATE ''a Discord webhook URL, which lets anyone post to that channel'' ''the channel's integration settings'')
      (rseq [rlit ''https://discord'', ropt (rlit ''app''), rlit ''.com/api/webhooks/'', rplus rdigit, rchar CHR ''/'',
      rmin 60 (RSet is_word_dash)])
      (Some 24) None]"

definition providerTokenRules :: "rule list" where
  "providerTokenRules = map providerTokenRule provider_token_specs"

subsection \<open>What a capture holds\<close>

primrec rx_groups :: "rx \<Rightarrow> nat set" where
  "rx_groups REps = {}"
| "rx_groups (RSet P) = {}"
| "rx_groups (RSeq a b) = rx_groups a \<union> rx_groups b"
| "rx_groups (RAlt a b) = rx_groups a \<union> rx_groups b"
| "rx_groups (RRep r lo hi g) = rx_groups r"
| "rx_groups (RGroup n r) = insert n (rx_groups r)"
| "rx_groups RBol = {}"
| "rx_groups REol = {}"
| "rx_groups RWordB = {}"
| "rx_groups (RNotAhead r) = {}"

lemma rep_run_rel:
  assumes step: "\<And>st st'. st' \<in> set (f st) \<Longrightarrow> R st st'"
    and refl: "\<And>st. R st st" and trans: "\<And>a b c. R a b \<Longrightarrow> R b c \<Longrightarrow> R a c"
    and "st' \<in> set (rep_run f fuel lo hi g st)"
  shows "R st st'"
  using assms(4)
proof (induction fuel arbitrary: lo hi st)
  case (Suc fuel)
  show ?case
  proof (cases "hi = Some 0 \<or> (lo = 0 \<and> st' = st)")
    case True
    with Suc.prems refl show ?thesis unfolding rep_run_iff by (auto split: if_splits)
  next
    case False
    with Suc.prems obtain st1 where "st1 \<in> set (f st)"
      "st' \<in> set (rep_run f fuel (lo - 1) (map_option (\<lambda>n. n - 1) hi) g st1)"
      unfolding rep_run_iff by auto
    with step Suc.IH trans show ?thesis by blast
  qed
qed simp

lemma rx_run_keeps:
  assumes "n \<notin> rx_groups r" "st' \<in> set (rx_run r s st)"
  shows "map_of (snd st') n = map_of (snd st) n"
  using assms
proof (induction r arbitrary: st st')
  case (RSeq a b)
  then obtain st1 where "st1 \<in> set (rx_run a s st)" "st' \<in> set (rx_run b s st1)" by auto
  with RSeq show ?case by fastforce
next
  case (RRep r lo hi g)
  have "st' \<in> set (rep_run (rx_run r s) (Suc (lo + (length s - fst st))) lo hi g st)"
    using RRep.prems(2) by (simp del: rep_run.simps)
  from rep_run_rel [where R = "\<lambda>a b. map_of (snd b) n = map_of (snd a) n", OF _ _ _ this]
  show ?case using RRep by fastforce
next
  case (RAlt a b)
  then have "n \<notin> rx_groups a" "n \<notin> rx_groups b" "st' \<in> set (rx_run a s st) \<or> st' \<in> set (rx_run b s st)"
    by simp_all
  with RAlt.IH show ?case by blast
qed (auto split: if_splits)

lemma leading_group:
  assumes "rx_exec (RSeq (RGroup n a) b) s i = Some m" "n \<notin> rx_groups b"
  shows "\<exists>st \<in> set (rx_run a s (rx_start m, [])). rx_group n m s = Some (slice s (rx_start m) (fst st))"
proof -
  from rx_execD(4) [OF assms(1)] obtain st where st: "st \<in> set (rx_run a s (rx_start m, []))"
    and m: "snd m \<in> set (rx_run b s (fst st, (n, (rx_start m, fst st)) # snd st))" by auto
  from rx_run_keeps [OF assms(2) m] have "rx_group n m s = Some (slice s (rx_start m) (fst st))"
    by (simp add: rx_group_def)
  with st show ?thesis by blast
qed

lemma slice_over:
  assumes "rx_over Q r" "st' \<in> set (rx_run r s st)" "fst st' \<le> length s" "c \<in> set (slice s (fst st) (fst st'))"
  shows "Q c"
proof -
  from assms(4) obtain k where "k < fst st' - fst st" "c = s ! (fst st + k)"
    by (auto simp: slice_def in_set_conv_nth)
  with rx_run_over [OF assms(1,2), of "fst st + k"] show ?thesis by simp
qed

lemma contains_slice:
  assumes "i \<le> length s"
  shows "contains s (take n (slice s i j))"
proof -
  have "starts_at s i (take n (slice s i j))"
    by (auto simp: starts_at_def slice_def min_def)
  with assms show ?thesis
    unfolding contains_def index_of_def by (auto simp: find_None_iff intro!: exI [of _ i])
qed

definition caps_within :: "jstr \<Rightarrow> rx_state \<Rightarrow> bool" where
  "caps_within s st \<longleftrightarrow> fst st \<le> length s \<and> (\<forall>(n, i, j) \<in> set (snd st). i \<le> length s)"

lemma rx_run_caps:
  assumes "caps_within s st" "st' \<in> set (rx_run r s st)"
  shows "caps_within s st'"
  using assms
proof (induction r arbitrary: st st')
  case (RSet P)
  then show ?case by (auto simp: caps_within_def split: if_splits)
next
  case (RSeq a b)
  from RSeq.prems(2) obtain st1 where "st1 \<in> set (rx_run a s st)" "st' \<in> set (rx_run b s st1)" by auto
  with RSeq.IH RSeq.prems(1) show ?case by blast
next
  case (RAlt a b)
  from RAlt.prems(2) have "st' \<in> set (rx_run a s st) \<or> st' \<in> set (rx_run b s st)" by simp
  with RAlt.IH RAlt.prems(1) show ?case by blast
next
  case (RRep r lo hi g)
  have "st' \<in> set (rep_run (rx_run r s) (Suc (lo + (length s - fst st))) lo hi g st)"
    using RRep.prems(2) by (simp del: rep_run.simps)
  from rep_run_rel [where R = "\<lambda>a b. caps_within s a \<longrightarrow> caps_within s b", OF _ _ _ this]
  show ?case using RRep by blast
next
  case (RGroup n r)
  then obtain st1 where st1: "st1 \<in> set (rx_run r s st)"
    and st': "st' = (fst st1, (n, (fst st, fst st1)) # snd st1)" by auto
  from RGroup.IH [OF RGroup.prems(1) st1] RGroup.prems(1) show ?case by (simp add: caps_within_def st')
qed (auto split: if_splits)

lemma rx_group_slice:
  assumes "rx_exec r s 0 = Some m" "rx_group n m s = Some x"
  shows "\<exists>i j. i \<le> length s \<and> x = slice s i j"
proof -
  note b = rx_execD [OF assms(1)]
  have "caps_within s (rx_start m, [])" using b by (auto simp: caps_within_def)
  from rx_run_caps [OF this b(4)] have "\<forall>(n, i, j) \<in> set (snd (snd m)). i \<le> length s"
    by (simp add: caps_within_def)
  with assms(2) show ?thesis
    by (auto simp: rx_group_def split: option.splits dest!: map_of_SomeD)
qed

lemma rx_replace_trailing:
  "\<exists>n. rx_replace (RSeq p REol) [] v = take n v"
proof (cases "rx_exec (RSeq p REol) v 0")
  case None
  then show ?thesis by (auto simp: rx_replace_def intro: exI [of _ "length v"])
next
  case (Some m)
  from rx_execD(4) [OF Some] have "rx_end m = length v"
    by (auto simp: rx_end_def split: if_splits)
  with Some show ?thesis by (auto simp: rx_replace_def)
qed

subsection \<open>Every check stays on its line\<close>

lemma exec_check_on_its_line: "on_its_line (exec_check p snippet)"
  by (rule on_its_lineI) (auto simp: exec_check_def match_finding_ok)

lemma assignment_check_Some:
  assumes "assignment_check language l = Some f"
  shows "\<exists>key v. f = assignment_finding l key v \<and> 12 \<le> length v \<and> contains (al_text l) v"
proof -
  from assms obtain m key raw where m: "rx_exec ASSIGNMENT_PATTERN (al_text l) 0 = Some m"
    and raw: "rx_group 2 m (al_text l) = Some raw"
    and f: "f = assignment_finding l key (rx_replace TRAILING_QUOTES [] raw)" "12 \<le> length (rx_replace TRAILING_QUOTES [] raw)"
    by (auto simp: assignment_check_def Let_def split: option.splits if_splits)
  from rx_group_slice [OF m raw] obtain i j where "i \<le> length (al_text l)" "raw = slice (al_text l) i j" by blast
  moreover from rx_replace_trailing obtain n where "rx_replace TRAILING_QUOTES [] raw = take n raw"
    unfolding TRAILING_QUOTES_def by blast
  ultimately have "contains (al_text l) (rx_replace TRAILING_QUOTES [] raw)" by (simp add: contains_slice)
  with f show ?thesis by blast
qed

lemma assignment_check_on_its_line: "on_its_line assignment_check"
proof (rule on_its_lineI)
  fix language l f
  assume "assignment_check language l = Some f"
  from assignment_check_Some [OF this]
  show "starts_on l f \<and> rf_lineEnd f = al_newLine l"
    by (auto simp: assignment_finding_def line_finding_def starts_on_def candidate_of_line_def)
qed

lemma hardcoded_password_check_on_its_line: "on_its_line hardcoded_password_check"
  by (rule on_its_lineI)
    (auto simp: hardcoded_password_check_def match_finding_ok split: option.splits if_splits)

lemma db_url_check_on_its_line: "on_its_line db_url_check"
  by (rule on_its_lineI) (auto simp: db_url_check_def match_finding_ok split: option.splits if_splits)

lemma env_fallback_check_on_its_line: "on_its_line env_fallback_check"
  by (rule on_its_lineI)
    (auto simp: env_fallback_check_def match_finding_ok split: option.splits if_splits)

lemma provider_check_on_its_line: "on_its_line (provider_check spec)"
  using exec_check_on_its_line unfolding on_its_line_def provider_check_def
  by (auto split: option.splits if_splits)

lemmas secret_checks_on_line = exec_check_on_its_line assignment_check_on_its_line
  hardcoded_password_check_on_its_line db_url_check_on_its_line env_fallback_check_on_its_line
  provider_check_on_its_line

lemma sensitive_file_test_file: "file_test (sensitive_file_test mm)"
  by (simp add: file_test_def sensitive_file_test_def)

subsection \<open>Redaction\<close>

text \<open>
  What a snippet may show: nothing, a constant, the scheme of a URL, the key and four
  characters of a value of at least twelve, or a beginning of the match that leaves out at
  least ten characters.
\<close>

definition scheme_char :: "char \<Rightarrow> bool" where
  "scheme_char c \<longleftrightarrow> is_lower c \<or> c = CHR ''+''"

definition redacted :: "added_line \<Rightarrow> rule_finding \<Rightarrow> bool" where
  "redacted l f \<longleftrightarrow>
    (case rf_snippet f of
      None \<Rightarrow> True
    | Some s \<Rightarrow>
        s = slack_snippet \<or>
        (\<exists>scheme. (\<forall>c \<in> set scheme. scheme_char c) \<and> s = scheme @ ''://****:****@'') \<or>
        (\<exists>c key. rf_candidate f = Some c \<and> cand_key c = Some key \<and> 12 \<le> length (cand_value c) \<and>
          s = take 120 (key @ ''='' @ take 4 (cand_value c) @ ''****'')) \<or>
        (\<exists>start n k. rf_matchStart f = Some start \<and> rf_matchLength f = Some n \<and> k + 10 \<le> n \<and>
          s = take k (slice (al_text l) start (start + n)) @ ''****''))"

definition redacting :: "line_check \<Rightarrow> bool" where
  "redacting check \<longleftrightarrow> (\<forall>lang l f. check lang l = Some f \<longrightarrow> redacted l f)"

lemma masked_redacting:
  assumes "n + 10 \<le> rx_width p"
  shows "redacting (exec_check p (masked n))"
proof -
  have "redacted l (match_finding l m (masked n m l))" if m: "rx_exec p (al_text l) 0 = Some m" for l m
  proof -
    from rx_execD(2) [OF m] have "rx_start m + (rx_end m - rx_start m) = rx_end m" "n + 10 \<le> rx_end m - rx_start m"
      using assms by linarith+
    then show ?thesis
      by (auto simp: redacted_def match_finding_def line_finding_def masked_def rx_text_def rx_start_def rx_end_def)
  qed
  then show ?thesis by (auto simp: redacting_def exec_check_def)
qed

lemma rx_width_lit [simp]: "rx_width (rlit p) = length p"
  by (induction p) auto

lemma constant_redacting:
  "redacting (exec_check p (\<lambda>m l. None))" "redacting (exec_check p (\<lambda>m l. Some slack_snippet))"
  by (auto simp: redacting_def exec_check_def redacted_def match_finding_def line_finding_def)

lemma unshown_redacting:
  "redacting hardcoded_password_check" "redacting env_fallback_check"
  by (auto simp: redacting_def hardcoded_password_check_def env_fallback_check_def redacted_def match_finding_def
      line_finding_def split: option.splits if_splits)

lemma assignment_redacting: "redacting assignment_check"
  unfolding redacting_def
  by (auto dest!: assignment_check_Some simp: redacted_def assignment_finding_def line_finding_def)

lemma rx_over_lit [simp]: "rx_over Q (rlit p) \<longleftrightarrow> (\<forall>c \<in> set p. Q c)"
  by (induction p) auto

lemma rx_groups_lit [simp]: "rx_groups (rlit p) = {}"
  by (induction p) auto

lemma DB_SCHEMES_over: "rx_over scheme_char DB_SCHEMES"
  by (simp add: DB_SCHEMES_def scheme_char_def is_lower_def)

lemma db_url_redacting: "redacting db_url_check"
proof -
  have "redacted l f" if "db_url_check language l = Some f" for language l f
  proof -
    from that obtain m scheme where m: "rx_exec DB_URL_PATTERN (al_text l) 0 = Some m"
      and scheme: "rx_group 1 m (al_text l) = Some scheme"
      and f: "f = match_finding l m (Some (scheme @ ''://****:****@''))"
      by (auto simp: db_url_check_def split: option.splits if_splits)
    from rx_execD(1-3) [OF m] have in_line: "rx_start m \<le> length (al_text l)" by linarith
    have "scheme_char c" if "c \<in> set scheme" for c
    proof -
      have "\<exists>st \<in> set (rx_run DB_SCHEMES (al_text l) (rx_start m, [])).
          rx_group 1 m (al_text l) = Some (slice (al_text l) (rx_start m) (fst st))"
        by (rule leading_group [OF m [unfolded DB_URL_PATTERN_def rseq.simps]]) simp
      with scheme obtain st where st: "st \<in> set (rx_run DB_SCHEMES (al_text l) (rx_start m, []))"
        "scheme = slice (al_text l) (rx_start m) (fst st)" by auto
      from slice_over [OF DB_SCHEMES_over st(1)] forwardD(2) [OF rx_run_forward st(1)] in_line that st(2)
      show ?thesis by simp
    qed
    then show ?thesis
      unfolding redacted_def f match_finding_def line_finding_def by auto
  qed
  then show ?thesis by (simp add: redacting_def)
qed

lemma provider_specs_withhold:
  "\<forall>spec \<in> set provider_token_specs. prefix_length spec + 10 \<le> rx_width (pt_pattern spec)"
  by (simp add: provider_token_specs_def provider_spec_def prefix_length_def DEFAULT_PREFIX_LENGTH_def rep_min_def)

lemma provider_redacting: "spec \<in> set provider_token_specs \<Longrightarrow> redacting (provider_check spec)"
  using masked_redacting provider_specs_withhold unfolding redacting_def provider_check_def
  by (auto split: option.splits if_splits)

lemma line_rule_redacting:
  assumes "on_its_line check" "redacting check" "line_rule check ctx = Inr fs" "f \<in> set fs"
  shows "\<exists>l \<in> set (ctx_addedLines ctx). rf_lineStart f = al_newLine l \<and> redacted l f"
proof -
  from assms(3,4) obtain l where "l \<in> set (ctx_addedLines ctx)" "check (ctx_language ctx) l = Some f"
    by (auto simp: line_rule_def map_filter_iff)
  with assms(1,2) show ?thesis unfolding on_its_line_def redacting_def starts_on_def by blast
qed

lemma masked_rules_redacting:
  "redacting (exec_check AWS_ACCESS_KEY_PATTERN (masked 4))"
  "redacting (exec_check GITHUB_TOKEN_PATTERN (masked 4))"
  "redacting (exec_check GITLAB_TOKEN_PATTERN (masked 6))"
  "redacting (exec_check JWT_PATTERN (masked 8))"
  by (rule masked_redacting, simp add: AWS_ACCESS_KEY_PATTERN_def GITHUB_TOKEN_PATTERN_def GITLAB_TOKEN_PATTERN_def
      JWT_PATTERN_def rep_min_def)+

lemmas secret_checks_redacting = masked_rules_redacting constant_redacting unshown_redacting assignment_redacting
  db_url_redacting

end
