(* ===== verification/Rule_Runner.thy ===== *)
theory Rule_Runner
  imports Code_Rules
begin

section \<open>Running the rules over one file\<close>

text \<open>
  \<open>src/queue/rules/rule-runner.ts\<close>.  The clock is a parameter: \<open>cost r ctx\<close> is what
  \<open>Date.now()\<close> measures around the rule \<open>r\<close> on \<open>ctx\<close>.  The budget is threaded through the files
  of a scan, so the elapsed time goes in and comes out.  A hit extends a finding, as
  \<open>RuleHit\<close> extends \<open>RuleFinding\<close>; the object the code builds names no candidate.
\<close>

record finding_identity =
  fi_key :: jstr
  fi_valuePrefix :: jstr
  fi_valueLength :: nat

record rule_hit = rule_finding +
  rh_ruleId :: jstr
  rh_severity :: finding_severity
  rh_title :: jstr
  rh_message :: jstr
  rh_identity :: "finding_identity option"
  rh_match :: "(nat \<times> nat) option"

record rule_crash =
  rc_ruleId :: jstr
  rc_errorName :: jstr

record filtered_candidate =
  fc_ruleId :: jstr
  fc_line :: line_no
  fc_reason :: filter_reason

record run_result =
  rr_hits :: "rule_hit list"
  rr_crashes :: "rule_crash list"
  rr_filtered :: "filtered_candidate list"
  rr_ruleRuns :: nat
  rr_budgetExceeded :: bool

definition MAX_LINE_LENGTH :: nat where "MAX_LINE_LENGTH = 2000"
definition RULE_BUDGET_MS :: int where "RULE_BUDGET_MS = 5000"

type_synonym rule_cost = "rule \<Rightarrow> rule_context \<Rightarrow> int"

subsection \<open>One finding\<close>

definition matchPosition :: "rule_finding \<Rightarrow> (nat \<times> nat) option" where
  "matchPosition f =
    (case (rf_matchStart f, rf_matchLength f) of
      (Some s, Some n) \<Rightarrow> Some (s, n)
    | _ \<Rightarrow>
       (case rf_candidate f of
         None \<Rightarrow> None
       | Some c \<Rightarrow> map_option (\<lambda>i. (i, length (cand_value c))) (index_of (cand_raw c) (cand_value c) 0)))"

definition identity_of :: "secret_candidate \<Rightarrow> finding_identity" where
  "identity_of c = \<lparr>fi_key = (case cand_key c of Some k \<Rightarrow> k | None \<Rightarrow> []), fi_valuePrefix = take 4 (cand_value c),
    fi_valueLength = length (cand_value c)\<rparr>"

definition hit_of :: "rule \<Rightarrow> rule_finding \<Rightarrow> rule_hit" where
  "hit_of r f = \<lparr>rf_lineStart = rf_lineStart f, rf_lineEnd = rf_lineEnd f, rf_snippet = rf_snippet f,
    rf_candidate = None, rf_matchStart = None, rf_matchLength = None,
    rh_ruleId = rl_id r, rh_severity = rl_severity r, rh_title = rl_title r, rh_message = rl_message r,
    rh_identity = map_option identity_of (rf_candidate f), rh_match = matchPosition f\<rparr>"

text \<open>Why the value filter drops a finding of the rule, if it does.\<close>

definition rejected :: "rule \<Rightarrow> rule_finding \<Rightarrow> (secret_candidate \<times> filter_reason) option" where
  "rejected r f =
    (case rf_candidate f of
      None \<Rightarrow> None
    | Some c \<Rightarrow> if rl_isFile r \<or> rl_skipValueFilter r then None else map_option (Pair c) (filterValue c))"

definition add_finding :: "rule \<Rightarrow> run_result \<Rightarrow> rule_finding \<Rightarrow> run_result" where
  "add_finding r res f =
    (case rejected r f of
      Some (c, reason) \<Rightarrow>
        res\<lparr>rr_filtered := rr_filtered res @ [\<lparr>fc_ruleId = rl_id r, fc_line = cand_line c, fc_reason = reason\<rparr>]\<rparr>
    | None \<Rightarrow> res\<lparr>rr_hits := rr_hits res @ [hit_of r f]\<rparr>)"

subsection \<open>One rule, all rules\<close>

definition run_rule :: "rule_context \<Rightarrow> rule \<Rightarrow> run_result \<Rightarrow> run_result" where
  "run_rule ctx r res =
    (let res' = res\<lparr>rr_ruleRuns := rr_ruleRuns res + 1\<rparr>
     in (case rl_test r ctx of
          Inr fs \<Rightarrow> foldl (add_finding r) res' fs
        | Inl e \<Rightarrow> res'\<lparr>rr_crashes := rr_crashes res' @ [\<lparr>rc_ruleId = rl_id r, rc_errorName = e\<rparr>]\<rparr>))"

fun run_rules :: "rule_cost \<Rightarrow> rule_context \<Rightarrow> rule list \<Rightarrow> int \<Rightarrow> run_result \<Rightarrow> run_result \<times> int" where
  "run_rules cost ctx [] elapsed res = (res, elapsed)"
| "run_rules cost ctx (r # rs) elapsed res =
    (if \<not> ruleAppliesTo (rl_languages r) (ctx_language ctx) then run_rules cost ctx rs elapsed res
     else
       (let res' = run_rule ctx r res; elapsed' = elapsed + cost r ctx
        in if RULE_BUDGET_MS \<le> elapsed' then (res'\<lparr>rr_budgetExceeded := True\<rparr>, elapsed')
           else run_rules cost ctx rs elapsed' res'))"

definition no_result :: run_result where
  "no_result = \<lparr>rr_hits = [], rr_crashes = [], rr_filtered = [], rr_ruleRuns = 0, rr_budgetExceeded = False\<rparr>"

definition clip_line :: "added_line \<Rightarrow> added_line" where
  "clip_line l =
    (if MAX_LINE_LENGTH < length (al_text l) then l\<lparr>al_text := take MAX_LINE_LENGTH (al_text l)\<rparr> else l)"

definition clip_context :: "rule_context \<Rightarrow> rule_context" where
  "clip_context ctx = ctx\<lparr>ctx_addedLines := map clip_line (ctx_addedLines ctx)\<rparr>"

text \<open>The context argument holds the fields of \<open>RunRulesInput\<close> a rule sees, before clipping.\<close>

definition runRulesForFile :: "rule_cost \<Rightarrow> rule list \<Rightarrow> rule_context \<Rightarrow> int \<Rightarrow> run_result \<times> int" where
  "runRulesForFile cost rules input elapsed =
    (if RULE_BUDGET_MS \<le> elapsed then (no_result\<lparr>rr_budgetExceeded := True\<rparr>, elapsed)
     else run_rules cost (clip_context input) rules elapsed no_result)"

subsection \<open>What one rule contributes\<close>

definition rule_hits :: "rule_context \<Rightarrow> rule \<Rightarrow> rule_hit list" where
  "rule_hits ctx r =
    (case rl_test r ctx of Inl _ \<Rightarrow> [] | Inr fs \<Rightarrow> map (hit_of r) (filter (\<lambda>f. rejected r f = None) fs))"

definition rule_filtered :: "rule_context \<Rightarrow> rule \<Rightarrow> filtered_candidate list" where
  "rule_filtered ctx r =
    (case rl_test r ctx of
      Inl _ \<Rightarrow> []
    | Inr fs \<Rightarrow> map (\<lambda>(c, reason). \<lparr>fc_ruleId = rl_id r, fc_line = cand_line c, fc_reason = reason\<rparr>)
        (List.map_filter (rejected r) fs))"

definition rule_crashes :: "rule_context \<Rightarrow> rule \<Rightarrow> rule_crash list" where
  "rule_crashes ctx r =
    (case rl_test r ctx of Inl e \<Rightarrow> [\<lparr>rc_ruleId = rl_id r, rc_errorName = e\<rparr>] | Inr _ \<Rightarrow> [])"

lemma add_findings:
  "rr_hits (foldl (add_finding r) res fs) = rr_hits res @ map (hit_of r) (filter (\<lambda>f. rejected r f = None) fs)"
  "rr_filtered (foldl (add_finding r) res fs) =
    rr_filtered res @ map (\<lambda>(c, reason). \<lparr>fc_ruleId = rl_id r, fc_line = cand_line c, fc_reason = reason\<rparr>)
      (List.map_filter (rejected r) fs)"
  "rr_crashes (foldl (add_finding r) res fs) = rr_crashes res"
  "rr_ruleRuns (foldl (add_finding r) res fs) = rr_ruleRuns res"
  "rr_budgetExceeded (foldl (add_finding r) res fs) = rr_budgetExceeded res"
  by (induction fs arbitrary: res) (simp_all add: add_finding_def List.map_filter_simps split: option.splits)

lemma run_rule_parts:
  "rr_hits (run_rule ctx r res) = rr_hits res @ rule_hits ctx r"
  "rr_filtered (run_rule ctx r res) = rr_filtered res @ rule_filtered ctx r"
  "rr_crashes (run_rule ctx r res) = rr_crashes res @ rule_crashes ctx r"
  "rr_ruleRuns (run_rule ctx r res) = rr_ruleRuns res + 1"
  "rr_budgetExceeded (run_rule ctx r res) = rr_budgetExceeded res"
  by (simp_all add: run_rule_def rule_hits_def rule_filtered_def rule_crashes_def add_findings Let_def split: sum.split)

text \<open>The rules that ran: a beginning of the applicable ones, all of them unless the budget ran out.\<close>

definition applicable :: "rule_context \<Rightarrow> rule list \<Rightarrow> rule list" where
  "applicable ctx rules = filter (\<lambda>r. ruleAppliesTo (rl_languages r) (ctx_language ctx)) rules"

definition ran :: "rule_cost \<Rightarrow> rule_context \<Rightarrow> rule list \<Rightarrow> int \<Rightarrow> run_result \<Rightarrow> run_result \<times> int \<Rightarrow> rule list \<Rightarrow> bool" where
  "ran cost ctx rules elapsed res out rs \<longleftrightarrow>
    (\<exists>rest. applicable ctx rules = rs @ rest \<and> (rr_budgetExceeded (fst out) \<or> rest = [])) \<and>
    rr_hits (fst out) = rr_hits res @ concat (map (rule_hits ctx) rs) \<and>
    rr_filtered (fst out) = rr_filtered res @ concat (map (rule_filtered ctx) rs) \<and>
    rr_crashes (fst out) = rr_crashes res @ concat (map (rule_crashes ctx) rs) \<and>
    rr_ruleRuns (fst out) = rr_ruleRuns res + length rs \<and>
    snd out = elapsed + (\<Sum>r \<leftarrow> rs. cost r ctx) \<and>
    (rr_budgetExceeded (fst out) \<longleftrightarrow> RULE_BUDGET_MS \<le> snd out)"

lemma run_rules_ran:
  assumes "\<not> rr_budgetExceeded res" "elapsed < RULE_BUDGET_MS"
  shows "\<exists>rs. ran cost ctx rules elapsed res (run_rules cost ctx rules elapsed res) rs"
  using assms
proof (induction cost ctx rules elapsed res rule: run_rules.induct)
  case (1 cost ctx elapsed res)
  then show ?case by (intro exI [of _ "[]"]) (simp add: ran_def applicable_def)
next
  case (2 cost ctx r rs elapsed res)
  show ?case
  proof (cases "ruleAppliesTo (rl_languages r) (ctx_language ctx)")
    case False
    with 2 show ?thesis by (simp add: ran_def applicable_def)
  next
    case True
    let ?res = "run_rule ctx r res" and ?elapsed = "elapsed + cost r ctx"
    show ?thesis
    proof (cases "RULE_BUDGET_MS \<le> ?elapsed")
      case over: True
      with True show ?thesis
        by (intro exI [of _ "[r]"]) (simp add: ran_def applicable_def run_rule_parts Let_def)
    next
      case False
      with "2.IH"(2) [OF _ refl refl] True "2.prems" obtain rs' where
        "ran cost ctx rs ?elapsed ?res (run_rules cost ctx rs ?elapsed ?res) rs'"
        by (auto simp: run_rule_parts)
      with True False show ?thesis
        by (intro exI [of _ "r # rs'"]) (auto simp: ran_def applicable_def run_rule_parts Let_def)
    qed
  qed
qed

lemma runRulesForFile_ran:
  assumes "elapsed < RULE_BUDGET_MS"
  shows "\<exists>rs. ran cost (clip_context input) rules elapsed no_result (runRulesForFile cost rules input elapsed) rs"
  using run_rules_ran [of no_result elapsed cost "clip_context input" rules] assms
  by (simp add: runRulesForFile_def no_result_def)

lemma runRulesForFile_exhausted:
  "RULE_BUDGET_MS \<le> elapsed \<Longrightarrow>
    runRulesForFile cost rules input elapsed = (no_result\<lparr>rr_budgetExceeded := True\<rparr>, elapsed)"
  by (simp add: runRulesForFile_def)

lemma hit_source:
  assumes "h \<in> set (rr_hits (fst (runRulesForFile cost rules input elapsed)))"
  shows "\<exists>r \<in> set rules. \<exists>fs. rl_test r (clip_context input) = Inr fs \<and>
    (\<exists>f \<in> set fs. h = hit_of r f \<and> rejected r f = None)"
proof (cases "elapsed < RULE_BUDGET_MS")
  case True
  from runRulesForFile_ran [OF True, of cost input rules] obtain rs where
    rs: "ran cost (clip_context input) rules elapsed no_result (runRulesForFile cost rules input elapsed) rs" by blast
  then have "set rs \<subseteq> set rules" unfolding ran_def applicable_def
    by (metis filter_is_subset le_sup_iff set_append)
  moreover from rs assms obtain r where "r \<in> set rs" "h \<in> set (rule_hits (clip_context input) r)"
    by (auto simp: ran_def no_result_def)
  moreover from \<open>h \<in> set (rule_hits (clip_context input) r)\<close> obtain fs f where "rl_test r (clip_context input) = Inr fs" "f \<in> set fs" "h = hit_of r f"
    "rejected r f = None"
    by (cases "rl_test r (clip_context input)") (auto simp: rule_hits_def)
  ultimately show ?thesis by blast
next
  case False
  with assms show ?thesis by (simp add: runRulesForFile_exhausted no_result_def)
qed

subsection \<open>Hits of a lawful set of rules\<close>

definition hit_on_added_line :: "added_line list \<Rightarrow> rule_hit \<Rightarrow> bool" where
  "hit_on_added_line ls h \<longleftrightarrow>
    (\<exists>l \<in> set ls. rf_lineStart h = al_newLine l \<and>
      (case rh_match h of
        None \<Rightarrow> rh_identity h = None
      | Some (s, n) \<Rightarrow> s + n \<le> MAX_LINE_LENGTH \<and> s + n \<le> length (al_text l))) \<and>
    rf_lineEnd h \<in> al_newLine ` set ls"

lemma clip_line_simps [simp]:
  "al_newLine (clip_line l) = al_newLine l" "length (al_text (clip_line l)) \<le> MAX_LINE_LENGTH"
  "length (al_text (clip_line l)) \<le> length (al_text l)"
  by (simp_all add: clip_line_def)

lemma matchPosition_within:
  assumes "starts_on l f"
  shows "case matchPosition f of None \<Rightarrow> rf_candidate f = None | Some (s, n) \<Rightarrow> s + n \<le> length (al_text l)"
proof (cases "rf_matchStart f")
  case (Some s)
  with assms show ?thesis by (auto simp: starts_on_def matchPosition_def)
next
  case None
  show ?thesis
  proof (cases "rf_candidate f")
    case (Some c)
    with assms have c: "cand_raw c = al_text l" "contains (cand_raw c) (cand_value c)"
      by (auto simp: starts_on_def candidate_of_line_def)
    then obtain i where i: "index_of (al_text l) (cand_value c) 0 = Some i" by (auto simp: contains_def)
    from index_of_end [OF i] None Some c i show ?thesis by (simp add: matchPosition_def)
  qed (simp add: matchPosition_def None)
qed

lemma placed_hit:
  assumes "placed_on (map clip_line ls) f"
  shows "hit_on_added_line ls (hit_of r f)"
proof -
  from assms obtain l where l: "l \<in> set ls" "starts_on (clip_line l) f" and e: "rf_lineEnd f \<in> al_newLine ` set ls"
    by (auto simp: placed_on_def image_image)
  have "case matchPosition f of None \<Rightarrow> rf_candidate f = None
      | Some (s, n) \<Rightarrow> s + n \<le> MAX_LINE_LENGTH \<and> s + n \<le> length (al_text l)"
    using matchPosition_within [OF l(2)] clip_line_simps(2,3) [of l]
    by (auto split: option.splits intro: order_trans)
  moreover have "rf_lineStart f = al_newLine l" using l(2) by (simp add: starts_on_def)
  ultimately show ?thesis using l(1) e by (auto simp: hit_on_added_line_def hit_of_def split: option.splits)
qed

context rule_set
begin

lemma run_no_crashes:
  assumes "set rs \<subseteq> set rules"
  shows "rr_crashes (fst (runRulesForFile cost rs input elapsed)) = []"
proof (cases "elapsed < RULE_BUDGET_MS")
  case True
  from runRulesForFile_ran [OF True, of cost input rs] obtain rs' where
    rs: "ran cost (clip_context input) rs elapsed no_result (runRulesForFile cost rs input elapsed) rs'" by blast
  then have "set rs' \<subseteq> set rs" unfolding ran_def applicable_def
    by (metis filter_is_subset le_sup_iff set_append)
  with assms have "rule_crashes (clip_context input) r = []" if "r \<in> set rs'" for r
  proof -
    from that assms \<open>set rs' \<subseteq> set rs\<close> have "r \<in> set rules" by blast
    from no_throw [OF this] obtain fs where "rl_test r (clip_context input) = Inr fs" by blast
    then show ?thesis by (simp add: rule_crashes_def)
  qed
  with rs show ?thesis by (auto simp: ran_def no_result_def)
next
  case False
  then show ?thesis by (simp add: runRulesForFile_exhausted no_result_def)
qed

lemma run_hit:
  assumes "set rs \<subseteq> set rules" "h \<in> set (rr_hits (fst (runRulesForFile cost rs input elapsed)))"
  shows "rh_severity h = CRITICAL \<and> rf_candidate h = None \<and>
    pred_option (\<lambda>i. length (fi_valuePrefix i) \<le> 4) (rh_identity h) \<and>
    (\<exists>r \<in> set rs. rh_ruleId h = rl_id r \<and>
      (if rl_isFile r then rf_lineStart h = 1 \<and> rf_lineEnd h = 1
       else hit_on_added_line (ctx_addedLines input) h))"
proof -
  from hit_source [OF assms(2)] obtain r fs f where r: "r \<in> set rs" "rl_test r (clip_context input) = Inr fs"
    "f \<in> set fs" "h = hit_of r f" by blast
  with assms(1) have reg: "r \<in> set rules" by blast
  have "if rl_isFile r then rf_lineStart h = 1 \<and> rf_lineEnd h = 1 else hit_on_added_line (ctx_addedLines input) h"
  proof (cases "rl_isFile r")
    case True
    from file_whole [OF reg True r(2,3)] True show ?thesis by (simp add: r(4) hit_of_def whole_file_finding_def)
  next
    case False
    from placed_hit [of "ctx_addedLines input" f r] line_placed [OF reg False r(2,3)] False show ?thesis
      by (simp add: r(4) clip_context_def)
  qed
  moreover have "rh_severity h = CRITICAL" "rf_candidate h = None" "rh_ruleId h = rl_id r"
    "pred_option (\<lambda>i. length (fi_valuePrefix i) \<le> 4) (rh_identity h)"
    using critical_only [OF reg]
    by (cases "rf_candidate f"; simp add: r(4) hit_of_def identity_of_def)+
  ultimately show ?thesis using r(1) by blast
qed

end

subsection \<open>The properties of the runner\<close>

text \<open>The runner runs a beginning of the applicable rules, in order, and all of them unless the
  budget ran out; every rule that ran counts, its hits are its findings that the value filter
  does not drop, the dropped ones are listed with their reason, and a rule that throws adds a
  crash and nothing else.  The time spent is the sum over those rules, and the budget flag says
  whether it reached five seconds.\<close>

theorem runRulesForFile_accounts:
  assumes "elapsed < RULE_BUDGET_MS"
  shows "\<exists>rs rest. let (out, elapsed') = runRulesForFile cost rules input elapsed; ctx = clip_context input in
    filter (\<lambda>r. ruleAppliesTo (rl_languages r) (ctx_language input)) rules = rs @ rest \<and>
    (rr_budgetExceeded out \<or> rest = []) \<and>
    rr_hits out = concat (map (rule_hits ctx) rs) \<and>
    rr_filtered out = concat (map (rule_filtered ctx) rs) \<and>
    rr_crashes out = concat (map (rule_crashes ctx) rs) \<and>
    rr_ruleRuns out = length rs \<and>
    elapsed' = elapsed + (\<Sum>r \<leftarrow> rs. cost r ctx) \<and>
    (rr_budgetExceeded out \<longleftrightarrow> RULE_BUDGET_MS \<le> elapsed')"
proof -
  from runRulesForFile_ran [OF assms, of cost input rules] obtain rs rest where
    "ran cost (clip_context input) rules elapsed no_result (runRulesForFile cost rules input elapsed) rs"
    "applicable (clip_context input) rules = rs @ rest"
    "rr_budgetExceeded (fst (runRulesForFile cost rules input elapsed)) \<or> rest = []"
    unfolding ran_def by blast
  then show ?thesis
    by (intro exI [of _ rs] exI [of _ rest])
      (simp add: ran_def no_result_def applicable_def clip_context_def case_prod_beta)
qed

definition throwing_rule :: rule where
  "throwing_rule = secretAwsAccessKeyRule\<lparr>rl_id := ''secret.broken'', rl_test := (\<lambda>ctx. Inl ''RangeError'')\<rparr>"

lemma runRulesForFile_accounts_witness:
  "rr_ruleRuns (fst (runRulesForFile (\<lambda>r ctx. 1) [throwing_rule, secretAwsAccessKeyRule] sample_rule_context 0)) = 2 \<and>
   length (rr_crashes (fst (runRulesForFile (\<lambda>r ctx. 1) [throwing_rule, secretAwsAccessKeyRule] sample_rule_context 0))) = 1 \<and>
   (\<exists>rs. length rs = 2 \<and>
     rr_hits (fst (runRulesForFile (\<lambda>r ctx. 1) [throwing_rule, secretAwsAccessKeyRule] sample_rule_context 0)) =
       concat (map (rule_hits (clip_context sample_rule_context)) rs))"
proof -
  let ?run = "runRulesForFile (\<lambda>r ctx. 1) [throwing_rule, secretAwsAccessKeyRule] sample_rule_context 0"
  have runs: "rr_ruleRuns (fst ?run) = 2" "length (rr_crashes (fst ?run)) = 1" by code_simp+
  have "0 < RULE_BUDGET_MS" by (simp add: RULE_BUDGET_MS_def)
  from runRulesForFile_accounts [OF this, of "\<lambda>r ctx. 1" "[throwing_rule, secretAwsAccessKeyRule]" sample_rule_context]
  obtain rs where "rr_hits (fst ?run) = concat (map (rule_hits (clip_context sample_rule_context)) rs)"
    "rr_ruleRuns (fst ?run) = length rs"
    by (auto simp: Let_def case_prod_beta)
  with runs show ?thesis by auto
qed

text \<open>What the snippet of a hit on the line may show of a credential: nothing, a constant, the scheme of a URL, the key and four characters
  of a value of at least twelve, or a beginning of the match that leaves out at least ten characters.\<close>

definition hides_credential :: "added_line \<Rightarrow> rule_hit \<Rightarrow> bool" where
  "hides_credential l h \<longleftrightarrow>
    (case rf_snippet h of
      None \<Rightarrow> True
    | Some s \<Rightarrow>
        s = slack_snippet \<or>
        (\<exists>scheme. (\<forall>c \<in> set scheme. scheme_char c) \<and> s = scheme @ ''://****:****@'') \<or>
        (\<exists>i. rh_identity h = Some i \<and> 12 \<le> fi_valueLength i \<and> s = take 120 (fi_key i @ ''='' @ fi_valuePrefix i @ ''****'')) \<or>
        (\<exists>start n k. rh_match h = Some (start, n) \<and> k + 10 \<le> n \<and>
          s = take k (slice (al_text l) start (start + n)) @ ''****''))"

lemma clip_slice: "\<exists>j. slice (al_text (clip_line l)) a b = take j (slice (al_text l) a b)"
proof (cases "MAX_LINE_LENGTH < length (al_text l)")
  case True
  have "slice (take m s) a b = take (m - a) (slice s a b)" for m and s :: jstr
    by (simp add: slice_def drop_take min.commute)
  with True show ?thesis by (auto simp: clip_line_def)
next
  case False
  then show ?thesis by (intro exI [of _ "b - a"]) (simp add: clip_line_def slice_def)
qed

lemma redacted_hides:
  assumes "redacted (clip_line l) f"
  shows "hides_credential l (hit_of r f)"
proof (cases "rf_snippet f")
  case (Some s)
  with assms consider "s = slack_snippet" | "\<exists>scheme. (\<forall>c \<in> set scheme. scheme_char c) \<and> s = scheme @ ''://****:****@''"
    | c key where "rf_candidate f = Some c" "cand_key c = Some key" "12 \<le> length (cand_value c)"
        "s = take 120 (key @ ''='' @ take 4 (cand_value c) @ ''****'')"
    | start n k where "rf_matchStart f = Some start" "rf_matchLength f = Some n" "k + 10 \<le> n"
        "s = take k (slice (al_text (clip_line l)) start (start + n)) @ ''****''"
    by (auto simp: redacted_def)
  then show ?thesis
  proof cases
    case (4 start n k)
    obtain j where "slice (al_text (clip_line l)) start (start + n) = take j (slice (al_text l) start (start + n))"
      using clip_slice by blast
    with 4 have "rh_match (hit_of r f) = Some (start, n) \<and> min k j + 10 \<le> n \<and>
        s = take (min k j) (slice (al_text l) start (start + n)) @ ''****''"
      by (simp add: hit_of_def matchPosition_def)
    with Some show ?thesis unfolding hides_credential_def by (auto simp: hit_of_def)
  qed (use Some in \<open>auto simp: hides_credential_def hit_of_def identity_of_def\<close>)
qed (simp add: hides_credential_def hit_of_def)

text \<open>A hit and the rule it is of: the texts are the rule's, whatever the file says; of a rule on files it is on line 1 with nothing
  of the file in it, of a rule on lines it is on added lines, and of a rule for secrets its snippet hides the credential.\<close>

definition hit_of_rule :: "added_line list \<Rightarrow> rule_hit \<Rightarrow> rule \<Rightarrow> bool" where
  "hit_of_rule ls h r \<longleftrightarrow> rh_ruleId h = rl_id r \<and> rh_title h = rl_title r \<and> rh_message h = rl_message r \<and>
    (if rl_isFile r
     then rf_lineStart h = 1 \<and> rf_lineEnd h = 1 \<and> rf_snippet h = None \<and> rh_identity h = None \<and> rh_match h = None
     else hit_on_added_line ls h \<and>
       (starts_with (rl_id r) ''secret.'' \<longrightarrow> (\<exists>l \<in> set ls. rf_lineStart h = al_newLine l \<and> hides_credential l h)))"

lemma registered_hit:
  assumes "set rs \<subseteq> set (RULES mm)" "h \<in> set (rr_hits (fst (runRulesForFile cost rs input elapsed)))"
  shows "\<exists>r \<in> set rs. hit_of_rule (ctx_addedLines input) h r"
proof -
  from hit_source [OF assms(2)] obtain r fs f where r: "r \<in> set rs" "rl_test r (clip_context input) = Inr fs"
    "f \<in> set fs" "h = hit_of r f" by blast
  with assms(1) have reg: "r \<in> set (RULES mm)" by blast
  have "hit_of_rule (ctx_addedLines input) h r"
  proof (cases "rl_isFile r")
    case True
    from registry.file_whole [OF reg True r(2,3)] True show ?thesis
      by (simp add: hit_of_rule_def r(4) hit_of_def whole_file_finding_def matchPosition_def)
  next
    case False
    have "hit_on_added_line (ctx_addedLines input) h"
      using placed_hit [of "ctx_addedLines input" f r] registry.line_placed [OF reg False r(2,3)] by (simp add: r(4) clip_context_def)
    moreover have "\<exists>l \<in> set (ctx_addedLines input). rf_lineStart h = al_newLine l \<and> hides_credential l h"
      if secret: "starts_with (rl_id r) ''secret.''"
    proof -
      from secret_line_rules [OF reg secret False] obtain check where
        c: "rl_test r = line_rule check" "on_its_line check" "redacting check" by blast
      from line_rule_redacting [OF c(2,3) r(2) [unfolded c(1)] r(3)] obtain l where
        "l \<in> set (ctx_addedLines input)" "rf_lineStart f = al_newLine l" "redacted (clip_line l) f"
        by (auto simp: clip_context_def)
      with redacted_hides [of l f r] show ?thesis by (auto simp: r(4) hit_of_def)
    qed
    ultimately show ?thesis using False by (simp add: hit_of_rule_def r(4) hit_of_def)
  qed
  with r(1) show ?thesis by blast
qed

text \<open>C34: what leaves the runner when it runs registered rules.  No rule crashes; every hit is critical,
  carries no candidate, and of the credential at most four characters and the length.  Its title and message are those of its rule.  A hit of
  a rule on files is on line 1 and has no snippet, value or position.  A hit of a rule on lines starts and ends on added lines
  and its position lies inside the line, within the first 2000 characters, and is known whenever there is a credential to tell
  apart.  The snippet of a \<open>secret.*\<close> hit never shows the credential: it is absent, a constant, the scheme of a database URL, the key
  with the first four of at least twelve characters of the value, or a beginning of the match that leaves out ten
  characters or more.  The snippets of the other rules, which look for no credential, are not limited here.\<close>

theorem registered_hits_safe:
  assumes "set rs \<subseteq> set (RULES mm)"
  shows "rr_crashes (fst (runRulesForFile cost rs input elapsed)) = [] \<and>
    (\<forall>h \<in> set (rr_hits (fst (runRulesForFile cost rs input elapsed))).
      rh_severity h = CRITICAL \<and> rf_candidate h = None \<and>
      pred_option (\<lambda>i. length (fi_valuePrefix i) \<le> 4) (rh_identity h) \<and>
      (\<exists>r \<in> set rs. hit_of_rule (ctx_addedLines input) h r))"
  using registry.run_no_crashes [OF assms] registry.run_hit [OF assms] registered_hit [OF assms] by blast

definition sample_aws_hit :: rule_hit where
  "sample_aws_hit = hit_of secretAwsAccessKeyRule sample_aws_finding"

lemma registered_hits_safe_witness:
  "rr_hits (fst (runRulesForFile (\<lambda>r ctx. 1) [secretAwsAccessKeyRule] sample_rule_context 0)) = [sample_aws_hit] \<and>
   hit_of_rule [sample_aws_line] sample_aws_hit secretAwsAccessKeyRule"
proof -
  have out: "rr_hits (fst (runRulesForFile (\<lambda>r ctx. 1) [secretAwsAccessKeyRule] sample_rule_context 0)) = [sample_aws_hit]"
    by code_simp
  have "set [secretAwsAccessKeyRule] \<subseteq> set (RULES (\<lambda>p g. False))" using aws_registered by simp
  from registered_hits_safe [OF this, of "\<lambda>r ctx. 1" sample_rule_context 0] out
  show ?thesis by (simp add: sample_rule_context_def secretAwsAccessKeyRule_def)
qed

end
