(* ===== verification/Suppression.thy ===== *)
theory Suppression
  imports Rule_Runner Path_Language
begin

section \<open>Active or suppressed\<close>

text \<open>
  \<open>src/queue/suppression.ts\<close>.  \<open>isInsideComment\<close> can throw, so the classification returns
  \<open>Inl\<close> of the error's name, or \<open>Inr\<close> of the reason.
\<close>

record suppression_input =
  si_ruleId :: jstr
  si_filePath :: jstr
  si_language :: jstr
  si_lineText :: "jstr option"
  si_match :: "(nat \<times> nat) option"

definition TEST_SUPPRESSED_CODE_RULES :: "jstr list" where
  "TEST_SUPPRESSED_CODE_RULES = [''code.insecure_tls'', ''code.debugger_left'', ''code.empty_catch'']"

definition REGEX_AWARE_CODE_RULES :: "jstr list" where
  "REGEX_AWARE_CODE_RULES = [''code.insecure_tls'']"

definition isSecretOrConfig :: "jstr \<Rightarrow> bool" where
  "isSecretOrConfig ruleId \<longleftrightarrow> starts_with ruleId ''secret.'' \<or> starts_with ruleId ''config.''"

definition suppressesOnTestFile :: "jstr \<Rightarrow> bool" where
  "suppressesOnTestFile ruleId \<longleftrightarrow> isSecretOrConfig ruleId \<or> ruleId \<in> set TEST_SUPPRESSED_CODE_RULES"

definition suppressesOnComment :: "jstr \<Rightarrow> bool" where
  "suppressesOnComment ruleId = suppressesOnTestFile ruleId"

definition isRegexAware :: "jstr \<Rightarrow> bool" where
  "isRegexAware ruleId \<longleftrightarrow> isSecretOrConfig ruleId \<or> ruleId \<in> set REGEX_AWARE_CODE_RULES"

text \<open>The third and the fourth test of the function.\<close>

definition in_comment :: "glob_match \<Rightarrow> suppression_input \<Rightarrow> jstr + bool" where
  "in_comment mm inp =
    (case (si_match inp, si_lineText inp) of
      (Some (start, len), Some line) \<Rightarrow>
        if suppressesOnComment (si_ruleId inp) \<and> \<not> isMustScanPath mm (si_filePath inp)
        then isInsideComment line start (si_filePath inp) else Inr False
    | _ \<Rightarrow> Inr False)"

definition in_regex :: "suppression_input \<Rightarrow> bool" where
  "in_regex inp \<longleftrightarrow>
    isRegexAware (si_ruleId inp) \<and>
    (case si_lineText inp of
      None \<Rightarrow> False
    | Some line \<Rightarrow>
       (case si_match inp of
         Some (start, len) \<Rightarrow> isInsideRegexLiteral line start len (si_language inp)
       | None \<Rightarrow> isRegexLiteralLine line (si_language inp)))"

definition classifySuppression :: "glob_match \<Rightarrow> suppression_input \<Rightarrow> jstr + suppression_reason option" where
  "classifySuppression mm inp =
    (if isDataFixturePath mm (si_filePath inp) then Inr (Some TEST_FILE)
     else if isTestLikePath mm (si_filePath inp) \<and> suppressesOnTestFile (si_ruleId inp) then Inr (Some TEST_FILE)
     else (case in_comment mm inp of
       Inl e \<Rightarrow> Inl e
     | Inr True \<Rightarrow> Inr (Some COMMENT)
     | Inr False \<Rightarrow> if in_regex inp then Inr (Some REGEX_LITERAL) else Inr None))"

subsection \<open>Facts\<close>

lemma injection_rules_exempt:
  assumes "ruleId \<in> set INJECTION_RULES"
  shows "\<not> suppressesOnTestFile ruleId" "\<not> suppressesOnComment ruleId" "\<not> isRegexAware ruleId"
  using assms
  by (auto simp: INJECTION_RULES_def suppressesOnTestFile_def suppressesOnComment_def isRegexAware_def
      isSecretOrConfig_def starts_with_def TEST_SUPPRESSED_CODE_RULES_def REGEX_AWARE_CODE_RULES_def)

lemma in_comment_error:
  assumes "in_comment mm inp = Inl e"
  shows "e = ''TypeError'' \<and> commentSyntaxFor (si_filePath inp) = Inherited"
  using assms
  by (auto simp: in_comment_def isInsideComment_def split: option.splits if_splits record_entry.splits)

lemma classifySuppression_error:
  assumes "classifySuppression mm inp = Inl e"
  shows "e = ''TypeError'' \<and> commentSyntaxFor (si_filePath inp) = Inherited"
  using assms in_comment_error by (auto simp: classifySuppression_def split: if_splits sum.splits bool.splits)

subsection \<open>The properties of the classification\<close>

text \<open>The rules on dynamic evaluation, SQL built by concatenation and shell commands are never
  hidden: outside the fixture directories the classification of their findings is "active",
  in test files, comments and regular expressions alike, and it never throws.\<close>

theorem injection_findings_surface:
  assumes "si_ruleId inp \<in> set INJECTION_RULES"
  shows "classifySuppression mm inp =
    Inr (if isDataFixturePath mm (si_filePath inp) then Some TEST_FILE else None)"
proof -
  have "in_comment mm inp = Inr False"
    by (simp add: in_comment_def injection_rules_exempt [OF assms] split: option.split)
  then show ?thesis
    by (simp add: classifySuppression_def in_regex_def injection_rules_exempt [OF assms])
qed

definition sample_suppression :: suppression_input where
  "sample_suppression = \<lparr>si_ruleId = ''code.eval_dynamic'', si_filePath = ''app/x.constructor'', si_language = ''js'',
    si_lineText = Some ''eval(a)'', si_match = Some (0, 5)\<rparr>"

lemma injection_findings_surface_witness:
  "classifySuppression (\<lambda>p g. g = ''**/*.test.*'') sample_suppression = Inr None"
  using injection_findings_surface [of sample_suppression "\<lambda>p g. g = ''**/*.test.*''"]
  by (simp add: sample_suppression_def INJECTION_RULES_def isDataFixturePath_def matchesAny_def DATA_FIXTURE_GLOBS_def)

text \<open>In a configuration file on the must-scan list, outside the fixture directories, a finding is
  suppressed for one reason only, that the match lies inside a regular expression of the line
  (or, with no column, that the line is one); it is never taken for a comment or a test file,
  and the classification never throws.\<close>

theorem must_scan_findings_surface:
  assumes "isMustScanPath mm (si_filePath inp)" "\<not> isDataFixturePath mm (si_filePath inp)"
  shows "classifySuppression mm inp = Inr (if in_regex inp then Some REGEX_LITERAL else None)"
proof -
  have "\<not> isTestLikePath mm (si_filePath inp)" using must_scan_not_test_like assms by blast
  moreover have "in_comment mm inp = Inr False"
    using assms(1) by (simp add: in_comment_def split: option.split)
  ultimately show ?thesis using assms(2) by (simp add: classifySuppression_def)
qed

definition sample_env_input :: suppression_input where
  "sample_env_input = \<lparr>si_ruleId = ''secret.aws_access_key'', si_filePath = ''.env'', si_language = ''*'',
    si_lineText = Some ''# k=1'', si_match = Some (2, 3)\<rparr>"

lemma must_scan_findings_surface_witness:
  "classifySuppression (\<lambda>p g. g = ''**/.env'') sample_env_input = Inr None \<and>
    isInsideComment ''# k=1'' 2 ''.env'' = Inr True"
proof -
  have "isMustScanPath (\<lambda>p g. g = ''**/.env'') (si_filePath sample_env_input)"
    by (simp add: isMustScanPath_def matchesAny_def MUST_SCAN_GLOBS_def)
  moreover have "\<not> isDataFixturePath (\<lambda>p g. g = ''**/.env'') (si_filePath sample_env_input)"
    by (simp add: isDataFixturePath_def matchesAny_def DATA_FIXTURE_GLOBS_def)
  moreover have "\<not> in_regex sample_env_input" by code_simp
  moreover have "isInsideComment ''# k=1'' 2 ''.env'' = Inr True" by code_simp
  ultimately show ?thesis
    using must_scan_findings_surface [of "\<lambda>p g. g = ''**/.env''" sample_env_input] by simp
qed

end
