(* ===== verification/Dedupe_Findings.thy ===== *)
theory Dedupe_Findings
  imports Suppression
begin

section \<open>One finding per issue\<close>

text \<open>
  \<open>src/queue/dedupe-findings.ts\<close>.  SHA-1 in hexadecimal is the parameter \<open>sha1\<close>.  The groups are
  a \<open>Map\<close> from fingerprints, so an association list in order of insertion; a group is updated in
  place in the source and written back here.  \<open>group_by_fold\<close> shows that such a loop is a fold
  over each class of the hits, and \<open>fold_group\<close> computes that fold.
\<close>

record located_hit = rule_hit +
  lh_filePath :: jstr
  lh_suppressedReason :: "suppression_reason option"

record prepared_finding =
  pf_ruleId :: jstr
  pf_title :: jstr
  pf_message :: jstr
  pf_filePath :: jstr
  pf_lineStart :: line_no
  pf_lineEnd :: line_no
  pf_snippet :: "jstr option"
  pf_fingerprint :: jstr
  pf_suppressedReason :: "suppression_reason option"

subsection \<open>Fingerprints\<close>

definition WHITE_RUN :: rx where "WHITE_RUN = rplus (RSet is_space)"

definition dedupe_key :: "located_hit \<Rightarrow> jstr" where
  "dedupe_key hit =
    (case rh_identity hit of
      Some i \<Rightarrow> ''id:'' @ fi_key i @ '':'' @ fi_valuePrefix i @ '':'' @ show_nat (fi_valueLength i)
    | None \<Rightarrow>
       (case rf_snippet hit of
         None \<Rightarrow> ''line:'' @ show_int (rf_lineStart hit)
       | Some s \<Rightarrow>
           if starts_with (rh_ruleId hit) ''secret.'' then ''line:'' @ show_int (rf_lineStart hit)
           else rx_replace_all WHITE_RUN '' '' (trim s)))"

definition hit_fingerprint :: "(jstr \<Rightarrow> jstr) \<Rightarrow> located_hit \<Rightarrow> jstr" where
  "hit_fingerprint sha1 hit =
    sha1 (rh_ruleId hit @ [CHR 0x00] @ lh_filePath hit @ [CHR 0x00] @ dedupe_key hit)"

subsection \<open>Groups\<close>

record tally =
  ta_lineStart :: line_no
  ta_lineEnd :: line_no
  ta_count :: nat

record hit_group =
  hg_base :: located_hit
  hg_active :: "tally option"
  hg_suppressed :: "(tally \<times> suppression_reason) option"

definition new_tally :: "located_hit \<Rightarrow> tally" where
  "new_tally hit = \<lparr>ta_lineStart = rf_lineStart hit, ta_lineEnd = rf_lineEnd hit, ta_count = 0\<rparr>"

definition widen :: "located_hit \<Rightarrow> tally \<Rightarrow> tally" where
  "widen hit t = \<lparr>ta_lineStart = min (ta_lineStart t) (rf_lineStart hit), ta_lineEnd = max (ta_lineEnd t) (rf_lineEnd hit),
    ta_count = ta_count t + 1\<rparr>"

definition new_group :: "located_hit \<Rightarrow> hit_group" where
  "new_group hit = \<lparr>hg_base = hit, hg_active = None, hg_suppressed = None\<rparr>"

definition add_to_group :: "hit_group \<Rightarrow> located_hit \<Rightarrow> hit_group" where
  "add_to_group g hit =
    (case lh_suppressedReason hit of
      None \<Rightarrow>
       (case hg_active g of
         None \<Rightarrow> g\<lparr>hg_base := hit, hg_active := Some (widen hit (new_tally hit))\<rparr>
       | Some t \<Rightarrow> g\<lparr>hg_active := Some (widen hit t)\<rparr>)
    | Some reason \<Rightarrow>
       (case hg_suppressed g of
         None \<Rightarrow> g\<lparr>hg_suppressed := Some (widen hit (new_tally hit), reason)\<rparr>
       | Some (t, reason') \<Rightarrow> g\<lparr>hg_suppressed := Some (widen hit t, reason')\<rparr>))"

definition group_step ::
  "(jstr \<Rightarrow> jstr) \<Rightarrow> (jstr \<times> hit_group) list \<Rightarrow> located_hit \<Rightarrow> (jstr \<times> hit_group) list" where
  "group_step sha1 groups hit =
    (let fingerprint = hit_fingerprint sha1 hit;
         g = (case al_get groups fingerprint of Some g \<Rightarrow> g | None \<Rightarrow> new_group hit)
     in al_set fingerprint (add_to_group g hit) groups)"

definition group_hits :: "(jstr \<Rightarrow> jstr) \<Rightarrow> located_hit list \<Rightarrow> (jstr \<times> hit_group) list" where
  "group_hits sha1 hits = foldl (group_step sha1) [] hits"

definition prepare :: "jstr \<times> hit_group \<Rightarrow> prepared_finding option" where
  "prepare fg =
    (let g = snd fg; base = hg_base g in
     map_option (\<lambda>kept.
       \<lparr>pf_ruleId = rh_ruleId base, pf_title = rh_title base,
        pf_message =
          (if 1 < ta_count kept
           then rh_message base @ '' (muncul di '' @ show_nat (ta_count kept) @ '' baris)'' else rh_message base),
        pf_filePath = lh_filePath base, pf_lineStart = ta_lineStart kept, pf_lineEnd = ta_lineEnd kept,
        pf_snippet = rf_snippet base, pf_fingerprint = fst fg,
        pf_suppressedReason = (if hg_active g \<noteq> None then None else map_option snd (hg_suppressed g))\<rparr>)
      (case hg_active g of Some t \<Rightarrow> Some t | None \<Rightarrow> map_option fst (hg_suppressed g)))"

definition dedupeFindings :: "(jstr \<Rightarrow> jstr) \<Rightarrow> located_hit list \<Rightarrow> prepared_finding list" where
  "dedupeFindings sha1 hits = List.map_filter prepare (group_hits sha1 hits)"

subsection \<open>A loop over a map is a fold over each class\<close>

definition class_of :: "('a \<Rightarrow> 'k) \<Rightarrow> 'k \<Rightarrow> 'a list \<Rightarrow> 'a list" where
  "class_of key k xs = filter (\<lambda>x. key x = k) xs"

lemma js_unique_snoc: "js_unique (xs @ [x]) = (if x \<in> set xs then js_unique xs else js_unique xs @ [x])"
  by (induction xs) auto

lemma class_of_empty: "class_of key k xs = [] \<longleftrightarrow> k \<notin> key ` set xs"
  by (auto simp: class_of_def filter_empty_conv)

lemma al_set_map:
  assumes "distinct ks" "k \<in> set ks"
  shows "al_set k v (map (\<lambda>k. (k, f k)) ks) = map (\<lambda>k'. (k', if k' = k then v else f k')) ks"
  using assms by (induction ks) (auto intro!: map_idI)

lemma al_set_new: "k \<notin> fst ` set m \<Longrightarrow> al_set k v m = m @ [(k, v)]"
  by (induction k v m rule: al_set.induct) auto

lemma al_get_map: "al_get (map (\<lambda>k. (k, f k)) ks) k = (if k \<in> set ks then Some (f k) else None)"
  by (induction ks) auto

lemma group_by_fold:
  fixes key :: "'a \<Rightarrow> 'k" and init :: "'a \<Rightarrow> 'g" and step :: "'g \<Rightarrow> 'a \<Rightarrow> 'g"
  shows "foldl (\<lambda>m x. al_set (key x) (step (case al_get m (key x) of Some g \<Rightarrow> g | None \<Rightarrow> init x) x) m) [] xs =
    map (\<lambda>k. (k, foldl step (init (hd (class_of key k xs))) (class_of key k xs))) (js_unique (map key xs))"
proof (induction xs rule: rev_induct)
  case (snoc x xs)
  let ?g = "\<lambda>xs k. foldl step (init (hd (class_of key k xs))) (class_of key k xs)"
  let ?ks = "js_unique (map key xs)"
  have other: "?g (xs @ [x]) k = ?g xs k" if "k \<noteq> key x" for k
    using that by (simp add: class_of_def)
  show ?case
  proof (cases "key x \<in> key ` set xs")
    case True
    then have "class_of key (key x) xs \<noteq> []" by (simp add: class_of_empty)
    then have here: "?g (xs @ [x]) (key x) = step (?g xs (key x)) x" by (simp add: class_of_def)
    have "al_set (key x) (step (?g xs (key x)) x) (map (\<lambda>k. (k, ?g xs k)) ?ks) = map (\<lambda>k. (k, ?g (xs @ [x]) k)) ?ks"
      using True by (subst al_set_map) (auto simp: here other)
    with snoc.IH True show ?thesis by (simp add: al_get_map js_unique_snoc)
  next
    case False
    then have "class_of key (key x) xs = []" by (simp add: class_of_empty)
    then have here: "?g (xs @ [x]) (key x) = step (init x) x" by (simp add: class_of_def)
    have "k \<noteq> key x" if "k \<in> set ?ks" for k using that False by (metis set_js_unique list.set_map)
    then have "map (\<lambda>k. (k, ?g xs k)) ?ks = map (\<lambda>k. (k, ?g (xs @ [x]) k)) ?ks"
      using other by (intro map_cong) simp_all
    with snoc.IH False show ?thesis by (simp add: al_get_map al_set_new js_unique_snoc here image_image)
  qed
qed simp

subsection \<open>The fold over one class\<close>

definition range_of :: "located_hit list \<Rightarrow> tally" where
  "range_of hs = \<lparr>ta_lineStart = Min (rf_lineStart ` set hs), ta_lineEnd = Max (rf_lineEnd ` set hs), ta_count = length hs\<rparr>"

definition actives :: "located_hit list \<Rightarrow> located_hit list" where
  "actives hs = filter (\<lambda>h. lh_suppressedReason h = None) hs"

definition suppresseds :: "located_hit list \<Rightarrow> located_hit list" where
  "suppresseds hs = filter (\<lambda>h. lh_suppressedReason h \<noteq> None) hs"

definition group_of :: "located_hit list \<Rightarrow> hit_group" where
  "group_of hs = \<lparr>hg_base = hd (actives hs @ hs),
    hg_active = (if actives hs = [] then None else Some (range_of (actives hs))),
    hg_suppressed = (if suppresseds hs = [] then None
      else Some (range_of (suppresseds hs), the (lh_suppressedReason (hd (suppresseds hs)))))\<rparr>"

lemma range_of_single: "range_of [h] = widen h (new_tally h)"
  by (simp add: range_of_def widen_def new_tally_def)

lemma range_of_snoc: "hs \<noteq> [] \<Longrightarrow> range_of (hs @ [h]) = widen h (range_of hs)"
  by (simp add: range_of_def widen_def min.commute max.commute)

lemma add_to_group_of: "hs \<noteq> [] \<Longrightarrow> add_to_group (group_of hs) h = group_of (hs @ [h])"
  by (cases "lh_suppressedReason h")
    (auto simp: add_to_group_def group_of_def actives_def suppresseds_def range_of_snoc range_of_single hd_append)

lemma add_to_new_group: "add_to_group (new_group h) h = group_of [h]"
  by (cases "lh_suppressedReason h")
    (auto simp: add_to_group_def new_group_def group_of_def actives_def suppresseds_def range_of_single)

lemma fold_group: "hs \<noteq> [] \<Longrightarrow> foldl add_to_group (new_group (hd hs)) hs = group_of hs"
proof (induction hs rule: rev_induct)
  case (snoc h hs)
  show ?case
  proof (cases "hs = []")
    case False
    with snoc.IH add_to_group_of [OF False, of h] show ?thesis by simp
  qed (simp add: add_to_new_group)
qed simp

definition hits_with :: "(jstr \<Rightarrow> jstr) \<Rightarrow> located_hit list \<Rightarrow> jstr \<Rightarrow> located_hit list" where
  "hits_with sha1 hits fingerprint = filter (\<lambda>h. hit_fingerprint sha1 h = fingerprint) hits"

lemma group_hits_eq:
  "group_hits sha1 hits =
    map (\<lambda>k. (k, group_of (hits_with sha1 hits k))) (js_unique (map (hit_fingerprint sha1) hits))"
proof -
  have step: "group_step sha1 = (\<lambda>m x. al_set (hit_fingerprint sha1 x)
      (add_to_group (case al_get m (hit_fingerprint sha1 x) of Some g \<Rightarrow> g | None \<Rightarrow> new_group x) x) m)"
    by (simp add: group_step_def Let_def fun_eq_iff)
  have "foldl add_to_group (new_group (hd (class_of (hit_fingerprint sha1) k hits))) (class_of (hit_fingerprint sha1) k hits)
      = group_of (hits_with sha1 hits k)" if "k \<in> set (map (hit_fingerprint sha1) hits)" for k
    using that fold_group [of "class_of (hit_fingerprint sha1) k hits"]
    by (simp add: class_of_empty) (simp add: class_of_def hits_with_def)
  then show ?thesis
    unfolding group_hits_def step group_by_fold by (intro map_cong) auto
qed

definition kept_hits :: "located_hit list \<Rightarrow> located_hit list" where
  "kept_hits hs = (if actives hs = [] then hs else actives hs)"

definition merged :: "jstr \<Rightarrow> located_hit list \<Rightarrow> prepared_finding" where
  "merged fingerprint hs =
    (let kept = kept_hits hs; base = hd kept in
     \<lparr>pf_ruleId = rh_ruleId base, pf_title = rh_title base,
      pf_message =
        (if 1 < length kept then rh_message base @ '' (muncul di '' @ show_nat (length kept) @ '' baris)'' else rh_message base),
      pf_filePath = lh_filePath base, pf_lineStart = Min (rf_lineStart ` set kept),
      pf_lineEnd = Max (rf_lineEnd ` set kept), pf_snippet = rf_snippet base, pf_fingerprint = fingerprint,
      pf_suppressedReason = lh_suppressedReason base\<rparr>)"

lemma suppresseds_all: "actives hs = [] \<Longrightarrow> suppresseds hs = hs"
  by (simp add: actives_def suppresseds_def filter_empty_conv filter_id_conv)

lemma prepare_group:
  assumes "hs \<noteq> []"
  shows "prepare (k, group_of hs) = Some (merged k hs)"
proof (cases "actives hs = []")
  case True
  then have "lh_suppressedReason (hd hs) \<noteq> None"
    using assms by (auto simp: actives_def filter_empty_conv)
  with True assms show ?thesis
    by (auto simp: prepare_def group_of_def merged_def kept_hits_def Let_def suppresseds_all range_of_def)
next
  case False
  then have "lh_suppressedReason (hd (actives hs)) = None"
    using hd_in_set [OF False] by (auto simp: actives_def)
  with False show ?thesis
    by (simp add: prepare_def group_of_def merged_def kept_hits_def Let_def range_of_def)
qed

lemma map_filter_map: "List.map_filter f (map g xs) = List.map_filter (f \<circ> g) xs"
  by (induction xs) (simp_all add: List.map_filter_simps split: option.split)

lemma map_filter_total: "(\<And>x. x \<in> set xs \<Longrightarrow> f x = Some (g x)) \<Longrightarrow> List.map_filter f xs = map g xs"
  by (induction xs) (simp_all add: List.map_filter_simps)

lemma dedupe_eq:
  "dedupeFindings sha1 hits =
    map (\<lambda>k. merged k (hits_with sha1 hits k)) (js_unique (map (hit_fingerprint sha1) hits))"
proof -
  have ne: "hits_with sha1 hits k \<noteq> []" if "k \<in> set (js_unique (map (hit_fingerprint sha1) hits))" for k
    using that by (auto simp: hits_with_def filter_empty_conv)
  show ?thesis
    unfolding dedupeFindings_def group_hits_eq map_filter_map
    by (intro map_filter_total) (use ne prepare_group in auto)
qed

subsection \<open>What a fingerprint tells apart\<close>

lemma show_int_inj: "show_int i = show_int j \<longleftrightarrow> i = j"
proof -
  have "show_nat n \<noteq> CHR ''-'' # s" for n s
    using show_nat_digits [of "CHR ''-''" n] by (auto simp: is_digit_def)
  then show ?thesis
    by (auto simp: show_int_def show_nat_inj dest: sym)
qed

lemma nul_split:
  assumes "CHR 0x00 \<notin> set a" "CHR 0x00 \<notin> set b" "a @ CHR 0x00 # x = b @ CHR 0x00 # y"
  shows "a = b \<and> x = y"
  using assms
proof (induction a arbitrary: b)
  case Nil
  then show ?case by (cases b) auto
next
  case (Cons c a)
  then show ?case by (cases b) auto
qed

lemma fingerprint_parts:
  assumes "inj sha1" "hit_fingerprint sha1 h = hit_fingerprint sha1 h'"
    and "\<forall>x \<in> {h, h'}. CHR 0x00 \<notin> set (rh_ruleId x) \<and> CHR 0x00 \<notin> set (lh_filePath x)"
  shows "rh_ruleId h = rh_ruleId h' \<and> lh_filePath h = lh_filePath h' \<and> dedupe_key h = dedupe_key h'"
proof -
  from injD [OF assms(1)] assms(2) have
    "rh_ruleId h @ CHR 0x00 # lh_filePath h @ CHR 0x00 # dedupe_key h =
      rh_ruleId h' @ CHR 0x00 # lh_filePath h' @ CHR 0x00 # dedupe_key h'"
    by (simp add: hit_fingerprint_def)
  then show ?thesis using nul_split assms(3) by (metis insertCI)
qed

subsection \<open>The properties of the deduplication\<close>

text \<open>C35: deduplication is the grouping of the hits by fingerprint, in order of first occurrence.  The
  finding of a class takes its active hits if there are any and all of them otherwise: it
  carries the data of the first of these, spans from their least to their greatest line, and
  its message counts them.\<close>

theorem dedupeFindings_merges_classes:
  "dedupeFindings sha1 hits =
    map (\<lambda>k. merged k (hits_with sha1 hits k)) (js_unique (map (hit_fingerprint sha1) hits))"
  by (rule dedupe_eq)

text \<open>No active hit is lost or hidden.  Fingerprints of findings are distinct, and the one with the
  fingerprint of an active hit is active and spans its lines, whatever suppressed copies there are.\<close>

theorem active_hit_reported:
  assumes "h \<in> set hits" "lh_suppressedReason h = None"
  shows "distinct (map pf_fingerprint (dedupeFindings sha1 hits)) \<and>
    (\<exists>f \<in> set (dedupeFindings sha1 hits). pf_fingerprint f = hit_fingerprint sha1 h \<and> pf_suppressedReason f = None \<and>
      pf_lineStart f \<le> rf_lineStart h \<and> rf_lineEnd h \<le> pf_lineEnd f)"
proof -
  let ?k = "hit_fingerprint sha1 h"
  let ?hs = "hits_with sha1 hits ?k"
  have h: "h \<in> set (actives ?hs)" using assms by (simp add: actives_def hits_with_def)
  then have kept: "kept_hits ?hs = actives ?hs" by (auto simp: kept_hits_def)
  have "lh_suppressedReason (hd (actives ?hs)) = None"
  proof -
    from h have "actives ?hs \<noteq> []" by auto
    from hd_in_set [OF this] show ?thesis by (simp add: actives_def)
  qed
  then have "pf_suppressedReason (merged ?k ?hs) = None" "pf_fingerprint (merged ?k ?hs) = ?k"
    "pf_lineStart (merged ?k ?hs) \<le> rf_lineStart h" "rf_lineEnd h \<le> pf_lineEnd (merged ?k ?hs)"
    using h by (simp_all add: merged_def kept Let_def)
  moreover have "merged ?k ?hs \<in> set (dedupeFindings sha1 hits)"
    unfolding dedupe_eq using assms(1) by auto
  moreover have "map pf_fingerprint (dedupeFindings sha1 hits) = js_unique (map (hit_fingerprint sha1) hits)"
    unfolding dedupe_eq by (simp add: comp_def merged_def Let_def)
  ultimately show ?thesis by auto
qed

definition sample_located :: "line_no \<Rightarrow> suppression_reason option \<Rightarrow> located_hit" where
  "sample_located n reason =
    \<lparr>rf_lineStart = n, rf_lineEnd = n, rf_snippet = Some ''AKIA****'', rf_candidate = None, rf_matchStart = None,
     rf_matchLength = None, rh_ruleId = ''secret.aws_access_key'', rh_severity = CRITICAL, rh_title = ''t'',
     rh_message = ''m'', rh_identity = Some \<lparr>fi_key = ''k'', fi_valuePrefix = ''AKIA'', fi_valueLength = 20\<rparr>,
     rh_match = Some (0, 20), lh_filePath = ''a.ts'', lh_suppressedReason = reason\<rparr>"

lemma active_hit_reported_witness:
  "length (dedupeFindings (\<lambda>s. s) [sample_located 3 (Some COMMENT), sample_located 9 None]) = 1 \<and>
   (\<exists>f \<in> set (dedupeFindings (\<lambda>s. s) [sample_located 3 (Some COMMENT), sample_located 9 None]).
      pf_suppressedReason f = None \<and> pf_lineStart f \<le> 9)"
proof -
  have "length (dedupeFindings (\<lambda>s. s) [sample_located 3 (Some COMMENT), sample_located 9 None]) = 1"
    by code_simp
  moreover have "rf_lineStart (sample_located 9 None) = 9" "lh_suppressedReason (sample_located 9 None) = None"
    by (simp_all add: sample_located_def)
  note active_hit_reported [OF _ this(2), of "[sample_located 3 (Some COMMENT), sample_located 9 None]" "\<lambda>s. s"]
  ultimately show ?thesis using \<open>rf_lineStart (sample_located 9 None) = 9\<close> by auto
qed

text \<open>With a collision-free hash, hits that merge are hits of one rule in one file, and two
  credentials are merged only when the rule told them apart no better: hits of a \<open>secret.*\<close> rule
  with one fingerprint either both have an identity or lie on the same line.\<close>

theorem merged_secrets_same_issue:
  assumes "inj sha1" "hit_fingerprint sha1 h = hit_fingerprint sha1 h'"
    and "\<forall>x \<in> {h, h'}. CHR 0x00 \<notin> set (rh_ruleId x) \<and> CHR 0x00 \<notin> set (lh_filePath x)"
    and "starts_with (rh_ruleId h) ''secret.''"
  shows "rh_ruleId h = rh_ruleId h' \<and> lh_filePath h = lh_filePath h' \<and>
    (rh_identity h = None \<longleftrightarrow> rh_identity h' = None) \<and>
    (rh_identity h = None \<longrightarrow> rf_lineStart h = rf_lineStart h')"
proof -
  from fingerprint_parts [OF assms(1-3)] have eq: "rh_ruleId h = rh_ruleId h'" "lh_filePath h = lh_filePath h'"
    "dedupe_key h = dedupe_key h'" by auto
  with assms(4) have "rh_identity h = None \<longleftrightarrow> rh_identity h' = None"
    by (auto simp: dedupe_key_def split: option.splits)
  moreover have "rf_lineStart h = rf_lineStart h'" if "rh_identity h = None"
    using that calculation eq assms(4) by (auto simp: dedupe_key_def show_int_inj split: option.splits)
  ultimately show ?thesis using eq by blast
qed

lemma merged_secrets_same_issue_witness:
  "let h = (sample_located 3 None)\<lparr>rh_identity := None\<rparr>; h' = (sample_located 4 None)\<lparr>rh_identity := None\<rparr>
   in hit_fingerprint (\<lambda>s. s) h \<noteq> hit_fingerprint (\<lambda>s. s) h'"
  using merged_secrets_same_issue [of "\<lambda>s. s" "(sample_located 3 None)\<lparr>rh_identity := None\<rparr>"
      "(sample_located 4 None)\<lparr>rh_identity := None\<rparr>"]
  by (auto simp: sample_located_def starts_with_def)

end
