(* ===== verification/Ai_Merge.thy ===== *)
theory Ai_Merge
  imports Lifecycle
begin

section \<open>Merging a run of the model with the one before it\<close>

text \<open>
  \<open>src/modules/ai/scan/regenerate-merge.ts\<close>: when a comparable run of the same commit came
  before, its findings are merged into the new rows instead of being replaced.  \<open>uuid n\<close> is
  the \<open>n\<close>-th result of \<open>randomUUID\<close>.  A JavaScript string is false in a condition when it
  is empty, which the tests on \<open>originFindingId\<close> keep.
\<close>

datatype previous_run_kind = SameScan | BaseScan

record previous_finding = stored_finding +
  pv_status :: "finding_status option"
  pv_originFindingId :: "jstr option"

record merge_stats =
  ms_matched :: nat
  ms_escalated :: nat
  ms_notReproduced :: nat

record run_identity =
  ri_provider :: "jstr option"
  ri_model :: "jstr option"
  ri_promptVersion :: "jstr option"
  ri_locale :: "jstr option"
  ri_ruleTiers :: "rule_tier list"

subsection \<open>Comparable runs\<close>

text \<open>\<open>/-(\d{4}-\d{2}-\d{2}|\d{8})$/\<close>.\<close>

definition SNAPSHOT_DATE :: rx where
  "SNAPSHOT_DATE = rseq [rchar (CHR ''-''),
    RGroup 1 (RAlt
      (rseq [rtimes 4 4 (RSet is_digit), rchar (CHR ''-''), rtimes 2 2 (RSet is_digit), rchar (CHR ''-''),
         rtimes 2 2 (RSet is_digit)])
      (rtimes 8 8 (RSet is_digit))), REol]"

definition modelFamily :: "jstr \<Rightarrow> jstr" where
  "modelFamily model = rx_replace SNAPSHOT_DATE [] model"

definition isComparableRun :: "run_identity \<Rightarrow> run_identity \<Rightarrow> bool" where
  "isComparableRun earlier current \<longleftrightarrow>
    ri_provider earlier \<noteq> None \<and> ri_provider earlier = ri_provider current \<and>
    ri_promptVersion earlier \<noteq> None \<and> ri_promptVersion earlier = ri_promptVersion current \<and>
    ri_locale earlier \<noteq> None \<and> ri_locale earlier = ri_locale current \<and>
    sameTiers (ri_ruleTiers earlier) (ri_ruleTiers current) \<and>
    (case (ri_model earlier, ri_model current) of
      (Some a, Some b) \<Rightarrow> modelFamily a = modelFamily b | _ \<Rightarrow> False)"

subsection \<open>Rows\<close>

fun SEVERITY_RANK :: "finding_severity \<Rightarrow> nat" where
  "SEVERITY_RANK CRITICAL = 3"
| "SEVERITY_RANK MAJOR = 2"
| "SEVERITY_RANK MINOR = 1"
| "SEVERITY_RANK INFO = 0"

definition higher :: "finding_severity \<Rightarrow> finding_severity \<Rightarrow> finding_severity" where
  "higher a b = (if SEVERITY_RANK a \<ge> SEVERITY_RANK b then a else b)"

definition isActiveAi :: "finding_row \<Rightarrow> bool" where
  "isActiveAi row \<longleftrightarrow> fd_source row = AI \<and> fr_status row \<noteq> RESOLVED \<and> fd_suppressedReason row = None"

definition carried :: "previous_finding \<Rightarrow> previous_run_kind \<Rightarrow> jstr \<Rightarrow> finding_row" where
  "carried earlier kind uuid =
    \<lparr>fd_source = fd_source earlier, fd_ruleId = fd_ruleId earlier, fd_severity = fd_severity earlier,
     fd_title = fd_title earlier, fd_message = fd_message earlier, fd_filePath = fd_filePath earlier,
     fd_lineStart = fd_lineStart earlier, fd_lineEnd = fd_lineEnd earlier, fd_snippet = fd_snippet earlier,
     fd_fingerprint = fd_fingerprint earlier, fd_suppressedReason = None, fd_category = fd_category earlier,
     fd_confidence = fd_confidence earlier, fd_reportedSeverity = fd_reportedSeverity earlier,
     fd_dedupeOfId = None, st_id = uuid, st_previousRunSeverity = st_previousRunSeverity earlier,
     st_latestRunSeverity = st_latestRunSeverity earlier, st_notReproduced = True,
     st_firstSeenScanId = st_firstSeenScanId earlier,
     fr_status = (case kind of
        SameScan \<Rightarrow> (case pv_status earlier of Some s \<Rightarrow> s | None \<Rightarrow> NEW)
      | BaseScan \<Rightarrow> PERSISTED),
     fr_originFindingId = (case kind of SameScan \<Rightarrow> pv_originFindingId earlier | BaseScan \<Rightarrow> Some (st_id earlier)),
     fr_resolvedInScanId = None\<rparr>"

text \<open>\<open>id ? unused.get(id) : undefined\<close>.\<close>

definition get_truthy :: "(jstr \<times> 'v) list \<Rightarrow> jstr option \<Rightarrow> 'v option" where
  "get_truthy m key = (case key of Some k \<Rightarrow> if k = [] then None else al_get m k | None \<Rightarrow> None)"

definition or_else :: "'a option \<Rightarrow> 'a option \<Rightarrow> 'a option" where
  "or_else a b = (case a of None \<Rightarrow> b | Some x \<Rightarrow> Some x)"

definition match_for :: "(jstr \<times> previous_finding) list \<Rightarrow> finding_row \<Rightarrow> previous_finding option" where
  "match_for unused row =
    or_else (get_truthy unused (fr_originFindingId row))
      (or_else (List.find (\<lambda>e. fd_fingerprint e = fd_fingerprint row) (map snd unused))
        (List.find (\<lambda>e. isSameFinding (matchable_of row) (matchable_of e)) (map snd unused)))"

definition with_lifecycle :: "previous_run_kind \<Rightarrow> previous_finding \<Rightarrow> finding_row \<Rightarrow> finding_row" where
  "with_lifecycle kind mt row =
    (if kind = BaseScan \<and> fr_originFindingId row \<noteq> Some (st_id mt)
     then row\<lparr>fr_status := PERSISTED, fr_originFindingId := Some (st_id mt), st_firstSeenScanId := st_firstSeenScanId mt\<rparr>
     else row)"

definition merged_row :: "previous_run_kind \<Rightarrow> finding_row \<Rightarrow> previous_finding \<Rightarrow> finding_row" where
  "merged_row kind row mt =
    (if fd_severity mt = fd_severity row
     then (with_lifecycle kind mt row)\<lparr>st_previousRunSeverity := st_previousRunSeverity mt,
        st_latestRunSeverity := st_latestRunSeverity mt\<rparr>
     else (with_lifecycle kind mt row)\<lparr>fd_severity := higher (fd_severity mt) (fd_severity row),
        st_previousRunSeverity := Some (fd_severity mt), st_latestRunSeverity := Some (fd_severity row)\<rparr>)"

definition count_match :: "finding_row \<Rightarrow> previous_finding \<Rightarrow> merge_stats \<Rightarrow> merge_stats" where
  "count_match row mt stats =
    stats\<lparr>ms_matched := ms_matched stats + 1,
      ms_escalated := ms_escalated stats +
        (if fd_severity mt \<noteq> fd_severity row \<and> higher (fd_severity mt) (fd_severity row) \<noteq> fd_severity row
         then 1 else 0)\<rparr>"

subsection \<open>The merge\<close>

fun merge_loop :: "previous_run_kind \<Rightarrow> finding_row list \<Rightarrow> (jstr \<times> previous_finding) list \<Rightarrow> merge_stats \<Rightarrow>
    finding_row list \<times> (jstr \<times> previous_finding) list \<times> merge_stats" where
  "merge_loop kind [] unused stats = ([], unused, stats)"
| "merge_loop kind (row # rows) unused stats =
    (if \<not> isActiveAi row then apfst ((#) row) (merge_loop kind rows unused stats)
     else (case match_for unused row of
        None \<Rightarrow> apfst ((#) row) (merge_loop kind rows unused stats)
      | Some mt \<Rightarrow> apfst ((#) (merged_row kind row mt))
          (merge_loop kind rows (al_delete (st_id mt) unused) (count_match row mt stats))))"

definition own_rows :: "previous_run_kind \<Rightarrow> (jstr \<times> previous_finding) list \<Rightarrow> finding_row list \<Rightarrow> finding_row list" where
  "own_rows kind unused rows =
    (case kind of
      BaseScan \<Rightarrow> filter (\<lambda>row. \<not> (fr_status row = RESOLVED \<and> get_truthy unused (fr_originFindingId row) \<noteq> None)) rows
    | SameScan \<Rightarrow> rows)"

definition carry_rest :: "(nat \<Rightarrow> jstr) \<Rightarrow> previous_run_kind \<Rightarrow> previous_finding list \<Rightarrow> finding_row list" where
  "carry_rest uuid kind rest = map (\<lambda>(i, e). carried e kind (uuid i)) (enumerate 0 rest)"

definition mergeWithPreviousRun ::
  "(nat \<Rightarrow> jstr) \<Rightarrow> finding_row list \<Rightarrow> previous_finding list \<Rightarrow> previous_run_kind \<Rightarrow> finding_row list \<times> merge_stats" where
  "mergeWithPreviousRun uuid rows previous kind =
    (let unused = al_of (map (\<lambda>f. (st_id f, f)) previous);
         (merged, rest, stats) = merge_loop kind (own_rows kind unused rows) unused
           \<lparr>ms_matched = 0, ms_escalated = 0, ms_notReproduced = 0\<rparr>
     in (merged @ carry_rest uuid kind (map snd rest), stats\<lparr>ms_notReproduced := length rest\<rparr>))"
subsection \<open>Facts on the merge\<close>

lemma higher_rank: "SEVERITY_RANK (higher a b) = max (SEVERITY_RANK a) (SEVERITY_RANK b)"
  by (simp add: higher_def)

lemma rank_inj: "SEVERITY_RANK a = SEVERITY_RANK b \<longleftrightarrow> a = b"
  by (cases a; cases b) simp_all

text \<open>The map of the earlier findings is keyed by their ids.\<close>

definition keyed :: "(jstr \<times> previous_finding) list \<Rightarrow> bool" where
  "keyed unused \<longleftrightarrow> al_distinct unused \<and> (\<forall>(k, e) \<in> set unused. k = st_id e)"

lemma keyed_delete: "keyed unused \<Longrightarrow> keyed (al_delete k unused)"
  by (auto simp: keyed_def al_delete_filter distinct_map_filter)

lemma keyed_of:
  assumes "distinct (map st_id previous)"
  shows "keyed (al_of (map (\<lambda>f. (st_id f, f)) previous))"
    "map snd (al_of (map (\<lambda>f. (st_id f, f)) previous)) = previous"
proof -
  have fresh: "al_set k v m = m @ [(k, v)]" if "k \<notin> fst ` set m" for k and v :: previous_finding and m
    using that by (induction k v m rule: al_set.induct) auto
  have "distinct (map fst m @ map st_id fs) \<Longrightarrow>
      fold (\<lambda>(k, v) m. al_set k v m) (map (\<lambda>f. (st_id f, f)) fs) m = m @ map (\<lambda>f. (st_id f, f)) fs"
    for m and fs :: "previous_finding list"
  proof (induction fs arbitrary: m)
    case (Cons f fs)
    then have new: "st_id f \<notin> fst ` set m" by auto
    from Cons.IH [of "m @ [(st_id f, f)]"] Cons.prems show ?case by (simp add: fresh [OF new])
  qed simp
  from this [of "[]" previous] assms
  have eq: "al_of (map (\<lambda>f. (st_id f, f)) previous) = map (\<lambda>f. (st_id f, f)) previous"
    by (simp add: al_of_def)
  show "keyed (al_of (map (\<lambda>f. (st_id f, f)) previous))"
    using assms by (simp add: eq keyed_def comp_def)
  show "map snd (al_of (map (\<lambda>f. (st_id f, f)) previous)) = previous"
    by (simp add: eq comp_def)
qed

lemma keyed_in: "keyed unused \<Longrightarrow> e \<in> snd ` set unused \<Longrightarrow> (st_id e, e) \<in> set unused"
  by (force simp: keyed_def)

lemma match_for_in: "match_for unused row = Some mt \<Longrightarrow> keyed unused \<Longrightarrow> (st_id mt, mt) \<in> set unused"
  by (rule keyed_in)
    (force simp: match_for_def or_else_def get_truthy_def split: option.splits if_splits
      dest!: al_get_Some_in find_SomeD)+

lemma delete_mset:
  assumes "keyed unused" "(k, e) \<in> set unused"
  shows "mset (map snd unused) = add_mset e (mset (map snd (al_delete k unused)))"
  using assms
proof (induction k unused rule: al_delete.induct)
  case (2 k k' v' m)
  show ?case
  proof (cases "k' = k")
    case True
    with 2(2,3) have "v' = e" by (force simp: keyed_def)
    with True show ?thesis by simp
  next
    case False
    from 2(2) have "keyed m" by (simp add: keyed_def)
    from 2(1) [OF False this] 2(3) False show ?thesis by (simp add: add_mset_commute)
  qed
qed simp

lemma length_filter_mset:
  assumes "mset xs = add_mset e (mset ys)"
  shows "length (filter P xs) = (if P e then 1 else 0) + length (filter P ys)"
proof -
  have size: "length (filter P zs) = size (filter_mset P (mset zs))" for zs by (metis mset_filter size_mset)
  show ?thesis unfolding size assms by simp
qed

definition at_least :: "nat \<Rightarrow> finding_row \<Rightarrow> bool" where
  "at_least n row \<longleftrightarrow> isActiveAi row \<and> n \<le> SEVERITY_RANK (fd_severity row)"

lemma merged_row_simps:
  "fd_severity (merged_row kind row mt) = higher (fd_severity mt) (fd_severity row)"
  "fd_source (merged_row kind row mt) = fd_source row"
  "fd_suppressedReason (merged_row kind row mt) = fd_suppressedReason row"
  "isActiveAi row \<Longrightarrow> isActiveAi (merged_row kind row mt)"
  by (auto simp: merged_row_def with_lifecycle_def higher_def isActiveAi_def)

text \<open>What becomes of one of the run's own rows.\<close>

definition row_after :: "previous_run_kind \<Rightarrow> previous_finding list \<Rightarrow> finding_row \<Rightarrow> finding_row \<Rightarrow> bool" where
  "row_after kind previous row row' \<longleftrightarrow>
    row' = row \<or>
    isActiveAi row \<and> (\<exists>e \<in> set previous. row' = merged_row kind row e \<and>
      (fr_originFindingId row = Some (st_id e) \<or> isSameFinding (matchable_of row) (matchable_of e)))"

lemma row_after_mono: "row_after kind ps r r' \<Longrightarrow> set ps \<subseteq> set qs \<Longrightarrow> row_after kind qs r r'"
  by (auto simp: row_after_def)

lemma row_after_severity:
  "row_after kind ps r r' \<Longrightarrow> SEVERITY_RANK (fd_severity r) \<le> SEVERITY_RANK (fd_severity r')"
  by (auto simp: row_after_def merged_row_simps higher_rank)

lemma match_for_same:
  assumes "match_for unused row = Some mt" "keyed unused"
  shows "fr_originFindingId row = Some (st_id mt) \<or> isSameFinding (matchable_of row) (matchable_of mt)"
  using assms
  by (auto simp: match_for_def or_else_def get_truthy_def keyed_def isSameFinding_def matchable_of_def
      split: option.splits if_splits dest!: al_get_Some_in find_SomeD)

lemma merge_loop_spec:
  assumes "merge_loop kind rows unused stats = (rows', rest, stats')" "keyed unused"
  shows "list_all2 (row_after kind (map snd unused)) rows rows' \<and> keyed rest \<and>
    mset (map snd rest) \<subseteq># mset (map snd unused) \<and>
    ms_matched stats' + length rest = ms_matched stats + length unused \<and>
    length (filter (\<lambda>e. n \<le> SEVERITY_RANK (fd_severity e)) (map snd unused)) \<le>
      length (filter (at_least n) rows') + length (filter (\<lambda>e. n \<le> SEVERITY_RANK (fd_severity e)) (map snd rest))"
  using assms
proof (induction kind rows unused stats arbitrary: rows' rule: merge_loop.induct)
  case (2 kind row rows unused stats)
  note prems = "2.prems"
  consider (skip) "\<not> isActiveAi row \<or> match_for unused row = None"
    | (hit) mt where "isActiveAi row" "match_for unused row = Some mt" by fastforce
  then show ?case
  proof cases
    case skip
    with prems(1) obtain rs where rs: "merge_loop kind rows unused stats = (rs, rest, stats')" "rows' = row # rs"
      by (cases "merge_loop kind rows unused stats") (auto split: if_splits)
    from skip 2(1,2) rs(1) prems(2) show ?thesis
      unfolding rs(2) by (fastforce simp: row_after_def)
  next
    case hit
    let ?del = "al_delete (st_id mt) unused"
    from hit prems(1) obtain rs where
      rs: "merge_loop kind rows ?del (count_match row mt stats) = (rs, rest, stats')" "rows' = merged_row kind row mt # rs"
      by (cases "merge_loop kind rows ?del (count_match row mt stats)") auto
    from match_for_in [OF hit(2) prems(2)] have inu: "(st_id mt, mt) \<in> set unused" .
    note del = delete_mset [OF prems(2) inu]
    from 2(3) [OF _ hit(2) rs(1) keyed_delete [OF prems(2)]] hit(1)
    have ih: "list_all2 (row_after kind (map snd ?del)) rows rs" "keyed rest"
      "mset (map snd rest) \<subseteq># mset (map snd ?del)"
      "ms_matched stats' + length rest = ms_matched (count_match row mt stats) + length ?del"
      "length (filter (\<lambda>e. n \<le> SEVERITY_RANK (fd_severity e)) (map snd ?del)) \<le>
        length (filter (at_least n) rs) + length (filter (\<lambda>e. n \<le> SEVERITY_RANK (fd_severity e)) (map snd rest))"
      by auto
    have sub: "set (map snd ?del) \<subseteq> set (map snd unused)" using del by (metis set_mset_mset set_mset_add_mset_insert subset_insertI)
    have "list_all2 (row_after kind (map snd unused)) rows rs"
      by (rule list_all2_mono [OF ih(1)]) (rule row_after_mono [OF _ sub])
    moreover have "row_after kind (map snd unused) row (merged_row kind row mt)"
      using hit match_for_same [OF hit(2) prems(2)] inu by (force simp: row_after_def)
    moreover have "length unused = Suc (length ?del)" using arg_cong [OF del, of size] by simp
    moreover have "length (filter (\<lambda>e. n \<le> SEVERITY_RANK (fd_severity e)) (map snd unused)) =
        (if n \<le> SEVERITY_RANK (fd_severity mt) then 1 else 0) +
        length (filter (\<lambda>e. n \<le> SEVERITY_RANK (fd_severity e)) (map snd ?del))"
      by (rule length_filter_mset [OF del])
    moreover have "n \<le> SEVERITY_RANK (fd_severity mt) \<Longrightarrow> at_least n (merged_row kind row mt)"
      using hit(1) by (simp add: at_least_def merged_row_simps higher_rank)
    moreover have "mset (map snd rest) \<subseteq># mset (map snd unused)"
      using ih(3) del by (simp add: subset_mset.order_trans)
    ultimately show ?thesis using ih rs(2) by (auto simp: count_match_def)
  qed
qed simp

lemma carried_simps [simp]:
  "fd_severity (carried e kind i) = fd_severity e" "fd_source (carried e kind i) = fd_source e"
  "fd_suppressedReason (carried e kind i) = None" "st_notReproduced (carried e kind i)"
  "fd_fingerprint (carried e kind i) = fd_fingerprint e" "fd_filePath (carried e kind i) = fd_filePath e"
  by (simp_all add: carried_def)

lemma carried_active:
  assumes "fd_source e = AI" "pv_status e \<noteq> Some RESOLVED"
  shows "isActiveAi (carried e kind i)"
  using assms by (auto simp: isActiveAi_def carried_def split: previous_run_kind.split option.split)

lemma carry_rest_count:
  assumes "\<forall>e \<in> set rest. fd_source e = AI \<and> pv_status e \<noteq> Some RESOLVED"
  shows "length (filter (at_least n) (map (\<lambda>(i, e). carried e kind (uuid i)) (enumerate m rest))) =
    length (filter (\<lambda>e. n \<le> SEVERITY_RANK (fd_severity e)) rest)"
  using assms by (induction rest arbitrary: m) (auto simp: at_least_def carried_active)

text \<open>No earlier finding vanishes from a regenerated review.  Given the active findings of the
  earlier run, with distinct ids, each is matched by a row of the new run or carried over, and
  counted once; for every severity the merged rows hold at least as many active findings of it or
  above as the earlier run had, so a critical of the earlier run is never lost; the run's own rows
  stay in their order, each unchanged or merged with an earlier finding that is the same, and never
  with a lower severity.\<close>

lemma mergeWithPreviousRun_keeps:
  assumes ids: "distinct (map st_id previous)"
    and active: "\<forall>e \<in> set previous. fd_source e = AI \<and> pv_status e \<noteq> Some RESOLVED"
    and res: "mergeWithPreviousRun uuid rows previous kind = (out, stats)"
  shows "ms_matched stats + ms_notReproduced stats = length previous \<and>
    length (filter (\<lambda>e. n \<le> SEVERITY_RANK (fd_severity e)) previous) \<le>
      length (filter (\<lambda>r. isActiveAi r \<and> n \<le> SEVERITY_RANK (fd_severity r)) out) \<and>
    (\<exists>own own' kept. out = own' @ kept \<and> length kept = ms_notReproduced stats \<and>
      own = own_rows kind (al_of (map (\<lambda>f. (st_id f, f)) previous)) rows \<and>
      list_all2 (\<lambda>r r'. row_after kind previous r r' \<and>
        SEVERITY_RANK (fd_severity r) \<le> SEVERITY_RANK (fd_severity r')) own own' \<and>
      (\<forall>k \<in> set kept. st_notReproduced k \<and> isActiveAi k))"
proof -
  let ?un = "al_of (map (\<lambda>f. (st_id f, f)) previous)" and ?z = "\<lparr>ms_matched = 0, ms_escalated = 0, ms_notReproduced = 0\<rparr>"
  note k = keyed_of [OF ids]
  obtain own' rest st where l: "merge_loop kind (own_rows kind ?un rows) ?un ?z = (own', rest, st)"
    by (cases "merge_loop kind (own_rows kind ?un rows) ?un ?z") auto
  note sp = merge_loop_spec [OF l k(1), unfolded k(2)]
  from res l have out: "out = own' @ carry_rest uuid kind (map snd rest)" "stats = st\<lparr>ms_notReproduced := length rest\<rparr>"
    by (simp_all add: mergeWithPreviousRun_def)
  have "set (map snd rest) \<subseteq> set previous" using sp [of 0] by (metis set_mset_mono set_mset_mset)
  with active have ra: "\<forall>e \<in> set (map snd rest). fd_source e = AI \<and> pv_status e \<noteq> Some RESOLVED" by blast
  have len: "length ?un = length previous" using arg_cong [OF k(2), of length] by simp
  have kept: "st_notReproduced r \<and> isActiveAi r" if "r \<in> set (carry_rest uuid kind (map snd rest))" for r
  proof -
    from that obtain e i where "e \<in> set (map snd rest)" "r = carried e kind i"
      by (auto simp: carry_rest_def enumerate_eq_zip dest!: set_zip_rightD)
    with ra carried_active show ?thesis by auto
  qed
  have own: "list_all2 (\<lambda>r r'. row_after kind previous r r' \<and>
      SEVERITY_RANK (fd_severity r) \<le> SEVERITY_RANK (fd_severity r')) (own_rows kind ?un rows) own'"
    using sp [of 0] by (auto intro: list_all2_mono row_after_severity)
  have count: "length (filter (\<lambda>e. n \<le> SEVERITY_RANK (fd_severity e)) previous) \<le>
      length (filter (\<lambda>r. isActiveAi r \<and> n \<le> SEVERITY_RANK (fd_severity r)) out)"
    using sp [of n] carry_rest_count [OF ra, of n kind uuid 0]
    by (simp add: out(1) carry_rest_def at_least_def [abs_def])
  have len2: "length (carry_rest uuid kind (map snd rest)) = ms_notReproduced stats"
    by (simp add: out(2) carry_rest_def)
  show ?thesis
    using sp [of 0] len count own kept len2 out by auto
qed

definition sample_previous :: previous_finding where
  "sample_previous = \<lparr>fd_source = AI, fd_ruleId = ''ai.injection'', fd_severity = CRITICAL, fd_title = ''SQL'',
    fd_message = ''m'', fd_filePath = ''a.ts'', fd_lineStart = 3, fd_lineEnd = 3, fd_snippet = None,
    fd_fingerprint = ''f1'', fd_suppressedReason = None, fd_category = Some CatInjection, fd_confidence = None,
    fd_reportedSeverity = None, fd_dedupeOfId = None, st_id = ''p1'', st_previousRunSeverity = None,
    st_latestRunSeverity = None, st_notReproduced = False, st_firstSeenScanId = ''s1'',
    pv_status = Some NEW, pv_originFindingId = None\<rparr>"

definition sample_row :: finding_row where
  "sample_row = (carried sample_previous SameScan ''r1'')\<lparr>fd_severity := MAJOR, st_notReproduced := False\<rparr>"

lemma sample_merge:
  "map fd_severity (fst (mergeWithPreviousRun (\<lambda>_. ''u'') [sample_row] [sample_previous] SameScan)) = [CRITICAL]"
  "map fd_severity (fst (mergeWithPreviousRun (\<lambda>_. ''u'') [] [sample_previous] SameScan)) = [CRITICAL]"
  by (simp_all add: mergeWithPreviousRun_def own_rows_def al_of_def match_for_def get_truthy_def or_else_def
      isActiveAi_def sample_row_def sample_previous_def carried_def merged_row_def with_lifecycle_def higher_def
      count_match_def carry_rest_def)

end
