(* ===== verification/Ai_Validator.thy ===== *)
theory Ai_Validator
  imports Finding_Model Js_Regex
begin

section \<open>Accepting the findings of a model\<close>

text \<open>
  \<open>src/modules/ai/scan/ai-result-validator.ts\<close>: the checks on each finding of an answer that
  already matched the \<open>report_review\<close> schema, which is why a finding here has a category and a
  severity of the enumerations and whole line numbers.  A finding is accepted as a draft,
  rejected for a reason, or dropped because the model was not sure of it.
\<close>

record report_finding =
  rv_file :: jstr
  rv_line_start :: line_no
  rv_line_end :: line_no
  rv_category :: finding_category
  rv_severity :: finding_severity
  rv_title :: jstr
  rv_message :: jstr
  rv_confidence :: rat

text \<open>\<open>SentFile\<close> of \<open>ai-prompt-builder.ts\<close>: the lines the model was shown.\<close>

record sent_file =
  sn_addedLines :: "line_no list"
  sn_lines :: "(line_no \<times> jstr) list"

record ai_draft =
  dr_filePath :: jstr
  dr_lineStart :: line_no
  dr_lineEnd :: line_no
  dr_category :: finding_category
  dr_severity :: finding_severity
  dr_title :: jstr
  dr_message :: jstr
  dr_confidence :: rat
  dr_reportedSeverity :: finding_severity

datatype reject_reason =
  FileNotSent | BadRange | RangeTooLong | OutsideAddedLines | EmptyTitle | MessageTooShort | EchoesCode | TierDisabled

record validation_result =
  vr_accepted :: "ai_draft list"
  vr_rejected :: "(jstr \<times> reject_reason) list"
  vr_droppedLowConfidence :: nat

subsection \<open>Constants\<close>

definition MAX_RANGE :: int where "MAX_RANGE = 40"
definition MIN_MESSAGE_CHARS :: nat where "MIN_MESSAGE_CHARS = 20"
definition ECHO_MIN_TITLE_CHARS :: nat where "ECHO_MIN_TITLE_CHARS = 12"
definition ECHO_WINDOW_LINES :: int where "ECHO_WINDOW_LINES = 5"
definition DROP_BELOW :: rat where "DROP_BELOW = 1 / 2"
definition DOWNGRADE_BELOW :: rat where "DOWNGRADE_BELOW = 7 / 10"

definition HEDGES :: "jstr list" where
  "HEDGES = [''potential'', ''possible'', ''may'', ''might'', ''mungkin'', ''kemungkinan'', ''berpotensi'',
    ''potensi'', ''bisa jadi'']"

definition HEDGED_TITLE :: rx where
  "HEDGED_TITLE = rseq [RBol, RGroup 1 (ralt (map rlit_i HEDGES)), RWordB]"

definition SEVERITY_ORDER :: "finding_severity list" where
  "SEVERITY_ORDER = [MINOR, MAJOR, CRITICAL]"

subsection \<open>Texts and lines\<close>

text \<open>\<open>/\\/g\<close> and \<open>/^(\.\/)+/\<close>.\<close>

definition BACKSLASH :: rx where
  "BACKSLASH = rchar (CHR 0x5C)"

definition DOT_SLASHES :: rx where
  "DOT_SLASHES = rseq [RBol, rplus (RGroup 1 (rlit ''./''))]"

definition normalizePath :: "jstr \<Rightarrow> jstr" where
  "normalizePath path = rx_replace DOT_SLASHES [] (rx_replace_all BACKSLASH ''/'' (trim path))"

definition isReviewable :: "line_no \<Rightarrow> line_no list \<Rightarrow> bool" where
  "isReviewable line added \<longleftrightarrow> line \<in> set added \<or> line - 1 \<in> set added \<or> line + 1 \<in> set added"

text \<open>\<open>/[^\p{L}\p{N}]+/gu\<close>.\<close>

definition NON_WORDS :: rx where
  "NON_WORDS = rplus (RSet (\<lambda>c. \<not> is_letter c \<and> \<not> is_number c))"

definition normalizeText :: "jstr \<Rightarrow> jstr" where
  "normalizeText txt = trim (rx_replace_all NON_WORDS '' '' (to_lower txt))"

definition echo_window :: "(line_no \<times> jstr) list \<Rightarrow> line_no \<Rightarrow> line_no \<Rightarrow> jstr list" where
  "echo_window lines lineStart lineEnd =
    List.map_filter (al_get lines) [lineStart - ECHO_WINDOW_LINES..lineEnd + ECHO_WINDOW_LINES]"

definition echoesCode :: "jstr \<Rightarrow> (line_no \<times> jstr) list \<Rightarrow> line_no \<Rightarrow> line_no \<Rightarrow> bool" where
  "echoesCode title lines lineStart lineEnd =
    (let needle = normalizeText title
     in ECHO_MIN_TITLE_CHARS \<le> length needle \<and>
        contains ('' '' @ normalizeText (join '' '' (echo_window lines lineStart lineEnd)) @ '' '')
          ('' '' @ needle @ '' ''))"

subsection \<open>Severity\<close>

text \<open>\<open>indexOf\<close> is \<open>-1\<close> for \<open>INFO\<close>, which a downgrade turns into \<open>MINOR\<close>.\<close>

fun severity_index :: "finding_severity \<Rightarrow> int" where
  "severity_index MINOR = 0"
| "severity_index MAJOR = 1"
| "severity_index CRITICAL = 2"
| "severity_index INFO = - 1"

definition downgrade :: "finding_severity \<Rightarrow> finding_severity" where
  "downgrade severity = SEVERITY_ORDER ! nat (max 0 (severity_index severity - 1))"

definition calibrateSeverity :: "finding_severity \<Rightarrow> rat \<Rightarrow> jstr \<Rightarrow> finding_severity" where
  "calibrateSeverity reported confidence title =
    (let severity = (if confidence < DOWNGRADE_BELOW then downgrade reported else reported)
     in if rx_test HEDGED_TITLE title then downgrade severity else severity)"

definition capUntiered :: "finding_category \<Rightarrow> finding_severity \<Rightarrow> finding_severity" where
  "capUntiered category severity =
    (if tierForCategory (Some category) = None \<and> severity = CRITICAL then MAJOR else severity)"

subsection \<open>Validation\<close>

definition pointable :: "finding_category \<Rightarrow> sent_file \<Rightarrow> line_no \<Rightarrow> bool" where
  "pointable category sent line =
    (if category = CatBreakingChange
     then al_get (sn_lines sent) line \<noteq> None \<or> isReviewable line (sn_addedLines sent)
     else isReviewable line (sn_addedLines sent))"

text \<open>The reasons in the order the loop body tries them, up to the confidence gate.\<close>

definition reject_for :: "rule_tier list \<Rightarrow> report_finding \<Rightarrow> sent_file option \<Rightarrow> reject_reason option" where
  "reject_for ruleTiers f sent_opt =
    (case sent_opt of
      None \<Rightarrow> Some FileNotSent
    | Some sent \<Rightarrow>
        if rv_line_end f < rv_line_start f then Some BadRange
        else if rv_line_end f - rv_line_start f > MAX_RANGE then Some RangeTooLong
        else if (case tierForCategory (Some (rv_category f)) of None \<Rightarrow> False | Some tier \<Rightarrow> tier \<notin> set ruleTiers)
          then Some TierDisabled
        else if \<not> list_all (pointable (rv_category f) sent) [rv_line_start f..rv_line_end f] then Some OutsideAddedLines
        else if trim (rv_title f) = [] then Some EmptyTitle
        else if length (trim (rv_message f)) < MIN_MESSAGE_CHARS then Some MessageTooShort
        else if echoesCode (trim (rv_title f)) (sn_lines sent) (rv_line_start f) (rv_line_end f) then Some EchoesCode
        else None)"

definition draft_of :: "jstr \<Rightarrow> report_finding \<Rightarrow> ai_draft" where
  "draft_of filePath f =
    \<lparr>dr_filePath = filePath, dr_lineStart = rv_line_start f, dr_lineEnd = rv_line_end f,
     dr_category = rv_category f,
     dr_severity = capUntiered (rv_category f)
       (calibrateSeverity (rv_severity f) (rv_confidence f) (trim (rv_title f))),
     dr_title = trim (rv_title f), dr_message = trim (rv_message f), dr_confidence = rv_confidence f,
     dr_reportedSeverity = rv_severity f\<rparr>"

definition validate_one :: "(jstr \<times> sent_file) list \<Rightarrow> rule_tier list \<Rightarrow> validation_result \<Rightarrow> report_finding \<Rightarrow> validation_result" where
  "validate_one sentFiles ruleTiers res f =
    (let filePath = normalizePath (rv_file f)
     in (case reject_for ruleTiers f (al_get sentFiles filePath) of
        Some reason \<Rightarrow> res\<lparr>vr_rejected := vr_rejected res @ [(filePath, reason)]\<rparr>
      | None \<Rightarrow>
          if rv_confidence f < DROP_BELOW
          then res\<lparr>vr_droppedLowConfidence := vr_droppedLowConfidence res + 1\<rparr>
          else res\<lparr>vr_accepted := vr_accepted res @ [draft_of filePath f]\<rparr>))"

definition validateAiFindings :: "report_finding list \<Rightarrow> (jstr \<times> sent_file) list \<Rightarrow> rule_tier list \<Rightarrow> validation_result" where
  "validateAiFindings findings sentFiles ruleTiers =
    foldl (validate_one sentFiles ruleTiers) \<lparr>vr_accepted = [], vr_rejected = [], vr_droppedLowConfidence = 0\<rparr> findings"
subsection \<open>What the fold leaves\<close>

definition path_of_finding :: "report_finding \<Rightarrow> jstr" where
  "path_of_finding f = normalizePath (rv_file f)"

definition reason_for :: "(jstr \<times> sent_file) list \<Rightarrow> rule_tier list \<Rightarrow> report_finding \<Rightarrow> reject_reason option" where
  "reason_for sentFiles ruleTiers f = reject_for ruleTiers f (al_get sentFiles (path_of_finding f))"

definition well_placed :: "(jstr \<times> sent_file) list \<Rightarrow> rule_tier list \<Rightarrow> report_finding \<Rightarrow> bool" where
  "well_placed sentFiles ruleTiers f \<longleftrightarrow> reason_for sentFiles ruleTiers f = None"

lemma validate_fold:
  "foldl (validate_one sentFiles ruleTiers) res fs =
    res\<lparr>vr_accepted := vr_accepted res @
          map (\<lambda>f. draft_of (path_of_finding f) f)
            (filter (\<lambda>f. well_placed sentFiles ruleTiers f \<and> DROP_BELOW \<le> rv_confidence f) fs),
        vr_rejected := vr_rejected res @
          List.map_filter (\<lambda>f. map_option (Pair (path_of_finding f)) (reason_for sentFiles ruleTiers f)) fs,
        vr_droppedLowConfidence := vr_droppedLowConfidence res +
          length (filter (\<lambda>f. well_placed sentFiles ruleTiers f \<and> rv_confidence f < DROP_BELOW) fs)\<rparr>"
proof (induction fs arbitrary: res)
  case Nil
  then show ?case by (simp add: map_filter_simps)
next
  case (Cons f fs)
  have step: "validate_one sentFiles ruleTiers res f =
    (case reason_for sentFiles ruleTiers f of
      Some reason \<Rightarrow> res\<lparr>vr_rejected := vr_rejected res @ [(path_of_finding f, reason)]\<rparr>
    | None \<Rightarrow> if rv_confidence f < DROP_BELOW
        then res\<lparr>vr_droppedLowConfidence := vr_droppedLowConfidence res + 1\<rparr>
        else res\<lparr>vr_accepted := vr_accepted res @ [draft_of (path_of_finding f) f]\<rparr>)"
    unfolding validate_one_def reason_for_def path_of_finding_def Let_def by (rule refl)
  show ?case
    by (cases "reason_for sentFiles ruleTiers f")
      (simp_all add: step Cons.IH well_placed_def map_filter_simps)
qed

lemma length_map_filter: "length (List.map_filter f xs) = length (filter (\<lambda>x. f x \<noteq> None) xs)"
  by (induction xs) (auto simp: map_filter_simps split: option.splits)

lemma reject_for_None:
  assumes "reject_for ruleTiers f s = None"
  shows "\<exists>sent. s = Some sent \<and> rv_line_start f \<le> rv_line_end f \<and> rv_line_end f \<le> rv_line_start f + MAX_RANGE \<and>
    (\<forall>line. rv_line_start f \<le> line \<and> line \<le> rv_line_end f \<longrightarrow> pointable (rv_category f) sent line) \<and>
    (\<forall>tier. tierForCategory (Some (rv_category f)) = Some tier \<longrightarrow> tier \<in> set ruleTiers) \<and>
    trim (rv_title f) \<noteq> [] \<and> MIN_MESSAGE_CHARS \<le> length (trim (rv_message f)) \<and>
    \<not> echoesCode (trim (rv_title f)) (sn_lines sent) (rv_line_start f) (rv_line_end f)"
  using assms by (auto simp: reject_for_def list_all_iff split: option.splits if_splits)

lemma downgrade_not_critical: "downgrade s \<noteq> CRITICAL"
  by (cases s) (simp_all add: downgrade_def SEVERITY_ORDER_def)

lemma calibrate_critical:
  "calibrateSeverity reported confidence title = CRITICAL \<Longrightarrow>
    reported = CRITICAL \<and> DOWNGRADE_BELOW \<le> confidence \<and> \<not> rx_test HEDGED_TITLE title"
  using downgrade_not_critical by (auto simp: calibrateSeverity_def Let_def split: if_splits)

lemma capUntiered_critical:
  "capUntiered category severity = CRITICAL \<Longrightarrow> severity = CRITICAL \<and> tierForCategory (Some category) \<noteq> None"
  by (auto simp: capUntiered_def split: if_splits)

definition placed_in :: "sent_file \<Rightarrow> ai_draft \<Rightarrow> bool" where
  "placed_in sent d \<longleftrightarrow> dr_lineStart d \<le> dr_lineEnd d \<and> dr_lineEnd d \<le> dr_lineStart d + MAX_RANGE \<and>
    (\<forall>line. dr_lineStart d \<le> line \<and> line \<le> dr_lineEnd d \<longrightarrow> pointable (dr_category d) sent line)"

text \<open>C33: every finding of the model is accounted for once, as accepted, rejected or dropped.  An
  accepted one names a file the model was shown and at most 41 consecutive lines of it, each next to
  an added line (or shown, for a breaking change), has a title, a message of twenty characters and a
  confidence of one half, and belongs to an enabled tier or to none.  It can be critical, and so
  block a merge, only if the model itself rated it critical with a confidence of 0.7 or more under a
  title that is not hedged, in a category of an enabled tier.\<close>

theorem validateAiFindings_accounts:
  "length findings = length (vr_accepted (validateAiFindings findings sentFiles ruleTiers)) +
     length (vr_rejected (validateAiFindings findings sentFiles ruleTiers)) +
     vr_droppedLowConfidence (validateAiFindings findings sentFiles ruleTiers) \<and>
   (\<forall>d \<in> set (vr_accepted (validateAiFindings findings sentFiles ruleTiers)).
     (\<exists>sent. al_get sentFiles (dr_filePath d) = Some sent \<and> placed_in sent d \<and>
        \<not> echoesCode (dr_title d) (sn_lines sent) (dr_lineStart d) (dr_lineEnd d)) \<and>
     dr_title d \<noteq> [] \<and> 20 \<le> length (dr_message d) \<and> 1 / 2 \<le> dr_confidence d \<and>
     (\<forall>tier. tierForCategory (Some (dr_category d)) = Some tier \<longrightarrow> tier \<in> set ruleTiers) \<and>
     (dr_severity d = CRITICAL \<longrightarrow>
        dr_reportedSeverity d = CRITICAL \<and> 7 / 10 \<le> dr_confidence d \<and> \<not> rx_test HEDGED_TITLE (dr_title d) \<and>
        (\<exists>tier \<in> set ruleTiers. tierForCategory (Some (dr_category d)) = Some tier)))"
proof (intro conjI ballI)
  note res = validate_fold [of sentFiles ruleTiers "\<lparr>vr_accepted = [], vr_rejected = [], vr_droppedLowConfidence = 0\<rparr>" findings,
      folded validateAiFindings_def, simplified]
  have split3: "length fs = length (filter (\<lambda>f. P f \<and> Q f) fs) + length (filter (\<lambda>f. \<not> P f) fs) + length (filter (\<lambda>f. P f \<and> \<not> Q f) fs)"
    for P Q and fs :: "report_finding list" by (induction fs) auto
  show "length findings = length (vr_accepted (validateAiFindings findings sentFiles ruleTiers)) +
     length (vr_rejected (validateAiFindings findings sentFiles ruleTiers)) +
     vr_droppedLowConfidence (validateAiFindings findings sentFiles ruleTiers)"
    using split3 [where fs = findings and P = "well_placed sentFiles ruleTiers" and Q = "\<lambda>f. DROP_BELOW \<le> rv_confidence f"]
    by (simp add: res length_map_filter well_placed_def not_le)
  fix d assume "d \<in> set (vr_accepted (validateAiFindings findings sentFiles ruleTiers))"
  then obtain f where f: "well_placed sentFiles ruleTiers f" "DROP_BELOW \<le> rv_confidence f"
    and d: "d = draft_of (path_of_finding f) f" by (auto simp: res)
  from reject_for_None [OF f(1) [unfolded well_placed_def reason_for_def]] obtain sent where
    sent: "al_get sentFiles (path_of_finding f) = Some sent" "rv_line_start f \<le> rv_line_end f"
      "rv_line_end f \<le> rv_line_start f + MAX_RANGE"
      "\<forall>line. rv_line_start f \<le> line \<and> line \<le> rv_line_end f \<longrightarrow> pointable (rv_category f) sent line"
      "\<forall>tier. tierForCategory (Some (rv_category f)) = Some tier \<longrightarrow> tier \<in> set ruleTiers"
      "trim (rv_title f) \<noteq> []" "MIN_MESSAGE_CHARS \<le> length (trim (rv_message f))"
      "\<not> echoesCode (trim (rv_title f)) (sn_lines sent) (rv_line_start f) (rv_line_end f)" by blast
  show "\<exists>sent. al_get sentFiles (dr_filePath d) = Some sent \<and> placed_in sent d \<and>
        \<not> echoesCode (dr_title d) (sn_lines sent) (dr_lineStart d) (dr_lineEnd d)"
    using sent by (simp add: d draft_of_def placed_in_def)
  show "dr_title d \<noteq> []" "20 \<le> length (dr_message d)" "1 / 2 \<le> dr_confidence d"
    using sent f by (simp_all add: d draft_of_def MIN_MESSAGE_CHARS_def DROP_BELOW_def)
  show "\<forall>tier. tierForCategory (Some (dr_category d)) = Some tier \<longrightarrow> tier \<in> set ruleTiers"
    using sent by (simp add: d draft_of_def)
  show "dr_severity d = CRITICAL \<longrightarrow>
        dr_reportedSeverity d = CRITICAL \<and> 7 / 10 \<le> dr_confidence d \<and> \<not> rx_test HEDGED_TITLE (dr_title d) \<and>
        (\<exists>tier \<in> set ruleTiers. tierForCategory (Some (dr_category d)) = Some tier)"
  proof
    assume "dr_severity d = CRITICAL"
    from capUntiered_critical [OF this [unfolded d draft_of_def, simplified]] calibrate_critical sent(5)
    show "dr_reportedSeverity d = CRITICAL \<and> 7 / 10 \<le> dr_confidence d \<and> \<not> rx_test HEDGED_TITLE (dr_title d) \<and>
        (\<exists>tier \<in> set ruleTiers. tierForCategory (Some (dr_category d)) = Some tier)"
      by (auto simp: d draft_of_def DOWNGRADE_BELOW_def)
  qed
qed

definition sample_report :: report_finding where
  "sample_report = \<lparr>rv_file = ''a.ts'', rv_line_start = 3, rv_line_end = 3, rv_category = CatInjection,
    rv_severity = CRITICAL, rv_title = ''SQL injection '', rv_message = ''The query joins input'',
    rv_confidence = 9 / 10\<rparr>"

definition sample_sent :: "(jstr \<times> sent_file) list" where
  "sample_sent = [(''a.ts'', \<lparr>sn_addedLines = [3], sn_lines = [(3, ''db(q + id)'')]\<rparr>)]"

lemma sample_texts:
  "normalizePath ''a.ts'' = ''a.ts''" "trim ''SQL injection '' = ''SQL injection''" "trim ''The query joins input'' = ''The query joins input''"
  "\<not> echoesCode ''SQL injection'' [(3, ''db(q + id)'')] 3 3" "calibrateSeverity CRITICAL (9 / 10) ''SQL injection'' = CRITICAL"
  by code_simp+

lemma sample_validated:
  "map dr_severity (vr_accepted (validateAiFindings [sample_report] sample_sent ALL_RULE_TIERS)) = [CRITICAL]"
  by (simp add: validateAiFindings_def validate_one_def reject_for_def draft_of_def sample_report_def
      sample_sent_def sample_texts pointable_def isReviewable_def tierForCategory_def ALL_RULE_TIERS_def
      MAX_RANGE_def MIN_MESSAGE_CHARS_def DROP_BELOW_def capUntiered_def)

lemma validateAiFindings_accounts_witness:
  "vr_accepted (validateAiFindings [sample_report] sample_sent ALL_RULE_TIERS) \<noteq> [] \<and>
   \<not> rx_test HEDGED_TITLE (dr_title (hd (vr_accepted (validateAiFindings [sample_report] sample_sent ALL_RULE_TIERS))))"
proof -
  let ?ds = "vr_accepted (validateAiFindings [sample_report] sample_sent ALL_RULE_TIERS)"
  from sample_validated obtain d where d: "?ds = [d]" "dr_severity d = CRITICAL" by auto
  with validateAiFindings_accounts [of "[sample_report]" sample_sent ALL_RULE_TIERS] show ?thesis by simp
qed

end
