(* ===== verification/Ai_Dedupe.thy ===== *)
theory Ai_Dedupe
  imports Ai_Validator Title_Similarity Suppression
begin

section \<open>Deduplicating the findings of a model\<close>

text \<open>
  \<open>src/modules/ai/scan/ai-deduper.ts\<close>: the accepted findings are folded into each other, those
  that repeat an active static finding become duplicates of it, and the rest is kept with the
  reason it is suppressed for, if any.  SHA-1 and minimatch are the parameters \<open>sha1\<close> and
  \<open>mm\<close>.  The call of \<open>classifySuppression\<close> could throw, so the result is a sum; the theorem
  at the end shows that without a column it never does.
\<close>

definition LINE_SLACK :: int where "LINE_SLACK = 2"
definition SIMILAR_TITLE :: rat where "SIMILAR_TITLE = 85 / 100"
definition MAX_MERGED_RANGE :: int where "MAX_MERGED_RANGE = 40"

definition HEDGE_PREFIX :: rx where
  "HEDGE_PREFIX = rseq [RBol, RGroup 1 (ralt (map rlit_i HEDGES)), rplus (RSet is_space)]"

record static_for_dedupe =
  sd_id :: jstr
  sd_filePath :: jstr
  sd_lineStart :: line_no
  sd_lineEnd :: line_no
  sd_category :: "finding_category option"
  sd_suppressedReason :: "suppression_reason option"

record kept_finding = ai_draft +
  ka_fingerprint :: jstr
  ka_suppressedReason :: "suppression_reason option"

record dedupe_result =
  dd_kept :: "kept_finding list"
  dd_merged :: nat
  dd_duplicates :: "(kept_finding \<times> jstr) list"

subsection \<open>Identity\<close>

fun category_name :: "finding_category \<Rightarrow> jstr" where
  "category_name CatSecret = ''SECRET''"
| "category_name CatInjection = ''INJECTION''"
| "category_name CatInsecureTls = ''INSECURE_TLS''"
| "category_name CatErrorHandling = ''ERROR_HANDLING''"
| "category_name CatPerformance = ''PERFORMANCE''"
| "category_name CatLogic = ''LOGIC''"
| "category_name CatAuth = ''AUTH''"
| "category_name CatConcurrency = ''CONCURRENCY''"
| "category_name CatDataLoss = ''DATA_LOSS''"
| "category_name CatConfig = ''CONFIG''"
| "category_name CatOther = ''OTHER''"
| "category_name CatCrash = ''CRASH''"
| "category_name CatBreakingChange = ''BREAKING_CHANGE''"

fun FAMILY_RULE_ID :: "finding_category \<Rightarrow> jstr option" where
  "FAMILY_RULE_ID CatSecret = Some ''secret.ai''"
| "FAMILY_RULE_ID CatConfig = Some ''config.ai''"
| "FAMILY_RULE_ID CatInsecureTls = Some ''code.insecure_tls''"
| "FAMILY_RULE_ID _ = None"

definition normalizeAiTitle :: "jstr \<Rightarrow> jstr" where
  "normalizeAiTitle title = trim (rx_replace_all NON_WORDS '' '' (to_lower (rx_replace HEDGE_PREFIX [] (trim title))))"

definition aiFingerprint :: "(jstr \<Rightarrow> jstr) \<Rightarrow> 'a ai_draft_scheme \<Rightarrow> jstr" where
  "aiFingerprint sha1 f =
    sha1 (''ai|'' @ dr_filePath f @ ''|'' @ category_name (dr_category f) @ ''|'' @ normalizeAiTitle (dr_title f))"

subsection \<open>Folding findings into each other\<close>

text \<open>\<open>b.confidence - a.confidence\<close>, of which the sort reads the sign.\<close>

definition by_confidence :: "ai_draft \<Rightarrow> ai_draft \<Rightarrow> int" where
  "by_confidence a b =
    (if dr_confidence b < dr_confidence a then - 1 else if dr_confidence b = dr_confidence a then 0 else 1)"

definition merged_range :: "kept_finding \<Rightarrow> ai_draft \<Rightarrow> int" where
  "merged_range kept f = max (dr_lineEnd kept) (dr_lineEnd f) - min (dr_lineStart kept) (dr_lineStart f)"

definition ai_similar :: "kept_finding \<Rightarrow> ai_draft \<Rightarrow> bool" where
  "ai_similar kept f =
    (case jaroWinkler (normalizeAiTitle (dr_title kept)) (normalizeAiTitle (dr_title f)) of
      Some s \<Rightarrow> SIMILAR_TITLE \<le> s | None \<Rightarrow> False)"

definition folds_into :: "(jstr \<Rightarrow> jstr) \<Rightarrow> ai_draft \<Rightarrow> kept_finding \<Rightarrow> bool" where
  "folds_into sha1 f kept \<longleftrightarrow>
    ka_fingerprint kept = aiFingerprint sha1 f \<or>
    dr_filePath kept = dr_filePath f \<and> dr_category kept = dr_category f \<and>
    merged_range kept f \<le> MAX_MERGED_RANGE \<and> ai_similar kept f"

definition widen_over :: "ai_draft \<Rightarrow> kept_finding \<Rightarrow> kept_finding" where
  "widen_over f kept =
    (if merged_range kept f \<le> MAX_MERGED_RANGE
     then kept\<lparr>dr_lineStart := min (dr_lineStart kept) (dr_lineStart f),
       dr_lineEnd := max (dr_lineEnd kept) (dr_lineEnd f)\<rparr>
     else kept)"

definition keep_new :: "(jstr \<Rightarrow> jstr) \<Rightarrow> ai_draft \<Rightarrow> kept_finding" where
  "keep_new sha1 f = ai_draft.extend f \<lparr>ka_fingerprint = aiFingerprint sha1 f, ka_suppressedReason = None\<rparr>"

text \<open>\<open>merged.find(p)\<close> with the update of what it finds; \<open>None\<close> when nothing matches.\<close>

fun update_first :: "('a \<Rightarrow> bool) \<Rightarrow> ('a \<Rightarrow> 'a) \<Rightarrow> 'a list \<Rightarrow> 'a list option" where
  "update_first p g [] = None"
| "update_first p g (x # xs) = (if p x then Some (g x # xs) else map_option ((#) x) (update_first p g xs))"

definition merge_step :: "(jstr \<Rightarrow> jstr) \<Rightarrow> kept_finding list \<times> nat \<Rightarrow> ai_draft \<Rightarrow> kept_finding list \<times> nat" where
  "merge_step sha1 = (\<lambda>(merged, folded) f.
    (case update_first (folds_into sha1 f) (widen_over f) merged of
      None \<Rightarrow> (merged @ [keep_new sha1 f], folded)
    | Some merged' \<Rightarrow> (merged', folded + 1)))"

definition mergeAiFindings :: "(jstr \<Rightarrow> jstr) \<Rightarrow> ai_draft list \<Rightarrow> kept_finding list \<times> nat" where
  "mergeAiFindings sha1 findings = foldl (merge_step sha1) ([], 0) (js_sort by_confidence findings)"

subsection \<open>Against the static findings\<close>

definition overlaps :: "kept_finding \<Rightarrow> static_for_dedupe \<Rightarrow> bool" where
  "overlaps f other \<longleftrightarrow>
    sd_filePath other = dr_filePath f \<and> sd_category other = Some (dr_category f) \<and>
    dr_lineStart f \<le> sd_lineEnd other + LINE_SLACK \<and> dr_lineEnd f \<ge> sd_lineStart other - LINE_SLACK"

definition sent_line :: "(jstr \<times> sent_file) list option \<Rightarrow> kept_finding \<Rightarrow> jstr option" where
  "sent_line sentFiles f =
    (case sentFiles of
      None \<Rightarrow> None
    | Some m \<Rightarrow> (case al_get m (dr_filePath f) of None \<Rightarrow> None | Some s \<Rightarrow> al_get (sn_lines s) (dr_lineStart f)))"

definition suppressionFor ::
  "glob_match \<Rightarrow> static_for_dedupe list \<Rightarrow> (jstr \<times> sent_file) list option \<Rightarrow> kept_finding \<Rightarrow>
   jstr + suppression_reason option" where
  "suppressionFor mm suppressedStatic sentFiles f =
    (case List.find (overlaps f) suppressedStatic of
      Some inherited \<Rightarrow> Inr (sd_suppressedReason inherited)
    | None \<Rightarrow> classifySuppression mm
        \<lparr>si_ruleId = (case FAMILY_RULE_ID (dr_category f) of
           Some r \<Rightarrow> r | None \<Rightarrow> ''ai.'' @ to_lower (category_name (dr_category f))),
         si_filePath = dr_filePath f, si_language = detectLanguage (dr_filePath f),
         si_lineText = sent_line sentFiles f, si_match = None\<rparr>)"

fun split_static ::
  "glob_match \<Rightarrow> static_for_dedupe list \<Rightarrow> static_for_dedupe list \<Rightarrow> (jstr \<times> sent_file) list option \<Rightarrow>
   kept_finding list \<Rightarrow> dedupe_result \<Rightarrow> jstr + dedupe_result" where
  "split_static mm active suppressed sentFiles [] res = Inr res"
| "split_static mm active suppressed sentFiles (f # fs) res =
    (case List.find (overlaps f) active of
      Some s \<Rightarrow> split_static mm active suppressed sentFiles fs
        (res\<lparr>dd_duplicates := dd_duplicates res @ [(f, sd_id s)]\<rparr>)
    | None \<Rightarrow>
        (case suppressionFor mm suppressed sentFiles f of
          Inl e \<Rightarrow> Inl e
        | Inr reason \<Rightarrow> split_static mm active suppressed sentFiles fs
            (res\<lparr>dd_kept := dd_kept res @ [f\<lparr>ka_suppressedReason := reason\<rparr>]\<rparr>)))"

definition dedupeAiFindings ::
  "(jstr \<Rightarrow> jstr) \<Rightarrow> glob_match \<Rightarrow> ai_draft list \<Rightarrow> static_for_dedupe list \<Rightarrow> (jstr \<times> sent_file) list option \<Rightarrow>
   jstr + dedupe_result" where
  "dedupeAiFindings sha1 mm findings statics sentFiles =
    (let (merged, folded) = mergeAiFindings sha1 findings
     in split_static mm
        (filter (\<lambda>s. sd_suppressedReason s = None) statics)
        (filter (\<lambda>s. sd_suppressedReason s \<noteq> None) statics) sentFiles merged
        \<lparr>dd_kept = [], dd_merged = folded, dd_duplicates = []\<rparr>)"
subsection \<open>The fold keeps every finding\<close>

interpretation confidence: js_comparator by_confidence
  by unfold_locales (auto simp: by_confidence_def split: if_splits)

text \<open>How a kept finding stands for a finding of the model.\<close>

definition same_problem :: "(jstr \<Rightarrow> jstr) \<Rightarrow> kept_finding \<Rightarrow> ai_draft \<Rightarrow> bool" where
  "same_problem sha1 k f \<longleftrightarrow>
    ka_fingerprint k = aiFingerprint sha1 f \<or>
    dr_filePath k = dr_filePath f \<and> dr_category k = dr_category f \<and> ai_similar k f \<and>
    dr_lineStart k \<le> dr_lineStart f \<and> dr_lineEnd f \<le> dr_lineEnd k"

definition represents :: "(jstr \<Rightarrow> jstr) \<Rightarrow> kept_finding \<Rightarrow> ai_draft \<Rightarrow> bool" where
  "represents sha1 k f \<longleftrightarrow> same_problem sha1 k f \<and> dr_confidence f \<le> dr_confidence k"

definition short_range :: "'a ai_draft_scheme \<Rightarrow> bool" where
  "short_range d \<longleftrightarrow> dr_lineEnd d - dr_lineStart d \<le> MAX_MERGED_RANGE"

definition merge_inv :: "(jstr \<Rightarrow> jstr) \<Rightarrow> ai_draft list \<Rightarrow> kept_finding list \<times> nat \<Rightarrow> bool" where
  "merge_inv sha1 fs st \<longleftrightarrow>
    length fs = length (fst st) + snd st \<and>
    distinct (map ka_fingerprint (fst st)) \<and>
    (\<forall>f \<in> set fs. \<exists>k \<in> set (fst st). represents sha1 k f) \<and>
    (\<forall>k \<in> set (fst st). \<exists>f \<in> set fs. dr_confidence k = dr_confidence f) \<and>
    ((\<forall>f \<in> set fs. short_range f) \<longrightarrow> (\<forall>k \<in> set (fst st). short_range k))"

lemma update_first_None: "update_first p g xs = None \<longleftrightarrow> (\<forall>x \<in> set xs. \<not> p x)"
  by (induction xs) auto

lemma update_first_Some:
  "update_first p g xs = Some ys \<Longrightarrow> \<exists>as x bs. xs = as @ x # bs \<and> p x \<and> ys = as @ g x # bs"
proof (induction xs arbitrary: ys)
  case (Cons a xs)
  show ?case
  proof (cases "p a")
    case True
    with Cons.prems show ?thesis by (intro exI [of _ "[]"]) simp
  next
    case False
    with Cons.prems obtain zs where zs: "update_first p g xs = Some zs" "ys = a # zs" by auto
    from Cons.IH [OF zs(1)] obtain as x bs where "xs = as @ x # bs" "p x" "zs = as @ g x # bs" by blast
    with zs(2) show ?thesis by (intro exI [of _ "a # as"] exI [of _ x] exI [of _ bs]) simp
  qed
qed simp

lemma widen_over_same:
  "ka_fingerprint (widen_over f k) = ka_fingerprint k" "dr_confidence (widen_over f k) = dr_confidence k"
  "ka_suppressedReason (widen_over f k) = ka_suppressedReason k"
  "dr_lineStart (widen_over f k) \<le> dr_lineStart k" "dr_lineEnd k \<le> dr_lineEnd (widen_over f k)"
  by (simp_all add: widen_over_def)

lemma widen_over_represents: "represents sha1 k f \<Longrightarrow> represents sha1 (widen_over g k) f"
  by (auto simp: represents_def same_problem_def widen_over_def ai_similar_def)

lemma folds_into_represents:
  "folds_into sha1 f k \<Longrightarrow> dr_confidence f \<le> dr_confidence k \<Longrightarrow> represents sha1 (widen_over f k) f"
  by (auto simp: represents_def same_problem_def folds_into_def widen_over_def ai_similar_def)

lemma widen_over_short: "short_range k \<Longrightarrow> short_range (widen_over f k)"
  by (simp add: short_range_def widen_over_def merged_range_def)

lemma keep_new_simps [simp]:
  "ka_fingerprint (keep_new sha1 f) = aiFingerprint sha1 f" "dr_confidence (keep_new sha1 f) = dr_confidence f"
  "dr_lineStart (keep_new sha1 f) = dr_lineStart f" "dr_lineEnd (keep_new sha1 f) = dr_lineEnd f"
  "ka_suppressedReason (keep_new sha1 f) = None"
  by (simp_all add: keep_new_def ai_draft.defs)

lemma merge_step_inv:
  assumes inv: "merge_inv sha1 fs st" and conf: "\<forall>g \<in> set fs. dr_confidence f \<le> dr_confidence g"
  shows "merge_inv sha1 (fs @ [f]) (merge_step sha1 st f)"
proof (cases "update_first (folds_into sha1 f) (widen_over f) (fst st)")
  case None
  then have st: "merge_step sha1 st f = (fst st @ [keep_new sha1 f], snd st)"
    by (simp add: merge_step_def case_prod_beta)
  have "\<forall>k \<in> set (fst st). \<not> folds_into sha1 f k" using None by (simp add: update_first_None)
  then have "aiFingerprint sha1 f \<notin> ka_fingerprint ` set (fst st)" by (auto simp: folds_into_def)
  moreover have "represents sha1 (keep_new sha1 f) f" by (simp add: represents_def same_problem_def)
  ultimately show ?thesis using inv by (auto simp: st merge_inv_def short_range_def)
next
  case (Some ks)
  from update_first_Some [OF Some] obtain as k bs where
    k: "fst st = as @ k # bs" "folds_into sha1 f k" "ks = as @ widen_over f k # bs" by blast
  from Some have st: "merge_step sha1 st f = (ks, snd st + 1)" by (simp add: merge_step_def case_prod_beta)
  from inv k(1) obtain g where "g \<in> set fs" "dr_confidence k = dr_confidence g" by (auto simp: merge_inv_def)
  with conf have "dr_confidence f \<le> dr_confidence k" by simp
  from folds_into_represents [OF k(2) this] have new: "represents sha1 (widen_over f k) f" .
  have old: "\<exists>k' \<in> set ks. represents sha1 k' g" if "g \<in> set fs" for g
    using inv that k(1,3) widen_over_represents by (fastforce simp: merge_inv_def)
  have short: "\<forall>k' \<in> set ks. short_range k'" if "\<forall>g \<in> set fs. short_range g"
    using inv that k(1,3) widen_over_short by (auto simp: merge_inv_def)
  show ?thesis
    using inv k(1,3) new old short by (auto simp: st merge_inv_def widen_over_same)
qed

lemma foldl_merge_inv:
  "sorted_wrt (\<lambda>a b. by_confidence a b \<le> 0) (ps @ fs) \<Longrightarrow> merge_inv sha1 ps st \<Longrightarrow>
    merge_inv sha1 (ps @ fs) (foldl (merge_step sha1) st fs)"
proof (induction fs arbitrary: ps st)
  case (Cons f fs)
  from Cons.prems(1) have "\<forall>g \<in> set ps. dr_confidence f \<le> dr_confidence g"
    by (fastforce simp: sorted_wrt_append by_confidence_def split: if_splits)
  from merge_step_inv [OF Cons.prems(2) this] Cons.IH [of "ps @ [f]"] Cons.prems(1) show ?case by simp
qed simp

lemma mergeAiFindings_inv: "merge_inv sha1 (js_sort by_confidence fs) (mergeAiFindings sha1 fs)"
proof -
  have "merge_inv sha1 [] ([], 0)" by (simp add: merge_inv_def)
  from foldl_merge_inv [OF _ this, of "js_sort by_confidence fs"] confidence.sorted_sort [of fs] show ?thesis
    unfolding mergeAiFindings_def by simp
qed

lemma overlaps_reason [simp]: "overlaps (k\<lparr>ka_suppressedReason := r\<rparr>) s = overlaps k s"
  by (simp add: overlaps_def)

lemma mset_map_partition:
  "mset (map f (filter (\<lambda>x. \<not> P x) xs)) + mset (map f (filter P xs)) = mset (map f xs)"
  by (induction xs) auto

subsection \<open>The split never throws\<close>

lemma suppressionFor_returns: "\<exists>r. suppressionFor mm suppressed sentFiles f = Inr r"
  by (auto simp: suppressionFor_def classifySuppression_def in_comment_def split: option.split)

definition is_active_duplicate :: "static_for_dedupe list \<Rightarrow> kept_finding \<times> jstr \<Rightarrow> bool" where
  "is_active_duplicate active fi \<longleftrightarrow> (\<exists>s \<in> set active. overlaps (fst fi) s \<and> sd_id s = snd fi)"

lemma split_static_spec:
  "\<exists>kept dups. split_static mm active suppressed sentFiles fs res =
      Inr (res\<lparr>dd_kept := dd_kept res @ kept, dd_duplicates := dd_duplicates res @ dups\<rparr>) \<and>
    kept = map (\<lambda>f. f\<lparr>ka_suppressedReason := projr (suppressionFor mm suppressed sentFiles f)\<rparr>)
      (filter (\<lambda>f. List.find (overlaps f) active = None) fs) \<and>
    map fst dups = filter (\<lambda>f. List.find (overlaps f) active \<noteq> None) fs \<and>
    (\<forall>d \<in> set dups. is_active_duplicate active d)"
proof (induction fs arbitrary: res)
  case Nil
  show ?case by simp
next
  case (Cons f fs)
  show ?case
  proof (cases "List.find (overlaps f) active")
    case None
    obtain r where r: "suppressionFor mm suppressed sentFiles f = Inr r" using suppressionFor_returns by blast
    from Cons.IH [of "res\<lparr>dd_kept := dd_kept res @ [f\<lparr>ka_suppressedReason := r\<rparr>]\<rparr>"] None r show ?thesis by auto
  next
    case (Some s)
    then have "is_active_duplicate active (f, sd_id s)"
      using find_SomeD [OF Some] by (auto simp: is_active_duplicate_def)
    moreover obtain kept dups where
      "split_static mm active suppressed sentFiles fs (res\<lparr>dd_duplicates := dd_duplicates res @ [(f, sd_id s)]\<rparr>) =
        Inr (res\<lparr>dd_kept := dd_kept res @ kept, dd_duplicates := dd_duplicates res @ (f, sd_id s) # dups\<rparr>)"
      "kept = map (\<lambda>f. f\<lparr>ka_suppressedReason := projr (suppressionFor mm suppressed sentFiles f)\<rparr>)
        (filter (\<lambda>f. List.find (overlaps f) active = None) fs)"
      "map fst dups = filter (\<lambda>f. List.find (overlaps f) active \<noteq> None) fs"
      "\<forall>d \<in> set dups. is_active_duplicate active d"
      using Cons.IH [of "res\<lparr>dd_duplicates := dd_duplicates res @ [(f, sd_id s)]\<rparr>"] by auto
    ultimately show ?thesis
      using Some by (intro exI [of _ kept] exI [of _ "(f, sd_id s) # dups"]) simp
  qed
qed

text \<open>The deduplication never throws and loses nothing.  Every finding of the model is kept, a
  duplicate or folded, and counted once; each is represented by a finding that remains, of the same
  fingerprint or a similar title in the same file and category whose lines cover it, and of no
  lower confidence.  The remaining findings have distinct fingerprints and, when the validator's
  limit held for the input, ranges within it.  A finding is set aside as a duplicate only of an active
  static finding it overlaps, whose id it names, and no kept finding overlaps an active static
  one.\<close>

theorem dedupeAiFindings_conserves:
  "\<exists>res. dedupeAiFindings sha1 mm findings statics sentFiles = Inr res \<and>
    length findings = length (dd_kept res) + length (dd_duplicates res) + dd_merged res \<and>
    (\<forall>f \<in> set findings. \<exists>k \<in> set (dd_kept res) \<union> fst ` set (dd_duplicates res). represents sha1 k f) \<and>
    distinct (map ka_fingerprint (dd_kept res @ map fst (dd_duplicates res))) \<and>
    ((\<forall>f \<in> set findings. short_range f) \<longrightarrow>
      (\<forall>k \<in> set (dd_kept res) \<union> fst ` set (dd_duplicates res). short_range k)) \<and>
    (\<forall>(k, i) \<in> set (dd_duplicates res).
      \<exists>s \<in> set statics. sd_suppressedReason s = None \<and> overlaps k s \<and> sd_id s = i) \<and>
    (\<forall>k \<in> set (dd_kept res). \<forall>s \<in> set statics. overlaps k s \<longrightarrow> sd_suppressedReason s \<noteq> None)"
proof -
  let ?active = "filter (\<lambda>s. sd_suppressedReason s = None) statics"
  let ?sup = "filter (\<lambda>s. sd_suppressedReason s \<noteq> None) statics"
  let ?dup = "\<lambda>f. List.find (overlaps f) ?active \<noteq> None"
  let ?why = "\<lambda>f. f\<lparr>ka_suppressedReason := projr (suppressionFor mm ?sup sentFiles f)\<rparr>"
  obtain ks n where m: "mergeAiFindings sha1 findings = (ks, n)" by fastforce
  note inv = mergeAiFindings_inv [of sha1 findings, unfolded m merge_inv_def fst_conv snd_conv, simplified]
  obtain kept dups where sp:
    "split_static mm ?active ?sup sentFiles ks \<lparr>dd_kept = [], dd_merged = n, dd_duplicates = []\<rparr> =
      Inr \<lparr>dd_kept = kept, dd_merged = n, dd_duplicates = dups\<rparr>"
    "kept = map ?why (filter (\<lambda>f. \<not> ?dup f) ks)" "map fst dups = filter ?dup ks"
    "\<forall>d \<in> set dups. is_active_duplicate ?active d"
    using split_static_spec [of mm ?active ?sup sentFiles ks "\<lparr>dd_kept = [], dd_merged = n, dd_duplicates = []\<rparr>"]
    by auto
  have dset: "fst ` set dups = set (filter ?dup ks)" using sp(3) by (metis list.set_map)
  have rep: "\<exists>k' \<in> set kept \<union> fst ` set dups. represents sha1 k' f" if "k \<in> set ks" "represents sha1 k f" for k f
  proof (cases "?dup k")
    case True
    with that dset show ?thesis by auto
  next
    case False
    have "represents sha1 (?why k) f"
      using that(2) by (simp add: represents_def same_problem_def ai_similar_def)
    with False that(1) show ?thesis by (auto simp: sp(2))
  qed
  have count: "length kept + length dups = length ks"
    using sum_length_filter_compl [of ?dup ks] sp(2) arg_cong [OF sp(3), of length] by simp
  have "map ka_fingerprint kept = map ka_fingerprint (filter (\<lambda>f. \<not> ?dup f) ks)" by (simp add: sp(2))
  then have fps: "mset (map ka_fingerprint (kept @ map fst dups)) = mset (map ka_fingerprint ks)"
    unfolding map_append mset_append sp(3) by (simp only: mset_map_partition)
  show ?thesis
  proof (intro exI conjI)
    show "dedupeAiFindings sha1 mm findings statics sentFiles =
        Inr \<lparr>dd_kept = kept, dd_merged = n, dd_duplicates = dups\<rparr>"
      using sp(1) by (simp add: dedupeAiFindings_def m)
    show "distinct (map ka_fingerprint (dd_kept \<lparr>dd_kept = kept, dd_merged = n, dd_duplicates = dups\<rparr> @
        map fst (dd_duplicates \<lparr>dd_kept = kept, dd_merged = n, dd_duplicates = dups\<rparr>)))"
      using inv mset_eq_imp_distinct_iff [OF fps] by simp
    have "\<exists>s \<in> set statics. sd_suppressedReason s = None \<and> overlaps k s \<and> sd_id s = i" if "(k, i) \<in> set dups" for k i
      using bspec [OF sp(4) that] by (auto simp: is_active_duplicate_def)
    then show "\<forall>(k, i) \<in> set (dd_duplicates \<lparr>dd_kept = kept, dd_merged = n, dd_duplicates = dups\<rparr>).
        \<exists>s \<in> set statics. sd_suppressedReason s = None \<and> overlaps k s \<and> sd_id s = i"
      by auto
  qed (use inv count rep dset sp(2) in \<open>auto simp: is_active_duplicate_def find_None_iff short_range_def\<close>)
qed

definition sample_draft :: "line_no \<Rightarrow> jstr \<Rightarrow> rat \<Rightarrow> ai_draft" where
  "sample_draft line title confidence = \<lparr>dr_filePath = ''a.ts'', dr_lineStart = line, dr_lineEnd = line,
    dr_category = CatInjection, dr_severity = MAJOR, dr_title = title, dr_message = ''m'',
    dr_confidence = confidence, dr_reportedSeverity = MAJOR\<rparr>"

lemma dedupeAiFindings_conserves_witness:
  "short_range (sample_draft 3 ''sql'' 1) \<and>
   (\<exists>res. dedupeAiFindings id (\<lambda>_ _. False) [sample_draft 3 ''sql'' 1] [] None = Inr res \<and>
     (\<forall>k \<in> set (dd_kept res). short_range k))"
proof -
  have short: "short_range (sample_draft 3 ''sql'' 1)"
    by (simp add: short_range_def sample_draft_def MAX_MERGED_RANGE_def)
  with dedupeAiFindings_conserves [of id "\<lambda>_ _. False" "[sample_draft 3 ''sql'' 1]" "[]" None] show ?thesis by auto
qed

end
