(* ===== verification/Scan_Queue.thy ===== *)
theory Scan_Queue
  imports Scan_Counts
begin

section \<open>Enqueueing scans\<close>

text \<open>
  \<open>src/queue/scan-queue.service.ts\<close>.  \<open>enqueue\<close> is a sequence of database and queue
  operations with an \<open>await\<close> between each two, so other requests and the workers can run
  in between: a call is a program counter (\<open>phase\<close>) over the values it has read, and
  \<open>enqueue_step\<close> runs it to its next \<open>await\<close> against the shared world.  The world
  is the tables of scans, pull requests and organizations and the jobs of the queue; scans are
  in the order of their creation, and a job is found by the scan it is for (\<open>scan-{id}\<close>).
\<close>

datatype ai_scan_status =
  AiQueued | AiRunning | AiDone | AiCached | AiFailed | AiSkippedManualMode | AiConsentRequired
| AiNotConfigured | AiSkippedTooLarge | AiBudgetExceeded

datatype review_policy = ManualOnly | AllowAi | RequireBoth
datatype diff_mode = DiffFull | DiffIncremental
datatype full_reason = FirstScan | ForcePush | RulesetChanged | PromptChanged | FullManual | RulesChanged
datatype scan_trigger = TriggerWebhook | TriggerManual | TriggerRescan
datatype scan_error_code =
  ProviderUnreachable | ProviderRejected | DiffTooLarge | ScanTimeout | RuleCrash | TokenExpired

definition RULESET_VERSION :: jstr where "RULESET_VERSION = ''2026.10.2''"
definition AI_PROMPT_VERSION :: jstr where "AI_PROMPT_VERSION = ''ai-2026.10.3''"

record scan_mode =
  md_diffMode :: diff_mode
  md_fullReason :: "full_reason option"
  md_baseScanId :: "jstr option"
  md_prevHeadSha :: "jstr option"

record scan_row =
  sr_id :: jstr
  sr_repositoryId :: jstr
  sr_pullId :: jstr
  sr_headSha :: jstr
  sr_status :: scan_status
  sr_trigger :: scan_trigger
  sr_attempt :: nat
  sr_rulesetVersion :: jstr
  sr_ruleTiers :: "rule_tier list"
  sr_mode :: scan_mode
  sr_errorCode :: "scan_error_code option"
  sr_aiStatus :: "ai_scan_status option"
  sr_aiPromptVersion :: "jstr option"
  sr_aiLocale :: "jstr option"
  sr_aiReviewed :: bool

subsection \<open>Full or incremental\<close>

record scan_base =
  sb_id :: jstr
  sb_headSha :: jstr
  sb_rulesetVersion :: jstr
  sb_aiPromptVersion :: "jstr option"
  sb_aiLocale :: "jstr option"
  sb_aiStatus :: "ai_scan_status option"
  sb_aiReviewed :: bool
  sb_ruleTiers :: "rule_tier list"

record mode_input =
  mi_base :: "scan_base option"
  mi_full :: bool
  mi_effectivePolicy :: "review_policy option"
  mi_aiEnabled :: bool
  mi_locale :: "jstr option"
  mi_ruleTiers :: "rule_tier list"

definition INCREMENTAL_AFTER_AI_SKIP :: "ai_scan_status list" where
  "INCREMENTAL_AFTER_AI_SKIP = [AiSkippedTooLarge, AiBudgetExceeded]"

definition full_mode :: "mode_input \<Rightarrow> full_reason \<Rightarrow> scan_mode" where
  "full_mode inp reason = \<lparr>md_diffMode = DiffFull, md_fullReason = Some reason,
    md_baseScanId = map_option sb_id (mi_base inp), md_prevHeadSha = None\<rparr>"

definition promptVersionChanged :: "scan_base \<Rightarrow> bool" where
  "promptVersionChanged b \<longleftrightarrow> sb_aiPromptVersion b \<noteq> None \<and> sb_aiPromptVersion b \<noteq> Some AI_PROMPT_VERSION"

definition localeChanged :: "scan_base \<Rightarrow> jstr option \<Rightarrow> bool" where
  "localeChanged b locale \<longleftrightarrow> sb_aiLocale b \<noteq> None \<and> locale \<noteq> None \<and> sb_aiLocale b \<noteq> locale"

definition decideScanMode :: "mode_input \<Rightarrow> scan_mode" where
  "decideScanMode inp =
    (case mi_base inp of
      None \<Rightarrow> full_mode inp FirstScan
    | Some b \<Rightarrow>
        if mi_full inp then full_mode inp FullManual
        else if sb_rulesetVersion b \<noteq> RULESET_VERSION then full_mode inp RulesetChanged
        else if \<not> sameTiers (sb_ruleTiers b) (mi_ruleTiers inp) then full_mode inp RulesChanged
        else if (promptVersionChanged b \<or> localeChanged b (mi_locale inp)) \<and> mi_effectivePolicy inp \<noteq> Some ManualOnly
          then full_mode inp PromptChanged
        else if mi_aiEnabled inp \<and> mi_effectivePolicy inp \<noteq> Some ManualOnly \<and> \<not> sb_aiReviewed b \<and>
            \<not> (case sb_aiStatus b of None \<Rightarrow> False | Some s \<Rightarrow> s \<in> set INCREMENTAL_AFTER_AI_SKIP)
          then full_mode inp FirstScan
        else \<lparr>md_diffMode = DiffIncremental, md_fullReason = None, md_baseScanId = Some (sb_id b),
          md_prevHeadSha = Some (sb_headSha b)\<rparr>)"

subsection \<open>The world\<close>

datatype job_state = JobWaiting | JobDelayed | JobPrioritized | JobActive | JobEnded

record org_row =
  og_disabledRuleTiers :: "rule_tier list"
  og_aiProvider :: "jstr option"
  og_aiConsentAt :: "int option"
  og_aiLocale :: jstr

record pull_row =
  pl_organizationId :: jstr
  pl_effectivePolicy :: review_policy

record world =
  w_scans :: "scan_row list"
  w_orgs :: "jstr \<Rightarrow> org_row option"
  w_pulls :: "jstr \<Rightarrow> pull_row option"
  w_jobs :: "(jstr \<times> job_state) list"
  w_latest :: "jstr \<Rightarrow> jstr option"
  w_results :: "jstr list"

text \<open>\<open>w_latest\<close> is \<open>PullRequest.latestScanId\<close>; \<open>w_results\<close> are the scans whose
  findings have been written.\<close>

definition scan_of :: "world \<Rightarrow> jstr \<Rightarrow> scan_row option" where
  "scan_of w i = List.find (\<lambda>s. sr_id s = i) (w_scans w)"

definition in_flight :: "scan_row \<Rightarrow> bool" where
  "in_flight s \<longleftrightarrow> sr_status s = ScanQueued \<or> sr_status s = ScanRunning"

text \<open>\<open>updateMany({ where, data })\<close>: the number of rows and the new table.\<close>

definition update_scans :: "(scan_row \<Rightarrow> bool) \<Rightarrow> (scan_row \<Rightarrow> scan_row) \<Rightarrow> world \<Rightarrow> nat \<times> world" where
  "update_scans p g w =
    (length (filter p (w_scans w)), w\<lparr>w_scans := map (\<lambda>s. if p s then g s else s) (w_scans w)\<rparr>)"

subsection \<open>A call of enqueue\<close>

record enqueue_input =
  ei_organizationId :: jstr
  ei_repositoryId :: jstr
  ei_pullId :: jstr
  ei_headSha :: jstr
  ei_trigger :: scan_trigger
  ei_full :: bool

record enqueue_result =
  er_scanId :: jstr
  er_status :: scan_status
  er_deduplicated :: bool

text \<open>What the call knows after its first reads.\<close>

record enqueue_ctx =
  ec_input :: enqueue_input
  ec_latest :: "scan_row option"
  ec_ruleTiers :: "rule_tier list"
  ec_trigger :: scan_trigger

datatype cancel_phase =
  CancelRead
| CancelRemove "jstr list" "jstr list"  \<comment> \<open>all in-flight scans, those whose job is still to be looked at\<close>
| CancelUpdate "jstr list"
| CancelDone nat
| CancelThrown

datatype phase =
  PhLatest
| PhOrganization
| PhCancel cancel_phase
| PhDecide
| PhCreate scan_mode
| PhAdd jstr
| PhReturned enqueue_result
| PhThrown

definition WEBHOOK_DEDUPE_STATUSES :: "scan_status list" where
  "WEBHOOK_DEDUPE_STATUSES = [ScanQueued, ScanRunning, ScanDone]"

text \<open>\<open>findFirst\<close> with \<open>orderBy: { attempt: 'desc' }\<close>.\<close>

definition attempt_desc :: "scan_row \<Rightarrow> scan_row \<Rightarrow> int" where
  "attempt_desc a b = int (sr_attempt b) - int (sr_attempt a)"

definition same_sha :: "enqueue_input \<Rightarrow> scan_row \<Rightarrow> bool" where
  "same_sha inp s \<longleftrightarrow> sr_repositoryId s = ei_repositoryId inp \<and> sr_pullId s = ei_pullId inp \<and> sr_headSha s = ei_headSha inp"

definition first_of :: "'a list \<Rightarrow> 'a option" where
  "first_of xs = (case xs of [] \<Rightarrow> None | x # _ \<Rightarrow> Some x)"

definition latestForSha :: "world \<Rightarrow> enqueue_input \<Rightarrow> scan_row option" where
  "latestForSha w inp = first_of (js_sort attempt_desc (filter (same_sha inp) (w_scans w)))"

definition org_tiers :: "world \<Rightarrow> jstr \<Rightarrow> rule_tier list" where
  "org_tiers w orgId = enabledTiers (case w_orgs w orgId of Some org \<Rightarrow> og_disabledRuleTiers org | None \<Rightarrow> [])"

definition rulesetIsStale :: "scan_row option \<Rightarrow> rule_tier list \<Rightarrow> bool" where
  "rulesetIsStale latest tiers =
    (case latest of
      None \<Rightarrow> False
    | Some s \<Rightarrow> sr_status s = ScanDone \<and>
        (sr_rulesetVersion s \<noteq> RULESET_VERSION \<or> \<not> sameTiers (sr_ruleTiers s) tiers))"

text \<open>After the two reads: a duplicate returns, anything else goes on to \<open>cancelPending\<close>.\<close>

definition after_reads :: "world \<Rightarrow> enqueue_ctx \<Rightarrow> enqueue_ctx \<times> phase" where
  "after_reads w ctx =
    (let trigger = ei_trigger (ec_input ctx);
         tiers = org_tiers w (ei_organizationId (ec_input ctx));
         stale = rulesetIsStale (ec_latest ctx) tiers;
         ctx' = ctx\<lparr>ec_ruleTiers := tiers,
           ec_trigger := (if trigger = TriggerWebhook \<and> stale then TriggerRescan else trigger)\<rparr>
     in (case ec_latest ctx of
        Some s \<Rightarrow>
          if trigger = TriggerWebhook \<and> sr_status s \<in> set WEBHOOK_DEDUPE_STATUSES \<and> \<not> stale
          then (ctx', PhReturned \<lparr>er_scanId = sr_id s, er_status = sr_status s, er_deduplicated = True\<rparr>)
          else (ctx', PhCancel CancelRead)
      | None \<Rightarrow> (ctx', PhCancel CancelRead)))"

subsection \<open>Cancelling what is in flight\<close>

definition removable :: "job_state \<Rightarrow> bool" where
  "removable s \<longleftrightarrow> s = JobWaiting \<or> s = JobDelayed \<or> s = JobPrioritized"

definition remove_job :: "jstr \<Rightarrow> world \<Rightarrow> world" where
  "remove_job i w =
    (case al_get (w_jobs w) i of
      Some s \<Rightarrow> if removable s then w\<lparr>w_jobs := al_delete i (w_jobs w)\<rparr> else w
    | None \<Rightarrow> w)"

definition in_flight_of :: "world \<Rightarrow> jstr \<Rightarrow> jstr list" where
  "in_flight_of w pullId = map sr_id (filter (\<lambda>s. sr_pullId s = pullId \<and> in_flight s) (w_scans w))"

definition supersede :: "jstr list \<Rightarrow> world \<Rightarrow> nat \<times> world" where
  "supersede ids = update_scans (\<lambda>s. sr_id s \<in> set ids \<and> in_flight s) (\<lambda>s. s\<lparr>sr_status := ScanSuperseded\<rparr>)"

text \<open>\<open>up\<close> says whether the database or the queue answers the operation of the step; if not, the
  exception leaves \<open>cancelPending\<close>.\<close>

fun cancel_step :: "bool \<Rightarrow> jstr \<Rightarrow> world \<Rightarrow> cancel_phase \<Rightarrow> world \<times> cancel_phase" where
  "cancel_step up pullId w CancelRead =
    (let ids = in_flight_of w pullId
     in if \<not> up then (w, CancelThrown) else if ids = [] then (w, CancelDone 0) else (w, CancelRemove ids ids))"
| "cancel_step up pullId w (CancelRemove ids []) = (w, CancelUpdate ids)"
| "cancel_step up pullId w (CancelRemove ids (j # todo)) =
    (if up then (remove_job j w, CancelRemove ids todo) else (w, CancelThrown))"
| "cancel_step up pullId w (CancelUpdate ids) =
    (if up then (let (n, w') = supersede ids w in (w', CancelDone n)) else (w, CancelThrown))"
| "cancel_step up pullId w ph = (w, ph)"

subsection \<open>Creating the scan\<close>

definition base_of :: "scan_row \<Rightarrow> scan_base" where
  "base_of s = \<lparr>sb_id = sr_id s, sb_headSha = sr_headSha s, sb_rulesetVersion = sr_rulesetVersion s,
    sb_aiPromptVersion = sr_aiPromptVersion s, sb_aiLocale = sr_aiLocale s, sb_aiStatus = sr_aiStatus s,
    sb_aiReviewed = sr_aiReviewed s, sb_ruleTiers = sr_ruleTiers s\<rparr>"

definition last_done :: "world \<Rightarrow> jstr \<Rightarrow> scan_row option" where
  "last_done w pullId = List.find (\<lambda>s. sr_pullId s = pullId \<and> sr_status s = ScanDone) (rev (w_scans w))"

definition pull_org :: "world \<Rightarrow> jstr \<Rightarrow> org_row option" where
  "pull_org w pullId = (case w_pulls w pullId of None \<Rightarrow> None | Some p \<Rightarrow> w_orgs w (pl_organizationId p))"

definition mode_for :: "world \<Rightarrow> enqueue_ctx \<Rightarrow> scan_mode" where
  "mode_for w ctx =
    (let pullId = ei_pullId (ec_input ctx)
     in decideScanMode
      \<lparr>mi_base = map_option base_of (last_done w pullId), mi_full = ei_full (ec_input ctx),
       mi_effectivePolicy = map_option pl_effectivePolicy (w_pulls w pullId),
       mi_aiEnabled = (case pull_org w pullId of None \<Rightarrow> False
          | Some org \<Rightarrow> og_aiProvider org \<noteq> None \<and> og_aiConsentAt org \<noteq> None),
       mi_locale = map_option og_aiLocale (pull_org w pullId), mi_ruleTiers = ec_ruleTiers ctx\<rparr>)"

definition new_scan :: "jstr \<Rightarrow> enqueue_ctx \<Rightarrow> scan_mode \<Rightarrow> scan_row" where
  "new_scan i ctx mode =
    \<lparr>sr_id = i, sr_repositoryId = ei_repositoryId (ec_input ctx), sr_pullId = ei_pullId (ec_input ctx),
     sr_headSha = ei_headSha (ec_input ctx), sr_status = ScanQueued, sr_trigger = ec_trigger ctx,
     sr_attempt = (case ec_latest ctx of Some s \<Rightarrow> sr_attempt s | None \<Rightarrow> 0) + 1,
     sr_rulesetVersion = RULESET_VERSION, sr_ruleTiers = ec_ruleTiers ctx, sr_mode = mode, sr_errorCode = None,
     sr_aiStatus = None, sr_aiPromptVersion = None, sr_aiLocale = None, sr_aiReviewed = False\<rparr>"

text \<open>The unique constraint on repository, pull request, commit and attempt.\<close>

definition scan_key :: "scan_row \<Rightarrow> jstr \<times> jstr \<times> jstr \<times> nat" where
  "scan_key s = (sr_repositoryId s, sr_pullId s, sr_headSha s, sr_attempt s)"

definition violates_unique :: "world \<Rightarrow> scan_row \<Rightarrow> bool" where
  "violates_unique w s \<longleftrightarrow> scan_key s \<in> scan_key ` set (w_scans w)"

text \<open>BullMQ drops an \<open>add\<close> whose id exists.\<close>

definition add_job :: "jstr \<Rightarrow> world \<Rightarrow> world" where
  "add_job i w =
    (case al_get (w_jobs w) i of
      None \<Rightarrow> w\<lparr>w_jobs := w_jobs w @ [(i, JobWaiting)]\<rparr>
    | Some _ \<Rightarrow> w)"

definition fail_enqueue :: "jstr \<Rightarrow> world \<Rightarrow> world" where
  "fail_enqueue i w =
    snd (update_scans (\<lambda>s. sr_id s = i) (\<lambda>s. s\<lparr>sr_status := ScanFailed\<rparr>) w)"

text \<open>One step of a call; \<open>i\<close> is the id the database would give a new row, \<open>up\<close> as above.  Only
  the failure of \<open>add\<close> is caught.\<close>

fun enqueue_step :: "jstr \<Rightarrow> bool \<Rightarrow> world \<Rightarrow> enqueue_ctx \<Rightarrow> phase \<Rightarrow> world \<times> enqueue_ctx \<times> phase" where
  "enqueue_step i up w ctx PhLatest =
    (if up then (w, ctx\<lparr>ec_latest := latestForSha w (ec_input ctx)\<rparr>, PhOrganization) else (w, ctx, PhThrown))"
| "enqueue_step i up w ctx PhOrganization = (if up then (w, after_reads w ctx) else (w, ctx, PhThrown))"
| "enqueue_step i up w ctx (PhCancel (CancelDone n)) = (w, ctx, PhDecide)"
| "enqueue_step i up w ctx (PhCancel CancelThrown) = (w, ctx, PhThrown)"
| "enqueue_step i up w ctx (PhCancel c) =
    (let (w', c') = cancel_step up (ei_pullId (ec_input ctx)) w c in (w', ctx, PhCancel c'))"
| "enqueue_step i up w ctx PhDecide = (w, ctx, if up then PhCreate (mode_for w ctx) else PhThrown)"
| "enqueue_step i up w ctx (PhCreate mode) =
    (let s = new_scan i ctx mode
     in if \<not> up then (w, ctx, PhThrown)
        else if violates_unique w s
        then (case latestForSha w (ec_input ctx) of
            Some e \<Rightarrow> (w, ctx, PhReturned \<lparr>er_scanId = sr_id e, er_status = sr_status e, er_deduplicated = True\<rparr>)
          | None \<Rightarrow> (w, ctx, PhThrown))
        else (w\<lparr>w_scans := w_scans w @ [s]\<rparr>, ctx, PhAdd i))"
| "enqueue_step i up w ctx (PhAdd j) =
    (if up
     then (add_job j w, ctx, PhReturned \<lparr>er_scanId = j, er_status = ScanQueued, er_deduplicated = False\<rparr>)
     else (fail_enqueue j w, ctx, PhThrown))"
| "enqueue_step i up w ctx ph = (w, ctx, ph)"

definition enqueue_call :: "enqueue_input \<Rightarrow> enqueue_ctx" where
  "enqueue_call inp = \<lparr>ec_input = inp, ec_latest = None, ec_ruleTiers = [], ec_trigger = ei_trigger inp\<rparr>"

text \<open>A call run to its end with nothing in between.\<close>

fun enqueue_run :: "nat \<Rightarrow> jstr \<Rightarrow> bool \<Rightarrow> world \<Rightarrow> enqueue_ctx \<Rightarrow> phase \<Rightarrow> world \<times> enqueue_ctx \<times> phase" where
  "enqueue_run 0 i up w ctx ph = (w, ctx, ph)"
| "enqueue_run (Suc n) i up w ctx ph =
    (let (w', ctx', ph') = enqueue_step i up w ctx ph in enqueue_run n i up w' ctx' ph')"

definition enqueue :: "jstr \<Rightarrow> bool \<Rightarrow> world \<Rightarrow> enqueue_input \<Rightarrow> world \<times> phase" where
  "enqueue i up w inp =
    (let (w', _, ph) = enqueue_run (length (w_scans w) + 10) i up w (enqueue_call inp) PhLatest in (w', ph))"
subsection \<open>The newest attempt\<close>

interpretation newest_attempt: js_comparator attempt_desc
  by unfold_locales (auto simp: attempt_desc_def)

lemma first_of_sorted:
  assumes "sorted_wrt R xs" "x \<in> set xs" "\<And>y. R y y"
  shows "\<exists>y. first_of xs = Some y \<and> R y x"
  using assms by (cases xs) (auto simp: first_of_def)

lemma latestForSha_max:
  assumes "s \<in> set (w_scans w)" "same_sha inp s"
  shows "\<exists>l. latestForSha w inp = Some l \<and> sr_attempt s \<le> sr_attempt l"
proof -
  have "s \<in> set (js_sort attempt_desc (filter (same_sha inp) (w_scans w)))" using assms by simp
  from first_of_sorted [OF newest_attempt.sorted_sort this] show ?thesis
    by (auto simp: latestForSha_def attempt_desc_def)
qed

lemma latestForSha_in: "latestForSha w inp = Some s \<Longrightarrow> s \<in> set (w_scans w) \<and> same_sha inp s"
proof -
  assume "latestForSha w inp = Some s"
  then have "s \<in> set (js_sort attempt_desc (filter (same_sha inp) (w_scans w)))"
    by (auto simp: latestForSha_def first_of_def simp del: set_js_sort split: list.splits)
  then show ?thesis by simp
qed

subsection \<open>A call run alone\<close>

definition leads :: "nat \<Rightarrow> jstr \<Rightarrow> world \<times> enqueue_ctx \<times> phase \<Rightarrow> world \<times> enqueue_ctx \<times> phase \<Rightarrow> bool" where
  "leads k i a b \<longleftrightarrow> (case a of (w, ctx, ph) \<Rightarrow> enqueue_run k i True w ctx ph = b)"

lemma leads_step: "enqueue_step i True w ctx ph = b \<Longrightarrow> leads (Suc 0) i (w, ctx, ph) b"
  by (cases b) (simp add: leads_def)

lemma leads_trans [trans]: "leads k i a b \<Longrightarrow> leads m i b c \<Longrightarrow> leads (k + m) i a c"
proof -
  have "enqueue_run (k + m) i True w ctx ph =
      (case enqueue_run k i True w ctx ph of (w', ctx', ph') \<Rightarrow> enqueue_run m i True w' ctx' ph')" for w ctx ph
    by (induction k arbitrary: w ctx ph) (simp_all add: case_prod_beta Let_def)
  then show "leads k i a b \<Longrightarrow> leads m i b c \<Longrightarrow> leads (k + m) i a c"
    by (auto simp: leads_def split: prod.splits)
qed

lemma leads_returned: "leads k i (w, ctx, PhReturned r) b \<longleftrightarrow> b = (w, ctx, PhReturned r)"
  unfolding leads_def by (induction k) auto

lemma leads_enough:
  assumes "leads k i a (w, ctx, PhReturned r)" "k \<le> n"
  shows "leads n i a (w, ctx, PhReturned r)"
  using leads_trans [OF assms(1), of "n - k" "(w, ctx, PhReturned r)"] assms(2) by (simp add: leads_returned)

lemma leads_remove:
  "leads (length todo) i (w, ctx, PhCancel (CancelRemove ids todo))
    (fold remove_job todo w, ctx, PhCancel (CancelRemove ids []))"
proof (induction todo arbitrary: w)
  case Nil
  show ?case by (simp add: leads_def)
next
  case (Cons j todo)
  from Cons.IH [of "remove_job j w"] show ?case by (simp add: leads_def)
qed

lemma remove_job_keeps [simp]:
  "w_scans (remove_job j w) = w_scans w" "w_orgs (remove_job j w) = w_orgs w" "w_pulls (remove_job j w) = w_pulls w"
  "w_latest (remove_job j w) = w_latest w" "w_results (remove_job j w) = w_results w"
  by (simp_all add: remove_job_def split: option.split)

lemma fold_remove_keeps:
  "w_scans (fold remove_job ids w) = w_scans w" "w_orgs (fold remove_job ids w) = w_orgs w"
  "w_pulls (fold remove_job ids w) = w_pulls w" "w_latest (fold remove_job ids w) = w_latest w"
  "w_results (fold remove_job ids w) = w_results w"
  by (induction ids arbitrary: w) simp_all

lemma al_get_delete_absent: "al_get m i = None \<Longrightarrow> al_get (al_delete k m) i = None"
  by (induction k m rule: al_delete.induct) (auto split: if_splits)

lemma fold_remove_absent: "al_get (w_jobs w) i = None \<Longrightarrow> al_get (w_jobs (fold remove_job ids w)) i = None"
proof (induction ids arbitrary: w)
  case (Cons j ids)
  have "al_get (w_jobs (remove_job j w)) i = None"
    using Cons.prems by (auto simp: remove_job_def al_get_delete_absent split: option.split)
  from Cons.IH [OF this] show ?case by simp
qed simp

text \<open>What \<open>cancelPending\<close> leaves of the scans of a pull request.\<close>

definition superseded :: "jstr \<Rightarrow> scan_row \<Rightarrow> scan_row" where
  "superseded pullId s = (if sr_pullId s = pullId \<and> in_flight s then s\<lparr>sr_status := ScanSuperseded\<rparr> else s)"

definition cancelled :: "jstr \<Rightarrow> world \<Rightarrow> world" where
  "cancelled pullId w = (fold remove_job (in_flight_of w pullId) w)\<lparr>w_scans := map (superseded pullId) (w_scans w)\<rparr>"

lemma cancelled_nothing:
  assumes "in_flight_of w pullId = []"
  shows "cancelled pullId w = w"
proof -
  from assms have "superseded pullId s = s" if "s \<in> set (w_scans w)" for s
    using that by (auto simp: superseded_def in_flight_of_def filter_empty_conv)
  with assms show ?thesis by (simp add: cancelled_def map_idI)
qed

lemma supersede_cancelled:
  assumes "distinct (map sr_id (w_scans w))"
  shows "snd (supersede (in_flight_of w pullId) (fold remove_job (in_flight_of w pullId) w)) = cancelled pullId w"
proof -
  have "(sr_id s \<in> set (in_flight_of w pullId) \<and> in_flight s) \<longleftrightarrow> (sr_pullId s = pullId \<and> in_flight s)" if "s \<in> set (w_scans w)" for s
    using that assms by (auto simp: in_flight_of_def dest: inj_onD simp: distinct_map)
  then show ?thesis
    by (auto simp: supersede_def update_scans_def cancelled_def fold_remove_keeps superseded_def intro!: arg_cong [where f = "\<lambda>x. _\<lparr>w_scans := x\<rparr>"])
qed

lemma leads_cancel:
  assumes ids: "distinct (map sr_id (w_scans w))" and p: "ei_pullId (ec_input ctx) = pullId"
  shows "\<exists>k \<le> length (w_scans w) + 4. leads k i (w, ctx, PhCancel CancelRead) (cancelled pullId w, ctx, PhDecide)"
proof (cases "in_flight_of w pullId")
  case Nil
  then have "cancelled pullId w = w" by (rule cancelled_nothing)
  moreover have "leads 2 i (w, ctx, PhCancel CancelRead) (w, ctx, PhDecide)"
    using Nil p by (simp add: leads_def eval_nat_numeral)
  ultimately show ?thesis by (intro exI [of _ 2]) simp
next
  case (Cons j js)
  let ?ids = "in_flight_of w pullId" and ?w = "fold remove_job (in_flight_of w pullId) w"
  have "leads 1 i (w, ctx, PhCancel CancelRead) (w, ctx, PhCancel (CancelRemove ?ids ?ids))"
    using Cons p by (simp add: leads_def Let_def)
  also have "leads (length ?ids) i (w, ctx, PhCancel (CancelRemove ?ids ?ids)) (?w, ctx, PhCancel (CancelRemove ?ids []))"
    by (rule leads_remove)
  also have "leads 3 i (?w, ctx, PhCancel (CancelRemove ?ids [])) (cancelled pullId w, ctx, PhDecide)"
    using supersede_cancelled [OF ids] by (simp add: leads_def eval_nat_numeral case_prod_beta)
  finally show ?thesis
    using length_filter_le [of "\<lambda>s. sr_pullId s = pullId \<and> in_flight s" "w_scans w"]
    by (intro exI [of _ "1 + length ?ids + 3"]) (simp add: in_flight_of_def)
qed

text \<open>A call that runs alone, with every service up, returns.  A webhook for a commit that has a queued, running or
  finished scan under the current rules and quality profile gets that scan back and changes nothing.  Any other call leaves
  the new scan as the only one of the pull request in flight, with a job waiting for it, and supersedes the earlier ones.\<close>

lemma enqueue_alone:
  assumes fresh: "i \<notin> sr_id ` set (w_scans w)" "al_get (w_jobs w) i = None" and ids: "distinct (map sr_id (w_scans w))"
    and run: "enqueue i True w inp = (w', ph)"
  shows "(\<exists>s. latestForSha w inp = Some s \<and> ei_trigger inp = TriggerWebhook \<and>
      sr_status s \<in> {ScanQueued, ScanRunning, ScanDone} \<and>
      (sr_status s = ScanDone \<longrightarrow> sr_rulesetVersion s = RULESET_VERSION \<and>
        sameTiers (sr_ruleTiers s) (org_tiers w (ei_organizationId inp))) \<and>
      w' = w \<and> ph = PhReturned \<lparr>er_scanId = sr_id s, er_status = sr_status s, er_deduplicated = True\<rparr>) \<or>
    (ph = PhReturned \<lparr>er_scanId = i, er_status = ScanQueued, er_deduplicated = False\<rparr> \<and>
      in_flight_of w' (ei_pullId inp) = [i] \<and> al_get (w_jobs w') i = Some JobWaiting \<and>
      (\<exists>new. w_scans w' = map (superseded (ei_pullId inp)) (w_scans w) @ [new] \<and> same_sha inp new \<and>
        (\<forall>s \<in> set (w_scans w). same_sha inp s \<longrightarrow> sr_attempt s < sr_attempt new)))"
proof -
  let ?p = "ei_pullId inp" and ?N = "length (w_scans w) + 10"
  let ?ctx = "(enqueue_call inp)\<lparr>ec_latest := latestForSha w inp\<rparr>"
  have two: "leads 2 i (w, enqueue_call inp, PhLatest) (w, after_reads w ?ctx)"
    by (simp add: leads_def eval_nat_numeral enqueue_call_def case_prod_beta)
  obtain ctx ph1 where ar: "after_reads w ?ctx = (ctx, ph1)" by fastforce
  have ctx: "ec_input ctx = inp" "ec_latest ctx = latestForSha w inp"
    using ar by (auto simp: after_reads_def Let_def enqueue_call_def split: option.splits if_splits)
  have result: "(w', ph) = (w2, PhReturned r)" if "leads k i (w, enqueue_call inp, PhLatest) (w2, ctx2, PhReturned r)" "k \<le> ?N" for k w2 ctx2 r
    using leads_enough [OF that] run by (simp add: enqueue_def leads_def)
  consider (dup) s where "latestForSha w inp = Some s" "ei_trigger inp = TriggerWebhook"
      "sr_status s \<in> set WEBHOOK_DEDUPE_STATUSES" "\<not> rulesetIsStale (Some s) (org_tiers w (ei_organizationId inp))"
      "ph1 = PhReturned \<lparr>er_scanId = sr_id s, er_status = sr_status s, er_deduplicated = True\<rparr>"
    | (go) "ph1 = PhCancel CancelRead"
    using ar by (auto simp: after_reads_def Let_def enqueue_call_def split: option.splits if_splits)
  then show ?thesis
  proof cases
    case dup
    from two have "leads 2 i (w, enqueue_call inp, PhLatest) (w, ctx, ph1)" by (simp add: ar)
    from result [OF this [unfolded dup(5)]] dup(1-4) show ?thesis
      by (auto simp: WEBHOOK_DEDUPE_STATUSES_def rulesetIsStale_def)
  next
    case go
    let ?w = "cancelled ?p w"
    let ?mode = "mode_for ?w ctx"
    let ?new = "new_scan i ctx (mode_for (cancelled ?p w) ctx)"
    let ?w3 = "?w\<lparr>w_scans := w_scans ?w @ [?new]\<rparr>"
    have sc: "w_scans ?w = map (superseded ?p) (w_scans w)" by (simp add: cancelled_def)
    have same: "same_sha inp (superseded ?p s) = same_sha inp s" "sr_attempt (superseded ?p s) = sr_attempt s" for s
      by (simp_all add: superseded_def same_sha_def)
    have att: "sr_attempt s < sr_attempt ?new" if "s \<in> set (w_scans w)" "same_sha inp s" for s
      using latestForSha_max [OF that] ctx(2) by (auto simp: new_scan_def)
    have uniq: "\<not> violates_unique ?w ?new"
    proof
      assume "violates_unique ?w ?new"
      then obtain s where s: "s \<in> set (w_scans w)" "scan_key (superseded ?p s) = scan_key ?new"
        by (auto simp: violates_unique_def sc)
      then have "same_sha inp s" "sr_attempt s = sr_attempt ?new"
        using same ctx(1) by (auto simp: scan_key_def same_sha_def new_scan_def superseded_def split: if_splits)
      with att [OF s(1)] show False by simp
    qed
    obtain k where k: "k \<le> length (w_scans w) + 4" "leads k i (w, ctx, PhCancel CancelRead) (?w, ctx, PhDecide)"
      using leads_cancel [OF ids, of ctx ?p i] ctx(1) by auto
    have none: "al_get (w_jobs ?w) i = None" using fold_remove_absent [OF fresh(2)] by (simp add: cancelled_def)
    have "leads 2 i (w, enqueue_call inp, PhLatest) (w, ctx, PhCancel CancelRead)" using two go by (simp add: ar)
    also note k(2)
    also have "leads 3 i (?w, ctx, PhDecide) (add_job i ?w3, ctx, PhReturned \<lparr>er_scanId = i, er_status = ScanQueued, er_deduplicated = False\<rparr>)"
      using uniq by (simp add: leads_def eval_nat_numeral Let_def)
    finally have eq: "w' = add_job i ?w3" "ph = PhReturned \<lparr>er_scanId = i, er_status = ScanQueued, er_deduplicated = False\<rparr>"
      using result k(1) by force+
    have "in_flight_of w' ?p = [i]"
      using ctx(1) by (auto simp: eq in_flight_of_def add_job_def none sc new_scan_def in_flight_def filter_empty_conv superseded_def)
    moreover have "al_get (w_jobs w') i = Some JobWaiting"
    proof -
      have "al_get (m @ [(i, JobWaiting)]) i = Some JobWaiting" if "al_get m i = None" for m
        using that by (induction m) (auto split: if_splits)
      with none show ?thesis by (simp add: eq add_job_def)
    qed
    moreover have "w_scans w' = map (superseded ?p) (w_scans w) @ [?new]" by (simp add: eq add_job_def none sc)
    moreover have "same_sha inp ?new" using ctx(1) by (simp add: same_sha_def new_scan_def)
    ultimately show ?thesis using att eq(2) by blast
  qed
qed

definition sample_world :: world where
  "sample_world = \<lparr>w_scans = [], w_orgs = (\<lambda>_. None), w_pulls = (\<lambda>_. None), w_jobs = [], w_latest = (\<lambda>_. None),
    w_results = []\<rparr>"

definition sample_webhook :: enqueue_input where
  "sample_webhook = \<lparr>ei_organizationId = ''o'', ei_repositoryId = ''r'', ei_pullId = ''p'', ei_headSha = ''1'',
    ei_trigger = TriggerWebhook, ei_full = False\<rparr>"

end
