(* ===== verification/Ai_Persist.thy ===== *)
theory Ai_Persist
  imports Ai_Merge Ai_Dedupe Scan_Queue
begin

section \<open>Storing the result of an AI review\<close>

text \<open>
  \<open>src/modules/ai/scan/ai-scan.persistence.ts\<close>: the findings of a run are given their place in
  the lifecycle, and a result is written for a scan in one transaction, replacing or merging with
  what an earlier run left there.  The finding rows are those of \<open>Scan_Counts\<close>; the columns
  of a scan that concern the AI and the table of summaries join them here.  \<open>uuid\<close> are the
  results of \<open>randomUUID\<close> in the call, in order.
\<close>

datatype risk_level = RiskLow | RiskMedium | RiskHigh

record ai_columns =
  ax_scanId :: jstr
  ax_status :: "ai_scan_status option"
  ax_startedAt :: "int option"
  ax_errorCode :: "jstr option"
  ax_rawRef :: "jstr option"
  ax_provider :: "jstr option"
  ax_model :: "jstr option"
  ax_promptVersion :: "jstr option"
  ax_locale :: "jstr option"
  ax_tokensIn :: "nat option"
  ax_tokensOut :: "nat option"
  ax_cached :: bool
  ax_findingsTotal :: nat
  ax_findingsRejected :: nat
  ax_findingsDropped :: nat
  ax_findingsDeduped :: nat
  ax_reportedRiskLevel :: "risk_level option"
  ax_flags :: "jstr list"

record ai_summary =
  as_scanId :: jstr
  as_pullId :: jstr
  as_summaryMd :: jstr
  as_riskLevel :: risk_level
  as_filesOmitted :: "jstr list"

record ai_db = lifecycle_db +
  ad_columns :: "ai_columns list"
  ad_summaries :: "ai_summary list"

subsection \<open>Risk\<close>

definition SUSPICIOUS_LOW_RISK :: jstr where "SUSPICIOUS_LOW_RISK = ''suspicious_low_risk''"

definition riskLevelFromCounts :: "scan_counts \<Rightarrow> risk_level" where
  "riskLevelFromCounts counts =
    (if 0 < sc_critical counts then RiskHigh else if 0 < sc_major counts then RiskMedium else RiskLow)"

subsection \<open>The lifecycle of the run's findings\<close>

record scan_for_ai =
  sa_id :: jstr
  sa_pullId :: jstr
  sa_diffMode :: diff_mode
  sa_baseScanId :: "jstr option"
  sa_findingsCount :: nat
  sa_ruleTiers :: "rule_tier list"

record ai_context =
  ac_baseAi :: "stored_finding list"
  ac_persistedAi :: "stored_finding list"
  ac_recentResolved :: "stored_finding list"
  ac_windowScanIds :: "jstr list"

definition loadAiLifecycleContext :: "'a lifecycle_db_scheme \<Rightarrow> scan_for_ai \<Rightarrow> ai_context" where
  "loadAiLifecycleContext db scan =
    (let full = (sa_diffMode scan = DiffFull);
         life = lifecycle_db.truncate db;
         recent = loadRecentResolved life (sa_pullId scan) (sa_id scan) (if full then Some AI else None)
     in \<lparr>ac_baseAi = (case sa_baseScanId scan of
            Some b \<Rightarrow> if full \<and> b \<noteq> []
              then map stored_finding.truncate (filter (\<lambda>f. isFindingEnabled f (sa_ruleTiers scan))
                (loadBaseFindings life b (Some AI)))
              else []
          | None \<Rightarrow> []),
         ac_persistedAi = (if full then [] else map stored_finding.truncate
            (filter (\<lambda>f. db_scanId f = sa_id scan \<and> fd_source f = AI \<and> fr_status f = PERSISTED) (ld_findings db))),
         ac_recentResolved = map stored_finding.truncate (fst recent), ac_windowScanIds = snd recent\<rparr>)"

definition candidateOf :: "kept_finding \<Rightarrow> candidate_finding" where
  "candidateOf f =
    \<lparr>fd_source = AI, fd_ruleId = ''ai.'' @ to_lower (category_name (dr_category f)), fd_severity = dr_severity f,
     fd_title = dr_title f, fd_message = dr_message f, fd_filePath = dr_filePath f, fd_lineStart = dr_lineStart f,
     fd_lineEnd = dr_lineEnd f, fd_snippet = None, fd_fingerprint = ka_fingerprint f,
     fd_suppressedReason = ka_suppressedReason f, fd_category = Some (dr_category f),
     fd_confidence = Some (dr_confidence f), fd_reportedSeverity = Some (dr_reportedSeverity f), fd_dedupeOfId = None\<rparr>"

definition duplicate_row :: "jstr \<Rightarrow> kept_finding \<times> jstr \<Rightarrow> jstr \<Rightarrow> finding_row" where
  "duplicate_row scanId = (\<lambda>(f, dedupeOfId) uuid.
    (fromCandidate (candidateOf f) scanId NEW None uuid)
      \<lparr>fd_suppressedReason := Some DEDUPE_STATIC, fd_dedupeOfId := Some dedupeOfId\<rparr>)"

definition ai_plan :: "scan_for_ai \<Rightarrow> kept_finding list \<Rightarrow> ai_context \<Rightarrow> plan_input" where
  "ai_plan scan kept ctx =
    \<lparr>pi_scanId = sa_id scan, pi_candidates = map candidateOf kept, pi_carry = None,
     pi_match = (if sa_diffMode scan = DiffFull \<and> ac_baseAi ctx \<noteq> [] then Some (ac_baseAi ctx) else None),
     pi_alreadyPersisted = (if sa_diffMode scan = DiffIncremental then Some (map fd_fingerprint (ac_persistedAi ctx)) else None),
     pi_recentResolved = ac_recentResolved ctx\<rparr>"

definition buildAiRows ::
  "(nat \<Rightarrow> jstr) \<Rightarrow> scan_for_ai \<Rightarrow> kept_finding list \<Rightarrow> (kept_finding \<times> jstr) list \<Rightarrow> ai_context \<Rightarrow> bool \<Rightarrow>
   finding_row list \<times> jstr list" where
  "buildAiRows uuid scan kept duplicates ctx keepDeduped =
    (let (rows, newFingerprints) = planFindings uuid (ai_plan scan kept ctx)
     in (rows @ (if keepDeduped
           then map (\<lambda>(i, d). duplicate_row (sa_id scan) d (uuid i)) (enumerate (length rows) duplicates) else []),
         newFingerprints))"

definition freshCriticalCount :: "finding_row list \<Rightarrow> nat" where
  "freshCriticalCount rows = length (filter (\<lambda>r. fd_suppressedReason r = None \<and> fd_severity r = CRITICAL \<and>
    (fr_status r = NEW \<or> fr_status r = REOPENED)) rows)"

subsection \<open>The transaction\<close>

record ai_result =
  ar_status :: ai_scan_status
  ar_summaryMd :: jstr
  ar_reportedRiskLevel :: "risk_level option"
  ar_filesOmitted :: "jstr list"
  ar_rows :: "finding_row list"
  ar_total :: nat
  ar_rejected :: nat
  ar_dropped :: nat
  ar_deduped :: nat
  ar_provider :: jstr
  ar_model :: jstr
  ar_promptVersion :: jstr
  ar_locale :: "jstr option"
  ar_tokensIn :: "nat option"
  ar_tokensOut :: "nat option"
  ar_flags :: "jstr list"
  ar_mergeWithPrevious :: bool

definition result_flags :: "scan_for_ai \<Rightarrow> ai_result \<Rightarrow> jstr list" where
  "result_flags scan res =
    (if ar_reportedRiskLevel res = Some RiskLow \<and> ar_total res = 0 \<and> 0 < sa_findingsCount scan
     then [SUSPICIOUS_LOW_RISK] else []) @ ar_flags res"

definition set_columns :: "scan_for_ai \<Rightarrow> ai_result \<Rightarrow> ai_columns \<Rightarrow> ai_columns" where
  "set_columns scan res c = c\<lparr>ax_status := Some (ar_status res), ax_errorCode := None, ax_rawRef := None,
    ax_provider := Some (ar_provider res), ax_model := Some (ar_model res),
    ax_promptVersion := Some (ar_promptVersion res), ax_locale := ar_locale res, ax_tokensIn := ar_tokensIn res,
    ax_tokensOut := ar_tokensOut res, ax_cached := (ar_status res = AiCached), ax_findingsTotal := ar_total res,
    ax_findingsRejected := ar_rejected res, ax_findingsDropped := ar_dropped res, ax_findingsDeduped := ar_deduped res,
    ax_reportedRiskLevel := ar_reportedRiskLevel res, ax_flags := result_flags scan res\<rparr>"

text \<open>\<open>updateMany\<close> on the AI columns, with the number of rows.\<close>

definition update_columns ::
  "(ai_columns \<Rightarrow> bool) \<Rightarrow> (ai_columns \<Rightarrow> ai_columns) \<Rightarrow> 'a ai_db_scheme \<Rightarrow> nat \<times> 'a ai_db_scheme" where
  "update_columns p g db =
    (length (filter p (ad_columns db)), db\<lparr>ad_columns := map (\<lambda>c. if p c then g c else c) (ad_columns db)\<rparr>)"

text \<open>The rows an earlier run of this scan wrote; what the static step carried is not among them.\<close>

definition earlierRun :: "scan_for_ai \<Rightarrow> db_finding \<Rightarrow> bool" where
  "earlierRun scan f \<longleftrightarrow> db_scanId f = sa_id scan \<and> fd_source f = AI \<and>
    (sa_diffMode scan = DiffIncremental \<longrightarrow>
      fr_status f = NEW \<or> fr_status f = REOPENED \<or> fd_suppressedReason f = Some DEDUPE_STATIC)"

definition previous_of :: "db_finding \<Rightarrow> previous_finding" where
  "previous_of f = stored_finding.extend (stored_finding.truncate f)
    (previous_finding.fields (Some (fr_status f)) (fr_originFindingId f))"

definition previous_rows :: "scan_for_ai \<Rightarrow> 'a lifecycle_db_scheme \<Rightarrow> previous_finding list" where
  "previous_rows scan db = map previous_of
    (filter (\<lambda>f. earlierRun scan f \<and> fr_status f \<noteq> RESOLVED \<and> fd_suppressedReason f = None) (ld_findings db))"

definition stored_row :: "scan_for_ai \<Rightarrow> finding_row \<Rightarrow> db_finding" where
  "stored_row scan row = finding_row.extend row (db_finding.fields (sa_id scan) (sa_pullId scan))"

definition rows_to_store :: "(nat \<Rightarrow> jstr) \<Rightarrow> scan_for_ai \<Rightarrow> ai_result \<Rightarrow> 'a lifecycle_db_scheme \<Rightarrow>
    finding_row list \<times> merge_stats option" where
  "rows_to_store uuid scan res db =
    (if ar_mergeWithPrevious res
     then apsnd Some (mergeWithPreviousRun uuid (ar_rows res) (previous_rows scan db) SameScan)
     else (ar_rows res, None))"

definition replace_rows :: "scan_for_ai \<Rightarrow> finding_row list \<Rightarrow> 'a lifecycle_db_scheme \<Rightarrow> 'a lifecycle_db_scheme" where
  "replace_rows scan rows db =
    db\<lparr>ld_findings := filter (\<lambda>f. \<not> earlierRun scan f) (ld_findings db) @ map (stored_row scan) rows\<rparr>"

definition new_summary :: "scan_for_ai \<Rightarrow> ai_result \<Rightarrow> scan_counts \<Rightarrow> ai_summary" where
  "new_summary scan res counts = \<lparr>as_scanId = sa_id scan, as_pullId = sa_pullId scan,
    as_summaryMd = ar_summaryMd res, as_riskLevel = riskLevelFromCounts counts, as_filesOmitted = ar_filesOmitted res\<rparr>"

definition recount :: "jstr \<Rightarrow> ai_db \<Rightarrow> scan_counts \<times> ai_db" where
  "recount scanId db =
    (let (counts, life) = recomputeScanCounts (lifecycle_db.truncate db) scanId
     in (counts, lifecycle_db.extend life (lifecycle_db.more db)))"

definition persistAiResult ::
  "(nat \<Rightarrow> jstr) \<Rightarrow> scan_for_ai \<Rightarrow> ai_result \<Rightarrow> (ai_scan_status option \<Rightarrow> bool) \<Rightarrow> ai_db \<Rightarrow>
   (scan_counts \<times> merge_stats option) option \<times> ai_db" where
  "persistAiResult uuid scan res aiStatusCondition db =
    (let (claimed, db1) = update_columns (\<lambda>c. ax_scanId c = sa_id scan \<and> aiStatusCondition (ax_status c)) (set_columns scan res) db
     in if claimed = 0 then (None, db)
        else (let (rows, merge) = rows_to_store uuid scan res db1;
                  (counts, db2) = recount (sa_id scan) (replace_rows scan rows db1)
              in (Some (counts, merge),
                  db2\<lparr>ad_summaries := filter (\<lambda>s. as_scanId s \<noteq> sa_id scan) (ad_summaries db2) @
                    [new_summary scan res counts]\<rparr>)))"
subsection \<open>What a transaction writes\<close>

definition active_row :: "db_finding \<Rightarrow> bool" where
  "active_row f \<longleftrightarrow> fr_status f \<noteq> RESOLVED \<and> fd_suppressedReason f = None"

text \<open>The active findings of a scan that are at least as severe as rank \<open>n\<close>.\<close>

definition active_at_least :: "nat \<Rightarrow> jstr \<Rightarrow> 'a lifecycle_db_scheme \<Rightarrow> nat" where
  "active_at_least n scanId db = length (filter (\<lambda>f. db_scanId f = scanId \<and> active_row f \<and>
    n \<le> SEVERITY_RANK (fd_severity f)) (ld_findings db))"

lemma recount_simps [simp]:
  "ld_findings (snd (recount scanId db)) = ld_findings db"
  "ad_columns (snd (recount scanId db)) = ad_columns db"
  "ad_summaries (snd (recount scanId db)) = ad_summaries db"
  "fst (recount scanId db) = scan_counts_of (lifecycle_db.truncate db) scanId"
  "ld_scans (snd (recount scanId db)) = map (\<lambda>s. if ds_id s = scanId
     then s\<lparr>ds_counts := scan_counts_of (lifecycle_db.truncate db) scanId\<rparr> else s) (ld_scans db)"
  by (cases db; simp add: recount_def recomputeScanCounts_def Let_def lifecycle_db.defs)+

lemma counted_truncate: "counted_rows (lifecycle_db.truncate db) scanId =
    filter (\<lambda>f. db_scanId f = scanId \<and> fd_suppressedReason f = None) (ld_findings db)"
  by (simp add: counted_rows_def lifecycle_db.defs)

lemma counts_of_findings:
  "ld_findings a = ld_findings b \<Longrightarrow>
    scan_counts_of (lifecycle_db.truncate a) scanId = scan_counts_of (lifecycle_db.truncate b) scanId"
  by (simp add: scan_counts_of_def counted_rows_def reopened_within_scan_def lifecycle_db.defs)

lemma count_pos: "0 < count_where P rows \<longleftrightarrow> (\<exists>f \<in> set rows. P f)"
  by (auto simp: count_where_def filter_empty_conv)

lemma risk_of_counts:
  "riskLevelFromCounts (scan_counts_of (lifecycle_db.truncate db) scanId) =
    (if \<exists>f \<in> set (ld_findings db). db_scanId f = scanId \<and> active_row f \<and> fd_severity f = CRITICAL then RiskHigh
     else if \<exists>f \<in> set (ld_findings db). db_scanId f = scanId \<and> active_row f \<and> fd_severity f = MAJOR then RiskMedium
     else RiskLow)"
proof -
  have "0 < count_where (\<lambda>f. fr_status f \<noteq> RESOLVED \<and> fd_severity f = sv) (counted_rows (lifecycle_db.truncate db) scanId) \<longleftrightarrow>
      (\<exists>f \<in> set (ld_findings db). db_scanId f = scanId \<and> active_row f \<and> fd_severity f = sv)" for sv
    unfolding count_pos counted_truncate active_row_def by auto
  then show ?thesis unfolding riskLevelFromCounts_def scan_counts_of_sel by (simp only:)
qed

lemma persist_cases:
  obtains (refused) "\<not> (\<exists>c \<in> set (ad_columns db). ax_scanId c = sa_id scan \<and> cond (ax_status c))"
      "persistAiResult uuid scan res cond db = (None, db)"
  | (written) rows merge db' where "\<exists>c \<in> set (ad_columns db). ax_scanId c = sa_id scan \<and> cond (ax_status c)"
      "rows_to_store uuid scan res db = (rows, merge)"
      "ld_findings db' = filter (\<lambda>f. \<not> earlierRun scan f) (ld_findings db) @ map (stored_row scan) rows"
      "ad_columns db' = map (\<lambda>c. if ax_scanId c = sa_id scan \<and> cond (ax_status c) then set_columns scan res c else c) (ad_columns db)"
      "ld_scans db' = map (\<lambda>s. if ds_id s = sa_id scan
         then s\<lparr>ds_counts := scan_counts_of (lifecycle_db.truncate db') (sa_id scan)\<rparr> else s) (ld_scans db)"
      "ad_summaries db' = filter (\<lambda>s. as_scanId s \<noteq> sa_id scan) (ad_summaries db) @
         [new_summary scan res (scan_counts_of (lifecycle_db.truncate db') (sa_id scan))]"
      "persistAiResult uuid scan res cond db = (Some (scan_counts_of (lifecycle_db.truncate db') (sa_id scan), merge), db')"
proof -
  let ?p = "\<lambda>c. ax_scanId c = sa_id scan \<and> cond (ax_status c)"
  let ?db1 = "snd (update_columns ?p (set_columns scan res) db)"
  obtain rows merge where r: "rows_to_store uuid scan res db = (rows, merge)" by fastforce
  have r1: "rows_to_store uuid scan res ?db1 = (rows, merge)"
  proof -
    have "previous_rows scan ?db1 = previous_rows scan db" by (simp add: previous_rows_def update_columns_def)
    with r show ?thesis by (simp only: rows_to_store_def)
  qed
  define db2 where "db2 = snd (recount (sa_id scan) (replace_rows scan rows ?db1))"
  define counts where "counts = fst (recount (sa_id scan) (replace_rows scan rows ?db1))"
  define db' where "db' = db2\<lparr>ad_summaries := filter (\<lambda>s. as_scanId s \<noteq> sa_id scan) (ad_summaries db2) @ [new_summary scan res counts]\<rparr>"
  have f: "ld_findings db' = filter (\<lambda>f. \<not> earlierRun scan f) (ld_findings db) @ map (stored_row scan) rows"
    by (simp add: db'_def db2_def replace_rows_def update_columns_def)
  have c: "counts = scan_counts_of (lifecycle_db.truncate db') (sa_id scan)"
  proof -
    have "ld_findings (replace_rows scan rows ?db1) = ld_findings db'"
      by (simp add: f replace_rows_def update_columns_def)
    from counts_of_findings [OF this] show ?thesis by (simp add: counts_def)
  qed
  show thesis
  proof (cases "\<exists>c \<in> set (ad_columns db). ?p c")
    case True
    then have n: "fst (update_columns ?p (set_columns scan res) db) \<noteq> 0" by (auto simp: update_columns_def filter_empty_conv)
    show ?thesis
    proof (rule written [OF True r f])
      have "persistAiResult uuid scan res cond db = (Some (counts, merge), db')"
        using n unfolding persistAiResult_def Let_def case_prod_beta r1 db'_def db2_def counts_def by simp
      then show "persistAiResult uuid scan res cond db = (Some (scan_counts_of (lifecycle_db.truncate db') (sa_id scan), merge), db')"
        by (simp only: c)
      show "ad_columns db' = map (\<lambda>c. if ?p c then set_columns scan res c else c) (ad_columns db)"
        by (simp add: db'_def db2_def replace_rows_def update_columns_def)
      show "ld_scans db' = map (\<lambda>s. if ds_id s = sa_id scan
          then s\<lparr>ds_counts := scan_counts_of (lifecycle_db.truncate db') (sa_id scan)\<rparr> else s) (ld_scans db)"
        unfolding c [symmetric] by (simp add: db'_def db2_def counts_def replace_rows_def update_columns_def)
      show "ad_summaries db' = filter (\<lambda>s. as_scanId s \<noteq> sa_id scan) (ad_summaries db) @
          [new_summary scan res (scan_counts_of (lifecycle_db.truncate db') (sa_id scan))]"
        unfolding c [symmetric] by (simp add: db'_def db2_def replace_rows_def update_columns_def)
    qed
  next
    case False
    then have "fst (update_columns ?p (set_columns scan res) db) = 0" by (auto simp: update_columns_def filter_empty_conv)
    then have "persistAiResult uuid scan res cond db = (None, db)"
      unfolding persistAiResult_def Let_def case_prod_beta by simp
    with False show ?thesis by (rule refused)
  qed
qed

text \<open>A result is stored whole or not at all.  When the scan's AI status does not meet the
  condition (nobody waits for this result any more) nothing is written.  Otherwise the findings of other
  scans, of the rules and, in an incremental scan, those carried forward stay as they are; the rows
  of the earlier run are gone and those of this one follow; the scan's counts are those of the
  findings now stored; and its one summary is rated high exactly when an active critical finding is
  stored, low exactly when there is no active critical or major one.\<close>

theorem persistAiResult_writes:
  "(case persistAiResult uuid scan res cond db of
     (None, db') \<Rightarrow> db' = db \<and> \<not> (\<exists>c \<in> set (ad_columns db). ax_scanId c = sa_id scan \<and> cond (ax_status c))
   | (Some (counts, merge), db') \<Rightarrow>
      (\<exists>c \<in> set (ad_columns db). ax_scanId c = sa_id scan \<and> cond (ax_status c)) \<and>
      (\<exists>rows. ld_findings db' = filter (\<lambda>f. \<not> earlierRun scan f) (ld_findings db) @ map (stored_row scan) rows \<and>
        rows_to_store uuid scan res db = (rows, merge)) \<and>
      counts = scan_counts_of (lifecycle_db.truncate db') (sa_id scan) \<and>
      (\<forall>s \<in> set (ld_scans db'). ds_id s = sa_id scan \<longrightarrow> ds_counts s = counts) \<and>
      filter (\<lambda>s. as_scanId s \<noteq> sa_id scan) (ad_summaries db') = filter (\<lambda>s. as_scanId s \<noteq> sa_id scan) (ad_summaries db) \<and>
      (\<exists>s. filter (\<lambda>s. as_scanId s = sa_id scan) (ad_summaries db') = [s] \<and>
        (as_riskLevel s = RiskHigh \<longleftrightarrow> (\<exists>f \<in> set (ld_findings db'). db_scanId f = sa_id scan \<and> active_row f \<and> fd_severity f = CRITICAL)) \<and>
        (as_riskLevel s = RiskLow \<longleftrightarrow> \<not> (\<exists>f \<in> set (ld_findings db'). db_scanId f = sa_id scan \<and> active_row f \<and>
          (fd_severity f = CRITICAL \<or> fd_severity f = MAJOR)))))"
proof (cases rule: persist_cases [of db scan cond uuid res])
  case (written rows merge db')
  let ?c = "scan_counts_of (lifecycle_db.truncate db') (sa_id scan)"
  have sm: "filter (\<lambda>s. as_scanId s = sa_id scan) (ad_summaries db') = [new_summary scan res ?c]"
    "filter (\<lambda>s. as_scanId s \<noteq> sa_id scan) (ad_summaries db') = filter (\<lambda>s. as_scanId s \<noteq> sa_id scan) (ad_summaries db)"
    unfolding written(6) by (simp_all add: new_summary_def filter_empty_conv)
  have sc: "\<forall>s \<in> set (ld_scans db'). ds_id s = sa_id scan \<longrightarrow> ds_counts s = ?c"
    by (subst written(5)) auto
  have rk: "as_riskLevel (new_summary scan res ?c) = RiskHigh \<longleftrightarrow>
      (\<exists>f \<in> set (ld_findings db'). db_scanId f = sa_id scan \<and> active_row f \<and> fd_severity f = CRITICAL)"
    "as_riskLevel (new_summary scan res ?c) = RiskLow \<longleftrightarrow>
      \<not> (\<exists>f \<in> set (ld_findings db'). db_scanId f = sa_id scan \<and> active_row f \<and> (fd_severity f = CRITICAL \<or> fd_severity f = MAJOR))"
    unfolding new_summary_def ai_summary.simps risk_of_counts by auto
  show ?thesis unfolding written(7) prod.case option.case
    using written(1,2,3) sc sm rk by blast
qed simp

subsection \<open>A regenerated review\<close>

lemma previous_of_simps [simp]:
  "st_id (previous_of f) = st_id f" "fd_source (previous_of f) = fd_source f" "fd_severity (previous_of f) = fd_severity f"
  "pv_status (previous_of f) = Some (fr_status f)" "pv_originFindingId (previous_of f) = fr_originFindingId f"
  by (simp_all add: previous_of_def stored_finding.defs previous_finding.defs)

lemma stored_row_simps [simp]:
  "db_scanId (stored_row scan r) = sa_id scan" "db_pullId (stored_row scan r) = sa_pullId scan"
  "fd_source (stored_row scan r) = fd_source r" "fd_severity (stored_row scan r) = fd_severity r"
  "fr_status (stored_row scan r) = fr_status r" "fd_suppressedReason (stored_row scan r) = fd_suppressedReason r"
  "fr_originFindingId (stored_row scan r) = fr_originFindingId r"
  by (simp_all add: stored_row_def finding_row.defs db_finding.defs)

lemma filter_split_length:
  "length (filter P xs) = length (filter (\<lambda>x. P x \<and> Q x) xs) + length (filter (\<lambda>x. P x \<and> \<not> Q x) xs)"
  by (induction xs) auto

lemma previous_rows_facts:
  assumes "distinct (map st_id (ld_findings db))"
  shows "distinct (map st_id (previous_rows scan db))"
    "\<forall>e \<in> set (previous_rows scan db). fd_source e = AI \<and> pv_status e \<noteq> Some RESOLVED"
  using assms by (auto simp: previous_rows_def comp_def distinct_map_filter earlierRun_def)

lemma length_filter_map: "length (filter P (map g (filter Q xs))) = length (filter (\<lambda>x. Q x \<and> P (g x)) xs)"
  by (induction xs) auto

lemma previous_rows_count:
  "length (filter (\<lambda>e. n \<le> SEVERITY_RANK (fd_severity e)) (previous_rows scan db)) =
    length (filter (\<lambda>f. (db_scanId f = sa_id scan \<and> active_row f \<and> n \<le> SEVERITY_RANK (fd_severity f)) \<and> earlierRun scan f) (ld_findings db))"
  unfolding previous_rows_def length_filter_map
  by (rule arg_cong [of _ _ length], rule filter_cong) (auto simp: earlierRun_def active_row_def)


subsection \<open>A sample\<close>

definition sample_scan :: scan_for_ai where
  "sample_scan = \<lparr>sa_id = ''s2'', sa_pullId = ''p1'', sa_diffMode = DiffFull, sa_baseScanId = Some ''s1'',
    sa_findingsCount = 0, sa_ruleTiers = ALL_RULE_TIERS\<rparr>"

definition sample_base_finding :: db_finding where
  "sample_base_finding = finding_row.extend ((carried sample_previous SameScan ''b1'')\<lparr>st_notReproduced := False\<rparr>)
    (db_finding.fields ''s1'' ''p1'')"

text \<open>The row of the first AI run of scan \<open>s2\<close>, which repeated the finding of scan \<open>s1\<close>.\<close>

definition sample_persisted :: db_finding where
  "sample_persisted = stored_row sample_scan (fromStored (stored_finding.truncate sample_base_finding) ''s2'' PERSISTED None ''r1'')"

definition sample_db :: ai_db where
  "sample_db = \<lparr>ld_findings = [sample_base_finding, sample_persisted],
    ld_scans = [\<lparr>ds_id = ''s1'', ds_pullId = ''p1'', ds_status = ScanDone, ds_createdAt = 1, ds_counts = zero_counts\<rparr>,
      \<lparr>ds_id = ''s2'', ds_pullId = ''p1'', ds_status = ScanDone, ds_createdAt = 2, ds_counts = zero_counts\<rparr>],
    ad_columns = [\<lparr>ax_scanId = ''s2'', ax_status = Some AiRunning, ax_startedAt = Some 7, ax_errorCode = None, ax_rawRef = None,
      ax_provider = Some ''openai'', ax_model = Some ''m'', ax_promptVersion = Some AI_PROMPT_VERSION,
      ax_locale = Some ''en'', ax_tokensIn = None, ax_tokensOut = None, ax_cached = False, ax_findingsTotal = 0,
      ax_findingsRejected = 0, ax_findingsDropped = 0, ax_findingsDeduped = 0, ax_reportedRiskLevel = None,
      ax_flags = []\<rparr>],
    ad_summaries = []\<rparr>"

text \<open>A regenerate in which the model reports nothing.\<close>

definition sample_rows :: "finding_row list" where
  "sample_rows = fst (buildAiRows (\<lambda>n. ''n'' @ show_nat n) sample_scan [] []
    (loadAiLifecycleContext sample_db sample_scan) False)"

definition sample_result :: ai_result where
  "sample_result = \<lparr>ar_status = AiDone, ar_summaryMd = ''ok'', ar_reportedRiskLevel = Some RiskLow,
    ar_filesOmitted = [], ar_rows = sample_rows, ar_total = 0, ar_rejected = 0, ar_dropped = 0, ar_deduped = 0,
    ar_provider = ''openai'', ar_model = ''m'', ar_promptVersion = AI_PROMPT_VERSION, ar_locale = Some ''en'',
    ar_tokensIn = Some 10, ar_tokensOut = Some 2, ar_flags = [], ar_mergeWithPrevious = True\<rparr>"

abbreviation sample_persist :: "(scan_counts \<times> merge_stats option) option \<times> ai_db" where
  "sample_persist \<equiv> persistAiResult (\<lambda>n. ''c'' @ show_nat n) sample_scan sample_result (\<lambda>s. s = Some AiRunning) sample_db"

text \<open>
  One finding of the base scan, two rows of this one: the lifecycle marks it RESOLVED since the
  model did not repeat it, and the merge carries it as PERSISTED.  For a base scan of the same
  commit \<open>mergeWithPreviousRun\<close> drops the RESOLVED row; for a regenerate of the same scan it
  does not, and the scan counts the finding both as resolved and as an active critical one.
\<close>

lemma regenerate_contradicts:
  "map (\<lambda>f. (fr_status f, fr_originFindingId f)) (filter (\<lambda>f. db_scanId f = ''s2'') (ld_findings (snd sample_persist))) =
    [(RESOLVED, Some ''b1''), (PERSISTED, Some ''b1'')]"
  "map_option (\<lambda>(c, m). (sc_critical c, sc_persisted c, sc_resolved c)) (fst sample_persist) = Some (1, 1, 1)"
  by code_simp+

lemma persistAiResult_writes_witness:
  "\<exists>s. filter (\<lambda>s. as_scanId s = ''s2'') (ad_summaries (snd sample_persist)) = [s] \<and> as_riskLevel s = RiskHigh"
proof -
  obtain c m where p: "fst sample_persist = Some (c, m)" using regenerate_contradicts(2) by auto
  have hi: "\<exists>f \<in> set (ld_findings (snd sample_persist)). db_scanId f = ''s2'' \<and> active_row f \<and> fd_severity f = CRITICAL"
    by code_simp
  have "sa_id sample_scan = ''s2''" by (simp add: sample_scan_def)
  with persistAiResult_writes [where uuid = "\<lambda>n. ''c'' @ show_nat n" and scan = sample_scan and res = sample_result and cond = "\<lambda>s. s = Some AiRunning" and db = sample_db] p hi
  show ?thesis by (simp add: case_prod_beta) blast
qed


end
