(* ===== verification/Ai_Review.thy ===== *)
theory Ai_Review
  imports Complex_Main Js_Regex
begin

section \<open>The model's answer before validation\<close>

text \<open>
  What happens to a \<open>report_review\<close> tool input before its findings are read:
  \<open>src/modules/ai/scan/report-review-clamp.ts\<close> shortens what is too long for the schema of
  \<open>ai-prompt.constants.ts\<close>, and \<open>report-review-repair.ts\<close> puts one answer together from two
  attempts.  The input is an arbitrary JSON value.  An object is the list of its own
  properties; reading an absent one gives \<open>undefined\<close>, here \<open>None\<close>.
\<close>

datatype json =
  JNull | JBool bool | JNumber rat | JString jstr | JArray "json list" | JObject "(jstr \<times> json) list"

fun isRecord :: "json \<Rightarrow> bool" where
  "isRecord (JObject _) = True"
| "isRecord _ = False"

fun is_string :: "json option \<Rightarrow> bool" where
  "is_string (Some (JString _)) = True"
| "is_string _ = False"

fun is_array :: "json option \<Rightarrow> bool" where
  "is_array (Some (JArray _)) = True"
| "is_array _ = False"

fun props :: "json \<Rightarrow> (jstr \<times> json) list" where
  "props (JObject ps) = ps"
| "props _ = []"

subsection \<open>Shortening a text\<close>

text \<open>The \<open>maxLength\<close> and \<open>maxItems\<close> of the schema.\<close>

definition LIMIT_summary :: nat where "LIMIT_summary = 1500"
definition LIMIT_findings :: nat where "LIMIT_findings = 25"
definition LIMIT_title :: nat where "LIMIT_title = 80"
definition LIMIT_message :: nat where "LIMIT_message = 600"

text \<open>
  The ellipsis is one code unit outside Latin-1; it stands here at 133, the place Windows-1252
  gives it.  Only its length and that it is no white space matter.
\<close>

definition ELLIPSIS :: jstr where
  "ELLIPSIS = [CHR 0x85]"

text \<open>\<open>s.slice(0, n)\<close>: a negative end counts from the end of the text.\<close>

definition slice_to :: "jstr \<Rightarrow> int \<Rightarrow> jstr" where
  "slice_to s n = (if n < 0 then take (nat (int (length s) + n)) s else take (nat n) s)"

text \<open>\<open>lastIndexOf\<close> with its \<open>-1\<close>.\<close>

definition lastIndexOf :: "jstr \<Rightarrow> jstr \<Rightarrow> int" where
  "lastIndexOf s p = (case last_index_of s p of None \<Rightarrow> - 1 | Some k \<Rightarrow> int k)"

text \<open>\<open>/\s\S*$/\<close>.\<close>

definition LAST_WORD :: rx where
  "LAST_WORD = rseq [RSet is_space, rstar (RSet (\<lambda>c. \<not> is_space c)), REol]"

definition sentence_end :: "jstr \<Rightarrow> int" where
  "sentence_end head =
    max (max (lastIndexOf head ''. '') (lastIndexOf head [CHR ''.'', CHR 0x0A])) (lastIndexOf head [CHR 0x0A])"

definition cut_at :: "jstr \<Rightarrow> int \<Rightarrow> jstr" where
  "cut_at head room =
    (let e = sentence_end head
     in if rat_of_int e \<ge> rat_of_int room * (7 / 10)
        then slice_to head (if 0 \<le> e \<and> nat e < length head \<and> head ! nat e = CHR ''.'' then e + 1 else e)
        else (case rx_exec LAST_WORD head 0 of
            Some m \<Rightarrow> if rx_start m > 0 then take (rx_start m) head else head
          | None \<Rightarrow> head))"

definition truncateText :: "jstr \<Rightarrow> nat \<Rightarrow> jstr" where
  "truncateText txt mx =
    (if length txt \<le> mx then txt
     else (let room = int mx - int (length ELLIPSIS); head = slice_to txt room
       in trim_end (cut_at head room) @ ELLIPSIS))"

subsection \<open>Clamping a review\<close>

text \<open>\<open>clampField\<close>: the updated object and the paths shortened so far.\<close>

definition clampField ::
  "jstr \<Rightarrow> nat \<Rightarrow> jstr \<Rightarrow> (jstr \<times> json) list \<times> jstr list \<Rightarrow> (jstr \<times> json) list \<times> jstr list" where
  "clampField key limit path = (\<lambda>(target, clamped).
    (case al_get target key of
      Some (JString txt) \<Rightarrow>
        if length txt > limit then (al_set key (JString (truncateText txt limit)) target, clamped @ [path])
        else (target, clamped)
    | _ \<Rightarrow> (target, clamped)))"

definition finding_path :: "nat \<Rightarrow> jstr \<Rightarrow> jstr" where
  "finding_path index field = ''findings['' @ show_nat index @ ''].'' @ field"

fun clamp_finding :: "nat \<Rightarrow> json \<Rightarrow> jstr list \<Rightarrow> json \<times> jstr list" where
  "clamp_finding index (JObject ps) clamped =
    (let (ps', clamped') = clampField ''message'' LIMIT_message (finding_path index ''message'')
           (clampField ''title'' LIMIT_title (finding_path index ''title'') (ps, clamped))
     in (JObject ps', clamped'))"
| "clamp_finding index finding clamped = (finding, clamped)"

fun clamp_findings :: "nat \<Rightarrow> json list \<Rightarrow> jstr list \<Rightarrow> json list \<times> jstr list" where
  "clamp_findings index [] clamped = ([], clamped)"
| "clamp_findings index (f # fs) clamped =
    (let (f', clamped1) = clamp_finding index f clamped;
         (fs', clamped2) = clamp_findings (Suc index) fs clamped1
     in (f' # fs', clamped2))"

definition clamp_list :: "json list \<Rightarrow> jstr list \<Rightarrow> json list \<times> jstr list" where
  "clamp_list findings clamped =
    (if length findings > LIMIT_findings
     then clamp_findings 0 (take LIMIT_findings findings) (clamped @ [''findings''])
     else clamp_findings 0 findings clamped)"

fun clampReportReview :: "json \<Rightarrow> json \<times> jstr list" where
  "clampReportReview (JObject ps) =
    (let (ps1, clamped1) = clampField ''summary'' LIMIT_summary ''summary'' (ps, [])
     in (case al_get ps1 ''findings'' of
        Some (JArray fs) \<Rightarrow>
          (let (fs', clamped2) = clamp_list fs clamped1 in (JObject (al_set ''findings'' (JArray fs') ps1), clamped2))
      | _ \<Rightarrow> (JObject ps1, clamped1)))"
| "clampReportReview inp = (inp, [])"

subsection \<open>Putting two attempts together\<close>

datatype review_field = FieldSummary | FieldFindings

fun field_name :: "review_field \<Rightarrow> jstr" where
  "field_name FieldSummary = ''summary''"
| "field_name FieldFindings = ''findings''"

fun field_valid :: "review_field \<Rightarrow> json option \<Rightarrow> bool" where
  "field_valid FieldSummary v = is_string v"
| "field_valid FieldFindings v = is_array v"

fun field_empty :: "review_field \<Rightarrow> json" where
  "field_empty FieldSummary = JString []"
| "field_empty FieldFindings = JArray []"

fun missingReviewFields :: "json \<Rightarrow> review_field list" where
  "missingReviewFields (JObject ps) =
    (if is_string (al_get ps ''summary'') then [] else [FieldSummary]) @
    (if is_array (al_get ps ''findings'') then [] else [FieldFindings])"
| "missingReviewFields v = [FieldSummary, FieldFindings]"

type_synonym salvaged = "(jstr \<times> json) list \<times> review_field list"

definition fill :: "json list \<Rightarrow> review_field \<Rightarrow> salvaged \<Rightarrow> salvaged" where
  "fill records field = (\<lambda>(obj, defaulted).
    (if field_valid field (al_get obj (field_name field)) then (obj, defaulted)
     else (case List.find (\<lambda>r. field_valid field (al_get (props r) (field_name field))) records of
        Some r \<Rightarrow> (al_set (field_name field) (the (al_get (props r) (field_name field))) obj, defaulted)
      | None \<Rightarrow> (al_set (field_name field) (field_empty field) obj, defaulted @ [field]))))"

definition salvageReview :: "json list \<Rightarrow> salvaged option" where
  "salvageReview attempts =
    (let records = filter isRecord attempts
     in (case rev records of
        [] \<Rightarrow> None
      | base # _ \<Rightarrow> Some (fill records FieldFindings (fill records FieldSummary (props base, [])))))"
subsection \<open>Shortened texts fit\<close>

lemma length_trim_end: "length (trim_end s) \<le> length s"
  unfolding trim_end_def by (simp add: length_dropWhile_le [of is_space "rev s", simplified])

lemma length_slice_to: "length (slice_to s n) \<le> length s"
  by (auto simp: slice_to_def)

lemma length_cut_at: "length (cut_at head room) \<le> length head"
  using length_slice_to by (auto simp: cut_at_def Let_def split: option.splits)

lemma length_truncateText:
  assumes "1 \<le> mx"
  shows "length (truncateText txt mx) \<le> mx"
proof -
  let ?room = "int mx - 1" and ?head = "slice_to txt (int mx - 1)"
  have "length ?head \<le> nat ?room" using assms by (simp add: slice_to_def)
  moreover have "length (trim_end (cut_at ?head ?room)) \<le> length ?head"
    using length_trim_end [of "cut_at ?head ?room"] length_cut_at [of ?head ?room] by linarith
  ultimately have "length (trim_end (cut_at ?head ?room)) + 1 \<le> mx" using assms by linarith
  then show ?thesis by (simp add: truncateText_def Let_def ELLIPSIS_def)
qed

subsection \<open>A clamped review is within the limits\<close>

text \<open>The part of the schema the clamp is for: its \<open>maxLength\<close> and \<open>maxItems\<close>.\<close>

fun short_text :: "nat \<Rightarrow> json option \<Rightarrow> bool" where
  "short_text limit (Some (JString t)) = (length t \<le> limit)"
| "short_text limit _ = True"

definition finding_within :: "json \<Rightarrow> bool" where
  "finding_within f \<longleftrightarrow> short_text LIMIT_title (al_get (props f) ''title'') \<and>
    short_text LIMIT_message (al_get (props f) ''message'')"

fun findings_within :: "json option \<Rightarrow> bool" where
  "findings_within (Some (JArray fs)) = (length fs \<le> LIMIT_findings \<and> list_all finding_within fs)"
| "findings_within _ = True"

definition within_limits :: "json \<Rightarrow> bool" where
  "within_limits v \<longleftrightarrow> short_text LIMIT_summary (al_get (props v) ''summary'') \<and>
    findings_within (al_get (props v) ''findings'')"

lemma al_set_same: "al_get m k = Some v \<Longrightarrow> al_set k v m = m"
  by (induction k v m rule: al_set.induct) (auto split: if_splits)

lemma clampField_cases:
  assumes "clampField key limit path (target, clamped) = (target', clamped')" "1 \<le> limit"
  shows "short_text limit (al_get target' key) \<and> (k \<noteq> key \<longrightarrow> al_get target' k = al_get target k) \<and>
    (if short_text limit (al_get target key) then target' = target \<and> clamped' = clamped
     else clamped' = clamped @ [path])"
proof (cases "al_get target key")
  case None
  with assms show ?thesis by (simp add: clampField_def)
next
  case (Some v)
  with assms length_truncateText [OF assms(2)] show ?thesis
    by (cases v) (auto simp: clampField_def split: if_splits)
qed

lemma limits_pos [simp]: "1 \<le> LIMIT_summary" "1 \<le> LIMIT_title" "1 \<le> LIMIT_message"
  by (simp_all add: LIMIT_summary_def LIMIT_title_def LIMIT_message_def)

lemma clamp_finding_cases:
  assumes "clamp_finding i f clamped = (f', clamped')"
  shows "finding_within f' \<and>
    (if finding_within f then f' = f \<and> clamped' = clamped else \<exists>ps. ps \<noteq> [] \<and> clamped' = clamped @ ps)"
proof (cases f)
  case (JObject ps)
  obtain t c1 where t: "clampField ''title'' LIMIT_title (finding_path i ''title'') (ps, clamped) = (t, c1)"
    by fastforce
  obtain m c2 where m: "clampField ''message'' LIMIT_message (finding_path i ''message'') (t, c1) = (m, c2)"
    by fastforce
  from assms JObject t m have "f' = JObject m" "clamped' = c2" by simp_all
  with JObject clampField_cases [OF t limits_pos(2), of "''message''"]
    clampField_cases [OF m limits_pos(3), of "''title''"]
  show ?thesis
    by (cases "short_text LIMIT_title (al_get ps ''title'')"; cases "short_text LIMIT_message (al_get ps ''message'')")
      (simp_all add: finding_within_def)
qed (use assms in \<open>auto simp: finding_within_def\<close>)

lemma clamp_findings_cases:
  "clamp_findings i fs clamped = (fs', clamped') \<Longrightarrow>
    length fs' = length fs \<and> list_all finding_within fs' \<and>
    (if list_all finding_within fs then fs' = fs \<and> clamped' = clamped else \<exists>ps. ps \<noteq> [] \<and> clamped' = clamped @ ps)"
proof (induction i fs clamped arbitrary: fs' clamped' rule: clamp_findings.induct)
  case (2 i f fs clamped)
  obtain f1 c1 where f1: "clamp_finding i f clamped = (f1, c1)" by fastforce
  obtain fs1 c2 where fs1: "clamp_findings (Suc i) fs c1 = (fs1, c2)" by fastforce
  from 2(2) f1 fs1 have eq: "fs' = f1 # fs1" "clamped' = c2" by simp_all
  from clamp_finding_cases [OF f1] 2(1) [OF f1 [symmetric] refl fs1] eq show ?case
    by (auto split: if_splits)
qed simp

lemma clamp_list_cases:
  assumes "clamp_list fs clamped = (fs', clamped')"
  shows "findings_within (Some (JArray fs')) \<and>
    (if findings_within (Some (JArray fs)) then fs' = fs \<and> clamped' = clamped
     else \<exists>ps. ps \<noteq> [] \<and> clamped' = clamped @ ps)"
proof (cases "length fs > LIMIT_findings")
  case True
  with assms have "clamp_findings 0 (take LIMIT_findings fs) (clamped @ [''findings'']) = (fs', clamped')"
    by (simp add: clamp_list_def)
  from clamp_findings_cases [OF this] True show ?thesis by (auto split: if_splits)
next
  case False
  with assms have "clamp_findings 0 fs clamped = (fs', clamped')" by (simp add: clamp_list_def)
  from clamp_findings_cases [OF this] False show ?thesis by (auto split: if_splits)
qed

lemma clampReportReview_object:
  assumes "clampReportReview (JObject ps) = (v', clamped)"
  shows "within_limits v' \<and> (if within_limits (JObject ps) then v' = JObject ps \<and> clamped = [] else clamped \<noteq> []) \<and>
    (\<forall>k. k \<noteq> ''summary'' \<and> k \<noteq> ''findings'' \<longrightarrow> al_get (props v') k = al_get ps k)"
proof -
  obtain ps1 c1 where s: "clampField ''summary'' LIMIT_summary ''summary'' (ps, []) = (ps1, c1)" by fastforce
  note sc = clampField_cases [OF s limits_pos(1)]
  have fnd: "al_get ps1 ''findings'' = al_get ps ''findings''" using sc [of "''findings''"] by simp
  have other: "al_get ps1 k = al_get ps k" if "k \<noteq> ''summary''" for k using sc [of k] that by blast
  show ?thesis
  proof (cases "\<exists>fs. al_get ps ''findings'' = Some (JArray fs)")
    case True
    then obtain fs where fs: "al_get ps ''findings'' = Some (JArray fs)" by blast
    obtain fs' c2 where l: "clamp_list fs c1 = (fs', c2)" by fastforce
    from assms s fnd fs l have eq: "v' = JObject (al_set ''findings'' (JArray fs') ps1)" "clamped = c2"
      by simp_all
    note lc = clamp_list_cases [OF l]
    have "al_set ''findings'' (JArray fs') ps1 = ps1" if "fs' = fs"
      using that fnd fs by (simp add: al_set_same)
    with sc [of "''findings''"] lc fs eq other show ?thesis
      by (auto simp: within_limits_def split: if_splits)
  next
    case False
    then have any: "findings_within (al_get ps ''findings'')"
      by (cases "al_get ps ''findings''" rule: findings_within.cases) auto
    from False assms s fnd have eq: "v' = JObject ps1" "clamped = c1"
      by (auto split: option.splits json.splits)
    from sc [of "''findings''"] any eq fnd other show ?thesis
      by (auto simp: within_limits_def split: if_splits)
  qed
qed

text \<open>Whatever JSON value the model answers with, the clamped answer is within every length and
  count limit of the schema; an answer that already was within them is passed on unchanged with
  nothing reported, and exactly an answer that was not has something reported as shortened; and no
  property but the summary and the findings is touched.\<close>

theorem clampReportReview_fits:
  "within_limits (fst (clampReportReview v)) \<and>
   (snd (clampReportReview v) = [] \<longleftrightarrow> within_limits v) \<and>
   (within_limits v \<longrightarrow> fst (clampReportReview v) = v) \<and>
   (\<forall>k. k \<noteq> ''summary'' \<and> k \<noteq> ''findings'' \<longrightarrow>
     al_get (props (fst (clampReportReview v))) k = al_get (props v) k)"
proof (cases v)
  case (JObject ps)
  obtain v' c where e: "clampReportReview (JObject ps) = (v', c)" by fastforce
  from clampReportReview_object [OF e] JObject e show ?thesis by (auto split: if_splits)
qed (simp_all add: within_limits_def)

lemma clampReportReview_fits_witness:
  "within_limits (JObject [(''summary'', JString ''ok''), (''findings'', JArray [JNull])]) \<and>
   fst (clampReportReview (JObject [(''summary'', JString ''ok''), (''findings'', JArray [JNull])])) =
     JObject [(''summary'', JString ''ok''), (''findings'', JArray [JNull])] \<and>
   al_get (props (fst (clampReportReview (JObject [(''risk_level'', JString ''low'')])))) ''risk_level'' = Some (JString ''low'')"
proof -
  have w: "within_limits (JObject [(''summary'', JString ''ok''), (''findings'', JArray [JNull])])"
    by (simp add: within_limits_def finding_within_def LIMIT_summary_def LIMIT_findings_def)
  from w clampReportReview_fits [of "JObject [(''summary'', JString ''ok''), (''findings'', JArray [JNull])]"]
    clampReportReview_fits [of "JObject [(''risk_level'', JString ''low'')]"]
  show ?thesis by simp
qed

subsection \<open>A salvaged review has both fields\<close>

lemma fill_valid:
  assumes "fill records field (obj, defaulted) = (obj', defaulted')"
  shows "field_valid field (al_get obj' (field_name field)) \<and>
    (\<forall>k. k \<noteq> field_name field \<longrightarrow> al_get obj' k = al_get obj k) \<and>
    (field_valid field (al_get obj (field_name field)) \<longrightarrow> obj' = obj) \<and>
    defaulted' = defaulted @
      (if field_valid field (al_get obj (field_name field)) \<or>
          (\<exists>r \<in> set records. field_valid field (al_get (props r) (field_name field))) then [] else [field])"
proof -
  have empty: "field_valid field (Some (field_empty field))" by (cases field) simp_all
  have some: "field_valid field (Some (the v))" if "field_valid field v" for v
    using that by (cases field; cases v) auto
  show ?thesis
  proof (cases "List.find (\<lambda>r. field_valid field (al_get (props r) (field_name field))) records")
    case None
    with assms empty find_NoneD [OF None] show ?thesis by (auto simp: fill_def split: if_splits)
  next
    case (Some r)
    from find_SomeD [OF Some] some [of "al_get (props r) (field_name field)"] assms Some show ?thesis
      by (auto simp: fill_def split: if_splits)
  qed
qed

text \<open>Two attempts give no answer only when neither was an object.  Otherwise the answer has a
  text as its summary and an array as its findings, keeps every field of the last object that was
  valid there, and a field counts as defaulted exactly when no attempt had it.\<close>

theorem salvageReview_repairs:
  "case salvageReview attempts of
     None \<Rightarrow> filter isRecord attempts = []
   | Some (obj, defaulted) \<Rightarrow>
       missingReviewFields (JObject obj) = [] \<and>
       (\<forall>k. k \<noteq> ''summary'' \<and> k \<noteq> ''findings'' \<longrightarrow> al_get obj k = al_get (props (last (filter isRecord attempts))) k) \<and>
       (\<forall>f. field_valid f (al_get (props (last (filter isRecord attempts))) (field_name f)) \<longrightarrow>
          al_get obj (field_name f) = al_get (props (last (filter isRecord attempts))) (field_name f)) \<and>
       (\<forall>f. f \<in> set defaulted \<longleftrightarrow>
          (\<forall>r \<in> set (filter isRecord attempts). \<not> field_valid f (al_get (props r) (field_name f))))"
proof (cases "rev (filter isRecord attempts)")
  case Nil
  then show ?thesis by (simp add: salvageReview_def)
next
  case (Cons base rest)
  let ?rs = "filter isRecord attempts"
  from Cons have rs: "?rs = rev rest @ [base]" by (metis rev.simps(2) rev_rev_ident)
  then have base: "last ?rs = base" "base \<in> set ?rs" by simp_all
  obtain o1 d1 where f1: "fill ?rs FieldSummary (props base, []) = (o1, d1)" by fastforce
  obtain o2 d2 where f2: "fill ?rs FieldFindings (o1, d1) = (o2, d2)" by fastforce
  have res: "salvageReview attempts = Some (o2, d2)" using Cons f1 f2 by (simp add: salvageReview_def)
  note v1 = fill_valid [OF f1] and v2 = fill_valid [OF f2]
  have keep: "al_get o2 (field_name f) = al_get (props base) (field_name f)"
    if "field_valid f (al_get (props base) (field_name f))" for f
    using that v1 v2 by (cases f) auto
  have def: "f \<in> set d2 \<longleftrightarrow> (\<forall>r \<in> set ?rs. \<not> field_valid f (al_get (props r) (field_name f)))" for f
    using v1 v2 base(2) by (cases f) (auto split: if_splits)
  have "missingReviewFields (JObject o2) = []" using v1 v2 by simp
  moreover have "al_get o2 k = al_get (props base) k" if "k \<noteq> ''summary''" "k \<noteq> ''findings''" for k
    using v1 v2 that by simp
  ultimately show ?thesis unfolding res base(1) using keep def by simp
qed

definition sample_attempts :: "json list" where
  "sample_attempts =
    [JObject [(''summary'', JString ''ok'')], JNull, JObject [(''findings'', JArray []), (''risk_level'', JString ''low'')]]"

lemma salvageReview_repairs_witness:
  "salvageReview sample_attempts =
     Some ([(''findings'', JArray []), (''risk_level'', JString ''low''), (''summary'', JString ''ok'')], []) \<and>
   (case salvageReview sample_attempts of None \<Rightarrow> False
    | Some (obj, defaulted) \<Rightarrow> missingReviewFields (JObject obj) = [])"
proof -
  have s: "salvageReview sample_attempts =
     Some ([(''findings'', JArray []), (''risk_level'', JString ''low''), (''summary'', JString ''ok'')], [])"
    by (simp add: salvageReview_def sample_attempts_def fill_def)
  from s salvageReview_repairs [of sample_attempts] show ?thesis by simp
qed

end
