(* ===== verification/Ai_Call.thy ===== *)
theory Ai_Call
  imports Ai_Review
begin

section \<open>Calling a model\<close>

text \<open>
  \<open>src/modules/ai/ai-call.ts\<close> and \<open>ai-error.ts\<close>: one validated answer from a provider, with
  the one retry an unusable answer gets and the tokens of every attempt.  The adapter's
  \<open>complete\<close>, the schema check and the functions of the caller's options are parameters;
  the options of \<open>src/queue/ai-scan.processor.ts\<close> are given to it at the end.
\<close>

datatype ai_error_code = CodeAuthFailed | CodeRateLimited | CodeTimeout | CodeProviderUnreachable | CodeInvalidResponse
  | CodeOutputTruncated | CodeReasoningExhausted | CodeBadRequest | CodeInsecureBaseUrl | CodeNotConfigured
  | CodeApiKeyRequired | CodeBaseUrlRequired

text \<open>Input and output tokens.\<close>

type_synonym usage = "nat \<times> nat"

record ai_error =
  ae_code :: ai_error_code
  ae_providerMessage :: "jstr option"
  ae_status :: "int option"
  ae_raw :: "json option"
  ae_usage :: "usage option"

text \<open>What an SDK or the network throws: an \<open>AiError\<close>, an object, or something else.  Absent or
  ill-typed fields of the object are \<open>None\<close>.\<close>

record error_like =
  el_name :: "jstr option"
  el_message :: "jstr option"
  el_status :: "int option"
  el_code :: "jstr option"
  el_cause_code :: "jstr option"

datatype thrown = ThrownAi ai_error | ThrownObject error_like | ThrownOther jstr

subsection \<open>Errors\<close>

definition RETRYABLE :: "ai_error_code list" where
  "RETRYABLE = [CodeRateLimited, CodeTimeout, CodeProviderUnreachable, CodeInvalidResponse]"

definition ai_retryable :: "ai_error \<Rightarrow> bool" where
  "ai_retryable e \<longleftrightarrow> ae_code e \<in> set RETRYABLE"

definition MAX_PROVIDER_MESSAGE :: nat where "MAX_PROVIDER_MESSAGE = 300"

definition is_key_char :: "char \<Rightarrow> bool" where
  "is_key_char c \<longleftrightarrow> is_alnum c \<or> c = CHR ''_'' \<or> c = CHR ''-''"

definition OPENAI_KEY :: rx where
  "OPENAI_KEY = RSeq (rlit ''sk-'') (RRep (RSet is_key_char) 8 None True)"

definition GOOGLE_KEY :: rx where
  "GOOGLE_KEY = RSeq (rlit ''AIza'') (RRep (RSet is_key_char) 20 None True)"

definition BEARER :: rx where
  "BEARER = rseq [rlit_i ''bearer'', rplus (RSet is_space),
    rplus (RSet (\<lambda>c. \<not> is_space c \<and> c \<notin> {CHR 0x22, CHR 0x27, CHR '',''}))]"

definition sanitizeProviderMessage :: "jstr \<Rightarrow> jstr" where
  "sanitizeProviderMessage message = take MAX_PROVIDER_MESSAGE
    (rx_replace_all BEARER ''Bearer ***'' (rx_replace_all GOOGLE_KEY ''AIza***'' (rx_replace_all OPENAI_KEY ''sk-***'' message)))"

definition new_ai_error :: "ai_error_code \<Rightarrow> jstr option \<Rightarrow> int option \<Rightarrow> json option \<Rightarrow> usage option \<Rightarrow> ai_error" where
  "new_ai_error code message status raw usage = \<lparr>ae_code = code,
    ae_providerMessage = map_option sanitizeProviderMessage message, ae_status = status, ae_raw = raw, ae_usage = usage\<rparr>"

definition withUsage :: "ai_error \<Rightarrow> usage \<Rightarrow> ai_error" where
  "withUsage e usage = new_ai_error (ae_code e) (ae_providerMessage e) (ae_status e) (ae_raw e) (Some usage)"

definition NETWORK_CODES :: "jstr list" where
  "NETWORK_CODES = [''ECONNREFUSED'', ''ENOTFOUND'', ''ECONNRESET'', ''EAI_AGAIN'', ''EHOSTUNREACH'', ''ETIMEDOUT'']"

definition networkCode :: "error_like \<Rightarrow> jstr option" where
  "networkCode e = List.find (\<lambda>c. c \<in> set NETWORK_CODES) (List.map_filter id [el_code e, el_cause_code e])"

definition TIMEOUT_NAMES :: "jstr list" where
  "TIMEOUT_NAMES = [''AbortError'', ''APIConnectionTimeoutError'', ''TimeoutError'']"

definition error_code_of :: "error_like \<Rightarrow> ai_error_code option" where
  "error_code_of e =
    (let name = (case el_name e of Some n \<Rightarrow> n | None \<Rightarrow> []); status = el_status e
     in if name \<in> set TIMEOUT_NAMES \<or> status = Some 408 then Some CodeTimeout
        else if status = Some 401 \<or> status = Some 403 then Some CodeAuthFailed
        else if status = Some 429 then Some CodeRateLimited
        else if (case status of Some s \<Rightarrow> 500 \<le> s | None \<Rightarrow> False) then Some CodeProviderUnreachable
        else if networkCode e \<noteq> None \<or> name = ''APIConnectionError'' then Some CodeProviderUnreachable
        else if (case status of Some s \<Rightarrow> 400 \<le> s | None \<Rightarrow> False) then Some CodeBadRequest
        else None)"

text \<open>\<open>Inl\<close> is what is rethrown: anything that is no failure of the provider.\<close>

fun toAiError :: "thrown \<Rightarrow> thrown + ai_error" where
  "toAiError (ThrownAi e) = Inr e"
| "toAiError (ThrownOther s) = Inl (ThrownObject \<lparr>el_name = Some ''Error'',
    el_message = Some (''Unexpected non-error thrown: '' @ s), el_status = None, el_code = None, el_cause_code = None\<rparr>)"
| "toAiError (ThrownObject e) =
    (case error_code_of e of
      Some code \<Rightarrow> Inr (new_ai_error code (Some (case el_message e of Some m \<Rightarrow> m | None \<Rightarrow> [])) (el_status e) None None)
    | None \<Rightarrow> Inl (ThrownObject e))"

subsection \<open>One validated answer\<close>

record ai_answer =
  an_toolInput :: json
  an_model :: jstr
  an_raw :: "json option"
  an_usage :: usage
  an_structuredOutput :: jstr
  an_reasoning :: bool

record 'r call_options =
  co_retryRequest :: "'r \<Rightarrow> ai_error \<Rightarrow> 'r"
  co_normalize :: "json \<Rightarrow> json"
  co_matches :: "json \<Rightarrow> bool"
  co_salvage :: "json list \<Rightarrow> json option"

definition INVALID_RESPONSE_ATTEMPTS :: nat where "INVALID_RESPONSE_ATTEMPTS = 2"

definition add_usage :: "usage \<Rightarrow> usage option \<Rightarrow> usage" where
  "add_usage spent u = (case u of None \<Rightarrow> spent | Some (i, out) \<Rightarrow> (fst spent + i, snd spent + out))"

definition withSpent :: "usage \<Rightarrow> ai_error \<Rightarrow> ai_error" where
  "withSpent spent e = (if 0 < fst spent + snd spent then withUsage e spent else e)"

text \<open>What the loop keeps between two attempts.\<close>

record call_state =
  cs_attempts :: "json list"
  cs_spent :: usage
  cs_lastResult :: "ai_answer option"

definition schema_error :: "ai_answer \<Rightarrow> ai_error" where
  "schema_error ans = new_ai_error CodeInvalidResponse (Some ''Tool input did not match the requested schema.'') None
    (Some (JObject [(''toolInput'', an_toolInput ans),
      (''message'', case an_raw ans of Some r \<Rightarrow> r | None \<Rightarrow> JNull)])) None"

text \<open>The body of \<open>try\<close>: the answer, or what is caught, with the state then.\<close>

definition try_answer :: "'r call_options \<Rightarrow> thrown + ai_answer \<Rightarrow> call_state \<Rightarrow> (thrown + ai_answer) \<times> call_state" where
  "try_answer opts outcome st =
    (case outcome of
      Inl t \<Rightarrow> (Inl t, st)
    | Inr ans \<Rightarrow>
       (let v = co_normalize opts (an_toolInput ans);
            st' = \<lparr>cs_attempts = cs_attempts st @ [v], cs_spent = add_usage (cs_spent st) (Some (an_usage ans)),
              cs_lastResult = Some ans\<rparr>
        in if co_matches opts v then (Inr (ans\<lparr>an_toolInput := v, an_usage := cs_spent st'\<rparr>), st')
           else (Inl (ThrownAi (schema_error ans)), st')))"

text \<open>What the last attempt makes of its error.\<close>

definition give_up_or_salvage :: "'r call_options \<Rightarrow> call_state \<Rightarrow> ai_error \<Rightarrow> thrown + ai_answer" where
  "give_up_or_salvage opts st e =
    (case (cs_lastResult st, co_salvage opts (cs_attempts st)) of
      (Some ans, Some v) \<Rightarrow>
        if v \<noteq> JNull \<and> co_matches opts v then Inr (ans\<lparr>an_toolInput := v, an_usage := cs_spent st\<rparr>)
        else Inl (ThrownAi (withSpent (cs_spent st) e))
    | _ \<Rightarrow> Inl (ThrownAi (withSpent (cs_spent st) e)))"

text \<open>\<open>left\<close> attempts after this one; \<open>provider n\<close> is what \<open>complete\<close> does the \<open>n\<close>-th time.
  The second component lists the requests made.\<close>

fun call_loop :: "nat \<Rightarrow> nat \<Rightarrow> (nat \<Rightarrow> 'r \<Rightarrow> thrown + ai_answer) \<Rightarrow> 'r call_options \<Rightarrow> 'r \<Rightarrow> 'r \<Rightarrow> call_state \<Rightarrow>
    (thrown + ai_answer) \<times> 'r list" where
  "call_loop left attempt provider opts request current st =
    (let (r, st1) = try_answer opts (provider attempt current) st
     in (case r of
        Inr ans \<Rightarrow> (Inr ans, [current])
      | Inl t \<Rightarrow>
         (case toAiError t of
            Inl t' \<Rightarrow> (Inl t', [current])
          | Inr e \<Rightarrow>
             (let st2 = st1\<lparr>cs_spent := add_usage (cs_spent st1) (ae_usage e)\<rparr>
              in if ae_code e \<noteq> CodeInvalidResponse
                 then (Inl (ThrownAi (withSpent (cs_spent st2) e)), [current])
                 else (case left of
                    Suc l \<Rightarrow> apsnd ((#) current)
                      (call_loop l (Suc attempt) provider opts request (co_retryRequest opts request e) st2)
                  | 0 \<Rightarrow> (give_up_or_salvage opts st2 e, [current]))))))"

definition completeValidated :: "(nat \<Rightarrow> 'r \<Rightarrow> thrown + ai_answer) \<Rightarrow> 'r call_options \<Rightarrow> 'r \<Rightarrow> (thrown + ai_answer) \<times> 'r list" where
  "completeValidated provider opts request =
    call_loop (INVALID_RESPONSE_ATTEMPTS - 1) 0 provider opts request request
      \<lparr>cs_attempts = [], cs_spent = (0, 0), cs_lastResult = None\<rparr>"

subsection \<open>The review's call\<close>

text \<open>Normalizing is clamping; salvaging puts the attempts together.\<close>

definition review_options :: "('r \<Rightarrow> ai_error \<Rightarrow> 'r) \<Rightarrow> (json \<Rightarrow> bool) \<Rightarrow> 'r call_options" where
  "review_options retry matches = \<lparr>co_retryRequest = retry, co_normalize = (\<lambda>v. fst (clampReportReview v)),
    co_matches = matches, co_salvage = (\<lambda>attempts. map_option (\<lambda>(obj, _). JObject obj) (salvageReview attempts))\<rparr>"
subsection \<open>What a call costs\<close>

definition outcome_usage :: "thrown + ai_answer \<Rightarrow> usage" where
  "outcome_usage outcome =
    (case outcome of
      Inr ans \<Rightarrow> an_usage ans
    | Inl t \<Rightarrow> (case toAiError t of Inr e \<Rightarrow> (case ae_usage e of Some u \<Rightarrow> u | None \<Rightarrow> (0, 0)) | Inl _ \<Rightarrow> (0, 0)))"

text \<open>The tokens of the requests \<open>rs\<close>, made from the \<open>n\<close>-th time on.\<close>

fun billed :: "(nat \<Rightarrow> 'r \<Rightarrow> thrown + ai_answer) \<Rightarrow> nat \<Rightarrow> 'r list \<Rightarrow> usage \<Rightarrow> usage" where
  "billed provider n [] spent = spent"
| "billed provider n (r # rs) spent = billed provider (Suc n) rs (add_usage spent (Some (outcome_usage (provider n r))))"

text \<open>An attempt whose answer is unusable in the way that earns a retry.\<close>

definition unusable :: "'r call_options \<Rightarrow> thrown + ai_answer \<Rightarrow> ai_error \<Rightarrow> bool" where
  "unusable opts outcome e \<longleftrightarrow>
    (case outcome of
      Inr ans \<Rightarrow> \<not> co_matches opts (co_normalize opts (an_toolInput ans)) \<and> e = schema_error ans
    | Inl t \<Rightarrow> toAiError t = Inr e \<and> ae_code e = CodeInvalidResponse)"

lemma toAiError_Inl: "toAiError t = Inl t' \<Longrightarrow> \<exists>o'. t' = ThrownObject o'"
  by (cases t) (auto split: option.splits)

lemma withUsage_usage [simp]: "ae_usage (withUsage e u) = Some u" "ae_code (withUsage e u) = ae_code e"
  by (simp_all add: withUsage_def new_ai_error_def)

lemma withSpent_usage: "0 < fst spent + snd spent \<Longrightarrow> ae_usage (withSpent spent e) = Some spent"
  by (simp add: withSpent_def)

lemma schema_error_simps [simp]: "ae_code (schema_error ans) = CodeInvalidResponse" "ae_usage (schema_error ans) = None"
  by (simp_all add: schema_error_def new_ai_error_def)

lemma add_usage_None [simp]: "add_usage spent None = spent"
  by (simp add: add_usage_def)

lemma try_answer_Inr:
  assumes "try_answer opts outcome st = (Inr ans, st1)"
  shows "co_matches opts (an_toolInput ans)" "an_usage ans = add_usage (cs_spent st) (Some (outcome_usage outcome))"
    "\<exists>v. an_toolInput ans = co_normalize opts v"
  using assms by (auto simp: try_answer_def outcome_usage_def Let_def split: sum.splits if_splits)

lemma try_answer_Inl:
  assumes "try_answer opts outcome st = (Inl t, st1)" "toAiError t = Inr e"
  shows "add_usage (cs_spent st1) (ae_usage e) = add_usage (cs_spent st) (Some (outcome_usage outcome))"
    "ae_code e = CodeInvalidResponse \<Longrightarrow> unusable opts outcome e"
    "set (cs_attempts st1) \<subseteq> set (cs_attempts st) \<union> range (co_normalize opts)"
  using assms
  by (auto simp: try_answer_def outcome_usage_def unusable_def add_usage_def Let_def split: sum.splits if_splits option.splits)

definition fair_result :: "'r call_options \<Rightarrow> usage \<Rightarrow> thrown + ai_answer \<Rightarrow> bool" where
  "fair_result opts bill res \<longleftrightarrow>
    (case res of
      Inr ans \<Rightarrow> co_matches opts (an_toolInput ans) \<and> an_usage ans = bill
    | Inl (ThrownAi e) \<Rightarrow> 0 < fst bill + snd bill \<longrightarrow> ae_usage e = Some bill
    | Inl t \<Rightarrow> \<exists>o'. t = ThrownObject o')"

lemma give_up_fair: "fair_result opts (cs_spent st) (give_up_or_salvage opts st e)"
  by (auto simp: give_up_or_salvage_def fair_result_def withSpent_usage split: option.splits)

lemma call_loop_retry:
  "try_answer opts (provider n current) st = (Inl t, st1) \<Longrightarrow> toAiError t = Inr e \<Longrightarrow>
    call_loop (Suc left) n provider opts request current st =
      (let st2 = st1\<lparr>cs_spent := add_usage (cs_spent st1) (ae_usage e)\<rparr>
       in if ae_code e \<noteq> CodeInvalidResponse then (Inl (ThrownAi (withSpent (cs_spent st2) e)), [current])
          else apsnd ((#) current) (call_loop left (Suc n) provider opts request (co_retryRequest opts request e) st2))"
  by (subst call_loop.simps) (simp add: Let_def)

lemma call_loop_fair:
  assumes "call_loop left n provider opts request current st = (res, calls)"
  shows "calls \<noteq> [] \<and> hd calls = current \<and> length calls \<le> Suc left \<and>
    fair_result opts (billed provider n calls (cs_spent st)) res \<and>
    (\<forall>k. Suc k < length calls \<longrightarrow> (\<exists>e. unusable opts (provider (n + k) (calls ! k)) e \<and>
      calls ! Suc k = co_retryRequest opts request e))"
  using assms
proof (induction left arbitrary: n current st res calls)
  case (0 n current st res calls)
  obtain r st1 where r: "try_answer opts (provider n current) st = (r, st1)" by fastforce
  show ?case
  proof (cases r)
    case (Inr ans)
    with 0 r try_answer_Inr(1,2) [OF r [unfolded Inr]] show ?thesis by (auto simp: fair_result_def)
  next
    case (Inl t)
    show ?thesis
    proof (cases "toAiError t")
      case (Inl t')
      with 0 r \<open>r = Inl t\<close> toAiError_Inl [OF Inl] show ?thesis by (auto simp: fair_result_def)
    next
      case (Inr e)
      note u = try_answer_Inl(1) [OF r [unfolded Inl] Inr]
      show ?thesis
      proof (cases "ae_code e = CodeInvalidResponse")
        case True
        with 0 r \<open>r = Inl t\<close> Inr
          give_up_fair [of opts "st1\<lparr>cs_spent := add_usage (cs_spent st1) (ae_usage e)\<rparr>" e]
        show ?thesis by (auto simp: u)
      next
        case False
        with 0 r \<open>r = Inl t\<close> Inr u show ?thesis by (auto simp: fair_result_def withSpent_usage)
      qed
    qed
  qed
next
  case (Suc left n current st res calls)
  obtain r st1 where r: "try_answer opts (provider n current) st = (r, st1)" by fastforce
  show ?case
  proof (cases r)
    case (Inr ans)
    with Suc.prems r try_answer_Inr(1,2) [OF r [unfolded Inr]] show ?thesis by (auto simp: fair_result_def)
  next
    case (Inl t)
    show ?thesis
    proof (cases "toAiError t")
      case (Inl t')
      with Suc.prems r \<open>r = Inl t\<close> toAiError_Inl [OF Inl] show ?thesis by (auto simp: fair_result_def)
    next
      case (Inr e)
      note u = try_answer_Inl(1,2) [OF r [unfolded Inl] Inr]
      show ?thesis
      proof (cases "ae_code e = CodeInvalidResponse")
        case True
        let ?st2 = "st1\<lparr>cs_spent := add_usage (cs_spent st1) (ae_usage e)\<rparr>"
        obtain cs where cs: "call_loop left (Suc n) provider opts request (co_retryRequest opts request e) ?st2 = (res, cs)"
          "calls = current # cs"
          using Suc.prems r \<open>r = Inl t\<close> Inr True
          by (cases "call_loop left (Suc n) provider opts request (co_retryRequest opts request e) ?st2") auto
        note ih = Suc.IH [OF cs(1)]
        have "\<exists>e. unusable opts (provider (n + k) (calls ! k)) e \<and> calls ! Suc k = co_retryRequest opts request e"
          if "Suc k < length calls" for k
        proof (cases k)
          case 0
          with u(2) [OF True] ih cs(2) show ?thesis by (auto simp: hd_conv_nth)
        next
          case (Suc j)
          with ih that cs(2) show ?thesis by auto
        qed
        with ih u(1) cs(2) show ?thesis by simp
      next
        case False
        with Suc.prems r \<open>r = Inl t\<close> Inr u show ?thesis by (auto simp: fair_result_def withSpent_usage)
      qed
    qed
  qed
qed

text \<open>A call is made at most twice and every token is on the bill.  The first request is the caller's,
  and there is a second one exactly when the first answer was missing, unparsable or against the schema:
  the caller's \<open>retryRequest\<close> for that error.  An answer that is returned matches the schema, and its
  usage is the sum of the attempts, also when it was salvaged; an error that is thrown carries
  that sum as soon as anything was spent; anything else that leaves the call is no failure of the
  provider.\<close>

theorem completeValidated_accounts:
  assumes "completeValidated provider opts request = (res, calls)"
  shows "(calls = [request] \<or> (\<exists>e. unusable opts (provider 0 request) e \<and> calls = [request, co_retryRequest opts request e])) \<and>
    (case res of
      Inr ans \<Rightarrow> co_matches opts (an_toolInput ans) \<and> an_usage ans = billed provider 0 calls (0, 0)
    | Inl (ThrownAi e) \<Rightarrow>
        0 < fst (billed provider 0 calls (0, 0)) + snd (billed provider 0 calls (0, 0)) \<longrightarrow>
          ae_usage e = Some (billed provider 0 calls (0, 0))
    | Inl t \<Rightarrow> \<exists>o'. t = ThrownObject o')"
proof -
  from call_loop_fair [OF assms [unfolded completeValidated_def]]
  have f: "calls \<noteq> []" "hd calls = request" "length calls \<le> 2" "fair_result opts (billed provider 0 calls (0, 0)) res"
    and re: "\<And>k. Suc k < length calls \<Longrightarrow> \<exists>e. unusable opts (provider k (calls ! k)) e \<and>
      calls ! Suc k = co_retryRequest opts request e"
    by (auto simp: INVALID_RESPONSE_ATTEMPTS_def)
  have "calls = [request] \<or> (\<exists>e. unusable opts (provider 0 request) e \<and> calls = [request, co_retryRequest opts request e])"
  proof (cases calls)
    case (Cons a rest)
    show ?thesis
    proof (cases rest)
      case (Cons b more)
      with f(3) \<open>calls = a # rest\<close> have "more = []" by simp
      with re [of 0] f(2) Cons \<open>calls = a # rest\<close> show ?thesis by auto
    qed (use f Cons in simp)
  qed (use f in simp)
  with f(4) show ?thesis unfolding fair_result_def by blast
qed

text \<open>The model first answers with a bare string, then with a report; both answers are paid for.\<close>

definition demo_answer :: "json \<Rightarrow> usage \<Rightarrow> ai_answer" where
  "demo_answer v u = \<lparr>an_toolInput = v, an_model = ''m'', an_raw = None, an_usage = u,
    an_structuredOutput = ''native'', an_reasoning = False\<rparr>"

definition demo_report :: json where
  "demo_report = JObject [(''summary'', JString ''ok''), (''findings'', JArray [])]"

definition demo_provider :: "nat \<Rightarrow> jstr \<Rightarrow> thrown + ai_answer" where
  "demo_provider n r = Inr (if n = 0 then demo_answer (JString ''no'') (10, 5) else demo_answer demo_report (20, 7))"

definition demo_options :: "jstr call_options" where
  "demo_options = review_options (\<lambda>r e. r @ ''again'') isRecord"

lemma demo_call: "completeValidated demo_provider demo_options ''q'' =
  (Inr (demo_answer demo_report (30, 12)), [''q'', ''qagain''])"
  by (simp add: completeValidated_def INVALID_RESPONSE_ATTEMPTS_def demo_options_def demo_provider_def
      demo_answer_def demo_report_def try_answer_def review_options_def schema_error_def new_ai_error_def
      add_usage_def clampField_def clamp_list_def LIMIT_summary_def Let_def LIMIT_findings_def)

lemma completeValidated_accounts_witness:
  "an_usage (demo_answer demo_report (30, 12)) = billed demo_provider 0 [''q'', ''qagain''] (0, 0) \<and>
   co_matches demo_options demo_report"
  using completeValidated_accounts [OF demo_call] by (simp add: demo_answer_def)

subsection \<open>The answer of a review\<close>

lemma fill_within:
  assumes "\<forall>r \<in> set records. within_limits r" "within_limits (JObject obj)"
  shows "within_limits (JObject (fst (fill records field (obj, d))))"
proof -
  have empty: "short_text LIMIT_summary (Some (JString []))" "findings_within (Some (JArray []))"
    by (simp_all add: LIMIT_findings_def)
  show ?thesis
  proof (cases "List.find (\<lambda>r. field_valid field (al_get (props r) (field_name field))) records")
    case None
    with assms(2) empty show ?thesis by (cases field) (auto simp: fill_def within_limits_def)
  next
    case (Some r)
    from find_SomeD [OF Some] have r: "r \<in> set records" "field_valid field (al_get (props r) (field_name field))" by auto
    then obtain v where v: "al_get (props r) (field_name field) = Some v" by (cases field; cases "al_get (props r) (field_name field)") auto
    from assms r(1) have "within_limits r" by blast
    with assms(2) v Some show ?thesis by (cases field) (auto simp: fill_def within_limits_def)
  qed
qed

lemma salvage_within:
  assumes "\<forall>a \<in> set attempts. within_limits a" "salvageReview attempts = Some (obj, d)"
  shows "within_limits (JObject obj)"
proof -
  let ?rs = "filter isRecord attempts"
  from assms(2) obtain base rest where b: "rev ?rs = base # rest"
    "fill ?rs FieldFindings (fill ?rs FieldSummary (props base, [])) = (obj, d)"
    by (cases "rev ?rs") (simp_all add: salvageReview_def Let_def)
  from b(1) have "base \<in> set ?rs" by (metis list.set_intros(1) set_rev)
  then have "isRecord base" "within_limits base" using assms(1) by simp_all
  then obtain ps where "base = JObject ps" "within_limits base" by (cases base) auto
  then have 1: "within_limits (JObject (props base))" by simp
  have rs: "\<forall>r \<in> set ?rs. within_limits r" using assms(1) by simp
  obtain o1 d1 where f1: "fill ?rs FieldSummary (props base, []) = (o1, d1)" by fastforce
  with fill_within [OF rs 1, of FieldSummary "[]"] have "within_limits (JObject o1)" by simp
  with fill_within [OF rs this, of FieldFindings d1] b(2) f1 show ?thesis by (metis fst_conv)
qed

lemma clamp_within: "within_limits (fst (clampReportReview v))"
proof (cases v)
  case (JObject ps)
  obtain v' c where e: "clampReportReview (JObject ps) = (v', c)" by fastforce
  from clampReportReview_object [OF e] e JObject show ?thesis by simp
qed (simp_all add: within_limits_def)

lemma review_loop_within:
  assumes "call_loop left n provider (review_options retry matches) request current st = (Inr ans, calls)"
    "\<forall>a \<in> set (cs_attempts st). within_limits a"
  shows "within_limits (an_toolInput ans)"
  using assms
proof (induction left arbitrary: n current st calls)
  case (0 n current st calls)
  let ?o = "review_options retry matches"
  obtain r st1 where r: "try_answer ?o (provider n current) st = (r, st1)" by fastforce
  show ?case
  proof (cases r)
    case (Inr a)
    with 0 r try_answer_Inr(3) [OF r [unfolded Inr]] clamp_within show ?thesis by (auto simp: review_options_def)
  next
    case (Inl t)
    with 0 r obtain e where e: "toAiError t = Inr e" by (cases "toAiError t") auto
    have sub: "\<forall>a \<in> set (cs_attempts st1). within_limits a"
      using try_answer_Inl(3) [OF r [unfolded Inl] e] 0(2) clamp_within by (fastforce simp: review_options_def)
    have "give_up_or_salvage ?o st2 e' = Inr ans' \<Longrightarrow> cs_attempts st2 = cs_attempts st1 \<Longrightarrow>
        within_limits (an_toolInput ans')" for st2 e' ans'
      using salvage_within [OF sub]
      by (auto simp: give_up_or_salvage_def review_options_def split: if_splits option.splits)
    with 0 r Inl e show ?thesis by (auto simp: Let_def split: if_splits)
  qed
next
  case (Suc left n current st calls)
  let ?o = "review_options retry matches"
  obtain r st1 where r: "try_answer ?o (provider n current) st = (r, st1)" by fastforce
  show ?case
  proof (cases r)
    case (Inr a)
    with Suc.prems r try_answer_Inr(3) [OF r [unfolded Inr]] clamp_within show ?thesis by (auto simp: review_options_def)
  next
    case (Inl t)
    with Suc.prems r obtain e where e: "toAiError t = Inr e" by (cases "toAiError t") auto
    have sub: "\<forall>a \<in> set (cs_attempts (st1\<lparr>cs_spent := add_usage (cs_spent st1) (ae_usage e)\<rparr>)). within_limits a"
      using try_answer_Inl(3) [OF r [unfolded Inl] e] Suc.prems(2) clamp_within by (fastforce simp: review_options_def)
    let ?next = "call_loop left (Suc n) provider ?o request (co_retryRequest ?o request e)
        (st1\<lparr>cs_spent := add_usage (cs_spent st1) (ae_usage e)\<rparr>)"
    from Suc.prems(1) call_loop_retry [where provider = provider and n = n and current = current, OF r [unfolded Inl] e] have "?next = (Inr ans, snd ?next)"
      by (cases ?next) (auto simp: Let_def simp del: call_loop.simps split: if_splits)
    from Suc.IH [OF this sub] show ?thesis .
  qed
qed

text \<open>Whatever the model answers, the review that goes on to validation matches the schema it is
  checked against and is within every length and count limit: each attempt is clamped before the
  check, and what is salvaged from two attempts is put together from clamped ones.\<close>

theorem review_answer_fits:
  assumes "completeValidated provider (review_options retry matches) request = (Inr ans, calls)"
  shows "matches (an_toolInput ans) \<and> within_limits (an_toolInput ans)"
proof -
  note l = assms [unfolded completeValidated_def]
  from review_loop_within [OF l] call_loop_fair [OF l] show ?thesis
    by (simp add: fair_result_def) (simp add: review_options_def)
qed

lemma review_answer_fits_witness: "isRecord demo_report \<and> within_limits demo_report"
  using review_answer_fits [OF demo_call [unfolded demo_options_def]] by (simp add: demo_answer_def)

end
