(* ===== verification/Ai_Gate.thy ===== *)
theory Ai_Gate
  imports Ai_Persist Ai_Call
begin

section \<open>Which scans get an AI review\<close>

text \<open>
  \<open>src/modules/ai/scan/ai-scan.service.ts\<close> decides it when a static scan is done and when a
  regenerate is asked for, \<open>src/queue/ai-scan.processor.ts\<close> runs the review and settles it, and
  \<open>src/queue/ai-orphan-reaper.ts\<close> settles the reviews no job is left for.  They run side by side,
  so a call is a program counter that stops at each database, Redis or queue operation:
  \<open>gate_phase\<close> and \<open>gate_step\<close>.  Times are milliseconds.  The column
  \<open>aiFinishedAt\<close>, notifications, log entries and realtime events are left out.
\<close>

datatype ai_provider_id = ProviderAnthropic | ProviderOpenai | ProviderOpenaiCompatible | ProviderGoogle

record organization_ai =
  oa_id :: jstr
  oa_aiProvider :: "ai_provider_id option"
  oa_aiModel :: "jstr option"
  oa_aiConsentAt :: "int option"
  oa_aiDailyTokenBudget :: nat
  oa_aiLocale :: jstr

record ai_credential =
  cd_organizationId :: jstr
  cd_provider :: ai_provider_id
  cd_encryptedKey :: "jstr option"
  cd_baseUrl :: "jstr option"

text \<open>What the gate reads of a scan beside its AI columns.\<close>

record gate_scan =
  gs_id :: jstr
  gs_organizationId :: jstr
  gs_repositoryId :: jstr
  gs_pullId :: jstr
  gs_status :: scan_status
  gs_headSha :: jstr
  gs_prevHeadSha :: "jstr option"
  gs_rulesetVersion :: jstr
  gs_diffMode :: diff_mode
  gs_baseScanId :: "jstr option"
  gs_diffBytes :: "nat option"
  gs_filesChanged :: "nat option"
  gs_findingsCount :: nat
  gs_ruleTiers :: "rule_tier list"
  gs_finishedAt :: "int option"

record ai_job =
  aj_id :: jstr
  aj_scanId :: jstr
  aj_mergePrevious :: bool
  aj_state :: job_state

text \<open>The tables, the cache in Redis (keys to scans) and the queue.  \<open>aw_usage\<close> has the calls
  and tokens of kind SCAN by organization and day.\<close>

record ai_world =
  aw_db :: ai_db
  aw_scans :: "gate_scan list"
  aw_policies :: "(jstr \<times> review_policy) list"
  aw_orgs :: "organization_ai list"
  aw_credentials :: "ai_credential list"
  aw_usage :: "((jstr \<times> int) \<times> (nat \<times> usage)) list"
  aw_cache :: "(jstr \<times> jstr) list"
  aw_jobs :: "ai_job list"

text \<open>The digests, the globs, fresh ids and the clock are parameters, and so is which services answer.\<close>

record gate_env =
  ge_sha256 :: "jstr \<Rightarrow> jstr"
  ge_sha1 :: "jstr \<Rightarrow> jstr"
  ge_mm :: glob_match
  ge_uuid :: "nat \<Rightarrow> jstr"
  ge_now :: int
  ge_maxDiffBytes :: nat
  ge_keepDeduped :: bool
  ge_redisUp :: bool
  ge_queueUp :: bool

subsection \<open>Configuration\<close>

definition AI_PROVIDER_CATALOG :: "(jstr \<times> jstr option) list" where
  "AI_PROVIDER_CATALOG = [(''anthropic'', Some ''claude-sonnet-5''), (''openai'', Some ''gpt-4o''),
    (''openai_compatible'', None), (''google'', Some ''gemini-3.8-flash'')]"

definition TO_ENUM :: "(jstr \<times> ai_provider_id) list" where
  "TO_ENUM = [(''anthropic'', ProviderAnthropic), (''openai'', ProviderOpenai),
    (''openai_compatible'', ProviderOpenaiCompatible), (''google'', ProviderGoogle)]"

definition defaultModelFor :: "jstr \<Rightarrow> jstr option" where
  "defaultModelFor provider = (case al_get AI_PROVIDER_CATALOG provider of Some m \<Rightarrow> m | None \<Rightarrow> None)"

definition toProviderName :: "ai_provider_id \<Rightarrow> jstr" where
  "toProviderName i = (case List.find (\<lambda>(name, e). e = i) TO_ENUM of Some (name, e) \<Rightarrow> name | None \<Rightarrow> [])"

datatype ai_configuration = ConfigReady jstr jstr | ConfigBlocked ai_scan_status

definition truthy :: "jstr option \<Rightarrow> bool" where
  "truthy s \<longleftrightarrow> s \<noteq> None \<and> s \<noteq> Some []"

definition findCredential :: "ai_world \<Rightarrow> jstr \<Rightarrow> ai_provider_id \<Rightarrow> ai_credential option" where
  "findCredential w org p = List.find (\<lambda>c. cd_organizationId c = org \<and> cd_provider c = p) (aw_credentials w)"

text \<open>What follows the read of the credential.\<close>

definition configuration_with :: "organization_ai \<Rightarrow> ai_provider_id \<Rightarrow> ai_credential option \<Rightarrow> ai_configuration" where
  "configuration_with org providerId credential =
    (let configured = (case credential of None \<Rightarrow> False
           | Some c \<Rightarrow> if providerId = ProviderOpenaiCompatible then truthy (cd_baseUrl c) else truthy (cd_encryptedKey c))
     in if \<not> configured then ConfigBlocked AiNotConfigured
        else (let provider = toProviderName providerId;
                  model = (case oa_aiModel org of Some m \<Rightarrow> Some m | None \<Rightarrow> defaultModelFor provider)
              in if \<not> truthy model then ConfigBlocked AiNotConfigured
                 else if oa_aiConsentAt org = None then ConfigBlocked AiConsentRequired
                 else ConfigReady provider (case model of Some m \<Rightarrow> m | None \<Rightarrow> [])))"

definition resolveConfiguration :: "ai_world \<Rightarrow> organization_ai \<Rightarrow> ai_configuration" where
  "resolveConfiguration w org =
    (case oa_aiProvider org of
      None \<Rightarrow> ConfigBlocked AiNotConfigured
    | Some p \<Rightarrow> configuration_with org p (findCredential w (oa_id org) p))"

definition configurationFor :: "ai_world \<Rightarrow> jstr \<Rightarrow> ai_configuration option" where
  "configurationFor w organizationId =
    map_option (resolveConfiguration w) (List.find (\<lambda>o'. oa_id o' = organizationId) (aw_orgs w))"

subsection \<open>The cache key, the budget\<close>

definition AI_POSTPROCESS_VERSION :: jstr where "AI_POSTPROCESS_VERSION = ''post-4''"

definition tierKey :: "rule_tier list \<Rightarrow> jstr" where
  "tierKey tiers = join '','' (map tier_name (filter (\<lambda>t. t \<in> set tiers) ALL_RULE_TIERS))"

fun diff_mode_name :: "diff_mode \<Rightarrow> jstr" where
  "diff_mode_name DiffFull = ''FULL''"
| "diff_mode_name DiffIncremental = ''INCREMENTAL''"

definition aiCacheKey :: "(jstr \<Rightarrow> jstr) \<Rightarrow> gate_scan \<Rightarrow> jstr \<Rightarrow> jstr \<Rightarrow> jstr \<Rightarrow> jstr" where
  "aiCacheKey sha256 scan provider model locale =
    ''ai:cache:'' @ sha256 (join ''|'' [AI_POSTPROCESS_VERSION, gs_repositoryId scan, gs_headSha scan,
      gs_rulesetVersion scan, AI_PROMPT_VERSION, provider, model, diff_mode_name (gs_diffMode scan),
      (case gs_prevHeadSha scan of Some p \<Rightarrow> p | None \<Rightarrow> []), locale, tierKey (gs_ruleTiers scan)])"

definition todayUtc :: "int \<Rightarrow> int" where "todayUtc now = now div 86400000"

definition usedTokensToday :: "ai_world \<Rightarrow> int \<Rightarrow> jstr \<Rightarrow> nat" where
  "usedTokensToday w now organizationId =
    (case al_get (aw_usage w) (organizationId, todayUtc now) of Some (calls, i, out) \<Rightarrow> i + out | None \<Rightarrow> 0)"

definition recordUsage :: "int \<Rightarrow> jstr \<Rightarrow> usage \<Rightarrow> ai_world \<Rightarrow> ai_world" where
  "recordUsage now organizationId u w =
    (let k = (organizationId, todayUtc now);
         row = (case al_get (aw_usage w) k of
           Some (calls, i, out) \<Rightarrow> (calls + 1, i + fst u, out + snd u) | None \<Rightarrow> (1, u))
     in w\<lparr>aw_usage := al_set k row (aw_usage w)\<rparr>)"

text \<open>\<open>Math.ceil(diffBytes / 3.5)\<close>.\<close>

definition token_estimate :: "nat \<Rightarrow> nat" where
  "token_estimate diffBytes = (2 * diffBytes + 6) div 7"

subsection \<open>The decision\<close>

definition ai_in_flight :: "ai_scan_status option \<Rightarrow> bool" where
  "ai_in_flight s \<longleftrightarrow> s = Some AiQueued \<or> s = Some AiRunning"

text \<open>A request, and what it has read so far.\<close>

record gate_request =
  gq_scanId :: jstr
  gq_force :: bool

record gate_ctx = gate_request +
  gc_scan :: gate_scan
  gc_columns :: ai_columns
  gc_org :: organization_ai
  gc_provider :: jstr
  gc_model :: jstr

text \<open>The operation a call stops at.  \<open>GateSettle\<close> is the write of \<open>setStatus\<close>, \<open>GateClaim\<close>
  the transition to QUEUED, \<open>GateAdd\<close> the call of the queue.\<close>

datatype gate_phase =
  GateScan
| GateCredential gate_ctx ai_provider_id
| GateBase gate_ctx
| GateCopyBase gate_ctx ai_columns ai_summary
| GateUsage gate_ctx
| GateCache gate_ctx bool
| GateSource gate_ctx bool jstr
| GateDrafts gate_ctx bool ai_columns ai_summary "ai_draft list"
| GateCopy gate_ctx ai_result
| GateClaim gate_ctx bool
| GateAdd gate_ctx bool
| GateFailAdd jstr
| GateSettle jstr ai_scan_status
| GateReturned "ai_scan_status option"
| GateThrown

definition columns_of :: "ai_world \<Rightarrow> jstr \<Rightarrow> ai_columns option" where
  "columns_of w i = List.find (\<lambda>c. ax_scanId c = i) (ad_columns (aw_db w))"

definition summary_of :: "ai_world \<Rightarrow> jstr \<Rightarrow> ai_summary option" where
  "summary_of w i = List.find (\<lambda>s. as_scanId s = i) (ad_summaries (aw_db w))"

definition gate_scan_of :: "ai_world \<Rightarrow> jstr \<Rightarrow> gate_scan option" where
  "gate_scan_of w i = List.find (\<lambda>s. gs_id s = i) (aw_scans w)"

definition write_columns :: "(ai_columns \<Rightarrow> bool) \<Rightarrow> (ai_columns \<Rightarrow> ai_columns) \<Rightarrow> ai_world \<Rightarrow> nat \<times> ai_world" where
  "write_columns p g w = (let (n, db) = update_columns p g (aw_db w) in (n, w\<lparr>aw_db := db\<rparr>))"

definition not_in_flight :: "jstr \<Rightarrow> ai_columns \<Rightarrow> bool" where
  "not_in_flight i c \<longleftrightarrow> ax_scanId c = i \<and> \<not> ai_in_flight (ax_status c)"

definition setStatus :: "jstr \<Rightarrow> ai_scan_status \<Rightarrow> ai_world \<Rightarrow> ai_world" where
  "setStatus scanId st w = snd (write_columns (not_in_flight scanId) (\<lambda>c. c\<lparr>ax_status := Some st\<rparr>) w)"

definition diff_bytes :: "gate_scan \<Rightarrow> nat" where
  "diff_bytes scan = (case gs_diffBytes scan of Some n \<Rightarrow> n | None \<Rightarrow> 0)"

text \<open>Steps 4 and 5, once the configuration is ready.\<close>

definition check_size :: "gate_env \<Rightarrow> gate_ctx \<Rightarrow> gate_phase" where
  "check_size env ctx =
    (if ge_maxDiffBytes env < diff_bytes (gc_scan ctx) then GateSettle (gq_scanId ctx) AiSkippedTooLarge else GateUsage ctx)"

definition after_configuration :: "gate_env \<Rightarrow> gate_ctx \<Rightarrow> gate_phase" where
  "after_configuration env ctx =
    (let scan = gc_scan ctx
     in if gs_diffMode scan = DiffIncremental \<and> truthy (gs_baseScanId scan) \<and> diff_bytes scan = 0 \<and> gs_filesChanged scan = Some 0
        then GateBase ctx else check_size env ctx)"

definition resolved :: "gate_env \<Rightarrow> gate_ctx \<Rightarrow> ai_configuration \<Rightarrow> gate_phase" where
  "resolved env ctx conf =
    (case conf of
      ConfigBlocked st \<Rightarrow> GateSettle (gq_scanId ctx) st
    | ConfigReady provider model \<Rightarrow> after_configuration env (ctx\<lparr>gc_provider := provider, gc_model := model\<rparr>))"

text \<open>The first read: the scan with its pull request's policy and its organization.\<close>

definition read_scan :: "gate_env \<Rightarrow> gate_request \<Rightarrow> ai_world \<Rightarrow> gate_phase" where
  "read_scan env req w =
    (case (gate_scan_of w (gq_scanId req), columns_of w (gq_scanId req)) of
      (Some scan, Some cols) \<Rightarrow>
        (case (al_get (aw_policies w) (gs_pullId scan), List.find (\<lambda>o'. oa_id o' = gs_organizationId scan) (aw_orgs w)) of
          (Some policy, Some org) \<Rightarrow>
            if gs_status scan \<noteq> ScanDone then GateReturned None
            else if policy = ManualOnly then GateSettle (gq_scanId req) AiSkippedManualMode
            else (let ctx = gate_request.extend req (gate_ctx.fields scan cols org [] [])
                  in (case oa_aiProvider org of
                      None \<Rightarrow> resolved env ctx (ConfigBlocked AiNotConfigured)
                    | Some p \<Rightarrow> GateCredential ctx p))
        | _ \<Rightarrow> GateReturned None)
    | _ \<Rightarrow> GateReturned None)"

text \<open>A rescan of the same commit: copy the summary of the base, report why there is none, or ask
  the model again because the language changed.\<close>

definition read_base :: "gate_env \<Rightarrow> gate_ctx \<Rightarrow> ai_world \<Rightarrow> gate_phase" where
  "read_base env ctx w =
    (let b = (case gs_baseScanId (gc_scan ctx) of Some i \<Rightarrow> i | None \<Rightarrow> []);
         base = columns_of w b
     in (case (base, summary_of w b) of
          (Some cols, Some summary) \<Rightarrow>
            if ax_locale cols \<noteq> None \<and> ax_locale cols \<noteq> Some (oa_aiLocale (gc_org ctx)) then check_size env ctx
            else GateCopyBase ctx cols summary
        | _ \<Rightarrow> GateSettle (gq_scanId ctx)
            (case base of Some cols \<Rightarrow> (case ax_status cols of Some st \<Rightarrow> st | None \<Rightarrow> AiSkippedTooLarge)
             | None \<Rightarrow> AiSkippedTooLarge)))"

definition copySummaryFromBase :: "gate_ctx \<Rightarrow> ai_columns \<Rightarrow> ai_summary \<Rightarrow> ai_world \<Rightarrow> ai_world" where
  "copySummaryFromBase ctx base summary w =
    (let i = gq_scanId ctx;
         (n, w') = write_columns (not_in_flight i) (\<lambda>c. c\<lparr>ax_status := Some AiCached, ax_cached := True,
           ax_provider := ax_provider base, ax_model := ax_model base, ax_promptVersion := ax_promptVersion base,
           ax_locale := ax_locale base, ax_tokensIn := None, ax_tokensOut := None\<rparr>) w
     in if n = 0 then w'
        else w'\<lparr>aw_db := (aw_db w')\<lparr>ad_summaries := filter (\<lambda>s. as_scanId s \<noteq> i) (ad_summaries (aw_db w')) @
          [summary\<lparr>as_scanId := i, as_pullId := gs_pullId (gc_scan ctx)\<rparr>]\<rparr>\<rparr>)"

definition run_of :: "ai_columns \<Rightarrow> rule_tier list \<Rightarrow> run_identity" where
  "run_of c tiers = \<lparr>ri_provider = ax_provider c, ri_model = ax_model c, ri_promptVersion = ax_promptVersion c,
    ri_locale = ax_locale c, ri_ruleTiers = tiers\<rparr>"

definition merge_previous :: "gate_ctx \<Rightarrow> bool" where
  "merge_previous ctx = isComparableRun (run_of (gc_columns ctx) (gs_ruleTiers (gc_scan ctx)))
    \<lparr>ri_provider = Some (gc_provider ctx), ri_model = Some (gc_model ctx), ri_promptVersion = Some AI_PROMPT_VERSION,
     ri_locale = Some (oa_aiLocale (gc_org ctx)), ri_ruleTiers = gs_ruleTiers (gc_scan ctx)\<rparr>"

definition read_usage :: "gate_env \<Rightarrow> gate_ctx \<Rightarrow> ai_world \<Rightarrow> gate_phase" where
  "read_usage env ctx w =
    (let used = usedTokensToday w (ge_now env) (gs_organizationId (gc_scan ctx))
     in if int (oa_aiDailyTokenBudget (gc_org ctx)) - int used < int (token_estimate (diff_bytes (gc_scan ctx)))
        then GateSettle (gq_scanId ctx) AiBudgetExceeded
        else if gq_force ctx then GateClaim ctx (merge_previous ctx) else GateCache ctx (merge_previous ctx))"

subsection \<open>A cached review\<close>

definition cache_key :: "gate_env \<Rightarrow> gate_ctx \<Rightarrow> jstr" where
  "cache_key env ctx = aiCacheKey (ge_sha256 env) (gc_scan ctx) (gc_provider ctx) (gc_model ctx) (oa_aiLocale (gc_org ctx))"

definition read_cache :: "gate_env \<Rightarrow> gate_ctx \<Rightarrow> bool \<Rightarrow> ai_world \<Rightarrow> gate_phase" where
  "read_cache env ctx merge w =
    (case (if ge_redisUp env then al_get (aw_cache w) (cache_key env ctx) else None) of
      Some i \<Rightarrow> if i = [] \<or> i = gq_scanId ctx then GateClaim ctx merge else GateSource ctx merge i
    | None \<Rightarrow> GateClaim ctx merge)"

text \<open>An AI finding always has a category.\<close>

definition draft_of_row :: "db_finding \<Rightarrow> ai_draft" where
  "draft_of_row f = \<lparr>dr_filePath = fd_filePath f, dr_lineStart = fd_lineStart f, dr_lineEnd = fd_lineEnd f,
    dr_category = (case fd_category f of Some c \<Rightarrow> c | None \<Rightarrow> CatSecret), dr_severity = fd_severity f,
    dr_title = fd_title f, dr_message = fd_message f,
    dr_confidence = (case fd_confidence f of Some c \<Rightarrow> c | None \<Rightarrow> 0),
    dr_reportedSeverity = (case fd_reportedSeverity f of Some s \<Rightarrow> s | None \<Rightarrow> fd_severity f)\<rparr>"

definition source_drafts :: "ai_world \<Rightarrow> jstr \<Rightarrow> ai_draft list" where
  "source_drafts w i = map draft_of_row (filter (\<lambda>f. db_scanId f = i \<and> fd_source f = AI \<and> fr_status f \<noteq> RESOLVED \<and>
    fd_suppressedReason f \<noteq> Some DEDUPE_STATIC) (ld_findings (aw_db w)))"

definition read_source :: "gate_ctx \<Rightarrow> bool \<Rightarrow> jstr \<Rightarrow> ai_world \<Rightarrow> gate_phase" where
  "read_source ctx merge i w =
    (case (gate_scan_of w i, columns_of w i, summary_of w i) of
      (Some source, Some cols, Some summary) \<Rightarrow>
        if gs_organizationId source = gs_organizationId (gc_scan ctx) \<and>
           (ax_status cols = Some AiDone \<or> ax_status cols = Some AiCached)
        then GateDrafts ctx merge cols summary (source_drafts w i) else GateClaim ctx merge
    | _ \<Rightarrow> GateClaim ctx merge)"

definition scan_for :: "gate_scan \<Rightarrow> scan_for_ai" where
  "scan_for s = \<lparr>sa_id = gs_id s, sa_pullId = gs_pullId s, sa_diffMode = gs_diffMode s, sa_baseScanId = gs_baseScanId s,
    sa_findingsCount = gs_findingsCount s, sa_ruleTiers = gs_ruleTiers s\<rparr>"

definition static_of_row :: "db_finding \<Rightarrow> static_for_dedupe" where
  "static_of_row f = \<lparr>sd_id = st_id f, sd_filePath = fd_filePath f, sd_lineStart = fd_lineStart f,
    sd_lineEnd = fd_lineEnd f, sd_category = fd_category f, sd_suppressedReason = fd_suppressedReason f\<rparr>"

definition static_findings :: "ai_world \<Rightarrow> jstr \<Rightarrow> static_for_dedupe list" where
  "static_findings w i = map static_of_row
    (filter (\<lambda>f. db_scanId f = i \<and> fd_source f = STATIC \<and> fr_status f \<noteq> RESOLVED) (ld_findings (aw_db w)))"

definition cached_result :: "gate_env \<Rightarrow> bool \<Rightarrow> ai_columns \<Rightarrow> ai_summary \<Rightarrow> ai_draft list \<Rightarrow> dedupe_result \<Rightarrow>
    finding_row list \<Rightarrow> ai_result" where
  "cached_result env merge source summary drafts d rows =
    \<lparr>ar_status = AiCached, ar_summaryMd = as_summaryMd summary,
     ar_reportedRiskLevel = (case ax_reportedRiskLevel source of Some r \<Rightarrow> Some r | None \<Rightarrow> Some (as_riskLevel summary)),
     ar_filesOmitted = as_filesOmitted summary, ar_rows = rows, ar_total = length drafts, ar_rejected = 0,
     ar_dropped = ax_findingsDropped source, ar_deduped = dd_merged d + length (dd_duplicates d),
     ar_provider = (case ax_provider source of Some p \<Rightarrow> p | None \<Rightarrow> []),
     ar_model = (case ax_model source of Some m \<Rightarrow> m | None \<Rightarrow> []),
     ar_promptVersion = (case ax_promptVersion source of Some v \<Rightarrow> v | None \<Rightarrow> AI_PROMPT_VERSION),
     ar_locale = ax_locale source, ar_tokensIn = None, ar_tokensOut = None, ar_flags = [], ar_mergeWithPrevious = merge\<rparr>"

text \<open>The static findings and the lifecycle are read one after the other.\<close>

definition read_drafts :: "gate_env \<Rightarrow> gate_ctx \<Rightarrow> bool \<Rightarrow> ai_columns \<Rightarrow> ai_summary \<Rightarrow> ai_draft list \<Rightarrow> ai_world \<Rightarrow> gate_phase" where
  "read_drafts env ctx merge source summary drafts w =
    (case dedupeAiFindings (ge_sha1 env) (ge_mm env) drafts (static_findings w (gq_scanId ctx)) None of
      Inl e \<Rightarrow> GateThrown
    | Inr d \<Rightarrow>
       (let scan = scan_for (gc_scan ctx);
            (rows, fps) = buildAiRows (ge_uuid env) scan (dd_kept d) (dd_duplicates d)
              (loadAiLifecycleContext (aw_db w) scan) (ge_keepDeduped env)
        in GateCopy ctx (cached_result env merge source summary drafts d rows)))"

subsection \<open>The writes and the call\<close>

definition copyFromCache :: "gate_env \<Rightarrow> gate_ctx \<Rightarrow> ai_result \<Rightarrow> ai_world \<Rightarrow> bool \<times> ai_world" where
  "copyFromCache env ctx res w =
    (let (r, db) = persistAiResult (ge_uuid env) (scan_for (gc_scan ctx)) res (\<lambda>st. \<not> ai_in_flight st) (aw_db w)
     in (r \<noteq> None, w\<lparr>aw_db := db\<rparr>))"

definition claim_queued :: "gate_ctx \<Rightarrow> ai_world \<Rightarrow> nat \<times> ai_world" where
  "claim_queued ctx = write_columns (not_in_flight (gq_scanId ctx)) (\<lambda>c. c\<lparr>ax_status := Some AiQueued, ax_errorCode := None,
    ax_provider := Some (gc_provider ctx), ax_model := Some (gc_model ctx), ax_promptVersion := Some AI_PROMPT_VERSION,
    ax_locale := Some (oa_aiLocale (gc_org ctx))\<rparr>)"

definition buildAiJobId :: "jstr \<Rightarrow> int \<Rightarrow> jstr" where
  "buildAiJobId scanId requestedAt = ''ai-'' @ scanId @ ''-'' @ show_int requestedAt"

text \<open>An \<open>add\<close> whose id exists is dropped.\<close>

definition add_ai_job :: "gate_env \<Rightarrow> jstr \<Rightarrow> bool \<Rightarrow> ai_world \<Rightarrow> ai_world" where
  "add_ai_job env scanId merge w =
    (let i = buildAiJobId scanId (ge_now env)
     in if i \<in> aj_id ` set (aw_jobs w) then w
        else w\<lparr>aw_jobs := aw_jobs w @ [\<lparr>aj_id = i, aj_scanId = scanId, aj_mergePrevious = merge, aj_state = JobWaiting\<rparr>]\<rparr>)"

definition fail_queue :: "jstr \<Rightarrow> ai_world \<Rightarrow> ai_world" where
  "fail_queue scanId w = snd (write_columns (\<lambda>c. ax_scanId c = scanId)
    (\<lambda>c. c\<lparr>ax_status := Some AiFailed, ax_errorCode := Some ''queue_unavailable''\<rparr>) w)"

fun gate_step :: "gate_env \<Rightarrow> gate_request \<Rightarrow> ai_world \<Rightarrow> gate_phase \<Rightarrow> ai_world \<times> gate_phase" where
  "gate_step env req w GateScan = (w, read_scan env req w)"
| "gate_step env req w (GateCredential ctx p) =
    (w, resolved env ctx (configuration_with (gc_org ctx) p (findCredential w (oa_id (gc_org ctx)) p)))"
| "gate_step env req w (GateBase ctx) = (w, read_base env ctx w)"
| "gate_step env req w (GateCopyBase ctx base summary) =
    (copySummaryFromBase ctx base summary w, GateReturned (Some AiCached))"
| "gate_step env req w (GateUsage ctx) = (w, read_usage env ctx w)"
| "gate_step env req w (GateCache ctx merge) = (w, read_cache env ctx merge w)"
| "gate_step env req w (GateSource ctx merge i) = (w, read_source ctx merge i w)"
| "gate_step env req w (GateDrafts ctx merge source summary drafts) = (w, read_drafts env ctx merge source summary drafts w)"
| "gate_step env req w (GateCopy ctx res) =
    (let (copied, w') = copyFromCache env ctx res w
     in (w', if copied then GateReturned (Some AiCached) else GateClaim ctx (ar_mergeWithPrevious res)))"
| "gate_step env req w (GateClaim ctx merge) =
    (let (n, w') = claim_queued ctx w in (w', if n = 0 then GateReturned (Some AiQueued) else GateAdd ctx merge))"
| "gate_step env req w (GateAdd ctx merge) =
    (if ge_queueUp env then (add_ai_job env (gq_scanId ctx) merge w, GateReturned (Some AiQueued))
     else (w, GateFailAdd (gq_scanId ctx)))"
| "gate_step env req w (GateFailAdd scanId) = (fail_queue scanId w, GateThrown)"
| "gate_step env req w (GateSettle scanId st) = (setStatus scanId st w, GateReturned (Some st))"
| "gate_step env req w ph = (w, ph)"

fun gate_run :: "nat \<Rightarrow> gate_env \<Rightarrow> gate_request \<Rightarrow> ai_world \<times> gate_phase \<Rightarrow> ai_world \<times> gate_phase" where
  "gate_run 0 env req s = s"
| "gate_run (Suc n) env req s = gate_run n env req (gate_step env req (fst s) (snd s))"

text \<open>Each operation leads further down, twelve are enough.\<close>

definition maybeEnqueue :: "gate_env \<Rightarrow> gate_request \<Rightarrow> ai_world \<Rightarrow> ai_world \<times> gate_phase" where
  "maybeEnqueue env req w = gate_run 12 env req (w, GateScan)"

subsection \<open>The worker\<close>

definition in_flight_row :: "jstr \<Rightarrow> ai_columns \<Rightarrow> bool" where
  "in_flight_row i c \<longleftrightarrow> ax_scanId c = i \<and> ai_in_flight (ax_status c)"

definition running_row :: "jstr \<Rightarrow> ai_columns \<Rightarrow> bool" where
  "running_row i c \<longleftrightarrow> ax_scanId c = i \<and> ax_status c = Some AiRunning"

definition claim_review :: "int \<Rightarrow> jstr \<Rightarrow> ai_world \<Rightarrow> nat \<times> ai_world" where
  "claim_review now i = write_columns (in_flight_row i) (\<lambda>c. c\<lparr>ax_status := Some AiRunning, ax_startedAt := Some now\<rparr>)"

definition not_configured :: "jstr \<Rightarrow> ai_world \<Rightarrow> ai_world" where
  "not_configured i w = snd (write_columns (running_row i) (\<lambda>c. c\<lparr>ax_status := Some AiNotConfigured\<rparr>) w)"

definition NOT_CONFIGURED_CODES :: "ai_error_code list" where
  "NOT_CONFIGURED_CODES = [CodeNotConfigured, CodeApiKeyRequired, CodeBaseUrlRequired]"

text \<open>How an attempt ends that has no answer: with a status of its own, for good with a code, or
  with an error BullMQ may retry.\<close>

datatype attempt_end = EndNotConfigured | EndForGood ai_error_code | EndRetry ai_error_code

definition provider_end :: "ai_error \<Rightarrow> attempt_end" where
  "provider_end e = (if ae_code e \<in> set NOT_CONFIGURED_CODES then EndNotConfigured else EndForGood (ae_code e))"

definition keeps_raw :: "ai_error \<Rightarrow> bool" where
  "keeps_raw e \<longleftrightarrow> ae_code e \<in> {CodeInvalidResponse, CodeOutputTruncated, CodeReasoningExhausted}"

definition call_end :: "ai_error \<Rightarrow> attempt_end" where
  "call_end e = (if keeps_raw e then EndForGood (ae_code e)
     else if ai_retryable e then EndRetry (ae_code e) else EndForGood (ae_code e))"

definition recordFailedUsage :: "int \<Rightarrow> jstr \<Rightarrow> jstr \<Rightarrow> usage \<Rightarrow> ai_world \<Rightarrow> ai_world" where
  "recordFailedUsage now scanId organizationId u w =
    snd (write_columns (\<lambda>c. ax_scanId c = scanId) (\<lambda>c. c\<lparr>ax_tokensIn := Some (fst u), ax_tokensOut := Some (snd u)\<rparr>)
      (recordUsage now organizationId u w))"

definition keepRawResponse :: "jstr \<Rightarrow> ai_world \<Rightarrow> ai_world" where
  "keepRawResponse scanId w =
    snd (write_columns (\<lambda>c. ax_scanId c = scanId) (\<lambda>c. c\<lparr>ax_rawRef := Some (''ai:raw:'' @ scanId)\<rparr>) w)"

text \<open>What the call's error writes before the attempt ends.\<close>

definition after_call_error :: "gate_env \<Rightarrow> jstr \<Rightarrow> jstr \<Rightarrow> ai_error \<Rightarrow> ai_world \<Rightarrow> ai_world" where
  "after_call_error env scanId organizationId e w =
    (let w1 = (case ae_usage e of Some u \<Rightarrow> recordFailedUsage (ge_now env) scanId organizationId u w | None \<Rightarrow> w)
     in if keeps_raw e \<and> ge_redisUp env then keepRawResponse scanId w1 else w1)"

definition store_review :: "gate_env \<Rightarrow> scan_for_ai \<Rightarrow> ai_result \<Rightarrow> ai_world \<Rightarrow>
    (scan_counts \<times> merge_stats option) option \<times> ai_world" where
  "store_review env scan res w =
    (let (r, db) = persistAiResult (ge_uuid env) scan res (\<lambda>st. st = Some AiRunning) (aw_db w) in (r, w\<lparr>aw_db := db\<rparr>))"

definition rememberInCache :: "gate_env \<Rightarrow> jstr \<Rightarrow> jstr \<Rightarrow> ai_world \<Rightarrow> ai_world" where
  "rememberInCache env key scanId w = (if ge_redisUp env then w\<lparr>aw_cache := al_set key scanId (aw_cache w)\<rparr> else w)"

definition AI_JOB_ATTEMPTS :: nat where "AI_JOB_ATTEMPTS = 4"

definition is_final :: "attempt_end \<Rightarrow> nat \<Rightarrow> bool" where
  "is_final e attemptsMade \<longleftrightarrow> (case e of EndForGood _ \<Rightarrow> True | _ \<Rightarrow> AI_JOB_ATTEMPTS \<le> attemptsMade)"

definition fail_review :: "jstr \<Rightarrow> jstr \<Rightarrow> ai_world \<Rightarrow> nat \<times> ai_world" where
  "fail_review i code = write_columns (in_flight_row i) (\<lambda>c. c\<lparr>ax_status := Some AiFailed, ax_errorCode := Some code\<rparr>)"

text \<open>The findings of the base that a new scan of the same commit is merged with.\<close>

definition comparableBaseRun :: "ai_world \<Rightarrow> gate_scan \<Rightarrow> jstr option \<Rightarrow> jstr \<Rightarrow> jstr \<Rightarrow> stored_finding list \<Rightarrow>
    stored_finding list option" where
  "comparableBaseRun w scan aiModel providerId locale baseAi =
    (case gs_baseScanId scan of
      None \<Rightarrow> None
    | Some b \<Rightarrow>
        if gs_diffMode scan \<noteq> DiffFull \<or> b = [] then None
        else (case (gate_scan_of w b, columns_of w b) of
            (Some base, Some cols) \<Rightarrow>
              if gs_headSha base \<noteq> gs_headSha scan \<or> \<not> isComparableRun (run_of cols (gs_ruleTiers base))
                  \<lparr>ri_provider = Some providerId, ri_model = aiModel, ri_promptVersion = Some AI_PROMPT_VERSION,
                   ri_locale = Some locale, ri_ruleTiers = gs_ruleTiers scan\<rparr>
              then None else Some (filter (\<lambda>f. fd_suppressedReason f = None) baseAi)
          | _ \<Rightarrow> None))"

subsection \<open>The reaper\<close>

definition REAP_GRACE_MS :: int where "REAP_GRACE_MS = 120000"
definition REAP_BATCH :: nat where "REAP_BATCH = 200"
definition WORKER_LOST :: jstr where "WORKER_LOST = ''worker_lost''"

record in_flight_scan =
  if_id :: jstr
  if_aiStartedAt :: "int option"
  if_finishedAt :: "int option"

definition in_flight_scans :: "ai_world \<Rightarrow> in_flight_scan list" where
  "in_flight_scans w = take REAP_BATCH (map (\<lambda>c. \<lparr>if_id = ax_scanId c, if_aiStartedAt = ax_startedAt c,
      if_finishedAt = (case gate_scan_of w (ax_scanId c) of Some s \<Rightarrow> gs_finishedAt s | None \<Rightarrow> None)\<rparr>)
    (filter (\<lambda>c. ai_in_flight (ax_status c)) (ad_columns (aw_db w))))"

text \<open>BullMQ keeps an ended job for a while; every other state is one of \<open>LIVE_JOB_STATES\<close>.\<close>

definition live_scan_ids :: "ai_world \<Rightarrow> jstr list" where
  "live_scan_ids w = map aj_scanId (filter (\<lambda>j. aj_state j \<noteq> JobEnded) (aw_jobs w))"

definition findOrphans :: "in_flight_scan list \<Rightarrow> jstr list \<Rightarrow> int \<Rightarrow> in_flight_scan list" where
  "findOrphans scans liveScanIds now = filter (\<lambda>s.
    if_id s \<notin> set liveScanIds \<and>
    (case (case if_aiStartedAt s of Some t \<Rightarrow> Some t | None \<Rightarrow> if_finishedAt s) of
      None \<Rightarrow> False | Some since \<Rightarrow> REAP_GRACE_MS < now - since)) scans"

text \<open>One write for each orphan; the result is the number that had not moved on.\<close>

fun reap_all :: "in_flight_scan list \<Rightarrow> ai_world \<Rightarrow> nat \<times> ai_world" where
  "reap_all [] w = (0, w)"
| "reap_all (s # ss) w =
    (let (n, w1) = fail_review (if_id s) WORKER_LOST w; (m, w2) = reap_all ss w1
     in (if n = 0 then m else Suc m, w2))"

definition reap :: "int \<Rightarrow> ai_world \<Rightarrow> nat \<times> ai_world" where
  "reap now w = reap_all (findOrphans (in_flight_scans w) (live_scan_ids w) now) w"

subsection \<open>Requests, workers and the reaper side by side\<close>

text \<open>
  \<open>Attempt\<close> is a job before its claim, \<open>Review\<close> one after it, \<open>AttemptFailing\<close> the
  \<open>failed\<close> event after the last attempt; \<open>Sweep\<close> has read the scans in flight, \<open>Reaping\<close>
  the jobs too.  What the queue makes of its jobs, and what the rest of the program does to scans,
  findings, settings and budgets, is left open; it adds rows for new scans and never writes the AI status.
\<close>

datatype ai_thread =
  GateCall gate_request gate_phase
| Attempt jstr
| Review jstr
| AttemptFailing jstr jstr
| Sweep "in_flight_scan list"
| Reaping "in_flight_scan list"

definition new_columns :: "jstr \<Rightarrow> ai_columns" where
  "new_columns i = \<lparr>ax_scanId = i, ax_status = None, ax_startedAt = None, ax_errorCode = None, ax_rawRef = None,
    ax_provider = None, ax_model = None, ax_promptVersion = None, ax_locale = None, ax_tokensIn = None,
    ax_tokensOut = None, ax_cached = False, ax_findingsTotal = 0, ax_findingsRejected = 0, ax_findingsDropped = 0,
    ax_findingsDeduped = 0, ax_reportedRiskLevel = None, ax_flags = []\<rparr>"

inductive ai_step :: "ai_world \<times> ai_thread list \<Rightarrow> ai_world \<times> ai_thread list \<Rightarrow> bool" where
  request: "ai_step (w, ts) (w, ts @ [GateCall req GateScan])"
| gate: "gate_step env req w ph = (w', ph') \<Longrightarrow>
    ai_step (w, as @ GateCall req ph # bs) (w', as @ GateCall req ph' # bs)"
| pick: "j \<in> set (aw_jobs w) \<Longrightarrow> ai_step (w, ts) (w, ts @ [Attempt (aj_scanId j)])"
| claim: "claim_review now i w = (n, w') \<Longrightarrow> 0 < n \<Longrightarrow> ai_step (w, as @ Attempt i # bs) (w', as @ Review i # bs)"
| skip: "claim_review now i w = (0, w') \<Longrightarrow> ai_step (w, as @ Attempt i # bs) (w', as @ bs)"
| unconfigured: "ai_step (w, as @ Review i # bs) (not_configured i w, as @ bs)"
| answered: "ar_status res = AiDone \<Longrightarrow> sa_id scan = i \<Longrightarrow>
    ai_step (w, as @ Review i # bs) (snd (store_review env scan res w), as @ bs)"
| call_error: "ai_step (w, as @ Review i # bs) (after_call_error env i organizationId e w, as @ Review i # bs)"
| attempt_ended: "t \<in> {Attempt i, Review i} \<Longrightarrow> t' \<in> {[], [AttemptFailing i code]} \<Longrightarrow>
    ai_step (w, as @ t # bs) (w, as @ t' @ bs)"
| failed: "ai_step (w, as @ AttemptFailing i code # bs) (snd (fail_review i code w), as @ bs)"
| sweep: "ai_step (w, ts) (w, ts @ [Sweep (in_flight_scans w)])"
| sweep_jobs: "ai_step (w, as @ Sweep ss # bs) (w, as @ Reaping (findOrphans ss (live_scan_ids w) now) # bs)"
| reap_one: "ai_step (w, as @ Reaping (s # ss) # bs) (snd (fail_review (if_id s) WORKER_LOST w), as @ Reaping ss # bs)"
| jobs: "ai_step (w, ts) (w\<lparr>aw_jobs := js\<rparr>, ts)"
| new_scan: "i \<notin> ax_scanId ` set (ad_columns (aw_db w)) \<Longrightarrow> i \<notin> as_scanId ` set (ad_summaries (aw_db w)) \<Longrightarrow>
    ai_step (w, ts) (w\<lparr>aw_db := (aw_db w)\<lparr>ad_columns := ad_columns (aw_db w) @ [new_columns i]\<rparr>\<rparr>, ts)"
| outside: "ad_columns (aw_db w') = ad_columns (aw_db w) \<Longrightarrow> ad_summaries (aw_db w') = ad_summaries (aw_db w) \<Longrightarrow>
    ai_step (w, ts) (w', ts)"

abbreviation ai_steps :: "ai_world \<times> ai_thread list \<Rightarrow> ai_world \<times> ai_thread list \<Rightarrow> bool" where
  "ai_steps \<equiv> ai_step\<^sup>*\<^sup>*"

subsection \<open>The review of a scan, abstractly\<close>

datatype review_view = NotReviewed | Waiting | Running | Reviewed

text \<open>For each scan the stage of its review and whether it has a summary.\<close>

type_synonym review_spec = "jstr \<Rightarrow> (review_view \<times> bool) option"

text \<open>A result comes out of a run or is copied while none is in flight; a review that waits has to
  run first.  \<open>inherited\<close> is the one step that puts a review in flight without a request of its
  own: \<open>copySummaryFromBase\<close> reports the status of the base scan, and that one may be in flight.\<close>

inductive spec_step :: "review_spec \<Rightarrow> review_spec \<Rightarrow> bool" where
  created: "s i = None \<Longrightarrow> spec_step s (s(i \<mapsto> (NotReviewed, False)))"
| queued: "s i = Some (v, b) \<Longrightarrow> v \<noteq> Waiting \<Longrightarrow> v \<noteq> Running \<Longrightarrow> spec_step s (s(i \<mapsto> (Waiting, b)))"
| started: "s i = Some (v, b) \<Longrightarrow> v = Waiting \<or> v = Running \<Longrightarrow> spec_step s (s(i \<mapsto> (Running, b)))"
| published: "s i = Some (v, b) \<Longrightarrow> v \<noteq> Waiting \<Longrightarrow> spec_step s (s(i \<mapsto> (Reviewed, True)))"
| dropped: "s i = Some (v, b) \<Longrightarrow> spec_step s (s(i \<mapsto> (NotReviewed, b)))"
| inherited: "s i = Some (v, b) \<Longrightarrow> v \<noteq> Waiting \<Longrightarrow> v \<noteq> Running \<Longrightarrow> spec_step s (s(i \<mapsto> (Running, b)))"

fun view_of :: "ai_scan_status option \<Rightarrow> review_view" where
  "view_of (Some AiQueued) = Waiting"
| "view_of (Some AiRunning) = Running"
| "view_of (Some AiDone) = Reviewed"
| "view_of (Some AiCached) = Reviewed"
| "view_of _ = NotReviewed"

definition has_summary :: "ai_world \<Rightarrow> jstr \<Rightarrow> bool" where
  "has_summary w i \<longleftrightarrow> (\<exists>s \<in> set (ad_summaries (aw_db w)). as_scanId s = i)"

definition review_abs :: "ai_world \<Rightarrow> review_spec" where
  "review_abs w i = map_option (\<lambda>c. (view_of (ax_status c), has_summary w i)) (columns_of w i)"

lemma spec_reviewed:
  assumes "spec_step\<^sup>*\<^sup>* (\<lambda>_. None) s" "s i = Some (Reviewed, b)"
  shows b
  using assms
proof (induction arbitrary: i b rule: rtranclp_induct)
  case (step s s')
  from step(2) show ?case
    by cases (use step(3,4) in \<open>auto split: if_splits\<close>)
qed simp

subsection \<open>The writes, abstractly\<close>

lemma write_columns_simps [simp]:
  "ad_columns (aw_db (snd (write_columns p g w))) = map (\<lambda>c. if p c then g c else c) (ad_columns (aw_db w))"
  "ad_summaries (aw_db (snd (write_columns p g w))) = ad_summaries (aw_db w)"
  "fst (write_columns p g w) = length (filter p (ad_columns (aw_db w)))"
  "aw_jobs (snd (write_columns p g w)) = aw_jobs w"
  "aw_scans (snd (write_columns p g w)) = aw_scans w"
  by (simp_all add: write_columns_def update_columns_def case_prod_beta)

definition one_row :: "jstr \<Rightarrow> (ai_columns \<Rightarrow> bool) \<Rightarrow> (ai_columns \<Rightarrow> ai_columns) \<Rightarrow> bool" where
  "one_row i p g \<longleftrightarrow> (\<forall>c. p c \<longrightarrow> ax_scanId c = i) \<and> (\<forall>c. ax_scanId (g c) = ax_scanId c)"

lemma columns_of_map:
  assumes "one_row i p g" "ad_columns (aw_db w') = map (\<lambda>c. if p c then g c else c) (ad_columns (aw_db w))"
  shows "columns_of w' k = map_option (\<lambda>c. if p c then g c else c) (columns_of w k)"
proof -
  have "List.find (\<lambda>c. ax_scanId c = k) (map (\<lambda>c. if p c then g c else c) cs) =
      map_option (\<lambda>c. if p c then g c else c) (List.find (\<lambda>c. ax_scanId c = k) cs)" for cs
    using assms(1) by (induction cs) (auto simp: one_row_def)
  with assms(2) show ?thesis by (simp add: columns_of_def)
qed

lemma columns_of_id: "columns_of w i = Some c \<Longrightarrow> ax_scanId c = i \<and> c \<in> set (ad_columns (aw_db w))"
  unfolding columns_of_def by (drule find_SomeD) simp

lemma abs_write:
  assumes "one_row i p g" "ad_columns (aw_db w') = map (\<lambda>c. if p c then g c else c) (ad_columns (aw_db w))"
    "\<And>k. k \<noteq> i \<Longrightarrow> has_summary w' k = has_summary w k"
    "\<not> (\<exists>c. columns_of w i = Some c \<and> p c) \<Longrightarrow> has_summary w' i = has_summary w i"
  shows "review_abs w' = (case columns_of w i of
      Some c \<Rightarrow> if p c then (review_abs w)(i \<mapsto> (view_of (ax_status (g c)), has_summary w' i)) else review_abs w
    | None \<Rightarrow> review_abs w)"
proof
  fix k
  note c = columns_of_map [OF assms(1,2)]
  show "review_abs w' k = (case columns_of w i of
      Some c \<Rightarrow> if p c then (review_abs w)(i \<mapsto> (view_of (ax_status (g c)), has_summary w' i)) else review_abs w
    | None \<Rightarrow> review_abs w) k"
  proof (cases "k = i")
    case True
    with c [of i] assms(4) show ?thesis by (auto simp: review_abs_def split: option.split)
  next
    case False
    have "\<not> p c" if "columns_of w k = Some c" for c
      using that assms(1) False columns_of_id by (auto simp: one_row_def)
    with c [of k] False assms(3) [OF False] show ?thesis
      by (cases "columns_of w k") (auto simp: review_abs_def split: option.split)
  qed
qed

lemma abs_write_at:
  assumes "one_row i p g" "ad_columns (aw_db w') = map (\<lambda>c. if p c then g c else c) (ad_columns (aw_db w))"
    "\<And>k. k \<noteq> i \<Longrightarrow> has_summary w' k = has_summary w k" "columns_of w i = Some c" "p c"
  shows "review_abs w' = (review_abs w)(i \<mapsto> (view_of (ax_status (g c)), has_summary w' i))"
  using abs_write [OF assms(1-3)] assms(4,5) by simp

text \<open>A guarded write of the columns of one scan is a step of its review, or none.\<close>

lemma spec_write:
  assumes "one_row i p g"
    "\<And>c. columns_of w i = Some c \<Longrightarrow> p c \<Longrightarrow>
      spec_step (review_abs w) ((review_abs w)(i \<mapsto> (view_of (ax_status (g c)), has_summary w i)))"
  shows "spec_step\<^sup>=\<^sup>= (review_abs w) (review_abs (snd (write_columns p g w)))"
proof -
  let ?w' = "snd (write_columns p g w)"
  have s: "has_summary ?w' k = has_summary w k" for k by (simp add: has_summary_def)
  have "review_abs ?w' = (case columns_of w i of
      Some c \<Rightarrow> if p c then (review_abs w)(i \<mapsto> (view_of (ax_status (g c)), has_summary w i)) else review_abs w
    | None \<Rightarrow> review_abs w)"
    by (subst abs_write [OF assms(1) write_columns_simps(1)]) (simp_all only: s)
  with assms(2) show ?thesis by (cases "columns_of w i") (auto simp del: fun_upd_apply)
qed

lemma view_in_flight: "ai_in_flight st \<longleftrightarrow> view_of st = Waiting \<or> view_of st = Running"
  by (cases st rule: view_of.cases) (simp_all add: ai_in_flight_def)

lemma view_running: "view_of st = Running \<longleftrightarrow> st = Some AiRunning"
  by (cases st rule: view_of.cases) simp_all

lemma view_reviewed: "view_of st = Reviewed \<longleftrightarrow> st = Some AiDone \<or> st = Some AiCached"
  by (cases st rule: view_of.cases) simp_all

lemma one_rows [simp]:
  "one_row i (not_in_flight i) g \<longleftrightarrow> (\<forall>c. ax_scanId (g c) = ax_scanId c)"
  "one_row i (in_flight_row i) g \<longleftrightarrow> (\<forall>c. ax_scanId (g c) = ax_scanId c)"
  "one_row i (running_row i) g \<longleftrightarrow> (\<forall>c. ax_scanId (g c) = ax_scanId c)"
  "one_row i (\<lambda>c. ax_scanId c = i) g \<longleftrightarrow> (\<forall>c. ax_scanId (g c) = ax_scanId c)"
  by (auto simp: one_row_def not_in_flight_def in_flight_row_def running_row_def)

lemma abs_at: "columns_of w i = Some c \<Longrightarrow> review_abs w i = Some (view_of (ax_status c), has_summary w i)"
  by (simp add: review_abs_def)

lemma spec_claim_review: "spec_step\<^sup>=\<^sup>= (review_abs w) (review_abs (snd (claim_review now i w)))"
  unfolding claim_review_def
  by (rule spec_write [where i = i]) (auto simp: in_flight_row_def view_in_flight abs_at intro: spec_step.started)

lemma spec_fail_review: "spec_step\<^sup>=\<^sup>= (review_abs w) (review_abs (snd (fail_review i code w)))"
  unfolding fail_review_def
  by (rule spec_write [where i = i]) (auto simp: abs_at intro: spec_step.dropped)

lemma spec_not_configured: "spec_step\<^sup>=\<^sup>= (review_abs w) (review_abs (not_configured i w))"
  unfolding not_configured_def
  by (rule spec_write [where i = i]) (auto simp: abs_at intro: spec_step.dropped)

lemma spec_fail_queue: "spec_step\<^sup>=\<^sup>= (review_abs w) (review_abs (fail_queue i w))"
  unfolding fail_queue_def
  by (rule spec_write [where i = i]) (auto simp: abs_at intro: spec_step.dropped)

lemma spec_claim_queued: "spec_step\<^sup>=\<^sup>= (review_abs w) (review_abs (snd (claim_queued ctx w)))"
  unfolding claim_queued_def
  by (rule spec_write [where i = "gq_scanId ctx"]) (auto simp: not_in_flight_def view_in_flight abs_at intro: spec_step.queued)

lemma spec_setStatus:
  assumes "view_of (Some st) \<noteq> Reviewed"
  shows "spec_step\<^sup>=\<^sup>= (review_abs w) (review_abs (setStatus i st w))"
  unfolding setStatus_def
proof (rule spec_write [where i = i])
  fix c
  assume c: "columns_of w i = Some c" "not_in_flight i c"
  from c have "view_of (ax_status c) \<noteq> Waiting" "view_of (ax_status c) \<noteq> Running"
    by (simp_all add: not_in_flight_def view_in_flight)
  with c(1) assms show "spec_step (review_abs w)
      ((review_abs w)(i \<mapsto> (view_of (ax_status (c\<lparr>ax_status := Some st\<rparr>)), has_summary w i)))"
    by (cases "view_of (Some st)") (auto simp: abs_at intro: spec_step.dropped spec_step.queued spec_step.inherited)
qed simp

lemma spec_tokens:
  assumes "\<forall>c. ax_status (g c) = ax_status c \<and> ax_scanId (g c) = ax_scanId c"
  shows "review_abs (snd (write_columns (\<lambda>c. ax_scanId c = i) g w)) = review_abs w"
proof -
  let ?w' = "snd (write_columns (\<lambda>c. ax_scanId c = i) g w)"
  have s: "has_summary ?w' k = has_summary w k" for k by (simp add: has_summary_def)
  have "one_row i (\<lambda>c. ax_scanId c = i) g" using assms by simp
  then have "review_abs ?w' = (case columns_of w i of
      Some c \<Rightarrow> if ax_scanId c = i then (review_abs w)(i \<mapsto> (view_of (ax_status c), has_summary w i)) else review_abs w
    | None \<Rightarrow> review_abs w)"
    by (subst abs_write [where i = i, OF _ write_columns_simps(1)]) (auto simp: s assms split: option.split)
  then show ?thesis by (auto simp: abs_at fun_upd_idem split: option.split)
qed

lemma abs_same: "ad_columns (aw_db w') = ad_columns (aw_db w) \<Longrightarrow> ad_summaries (aw_db w') = ad_summaries (aw_db w) \<Longrightarrow>
    review_abs w' = review_abs w"
  by (auto simp: review_abs_def columns_of_def has_summary_def)

lemma abs_usage: "review_abs (recordUsage now org u w) = review_abs w"
  by (rule abs_same) (simp_all add: recordUsage_def Let_def)

lemma abs_call_error: "review_abs (after_call_error env i org e w) = review_abs w"
proof -
  have r: "review_abs (recordFailedUsage now i org u w') = review_abs w'" for now u w'
    unfolding recordFailedUsage_def by (subst spec_tokens) (simp_all add: abs_usage)
  have k: "review_abs (keepRawResponse i w') = review_abs w'" for w'
    unfolding keepRawResponse_def by (rule spec_tokens) simp
  show ?thesis by (simp add: after_call_error_def Let_def r k split: option.split)
qed

text \<open>A stored result.\<close>

lemma columns_of_in:
  assumes "distinct (map ax_scanId (ad_columns (aw_db w)))" "c \<in> set (ad_columns (aw_db w))"
  shows "columns_of w (ax_scanId c) = Some c"
proof -
  have "List.find (\<lambda>d. ax_scanId d = ax_scanId c) cs = Some c" if "distinct (map ax_scanId cs)" "c \<in> set cs" for cs
    using that by (induction cs) (auto simp: image_iff)
  with assms show ?thesis by (simp add: columns_of_def)
qed

lemma new_summary_id: "as_scanId (new_summary scan res counts) = sa_id scan" by (simp add: new_summary_def)

lemma same_db: "w\<lparr>aw_db := aw_db w\<rparr> = w" by simp

lemma spec_store:
  assumes "view_of (Some (ar_status res)) = Reviewed" "\<And>st. cond st \<Longrightarrow> view_of st \<noteq> Waiting"
    "persistAiResult uuid scan res cond (aw_db w) = (r, db)" "distinct (map ax_scanId (ad_columns (aw_db w)))"
  shows "spec_step\<^sup>=\<^sup>= (review_abs w) (review_abs (w\<lparr>aw_db := db\<rparr>))"
proof (cases rule: persist_cases [of "aw_db w" scan cond uuid res])
  case refused
  have "db = aw_db w" using refused(2) unfolding assms(3) by simp
  then have "w\<lparr>aw_db := db\<rparr> = w" by (simp only: same_db)
  then show ?thesis by (simp only:) simp
next
  case (written rows merge db')
  let ?i = "sa_id scan" and ?p = "\<lambda>c. ax_scanId c = sa_id scan \<and> cond (ax_status c)" and ?w' = "w\<lparr>aw_db := db\<rparr>"
  from written(7) assms(3) have db: "db' = db" by simp
  define s where "s = new_summary scan res (scan_counts_of (lifecycle_db.truncate db) ?i)"
  have "as_scanId s = ?i" by (simp only: s_def new_summary_id)
  moreover have "ad_summaries db = filter (\<lambda>s. as_scanId s \<noteq> ?i) (ad_summaries (aw_db w)) @ [s]"
    using written(6) unfolding db s_def .
  ultimately have h: "has_summary ?w' ?i" "\<And>k. k \<noteq> ?i \<Longrightarrow> has_summary ?w' k = has_summary w k"
    by (auto simp: has_summary_def)
  have o: "one_row ?i ?p (set_columns scan res)" by (auto simp: one_row_def set_columns_def)
  have cols: "ad_columns (aw_db ?w') = map (\<lambda>c. if ?p c then set_columns scan res c else c) (ad_columns (aw_db w))"
    using written(4) [unfolded db] by simp
  from written(1) obtain c where c: "c \<in> set (ad_columns (aw_db w))" "?p c" by blast
  from columns_of_in [OF assms(4) c(1)] c(2) have f: "columns_of w ?i = Some c" by simp
  have "review_abs ?w' = (review_abs w)(?i \<mapsto> (Reviewed, True))"
    using abs_write_at [OF o cols h(2) f c(2)] h(1) assms(1) by (simp add: set_columns_def)
  moreover from f c(2) assms(2) have "spec_step (review_abs w) \<dots>" by (auto simp: abs_at intro: spec_step.published)
  ultimately show ?thesis by simp
qed

subsection \<open>Every execution is one of the abstract reviews\<close>

text \<open>The rows of the tables keep their keys.\<close>

definition ai_tables :: "ai_world \<Rightarrow> bool" where
  "ai_tables w \<longleftrightarrow> distinct (map ax_scanId (ad_columns (aw_db w))) \<and> distinct (map as_scanId (ad_summaries (aw_db w)))"

fun thread_ok :: "ai_thread \<Rightarrow> bool" where
  "thread_ok (GateCall req (GateSettle i st)) \<longleftrightarrow> view_of (Some st) \<noteq> Reviewed"
| "thread_ok (GateCall req (GateCopy ctx res)) \<longleftrightarrow> ar_status res = AiCached"
| "thread_ok t \<longleftrightarrow> True"

lemma tables_write:
  assumes "ai_tables w" "\<And>c. ax_scanId (g c) = ax_scanId c"
  shows "ai_tables (snd (write_columns p g w))"
proof -
  have "map ax_scanId (map (\<lambda>c. if p c then g c else c) cs) = map ax_scanId cs" for cs using assms(2) by simp
  with assms(1) show ?thesis by (simp add: ai_tables_def del: map_map)
qed

lemma tables_same: "ad_columns (aw_db w') = ad_columns (aw_db w) \<Longrightarrow> ad_summaries (aw_db w') = ad_summaries (aw_db w) \<Longrightarrow>
    ai_tables w \<Longrightarrow> ai_tables w'"
  by (simp add: ai_tables_def)

lemma tables_ops:
  assumes "ai_tables w"
  shows "ai_tables (snd (claim_review now i w))" "ai_tables (snd (fail_review i code w))" "ai_tables (not_configured i w)"
    "ai_tables (fail_queue i w)" "ai_tables (snd (claim_queued ctx w))" "ai_tables (setStatus i st w)"
    "ai_tables (recordUsage now org u w)" "ai_tables (keepRawResponse i w)"
  using assms by (auto simp: claim_review_def fail_review_def not_configured_def fail_queue_def claim_queued_def
      setStatus_def keepRawResponse_def recordUsage_def Let_def intro!: tables_write intro: tables_same)

lemma tables_call_error: "ai_tables w \<Longrightarrow> ai_tables (after_call_error env i org e w)"
  by (auto simp: after_call_error_def Let_def recordFailedUsage_def split: option.split
      intro!: tables_ops(8) tables_write tables_ops(7))

lemma distinct_replaced:
  assumes "distinct (map f xs)" "f y = k"
  shows "distinct (map f (filter (\<lambda>x. f x \<noteq> k) xs @ [y]))"
  using assms by (auto simp: distinct_map_filter)

lemma tables_store:
  assumes "ai_tables w" "persistAiResult uuid scan res cond (aw_db w) = (r, db)"
  shows "ai_tables (w\<lparr>aw_db := db\<rparr>)"
proof (cases rule: persist_cases [of "aw_db w" scan cond uuid res])
  case refused
  have "db = aw_db w" using refused(2) unfolding assms(2) by simp
  with assms(1) show ?thesis by (simp only: same_db)
next
  case (written rows merge db')
  with assms(2) have db: "db' = db" by simp
  have "map ax_scanId (ad_columns db) = map ax_scanId (ad_columns (aw_db w))"
    unfolding written(4) [unfolded db] by (simp add: set_columns_def)
  moreover have "distinct (map as_scanId (ad_summaries db))"
    using assms(1) by (subst written(6) [unfolded db]) (intro distinct_replaced, simp_all add: ai_tables_def new_summary_id)
  ultimately show ?thesis using assms(1) by (simp add: ai_tables_def)
qed

text \<open>The copy of a base's summary.\<close>

lemma copy_base_parts:
  assumes "columns_of w (gq_scanId ctx) = Some c" "not_in_flight (gq_scanId ctx) c"
  shows "\<exists>s. as_scanId s = gq_scanId ctx \<and> ad_summaries (aw_db (copySummaryFromBase ctx base summary w)) =
    filter (\<lambda>s. as_scanId s \<noteq> gq_scanId ctx) (ad_summaries (aw_db w)) @ [s]"
proof -
  have "\<exists>c \<in> set (ad_columns (aw_db w)). not_in_flight (gq_scanId ctx) c" using assms columns_of_id by blast
  then have "length (filter (not_in_flight (gq_scanId ctx)) (ad_columns (aw_db w))) \<noteq> 0" by (auto simp: filter_empty_conv)
  then show ?thesis by (simp add: copySummaryFromBase_def case_prod_beta Let_def)
qed

lemma copy_base_columns:
  "\<exists>g. (\<forall>c. ax_scanId (g c) = ax_scanId c \<and> ax_status (g c) = Some AiCached) \<and>
    ad_columns (aw_db (copySummaryFromBase ctx base summary w)) =
      map (\<lambda>c. if not_in_flight (gq_scanId ctx) c then g c else c) (ad_columns (aw_db w))"
  by (rule exI [of _ "\<lambda>c. c\<lparr>ax_status := Some AiCached, ax_cached := True,
           ax_provider := ax_provider base, ax_model := ax_model base, ax_promptVersion := ax_promptVersion base,
           ax_locale := ax_locale base, ax_tokensIn := None, ax_tokensOut := None\<rparr>"])
    (simp add: copySummaryFromBase_def case_prod_beta Let_def)

lemma copy_base_none:
  "\<not> (\<exists>c \<in> set (ad_columns (aw_db w)). not_in_flight (gq_scanId ctx) c) \<Longrightarrow>
    review_abs (copySummaryFromBase ctx base summary w) = review_abs w \<and>
    ad_columns (aw_db (copySummaryFromBase ctx base summary w)) = ad_columns (aw_db w) \<and>
    ad_summaries (aw_db (copySummaryFromBase ctx base summary w)) = ad_summaries (aw_db w)"
proof -
  assume a: "\<not> (\<exists>c \<in> set (ad_columns (aw_db w)). not_in_flight (gq_scanId ctx) c)"
  let ?w' = "copySummaryFromBase ctx base summary w"
  have n: "filter (not_in_flight (gq_scanId ctx)) (ad_columns (aw_db w)) = []" using a by (auto simp: filter_empty_conv)
  obtain g where "ad_columns (aw_db ?w') = map (\<lambda>c. if not_in_flight (gq_scanId ctx) c then g c else c) (ad_columns (aw_db w))"
    using copy_base_columns [of ctx base summary w] by blast
  with a have c: "ad_columns (aw_db ?w') = ad_columns (aw_db w)" by (simp add: map_idI)
  moreover have s: "ad_summaries (aw_db ?w') = ad_summaries (aw_db w)"
    using n by (simp add: copySummaryFromBase_def case_prod_beta Let_def)
  ultimately show ?thesis using abs_same by blast
qed

lemma copy_base_ok:
  assumes "ai_tables w"
  shows "spec_step\<^sup>=\<^sup>= (review_abs w) (review_abs (copySummaryFromBase ctx base summary w)) \<and>
    ai_tables (copySummaryFromBase ctx base summary w)"
proof (cases "\<exists>c \<in> set (ad_columns (aw_db w)). not_in_flight (gq_scanId ctx) c")
  case True
  let ?i = "gq_scanId ctx" and ?w' = "copySummaryFromBase ctx base summary w"
  from True obtain c where c: "c \<in> set (ad_columns (aw_db w))" "not_in_flight ?i c" by blast
  with assms columns_of_in [of w c] have f: "columns_of w ?i = Some c" by (simp add: ai_tables_def not_in_flight_def)
  obtain s where s: "as_scanId s = ?i" "ad_summaries (aw_db ?w') = filter (\<lambda>s. as_scanId s \<noteq> ?i) (ad_summaries (aw_db w)) @ [s]"
    using copy_base_parts [OF f c(2)] by blast
  obtain g where g: "\<forall>c. ax_scanId (g c) = ax_scanId c \<and> ax_status (g c) = Some AiCached"
    "ad_columns (aw_db ?w') = map (\<lambda>c. if not_in_flight ?i c then g c else c) (ad_columns (aw_db w))"
    using copy_base_columns [of ctx base summary w] by blast
  have h: "has_summary ?w' ?i" "\<And>k. k \<noteq> ?i \<Longrightarrow> has_summary ?w' k = has_summary w k"
    using s by (auto simp: has_summary_def)
  have "one_row ?i (not_in_flight ?i) g" using g(1) by simp
  then have "review_abs ?w' = (review_abs w)(?i \<mapsto> (Reviewed, True))"
    using abs_write_at [OF _ g(2) h(2) f c(2)] h(1) g(1) by simp
  moreover have "spec_step (review_abs w) \<dots>"
    using f c(2) by (auto simp: abs_at not_in_flight_def view_in_flight intro: spec_step.published)
  moreover have "map ax_scanId (ad_columns (aw_db ?w')) = map ax_scanId (ad_columns (aw_db w))"
    using g by simp
  moreover have "distinct (map as_scanId (ad_summaries (aw_db ?w')))"
    unfolding s(2) using assms s(1) by (intro distinct_replaced) (simp_all add: ai_tables_def)
  ultimately show ?thesis using assms by (simp add: ai_tables_def)
next
  case False
  from copy_base_none [OF False, of base summary] assms show ?thesis by (simp add: ai_tables_def)
qed

lemma summary_of_None: "summary_of w i = None \<longleftrightarrow> \<not> has_summary w i"
  by (auto simp: summary_of_def has_summary_def find_None_iff)

lemma check_size_ok: "thread_ok (GateCall req (check_size env ctx))"
  by (simp add: check_size_def)

lemma resolved_ok: "(\<And>st. conf = ConfigBlocked st \<Longrightarrow> view_of (Some st) \<noteq> Reviewed) \<Longrightarrow> thread_ok (GateCall req (resolved env ctx conf))"
  by (cases conf) (auto simp: resolved_def after_configuration_def Let_def check_size_ok)

lemma configuration_blocks: "configuration_with org p c = ConfigBlocked st \<Longrightarrow> view_of (Some st) \<noteq> Reviewed"
  by (auto simp: configuration_with_def Let_def split: if_splits option.splits)

lemma read_base_ok:
  assumes "\<And>i b. review_abs w i = Some (Reviewed, b) \<Longrightarrow> b"
  shows "thread_ok (GateCall req (read_base env ctx w))"
proof -
  let ?b = "case gs_baseScanId (gc_scan ctx) of Some i \<Rightarrow> i | None \<Rightarrow> []"
  have "view_of (Some st) \<noteq> Reviewed" if "columns_of w ?b = Some cols" "summary_of w ?b = None" "ax_status cols = Some st" for cols st
    using assms [of ?b False] that by (auto simp: abs_at summary_of_None)
  then show ?thesis
    by (auto simp: read_base_def Let_def check_size_ok split: option.split)
qed

lemma read_phase_ok:
  "thread_ok (GateCall req' (read_scan env req w))" "thread_ok (GateCall req' (read_usage env ctx w))"
  "thread_ok (GateCall req' (read_cache env ctx merge w))" "thread_ok (GateCall req' (read_source ctx merge i w))"
  "thread_ok (GateCall req' (read_drafts env ctx merge source summary drafts w))"
proof -
  show "thread_ok (GateCall req' (read_scan env req w))"
    by (auto simp: read_scan_def Let_def intro!: resolved_ok split: option.split)
qed (auto simp: read_usage_def read_cache_def read_source_def read_drafts_def Let_def cached_result_def split: option.split sum.split prod.split)

lemma abs_add_job: "review_abs (add_ai_job env i merge w) = review_abs w" "ai_tables (add_ai_job env i merge w) \<longleftrightarrow> ai_tables w"
  by (auto simp: add_ai_job_def Let_def ai_tables_def intro: abs_same)

lemma gate_step_sim:
  assumes "gate_step env req w ph = (w', ph')" "ai_tables w" "thread_ok (GateCall req ph)"
    "\<And>i b. review_abs w i = Some (Reviewed, b) \<Longrightarrow> b"
  shows "spec_step\<^sup>=\<^sup>= (review_abs w) (review_abs w') \<and> ai_tables w' \<and> thread_ok (GateCall req ph')"
proof (cases ph)
  case (GateCredential ctx p)
  with assms(1,2) configuration_blocks show ?thesis by (auto intro!: resolved_ok)
next
  case (GateBase ctx)
  with assms(1,2) read_base_ok [OF assms(4)] show ?thesis by auto
next
  case (GateCopyBase ctx base summary)
  with assms(1) copy_base_ok [OF assms(2)] show ?thesis by auto
next
  case (GateCopy ctx res)
  obtain r db where p: "persistAiResult (ge_uuid env) (scan_for (gc_scan ctx)) res (\<lambda>st. \<not> ai_in_flight st) (aw_db w) = (r, db)"
    by fastforce
  from GateCopy assms(3) have "ar_status res = AiCached" by simp
  then have "spec_step\<^sup>=\<^sup>= (review_abs w) (review_abs (w\<lparr>aw_db := db\<rparr>))"
    using assms(2) by (intro spec_store [OF _ _ p]) (simp_all add: view_in_flight ai_tables_def)
  with GateCopy assms(1) p tables_store [OF assms(2) p] show ?thesis by (auto simp: copyFromCache_def)
next
  case (GateClaim ctx merge)
  with assms(1) spec_claim_queued [of w ctx] tables_ops(5) [OF assms(2), of ctx] show ?thesis
    by (auto simp: case_prod_beta Let_def)
next
  case (GateSettle i st)
  with assms(1,3) spec_setStatus [of st w i] tables_ops(6) [OF assms(2)] show ?thesis by auto
next
  case (GateFailAdd i)
  with assms(1) spec_fail_queue [of w i] tables_ops(4) [OF assms(2)] show ?thesis by auto
next
  case (GateAdd ctx merge)
  with assms(1,2) show ?thesis by (auto simp: abs_add_job split: if_splits)
qed (use assms read_phase_ok in auto)

lemma spec_created:
  assumes "i \<notin> ax_scanId ` set (ad_columns (aw_db w))" "i \<notin> as_scanId ` set (ad_summaries (aw_db w))"
    "w' = w\<lparr>aw_db := (aw_db w)\<lparr>ad_columns := ad_columns (aw_db w) @ [new_columns i]\<rparr>\<rparr>" "ai_tables w"
  shows "spec_step (review_abs w) (review_abs w') \<and> ai_tables w'"
proof -
  have f: "List.find (\<lambda>c. ax_scanId c = k) (cs @ [d]) = (case List.find (\<lambda>c. ax_scanId c = k) cs of Some c \<Rightarrow> Some c
      | None \<Rightarrow> if ax_scanId d = k then Some d else None)" for k cs d
    by (induction cs) auto
  have n: "columns_of w i = None" using assms(1) by (auto simp: columns_of_def find_None_iff)
  have s: "\<not> has_summary w i" using assms(2) by (auto simp: has_summary_def)
  have "review_abs w' = (review_abs w)(i \<mapsto> (NotReviewed, False))"
  proof
    fix k
    show "review_abs w' k = ((review_abs w)(i \<mapsto> (NotReviewed, False))) k"
      using n s by (cases "k = i") (auto simp: review_abs_def columns_of_def has_summary_def assms(3) f new_columns_def split: option.split)
  qed
  moreover have "spec_step (review_abs w) \<dots>" using n by (intro spec_step.created) (simp add: review_abs_def)
  moreover have "ai_tables w'" using assms(1,4) by (simp add: ai_tables_def assms(3) new_columns_def)
  ultimately show ?thesis by simp
qed

lemma ai_step_sim:
  assumes "ai_step (w, ts) (w', ts')" "ai_tables w" "\<forall>t \<in> set ts. thread_ok t"
    "\<And>i b. review_abs w i = Some (Reviewed, b) \<Longrightarrow> b"
  shows "spec_step\<^sup>=\<^sup>= (review_abs w) (review_abs w') \<and> ai_tables w' \<and> (\<forall>t \<in> set ts'. thread_ok t)"
  using assms(1)
proof cases
  case (gate env req ph ph' as bs)
  with assms(3) have "thread_ok (GateCall req ph)" by simp
  from gate_step_sim [OF gate(3) assms(2) this assms(4)] gate assms(3) show ?thesis by auto
next
  case (claim now i n as bs)
  with spec_claim_review [of w now i] tables_ops(1) [OF assms(2)] assms(3) show ?thesis by (metis (no_types) UnE Un_iff list.set_intros snd_conv set_append set_ConsD thread_ok.simps)
next
  case (answered res scan i as bs env)
  obtain r db where p: "persistAiResult (ge_uuid env) scan res (\<lambda>st. st = Some AiRunning) (aw_db w) = (r, db)" by fastforce
  have "spec_step\<^sup>=\<^sup>= (review_abs w) (review_abs (w\<lparr>aw_db := db\<rparr>))"
    using assms(2) answered by (intro spec_store [OF _ _ p]) (simp_all add: ai_tables_def)
  with answered p tables_store [OF assms(2) p] assms(3) show ?thesis by (auto simp: store_review_def)
next
  case (new_scan i)
  with spec_created [OF new_scan(3,4) new_scan(1) assms(2)] assms(3) show ?thesis by simp
next
  case outside
  with abs_same [OF outside(2,3)] tables_same [OF outside(2,3) assms(2)] assms(3) show ?thesis by simp
next
  case (jobs js)
  have "review_abs w' = review_abs w" "ai_tables w'" using jobs assms(2) by (auto simp: ai_tables_def intro: abs_same)
  with jobs assms(3) show ?thesis by simp
next
  case (skip now i as bs)
  with spec_claim_review [of w now i] tables_ops(1) [OF assms(2), of now i] assms(3) show ?thesis by auto
next
  case (unconfigured as i bs)
  with spec_not_configured [of w i] tables_ops(3) [OF assms(2), of i] assms(3) show ?thesis by auto
next
  case (call_error as i bs env org e)
  with abs_call_error tables_call_error [OF assms(2)] assms(3) show ?thesis by auto
next
  case (failed as i code bs)
  with spec_fail_review [of w i code] tables_ops(2) [OF assms(2), of i code] assms(3) show ?thesis by auto
next
  case (reap_one as s ss bs)
  with spec_fail_review [of w "if_id s" WORKER_LOST] tables_ops(2) [OF assms(2), of "if_id s" WORKER_LOST] assms(3)
  show ?thesis by auto
qed (use assms in auto)

lemma distinct_key_count: "distinct (map f xs) \<Longrightarrow> k \<in> f ` set xs \<Longrightarrow> length (filter (\<lambda>x. f x = k) xs) = 1"
  by (induction xs) (auto simp: filter_empty_conv image_iff)


end
