(* ===== verification/Ai_Admission.thy ===== *)
theory Ai_Admission
  imports Ai_Gate
begin

section \<open>Admission to the AI review, and its loss\<close>

text \<open>
  What a call of \<open>maybeEnqueue\<close> does when nothing interferes, which reviews the reaper fails, and
  two ways in which a review that was asked for never runs.
\<close>

subsection \<open>A call returns\<close>

fun gate_rank :: "gate_phase \<Rightarrow> nat" where
  "gate_rank GateScan = 12"
| "gate_rank (GateCredential ctx p) = 11"
| "gate_rank (GateBase ctx) = 10"
| "gate_rank (GateCopyBase ctx base summary) = 9"
| "gate_rank (GateUsage ctx) = 8"
| "gate_rank (GateCache ctx merge) = 7"
| "gate_rank (GateSource ctx merge i) = 6"
| "gate_rank (GateDrafts ctx merge source summary drafts) = 5"
| "gate_rank (GateCopy ctx res) = 4"
| "gate_rank (GateClaim ctx merge) = 3"
| "gate_rank (GateAdd ctx merge) = 2"
| "gate_rank (GateFailAdd i) = 1"
| "gate_rank (GateSettle i st) = 1"
| "gate_rank ph = 0"

lemma check_size_rank: "gate_rank (check_size env ctx) \<le> 8"
  by (simp add: check_size_def)

lemma resolved_rank: "gate_rank (resolved env ctx conf) \<le> 10"
  by (cases conf) (auto simp: resolved_def after_configuration_def Let_def intro: order.trans [OF check_size_rank])

lemma read_ranks:
  "gate_rank (read_scan env req w) \<le> 11" "gate_rank (read_base env ctx w) \<le> 9" "gate_rank (read_usage env ctx w) \<le> 7"
  "gate_rank (read_cache env ctx merge w) \<le> 6" "gate_rank (read_source ctx merge i w) \<le> 5"
  "gate_rank (read_drafts env ctx merge source summary drafts w) \<le> 4"
proof -
  have r: "gate_rank (resolved env ctx conf) \<le> 11" for ctx conf using resolved_rank [of env ctx conf] by simp
  show "gate_rank (read_scan env req w) \<le> 11" by (auto simp: read_scan_def Let_def r split: option.split)
  have c: "gate_rank (check_size env ctx) \<le> 9" using check_size_rank [of env ctx] by simp
  show "gate_rank (read_base env ctx w) \<le> 9" by (auto simp: read_base_def Let_def c split: option.split)
qed (auto simp: read_usage_def read_cache_def read_source_def read_drafts_def Let_def split: option.split sum.split prod.split)

lemma gate_step_rank: "gate_rank (snd (gate_step env req w ph)) \<le> gate_rank ph - 1"
proof (cases ph)
  case (GateCredential ctx p)
  then show ?thesis by (simp add: resolved_rank)
qed (use read_ranks in \<open>auto simp: case_prod_beta Let_def le_diff_conv\<close>)

lemma gate_run_rank: "gate_rank (snd s) \<le> n \<Longrightarrow> gate_rank (snd (gate_run n env req s)) = 0"
proof (induction n arbitrary: s)
  case (Suc n)
  from gate_step_rank [of env req "fst s" "snd s"] Suc.prems
  have "gate_rank (snd (gate_step env req (fst s) (snd s))) \<le> n" by linarith
  with Suc.IH show ?case by simp
qed simp

lemma rank_0: "gate_rank ph = 0 \<longleftrightarrow> ph = GateThrown \<or> (\<exists>r. ph = GateReturned r)"
  by (cases ph) simp_all

subsection \<open>Who is admitted\<close>

text \<open>What a scan must fulfil for its review to be queued, with the settings that are used.\<close>

definition configured :: "gate_request \<Rightarrow> ai_world \<Rightarrow> gate_ctx \<Rightarrow> bool" where
  "configured req w ctx \<longleftrightarrow> gq_scanId ctx = gq_scanId req \<and> gate_scan_of w (gq_scanId req) = Some (gc_scan ctx) \<and>
    columns_of w (gq_scanId req) = Some (gc_columns ctx) \<and> gs_status (gc_scan ctx) = ScanDone \<and>
    (\<exists>policy. al_get (aw_policies w) (gs_pullId (gc_scan ctx)) = Some policy \<and> policy \<noteq> ManualOnly) \<and>
    List.find (\<lambda>o'. oa_id o' = gs_organizationId (gc_scan ctx)) (aw_orgs w) = Some (gc_org ctx)"

definition admitted :: "gate_env \<Rightarrow> gate_request \<Rightarrow> ai_world \<Rightarrow> gate_ctx \<Rightarrow> bool" where
  "admitted env req w ctx \<longleftrightarrow> configured req w ctx \<and>
    resolveConfiguration w (gc_org ctx) = ConfigReady (gc_provider ctx) (gc_model ctx) \<and>
    diff_bytes (gc_scan ctx) \<le> ge_maxDiffBytes env \<and>
    usedTokensToday w (ge_now env) (gs_organizationId (gc_scan ctx)) + token_estimate (diff_bytes (gc_scan ctx))
      \<le> oa_aiDailyTokenBudget (gc_org ctx)"

text \<open>What a finished call may have changed.\<close>

definition gate_effect :: "gate_env \<Rightarrow> gate_request \<Rightarrow> ai_world \<Rightarrow> ai_world \<Rightarrow> bool" where
  "gate_effect env req w w' \<longleftrightarrow>
    (\<forall>k. k \<noteq> gq_scanId req \<longrightarrow> columns_of w' k = columns_of w k) \<and>
    (\<forall>c. columns_of w (gq_scanId req) = Some c \<and> ai_in_flight (ax_status c) \<longrightarrow>
      columns_of w' (gq_scanId req) = Some c \<and> aw_jobs w' = aw_jobs w) \<and>
    (aw_jobs w' \<noteq> aw_jobs w \<longrightarrow> (\<exists>ctx. admitted env req w ctx \<and>
      aw_jobs w' = aw_jobs w @ [\<lparr>aj_id = buildAiJobId (gq_scanId req) (ge_now env), aj_scanId = gq_scanId req,
        aj_mergePrevious = merge_previous ctx, aj_state = JobWaiting\<rparr>] \<and>
      columns_of w' (gq_scanId req) = Some ((gc_columns ctx)\<lparr>ax_status := Some AiQueued, ax_errorCode := None,
        ax_provider := Some (gc_provider ctx), ax_model := Some (gc_model ctx),
        ax_promptVersion := Some AI_PROMPT_VERSION, ax_locale := Some (oa_aiLocale (gc_org ctx))\<rparr>)))"

fun gate_inv :: "gate_env \<Rightarrow> gate_request \<Rightarrow> ai_world \<Rightarrow> ai_world \<Rightarrow> gate_phase \<Rightarrow> bool" where
  "gate_inv env req w0 w GateScan \<longleftrightarrow> w = w0"
| "gate_inv env req w0 w (GateCredential ctx p) \<longleftrightarrow> w = w0 \<and> configured req w0 ctx \<and> oa_aiProvider (gc_org ctx) = Some p"
| "gate_inv env req w0 w (GateBase ctx) \<longleftrightarrow> w = w0 \<and> configured req w0 ctx \<and>
    resolveConfiguration w0 (gc_org ctx) = ConfigReady (gc_provider ctx) (gc_model ctx)"
| "gate_inv env req w0 w (GateCopyBase ctx base summary) \<longleftrightarrow> w = w0 \<and> gq_scanId ctx = gq_scanId req"
| "gate_inv env req w0 w (GateUsage ctx) \<longleftrightarrow> w = w0 \<and> configured req w0 ctx \<and>
    resolveConfiguration w0 (gc_org ctx) = ConfigReady (gc_provider ctx) (gc_model ctx) \<and>
    diff_bytes (gc_scan ctx) \<le> ge_maxDiffBytes env"
| "gate_inv env req w0 w (GateCache ctx merge) \<longleftrightarrow> w = w0 \<and> admitted env req w0 ctx \<and> merge = merge_previous ctx"
| "gate_inv env req w0 w (GateSource ctx merge i) \<longleftrightarrow> w = w0 \<and> admitted env req w0 ctx \<and> merge = merge_previous ctx"
| "gate_inv env req w0 w (GateDrafts ctx merge source summary drafts) \<longleftrightarrow> w = w0 \<and> admitted env req w0 ctx \<and>
    merge = merge_previous ctx"
| "gate_inv env req w0 w (GateCopy ctx res) \<longleftrightarrow> w = w0 \<and> admitted env req w0 ctx \<and> ar_mergeWithPrevious res = merge_previous ctx"
| "gate_inv env req w0 w (GateClaim ctx merge) \<longleftrightarrow> w = w0 \<and> admitted env req w0 ctx \<and> merge = merge_previous ctx"
| "gate_inv env req w0 w (GateAdd ctx merge) \<longleftrightarrow> admitted env req w0 ctx \<and> merge = merge_previous ctx \<and>
    w = snd (claim_queued ctx w0) \<and> \<not> ai_in_flight (ax_status (gc_columns ctx))"
| "gate_inv env req w0 w (GateFailAdd i) \<longleftrightarrow> i = gq_scanId req \<and> (\<exists>ctx. admitted env req w0 ctx \<and>
    w = snd (claim_queued ctx w0) \<and> \<not> ai_in_flight (ax_status (gc_columns ctx)))"
| "gate_inv env req w0 w (GateSettle i st) \<longleftrightarrow> w = w0 \<and> i = gq_scanId req"
| "gate_inv env req w0 w (GateReturned r) \<longleftrightarrow> gate_effect env req w0 w"
| "gate_inv env req w0 w GateThrown \<longleftrightarrow> gate_effect env req w0 w"

lemma columns_of_write:
  assumes "one_row i p g"
  shows "columns_of (snd (write_columns p g w)) k = map_option (\<lambda>c. if p c then g c else c) (columns_of w k)"
  by (rule columns_of_map [OF assms write_columns_simps(1)])

lemma columns_of_other:
  assumes "one_row i p g" "k \<noteq> i"
  shows "columns_of (snd (write_columns p g w)) k = columns_of w k"
proof -
  have "\<not> p c" if "columns_of w k = Some c" for c using that assms columns_of_id by (auto simp: one_row_def)
  then show ?thesis unfolding columns_of_write [OF assms(1)] by (cases "columns_of w k") auto
qed

lemma claim_queued_columns:
  "columns_of (snd (claim_queued ctx w)) k = map_option (\<lambda>c. if not_in_flight (gq_scanId ctx) c
     then c\<lparr>ax_status := Some AiQueued, ax_errorCode := None, ax_provider := Some (gc_provider ctx),
       ax_model := Some (gc_model ctx), ax_promptVersion := Some AI_PROMPT_VERSION, ax_locale := Some (oa_aiLocale (gc_org ctx))\<rparr>
     else c) (columns_of w k)"
  unfolding claim_queued_def by (rule columns_of_write [where i = "gq_scanId ctx"]) simp

lemma effect_refl: "gate_effect env req w w"
  by (simp add: gate_effect_def)

text \<open>A write on the scan that spares a review in flight and leaves the queue alone.\<close>

lemma effect_guarded:
  assumes "ad_columns (aw_db w') = map (\<lambda>c. if p c then g c else c) (ad_columns (aw_db w))" "one_row (gq_scanId req) p g"
    "\<And>c. p c \<Longrightarrow> \<not> ai_in_flight (ax_status c)" "aw_jobs w' = aw_jobs w"
  shows "gate_effect env req w w'"
proof -
  note c = columns_of_map [OF assms(2,1)]
  have "columns_of w' k = columns_of w k" if "k \<noteq> gq_scanId req" for k
  proof -
    have "\<not> p c" if "columns_of w k = Some c" for c
      using that \<open>k \<noteq> gq_scanId req\<close> assms(2) columns_of_id by (auto simp: one_row_def)
    then show ?thesis unfolding c by (cases "columns_of w k") auto
  qed
  then show ?thesis using assms(3,4) unfolding gate_effect_def by (auto simp: c)
qed

lemma effect_setStatus: "gate_effect env req w (setStatus (gq_scanId req) st w)"
  unfolding setStatus_def
  by (rule effect_guarded [OF write_columns_simps(1)]) (auto simp: not_in_flight_def one_row_def)

lemma effect_copy_base:
  assumes "gq_scanId ctx = gq_scanId req"
  shows "gate_effect env req w (copySummaryFromBase ctx base summary w)"
proof -
  obtain g where g: "\<forall>c. ax_scanId (g c) = ax_scanId c \<and> ax_status (g c) = Some AiCached"
    "ad_columns (aw_db (copySummaryFromBase ctx base summary w)) =
      map (\<lambda>c. if not_in_flight (gq_scanId req) c then g c else c) (ad_columns (aw_db w))"
    using copy_base_columns [of ctx base summary w] assms by auto
  show ?thesis
    by (rule effect_guarded [OF g(2)]) (use g(1) in \<open>auto simp: not_in_flight_def one_row_def copySummaryFromBase_def case_prod_beta Let_def\<close>)
qed

lemma effect_copy_cache:
  assumes "copyFromCache env ctx res w = (copied, w')" "gs_id (gc_scan ctx) = gq_scanId req"
  shows "gate_effect env req w w'" "\<not> copied \<Longrightarrow> w' = w"
proof -
  obtain r db where p: "persistAiResult (ge_uuid env) (scan_for (gc_scan ctx)) res (\<lambda>st. \<not> ai_in_flight st) (aw_db w) = (r, db)"
    by fastforce
  with assms(1) have w: "w' = w\<lparr>aw_db := db\<rparr>" "copied \<longleftrightarrow> r \<noteq> None" by (auto simp: copyFromCache_def)
  have "gate_effect env req w w' \<and> (\<not> copied \<longrightarrow> w' = w)"
  proof (cases rule: persist_cases [of "aw_db w" "scan_for (gc_scan ctx)" "\<lambda>st. \<not> ai_in_flight st" "ge_uuid env" res])
    case refused
    have "db = aw_db w" using refused(2) unfolding p by simp
    then have "w' = w" by (simp only: w(1) same_db)
    then show ?thesis by (simp add: effect_refl)
  next
    case (written rows merge db')
    from written(7) p have d: "db' = db" "copied" using w(2) by simp_all
    have cols: "ad_columns (aw_db w') = map (\<lambda>c. if not_in_flight (gq_scanId req) c
        then set_columns (scan_for (gc_scan ctx)) res c else c) (ad_columns (aw_db w))"
      using written(4) unfolding d(1) by (simp add: w(1) not_in_flight_def scan_for_def assms(2))
    show ?thesis
      using d(2) by (simp, intro effect_guarded [OF cols]) (auto simp: not_in_flight_def one_row_def set_columns_def w(1))
  qed
  then show "gate_effect env req w w'" "\<not> copied \<Longrightarrow> w' = w" by simp_all
qed

lemma configured_columns: "configured req w ctx \<Longrightarrow> columns_of w (gq_scanId req) = Some (gc_columns ctx) \<and> gs_id (gc_scan ctx) = gq_scanId req"
  unfolding configured_def gate_scan_of_def by (auto dest: find_SomeD)

lemma effect_claimed:
  assumes "admitted env req w ctx" "\<not> ai_in_flight (ax_status (gc_columns ctx))" "w' = snd (claim_queued ctx w)"
  shows "gate_effect env req w w'" "gate_effect env req w (add_ai_job env (gq_scanId req) (merge_previous ctx) w')"
    "gate_effect env req w (fail_queue (gq_scanId req) w')"
proof -
  from assms(1) have c: "configured req w ctx" "gq_scanId ctx = gq_scanId req" by (simp_all add: admitted_def configured_def)
  note cols = configured_columns [OF c(1)]
  have other: "columns_of w' k = columns_of w k" if "k \<noteq> gq_scanId req" for k
    unfolding assms(3) claim_queued_def c(2) using that by (intro columns_of_other) simp_all
  have own: "columns_of w' (gq_scanId req) = Some ((gc_columns ctx)\<lparr>ax_status := Some AiQueued, ax_errorCode := None,
      ax_provider := Some (gc_provider ctx), ax_model := Some (gc_model ctx), ax_promptVersion := Some AI_PROMPT_VERSION,
      ax_locale := Some (oa_aiLocale (gc_org ctx))\<rparr>)"
    using cols assms(2) columns_of_id unfolding assms(3) claim_queued_columns by (simp add: not_in_flight_def c(2)) blast
  have jobs: "aw_jobs w' = aw_jobs w" by (simp add: assms(3) claim_queued_def)
  from other jobs cols assms(2) show "gate_effect env req w w'" by (simp add: gate_effect_def)
  have same: "columns_of (add_ai_job env i m w') k = columns_of w' k" for i m k
    by (simp add: add_ai_job_def Let_def columns_of_def)
  from other own jobs cols assms(1,2) show "gate_effect env req w (add_ai_job env (gq_scanId req) (merge_previous ctx) w')"
    unfolding gate_effect_def same by (auto simp: add_ai_job_def Let_def)
  have "columns_of (fail_queue (gq_scanId req) w') k = columns_of w k" if "k \<noteq> gq_scanId req" for k
    unfolding fail_queue_def using that by (subst columns_of_other) (simp_all add: other)
  with jobs cols assms(2) show "gate_effect env req w (fail_queue (gq_scanId req) w')"
    by (auto simp: gate_effect_def fail_queue_def)
qed

lemma check_size_inv:
  assumes "configured req w0 ctx" "resolveConfiguration w0 (gc_org ctx) = ConfigReady (gc_provider ctx) (gc_model ctx)"
  shows "gate_inv env req w0 w0 (check_size env ctx)"
  using assms by (auto simp: check_size_def configured_def)

lemma resolved_inv:
  assumes "configured req w0 ctx" "resolveConfiguration w0 (gc_org ctx) = conf"
  shows "gate_inv env req w0 w0 (resolved env ctx conf)"
proof (cases conf)
  case (ConfigReady provider model)
  let ?ctx = "ctx\<lparr>gc_provider := provider, gc_model := model\<rparr>"
  have c: "configured req w0 ?ctx" "resolveConfiguration w0 (gc_org ?ctx) = ConfigReady (gc_provider ?ctx) (gc_model ?ctx)"
    using assms ConfigReady by (auto simp: configured_def)
  with check_size_inv [OF c] show ?thesis by (simp add: ConfigReady resolved_def after_configuration_def Let_def)
qed (use assms in \<open>auto simp: resolved_def configured_def\<close>)

lemma read_scan_inv: "gate_inv env req w0 w0 (read_scan env req w0)"
proof -
  have "gate_inv env req w0 w0 (case oa_aiProvider org of None \<Rightarrow> resolved env ctx (ConfigBlocked AiNotConfigured)
      | Some p \<Rightarrow> GateCredential ctx p)" if "configured req w0 ctx" "gc_org ctx = org" for ctx org
    using that resolved_inv [OF that(1), of "ConfigBlocked AiNotConfigured"]
    by (simp add: resolveConfiguration_def split: option.split)
  then show ?thesis
    by (auto simp: read_scan_def Let_def effect_refl configured_def gate_request.defs gate_ctx.defs split: option.split)
qed

lemma read_base_inv:
  assumes "configured req w0 ctx" "resolveConfiguration w0 (gc_org ctx) = ConfigReady (gc_provider ctx) (gc_model ctx)"
  shows "gate_inv env req w0 w0 (read_base env ctx w0)"
  using assms check_size_inv [OF assms] by (auto simp: read_base_def Let_def configured_def split: option.split)

lemma read_usage_inv:
  assumes "configured req w0 ctx" "resolveConfiguration w0 (gc_org ctx) = ConfigReady (gc_provider ctx) (gc_model ctx)"
    "diff_bytes (gc_scan ctx) \<le> ge_maxDiffBytes env"
  shows "gate_inv env req w0 w0 (read_usage env ctx w0)"
  using assms by (auto simp: read_usage_def Let_def admitted_def configured_def)

lemma gate_step_inv:
  assumes "gate_inv env req w0 w ph" "gate_step env req w ph = (w', ph')" "ai_tables w0"
  shows "gate_inv env req w0 w' ph'"
proof (cases ph)
  case GateScan
  with assms read_scan_inv show ?thesis by auto
next
  case (GateCredential ctx p)
  with assms resolved_inv show ?thesis by (auto simp: resolveConfiguration_def)
next
  case (GateBase ctx)
  with assms read_base_inv show ?thesis by auto
next
  case (GateCopyBase ctx base summary)
  with assms effect_copy_base show ?thesis by auto
next
  case (GateUsage ctx)
  with assms read_usage_inv show ?thesis by auto
next
  case (GateCache ctx merge)
  with assms show ?thesis by (auto simp: read_cache_def split: option.splits)
next
  case (GateSource ctx merge i)
  with assms show ?thesis by (auto simp: read_source_def split: option.splits)
next
  case (GateDrafts ctx merge source summary drafts)
  with assms show ?thesis
    by (auto simp: read_drafts_def Let_def effect_refl cached_result_def split: sum.splits prod.splits)
next
  case (GateCopy ctx res)
  obtain copied w1 where c: "copyFromCache env ctx res w = (copied, w1)" by fastforce
  from GateCopy assms(1) have "w = w0" "gs_id (gc_scan ctx) = gq_scanId req" using configured_columns by (auto simp: admitted_def)
  with c GateCopy assms effect_copy_cache [OF c] show ?thesis by (auto split: if_splits)
next
  case (GateClaim ctx merge)
  with assms(1) have a: "w = w0" "admitted env req w0 ctx" "merge = merge_previous ctx" by simp_all
  then have c: "configured req w0 ctx" "gq_scanId ctx = gq_scanId req" by (simp_all add: admitted_def configured_def)
  note cols = configured_columns [OF c(1)]
  show ?thesis
  proof (cases "ai_in_flight (ax_status (gc_columns ctx))")
    case False
    have "gc_columns ctx \<in> set (ad_columns (aw_db w0))" "ax_scanId (gc_columns ctx) = gq_scanId req"
      using cols columns_of_id by blast+
    with False have "fst (claim_queued ctx w0) \<noteq> 0"
      by (auto simp: claim_queued_def not_in_flight_def c(2) filter_empty_conv)
    with a assms(2) GateClaim False show ?thesis by (auto simp: case_prod_beta Let_def)
  next
    case True
    have e: "gate_effect env req w0 (snd (claim_queued ctx w0))"
      unfolding claim_queued_def c(2) by (rule effect_guarded [OF write_columns_simps(1)]) (auto simp: one_row_def not_in_flight_def)
    have "\<not> not_in_flight (gq_scanId req) c" if "c \<in> set (ad_columns (aw_db w0))" for c
      using columns_of_in [OF _ that] assms(3) cols True by (auto simp: ai_tables_def not_in_flight_def)
    then have "fst (claim_queued ctx w0) = 0" by (simp add: claim_queued_def c(2))
    with e a assms(2) GateClaim show ?thesis by (auto simp: case_prod_beta Let_def)
  qed
next
  case (GateAdd ctx merge)
  with assms(1) have a: "admitted env req w0 ctx" "\<not> ai_in_flight (ax_status (gc_columns ctx))" "w = snd (claim_queued ctx w0)"
    "merge = merge_previous ctx" by simp_all
  then have i: "gq_scanId ctx = gq_scanId req" by (simp add: admitted_def configured_def)
  show ?thesis
  proof (cases "ge_queueUp env")
    case True
    with effect_claimed(2) [OF a(1-3)] a(4) i GateAdd assms(2) show ?thesis by auto
  next
    case False
    with a i GateAdd assms(2) have "w' = w" "ph' = GateFailAdd (gq_scanId req)" by simp_all
    with a(1-3) show ?thesis by auto
  qed
next
  case (GateFailAdd i)
  with assms effect_claimed(3) show ?thesis by auto
next
  case (GateSettle i st)
  with assms effect_setStatus show ?thesis by auto
qed (use assms in auto)

lemma gate_run_inv: "gate_inv env req w0 (fst s) (snd s) \<Longrightarrow> ai_tables w0 \<Longrightarrow>
    gate_inv env req w0 (fst (gate_run n env req s)) (snd (gate_run n env req s))"
proof (induction n arbitrary: s)
  case (Suc n)
  have "gate_inv env req w0 (fst (gate_step env req (fst s) (snd s))) (snd (gate_step env req (fst s) (snd s)))"
    by (rule gate_step_inv [OF Suc.prems(1) _ Suc.prems(2)]) simp
  with Suc show ?case by simp
qed simp

text \<open>C30: a call that runs alone returns, touches the AI columns of its own scan only, and leaves a
  review in flight as it is.  It puts a job in the queue only for a finished scan whose branch policy,
  provider, credential, model and consent, diff size and remaining daily budget all allow it; then it is
  one job, the scan is QUEUED and its columns name the provider, model, prompt and language it will
  run with.\<close>

theorem maybeEnqueue_admits:
  assumes "maybeEnqueue env req w = (w', ph)" "ai_tables w"
  shows "(ph = GateThrown \<or> (\<exists>st. ph = GateReturned st)) \<and>
    (\<forall>k. k \<noteq> gq_scanId req \<longrightarrow> columns_of w' k = columns_of w k) \<and>
    (\<forall>c. columns_of w (gq_scanId req) = Some c \<and> ai_in_flight (ax_status c) \<longrightarrow>
      columns_of w' (gq_scanId req) = Some c \<and> aw_jobs w' = aw_jobs w) \<and>
    (aw_jobs w' \<noteq> aw_jobs w \<longrightarrow> (\<exists>ctx. admitted env req w ctx \<and>
      aw_jobs w' = aw_jobs w @ [\<lparr>aj_id = buildAiJobId (gq_scanId req) (ge_now env), aj_scanId = gq_scanId req,
        aj_mergePrevious = merge_previous ctx, aj_state = JobWaiting\<rparr>] \<and>
      columns_of w' (gq_scanId req) = Some ((gc_columns ctx)\<lparr>ax_status := Some AiQueued, ax_errorCode := None,
        ax_provider := Some (gc_provider ctx), ax_model := Some (gc_model ctx),
        ax_promptVersion := Some AI_PROMPT_VERSION, ax_locale := Some (oa_aiLocale (gc_org ctx))\<rparr>)))"
proof -
  let ?r = "gate_run 12 env req (w, GateScan)"
  from assms(1) have r: "fst ?r = w'" "snd ?r = ph" by (simp_all add: maybeEnqueue_def)
  have "gate_rank ph = 0" using gate_run_rank [of "(w, GateScan)" 12 env req] r(2) by simp
  then have e: "ph = GateThrown \<or> (\<exists>st. ph = GateReturned st)" by (simp add: rank_0)
  from gate_run_inv [of env req w "(w, GateScan)" 12] assms(2) have "gate_inv env req w w' ph" by (simp only: r fst_conv snd_conv gate_inv.simps)
  with e have "gate_effect env req w w'" by auto
  with e show ?thesis unfolding gate_effect_def by blast
qed

subsection \<open>The reaper\<close>

text \<open>A review without a job, in flight for longer than the grace period.\<close>

definition lost :: "ai_world \<Rightarrow> int \<Rightarrow> ai_columns \<Rightarrow> bool" where
  "lost w now c \<longleftrightarrow> ax_scanId c \<notin> set (live_scan_ids w) \<and>
    (case (case ax_startedAt c of Some t \<Rightarrow> Some t
       | None \<Rightarrow> (case gate_scan_of w (ax_scanId c) of Some s \<Rightarrow> gs_finishedAt s | None \<Rightarrow> None)) of
      None \<Rightarrow> False | Some since \<Rightarrow> REAP_GRACE_MS < now - since)"

lemma orphans_of:
  "findOrphans (in_flight_scans w) (live_scan_ids w) now =
    map (\<lambda>c. \<lparr>if_id = ax_scanId c, if_aiStartedAt = ax_startedAt c,
      if_finishedAt = (case gate_scan_of w (ax_scanId c) of Some s \<Rightarrow> gs_finishedAt s | None \<Rightarrow> None)\<rparr>)
    (filter (lost w now) (take REAP_BATCH (filter (\<lambda>c. ai_in_flight (ax_status c)) (ad_columns (aw_db w)))))"
  by (simp add: findOrphans_def in_flight_scans_def take_map filter_map comp_def lost_def [abs_def] cong: option.case_cong)

definition failed_columns :: "jstr \<Rightarrow> ai_columns \<Rightarrow> ai_columns" where
  "failed_columns code c = c\<lparr>ax_status := Some AiFailed, ax_errorCode := Some code\<rparr>"

lemma reap_all_columns:
  assumes "distinct (map if_id ss)" "distinct (map ax_scanId (ad_columns (aw_db w)))"
    "\<forall>s \<in> set ss. \<exists>c \<in> set (ad_columns (aw_db w)). ax_scanId c = if_id s \<and> ai_in_flight (ax_status c)"
  shows "fst (reap_all ss w) = length ss \<and> ad_columns (aw_db (snd (reap_all ss w))) =
    map (\<lambda>c. if ax_scanId c \<in> if_id ` set ss then failed_columns WORKER_LOST c else c) (ad_columns (aw_db w))"
  using assms
proof (induction ss arbitrary: w)
  case (Cons s ss)
  let ?w = "snd (fail_review (if_id s) WORKER_LOST w)"
  have cols: "ad_columns (aw_db ?w) = map (\<lambda>c. if ax_scanId c = if_id s then failed_columns WORKER_LOST c else c) (ad_columns (aw_db w))"
  proof -
    have "in_flight_row (if_id s) c \<longleftrightarrow> ax_scanId c = if_id s" if "c \<in> set (ad_columns (aw_db w))" for c
    proof
      assume "ax_scanId c = if_id s"
      moreover obtain c' where "c' \<in> set (ad_columns (aw_db w))" "ax_scanId c' = if_id s" "ai_in_flight (ax_status c')"
        using Cons.prems(3) by auto
      ultimately have "c' = c" using columns_of_in [OF Cons.prems(2)] that by (metis option.inject)
      with \<open>ai_in_flight (ax_status c')\<close> \<open>ax_scanId c = if_id s\<close> show "in_flight_row (if_id s) c"
        by (simp add: in_flight_row_def)
    qed (simp add: in_flight_row_def)
    then show ?thesis by (simp add: fail_review_def failed_columns_def)
  qed
  have n: "fst (fail_review (if_id s) WORKER_LOST w) \<noteq> 0"
    using Cons.prems(3) by (auto simp: fail_review_def in_flight_row_def filter_empty_conv)
  have "map ax_scanId (ad_columns (aw_db ?w)) = map ax_scanId (ad_columns (aw_db w))"
    unfolding cols by (simp add: failed_columns_def)
  moreover have "\<forall>s' \<in> set ss. \<exists>c \<in> set (ad_columns (aw_db ?w)). ax_scanId c = if_id s' \<and> ai_in_flight (ax_status c)"
    using Cons.prems(1,3) unfolding cols by (force simp: image_iff)
  ultimately have ih: "fst (reap_all ss ?w) = length ss" "ad_columns (aw_db (snd (reap_all ss ?w))) =
      map (\<lambda>c. if ax_scanId c \<in> if_id ` set ss then failed_columns WORKER_LOST c else c) (ad_columns (aw_db ?w))"
    using Cons.IH [of ?w] Cons.prems(1,2) by simp_all
  have "ad_columns (aw_db (snd (reap_all (s # ss) w))) =
      map (\<lambda>c. if ax_scanId c \<in> if_id ` set (s # ss) then failed_columns WORKER_LOST c else c) (ad_columns (aw_db w))"
    using Cons.prems(1) ih(2) unfolding cols by (auto simp: case_prod_beta Let_def failed_columns_def)
  with n ih(1) show ?case by (simp add: case_prod_beta Let_def)
qed simp

lemma reap_columns:
  assumes "ai_tables w" "reap now w = (n, w')"
  shows "ad_columns (aw_db w') = map (\<lambda>c.
      if c \<in> set (take REAP_BATCH (filter (\<lambda>c. ai_in_flight (ax_status c)) (ad_columns (aw_db w)))) \<and> lost w now c
      then c\<lparr>ax_status := Some AiFailed, ax_errorCode := Some WORKER_LOST\<rparr> else c) (ad_columns (aw_db w)) \<and>
    n = length (filter (lost w now) (take REAP_BATCH (filter (\<lambda>c. ai_in_flight (ax_status c)) (ad_columns (aw_db w)))))"
proof -
  let ?fl = "take REAP_BATCH (filter (\<lambda>c. ai_in_flight (ax_status c)) (ad_columns (aw_db w)))"
  let ?o = "findOrphans (in_flight_scans w) (live_scan_ids w) now"
  have d: "distinct (map ax_scanId (ad_columns (aw_db w)))" using assms(1) by (simp add: ai_tables_def)
  then have "distinct (map ax_scanId (filter (lost w now) ?fl))"
    by (intro distinct_map_filter) (simp add: distinct_map_filter take_map [symmetric])
  then have o1: "distinct (map if_id ?o)" by (simp add: orphans_of comp_def)
  have sub: "set ?fl \<subseteq> {c \<in> set (ad_columns (aw_db w)). ai_in_flight (ax_status c)}"
    using set_take_subset by fastforce
  then have o2: "\<forall>s \<in> set ?o. \<exists>c \<in> set (ad_columns (aw_db w)). ax_scanId c = if_id s \<and> ai_in_flight (ax_status c)"
    by (auto simp: orphans_of)
  have "ax_scanId c \<in> if_id ` set ?o \<longleftrightarrow> c \<in> set ?fl \<and> lost w now c" if "c \<in> set (ad_columns (aw_db w))" for c
  proof -
    have "c' = c" if "c' \<in> set ?fl" "ax_scanId c' = ax_scanId c" for c'
      using that sub columns_of_in [OF d] \<open>c \<in> set (ad_columns (aw_db w))\<close> by (metis (no_types, lifting) mem_Collect_eq option.inject subsetD)
    then show ?thesis by (auto simp: orphans_of image_iff)
  qed
  with reap_all_columns [OF o1 d o2] assms(2) show ?thesis
    by (simp add: reap_def failed_columns_def orphans_of)
qed

text \<open>C32: a sweep fails exactly the reviews that are lost, with the code \<open>worker_lost\<close>: those in
  flight without a live job for longer than the grace period, among the first two hundred in flight.
  Every other review keeps its status, and the number returned is that of the reviews failed.\<close>

theorem reap_exact:
  assumes "ai_tables w" "reap now w = (n, w')"
  shows "ad_columns (aw_db w') = map (\<lambda>c.
      if c \<in> set (take REAP_BATCH (filter (\<lambda>c. ai_in_flight (ax_status c)) (ad_columns (aw_db w)))) \<and> lost w now c
      then c\<lparr>ax_status := Some AiFailed, ax_errorCode := Some WORKER_LOST\<rparr> else c) (ad_columns (aw_db w)) \<and>
    n = length (filter (lost w now) (take REAP_BATCH (filter (\<lambda>c. ai_in_flight (ax_status c)) (ad_columns (aw_db w)))))"
  by (rule reap_columns [OF assms])

subsection \<open>Reviews that never run\<close>

lemma find_map_key: "(\<And>x. k (f x) = k x) \<Longrightarrow> List.find (\<lambda>x. k x = i) (map f xs) = map_option f (List.find (\<lambda>x. k x = i) xs)"
  by (induction xs) auto

text \<open>A claim adds one review in flight at most.\<close>

lemma claimed_count:
  assumes "ai_tables w"
  shows "length (filter (\<lambda>c. ai_in_flight (ax_status c)) (ad_columns (aw_db (snd (claim_queued ctx w))))) \<le>
    Suc (length (filter (\<lambda>c. ai_in_flight (ax_status c)) (ad_columns (aw_db w))))"
proof -
  let ?i = "gq_scanId ctx"
  have "length (filter (\<lambda>c. ai_in_flight (ax_status c)) (map (\<lambda>c. if not_in_flight ?i c then g c else c) cs)) \<le>
      Suc (length (filter (\<lambda>c. ai_in_flight (ax_status c)) cs))" if "distinct (map ax_scanId cs)" for cs g
    using that
  proof (induction cs)
    case (Cons c cs)
    show ?case
    proof (cases "not_in_flight ?i c")
      case True
      then have "map (\<lambda>c. if not_in_flight ?i c then g c else c) cs = cs"
        using Cons.prems by (intro map_idI) (auto simp: not_in_flight_def image_iff)
      with True show ?thesis by simp
    qed (use Cons in auto)
  qed simp
  with assms show ?thesis by (simp add: claim_queued_def ai_tables_def)
qed

text \<open>A regenerate can be lost.  \<open>aiStartedAt\<close> still holds the start of the earlier run when
  the scan turns QUEUED, so the grace period of the reaper, there to cover the gap before the job is
  added, is over at once: a sweep in that gap fails the review, the job is added, the call answers QUEUED,
  and the job finds nothing to claim.\<close>

theorem regenerate_reaped:
  assumes "ai_tables w" "columns_of w i = Some c" "gq_scanId ctx = i" "gq_scanId req = i"
    "\<not> ai_in_flight (ax_status c)" "ax_startedAt c = Some t" "REAP_GRACE_MS < now - t"
    "i \<notin> set (live_scan_ids w)" "length (filter (\<lambda>c. ai_in_flight (ax_status c)) (ad_columns (aw_db w))) < REAP_BATCH"
    "ge_queueUp env" "gate_step env req w (GateClaim ctx merge) = (w1, ph)" "reap now w1 = (n, w2)"
    "gate_step env req w2 ph = (w3, ph')"
  shows "ph = GateAdd ctx merge \<and> ph' = GateReturned (Some AiQueued) \<and>
    (\<exists>c'. columns_of w3 i = Some c' \<and> ax_status c' = Some AiFailed \<and> ax_errorCode c' = Some WORKER_LOST) \<and>
    fst (claim_review now' i w3) = 0"
proof -
  let ?c1 = "c\<lparr>ax_status := Some AiQueued, ax_errorCode := None, ax_provider := Some (gc_provider ctx),
       ax_model := Some (gc_model ctx), ax_promptVersion := Some AI_PROMPT_VERSION, ax_locale := Some (oa_aiLocale (gc_org ctx))\<rparr>"
  note cin = columns_of_id [OF assms(2)]
  from cin assms(3,5) have "fst (claim_queued ctx w) \<noteq> 0"
    by (auto simp: claim_queued_def not_in_flight_def filter_empty_conv)
  with assms(11) have w1: "w1 = snd (claim_queued ctx w)" "ph = GateAdd ctx merge" by (auto simp: case_prod_beta Let_def)
  have c1: "columns_of w1 i = Some ?c1"
    using assms(2,3,5) cin by (simp add: w1(1) claim_queued_columns not_in_flight_def)
  have t1: "ai_tables w1" using tables_ops(5) [OF assms(1)] by (simp add: w1(1))
  have other: "aw_jobs w1 = aw_jobs w" "aw_scans w1 = aw_scans w" by (simp_all add: w1(1) claim_queued_def)
  have l: "lost w1 now ?c1" using cin assms(6,7,8) other by (simp add: lost_def live_scan_ids_def)
  have "length (filter (\<lambda>c. ai_in_flight (ax_status c)) (ad_columns (aw_db w1))) \<le> REAP_BATCH"
    using claimed_count [OF assms(1), of ctx] assms(9) by (simp add: w1(1))
  then have tk: "take REAP_BATCH (filter (\<lambda>c. ai_in_flight (ax_status c)) (ad_columns (aw_db w1))) =
      filter (\<lambda>c. ai_in_flight (ax_status c)) (ad_columns (aw_db w1))" by simp
  have c1in: "?c1 \<in> set (ad_columns (aw_db w1))" "ax_scanId ?c1 = i" using columns_of_id [OF c1] by simp_all
  define f where "f = (\<lambda>c. if c \<in> set (filter (\<lambda>c. ai_in_flight (ax_status c)) (ad_columns (aw_db w1))) \<and> lost w1 now c
      then c\<lparr>ax_status := Some AiFailed, ax_errorCode := Some WORKER_LOST\<rparr> else c)"
  have "ad_columns (aw_db w2) = map (\<lambda>c. if c \<in> set (filter (\<lambda>c. ai_in_flight (ax_status c)) (ad_columns (aw_db w1))) \<and> lost w1 now c
      then c\<lparr>ax_status := Some AiFailed, ax_errorCode := Some WORKER_LOST\<rparr> else c) (ad_columns (aw_db w1))"
    using reap_columns [OF t1 assms(12)] unfolding tk by blast
  then have m: "ad_columns (aw_db w2) = map f (ad_columns (aw_db w1))" unfolding f_def .
  have f2: "columns_of w2 i = map_option f (columns_of w1 i)"
    unfolding columns_of_def m by (rule find_map_key) (simp add: f_def)
  have fc: "f ?c1 = ?c1\<lparr>ax_status := Some AiFailed, ax_errorCode := Some WORKER_LOST\<rparr>"
    unfolding f_def using c1in(1) l by (simp add: ai_in_flight_def)
  have c2: "columns_of w2 i = Some (?c1\<lparr>ax_status := Some AiFailed, ax_errorCode := Some WORKER_LOST\<rparr>)"
    unfolding f2 c1 option.map fc ..
  have d2: "distinct (map ax_scanId (ad_columns (aw_db w2)))"
  proof -
    have "map ax_scanId (ad_columns (aw_db w2)) = map ax_scanId (ad_columns (aw_db w1))" unfolding m by (simp add: f_def)
    with t1 show ?thesis by (simp add: ai_tables_def)
  qed
  from assms(3,4,10,13) w1(2) have w3: "w3 = add_ai_job env i merge w2" "ph' = GateReturned (Some AiQueued)" by simp_all
  have db: "aw_db w3 = aw_db w2" by (simp add: w3(1) add_ai_job_def Let_def)
  with c2 have c3: "columns_of w3 i = Some (?c1\<lparr>ax_status := Some AiFailed, ax_errorCode := Some WORKER_LOST\<rparr>)"
    by (simp add: columns_of_def)
  have "\<not> in_flight_row i c'" if "c' \<in> set (ad_columns (aw_db w3))" for c'
    using columns_of_in [of w3 c'] that d2 c3 db by (auto simp: in_flight_row_def ai_in_flight_def)
  then have "fst (claim_review now' i w3) = 0" by (simp add: claim_review_def)
  with w1(2) w3(2) c3 show ?thesis by simp
qed

text \<open>A rescan of an unchanged commit can show a review in flight that nobody runs.  While the
  base scan has no summary and its own review is in flight, the call copies that status: it answers with
  it, the new scan is marked QUEUED or RUNNING, and no job is added for it.\<close>

theorem inherited_status_has_no_job:
  assumes "configured req w ctx" "resolveConfiguration w (gc_org ctx) = ConfigReady (gc_provider ctx) (gc_model ctx)"
    "gs_diffMode (gc_scan ctx) = DiffIncremental" "gs_baseScanId (gc_scan ctx) = Some b" "b \<noteq> []"
    "diff_bytes (gc_scan ctx) = 0" "gs_filesChanged (gc_scan ctx) = Some 0"
    "columns_of w b = Some base" "summary_of w b = None" "ax_status base = Some st" "ai_in_flight (Some st)"
    "\<not> ai_in_flight (ax_status (gc_columns ctx))" "maybeEnqueue env req w = (w', ph)"
  shows "ph = GateReturned (Some st) \<and> aw_jobs w' = aw_jobs w \<and>
    columns_of w' (gq_scanId req) = Some ((gc_columns ctx)\<lparr>ax_status := Some st\<rparr>)"
proof -
  have run: "gate_run 12 env req (w, GateScan) = (setStatus (gq_scanId req) st w, GateReturned (Some st))"
  proof -
    obtain p where p: "oa_aiProvider (gc_org ctx) = Some p"
      using assms(2) by (auto simp: resolveConfiguration_def split: option.splits)
    let ?ctx = "gate_request.extend req (gate_ctx.fields (gc_scan ctx) (gc_columns ctx) (gc_org ctx) [] [])"
    have s1: "read_scan env req w = GateCredential ?ctx p"
      using assms(1) p by (auto simp: read_scan_def configured_def Let_def)
    have s2: "configuration_with (gc_org ctx) p (findCredential w (oa_id (gc_org ctx)) p) = ConfigReady (gc_provider ctx) (gc_model ctx)"
      using assms(2) p by (simp add: resolveConfiguration_def)
    let ?ctx2 = "?ctx\<lparr>gc_provider := gc_provider ctx, gc_model := gc_model ctx\<rparr>"
    have sel: "gc_scan ?ctx2 = gc_scan ctx" "gq_scanId ?ctx2 = gq_scanId req" "gc_org ?ctx = gc_org ctx"
      by (simp_all add: gate_request.defs gate_ctx.defs)
    have s3: "resolved env ?ctx (ConfigReady (gc_provider ctx) (gc_model ctx)) = GateBase ?ctx2"
      using assms(3-7) sel by (simp add: resolved_def after_configuration_def truthy_def Let_def)
    have s4: "read_base env ?ctx2 w = GateSettle (gq_scanId req) st"
      using assms(4,8-10) sel by (simp add: read_base_def Let_def)
    have "gate_run 12 env req (w, GateScan) = gate_run 8 env req (gate_step env req (fst (w, GateSettle (gq_scanId req) st)) (GateSettle (gq_scanId req) st))"
      by (simp add: eval_nat_numeral s1 s2 s3 s4 sel)
    also have "\<dots> = (setStatus (gq_scanId req) st w, GateReturned (Some st))"
      by (simp add: eval_nat_numeral)
    finally show ?thesis .
  qed
  note cols = configured_columns [OF assms(1)]
  have "columns_of (setStatus (gq_scanId req) st w) (gq_scanId req) = Some ((gc_columns ctx)\<lparr>ax_status := Some st\<rparr>)"
    unfolding setStatus_def using cols columns_of_id assms(12)
    by (subst columns_of_write [where i = "gq_scanId req"]) (auto simp: not_in_flight_def)
  with run assms(13) show ?thesis by (auto simp: maybeEnqueue_def setStatus_def)
qed

subsection \<open>A sample\<close>

definition sample_env :: gate_env where
  "sample_env = \<lparr>ge_sha256 = (\<lambda>s. s), ge_sha1 = (\<lambda>s. s), ge_mm = (\<lambda>_ _. False), ge_uuid = (\<lambda>n. ''u'' @ show_nat n),
    ge_now = 1000000, ge_maxDiffBytes = 1000, ge_keepDeduped = False, ge_redisUp = False, ge_queueUp = True\<rparr>"

definition sample_gate_scan :: "jstr \<Rightarrow> gate_scan" where
  "sample_gate_scan i = \<lparr>gs_id = i, gs_organizationId = ''o1'', gs_repositoryId = ''r1'', gs_pullId = ''p1'',
    gs_status = ScanDone, gs_headSha = ''abc'', gs_prevHeadSha = None, gs_rulesetVersion = RULESET_VERSION,
    gs_diffMode = DiffFull, gs_baseScanId = None, gs_diffBytes = Some 700, gs_filesChanged = Some 3, gs_findingsCount = 0,
    gs_ruleTiers = ALL_RULE_TIERS, gs_finishedAt = Some 10\<rparr>"

definition sample_org :: organization_ai where
  "sample_org = \<lparr>oa_id = ''o1'', oa_aiProvider = Some ProviderAnthropic, oa_aiModel = None, oa_aiConsentAt = Some 1,
    oa_aiDailyTokenBudget = 200, oa_aiLocale = ''en''\<rparr>"

text \<open>Scan \<open>s1\<close> failed its first review; \<open>s2\<close> rescans the same commit while \<open>s3\<close> waits.\<close>

definition sample_world :: ai_world where
  "sample_world = \<lparr>aw_db = \<lparr>ld_findings = [], ld_scans = [],
      ad_columns = [(new_columns ''s1'')\<lparr>ax_status := Some AiFailed, ax_startedAt := Some 20\<rparr>, new_columns ''s2'',
        (new_columns ''s3'')\<lparr>ax_status := Some AiQueued\<rparr>],
      ad_summaries = []\<rparr>,
    aw_scans = [sample_gate_scan ''s1'', (sample_gate_scan ''s2'')\<lparr>gs_diffMode := DiffIncremental, gs_baseScanId := Some ''s3'',
      gs_diffBytes := Some 0, gs_filesChanged := Some 0\<rparr>, sample_gate_scan ''s3''],
    aw_policies = [(''p1'', AllowAi)], aw_orgs = [sample_org],
    aw_credentials = [\<lparr>cd_organizationId = ''o1'', cd_provider = ProviderAnthropic, cd_encryptedKey = Some ''k'', cd_baseUrl = None\<rparr>],
    aw_usage = [], aw_cache = [], aw_jobs = []\<rparr>"

definition sample_request :: "jstr \<Rightarrow> gate_request" where
  "sample_request i = \<lparr>gq_scanId = i, gq_force = False\<rparr>"

definition sample_ctx :: "jstr \<Rightarrow> gate_ctx" where
  "sample_ctx i = gate_request.extend (sample_request i)
    (gate_ctx.fields (case gate_scan_of sample_world i of Some s \<Rightarrow> s | None \<Rightarrow> sample_gate_scan i)
      (case columns_of sample_world i of Some c \<Rightarrow> c | None \<Rightarrow> new_columns i) sample_org ''anthropic'' ''claude-sonnet-5'')"

lemma reap_jobs: "aw_jobs (snd (reap_all ss w)) = aw_jobs w"
  by (induction ss arbitrary: w) (simp_all add: case_prod_beta Let_def fail_review_def)

lemma sample_tables: "ai_tables sample_world"
  by (simp add: ai_tables_def sample_world_def new_columns_def)

lemma sample_ctx_parts:
  "gq_scanId (sample_ctx i) = i" "gc_org (sample_ctx i) = sample_org" "gq_force (sample_ctx i) = False"
  "gc_scan (sample_ctx ''s1'') = sample_gate_scan ''s1''"
  "gc_columns (sample_ctx ''s1'') = (new_columns ''s1'')\<lparr>ax_status := Some AiFailed, ax_startedAt := Some 20\<rparr>"
  "(sample_ctx i)\<lparr>gc_provider := ''anthropic'', gc_model := ''claude-sonnet-5''\<rparr> = sample_ctx i"
  by (simp_all add: sample_ctx_def gate_request.defs gate_ctx.defs sample_request_def sample_world_def gate_scan_of_def
      sample_gate_scan_def columns_of_def new_columns_def)

lemma sample_gate_run:
  "maybeEnqueue sample_env (sample_request ''s1'') sample_world =
    (add_ai_job sample_env ''s1'' False (snd (claim_queued (sample_ctx ''s1'') sample_world)), GateReturned (Some AiQueued))"
proof -
  have r: "read_scan sample_env (sample_request ''s1'') sample_world = GateCredential ((sample_ctx ''s1'')\<lparr>gc_provider := [], gc_model := []\<rparr>) ProviderAnthropic"
    by (simp add: read_scan_def sample_world_def sample_request_def gate_scan_of_def columns_of_def sample_gate_scan_def sample_org_def
        sample_ctx_def gate_request.defs gate_ctx.defs new_columns_def)
  have c: "configuration_with (gc_org (sample_ctx ''s1'')) ProviderAnthropic
      (findCredential sample_world (oa_id (gc_org (sample_ctx ''s1''))) ProviderAnthropic) = ConfigReady ''anthropic'' ''claude-sonnet-5''"
    by code_simp
  have a: "resolved sample_env ((sample_ctx ''s1'')\<lparr>gc_provider := [], gc_model := []\<rparr>) (ConfigReady ''anthropic'' ''claude-sonnet-5'') =
      GateUsage (sample_ctx ''s1'')"
    by (simp add: resolved_def after_configuration_def check_size_def sample_env_def sample_ctx_parts sample_gate_scan_def
        diff_bytes_def Let_def)
  have m: "merge_previous (sample_ctx ''s1'') = False"
    by (simp add: merge_previous_def isComparableRun_def run_of_def sample_ctx_parts new_columns_def)
  have u: "read_usage sample_env (sample_ctx ''s1'') sample_world = GateCache (sample_ctx ''s1'') False"
    by (simp add: read_usage_def m usedTokensToday_def sample_ctx_parts)
      (simp add: sample_world_def sample_org_def sample_gate_scan_def diff_bytes_def token_estimate_def)
  have k: "read_cache sample_env (sample_ctx ''s1'') False w = GateClaim (sample_ctx ''s1'') False" for w
    by (simp add: read_cache_def sample_env_def)
  have q: "fst (claim_queued (sample_ctx ''s1'') sample_world) \<noteq> 0"
    by (simp add: claim_queued_def sample_ctx_parts)
      (simp add: sample_world_def new_columns_def ai_in_flight_def not_in_flight_def)
  have i: "gq_scanId (sample_ctx ''s1'') = ''s1''" "gq_scanId (sample_request ''s1'') = ''s1''" "ge_queueUp sample_env"
    by (simp_all add: sample_ctx_parts sample_request_def sample_env_def)
  show ?thesis
    unfolding maybeEnqueue_def using q
    by (simp add: eval_nat_numeral r c [simplified] a u k i case_prod_beta Let_def)
qed

lemma maybeEnqueue_admits_witness:
  "aw_jobs (fst (maybeEnqueue sample_env (sample_request ''s1'') sample_world)) \<noteq> [] \<and>
   (\<exists>ctx. admitted sample_env (sample_request ''s1'') sample_world ctx)"
proof -
  let ?r = "maybeEnqueue sample_env (sample_request ''s1'') sample_world"
  have "aw_jobs (fst ?r) \<noteq> []" "aw_jobs sample_world = []"
    by (simp_all add: sample_gate_run add_ai_job_def Let_def claim_queued_def) (simp_all add: sample_world_def)
  with maybeEnqueue_admits [OF prod.collapse [symmetric] sample_tables, of sample_env "sample_request ''s1''"]
  show ?thesis by metis
qed

lemma reap_exact_witness:
  "map ax_status (ad_columns (aw_db (snd (reap 1000000 sample_world)))) = [Some AiFailed, None, Some AiFailed] \<and>
   fst (reap 1000000 sample_world) = 1"
  using reap_exact [OF sample_tables prod.collapse [symmetric], of 1000000]
  by (simp add: sample_world_def new_columns_def lost_def live_scan_ids_def gate_scan_of_def sample_gate_scan_def
      REAP_BATCH_def REAP_GRACE_MS_def ai_in_flight_def)

lemma regenerate_reaped_witness:
  "(let w1 = snd (claim_queued (sample_ctx ''s1'') sample_world);
        w3 = add_ai_job sample_env ''s1'' False (snd (reap 1000000 w1))
    in map aj_scanId (aw_jobs w3) = [''s1''] \<and> map_option ax_status (columns_of w3 ''s1'') = Some (Some AiFailed) \<and>
      fst (claim_review 1000001 ''s1'' w3) = 0)"
proof -
  let ?w1 = "snd (claim_queued (sample_ctx ''s1'') sample_world)"
  let ?w2 = "snd (reap 1000000 ?w1)"
  let ?w3 = "add_ai_job sample_env ''s1'' False ?w2"
  have c: "columns_of sample_world ''s1'' = Some ((new_columns ''s1'')\<lparr>ax_status := Some AiFailed, ax_startedAt := Some 20\<rparr>)"
    by (simp add: columns_of_def sample_world_def new_columns_def)
  have q: "gq_scanId (sample_ctx ''s1'') = ''s1''" "gq_scanId (sample_request ''s1'') = ''s1''"
    by (simp_all add: sample_ctx_def sample_request_def gate_request.defs)
  have s1: "gate_step sample_env (sample_request ''s1'') sample_world (GateClaim (sample_ctx ''s1'') False) =
      (?w1, GateAdd (sample_ctx ''s1'') False)"
    by (simp add: case_prod_beta Let_def claim_queued_def not_in_flight_def q) (simp add: sample_world_def new_columns_def ai_in_flight_def not_in_flight_def)
  have s3: "gate_step sample_env (sample_request ''s1'') ?w2 (GateAdd (sample_ctx ''s1'') False) = (?w3, GateReturned (Some AiQueued))"
    by (simp add: q) (simp add: sample_env_def)
  have "length (filter (\<lambda>c. ai_in_flight (ax_status c)) (ad_columns (aw_db sample_world))) < REAP_BATCH"
    by (simp add: sample_world_def new_columns_def ai_in_flight_def REAP_BATCH_def)
  moreover have "''s1'' \<notin> set (live_scan_ids sample_world)" by (simp add: live_scan_ids_def sample_world_def)
  moreover have "ge_queueUp sample_env" by (simp add: sample_env_def)
  ultimately have "(\<exists>c'. columns_of ?w3 ''s1'' = Some c' \<and> ax_status c' = Some AiFailed \<and> ax_errorCode c' = Some WORKER_LOST) \<and>
      fst (claim_review 1000001 ''s1'' ?w3) = 0"
    using regenerate_reaped [where t = 20 and now = 1000000 and now' = 1000001, OF sample_tables c q _ _ _ _ _ _ s1 prod.collapse [symmetric] s3]
    by (simp add: ai_in_flight_def REAP_GRACE_MS_def)
  moreover have "map aj_scanId (aw_jobs ?w3) = [''s1'']"
  proof -
    have "aw_jobs ?w2 = []" by (simp add: reap_def reap_jobs claim_queued_def) (simp add: sample_world_def)
    then show ?thesis by (simp add: add_ai_job_def Let_def)
  qed
  ultimately show ?thesis by (auto simp: Let_def)
qed

lemma inherited_status_has_no_job_witness:
  "snd (maybeEnqueue sample_env (sample_request ''s2'') sample_world) = GateReturned (Some AiQueued) \<and>
   aw_jobs (fst (maybeEnqueue sample_env (sample_request ''s2'') sample_world)) = []"
proof -
  let ?ctx = "sample_ctx ''s2''"
  have ctx: "?ctx = gate_request.extend (sample_request ''s2'') (gate_ctx.fields ((sample_gate_scan ''s2'')\<lparr>gs_diffMode := DiffIncremental,
      gs_baseScanId := Some ''s3'', gs_diffBytes := Some 0, gs_filesChanged := Some 0\<rparr>) (new_columns ''s2'') sample_org
      ''anthropic'' ''claude-sonnet-5'')"
    by (simp add: sample_ctx_def gate_scan_of_def columns_of_def sample_world_def sample_gate_scan_def new_columns_def)
  have c: "configured (sample_request ''s2'') sample_world ?ctx"
    unfolding ctx by (simp add: configured_def gate_request.defs gate_ctx.defs sample_request_def gate_scan_of_def columns_of_def
        sample_world_def sample_gate_scan_def new_columns_def sample_org_def)
  have r: "resolveConfiguration sample_world (gc_org ?ctx) = ConfigReady (gc_provider ?ctx) (gc_model ?ctx)"
    by code_simp
  have "snd (maybeEnqueue sample_env (sample_request ''s2'') sample_world) = GateReturned (Some AiQueued) \<and>
      aw_jobs (fst (maybeEnqueue sample_env (sample_request ''s2'') sample_world)) = aw_jobs sample_world"
    using inherited_status_has_no_job [OF c r _ _ _ _ _ _ _ _ _ _ prod.collapse [symmetric],
        of "''s3''" "(new_columns ''s3'')\<lparr>ax_status := Some AiQueued\<rparr>" AiQueued sample_env]
    unfolding ctx by (simp add: gate_request.defs gate_ctx.defs sample_gate_scan_def diff_bytes_def columns_of_def
        sample_world_def new_columns_def summary_of_def ai_in_flight_def)
  then show ?thesis by (simp add: sample_world_def)
qed

text \<open>A new scan, then a call for it.\<close>

lemma gate_run_steps: "ai_steps (w, as @ GateCall req ph # bs)
    (fst (gate_run n env req (w, ph)), as @ GateCall req (snd (gate_run n env req (w, ph))) # bs)"
proof (induction n arbitrary: w ph)
  case (Suc n)
  obtain w1 ph1 where s: "gate_step env req w ph = (w1, ph1)" by fastforce
  from converse_rtranclp_into_rtranclp [where r = ai_step, OF ai_step.gate [OF s] Suc.IH [of w1 ph1]] s show ?case by simp
qed simp

definition no_scans :: ai_world where
  "no_scans = sample_world\<lparr>aw_db := \<lparr>ld_findings = [], ld_scans = [], ad_columns = [], ad_summaries = []\<rparr>\<rparr>"

definition one_scan :: ai_world where
  "one_scan = sample_world\<lparr>aw_db := \<lparr>ld_findings = [], ld_scans = [], ad_columns = [new_columns ''s1''], ad_summaries = []\<rparr>\<rparr>"


end
