(* ===== verification/Scan_Flow.thy ===== *)
theory Scan_Flow
  imports Scan_Queue
begin

section \<open>Scans, workers and requests running side by side\<close>

text \<open>
  The status of a scan is written by the requests of \<open>scan-queue.service.ts\<close> and by the
  workers of \<open>src/queue/scan.processor.ts\<close>, which run concurrently and several times for one
  job when BullMQ retries it or takes it for stalled.  A \<open>thread\<close> is one such run between two
  of its database operations, and \<open>flow_step\<close> lets any thread take its next one.  BullMQ
  itself is not under \<open>src/\<close>: the steps \<open>pick\<close>, \<open>promote\<close>, \<open>stalled\<close>,
  \<open>stalled_out\<close> and \<open>crash\<close> state what its documentation lets it do to a job.
  Whatever the processor computes between the claim and the last transaction can end in that
  transaction, in a retry or in a final failure.
\<close>

subsection \<open>The operations of the processor\<close>

definition set_status :: "scan_status \<Rightarrow> scan_row \<Rightarrow> scan_row" where
  "set_status st s = s\<lparr>sr_status := st\<rparr>"

definition claim_scan :: "jstr \<Rightarrow> world \<Rightarrow> nat \<times> world" where
  "claim_scan i = update_scans (\<lambda>s. sr_id s = i \<and> in_flight s) (set_status ScanRunning)"

text \<open>The base is no ancestor of the head any more: the scan turns full, whatever its status.\<close>

definition force_push :: "jstr \<Rightarrow> world \<Rightarrow> world" where
  "force_push i w = snd (update_scans (\<lambda>s. sr_id s = i)
    (\<lambda>s. s\<lparr>sr_mode := (sr_mode s)\<lparr>md_diffMode := DiffFull, md_fullReason := Some ForcePush, md_prevHeadSha := None\<rparr>\<rparr>) w)"

definition set_latest :: "jstr \<Rightarrow> jstr \<Rightarrow> world \<Rightarrow> world" where
  "set_latest pullId i w = w\<lparr>w_latest := (w_latest w)(pullId \<mapsto> i)\<rparr>"

text \<open>The last transaction of \<open>process\<close>; \<open>None\<close> when it wrote nothing.\<close>

definition persist_scan :: "jstr \<Rightarrow> jstr \<Rightarrow> world \<Rightarrow> world option" where
  "persist_scan pullId i w =
    (let (n, w') = update_scans (\<lambda>s. sr_id s = i \<and> sr_status s = ScanRunning)
        (\<lambda>s. s\<lparr>sr_status := ScanDone, sr_errorCode := None\<rparr>) w
     in if n = 0 then None
        else Some (set_latest pullId i (w'\<lparr>w_results := w_results w' @ [i]\<rparr>)))"

text \<open>The transaction of \<open>onFailed\<close> after the last attempt.\<close>

definition fail_scan :: "jstr \<Rightarrow> jstr \<Rightarrow> scan_error_code option \<Rightarrow> world \<Rightarrow> world option" where
  "fail_scan pullId i code w =
    (let (n, w') = update_scans (\<lambda>s. sr_id s = i \<and> in_flight s)
        (\<lambda>s. s\<lparr>sr_status := ScanFailed, sr_errorCode := code\<rparr>) w
     in if n = 0 then None else Some (set_latest pullId i w'))"

definition or_same :: "world option \<Rightarrow> world \<Rightarrow> world" where
  "or_same r w = (case r of None \<Rightarrow> w | Some w' \<Rightarrow> w')"

definition set_job :: "jstr \<Rightarrow> job_state \<Rightarrow> world \<Rightarrow> world" where
  "set_job i st w = (if al_get (w_jobs w) i = None then w else w\<lparr>w_jobs := al_set i st (w_jobs w)\<rparr>)"

subsection \<open>Threads\<close>

datatype scan_thread =
  Enqueue enqueue_ctx phase
| Cancel jstr cancel_phase
| Claim jstr
| Run jstr
| Failing jstr "scan_error_code option"

type_synonym flow = "world \<times> scan_thread list"

definition pull_of :: "world \<Rightarrow> jstr \<Rightarrow> jstr" where
  "pull_of w i = (case scan_of w i of Some s \<Rightarrow> sr_pullId s | None \<Rightarrow> [])"

text \<open>A worker step on the scan \<open>i\<close>; the payload of its job names the pull request.\<close>

inductive flow_step :: "bool \<Rightarrow> flow \<Rightarrow> flow \<Rightarrow> bool" for services_up :: bool where
  request: "flow_step services_up (w, ts) (w, ts @ [Enqueue (enqueue_call inp) PhLatest])"
| cancel_request: "flow_step services_up (w, ts) (w, ts @ [Cancel pullId CancelRead])"
| enqueue: "enqueue_step i up w ctx ph = (w', ctx', ph') \<Longrightarrow> i \<notin> sr_id ` set (w_scans w) \<Longrightarrow>
    (services_up \<Longrightarrow> up) \<Longrightarrow>
    flow_step services_up (w, as @ Enqueue ctx ph # bs) (w', as @ Enqueue ctx' ph' # bs)"
| cancel: "cancel_step up pullId w ph = (w', ph') \<Longrightarrow> (services_up \<Longrightarrow> up) \<Longrightarrow>
    flow_step services_up (w, as @ Cancel pullId ph # bs) (w', as @ Cancel pullId ph' # bs)"
| settings: "flow_step services_up (w, ts) (w\<lparr>w_orgs := orgs, w_pulls := pulls\<rparr>, ts)"
| pick: "al_get (w_jobs w) i = Some JobWaiting \<Longrightarrow>
    flow_step services_up (w, ts) (set_job i JobActive w, ts @ [Claim i])"
| claim: "claim_scan i w = (n, w') \<Longrightarrow> 0 < n \<Longrightarrow>
    flow_step services_up (w, as @ Claim i # bs) (w', as @ Run i # bs)"
| skip: "claim_scan i w = (0, w') \<Longrightarrow>
    flow_step services_up (w, as @ Claim i # bs) (set_job i JobEnded w', as @ bs)"
| force_pushed: "flow_step services_up (w, as @ Run i # bs) (force_push i w, as @ Run i # bs)"
| persist: "flow_step services_up (w, as @ Run i # bs)
    (set_job i JobEnded (or_same (persist_scan (pull_of w i) i w) w), as @ bs)"
| retry: "t \<in> {Claim i, Run i} \<Longrightarrow>
    flow_step services_up (w, as @ t # bs) (set_job i JobDelayed w, as @ bs)"
| give_up: "t \<in> {Claim i, Run i} \<Longrightarrow>
    flow_step services_up (w, as @ t # bs) (set_job i JobEnded w, as @ Failing i code # bs)"
| failed: "flow_step services_up (w, as @ Failing i code # bs)
    (or_same (fail_scan (pull_of w i) i code w) w, as @ bs)"
| promote: "al_get (w_jobs w) i \<in> {Some JobDelayed, Some JobPrioritized} \<Longrightarrow>
    flow_step services_up (w, ts) (set_job i JobWaiting w, ts)"
| stalled: "al_get (w_jobs w) i = Some JobActive \<Longrightarrow> flow_step services_up (w, ts) (set_job i JobWaiting w, ts)"
| stalled_out: "al_get (w_jobs w) i = Some JobActive \<Longrightarrow>
    flow_step services_up (w, ts) (set_job i JobEnded w, ts @ [Failing i None])"
| crash: "t \<in> {Claim i, Run i} \<Longrightarrow> flow_step services_up (w, as @ t # bs) (w, as @ bs)"

abbreviation flow_steps :: "bool \<Rightarrow> flow \<Rightarrow> flow \<Rightarrow> bool" where
  "flow_steps services_up \<equiv> (flow_step services_up)\<^sup>*\<^sup>*"

definition empty_world :: "(jstr \<Rightarrow> org_row option) \<Rightarrow> (jstr \<Rightarrow> pull_row option) \<Rightarrow> world" where
  "empty_world orgs pulls = \<lparr>w_scans = [], w_orgs = orgs, w_pulls = pulls, w_jobs = [], w_latest = (\<lambda>_. None),
    w_results = []\<rparr>"

definition reachable :: "bool \<Rightarrow> flow \<Rightarrow> bool" where
  "reachable services_up f \<longleftrightarrow> (\<exists>orgs pulls. flow_steps services_up (empty_world orgs pulls, []) f)"
subsection \<open>The invariant\<close>

text \<open>The scans whose job a request is about to add, and those a worker thread is on.\<close>

fun adds :: "scan_thread \<Rightarrow> jstr list" where
  "adds (Enqueue ctx (PhAdd j)) = [j]"
| "adds t = []"

fun works :: "scan_thread \<Rightarrow> jstr list" where
  "works (Claim i) = [i]"
| "works (Run i) = [i]"
| "works (Failing i code) = [i]"
| "works t = []"

definition adders :: "scan_thread list \<Rightarrow> jstr list" where
  "adders ts = concat (map adds ts)"

definition workers :: "scan_thread list \<Rightarrow> jstr list" where
  "workers ts = concat (map works ts)"

lemma adders_simps [simp]:
  "adders [] = []" "adders (t # ts) = adds t @ adders ts" "adders (ts @ us) = adders ts @ adders us"
  by (simp_all add: adders_def)

lemma workers_simps [simp]:
  "workers [] = []" "workers (t # ts) = works t @ workers ts" "workers (ts @ us) = workers ts @ workers us"
  by (simp_all add: workers_def)

definition settled :: "scan_row \<Rightarrow> bool" where
  "settled s \<longleftrightarrow> sr_status s = ScanDone \<or> sr_status s = ScanFailed"

definition done_ids :: "world \<Rightarrow> jstr set" where
  "done_ids w = sr_id ` {s \<in> set (w_scans w). sr_status s = ScanDone}"

definition table_inv :: "world \<Rightarrow> bool" where
  "table_inv w \<longleftrightarrow> distinct (map sr_id (w_scans w)) \<and> distinct (map scan_key (w_scans w)) \<and>
    distinct (w_results w) \<and> set (w_results w) = done_ids w \<and>
    (\<forall>p i. w_latest w p = Some i \<longrightarrow> (\<exists>s \<in> set (w_scans w). sr_id s = i \<and> sr_pullId s = p \<and> settled s)) \<and>
    fst ` set (w_jobs w) \<subseteq> sr_id ` set (w_scans w)"

definition thread_inv :: "world \<Rightarrow> scan_thread list \<Rightarrow> bool" where
  "thread_inv w ts \<longleftrightarrow> distinct (adders ts) \<and>
    (\<forall>j \<in> set (adders ts). al_get (w_jobs w) j = None \<and> j \<notin> set (workers ts) \<and>
      (\<exists>s \<in> set (w_scans w). sr_id s = j \<and> sr_status s \<in> {ScanQueued, ScanSuperseded})) \<and>
    set (workers ts) \<subseteq> sr_id ` set (w_scans w)"

definition flow_inv :: "flow \<Rightarrow> bool" where
  "flow_inv f \<longleftrightarrow> table_inv (fst f) \<and> thread_inv (fst f) (snd f)"

text \<open>The other fields of the world.\<close>

lemma update_scans_other [simp]:
  "w_jobs (snd (update_scans p g w)) = w_jobs w" "w_latest (snd (update_scans p g w)) = w_latest w"
  "w_results (snd (update_scans p g w)) = w_results w"
  "w_scans (snd (update_scans p g w)) = map (\<lambda>s. if p s then g s else s) (w_scans w)"
  by (simp_all add: update_scans_def)

lemma distinct_ids_eq:
  "distinct (map sr_id ss) \<Longrightarrow> s \<in> set ss \<Longrightarrow> t \<in> set ss \<Longrightarrow> sr_id s = sr_id t \<Longrightarrow> s = t"
  by (metis inj_on_def distinct_map)

text \<open>An update that gives scans which are neither done nor failed another status but done.\<close>

definition keeps_identity :: "(scan_row \<Rightarrow> bool) \<Rightarrow> (scan_row \<Rightarrow> scan_row) \<Rightarrow> bool" where
  "keeps_identity p g \<longleftrightarrow> (\<forall>s. p s \<longrightarrow> sr_id (g s) = sr_id s \<and> scan_key (g s) = scan_key s \<and> sr_pullId (g s) = sr_pullId s)"

lemma keeps_identity_maps:
  assumes "keeps_identity p g"
  shows "map sr_id (map (\<lambda>s. if p s then g s else s) ss) = map sr_id ss"
    "map scan_key (map (\<lambda>s. if p s then g s else s) ss) = map scan_key ss"
  using assms by (auto simp: keeps_identity_def)

lemma table_inv_update:
  assumes inv: "table_inv w" and keeps: "keeps_identity p g"
    and before: "\<And>s. s \<in> set (w_scans w) \<Longrightarrow> p s \<Longrightarrow> \<not> settled s"
    and after: "\<And>s. p s \<Longrightarrow> sr_status (g s) \<noteq> ScanDone"
  shows "table_inv (snd (update_scans p g w))"
proof -
  let ?w = "snd (update_scans p g w)"
  note m = keeps_identity_maps [OF keeps, of "w_scans w"]
  have dn: "done_ids ?w = done_ids w"
    using before after by (force simp: done_ids_def settled_def image_iff)
  have ids: "sr_id ` set (w_scans ?w) = sr_id ` set (w_scans w)"
    using arg_cong [OF m(1), of set] by (simp only: list.set_map update_scans_other)
  have lat: "\<exists>s \<in> set (w_scans ?w). sr_id s = i \<and> sr_pullId s = q \<and> settled s"
    if "\<exists>s \<in> set (w_scans w). sr_id s = i \<and> sr_pullId s = q \<and> settled s" for i q
    using that before by force
  show ?thesis
    unfolding table_inv_def
  proof (intro conjI allI impI)
    show "distinct (map sr_id (w_scans ?w))" "distinct (map scan_key (w_scans ?w))"
      using inv unfolding update_scans_other m by (simp_all add: table_inv_def)
    show "\<exists>s \<in> set (w_scans ?w). sr_id s = i \<and> sr_pullId s = q \<and> settled s" if "w_latest ?w q = Some i" for q i
      by (rule lat) (use inv that in \<open>simp add: table_inv_def\<close>)
    show "fst ` set (w_jobs ?w) \<subseteq> sr_id ` set (w_scans ?w)"
      using inv unfolding ids by (simp add: table_inv_def)
  qed (use inv dn in \<open>simp_all add: table_inv_def\<close>)
qed

lemma thread_inv_update:
  assumes inv: "thread_inv w ts" and keeps: "keeps_identity p g"
    and after: "\<And>s. p s \<Longrightarrow> sr_id s \<in> set (adders ts) \<Longrightarrow> sr_status (g s) \<in> {ScanQueued, ScanSuperseded}"
  shows "thread_inv (snd (update_scans p g w)) ts"
proof -
  let ?w = "snd (update_scans p g w)"
  have ids: "sr_id ` set (w_scans ?w) = sr_id ` set (w_scans w)"
    using arg_cong [OF keeps_identity_maps(1) [OF keeps, of "w_scans w"], of set]
    by (simp only: list.set_map update_scans_other)
  have st: "\<exists>s \<in> set (w_scans ?w). sr_id s = j \<and> sr_status s \<in> {ScanQueued, ScanSuperseded}"
    if j: "j \<in> set (adders ts)" for j
  proof -
    from inv j obtain s where s: "s \<in> set (w_scans w)" "sr_id s = j" "sr_status s \<in> {ScanQueued, ScanSuperseded}"
      by (auto simp: thread_inv_def)
    show ?thesis
    proof (cases "p s")
      case True
      with keeps s(2) have "sr_id (g s) = j" by (simp add: keeps_identity_def)
      with True after [of s] s j show ?thesis by (intro bexI [of _ "g s"]) auto
    next
      case False
      with s show ?thesis by (intro bexI [of _ s]) auto
    qed
  qed
  show ?thesis
    using inv st ids unfolding thread_inv_def by simp
qed

lemma identity_status [simp]:
  "keeps_identity p (set_status st)" "keeps_identity p (\<lambda>s. s\<lparr>sr_status := st\<rparr>)"
  "keeps_identity p (\<lambda>s. s\<lparr>sr_status := st, sr_errorCode := code\<rparr>)"
  "keeps_identity p (\<lambda>s. s\<lparr>sr_mode := f s\<rparr>)"
  by (simp_all add: keeps_identity_def set_status_def scan_key_def)

lemma in_flight_not_settled: "in_flight s \<Longrightarrow> \<not> settled s"
  by (auto simp: in_flight_def settled_def)

lemma table_inv_jobs:
  "table_inv w \<Longrightarrow> fst ` set jobs \<subseteq> sr_id ` set (w_scans w) \<Longrightarrow> table_inv (w\<lparr>w_jobs := jobs\<rparr>)"
  by (simp add: table_inv_def done_ids_def)

lemma thread_inv_jobs:
  "thread_inv w ts \<Longrightarrow> (\<And>j. j \<in> set (adders ts) \<Longrightarrow> al_get jobs j = None) \<Longrightarrow> thread_inv (w\<lparr>w_jobs := jobs\<rparr>) ts"
  by (simp add: thread_inv_def)

lemma al_keys_set_image: "fst ` set (al_set k v m) = insert k (fst ` set m)"
  using arg_cong [OF al_keys_set [of k v m], of set] by (auto split: if_splits)

lemma al_delete_subset: "set (al_delete k m) \<subseteq> set m"
  by (induction k m rule: al_delete.induct) auto

lemma al_get_delete_None: "al_get m j = None \<Longrightarrow> al_get (al_delete k m) j = None"
  using al_delete_subset [of k m] by (auto simp: al_get_None)

lemma table_inv_job_ids: "table_inv w \<Longrightarrow> fst ` set (w_jobs w) \<subseteq> sr_id ` set (w_scans w)"
  by (simp add: table_inv_def)

lemma thread_inv_adder: "thread_inv w ts \<Longrightarrow> j \<in> set (adders ts) \<Longrightarrow> al_get (w_jobs w) j = None"
  by (simp add: thread_inv_def)

lemma set_job_table [intro]: "table_inv w \<Longrightarrow> table_inv (set_job i st w)"
proof (cases "al_get (w_jobs w) i = None")
  case False
  assume inv: "table_inv w"
  from False have "i \<in> fst ` set (w_jobs w)" by (simp add: al_get_None)
  with table_inv_job_ids [OF inv] have "fst ` set (al_set i st (w_jobs w)) \<subseteq> sr_id ` set (w_scans w)"
    by (auto simp: al_keys_set_image)
  from table_inv_jobs [OF inv this] inv show ?thesis by (simp add: set_job_def)
qed (simp add: set_job_def)

lemma set_job_thread [intro]: "thread_inv w ts \<Longrightarrow> thread_inv (set_job i st w) ts"
proof -
  assume inv: "thread_inv w ts"
  have "al_get (al_set i st (w_jobs w)) j = None" if "al_get (w_jobs w) i \<noteq> None" "j \<in> set (adders ts)" for j
    using thread_inv_adder [OF inv that(2)] that(1) by auto
  with inv show ?thesis by (auto simp: set_job_def intro!: thread_inv_jobs)
qed

lemma remove_job_table [intro]: "table_inv w \<Longrightarrow> table_inv (remove_job i w)"
proof -
  assume inv: "table_inv w"
  have "fst ` set (al_delete i (w_jobs w)) \<subseteq> sr_id ` set (w_scans w)"
    using image_mono [OF al_delete_subset [of i "w_jobs w"], of fst] table_inv_job_ids [OF inv] by blast
  from table_inv_jobs [OF inv this] inv show ?thesis by (simp add: remove_job_def split: option.split)
qed

lemma remove_job_thread [intro]: "thread_inv w ts \<Longrightarrow> thread_inv (remove_job i w) ts"
  by (auto simp: remove_job_def dest: thread_inv_adder intro!: thread_inv_jobs al_get_delete_None split: option.split)

lemma supersede_inv:
  assumes "table_inv w"
  shows "table_inv (snd (supersede ids w))" "thread_inv w ts \<Longrightarrow> thread_inv (snd (supersede ids w)) ts"
  unfolding supersede_def
  by (rule table_inv_update [OF assms]; auto simp: in_flight_not_settled)
    (erule thread_inv_update; simp)

lemma cancel_step_inv:
  assumes "cancel_step up pullId w ph = (w', ph')" "table_inv w"
  shows "table_inv w'" "thread_inv w ts \<Longrightarrow> thread_inv w' ts"
proof -
  have cs: "w' = w \<or> (\<exists>j. w' = remove_job j w) \<or> (\<exists>ids. w' = snd (supersede ids w))"
    using assms(1)
    by (cases "(up, pullId, w, ph)" rule: cancel_step.cases) (auto simp: Let_def case_prod_beta split: if_splits)
  then show "table_inv w'" using assms(2) supersede_inv(1) by auto
  show "thread_inv w ts \<Longrightarrow> thread_inv w' ts" using cs assms(2) supersede_inv(2) by auto
qed

lemma violates_unique_fresh:
  "\<not> violates_unique w s \<Longrightarrow> distinct (map scan_key (w_scans w)) \<Longrightarrow> distinct (map scan_key (w_scans w @ [s]))"
  by (simp add: violates_unique_def)

lemma thread_inv_ids:
  "thread_inv w ts \<Longrightarrow> set (adders ts) \<union> set (workers ts) \<subseteq> sr_id ` set (w_scans w)"
  by (auto simp: thread_inv_def image_iff)

lemma create_inv:
  assumes inv: "flow_inv (w, as @ t # bs)" and t: "adds t = []" "works t = []" "adds t' = [i]" "works t' = []"
    and fresh: "i \<notin> sr_id ` set (w_scans w)" and s: "sr_id s = i" "sr_status s = ScanQueued" "\<not> violates_unique w s"
  shows "flow_inv (w\<lparr>w_scans := w_scans w @ [s]\<rparr>, as @ t' # bs)"
proof -
  let ?w = "w\<lparr>w_scans := w_scans w @ [s]\<rparr>"
  have tab: "table_inv w" and thr: "thread_inv w (as @ t # bs)" using inv by (simp_all add: flow_inv_def)
  have dn: "done_ids ?w = done_ids w" using s(2) by (auto simp: done_ids_def)
  have "table_inv ?w"
    using tab fresh s violates_unique_fresh [OF s(3)] unfolding table_inv_def dn by auto
  moreover have "al_get (w_jobs w) i = None"
    using fresh table_inv_job_ids [OF tab] by (auto simp: al_get_None)
  moreover have "i \<notin> set (adders (as @ t # bs))" "i \<notin> set (workers (as @ t # bs))"
    using fresh thread_inv_ids [OF thr] by blast+
  moreover have "\<exists>r \<in> set (w_scans ?w). sr_id r = j \<and> sr_status r \<in> {ScanQueued, ScanSuperseded}"
    if "j \<in> set (adders (as @ t' # bs))" for j
  proof (cases "j = i")
    case True
    with s show ?thesis by (intro bexI [of _ s]) auto
  next
    case False
    with that t have "j \<in> set (adders (as @ t # bs))" by auto
    with thr show ?thesis by (auto simp: thread_inv_def)
  qed
  ultimately show ?thesis
    using thr t unfolding flow_inv_def thread_inv_def by auto
qed

lemma thread_inv_drop:
  assumes "thread_inv w (as @ t # bs)" "set (works t') \<subseteq> set (works t)" "adds t' = []"
  shows "thread_inv w (as @ t' # bs)" "thread_inv w (as @ bs)"
  using assms by (auto simp: thread_inv_def)

lemma add_job_inv:
  assumes inv: "flow_inv (w, as @ t # bs)" and t: "adds t = [j]" "adds t' = []" "works t' = []"
  shows "flow_inv (add_job j w, as @ t' # bs)"
proof -
  have tab: "table_inv w" and thr: "thread_inv w (as @ t # bs)" using inv by (simp_all add: flow_inv_def)
  have j: "j \<in> sr_id ` set (w_scans w)" "j \<notin> set (adders (as @ bs))" using thr t by (auto simp: thread_inv_def)
  have none: "al_get (w_jobs w) k = None \<Longrightarrow> k \<noteq> j \<Longrightarrow> al_get (w_jobs w @ [(j, JobWaiting)]) k = None" for k
    by (auto simp: al_get_None)
  have "thread_inv w (as @ t' # bs)" using thread_inv_drop(1) [OF thr, of t'] t by simp
  moreover have "al_get (w_jobs w @ [(j, JobWaiting)]) k = None" if "k \<in> set (adders (as @ t' # bs))" for k
    using that t j(2) thread_inv_adder [OF thr, of k] none [of k] by auto
  ultimately have "thread_inv (add_job j w) (as @ t' # bs)"
    by (auto simp: add_job_def split: option.split intro!: thread_inv_jobs)
  moreover have "fst ` set (w_jobs w @ [(j, JobWaiting)]) \<subseteq> sr_id ` set (w_scans w)"
    using j(1) table_inv_job_ids [OF tab] by simp
  from table_inv_jobs [OF tab this] tab have "table_inv (add_job j w)" by (simp add: add_job_def split: option.split)
  ultimately show ?thesis by (simp add: flow_inv_def)
qed

lemma fail_enqueue_inv:
  assumes inv: "flow_inv (w, as @ t # bs)" and t: "adds t = [j]" "adds t' = []" "works t' = []"
  shows "flow_inv (fail_enqueue j w, as @ t' # bs)"
proof -
  have tab: "table_inv w" and thr: "thread_inv w (as @ t # bs)" using inv by (simp_all add: flow_inv_def)
  from thr t have jn: "j \<notin> set (adders (as @ t' # bs))" by (auto simp: thread_inv_def)
  from thr t obtain s where s: "s \<in> set (w_scans w)" "sr_id s = j" "sr_status s \<in> {ScanQueued, ScanSuperseded}"
    by (auto simp: thread_inv_def)
  have ns: "\<not> settled r" if "r \<in> set (w_scans w)" "sr_id r = j" for r
  proof -
    from tab that s have "r = s" by (intro distinct_ids_eq [of "w_scans w"]) (auto simp: table_inv_def)
    with s(3) show ?thesis by (auto simp: settled_def)
  qed
  have "thread_inv w (as @ t' # bs)" using thread_inv_drop(1) [OF thr, of t'] t by simp
  then have "thread_inv (fail_enqueue j w) (as @ t' # bs)"
    unfolding fail_enqueue_def by (rule thread_inv_update) (use jn in auto)
  moreover have "table_inv (fail_enqueue j w)"
    unfolding fail_enqueue_def by (rule table_inv_update [OF tab]) (use ns in auto)
  ultimately show ?thesis by (simp add: flow_inv_def)
qed

lemma flow_inv_same_thread:
  assumes "flow_inv (w, as @ t # bs)" "adds t' = []" "works t' = []"
  shows "flow_inv (w, as @ t' # bs)"
  using assms thread_inv_drop(1) [of w as t bs t'] by (simp add: flow_inv_def)

lemma after_reads_phase: "adds (Enqueue (fst (after_reads w ctx)) (snd (after_reads w ctx))) = []"
  by (simp add: after_reads_def Let_def split: option.split)

lemma cancel_in_enqueue:
  assumes "enqueue_step i up w ctx (PhCancel c) = (w', ctx', ph')"
  shows "adds (Enqueue ctx' ph') = [] \<and> (w' = w \<or> (\<exists>c'. cancel_step up (ei_pullId (ec_input ctx)) w c = (w', c')))"
  using assms by (cases c) (auto simp del: cancel_step.simps simp: Let_def split: prod.splits)

lemma enqueue_step_inv:
  assumes step: "enqueue_step i up w ctx ph = (w', ctx', ph')" and fresh: "i \<notin> sr_id ` set (w_scans w)"
    and inv: "flow_inv (w, as @ Enqueue ctx ph # bs)"
  shows "flow_inv (w', as @ Enqueue ctx' ph' # bs)"
proof (cases ph)
  case (PhCancel c)
  note ce = cancel_in_enqueue [OF step [unfolded PhCancel]]
  have drop: "flow_inv (w, as @ Enqueue ctx' ph' # bs)"
    by (rule flow_inv_same_thread [OF inv]) (use ce in auto)
  with ce cancel_step_inv show ?thesis by (auto simp: flow_inv_def)
next
  case (PhCreate mode)
  let ?s = "new_scan i ctx mode"
  show ?thesis
  proof (cases "\<not> up \<or> violates_unique w ?s")
    case True
    with step PhCreate have "w' = w" "adds (Enqueue ctx' ph') = []" by (auto simp: Let_def split: option.splits if_splits)
    with flow_inv_same_thread [OF inv] show ?thesis by simp
  next
    case False
    with step PhCreate have eq: "w' = w\<lparr>w_scans := w_scans w @ [?s]\<rparr>" "ph' = PhAdd i" by (auto simp: Let_def)
    have "sr_id ?s = i" "sr_status ?s = ScanQueued" by (simp_all add: new_scan_def)
    from create_inv [OF inv _ _ _ _ fresh this] False PhCreate show ?thesis unfolding eq by simp
  qed
next
  case (PhAdd j)
  show ?thesis
  proof (cases up)
    case True
    with step PhAdd have eq: "w' = add_job j w" and ph: "adds (Enqueue ctx' ph') = []" by auto
    from add_job_inv [OF inv _ ph] PhAdd show ?thesis unfolding eq by simp
  next
    case False
    with step PhAdd have eq: "w' = fail_enqueue j w" and ph: "adds (Enqueue ctx' ph') = []" by auto
    from fail_enqueue_inv [OF inv _ ph] PhAdd show ?thesis unfolding eq by simp
  qed
qed (use step after_reads_phase [of w ctx] flow_inv_same_thread [OF inv] in \<open>auto split: if_splits\<close>)

subsection \<open>The workers keep it\<close>

lemma claim_inv:
  assumes "flow_inv (w, as @ Claim i # bs)"
  shows "flow_inv (snd (claim_scan i w), as @ Run i # bs)" "flow_inv (snd (claim_scan i w), as @ bs)"
proof -
  have tab: "table_inv w" and thr: "thread_inv w (as @ Claim i # bs)" using assms by (simp_all add: flow_inv_def)
  have t: "table_inv (snd (claim_scan i w))"
    unfolding claim_scan_def
    by (rule table_inv_update [OF tab]) (auto simp: in_flight_not_settled set_status_def)
  have "i \<notin> set (adders (as @ Claim i # bs))" using thr by (auto simp: thread_inv_def)
  then have "thread_inv (snd (claim_scan i w)) (as @ Claim i # bs)"
    unfolding claim_scan_def by (intro thread_inv_update [OF thr]) auto
  from thread_inv_drop [OF this, of "Run i"] t
  show "flow_inv (snd (claim_scan i w), as @ Run i # bs)" "flow_inv (snd (claim_scan i w), as @ bs)"
    by (simp_all add: flow_inv_def)
qed

lemma in_flight_key: "in_flight s \<Longrightarrow> \<not> settled s"
  by (rule in_flight_not_settled)

lemma pull_of_row:
  assumes "distinct (map sr_id (w_scans w))" "s \<in> set (w_scans w)"
  shows "pull_of w (sr_id s) = sr_pullId s"
proof -
  have "List.find (\<lambda>r. sr_id r = sr_id s) (w_scans w) = Some s"
  proof (cases "List.find (\<lambda>r. sr_id r = sr_id s) (w_scans w)")
    case None
    from find_NoneD [OF this assms(2)] show ?thesis by simp
  next
    case (Some r)
    have "r = s" using find_SomeD [OF Some] assms(2) by (intro distinct_ids_eq [OF assms(1)]) auto
    with Some show ?thesis by simp
  qed
  then show ?thesis by (simp add: pull_of_def scan_of_def)
qed

lemma update_none: "filter p (w_scans w) = [] \<Longrightarrow> snd (update_scans p g w) = w"
proof -
  assume "filter p (w_scans w) = []"
  then have "map (\<lambda>s. if p s then g s else s) (w_scans w) = w_scans w"
    by (simp add: filter_empty_conv map_idI)
  then show ?thesis by (simp add: update_scans_def)
qed

lemma set_latest_inv:
  assumes "table_inv w" "s \<in> set (w_scans w)" "sr_id s = i" "sr_pullId s = p" "settled s"
  shows "table_inv (set_latest p i w)"
  using assms by (auto simp: table_inv_def set_latest_def done_ids_def)

lemma thread_inv_latest: "thread_inv (set_latest p i w) ts = thread_inv w ts"
  by (simp add: thread_inv_def set_latest_def)

lemma persist_inv:
  assumes "flow_inv (w, as @ Run i # bs)"
  shows "flow_inv (or_same (persist_scan (pull_of w i) i w) w, as @ bs)"
proof (cases "filter (\<lambda>s. sr_id s = i \<and> sr_status s = ScanRunning) (w_scans w)")
  case Nil
  then have "persist_scan (pull_of w i) i w = None" by (simp add: persist_scan_def update_scans_def)
  with assms thread_inv_drop(2) [of w as "Run i" bs "Run i"] show ?thesis
    by (simp add: flow_inv_def or_same_def)
next
  case (Cons s ss)
  let ?p = "\<lambda>s. sr_id s = i \<and> sr_status s = ScanRunning"
  let ?g = "\<lambda>s. s\<lparr>sr_status := ScanDone, sr_errorCode := None\<rparr>"
  let ?w = "snd (update_scans ?p ?g w)"
  have tab: "table_inv w" and thr: "thread_inv w (as @ bs)"
    using assms thread_inv_drop(2) [of w as "Run i" bs "Run i"] by (simp_all add: flow_inv_def)
  from Cons have s: "s \<in> set (w_scans w)" "sr_id s = i" "sr_status s = ScanRunning" by (auto simp: filter_eq_Cons_iff)
  have eq: "or_same (persist_scan (pull_of w i) i w) w =
      set_latest (pull_of w i) i (?w\<lparr>w_results := w_results w @ [i]\<rparr>)"
    using Cons by (simp add: persist_scan_def update_scans_def or_same_def)
  have dist: "distinct (map sr_id (w_scans w))" using tab by (simp add: table_inv_def)
  have only: "?p r \<longleftrightarrow> r = s" if "r \<in> set (w_scans w)" for r
    using that s distinct_ids_eq [OF dist] by blast
  have pl: "pull_of w i = sr_pullId s" using pull_of_row [OF dist s(1)] s(2) by simp
  note m = keeps_identity_maps [OF identity_status(3) [where p = ?p and st = ScanDone and code = None], of "w_scans w"]
  have dn: "done_ids ?w = insert i (done_ids w)"
  proof -
    have "set (w_scans ?w) = (\<lambda>r. if r = s then ?g s else r) ` set (w_scans w)"
      unfolding update_scans_other set_map using only by (intro image_cong) auto
    then have mem: "r \<in> set (w_scans ?w) \<longleftrightarrow> r = ?g s \<or> r \<in> set (w_scans w) \<and> r \<noteq> s" for r
      using s(1) by auto
    have "j \<in> done_ids ?w \<longleftrightarrow> j = i \<or> j \<in> done_ids w" for j
    proof
      assume "j \<in> done_ids ?w"
      then obtain r where "r \<in> set (w_scans ?w)" "sr_id r = j" "sr_status r = ScanDone" unfolding done_ids_def by blast
      with mem s(2) show "j = i \<or> j \<in> done_ids w" by (auto simp: done_ids_def)
    next
      assume "j = i \<or> j \<in> done_ids w"
      then show "j \<in> done_ids ?w"
      proof
        assume "j = i"
        with mem [of "?g s"] s(2) show ?thesis unfolding done_ids_def by (intro image_eqI [of _ _ "?g s"]) simp_all
      next
        assume "j \<in> done_ids w"
        then obtain r where r: "r \<in> set (w_scans w)" "sr_id r = j" "sr_status r = ScanDone" unfolding done_ids_def by blast
        with s(3) have "r \<noteq> s" by auto
        with r mem [of r] show ?thesis unfolding done_ids_def by (intro image_eqI [of _ _ r]) simp_all
      qed
    qed
    then show ?thesis by blast
  qed
  have new: "i \<notin> done_ids w"
  proof
    assume "i \<in> done_ids w"
    then obtain r where r: "r \<in> set (w_scans w)" "sr_id r = i" "sr_status r = ScanDone" by (auto simp: done_ids_def)
    with distinct_ids_eq [OF dist r(1) s(1)] s show False by simp
  qed
  have gs: "?g s \<in> set (w_scans ?w)" using s by force
  have lat: "\<exists>r \<in> set (w_scans ?w). sr_id r = j \<and> sr_pullId r = q \<and> settled r"
    if "\<exists>r \<in> set (w_scans w). sr_id r = j \<and> sr_pullId r = q \<and> settled r" for j q
    using that s by (force simp: settled_def)
  have ids: "sr_id ` set (w_scans ?w) = sr_id ` set (w_scans w)"
    using arg_cong [OF m(1), of set] by (simp only: list.set_map update_scans_other)
  let ?w' = "?w\<lparr>w_results := w_results w @ [i]\<rparr>"
  have sc: "w_scans ?w' = w_scans ?w" by simp
  have mm: "map sr_id (w_scans ?w) = map sr_id (w_scans w)" "map scan_key (w_scans ?w) = map scan_key (w_scans w)"
    by (simp_all only: update_scans_other m)
  have "table_inv ?w'"
    unfolding table_inv_def
  proof (intro conjI allI impI)
    show "distinct (map sr_id (w_scans ?w'))" "distinct (map scan_key (w_scans ?w'))"
      unfolding sc mm using tab by (simp_all add: table_inv_def)
    show "distinct (w_results ?w')" using tab new by (simp add: table_inv_def)
    show "set (w_results ?w') = done_ids ?w'" using tab dn by (simp add: table_inv_def done_ids_def)
    show "\<exists>r \<in> set (w_scans ?w'). sr_id r = j \<and> sr_pullId r = q \<and> settled r" if "w_latest ?w' q = Some j" for q j
      using lat [of j q] tab that by (simp add: table_inv_def)
    show "fst ` set (w_jobs ?w') \<subseteq> sr_id ` set (w_scans ?w')"
      using tab ids by (simp add: table_inv_def)
  qed
  from set_latest_inv [OF this, of "?g s" i "pull_of w i"] gs s pl
  have tab': "table_inv (set_latest (pull_of w i) i ?w')" by (simp add: settled_def)
  have na: "i \<notin> set (adders (as @ bs))" using assms by (auto simp: flow_inv_def thread_inv_def)
  have "thread_inv ?w (as @ bs)" by (rule thread_inv_update [OF thr]) (use na in auto)
  then have "thread_inv (set_latest (pull_of w i) i ?w') (as @ bs)"
    by (simp add: thread_inv_latest) (simp add: thread_inv_def)
  with tab' show ?thesis unfolding eq by (simp add: flow_inv_def)
qed

lemma fail_inv:
  assumes "flow_inv (w, as @ Failing i code # bs)"
  shows "flow_inv (or_same (fail_scan (pull_of w i) i code w) w, as @ bs)"
proof (cases "filter (\<lambda>s. sr_id s = i \<and> in_flight s) (w_scans w)")
  case Nil
  then have "fail_scan (pull_of w i) i code w = None" by (simp add: fail_scan_def update_scans_def)
  with assms thread_inv_drop(2) [of w as "Failing i code" bs "Run i"] show ?thesis
    by (simp add: flow_inv_def or_same_def)
next
  case (Cons s ss)
  let ?p = "\<lambda>s. sr_id s = i \<and> in_flight s"
  let ?g = "\<lambda>s. s\<lparr>sr_status := ScanFailed, sr_errorCode := code\<rparr>"
  let ?w = "snd (update_scans ?p ?g w)"
  have tab: "table_inv w" and thr: "thread_inv w (as @ bs)"
    using assms thread_inv_drop(2) [of w as "Failing i code" bs "Run i"] by (simp_all add: flow_inv_def)
  from Cons have s: "s \<in> set (w_scans w)" "sr_id s = i" "in_flight s" by (auto simp: filter_eq_Cons_iff)
  have eq: "or_same (fail_scan (pull_of w i) i code w) w = set_latest (pull_of w i) i ?w"
    using Cons by (simp add: fail_scan_def update_scans_def or_same_def)
  have pl: "pull_of w i = sr_pullId s" using pull_of_row [of w s] tab s by (simp add: table_inv_def)
  have "table_inv ?w" by (rule table_inv_update [OF tab]) (auto simp: in_flight_not_settled)
  moreover have "?g s \<in> set (w_scans ?w)" using s by force
  ultimately have "table_inv (set_latest (pull_of w i) i ?w)"
    using set_latest_inv [of ?w "?g s" i "pull_of w i"] s pl by (simp add: settled_def)
  moreover have na: "i \<notin> set (adders (as @ bs))" using assms by (auto simp: flow_inv_def thread_inv_def)
  have "thread_inv ?w (as @ bs)" by (rule thread_inv_update [OF thr]) (use na in auto)
  ultimately show ?thesis unfolding eq by (simp add: flow_inv_def thread_inv_latest)
qed

subsection \<open>Every reachable state\<close>

lemma done_ids_iff: "j \<in> done_ids w \<longleftrightarrow> (\<exists>s \<in> set (w_scans w). sr_id s = j \<and> sr_status s = ScanDone)"
  by (auto simp: done_ids_def)

lemma force_push_inv:
  assumes "flow_inv (w, ts)"
  shows "flow_inv (force_push i w, ts)"
proof -
  let ?p = "\<lambda>s. sr_id s = i"
    and ?g = "\<lambda>s. s\<lparr>sr_mode := (sr_mode s)\<lparr>md_diffMode := DiffFull, md_fullReason := Some ForcePush, md_prevHeadSha := None\<rparr>\<rparr>"
  have tab: "table_inv w" and thr: "thread_inv w ts" using assms by (simp_all add: flow_inv_def)
  have keep: "keeps_identity ?p ?g" by simp
  have st: "\<And>s. sr_status (if ?p s then ?g s else s) = sr_status s" "\<And>s. settled (if ?p s then ?g s else s) = settled s"
    "\<And>s. sr_id (if ?p s then ?g s else s) = sr_id s" "\<And>s. sr_pullId (if ?p s then ?g s else s) = sr_pullId s"
    "\<And>s. scan_key (if ?p s then ?g s else s) = scan_key s"
    by (simp_all add: settled_def scan_key_def)
  have sc: "w_scans (force_push i w) = map (\<lambda>s. if ?p s then ?g s else s) (w_scans w)" by (simp add: force_push_def)
  have ids: "sr_id ` set (w_scans (force_push i w)) = sr_id ` set (w_scans w)"
    unfolding sc set_map image_image st ..
  have ex: "(\<exists>s \<in> set (w_scans (force_push i w)). sr_id s = j \<and> Q (sr_pullId s) (sr_status s)) \<longleftrightarrow>
      (\<exists>s \<in> set (w_scans w). sr_id s = j \<and> Q (sr_pullId s) (sr_status s))" for j Q
    unfolding sc set_map bex_simps st ..
  have dn: "done_ids (force_push i w) = done_ids w"
    by (rule set_eqI) (unfold done_ids_iff, rule ex [of _ "\<lambda>p st. st = ScanDone"])
  have mm: "map sr_id (w_scans (force_push i w)) = map sr_id (w_scans w)"
    "map scan_key (w_scans (force_push i w)) = map scan_key (w_scans w)"
    unfolding sc by (rule keeps_identity_maps [OF keep])+
  have same: "w_results (force_push i w) = w_results w" "w_latest (force_push i w) = w_latest w"
    "w_jobs (force_push i w) = w_jobs w"
    by (simp_all add: force_push_def)
  have lat: "\<exists>s \<in> set (w_scans (force_push i w)). sr_id s = j \<and> sr_pullId s = q \<and> settled s"
    if "w_latest w q = Some j" for q j
  proof -
    from tab that have "\<exists>s \<in> set (w_scans w). sr_id s = j \<and> sr_pullId s = q \<and> settled s"
      by (simp add: table_inv_def)
    then show ?thesis
      unfolding settled_def by (rule ex [of j "\<lambda>p st. p = q \<and> (st = ScanDone \<or> st = ScanFailed)", THEN iffD2])
  qed
  have "table_inv (force_push i w)"
    unfolding table_inv_def dn ids mm same
    by (intro conjI allI impI lat) (use tab in \<open>simp_all add: table_inv_def\<close>)
  moreover have "thread_inv (force_push i w) ts"
    unfolding thread_inv_def ids same
  proof (intro conjI ballI)
    fix j assume "j \<in> set (adders ts)"
    with thr have "\<exists>s \<in> set (w_scans w). sr_id s = j \<and> sr_status s \<in> {ScanQueued, ScanSuperseded}"
      by (simp add: thread_inv_def)
    then show "\<exists>s \<in> set (w_scans (force_push i w)). sr_id s = j \<and> sr_status s \<in> {ScanQueued, ScanSuperseded}"
      by (rule ex [of j "\<lambda>p st. st \<in> {ScanQueued, ScanSuperseded}", THEN iffD2])
  qed (use thr in \<open>auto simp: thread_inv_def\<close>)
  ultimately show ?thesis by (simp add: flow_inv_def)
qed

lemma flow_inv_drop_worker:
  "flow_inv (w, as @ t # bs) \<Longrightarrow> t \<in> {Claim i, Run i} \<Longrightarrow> flow_inv (w, as @ bs) \<and> flow_inv (w, as @ Failing i code # bs)"
  using thread_inv_drop [of w as t bs "Failing i code"] by (auto simp: flow_inv_def)

lemma flow_inv_set_job: "flow_inv (w, ts) \<Longrightarrow> flow_inv (set_job i st w, ts)"
  by (auto simp: flow_inv_def)

lemma flow_inv_new_worker:
  assumes "flow_inv (w, ts)" "al_get (w_jobs w) i \<noteq> None" "works t = [i]" "adds t = []"
  shows "flow_inv (w, ts @ [t])"
proof -
  from assms(1) have tab: "table_inv w" and thr: "thread_inv w ts" by (simp_all add: flow_inv_def)
  from assms(2) table_inv_job_ids [OF tab] have "i \<in> sr_id ` set (w_scans w)" by (auto simp: al_get_None)
  moreover have "i \<notin> set (adders ts)" using assms(2) thread_inv_adder [OF thr, of i] by (rule contrapos_nn)
  ultimately show ?thesis using thr tab assms(3,4) by (auto simp: flow_inv_def thread_inv_def)
qed

lemma set_job_present: "al_get (w_jobs w) i \<noteq> None \<Longrightarrow> al_get (w_jobs (set_job i st w)) i \<noteq> None"
  by (simp add: set_job_def)

lemma flow_inv_step:
  assumes "flow_step services_up f f'" "flow_inv f"
  shows "flow_inv f'"
  using assms
proof (induction rule: flow_step.induct)
  case (enqueue i up w ctx ph w' ctx' ph' as bs)
  show ?case by (rule enqueue_step_inv [OF enqueue.hyps(1,2) enqueue.prems])
next
  case (cancel up pullId w ph w' ph' as bs)
  have "flow_inv (w, as @ Cancel pullId ph' # bs)" by (rule flow_inv_same_thread [OF cancel.prems]) simp_all
  then show ?case
    using cancel_step_inv [OF cancel.hyps(1)] by (simp add: flow_inv_def)
next
  case (settings w ts orgs pulls)
  then show ?case by (simp add: flow_inv_def table_inv_def thread_inv_def done_ids_def)
next
  case (pick w i ts)
  show ?case
    by (rule flow_inv_new_worker [where i = i]) (use pick in \<open>simp_all add: flow_inv_set_job set_job_present\<close>)
next
  case (claim i w n w' as bs)
  with claim_inv(1) show ?case by (metis snd_conv)
next
  case (skip i w w' as bs)
  with claim_inv(2) show ?case by (metis flow_inv_set_job snd_conv)
next
  case (stalled_out w i ts)
  show ?case
    by (rule flow_inv_new_worker [where i = i]) (use stalled_out in \<open>simp_all add: flow_inv_set_job set_job_present\<close>)
next
  case (give_up t i w as bs code)
  with flow_inv_drop_worker [of w as t bs i code] show ?case by (simp add: flow_inv_set_job)
next
  case (retry t i w as bs)
  with flow_inv_drop_worker [of w as t bs i] show ?case by (simp add: flow_inv_set_job)
next
  case (crash t i w as bs)
  with flow_inv_drop_worker [of w as t bs i] show ?case by simp
next
  case (persist w as i bs)
  then show ?case by (simp add: persist_inv flow_inv_set_job)
next
  case (failed w as i code bs)
  then show ?case by (simp add: fail_inv)
next
  case (force_pushed w as i bs)
  then show ?case by (rule force_push_inv)
qed (simp_all add: flow_inv_set_job, simp_all add: flow_inv_def thread_inv_def)

lemma flow_inv_steps: "flow_steps services_up f f' \<Longrightarrow> flow_inv f \<Longrightarrow> flow_inv f'"
  by (induction rule: rtranclp_induct) (auto intro: flow_inv_step)

lemma flow_inv_reachable: "reachable services_up f \<Longrightarrow> flow_inv f"
proof -
  assume "reachable services_up f"
  then obtain orgs pulls where "flow_steps services_up (empty_world orgs pulls, []) f" by (auto simp: reachable_def)
  then show ?thesis
    by (rule flow_inv_steps) (simp add: flow_inv_def table_inv_def thread_inv_def done_ids_def empty_world_def)
qed

subsection \<open>What can become of a scan\<close>

definition status_moves :: "(scan_status \<times> scan_status) set" where
  "status_moves =
    {(ScanQueued, ScanRunning), (ScanQueued, ScanSuperseded), (ScanQueued, ScanFailed),
     (ScanRunning, ScanDone), (ScanRunning, ScanSuperseded), (ScanRunning, ScanFailed),
     (ScanSuperseded, ScanFailed)}"

definition tracks :: "scan_row \<Rightarrow> world \<Rightarrow> bool" where
  "tracks s w \<longleftrightarrow> (\<exists>s' \<in> set (w_scans w). sr_id s' = sr_id s \<and> scan_key s' = scan_key s \<and>
    (sr_status s, sr_status s') \<in> status_moves\<^sup>=)"

lemma tracks_update:
  assumes "s \<in> set (w_scans w)" "keeps_identity p g" "p s \<Longrightarrow> (sr_status s, sr_status (g s)) \<in> status_moves\<^sup>="
  shows "tracks s (snd (update_scans p g w))"
  unfolding tracks_def update_scans_other
proof (rule bexI)
  show "(if p s then g s else s) \<in> set (map (\<lambda>s. if p s then g s else s) (w_scans w))" using assms(1) by simp
  show "sr_id (if p s then g s else s) = sr_id s \<and> scan_key (if p s then g s else s) = scan_key s \<and>
      (sr_status s, sr_status (if p s then g s else s)) \<in> status_moves\<^sup>="
    using assms(2,3) by (simp add: keeps_identity_def)
qed

lemma tracks_scans: "w_scans w' = w_scans w \<Longrightarrow> tracks s w' = tracks s w"
  by (simp add: tracks_def)

lemma tracks_same: "s \<in> set (w_scans w) \<Longrightarrow> w_scans w' = w_scans w \<Longrightarrow> tracks s w'"
  by (auto simp: tracks_def)

lemma job_scans [simp]:
  "w_scans (set_job i st w) = w_scans w" "w_scans (remove_job i w) = w_scans w" "w_scans (add_job i w) = w_scans w"
  "w_scans (set_latest p i w) = w_scans w"
  by (simp_all add: set_job_def remove_job_def add_job_def set_latest_def split: option.split)

lemma persist_scans:
  "w_scans (or_same (persist_scan p i w) w) =
    w_scans (snd (update_scans (\<lambda>s. sr_id s = i \<and> sr_status s = ScanRunning) (\<lambda>s. s\<lparr>sr_status := ScanDone, sr_errorCode := None\<rparr>) w))"
  by (auto simp: persist_scan_def update_scans_def or_same_def set_latest_def filter_empty_conv intro!: map_idI [symmetric])

lemma fail_scans:
  "w_scans (or_same (fail_scan p i code w) w) =
    w_scans (snd (update_scans (\<lambda>s. sr_id s = i \<and> in_flight s) (\<lambda>s. s\<lparr>sr_status := ScanFailed, sr_errorCode := code\<rparr>) w))"
  by (auto simp: fail_scan_def update_scans_def or_same_def set_latest_def filter_empty_conv intro!: map_idI [symmetric])

lemma cancel_tracks:
  assumes "cancel_step up p w ph = (w', ph')" "s \<in> set (w_scans w)"
  shows "tracks s w'"
proof -
  have "w_scans w' = w_scans w \<or> (\<exists>ids. w' = snd (supersede ids w))"
    using assms(1)
    by (cases "(up, p, w, ph)" rule: cancel_step.cases) (auto simp: Let_def case_prod_beta split: if_splits)
  moreover have "tracks s (snd (supersede ids w))" for ids
    unfolding supersede_def
    by (rule tracks_update [OF assms(2)]) (auto simp: in_flight_def status_moves_def)
  ultimately show ?thesis using tracks_same [OF assms(2)] by blast
qed

lemma enqueue_tracks:
  assumes step: "enqueue_step i up w ctx ph = (w', ctx', ph')" and inv: "flow_inv (w, as @ Enqueue ctx ph # bs)"
    and s: "s \<in> set (w_scans w)"
  shows "tracks s w'"
proof (cases ph)
  case (PhCancel c)
  with cancel_in_enqueue [OF step [unfolded PhCancel]] cancel_tracks [OF _ s] tracks_same [OF s, of w'] show ?thesis by auto
next
  case (PhCreate mode)
  with step have "w' = w \<or> w' = w\<lparr>w_scans := w_scans w @ [new_scan i ctx mode]\<rparr>"
    by (auto simp: Let_def split: option.splits if_splits)
  with s show ?thesis by (auto simp: tracks_def)
next
  case (PhAdd j)
  have "tracks s (fail_enqueue j w)"
    unfolding fail_enqueue_def
  proof (rule tracks_update [OF s])
    assume sj: "sr_id s = j"
    from inv PhAdd obtain r where r: "r \<in> set (w_scans w)" "sr_id r = j" "sr_status r \<in> {ScanQueued, ScanSuperseded}"
      by (auto simp: flow_inv_def thread_inv_def)
    from inv have "distinct (map sr_id (w_scans w))" by (simp add: flow_inv_def table_inv_def)
    from distinct_ids_eq [OF this s r(1)] sj r(2,3)
    show "(sr_status s, sr_status (s\<lparr>sr_status := ScanFailed\<rparr>)) \<in> status_moves\<^sup>=" by (auto simp: status_moves_def)
  qed simp
  with PhAdd step tracks_same [OF s, of w'] show ?thesis by (auto split: if_splits)
qed (use step tracks_same [OF s, of w'] in \<open>auto split: if_splits\<close>)

lemma step_tracks:
  assumes "flow_step services_up f f'" "flow_inv f" "s \<in> set (w_scans (fst f))"
  shows "tracks s (fst f')"
  using assms
proof (induction rule: flow_step.induct)
  case (enqueue i up w ctx ph w' ctx' ph' as bs)
  from enqueue_tracks [OF enqueue.hyps(1) enqueue.prems(1)] enqueue.prems(2) show ?case by simp
next
  case (cancel up pullId w ph w' ph' as bs)
  from cancel_tracks [OF cancel.hyps(1)] cancel.prems(2) show ?case by simp
next
  case (claim i w n w' as bs)
  have "tracks s (snd (claim_scan i w))"
    unfolding claim_scan_def
    by (rule tracks_update) (use claim.prems in \<open>auto simp: in_flight_def set_status_def status_moves_def\<close>)
  with claim.hyps(1) show ?case by simp
next
  case (skip i w w' as bs)
  have "tracks s (snd (claim_scan i w))"
    unfolding claim_scan_def
    by (rule tracks_update) (use skip.prems in \<open>auto simp: in_flight_def set_status_def status_moves_def\<close>)
  with skip.hyps(1) tracks_scans [of "set_job i JobEnded w'" w'] show ?case by simp
next
  case (force_pushed w as i bs)
  have "tracks s (force_push i w)"
    unfolding force_push_def by (rule tracks_update) (use force_pushed.prems in \<open>auto simp: keeps_identity_def scan_key_def\<close>)
  then show ?case by simp
next
  case (persist w as i bs)
  have "tracks s (snd (update_scans (\<lambda>s. sr_id s = i \<and> sr_status s = ScanRunning)
      (\<lambda>s. s\<lparr>sr_status := ScanDone, sr_errorCode := None\<rparr>) w))"
    by (rule tracks_update) (use persist.prems in \<open>auto simp: status_moves_def\<close>)
  then show ?case
    using tracks_scans [OF persist_scans] tracks_scans [OF job_scans(1)] by simp
next
  case (failed w as i code bs)
  have "tracks s (snd (update_scans (\<lambda>s. sr_id s = i \<and> in_flight s)
      (\<lambda>s. s\<lparr>sr_status := ScanFailed, sr_errorCode := code\<rparr>) w))"
    by (rule tracks_update) (use failed.prems in \<open>auto simp: in_flight_def status_moves_def\<close>)
  then show ?case
    using tracks_scans [OF fail_scans] by simp
qed (auto intro: tracks_same)

text \<open>C2: in every state the requests and workers can reach, in whatever order their operations
  interleave, workers crash and jobs are retried or run twice: no two scans share an id or a
  repository, pull request, commit and attempt; the findings of a scan are written at most once, and
  exactly for the scans that are done; and the latest scan of a pull request is one of its scans
  that is done or failed, never one a newer push has superseded.\<close>

theorem scan_results_published_once:
  assumes "reachable services_up (w, ts)"
  shows "distinct (map sr_id (w_scans w)) \<and> distinct (map scan_key (w_scans w)) \<and>
    distinct (w_results w) \<and>
    set (w_results w) = sr_id ` {s \<in> set (w_scans w). sr_status s = ScanDone} \<and>
    (\<forall>p i. w_latest w p = Some i \<longrightarrow>
      (\<exists>s \<in> set (w_scans w). sr_id s = i \<and> sr_pullId s = p \<and> (sr_status s = ScanDone \<or> sr_status s = ScanFailed)))"
  using flow_inv_reachable [OF assms] by (simp add: flow_inv_def table_inv_def done_ids_def settled_def)

text \<open>The status of a scan only moves forward: from a reachable state every step keeps each scan
  and leaves its status or takes it along one of seven moves, so that a scan that is done stays done,
  one that failed stays failed, and a superseded one is never run again.\<close>

theorem scan_status_moves_forward:
  assumes "reachable services_up (w, ts)" "flow_step services_up (w, ts) (w', ts')" "s \<in> set (w_scans w)"
  shows "\<exists>s' \<in> set (w_scans w'). sr_id s' = sr_id s \<and> scan_key s' = scan_key s \<and>
    (sr_status s' = sr_status s \<or>
     (sr_status s, sr_status s') \<in>
       {(ScanQueued, ScanRunning), (ScanQueued, ScanSuperseded), (ScanQueued, ScanFailed),
        (ScanRunning, ScanDone), (ScanRunning, ScanSuperseded), (ScanRunning, ScanFailed),
        (ScanSuperseded, ScanFailed)})"
  using step_tracks [OF assms(2) flow_inv_reachable [OF assms(1)]] assms(3)
  by (fastforce simp: tracks_def status_moves_def)

end
