(* ===== verification/Scan_Progress.thy ===== *)
theory Scan_Progress
  imports Scan_Flow
begin

section \<open>Every scan gets settled\<close>

text \<open>
  Progress of the system of \<open>Scan_Flow\<close>.  As long as the database and the queue answer, a scan
  that is queued or running is always attended: it has a job, or a thread that is about to add one,
  to supersede it or to record its failure.  So it can always be settled.  When the database fails
  between the removal of a job and the update of its scan, it can not: the last lemma shows the
  scan that is left behind.
\<close>

subsection \<open>No scan is left behind\<close>

text \<open>The scans that a thread is bound to settle or to give a job.\<close>

fun cancel_ends :: "cancel_phase \<Rightarrow> jstr list" where
  "cancel_ends (CancelRemove ids todo) = ids"
| "cancel_ends (CancelUpdate ids) = ids"
| "cancel_ends c = []"

fun ends :: "scan_thread \<Rightarrow> jstr list" where
  "ends (Enqueue ctx (PhAdd j)) = [j]"
| "ends (Enqueue ctx (PhCancel c)) = cancel_ends c"
| "ends (Cancel p c) = cancel_ends c"
| "ends (Failing i code) = [i]"
| "ends t = []"

fun runs :: "scan_thread \<Rightarrow> jstr list" where
  "runs (Run i) = [i]"
| "runs t = []"

fun cancel_ok :: "cancel_phase \<Rightarrow> bool" where
  "cancel_ok (CancelRemove ids todo) = (set todo \<subseteq> set ids)"
| "cancel_ok c = True"

fun thread_ok :: "scan_thread \<Rightarrow> bool" where
  "thread_ok (Enqueue ctx (PhCancel c)) = cancel_ok c"
| "thread_ok (Cancel p c) = cancel_ok c"
| "thread_ok t = True"

definition endset :: "scan_thread list \<Rightarrow> jstr set" where
  "endset ts = set (concat (map ends ts))"

definition runset :: "scan_thread list \<Rightarrow> jstr set" where
  "runset ts = set (concat (map runs ts))"

lemma endset_simps [simp]:
  "endset [] = {}" "endset (t # ts) = set (ends t) \<union> endset ts" "endset (ts @ us) = endset ts \<union> endset us"
  "runset [] = {}" "runset (t # ts) = set (runs t) \<union> runset ts" "runset (ts @ us) = runset ts \<union> runset us"
  by (simp_all add: endset_def runset_def)

definition job_live :: "world \<Rightarrow> jstr \<Rightarrow> bool" where
  "job_live w i \<longleftrightarrow> al_get (w_jobs w) i \<noteq> None \<and> al_get (w_jobs w) i \<noteq> Some JobEnded"

definition attended :: "world \<Rightarrow> scan_thread list \<Rightarrow> bool" where
  "attended w ts \<longleftrightarrow>
    (\<forall>s \<in> set (w_scans w). in_flight s \<longrightarrow> job_live w (sr_id s) \<or> sr_id s \<in> endset ts) \<and>
    (\<forall>s \<in> set (w_scans w). sr_status s = ScanQueued \<longrightarrow> sr_id s \<notin> runset ts) \<and> list_all thread_ok ts"

lemma attended_step:
  assumes att: "attended w (as @ ts @ bs)"
    and fl: "\<And>s'. s' \<in> set (w_scans w') \<Longrightarrow> in_flight s' \<Longrightarrow>
      job_live w' (sr_id s') \<or> sr_id s' \<in> endset us \<or>
      (\<exists>s \<in> set (w_scans w). sr_id s = sr_id s' \<and> in_flight s \<and> \<not> job_live w (sr_id s) \<and> sr_id s \<notin> endset ts)"
    and q: "\<And>s'. s' \<in> set (w_scans w') \<Longrightarrow> sr_status s' = ScanQueued \<Longrightarrow> sr_id s' \<notin> runset us \<and>
      ((\<exists>s \<in> set (w_scans w). sr_id s = sr_id s' \<and> sr_status s = ScanQueued) \<or> sr_id s' \<notin> runset (as @ bs))"
    and ok: "list_all thread_ok us"
  shows "attended w' (as @ us @ bs)"
  unfolding attended_def
proof (intro conjI ballI impI)
  fix s' assume s': "s' \<in> set (w_scans w')" "in_flight s'"
  from fl [OF this] att show "job_live w' (sr_id s') \<or> sr_id s' \<in> endset (as @ us @ bs)"
    by (auto simp: attended_def)
next
  fix s' assume s': "s' \<in> set (w_scans w')" "sr_status s' = ScanQueued"
  from q [OF this] att show "sr_id s' \<notin> runset (as @ us @ bs)" by (auto simp: attended_def)
qed (use att ok in \<open>auto simp: attended_def\<close>)

lemma job_live_set_job:
  "job_live (set_job i st w) k \<longleftrightarrow> (if k = i then al_get (w_jobs w) i \<noteq> None \<and> st \<noteq> JobEnded else job_live w k)"
  by (auto simp: job_live_def set_job_def)

lemma al_get_delete_other: "k \<noteq> i \<Longrightarrow> al_get (al_delete i m) k = al_get m k"
  by (induction i m rule: al_delete.induct) auto

lemma job_live_remove: "k \<noteq> i \<Longrightarrow> job_live (remove_job i w) k = job_live w k"
  by (auto simp: job_live_def remove_job_def al_get_delete_other split: option.split)

lemma al_get_append: "al_get (m @ m') k = (case al_get m k of Some v \<Rightarrow> Some v | None \<Rightarrow> al_get m' k)"
  by (induction m) auto

lemma job_live_add: "job_live w k \<Longrightarrow> job_live (add_job i w) k" "al_get (w_jobs w) i = None \<Longrightarrow> job_live (add_job i w) i"
  by (auto simp: job_live_def add_job_def al_get_append split: option.split)

lemma cancel_step_attends:
  assumes step: "cancel_step True p w c = (w', c')" and ok: "cancel_ok c"
  shows "cancel_ok c'"
    and "s' \<in> set (w_scans w') \<Longrightarrow> in_flight s' \<Longrightarrow>
      s' \<in> set (w_scans w) \<and> (job_live w (sr_id s') \<or> sr_id s' \<in> set (cancel_ends c) \<longrightarrow>
        job_live w' (sr_id s') \<or> sr_id s' \<in> set (cancel_ends c'))"
proof -
  show "cancel_ok c'"
    using step ok
    by (cases "(True, p, w, c)" rule: cancel_step.cases) (auto simp: Let_def case_prod_beta split: if_splits)
  assume s': "s' \<in> set (w_scans w')" "in_flight s'"
  show "s' \<in> set (w_scans w) \<and> (job_live w (sr_id s') \<or> sr_id s' \<in> set (cancel_ends c) \<longrightarrow>
        job_live w' (sr_id s') \<or> sr_id s' \<in> set (cancel_ends c'))"
  proof (cases c)
    case (CancelRemove ids todo)
    show ?thesis
    proof (cases todo)
      case (Cons j todo')
      with step CancelRemove have eq: "w' = remove_job j w" "c' = CancelRemove ids todo'" by auto
      from ok CancelRemove Cons have "j \<in> set ids" by simp
      with s' job_live_remove [of "sr_id s'" j w] show ?thesis by (auto simp: eq CancelRemove)
    qed (use step s' CancelRemove in auto)
  next
    case (CancelUpdate ids)
    with step have eq: "w' = snd (supersede ids w)" "c' = CancelDone (fst (supersede ids w))"
      by (auto simp: case_prod_beta)
    from s' have "s' \<in> set (w_scans w)" "sr_id s' \<notin> set ids"
      by (auto simp: eq supersede_def in_flight_def split: if_splits)
    then show ?thesis by (auto simp: eq CancelUpdate job_live_def supersede_def)
  qed (use step s' in \<open>auto simp: Let_def split: if_splits\<close>)
qed

lemma cancel_step_queued:
  assumes "cancel_step True p w c = (w', c')" "s' \<in> set (w_scans w')" "sr_status s' = ScanQueued"
  shows "\<exists>s \<in> set (w_scans w). sr_id s = sr_id s' \<and> sr_status s = ScanQueued"
  using assms
  by (cases "(True, p, w, c)" rule: cancel_step.cases)
    (auto simp: Let_def case_prod_beta supersede_def split: if_splits)

lemma status_update:
  "s' \<in> set (w_scans (snd (update_scans p g w))) \<Longrightarrow>
    (\<exists>s \<in> set (w_scans w). s' = (if p s then g s else s))"
  by auto

lemma job_live_simps [simp]:
  "job_live (snd (update_scans p g w)) k = job_live w k"
  "job_live (or_same (persist_scan pullId i w) w) k = job_live w k"
  "job_live (or_same (fail_scan pullId i code w) w) k = job_live w k"
  by (auto simp: job_live_def persist_scan_def fail_scan_def update_scans_def or_same_def set_latest_def)

lemma job_live_some: "job_live w k \<Longrightarrow> al_get (w_jobs w) k \<noteq> None"
  by (simp add: job_live_def)

lemma runset_ids: "thread_inv w ts \<Longrightarrow> runset ts \<subseteq> sr_id ` set (w_scans w)"
proof -
  assume inv: "thread_inv w ts"
  have "set (runs t) \<subseteq> set (works t)" for t by (cases t) auto
  then have "runset ts \<subseteq> set (workers ts)" by (fastforce simp: runset_def workers_def)
  with thread_inv_ids [OF inv] show ?thesis by blast
qed

text \<open>A step that changes no scan.\<close>

lemma attended_jobs:
  assumes "attended w (as @ ts @ bs)" "w_scans w' = w_scans w"
    and "\<And>s. s \<in> set (w_scans w) \<Longrightarrow> in_flight s \<Longrightarrow> job_live w (sr_id s) \<or> sr_id s \<in> endset ts \<Longrightarrow>
      job_live w' (sr_id s) \<or> sr_id s \<in> endset us"
    and "runset us = {}" "list_all thread_ok us"
  shows "attended w' (as @ us @ bs)"
proof (rule attended_step [OF assms(1)])
  fix s' assume s': "s' \<in> set (w_scans w')"
  then have in_w: "s' \<in> set (w_scans w)" by (simp add: assms(2))
  show "job_live w' (sr_id s') \<or> sr_id s' \<in> endset us \<or>
      (\<exists>s \<in> set (w_scans w). sr_id s = sr_id s' \<and> in_flight s \<and> \<not> job_live w (sr_id s) \<and> sr_id s \<notin> endset ts)"
    if "in_flight s'"
    using assms(3) [OF in_w that] in_w that by blast
  show "sr_id s' \<notin> runset us \<and>
      ((\<exists>s \<in> set (w_scans w). sr_id s = sr_id s' \<and> sr_status s = ScanQueued) \<or> sr_id s' \<notin> runset (as @ bs))"
    if "sr_status s' = ScanQueued"
    using assms(4) in_w that by auto
qed (rule assms(5))

lemma cancel_thread_attends:
  assumes cs: "cancel_step True p w c = (w', c')" and att: "attended w (as @ t # bs)"
    and t: "ends t = cancel_ends c" "cancel_ok c" and t': "ends t' = cancel_ends c'" "runs t' = []" "thread_ok t' = cancel_ok c'"
  shows "attended w' (as @ t' # bs)"
proof -
  note ca = cancel_step_attends [OF cs t(2)]
  have "attended w' (as @ [t'] @ bs)"
  proof (rule attended_step [where w = w and ts = "[t]"])
    show "attended w (as @ [t] @ bs)" using att by simp
  next
    fix s' assume s': "s' \<in> set (w_scans w')" "in_flight s'"
    from ca(2) [OF s'] s'(2) t(1) t'(1)
    show "job_live w' (sr_id s') \<or> sr_id s' \<in> endset [t'] \<or>
      (\<exists>s \<in> set (w_scans w). sr_id s = sr_id s' \<and> in_flight s \<and> \<not> job_live w (sr_id s) \<and> sr_id s \<notin> endset [t])"
      by auto
  next
    fix s' assume s': "s' \<in> set (w_scans w')" "sr_status s' = ScanQueued"
    from cancel_step_queued [OF cs s'] t'(2)
    show "sr_id s' \<notin> runset [t'] \<and>
      ((\<exists>s \<in> set (w_scans w). sr_id s = sr_id s' \<and> sr_status s = ScanQueued) \<or> sr_id s' \<notin> runset (as @ bs))"
      by simp
  qed (use ca(1) t'(3) in simp)
  then show ?thesis by simp
qed

lemma attended_same:
  assumes "attended w (as @ t # bs)" "ends t = []" "ends t' = []" "runs t' = []" "thread_ok t'"
  shows "attended w (as @ t' # bs)"
  using assms attended_step [where w = w and w' = w and as = as and ts = "[t]" and us = "[t']" and bs = bs] by auto

lemma after_reads_thread:
  "ends (Enqueue ctx' (snd (after_reads w ctx))) = [] \<and> thread_ok (Enqueue ctx' (snd (after_reads w ctx)))"
  by (simp add: after_reads_def Let_def split: option.split)

lemma enqueue_step_attends:
  assumes step: "enqueue_step i True w ctx ph = (w', ctx', ph')" and fresh: "i \<notin> sr_id ` set (w_scans w)"
    and inv: "flow_inv (w, as @ Enqueue ctx ph # bs)" and att: "attended w (as @ Enqueue ctx ph # bs)"
  shows "attended w' (as @ Enqueue ctx' ph' # bs)"
proof -
  have ok: "thread_ok (Enqueue ctx ph)" using att by (simp add: attended_def)
  have split: "attended w' (as @ [Enqueue ctx' ph'] @ bs)"
  proof (cases ph)
    case (PhCancel c)
    show ?thesis
    proof (cases "(\<exists>n. c = CancelDone n) \<or> c = CancelThrown")
      case True
      with step PhCancel have "w' = w" "ends (Enqueue ctx ph) = []" "ends (Enqueue ctx' ph') = []"
        "thread_ok (Enqueue ctx' ph')" by auto
      with attended_same [OF att] show ?thesis by simp
    next
      case False
      obtain w2 c' where cs: "cancel_step True (ei_pullId (ec_input ctx)) w c = (w2, c')" by fastforce
      with step PhCancel False have eq: "w' = w2" "ph' = PhCancel c'"
        by (cases c; auto simp del: cancel_step.simps)+
      from ok PhCancel have "cancel_ok c" by simp
      from cancel_thread_attends [OF cs att _ this, of "Enqueue ctx' ph'"] PhCancel show ?thesis by (simp add: eq)
    qed
  next
    case (PhCreate mode)
    have nr: "i \<notin> runset (as @ bs)"
      using runset_ids [of w "as @ Enqueue ctx ph # bs"] inv fresh by (auto simp: flow_inv_def)
    show ?thesis
    proof (cases "violates_unique w (new_scan i ctx mode)")
      case True
      with step PhCreate have "w' = w" "ends (Enqueue ctx' ph') = []" "thread_ok (Enqueue ctx' ph')"
        by (auto simp: Let_def split: option.splits)
      with PhCreate attended_same [OF att] show ?thesis by simp
    next
      case False
      with step PhCreate have eq: "w' = w\<lparr>w_scans := w_scans w @ [new_scan i ctx mode]\<rparr>" "ph' = PhAdd i"
        by (auto simp: Let_def)
      have id: "sr_id (new_scan i ctx mode) = i" by (simp add: new_scan_def)
      have live: "job_live w' k = job_live w k" for k by (simp add: eq job_live_def)
      show ?thesis
      proof (rule attended_step [where w = w and ts = "[Enqueue ctx ph]"])
        show "attended w (as @ [Enqueue ctx ph] @ bs)" using att by simp
      next
        fix s' assume s': "s' \<in> set (w_scans w')" "in_flight s'"
        show "job_live w' (sr_id s') \<or> sr_id s' \<in> endset [Enqueue ctx' ph'] \<or>
          (\<exists>s \<in> set (w_scans w). sr_id s = sr_id s' \<and> in_flight s \<and> \<not> job_live w (sr_id s) \<and>
            sr_id s \<notin> endset [Enqueue ctx ph])"
        proof (cases "s' \<in> set (w_scans w)")
          case True
          with s'(2) show ?thesis unfolding live PhCreate by auto
        next
          case False
          with s'(1) have "s' = new_scan i ctx mode" by (simp add: eq)
          then show ?thesis by (simp add: eq id)
        qed
      next
        fix s' assume s': "s' \<in> set (w_scans w')" "sr_status s' = ScanQueued"
        then have "s' \<in> set (w_scans w) \<or> sr_id s' = i" using id by (auto simp: eq)
        with s'(2) nr show "sr_id s' \<notin> runset [Enqueue ctx' ph'] \<and>
          ((\<exists>s \<in> set (w_scans w). sr_id s = sr_id s' \<and> sr_status s = ScanQueued) \<or> sr_id s' \<notin> runset (as @ bs))"
          by (auto simp: eq)
      qed (simp add: eq)
    qed
  next
    case (PhAdd j)
    with step have eq: "w' = add_job j w" "ends (Enqueue ctx' ph') = []" "thread_ok (Enqueue ctx' ph')" by auto
    have "al_get (w_jobs w) j = None" using inv PhAdd by (auto simp: flow_inv_def thread_inv_def)
    note new = job_live_add(2) [OF this]
    show ?thesis
    proof (rule attended_jobs [where w = w and ts = "[Enqueue ctx ph]"])
      fix s assume "job_live w (sr_id s) \<or> sr_id s \<in> endset [Enqueue ctx ph]"
      then have "job_live w (sr_id s) \<or> sr_id s = j" by (simp add: PhAdd)
      then show "job_live w' (sr_id s) \<or> sr_id s \<in> endset [Enqueue ctx' ph']"
        unfolding eq(1) using new job_live_add(1) by metis
    qed (use att eq in simp_all)
  qed (use step att after_reads_thread [of _ w ctx] attended_same [of w as "Enqueue ctx ph" bs "Enqueue ctx' ph'"] in
      \<open>auto split: if_splits\<close>)
  then show ?thesis by simp
qed

lemma attended_flow_step:
  assumes "flow_step True f f'" "flow_inv f" "attended (fst f) (snd f)"
  shows "attended (fst f') (snd f')"
  using assms
proof (induction rule: flow_step.induct)
  case (request w ts inp)
  then show ?case using attended_step [where w = w and w' = w and as = ts and ts = "[]" and bs = "[]" and us = "[Enqueue (enqueue_call inp) PhLatest]"] by auto
next
  case (cancel_request w ts p)
  then show ?case using attended_step [where w = w and w' = w and as = ts and ts = "[]" and bs = "[]" and us = "[Cancel p CancelRead]"] by auto
next
  case (enqueue i up w ctx ph w' ctx' ph' as bs)
  then show ?case by (auto intro: enqueue_step_attends)
next
  case (cancel up p w ph w' ph' as bs)
  then have cs: "cancel_step True p w ph = (w', ph')" and ok: "cancel_ok ph" by (auto simp: attended_def)
  from cancel_thread_attends [OF cs cancel.prems(2) [simplified] _ ok, of "Cancel p ph'"] show ?case by simp
next
  case (settings w ts orgs pulls)
  then show ?case by (simp add: attended_def job_live_def)
next
  case (pick w i ts)
  have "attended (set_job i JobActive w) (ts @ [Claim i] @ [])"
    by (rule attended_jobs [where w = w and ts = "[]"]) (use pick in \<open>auto simp: job_live_set_job\<close>)
  then show ?case by simp
next
  case (claim i w n w' as bs)
  have w': "w' = snd (claim_scan i w)" using claim.hyps(1) by simp
  have "attended w' (as @ [Run i] @ bs)"
    by (rule attended_step [where w = w and ts = "[Claim i]"])
      (use claim.prems in \<open>auto simp: w' claim_scan_def set_status_def in_flight_def split: if_splits\<close>)
  then show ?case by simp
next
  case (skip i w w' as bs)
  have w': "w' = snd (claim_scan i w)" and none: "\<forall>s \<in> set (w_scans w). \<not> (sr_id s = i \<and> in_flight s)"
    using skip.hyps(1) by (auto simp: claim_scan_def update_scans_def filter_empty_conv)
  have "attended (set_job i JobEnded w') (as @ [] @ bs)"
    by (rule attended_step [where w = w and ts = "[Claim i]"])
      (use skip.prems none in \<open>auto simp: w' claim_scan_def job_live_set_job\<close>)
  then show ?case by simp
next
  case (force_pushed w as i bs)
  have "attended (force_push i w) (as @ [Run i] @ bs)"
    by (rule attended_step [where w = w and ts = "[Run i]"])
      (use force_pushed in \<open>auto simp: force_push_def attended_def in_flight_def split: if_splits\<close>)
  then show ?case by simp
next
  case (persist w as i bs)
  let ?w = "or_same (persist_scan (pull_of w i) i w) w"
  have "attended (set_job i JobEnded ?w) (as @ [] @ bs)"
    by (rule attended_step [where w = w and ts = "[Run i]"])
      (use persist.prems in \<open>auto simp: persist_scans job_live_set_job in_flight_def attended_def split: if_splits\<close>)
  then show ?case by simp
next
  case (retry t i w as bs)
  have "attended (set_job i JobDelayed w) (as @ [] @ bs)"
    by (rule attended_jobs [where w = w and ts = "[t]"]) (use retry in \<open>auto simp: job_live_set_job dest: job_live_some\<close>)
  then show ?case by simp
next
  case (give_up t i w as bs code)
  have "attended (set_job i JobEnded w) (as @ [Failing i code] @ bs)"
    by (rule attended_jobs [where w = w and ts = "[t]"]) (use give_up in \<open>auto simp: job_live_set_job\<close>)
  then show ?case by simp
next
  case (failed w as i code bs)
  let ?w = "or_same (fail_scan (pull_of w i) i code w) w"
  have "attended ?w (as @ [] @ bs)"
    by (rule attended_step [where w = w and ts = "[Failing i code]"])
      (use failed.prems in \<open>auto simp: fail_scans in_flight_def split: if_splits\<close>)
  then show ?case by simp
next
  case (promote w i ts)
  have "attended (set_job i JobWaiting w) (ts @ [] @ [])"
    by (rule attended_jobs [where w = w and ts = "[]"]) (use promote in \<open>auto simp: job_live_set_job\<close>)
  then show ?case by simp
next
  case (stalled w i ts)
  have "attended (set_job i JobWaiting w) (ts @ [] @ [])"
    by (rule attended_jobs [where w = w and ts = "[]"]) (use stalled in \<open>auto simp: job_live_set_job\<close>)
  then show ?case by simp
next
  case (stalled_out w i ts)
  have "attended (set_job i JobEnded w) (ts @ [Failing i None] @ [])"
    by (rule attended_jobs [where w = w and ts = "[]"]) (use stalled_out in \<open>auto simp: job_live_set_job\<close>)
  then show ?case by simp
next
  case (crash t i w as bs)
  have "attended w (as @ [] @ bs)"
    by (rule attended_jobs [where w = w and ts = "[t]"]) (use crash in auto)
  then show ?case by simp
qed

lemma attended_steps: "flow_steps True f f' \<Longrightarrow> flow_inv f \<Longrightarrow> attended (fst f) (snd f) \<Longrightarrow> attended (fst f') (snd f')"
proof (induction rule: rtranclp_induct)
  case (step g h)
  from step attended_flow_step [OF step.hyps(2) flow_inv_steps [OF step.hyps(1) step.prems(1)]] show ?case by blast
qed

lemma attended_reachable: "reachable True (w, ts) \<Longrightarrow> attended w ts"
proof -
  assume "reachable True (w, ts)"
  then obtain orgs pulls where st: "flow_steps True (empty_world orgs pulls, []) (w, ts)" by (auto simp: reachable_def)
  have "flow_inv (empty_world orgs pulls, [])" by (rule flow_inv_reachable [of True]) (auto simp: reachable_def)
  from attended_steps [OF st this] show ?thesis by (simp add: attended_def empty_world_def)
qed

subsection \<open>Runs that settle a scan\<close>

text \<open>A step of what is there already: no request to scan or to cancel arrives, and no job is given up.\<close>

fun starts :: "scan_thread \<Rightarrow> bool" where
  "starts (Enqueue ctx ph) = True"
| "starts (Cancel p ph) = True"
| "starts (Failing i code) = True"
| "starts t = False"

definition starters :: "flow \<Rightarrow> nat" where
  "starters f = length (filter starts (snd f))"

definition proceeds :: "flow \<Rightarrow> flow \<Rightarrow> bool" where
  "proceeds f f' \<longleftrightarrow> flow_step True f f' \<and> starters f' \<le> starters f"

lemma proceeds_steps: "proceeds\<^sup>*\<^sup>* f f' \<Longrightarrow> flow_steps True f f'"
  by (induction rule: rtranclp_induct) (auto simp: proceeds_def intro: rtranclp.rtrancl_into_rtrancl)

definition settles :: "flow \<Rightarrow> jstr \<Rightarrow> bool" where
  "settles f i \<longleftrightarrow> (\<exists>f'. proceeds\<^sup>*\<^sup>* f f' \<and> (\<forall>s \<in> set (w_scans (fst f')). sr_id s = i \<longrightarrow> \<not> in_flight s))"

lemma settles_now: "(\<And>s. s \<in> set (w_scans w) \<Longrightarrow> sr_id s = i \<Longrightarrow> \<not> in_flight s) \<Longrightarrow> settles (w, ts) i"
  unfolding settles_def by (intro exI [of _ "(w, ts)"]) auto

lemma settles_step: "flow_step True f f' \<Longrightarrow> settles f' i \<Longrightarrow> starters f' \<le> starters f \<Longrightarrow> settles f i"
proof -
  assume "flow_step True f f'" "starters f' \<le> starters f"
  then have "proceeds f f'" by (simp add: proceeds_def)
  then show "settles f' i \<Longrightarrow> settles f i" unfolding settles_def by (meson converse_rtranclp_into_rtranclp)
qed

lemma settles_update:
  assumes "w_scans w' = w_scans (snd (update_scans p g w))"
    and "\<And>r. r \<in> set (w_scans w) \<Longrightarrow> p r \<Longrightarrow> \<not> in_flight (g r)"
    and "\<And>r. r \<in> set (w_scans w) \<Longrightarrow> \<not> p r \<Longrightarrow> sr_id r = i \<Longrightarrow> \<not> in_flight r"
  shows "settles (w', ts) i"
proof (rule settles_now)
  fix s assume "s \<in> set (w_scans w')" "sr_id s = i"
  then obtain r where "r \<in> set (w_scans w)" "s = (if p r then g r else r)" unfolding assms(1) by auto
  with assms(2,3) \<open>sr_id s = i\<close> show "\<not> in_flight s" by (cases "p r") auto
qed

lemma run_settles:
  assumes "\<And>s. s \<in> set (w_scans w) \<Longrightarrow> sr_id s = i \<Longrightarrow> sr_status s \<noteq> ScanQueued"
  shows "settles (w, as @ Run i # bs) i"
proof (rule settles_step [OF flow_step.persist], rule settles_update)
  show "w_scans (set_job i JobEnded (or_same (persist_scan (pull_of w i) i w) w)) =
    w_scans (snd (update_scans (\<lambda>s. sr_id s = i \<and> sr_status s = ScanRunning) (\<lambda>s. s\<lparr>sr_status := ScanDone, sr_errorCode := None\<rparr>) w))"
    by (simp only: job_scans persist_scans)
  show "\<not> in_flight r" if "r \<in> set (w_scans w)" "\<not> (sr_id r = i \<and> sr_status r = ScanRunning)" "sr_id r = i" for r
    using assms [OF that(1,3)] that(2,3) by (simp add: in_flight_def)
qed (simp_all add: in_flight_def starters_def)

lemma claim_settles: "settles (w, as @ Claim i # bs) i"
proof (cases "filter (\<lambda>s. sr_id s = i \<and> in_flight s) (w_scans w) = []")
  case True
  show ?thesis by (rule settles_now) (use True in \<open>simp add: filter_empty_conv\<close>)
next
  case False
  then have n: "0 < fst (claim_scan i w)" by (simp add: claim_scan_def update_scans_def)
  have "settles (snd (claim_scan i w), as @ Run i # bs) i"
  proof (rule run_settles)
    fix s assume "s \<in> set (w_scans (snd (claim_scan i w)))" "sr_id s = i"
    then obtain r where "s = (if sr_id r = i \<and> in_flight r then set_status ScanRunning r else r)"
      unfolding claim_scan_def update_scans_other set_map by blast
    with \<open>sr_id s = i\<close> show "sr_status s \<noteq> ScanQueued"
      by (cases "sr_id r = i \<and> in_flight r") (auto simp: set_status_def in_flight_def)
  qed
  then show ?thesis by (rule settles_step [OF flow_step.claim [OF prod.collapse [symmetric] n]]) (simp add: starters_def)
qed

lemma waiting_settles: "al_get (w_jobs w) i = Some JobWaiting \<Longrightarrow> settles (w, ts) i"
  by (rule settles_step [OF flow_step.pick claim_settles [of _ ts i "[]"]]) (simp_all add: starters_def)

lemma set_job_get: "al_get (w_jobs w) i \<noteq> None \<Longrightarrow> al_get (w_jobs (set_job i st w)) i = Some st"
  by (simp add: set_job_def)

lemma job_live_settles:
  assumes "job_live w i"
  shows "settles (w, ts) i"
proof -
  from assms obtain st where st: "al_get (w_jobs w) i = Some st" "st \<noteq> JobEnded" by (auto simp: job_live_def)
  then have again: "settles (set_job i JobWaiting w, ts) i" by (intro waiting_settles set_job_get) simp
  show ?thesis
  proof (cases st)
    case JobWaiting
    with st waiting_settles show ?thesis by simp
  next
    case JobActive
    with st settles_step [OF flow_step.stalled again] show ?thesis by (simp add: starters_def)
  qed (use st settles_step [OF flow_step.promote again] in \<open>auto simp: starters_def\<close>)
qed

lemma failing_settles: "settles (w, as @ Failing i code # bs) i"
  by (rule settles_step [OF flow_step.failed], rule settles_update [OF fail_scans]) (auto simp: in_flight_def starters_def)

lemma fresh_id: "\<exists>i. i \<notin> sr_id ` set (w_scans w)"
  by (rule ex_new_if_finite) (simp_all add: infinite_UNIV_listI)

lemma enqueue_settles:
  assumes "enqueue_step j True w ctx ph = (w', ctx', ph')" "settles (w', as @ Enqueue ctx' ph' # bs) i"
    "j \<notin> sr_id ` set (w_scans w)"
  shows "settles (w, as @ Enqueue ctx ph # bs) i"
  using settles_step [OF flow_step.enqueue [OF assms(1,3)] assms(2)] by (simp add: starters_def)

lemma add_settles:
  assumes "al_get (w_jobs w) i = None"
  shows "settles (w, as @ Enqueue ctx (PhAdd i) # bs) i"
proof -
  obtain j where j: "j \<notin> sr_id ` set (w_scans w)" using fresh_id by blast
  from job_live_add(2) [OF assms] have "settles (add_job i w, ts) i" for ts by (rule job_live_settles)
  then show ?thesis by (intro enqueue_settles [OF _ _ j]) auto
qed

lemma update_settles: "i \<in> set ids \<Longrightarrow> settles (snd (supersede ids w), ts) i"
  unfolding supersede_def by (rule settles_update [OF refl]) (auto simp: in_flight_def)

lemma cancel_thread_settles:
  assumes "cancel_step True p w c = (w', c')" "settles (w', as @ Cancel p c' # bs) i"
  shows "settles (w, as @ Cancel p c # bs) i"
  using settles_step [OF flow_step.cancel [OF assms(1)] assms(2)] by (simp add: starters_def)

lemma cancel_settles:
  "i \<in> set (cancel_ends c) \<Longrightarrow> settles (w, as @ Cancel p c # bs) i"
proof -
  have upd: "settles (w, as @ Cancel p (CancelUpdate ids) # bs) i" if "i \<in> set ids" for ids w
    by (rule cancel_thread_settles [where w' = "snd (supersede ids w)"]) (simp_all add: case_prod_beta update_settles that)
  have rem: "settles (w, as @ Cancel p (CancelRemove ids todo) # bs) i" if i: "i \<in> set ids" for ids todo
  proof (induction todo arbitrary: w)
    case Nil
    show ?case by (rule cancel_thread_settles [OF _ upd [OF i]]) simp
  next
    case (Cons j todo)
    show ?case by (rule cancel_thread_settles [OF _ Cons.IH]) simp
  qed
  assume "i \<in> set (cancel_ends c)"
  with upd rem show ?thesis by (cases c) auto
qed

lemma enqueue_cancel_settles:
  "i \<in> set (cancel_ends c) \<Longrightarrow> settles (w, as @ Enqueue ctx (PhCancel c) # bs) i"
proof -
  have upd: "settles (w, as @ Enqueue ctx (PhCancel (CancelUpdate ids)) # bs) i" if "i \<in> set ids" for ids w
    using fresh_id [of w] update_settles [OF that]
    by (elim exE) (rule enqueue_settles [where w' = "snd (supersede ids w)"], auto simp: case_prod_beta)
  have rem: "settles (w, as @ Enqueue ctx (PhCancel (CancelRemove ids todo)) # bs) i" if i: "i \<in> set ids" for ids todo
  proof (induction todo arbitrary: w)
    case Nil
    show ?case using fresh_id [of w] by (elim exE) (rule enqueue_settles [OF _ upd [OF i]], auto)
  next
    case (Cons j todo)
    show ?case using fresh_id [of w] by (elim exE) (rule enqueue_settles [OF _ Cons.IH], auto)
  qed
  assume "i \<in> set (cancel_ends c)"
  with upd rem show ?thesis by (cases c) auto
qed

lemma thread_settles:
  assumes "thread_inv w ts" "t \<in> set ts" "i \<in> set (ends t)"
  shows "settles (w, ts) i"
proof -
  from split_list [OF assms(2)] obtain as bs where ts: "ts = as @ t # bs" by blast
  show ?thesis
  proof (cases t)
    case (Enqueue ctx ph)
    show ?thesis
    proof (cases ph)
      case (PhAdd j)
      with Enqueue assms have "i = j" "al_get (w_jobs w) j = None" by (auto simp: ts thread_inv_def)
      with add_settles show ?thesis by (simp add: ts Enqueue PhAdd)
    qed (use Enqueue assms(3) enqueue_cancel_settles in \<open>auto simp: ts\<close>)
  qed (use assms(3) cancel_settles failing_settles in \<open>auto simp: ts\<close>)
qed

lemma steps_ids: "flow_steps up f f' \<Longrightarrow> flow_inv f \<Longrightarrow> sr_id ` set (w_scans (fst f)) \<subseteq> sr_id ` set (w_scans (fst f'))"
proof (induction rule: rtranclp_induct)
  case (step g h)
  have "sr_id ` set (w_scans (fst g)) \<subseteq> sr_id ` set (w_scans (fst h))"
  proof
    fix i assume "i \<in> sr_id ` set (w_scans (fst g))"
    then obtain s where s: "s \<in> set (w_scans (fst g))" "sr_id s = i" by blast
    from step_tracks [OF step.hyps(2) flow_inv_steps [OF step.hyps(1) step.prems] s(1)] s(2)
    show "i \<in> sr_id ` set (w_scans (fst h))" by (auto simp: tracks_def intro: rev_image_eqI)
  qed
  with step show ?case by blast
qed simp


subsection \<open>Concrete runs\<close>

text \<open>A call driven through its steps; at each, the id the database would give and whether the
  service answers.\<close>

fun drive :: "(jstr \<times> bool) list \<Rightarrow> world \<Rightarrow> enqueue_ctx \<Rightarrow> phase \<Rightarrow> (world \<times> enqueue_ctx \<times> phase) option" where
  "drive [] w ctx ph = Some (w, ctx, ph)"
| "drive ((i, up) # us) w ctx ph =
    (if i \<in> sr_id ` set (w_scans w) then None
     else (let (w', ctx', ph') = enqueue_step i up w ctx ph in drive us w' ctx' ph'))"

lemma drive_steps:
  "drive us w ctx ph = Some (w', ctx', ph') \<Longrightarrow> (services_up \<Longrightarrow> list_all snd us) \<Longrightarrow>
    flow_steps services_up (w, as @ Enqueue ctx ph # bs) (w', as @ Enqueue ctx' ph' # bs)"
proof (induction us w ctx ph rule: drive.induct)
  case (2 i up us w ctx ph)
  obtain w2 ctx2 ph2 where st: "enqueue_step i up w ctx ph = (w2, ctx2, ph2)" using prod_cases3 by blast
  from 2(2) have fresh: "i \<notin> sr_id ` set (w_scans w)" by (auto split: if_splits)
  with 2 st have "flow_steps services_up (w2, as @ Enqueue ctx2 ph2 # bs) (w', as @ Enqueue ctx' ph' # bs)" by auto
  moreover have "flow_step services_up (w, as @ Enqueue ctx ph # bs) (w2, as @ Enqueue ctx2 ph2 # bs)"
    by (rule flow_step.enqueue [OF st fresh]) (use 2(3) in auto)
  ultimately show ?case by (rule converse_rtranclp_into_rtranclp [rotated])
qed simp

definition sample_push :: "jstr \<Rightarrow> enqueue_input" where
  "sample_push sha = \<lparr>ei_organizationId = ''o'', ei_repositoryId = ''r'', ei_pullId = ''p'', ei_headSha = sha,
    ei_trigger = TriggerWebhook, ei_full = False\<rparr>"

definition sample_ctx :: enqueue_ctx where
  "sample_ctx = \<lparr>ec_input = sample_push ''1'', ec_latest = None, ec_ruleTiers = ALL_RULE_TIERS,
    ec_trigger = TriggerWebhook\<rparr>"

definition first_mode :: scan_mode where
  "first_mode = \<lparr>md_diffMode = DiffFull, md_fullReason = Some FirstScan, md_baseScanId = None, md_prevHeadSha = None\<rparr>"

definition no_world :: world where
  "no_world = empty_world (\<lambda>_. None) (\<lambda>_. None)"

definition queued_world :: world where
  "queued_world = no_world\<lparr>w_scans := [new_scan ''a'' sample_ctx first_mode], w_jobs := [(''a'', JobWaiting)]\<rparr>"

definition returned :: "jstr \<Rightarrow> bool \<Rightarrow> phase" where
  "returned i dup = PhReturned \<lparr>er_scanId = i, er_status = ScanQueued, er_deduplicated = dup\<rparr>"

lemmas run_defs = no_world_def empty_world_def queued_world_def sample_push_def sample_ctx_def first_mode_def
  enqueue_call_def latestForSha_def first_of_def after_reads_def org_tiers_def rulesetIsStale_def in_flight_of_def
  mode_for_def last_done_def pull_org_def decideScanMode_def full_mode_def violates_unique_def new_scan_def
  add_job_def returned_def enabledTiers_def same_sha_def in_flight_def remove_job_def removable_def

lemma tiers_all: "filter (\<lambda>t. True) ALL_RULE_TIERS = ALL_RULE_TIERS"
  by simp

lemma sample_queued:
  "drive (replicate 6 (''a'', True) @ [(''b'', True)]) no_world (enqueue_call (sample_push ''1'')) PhLatest =
    Some (queued_world, sample_ctx, returned ''a'' False)"
  by (simp add: eval_nat_numeral run_defs)

lemma queued_reachable: "reachable up (queued_world, [Enqueue sample_ctx (returned ''a'' False)])"
proof -
  have "flow_steps up (no_world, []) (no_world, [Enqueue (enqueue_call (sample_push ''1'')) PhLatest])"
    using flow_step.request [of up no_world "[]" "sample_push ''1''"] by auto
  moreover from drive_steps [OF sample_queued, of up "[]" "[]"]
  have "flow_steps up (no_world, [Enqueue (enqueue_call (sample_push ''1'')) PhLatest])
      (queued_world, [Enqueue sample_ctx (returned ''a'' False)])" by (simp add: list_all_iff)
  ultimately show ?thesis
    unfolding reachable_def no_world_def by (meson rtranclp_trans)
qed

text \<open>The worker finishes the scan.\<close>

definition done_world :: world where
  "done_world = queued_world\<lparr>w_scans := [(new_scan ''a'' sample_ctx first_mode)\<lparr>sr_status := ScanDone\<rparr>],
    w_jobs := [(''a'', JobEnded)], w_latest := [''p'' \<mapsto> ''a''], w_results := [''a'']\<rparr>"

lemma done_reachable: "reachable up (done_world, [Enqueue sample_ctx (returned ''a'' False)])"
proof -
  let ?t = "Enqueue sample_ctx (returned ''a'' False)"
  let ?wa = "set_job ''a'' JobActive queued_world"
  let ?wr = "snd (claim_scan ''a'' ?wa)"
  have p: "flow_step up (queued_world, [?t]) (?wa, [?t] @ [Claim ''a''])"
    by (rule flow_step.pick) (simp add: run_defs)
  have c: "flow_step up (?wa, [?t] @ Claim ''a'' # []) (?wr, [?t] @ Run ''a'' # [])"
    by (rule flow_step.claim [OF prod.collapse [symmetric]])
      (simp add: claim_scan_def update_scans_def set_job_def run_defs)
  have d: "flow_step up (?wr, [?t] @ Run ''a'' # []) (set_job ''a'' JobEnded (or_same (persist_scan (pull_of ?wr ''a'') ''a'' ?wr) ?wr), [?t] @ [])"
    by (rule flow_step.persist)
  have "set_job ''a'' JobEnded (or_same (persist_scan (pull_of ?wr ''a'') ''a'' ?wr) ?wr) = done_world"
    by (simp add: claim_scan_def update_scans_def set_job_def persist_scan_def or_same_def pull_of_def scan_of_def
        set_status_def set_latest_def done_world_def run_defs)
  with d have d': "flow_step up (?wr, [?t] @ Run ''a'' # []) (done_world, [?t])" by simp
  have "flow_steps up (queued_world, [?t]) (done_world, [?t])"
    using p c d' by (simp add: converse_rtranclp_into_rtranclp)
  with queued_reachable [of up] show ?thesis unfolding reachable_def by (meson rtranclp_trans)
qed

lemma scan_results_published_once_witness:
  "w_latest done_world ''p'' = Some ''a'' \<and>
   (\<exists>s \<in> set (w_scans done_world). sr_id s = ''a'' \<and> sr_pullId s = ''p'' \<and> (sr_status s = ScanDone \<or> sr_status s = ScanFailed))"
proof -
  have l: "w_latest done_world ''p'' = Some ''a''" by (simp add: done_world_def)
  with scan_results_published_once [OF done_reachable [of True]] show ?thesis by blast
qed

lemma scan_status_moves_forward_witness:
  "\<exists>s' \<in> set (w_scans (set_job ''a'' JobActive queued_world)). sr_id s' = ''a'' \<and>
    (sr_status s' = ScanQueued \<or>
     (ScanQueued, sr_status s') \<in>
       {(ScanQueued, ScanRunning), (ScanQueued, ScanSuperseded), (ScanQueued, ScanFailed),
        (ScanRunning, ScanDone), (ScanRunning, ScanSuperseded), (ScanRunning, ScanFailed),
        (ScanSuperseded, ScanFailed)})"
proof -
  let ?s = "new_scan ''a'' sample_ctx first_mode"
  have "flow_step True (queued_world, [Enqueue sample_ctx (returned ''a'' False)])
      (set_job ''a'' JobActive queued_world, [Enqueue sample_ctx (returned ''a'' False)] @ [Claim ''a''])"
    by (rule flow_step.pick) (simp add: queued_world_def)
  moreover have s: "?s \<in> set (w_scans queued_world)" by (simp add: queued_world_def)
  moreover have "sr_id ?s = ''a''" "sr_status ?s = ScanQueued" by (simp_all add: new_scan_def)
  ultimately show ?thesis using scan_status_moves_forward [OF queued_reachable [of True] _ s] by metis
qed


text \<open>A newer push removes the job, then the database fails before the scan is superseded: the scan
  stays queued with no job and no thread to attend it, and a redelivery of its webhook is answered
  with it as a duplicate.\<close>

definition stranded_world :: world where
  "stranded_world = queued_world\<lparr>w_jobs := []\<rparr>"

lemma sample_stranded:
  "\<exists>ctx. drive [(''b'', True), (''b'', True), (''b'', True), (''b'', True), (''b'', True), (''b'', False), (''b'', True)]
    queued_world (enqueue_call (sample_push ''2'')) PhLatest = Some (stranded_world, ctx, PhThrown)"
  by (simp add: run_defs stranded_world_def Let_def)

lemma stranded_scan:
  "(\<exists>ctx. reachable False (stranded_world, [Enqueue sample_ctx (returned ''a'' False), Enqueue ctx PhThrown])) \<and>
   \<not> job_live stranded_world ''a'' \<and>
   enqueue ''c'' True stranded_world (sample_push ''1'') = (stranded_world, returned ''a'' True)"
proof (intro conjI)
  let ?t = "Enqueue sample_ctx (returned ''a'' False)"
  obtain ctx where d: "drive [(''b'', True), (''b'', True), (''b'', True), (''b'', True), (''b'', True), (''b'', False), (''b'', True)]
    queued_world (enqueue_call (sample_push ''2'')) PhLatest = Some (stranded_world, ctx, PhThrown)"
    using sample_stranded by blast
  have "flow_step False (queued_world, [?t]) (queued_world, [?t] @ [Enqueue (enqueue_call (sample_push ''2'')) PhLatest])"
    by (rule flow_step.request)
  moreover from drive_steps [OF d, of False "[?t]" "[]"]
  have "flow_steps False (queued_world, [?t] @ [Enqueue (enqueue_call (sample_push ''2'')) PhLatest])
      (stranded_world, [?t, Enqueue ctx PhThrown])" by simp
  ultimately have "flow_steps False (queued_world, [?t]) (stranded_world, [?t, Enqueue ctx PhThrown])"
    by (rule converse_rtranclp_into_rtranclp)
  with queued_reachable [of False] show "\<exists>ctx. reachable False (stranded_world, [?t, Enqueue ctx PhThrown])"
    unfolding reachable_def by (meson rtranclp_trans)
  show "\<not> job_live stranded_world ''a''" by (simp add: job_live_def stranded_world_def)
  show "enqueue ''c'' True stranded_world (sample_push ''1'') = (stranded_world, returned ''a'' True)"
    by (simp add: enqueue_def eval_nat_numeral stranded_world_def run_defs WEBHOOK_DEDUPE_STATUSES_def)
qed

text \<open>The stranded scan does not get to an end by what is there: only a new request can settle it.\<close>

lemma stranded_stays:
  assumes "proceeds\<^sup>*\<^sup>* (stranded_world, [Enqueue sample_ctx (returned ''a'' False), Enqueue ctx PhThrown]) f"
  shows "\<exists>s. w_scans (fst f) = [s] \<and> sr_id s = ''a'' \<and> sr_status s = ScanQueued"
proof -
  have "w_scans (fst f) = w_scans stranded_world \<and> w_jobs (fst f) = [] \<and>
      snd f = [Enqueue sample_ctx (returned ''a'' False), Enqueue ctx PhThrown]"
    using assms
  proof (induction rule: rtranclp_induct)
    case (step g h)
    have still: "as @ t # bs = [a, b] \<Longrightarrow> t = a \<and> as = [] \<and> bs = [b] \<or> t = b \<and> as = [a] \<and> bs = []" for as bs and t a b :: scan_thread
      by (cases as) (auto simp: append_eq_Cons_conv)
    from step.hyps(2) have "flow_step True g h" "starters h \<le> starters g" by (simp_all add: proceeds_def)
    then show ?case using step.IH
      by (cases rule: flow_step.cases)
        (auto simp: starters_def returned_def set_job_def dest!: still split: if_splits)
  qed (simp add: stranded_world_def)
  then show ?thesis by (simp add: stranded_world_def queued_world_def new_scan_def)
qed

end
