(* ===== verification/Members.thy ===== *)
theory Members
  imports Js_Regex
begin

section \<open>Members and invitations\<close>

text \<open>
  \<open>src/modules/members/members.service.ts\<close> and \<open>invitation-token.ts\<close>.  The tables are an
  explicit state; memberships and invitations are in the order of their creation.  SHA-256 and
  the random bytes are parameters, and so are the clock and whether Redis and the email queue
  can be reached.  An exception is \<open>Inl\<close> of its HTTP status, field and message, with the
  state as it is then; log entries and realtime events are left out.
\<close>

datatype role = ADMIN | REVIEWER | VIEWER
datatype membership_status = MemberActive | MemberInvited
datatype email_status = EmailPending | EmailSent | EmailFailed | EmailNotConfigured
datatype invite_status = InviteAccepted | InviteRevoked | InviteExpired | InvitePending

record membership =
  mb_userId :: jstr
  mb_organizationId :: jstr
  mb_role :: role
  mb_status :: membership_status

record invitation =
  iv_id :: jstr
  iv_organizationId :: jstr
  iv_email :: jstr
  iv_role :: role
  iv_tokenHash :: jstr
  iv_invitedById :: "jstr option"
  iv_expiresAt :: int
  iv_acceptedAt :: "int option"
  iv_acceptedById :: "jstr option"
  iv_revokedAt :: "int option"
  iv_emailStatus :: email_status
  iv_emailError :: "jstr option"

record members_db =
  mdb_memberships :: "membership list"
  mdb_invitations :: "invitation list"
  mdb_emails :: "(jstr \<times> jstr) list"
  mdb_invites_sent :: "(jstr \<times> nat) list"
  mdb_mail :: "(jstr \<times> jstr) list"

text \<open>\<open>mdb_emails\<close> gives a user's email, \<open>mdb_invites_sent\<close> the counters of the rate limiter,
  \<open>mdb_mail\<close> the invitation and token of each email job.\<close>

record members_env =
  me_sha256 :: "jstr \<Rightarrow> jstr"
  me_now :: int
  me_token :: jstr
  me_newId :: jstr
  me_redisUp :: bool
  me_mailConfigured :: bool
  me_mailQueueUp :: bool

type_synonym api_error = "nat \<times> jstr \<times> jstr"
type_synonym 'a api = "(api_error + 'a) \<times> members_db"

subsection \<open>Invitation tokens\<close>

definition INVITATION_TTL_MS :: int where "INVITATION_TTL_MS = 7 * 24 * 60 * 60 * 1000"
definition INVITE_RATE_LIMIT :: nat where "INVITE_RATE_LIMIT = 20"

definition is_token_char :: "char \<Rightarrow> bool" where
  "is_token_char c \<longleftrightarrow> is_alnum c \<or> c = CHR ''_'' \<or> c = CHR ''-''"

definition isInvitationTokenShape :: "jstr \<Rightarrow> bool" where
  "isInvitationTokenShape s \<longleftrightarrow> length s = 43 \<and> list_all is_token_char s"

definition invitationUrl :: "jstr \<Rightarrow> jstr \<Rightarrow> jstr" where
  "invitationUrl feUrl token = rev (dropWhile (\<lambda>c. c = CHR ''/'') (rev feUrl)) @ ''/invite/'' @ token"

definition maskEmail :: "jstr \<Rightarrow> jstr" where
  "maskEmail email =
    (case last_index_of email ''@'' of
      None \<Rightarrow> ''***''
    | Some at_pos \<Rightarrow> if at_pos = 0 then ''***''
        else take (if at_pos \<le> 2 then 1 else 2) email @ ''***'' @ drop at_pos email)"

subsection \<open>Reading\<close>

definition statusOf :: "invitation \<Rightarrow> int \<Rightarrow> invite_status" where
  "statusOf iv now =
    (if iv_acceptedAt iv \<noteq> None then InviteAccepted
     else if iv_revokedAt iv \<noteq> None then InviteRevoked
     else if iv_expiresAt iv \<le> now then InviteExpired
     else InvitePending)"

definition is_open :: "invitation \<Rightarrow> bool" where
  "is_open iv \<longleftrightarrow> iv_acceptedAt iv = None \<and> iv_revokedAt iv = None"

definition find_membership :: "members_db \<Rightarrow> jstr \<Rightarrow> jstr \<Rightarrow> membership option" where
  "find_membership db orgId userId =
    List.find (\<lambda>m. mb_userId m = userId \<and> mb_organizationId m = orgId) (mdb_memberships db)"

definition is_active_in :: "jstr \<Rightarrow> membership \<Rightarrow> bool" where
  "is_active_in orgId m \<longleftrightarrow> mb_organizationId m = orgId \<and> mb_status m = MemberActive"

definition is_admin_in :: "jstr \<Rightarrow> membership \<Rightarrow> bool" where
  "is_admin_in orgId m \<longleftrightarrow> is_active_in orgId m \<and> mb_role m = ADMIN"

definition list_members :: "members_db \<Rightarrow> jstr \<Rightarrow> jstr \<Rightarrow> membership list \<times> invitation list option" where
  "list_members db orgId viewerId =
    (let memberships = filter (is_active_in orgId) (mdb_memberships db);
         viewerIsAdmin = list_ex (\<lambda>m. mb_userId m = viewerId \<and> mb_role m = ADMIN) memberships
     in (memberships,
         if viewerIsAdmin
         then Some (rev (filter (\<lambda>iv. iv_organizationId iv = orgId \<and> is_open iv) (mdb_invitations db)))
         else None))"

definition findInvitationOrThrow :: "members_db \<Rightarrow> jstr \<Rightarrow> jstr \<Rightarrow> api_error + invitation" where
  "findInvitationOrThrow db orgId invitationId =
    (case List.find (\<lambda>iv. iv_id iv = invitationId) (mdb_invitations db) of
      Some iv \<Rightarrow> if iv_organizationId iv = orgId then Inr iv else Inl (404, ''invitationId'', ''invite_not_found'')
    | None \<Rightarrow> Inl (404, ''invitationId'', ''invite_not_found''))"

definition assertOpen :: "invitation \<Rightarrow> api_error option" where
  "assertOpen iv =
    (if iv_acceptedAt iv \<noteq> None then Some (409, ''invitationId'', ''invite_used'')
     else if iv_revokedAt iv \<noteq> None then Some (409, ''invitationId'', ''invite_revoked'')
     else None)"

definition findByToken :: "members_env \<Rightarrow> members_db \<Rightarrow> jstr \<Rightarrow> api_error + invitation" where
  "findByToken env db token =
    (case (if isInvitationTokenShape token
           then List.find (\<lambda>iv. iv_tokenHash iv = me_sha256 env token) (mdb_invitations db) else None) of
      Some iv \<Rightarrow> Inr iv
    | None \<Rightarrow> Inl (404, ''token'', ''invite_not_found''))"

definition preview :: "members_env \<Rightarrow> members_db \<Rightarrow> jstr \<Rightarrow> api_error + (jstr \<times> role \<times> jstr \<times> int \<times> invite_status)" where
  "preview env db token =
    map_sum id (\<lambda>iv. (iv_organizationId iv, iv_role iv, maskEmail (iv_email iv), iv_expiresAt iv, statusOf iv (me_now env)))
      (findByToken env db token)"

subsection \<open>Rate limit\<close>

definition assertWithinRateLimit :: "members_env \<Rightarrow> jstr \<Rightarrow> members_db \<Rightarrow> unit api" where
  "assertWithinRateLimit env orgId db =
    (if \<not> me_redisUp env then (Inr (), db)
     else (let n = Suc (case al_get (mdb_invites_sent db) orgId of Some k \<Rightarrow> k | None \<Rightarrow> 0);
               db' = db\<lparr>mdb_invites_sent := al_set orgId n (mdb_invites_sent db)\<rparr>
       in if n \<le> INVITE_RATE_LIMIT then (Inr (), db') else (Inl (429, ''email'', ''invite_rate_limited''), db')))"

subsection \<open>Inviting\<close>

text \<open>\<open>updateMany\<close> on the invitations, with the number of rows.\<close>

definition update_invitations :: "(invitation \<Rightarrow> bool) \<Rightarrow> (invitation \<Rightarrow> invitation) \<Rightarrow> members_db \<Rightarrow> nat \<times> members_db" where
  "update_invitations p g db =
    (length (filter p (mdb_invitations db)),
     db\<lparr>mdb_invitations := map (\<lambda>iv. if p iv then g iv else iv) (mdb_invitations db)\<rparr>)"

definition enqueueEmail :: "members_env \<Rightarrow> invitation \<Rightarrow> jstr \<Rightarrow> members_db \<Rightarrow> invitation \<times> members_db" where
  "enqueueEmail env iv token db =
    (if \<not> me_mailConfigured env then (iv, db)
     else if me_mailQueueUp env then (iv, db\<lparr>mdb_mail := mdb_mail db @ [(iv_id iv, token)]\<rparr>)
     else (let g = (\<lambda>x. x\<lparr>iv_emailStatus := EmailFailed, iv_emailError := Some ''queue_unavailable''\<rparr>)
       in (g iv, snd (update_invitations (\<lambda>x. iv_id x = iv_id iv) g db))))"

definition new_email_status :: "members_env \<Rightarrow> email_status" where
  "new_email_status env = (if me_mailConfigured env then EmailPending else EmailNotConfigured)"

definition email_of :: "members_db \<Rightarrow> jstr \<Rightarrow> jstr option" where
  "email_of db userId = al_get (mdb_emails db) userId"

definition already_member :: "members_db \<Rightarrow> jstr \<Rightarrow> jstr \<Rightarrow> bool" where
  "already_member db orgId email \<longleftrightarrow>
    list_ex (\<lambda>m. is_active_in orgId m \<and> map_option to_lower (email_of db (mb_userId m)) = Some (to_lower email)) (mdb_memberships db)"

definition invite_pending :: "members_db \<Rightarrow> jstr \<Rightarrow> jstr \<Rightarrow> int \<Rightarrow> bool" where
  "invite_pending db orgId email now \<longleftrightarrow>
    list_ex (\<lambda>iv. iv_organizationId iv = orgId \<and> iv_email iv = email \<and> is_open iv \<and> now < iv_expiresAt iv) (mdb_invitations db)"

definition invite :: "members_env \<Rightarrow> jstr \<Rightarrow> jstr \<Rightarrow> jstr \<Rightarrow> role \<Rightarrow> members_db \<Rightarrow> (invitation \<times> jstr) api" where
  "invite env orgId actorUserId dto_email dto_role db =
    (case assertWithinRateLimit env orgId db of
      (Inl e, db1) \<Rightarrow> (Inl e, db1)
    | (Inr _, db1) \<Rightarrow>
       (let email = to_lower (trim dto_email); now = me_now env; hash = me_sha256 env (me_token env)
        in if already_member db1 orgId email then (Inl (409, ''email'', ''already_member''), db1)
           else if invite_pending db1 orgId email now then (Inl (409, ''email'', ''invite_pending''), db1)
           else if hash \<in> iv_tokenHash ` set (mdb_invitations db1) then (Inl (500, ''tokenHash'', ''P2002''), db1)
           else (let iv = \<lparr>iv_id = me_newId env, iv_organizationId = orgId, iv_email = email, iv_role = dto_role,
                   iv_tokenHash = hash, iv_invitedById = Some actorUserId, iv_expiresAt = now + INVITATION_TTL_MS,
                   iv_acceptedAt = None, iv_acceptedById = None, iv_revokedAt = None,
                   iv_emailStatus = new_email_status env, iv_emailError = None\<rparr>;
                 (sent, db2) = enqueueEmail env iv (me_token env) (db1\<lparr>mdb_invitations := mdb_invitations db1 @ [iv]\<rparr>)
             in (Inr (sent, me_token env), db2))))"

definition resend :: "members_env \<Rightarrow> jstr \<Rightarrow> jstr \<Rightarrow> members_db \<Rightarrow> (invitation \<times> jstr) api" where
  "resend env orgId invitationId db =
    (case assertWithinRateLimit env orgId db of
      (Inl e, db1) \<Rightarrow> (Inl e, db1)
    | (Inr _, db1) \<Rightarrow>
       (case findInvitationOrThrow db1 orgId invitationId of
          Inl e \<Rightarrow> (Inl e, db1)
        | Inr existing \<Rightarrow>
           (case assertOpen existing of
              Some e \<Rightarrow> (Inl e, db1)
            | None \<Rightarrow>
               (let hash = me_sha256 env (me_token env)
                in if hash \<in> iv_tokenHash ` {iv \<in> set (mdb_invitations db1). iv_id iv \<noteq> invitationId}
                   then (Inl (500, ''tokenHash'', ''P2002''), db1)
                   else (let (count, db2) = update_invitations (\<lambda>iv. iv_id iv = invitationId \<and> is_open iv)
                           (\<lambda>iv. iv\<lparr>iv_tokenHash := hash, iv_expiresAt := me_now env + INVITATION_TTL_MS,
                              iv_emailStatus := new_email_status env, iv_emailError := None\<rparr>) db1
                     in if count = 0 then (Inl (409, ''invitationId'', ''invite_used''), db2)
                        else (case List.find (\<lambda>iv. iv_id iv = invitationId) (mdb_invitations db2) of
                            None \<Rightarrow> (Inl (500, ''invitationId'', ''P2025''), db2)
                          | Some iv \<Rightarrow> (let (sent, db3) = enqueueEmail env iv (me_token env) db2
                              in (Inr (sent, me_token env), db3))))))))"

definition revoke :: "members_env \<Rightarrow> jstr \<Rightarrow> jstr \<Rightarrow> members_db \<Rightarrow> jstr api" where
  "revoke env orgId invitationId db =
    (case findInvitationOrThrow db orgId invitationId of
      Inl e \<Rightarrow> (Inl e, db)
    | Inr existing \<Rightarrow>
        if iv_acceptedAt existing \<noteq> None then (Inl (409, ''invitationId'', ''invite_used''), db)
        else if iv_revokedAt existing = None
        then (Inr invitationId, snd (update_invitations (\<lambda>iv. iv_id iv = invitationId \<and> is_open iv)
               (\<lambda>iv. iv\<lparr>iv_revokedAt := Some (me_now env)\<rparr>) db))
        else (Inr invitationId, db))"

subsection \<open>Roles and removals\<close>

definition findMemberOrThrow :: "members_db \<Rightarrow> jstr \<Rightarrow> jstr \<Rightarrow> api_error + membership" where
  "findMemberOrThrow db orgId userId =
    (case find_membership db orgId userId of
      Some m \<Rightarrow> if mb_status m = MemberActive then Inr m else Inl (404, ''userId'', ''member_not_found'')
    | None \<Rightarrow> Inl (404, ''userId'', ''member_not_found''))"

definition assertAnotherAdmin :: "members_db \<Rightarrow> jstr \<Rightarrow> jstr \<Rightarrow> api_error option" where
  "assertAnotherAdmin db orgId userId =
    (if list_ex (\<lambda>m. mb_userId m \<noteq> userId) (filter (is_admin_in orgId) (mdb_memberships db)) then None
     else Some (422, ''userId'', ''last_admin''))"

definition same_member :: "jstr \<Rightarrow> jstr \<Rightarrow> membership \<Rightarrow> bool" where
  "same_member orgId userId m \<longleftrightarrow> mb_userId m = userId \<and> mb_organizationId m = orgId"

definition set_role :: "jstr \<Rightarrow> jstr \<Rightarrow> role \<Rightarrow> members_db \<Rightarrow> members_db" where
  "set_role orgId userId new db = db\<lparr>mdb_memberships :=
    map (\<lambda>m. if same_member orgId userId m then m\<lparr>mb_role := new\<rparr> else m) (mdb_memberships db)\<rparr>"

definition delete_member :: "jstr \<Rightarrow> jstr \<Rightarrow> members_db \<Rightarrow> members_db" where
  "delete_member orgId userId db =
    db\<lparr>mdb_memberships := filter (\<lambda>m. \<not> same_member orgId userId m) (mdb_memberships db)\<rparr>"

definition changeRole :: "jstr \<Rightarrow> jstr \<Rightarrow> role \<Rightarrow> members_db \<Rightarrow> membership api" where
  "changeRole orgId userId new db =
    (case findMemberOrThrow db orgId userId of
      Inl e \<Rightarrow> (Inl e, db)
    | Inr current \<Rightarrow>
        if mb_role current = new then (Inr current, db)
        else (case (if mb_role current = ADMIN then assertAnotherAdmin db orgId userId else None) of
            Some e \<Rightarrow> (Inl e, db)
          | None \<Rightarrow> (Inr (current\<lparr>mb_role := new\<rparr>), set_role orgId userId new db)))"

definition remove_member :: "jstr \<Rightarrow> jstr \<Rightarrow> members_db \<Rightarrow> jstr api" where
  "remove_member orgId userId db =
    (case findMemberOrThrow db orgId userId of
      Inl e \<Rightarrow> (Inl e, db)
    | Inr current \<Rightarrow>
       (case (if mb_role current = ADMIN then assertAnotherAdmin db orgId userId else None) of
          Some e \<Rightarrow> (Inl e, db)
        | None \<Rightarrow> (Inr userId, delete_member orgId userId db)))"

subsection \<open>Accepting\<close>

definition gone_message :: "invite_status \<Rightarrow> jstr" where
  "gone_message s = (case s of InviteAccepted \<Rightarrow> ''invite_used'' | InviteRevoked \<Rightarrow> ''invite_revoked''
    | InviteExpired \<Rightarrow> ''invite_expired'' | InvitePending \<Rightarrow> [])"

definition upsert_member :: "jstr \<Rightarrow> jstr \<Rightarrow> role \<Rightarrow> members_db \<Rightarrow> members_db" where
  "upsert_member orgId userId r db =
    (if find_membership db orgId userId = None
     then db\<lparr>mdb_memberships := mdb_memberships db @
       [\<lparr>mb_userId = userId, mb_organizationId = orgId, mb_role = r, mb_status = MemberActive\<rparr>]\<rparr>
     else db\<lparr>mdb_memberships := map (\<lambda>m. if same_member orgId userId m
       then m\<lparr>mb_role := r, mb_status := MemberActive\<rparr> else m) (mdb_memberships db)\<rparr>)"

definition accept :: "members_env \<Rightarrow> jstr \<Rightarrow> jstr \<Rightarrow> members_db \<Rightarrow> (jstr \<times> role) api" where
  "accept env token userId db =
    (case findByToken env db token of
      Inl e \<Rightarrow> (Inl e, db)
    | Inr iv \<Rightarrow>
       (let now = me_now env; orgId = iv_organizationId iv
        in if statusOf iv now \<noteq> InvitePending then (Inl (410, ''token'', gone_message (statusOf iv now)), db)
           else if email_of db userId = None then (Inl (401, [], ''Session user no longer exists.''), db)
           else if (case find_membership db orgId userId of Some m \<Rightarrow> mb_status m = MemberActive | None \<Rightarrow> False)
           then (Inl (409, ''token'', ''already_member''), db)
           else (let (count, db1) = update_invitations
                   (\<lambda>x. iv_id x = iv_id iv \<and> iv_tokenHash x = iv_tokenHash iv \<and> is_open x \<and> now < iv_expiresAt x)
                   (\<lambda>x. x\<lparr>iv_acceptedAt := Some now, iv_acceptedById := Some userId\<rparr>) db
             in if count = 0 then (Inl (410, ''token'', ''invite_used''), db1)
                else (Inr (orgId, iv_role iv), upsert_member orgId userId (iv_role iv) db1))))"
subsection \<open>The operations as steps\<close>

text \<open>The founder of a new organization is its first Admin (\<open>organizations.service.ts\<close>).\<close>

definition found_organization :: "jstr \<Rightarrow> jstr \<Rightarrow> members_db \<Rightarrow> members_db" where
  "found_organization orgId userId db = db\<lparr>mdb_memberships := mdb_memberships db @
    [\<lparr>mb_userId = userId, mb_organizationId = orgId, mb_role = ADMIN, mb_status = MemberActive\<rparr>]\<rparr>"

inductive members_step :: "(jstr \<Rightarrow> jstr) \<Rightarrow> members_db \<Rightarrow> members_db \<Rightarrow> bool" for sha where
  found: "find_membership db orgId userId = None \<Longrightarrow> members_step sha db (found_organization orgId userId db)"
| invite: "invite env orgId actor email r db = (res, db') \<Longrightarrow> me_sha256 env = sha \<Longrightarrow>
    me_newId env \<notin> iv_id ` set (mdb_invitations db) \<Longrightarrow> members_step sha db db'"
| resend: "resend env orgId i db = (res', db') \<Longrightarrow> me_sha256 env = sha \<Longrightarrow> members_step sha db db'"
| revoke: "revoke env orgId i db = (res2, db') \<Longrightarrow> members_step sha db db'"
| changeRole: "changeRole orgId userId new db = (res3, db') \<Longrightarrow> members_step sha db db'"
| remove: "remove_member orgId userId db = (res4, db') \<Longrightarrow> members_step sha db db'"
| accept: "accept env token userId db = (res5, db') \<Longrightarrow> me_sha256 env = sha \<Longrightarrow> members_step sha db db'"

abbreviation members_steps :: "(jstr \<Rightarrow> jstr) \<Rightarrow> members_db \<Rightarrow> members_db \<Rightarrow> bool" where
  "members_steps sha \<equiv> (members_step sha)\<^sup>*\<^sup>*"

definition has_admin :: "members_db \<Rightarrow> jstr \<Rightarrow> bool" where
  "has_admin db orgId \<longleftrightarrow> (\<exists>m \<in> set (mdb_memberships db). is_admin_in orgId m)"

definition other_admin :: "members_db \<Rightarrow> jstr \<Rightarrow> jstr \<Rightarrow> bool" where
  "other_admin db orgId userId \<longleftrightarrow> (\<exists>m \<in> set (mdb_memberships db). is_admin_in orgId m \<and> mb_userId m \<noteq> userId)"

lemma assertAnotherAdmin_None: "assertAnotherAdmin db orgId userId = None \<longleftrightarrow> other_admin db orgId userId"
  by (auto simp: assertAnotherAdmin_def other_admin_def list_ex_iff)

lemma other_admin_set_role: "other_admin db orgId userId \<Longrightarrow> has_admin (set_role orgId userId r db) orgId"
  by (force simp: other_admin_def has_admin_def set_role_def same_member_def)

lemma other_admin_delete: "other_admin db orgId userId \<Longrightarrow> has_admin (delete_member orgId userId db) orgId"
  by (auto simp: other_admin_def has_admin_def delete_member_def same_member_def)

lemma has_admin_other_org:
  "o2 \<noteq> orgId \<Longrightarrow> has_admin (set_role orgId userId r db) o2 = has_admin db o2"
  "o2 \<noteq> orgId \<Longrightarrow> has_admin (delete_member orgId userId db) o2 = has_admin db o2"
proof -
  assume ne: "o2 \<noteq> orgId"
  have "is_admin_in o2 (if same_member orgId userId m then m\<lparr>mb_role := r\<rparr> else m) = is_admin_in o2 m" for m
    using ne by (auto simp: same_member_def is_admin_in_def is_active_in_def)
  then show "has_admin (set_role orgId userId r db) o2 = has_admin db o2"
    by (simp add: has_admin_def set_role_def del: if_image_distrib)
  show "has_admin (delete_member orgId userId db) o2 = has_admin db o2"
    using ne by (auto simp: has_admin_def delete_member_def same_member_def is_admin_in_def is_active_in_def)
qed

lemma find_membership_Some:
  "find_membership db orgId userId = Some m \<Longrightarrow> m \<in> set (mdb_memberships db) \<and> same_member orgId userId m"
  by (auto simp: find_membership_def same_member_def dest: find_SomeD)

text \<open>A user has one membership of an organization.\<close>

definition one_membership :: "members_db \<Rightarrow> bool" where
  "one_membership db \<longleftrightarrow> distinct (map (\<lambda>m. (mb_userId m, mb_organizationId m)) (mdb_memberships db))"

lemma find_membership_same:
  assumes "one_membership db" "find_membership db orgId userId = Some m" "m' \<in> set (mdb_memberships db)" "same_member orgId userId m'"
  shows "m' = m"
  using assms find_membership_Some [OF assms(2)]
  by (auto simp: one_membership_def same_member_def distinct_map dest: inj_onD)

lemma has_admin_keep:
  assumes "has_admin db o2" "one_membership db" "find_membership db orgId userId = Some m" "mb_role m = ADMIN \<Longrightarrow> mb_status m = MemberActive \<Longrightarrow> other_admin db orgId userId"
  shows "has_admin (set_role orgId userId r db) o2" "has_admin (delete_member orgId userId db) o2"
proof -
  have main: "other_admin db orgId userId \<or> o2 \<noteq> orgId"
  proof (rule ccontr)
    assume c: "\<not> (other_admin db orgId userId \<or> o2 \<noteq> orgId)"
    then obtain a where a: "a \<in> set (mdb_memberships db)" "is_admin_in orgId a" "mb_userId a = userId"
      using assms(1) by (auto simp: has_admin_def other_admin_def)
    then have "same_member orgId userId a" by (simp add: same_member_def is_admin_in_def is_active_in_def)
    from find_membership_same [OF assms(2,3) a(1) this] a assms(4) c show False
      by (simp add: is_admin_in_def is_active_in_def)
  qed
  with assms(1) show "has_admin (set_role orgId userId r db) o2" "has_admin (delete_member orgId userId db) o2"
    using other_admin_set_role other_admin_delete has_admin_other_org by (cases "o2 = orgId"; auto)+
qed

lemma findMemberOrThrow_Inr:
  "findMemberOrThrow db orgId userId = Inr m \<Longrightarrow> find_membership db orgId userId = Some m \<and> mb_status m = MemberActive"
  by (auto simp: findMemberOrThrow_def split: option.splits if_splits)

text \<open>The operations on invitations leave the memberships alone.\<close>

lemma invitation_ops_memberships [simp]:
  "mdb_memberships (snd (update_invitations p g db)) = mdb_memberships db"
  "mdb_memberships (snd (enqueueEmail env iv tk db)) = mdb_memberships db"
  "mdb_memberships (snd (assertWithinRateLimit env orgId db)) = mdb_memberships db"
  by (simp_all add: update_invitations_def enqueueEmail_def assertWithinRateLimit_def Let_def)

lemma invite_memberships: "invite env orgId actor email r db = (res, db') \<Longrightarrow> mdb_memberships db' = mdb_memberships db"
  using invitation_ops_memberships(3) [of env orgId db]
  by (auto simp: invite_def Let_def case_prod_beta split: prod.splits sum.splits if_splits)

lemma resend_memberships: "resend env orgId i db = (res, db') \<Longrightarrow> mdb_memberships db' = mdb_memberships db"
  using invitation_ops_memberships(3) [of env orgId db]
  by (auto simp: resend_def Let_def case_prod_beta split: prod.splits sum.splits if_splits option.splits)

lemma revoke_memberships: "revoke env orgId i db = (res, db') \<Longrightarrow> mdb_memberships db' = mdb_memberships db"
  by (auto simp: revoke_def split: sum.splits if_splits)

lemma changeRole_cases:
  assumes "changeRole orgId userId new db = (res, db')"
  shows "db' = db \<or> (\<exists>m. find_membership db orgId userId = Some m \<and> mb_status m = MemberActive \<and>
    (mb_role m = ADMIN \<longrightarrow> other_admin db orgId userId) \<and> db' = set_role orgId userId new db)"
  using assms
  by (auto simp: changeRole_def assertAnotherAdmin_None dest!: findMemberOrThrow_Inr
      split: sum.splits if_splits option.splits)

lemma remove_cases:
  assumes "remove_member orgId userId db = (res, db')"
  shows "db' = db \<or> (\<exists>m. find_membership db orgId userId = Some m \<and> mb_status m = MemberActive \<and>
    (mb_role m = ADMIN \<longrightarrow> other_admin db orgId userId) \<and> db' = delete_member orgId userId db)"
  using assms
  by (auto simp: remove_member_def assertAnotherAdmin_None dest!: findMemberOrThrow_Inr
      split: sum.splits if_splits option.splits)

lemma upsert_member_update [simp]:
  "mdb_memberships (upsert_member orgId userId r (snd (update_invitations p g db))) = mdb_memberships (upsert_member orgId userId r db)"
  by (simp add: upsert_member_def find_membership_def update_invitations_def)

lemma accept_Inr:
  assumes "accept env token userId db = (Inr v, db')"
  obtains iv where "findByToken env db token = Inr iv" "statusOf iv (me_now env) = InvitePending"
    "\<And>m. find_membership db (iv_organizationId iv) userId = Some m \<Longrightarrow> mb_status m \<noteq> MemberActive"
    "v = (iv_organizationId iv, iv_role iv)"
    "db' = upsert_member (iv_organizationId iv) userId (iv_role iv) (snd (update_invitations
      (\<lambda>x. iv_id x = iv_id iv \<and> iv_tokenHash x = iv_tokenHash iv \<and> is_open x \<and> me_now env < iv_expiresAt x)
      (\<lambda>x. x\<lparr>iv_acceptedAt := Some (me_now env), iv_acceptedById := Some userId\<rparr>) db))"
  using assms
  by (auto simp: accept_def Let_def case_prod_beta split: sum.splits if_splits option.splits)

lemma accept_Inl:
  "accept env token userId db = (Inl e, db') \<Longrightarrow> mdb_memberships db' = mdb_memberships db"
  by (auto simp: accept_def Let_def case_prod_beta split: sum.splits if_splits option.splits)

lemma accept_cases:
  assumes "accept env token userId db = (res, db')"
  shows "mdb_memberships db' = mdb_memberships db \<or>
    (\<exists>orgId r. (\<forall>m. find_membership db orgId userId = Some m \<longrightarrow> mb_status m \<noteq> MemberActive) \<and>
      mdb_memberships db' = mdb_memberships (upsert_member orgId userId r db))"
proof (cases res)
  case (Inr v)
  from assms [unfolded this] show ?thesis by (rule accept_Inr) (use upsert_member_update in blast)
next
  case (Inl e)
  with assms accept_Inl show ?thesis by blast
qed

lemma upsert_has_admin:
  assumes "has_admin db o2" "one_membership db" "\<And>m. find_membership db orgId userId = Some m \<Longrightarrow> mb_status m \<noteq> MemberActive"
  shows "has_admin (upsert_member orgId userId r db) o2"
proof (cases "find_membership db orgId userId")
  case None
  with assms(1) show ?thesis by (auto simp: has_admin_def upsert_member_def)
next
  case (Some m)
  from assms(1) obtain a where a: "a \<in> set (mdb_memberships db)" "is_admin_in o2 a" by (auto simp: has_admin_def)
  have "\<not> same_member orgId userId a"
    using find_membership_same [OF assms(2) Some a(1)] assms(3) [OF Some] a(2)
    by (auto simp: is_admin_in_def is_active_in_def)
  with a Some show ?thesis by (force simp: has_admin_def upsert_member_def)
qed

abbreviation member_keys :: "membership list \<Rightarrow> (jstr \<times> jstr) list" where
  "member_keys \<equiv> map (\<lambda>m. (mb_userId m, mb_organizationId m))"

lemma member_keys_map:
  "(\<And>m. mb_userId (g m) = mb_userId m \<and> mb_organizationId (g m) = mb_organizationId m) \<Longrightarrow>
    member_keys (map (\<lambda>m. if p m then g m else m) ms) = member_keys ms"
  by simp

lemma one_membership_ops:
  assumes "one_membership db"
  shows "one_membership (set_role orgId userId r db)" "one_membership (delete_member orgId userId db)"
    "one_membership (upsert_member orgId userId r db)"
proof -
  have keys: "member_keys (map (\<lambda>m. if p m then m\<lparr>mb_role := r\<rparr> else m) ms) = member_keys ms"
    "member_keys (map (\<lambda>m. if p m then m\<lparr>mb_role := r, mb_status := st\<rparr> else m) ms) = member_keys ms" for p ms st
    by simp_all
  show "one_membership (set_role orgId userId r db)"
    using assms by (simp add: one_membership_def set_role_def keys del: map_map)
  show "one_membership (delete_member orgId userId db)"
    using assms by (simp add: one_membership_def delete_member_def distinct_map_filter)
  show "one_membership (upsert_member orgId userId r db)"
  proof (cases "find_membership db orgId userId")
    case None
    then have "(userId, orgId) \<notin> set (member_keys (mdb_memberships db))"
      by (auto simp: find_membership_def find_None_iff)
    with None assms show ?thesis by (simp add: one_membership_def upsert_member_def)
  next
    case (Some m)
    with assms show ?thesis by (simp add: one_membership_def upsert_member_def keys del: map_map)
  qed
qed

lemma has_admin_memberships: "mdb_memberships db' = mdb_memberships db \<Longrightarrow> has_admin db' = has_admin db"
  by (simp add: has_admin_def fun_eq_iff)

lemma one_membership_memberships: "mdb_memberships db' = mdb_memberships db \<Longrightarrow> one_membership db' = one_membership db"
  by (simp add: one_membership_def)

lemma members_step_keeps:
  assumes "members_step sha db db'" "one_membership db"
  shows "one_membership db' \<and> (\<forall>o2. has_admin db o2 \<longrightarrow> has_admin db' o2)"
  using assms
proof (induction rule: members_step.induct)
  case (found db orgId userId)
  then have "(userId, orgId) \<notin> set (member_keys (mdb_memberships db))"
    by (auto simp: find_membership_def find_None_iff)
  with found.prems show ?case by (auto simp: found_organization_def one_membership_def has_admin_def)
next
  case (invite env orgId actor email r db res db')
  note m = invite_memberships [OF invite.hyps(1)]
  show ?case using invite.prems by (simp add: has_admin_memberships [OF m] one_membership_memberships [OF m])
next
  case (resend env orgId i db res db')
  note m = resend_memberships [OF resend.hyps(1)]
  show ?case using resend.prems by (simp add: has_admin_memberships [OF m] one_membership_memberships [OF m])
next
  case (revoke env orgId i db res db')
  note m = revoke_memberships [OF revoke.hyps(1)]
  show ?case using revoke.prems by (simp add: has_admin_memberships [OF m] one_membership_memberships [OF m])
next
  case (changeRole orgId userId new db res db')
  from changeRole_cases [OF changeRole.hyps] show ?case
    using changeRole.prems one_membership_ops(1) has_admin_keep(1) by blast
next
  case (remove orgId userId db res db')
  from remove_cases [OF remove.hyps] show ?case
    using remove.prems one_membership_ops(2) has_admin_keep(2) by blast
next
  case (accept env token userId db res db')
  from accept_cases [OF accept.hyps(1)] show ?case
  proof
    assume m: "mdb_memberships db' = mdb_memberships db"
    show ?thesis using accept.prems by (simp add: has_admin_memberships [OF m] one_membership_memberships [OF m])
  next
    assume "\<exists>orgId r. (\<forall>m. find_membership db orgId userId = Some m \<longrightarrow> mb_status m \<noteq> MemberActive) \<and>
      mdb_memberships db' = mdb_memberships (upsert_member orgId userId r db)"
    then obtain orgId r where c: "\<forall>m. find_membership db orgId userId = Some m \<longrightarrow> mb_status m \<noteq> MemberActive"
      "mdb_memberships db' = mdb_memberships (upsert_member orgId userId r db)" by blast
    have "has_admin db' o2" if "has_admin db o2" for o2
      using upsert_has_admin [OF that accept.prems] c(1) by (simp add: has_admin_memberships [OF c(2)])
    moreover have "one_membership db'"
      using one_membership_ops(3) [OF accept.prems] by (simp add: one_membership_memberships [OF c(2)])
    ultimately show ?thesis by blast
  qed
qed

text \<open>C7: an organization never loses its last Admin.  Through every sequence of invitations,
  resends, revocations, role changes, removals and acceptances, succeeding or failing, an organization
  that has an active Admin still has one, and a user still has at most one membership of it.\<close>

theorem last_admin_stays:
  assumes "members_steps sha db db'" "one_membership db" "has_admin db orgId"
  shows "has_admin db' orgId \<and> one_membership db'"
  using assms
proof (induction rule: rtranclp_induct)
  case (step x y)
  with members_step_keeps [OF step.hyps(2)] show ?case by blast
qed simp

theorem last_admin_stays_witness:
  "let db = found_organization ''o1'' ''u1'' (found_organization ''o1'' ''u2''
       \<lparr>mdb_memberships = [], mdb_invitations = [], mdb_emails = [], mdb_invites_sent = [], mdb_mail = []\<rparr>);
     db' = snd (changeRole ''o1'' ''u2'' VIEWER db)
   in has_admin db' ''o1'' \<and> fst (remove_member ''o1'' ''u1'' db') = Inl (422, ''userId'', ''last_admin'')"
proof -
  define db where "db = found_organization ''o1'' ''u1'' (found_organization ''o1'' ''u2''
       \<lparr>mdb_memberships = [], mdb_invitations = [], mdb_emails = [], mdb_invites_sent = [], mdb_mail = []\<rparr>)"
  define db' where "db' = snd (changeRole ''o1'' ''u2'' VIEWER db)"
  have "members_step (\<lambda>x. x) db db'" unfolding db'_def by (rule members_step.changeRole [OF prod.collapse [symmetric]])
  moreover have "one_membership db" "has_admin db ''o1''"
    unfolding db_def by (simp_all add: one_membership_def has_admin_def found_organization_def is_admin_in_def is_active_in_def)
  ultimately have "has_admin db' ''o1''"
    using last_admin_stays [OF r_into_rtranclp [of "members_step (\<lambda>x. x)" db db'], of "''o1''"] by blast
  moreover have "fst (remove_member ''o1'' ''u1'' db') = Inl (422, ''userId'', ''last_admin'')"
    unfolding db'_def db_def by code_simp
  ultimately show ?thesis by (simp add: Let_def db'_def db_def)
qed

subsection \<open>An invitation is used once\<close>

definition tidy_invitations :: "members_db \<Rightarrow> bool" where
  "tidy_invitations db \<longleftrightarrow> distinct (map iv_id (mdb_invitations db)) \<and> distinct (map iv_tokenHash (mdb_invitations db))"

definition spent :: "jstr \<Rightarrow> members_db \<Rightarrow> bool" where
  "spent h db \<longleftrightarrow> (\<exists>iv \<in> set (mdb_invitations db). iv_tokenHash iv = h \<and> iv_acceptedAt iv \<noteq> None)"

lemma update_invitations_tidy:
  assumes "\<And>iv. iv_id (g iv) = iv_id iv \<and> iv_tokenHash (g iv) = iv_tokenHash iv"
  shows "tidy_invitations (snd (update_invitations p g db)) = tidy_invitations db"
proof -
  have "map iv_id (map (\<lambda>iv. if p iv then g iv else iv) ivs) = map iv_id ivs"
    "map iv_tokenHash (map (\<lambda>iv. if p iv then g iv else iv) ivs) = map iv_tokenHash ivs" for ivs
    using assms by simp_all
  then show ?thesis by (simp add: tidy_invitations_def update_invitations_def del: map_map)
qed

lemma update_invitations_spent:
  assumes "spent h db" "\<And>iv. p iv \<Longrightarrow> iv_acceptedAt iv \<noteq> None \<Longrightarrow> iv_tokenHash (g iv) = iv_tokenHash iv \<and> iv_acceptedAt (g iv) \<noteq> None"
  shows "spent h (snd (update_invitations p g db))"
proof -
  from assms(1) obtain iv where iv: "iv \<in> set (mdb_invitations db)" "iv_tokenHash iv = h" "iv_acceptedAt iv \<noteq> None"
    by (auto simp: spent_def)
  let ?iv = "if p iv then g iv else iv"
  have "?iv \<in> set (mdb_invitations (snd (update_invitations p g db)))"
    using iv(1) by (auto simp: update_invitations_def)
  moreover have "iv_tokenHash ?iv = h \<and> iv_acceptedAt ?iv \<noteq> None" using iv assms(2) by simp
  ultimately show ?thesis unfolding spent_def by blast
qed

text \<open>Only the invitations matter.\<close>

lemma same_invitations:
  "mdb_invitations db' = mdb_invitations db \<Longrightarrow> tidy_invitations db' = tidy_invitations db \<and> spent h db' = spent h db"
  by (simp add: tidy_invitations_def spent_def)

lemma rate_limit_invitations [simp]: "mdb_invitations (snd (assertWithinRateLimit env orgId db)) = mdb_invitations db"
  by (simp add: assertWithinRateLimit_def Let_def)

lemma upsert_invitations [simp]: "mdb_invitations (upsert_member orgId userId r db) = mdb_invitations db"
  by (simp add: upsert_member_def)

definition keeps_invitations :: "members_db \<Rightarrow> members_db \<Rightarrow> bool" where
  "keeps_invitations db db' \<longleftrightarrow> (tidy_invitations db \<longrightarrow> tidy_invitations db' \<and> (\<forall>h. spent h db \<longrightarrow> spent h db'))"

lemma keeps_invitations_same: "mdb_invitations db' = mdb_invitations db \<Longrightarrow> keeps_invitations db db'"
  unfolding keeps_invitations_def using same_invitations by blast

lemma keeps_invitations_refl [simp]: "keeps_invitations db db"
  by (simp add: keeps_invitations_def)

lemma keeps_invitations_trans: "keeps_invitations db db1 \<Longrightarrow> keeps_invitations db1 db2 \<Longrightarrow> keeps_invitations db db2"
  by (simp add: keeps_invitations_def)

lemma keeps_invitations_update:
  assumes "\<And>iv. iv_id (g iv) = iv_id iv \<and> iv_tokenHash (g iv) = iv_tokenHash iv"
    "\<And>iv. p iv \<Longrightarrow> iv_acceptedAt iv \<noteq> None \<Longrightarrow> iv_acceptedAt (g iv) \<noteq> None"
  shows "keeps_invitations db (snd (update_invitations p g db))"
  unfolding keeps_invitations_def using update_invitations_tidy [OF assms(1)] update_invitations_spent assms by metis

lemma keeps_invitations_email [simp]: "keeps_invitations db (snd (enqueueEmail env iv tk db))"
proof -
  have "keeps_invitations db (snd (update_invitations p (\<lambda>x. x\<lparr>iv_emailStatus := EmailFailed, iv_emailError := Some e\<rparr>) db))" for p e
    by (rule keeps_invitations_update) simp_all
  then show ?thesis by (simp add: enqueueEmail_def Let_def keeps_invitations_same)
qed

lemma keeps_invitations_append:
  assumes "iv_id iv \<notin> iv_id ` set (mdb_invitations db)" "iv_tokenHash iv \<notin> iv_tokenHash ` set (mdb_invitations db)"
  shows "keeps_invitations db (db\<lparr>mdb_invitations := mdb_invitations db @ [iv]\<rparr>)"
  using assms by (auto simp: keeps_invitations_def tidy_invitations_def spent_def)

lemma invite_keeps:
  assumes "invite env orgId actor email r db = (res, db')" "me_newId env \<notin> iv_id ` set (mdb_invitations db)"
  shows "keeps_invitations db db'"
proof (cases "assertWithinRateLimit env orgId db")
  case (Pair u db1)
  then have 1: "mdb_invitations db1 = mdb_invitations db" using rate_limit_invitations [of env orgId db] by simp
  have 2: "keeps_invitations db (snd (enqueueEmail env iv tk (db1\<lparr>mdb_invitations := mdb_invitations db1 @ [iv]\<rparr>)))"
    if "iv_tokenHash iv \<notin> iv_tokenHash ` set (mdb_invitations db1)" "iv_id iv = me_newId env" for iv tk
  proof -
    have "keeps_invitations db1 (db1\<lparr>mdb_invitations := mdb_invitations db1 @ [iv]\<rparr>)"
      by (rule keeps_invitations_append) (use that assms(2) 1 in simp_all)
    from keeps_invitations_trans [OF keeps_invitations_trans [OF keeps_invitations_same [OF 1] this] keeps_invitations_email]
    show ?thesis .
  qed
  show ?thesis
    using assms(1) Pair keeps_invitations_same [OF 1] 2 unfolding invite_def Let_def case_prod_beta
    by (simp split: sum.splits if_splits) auto
qed

lemma new_hash_keeps:
  assumes "h \<notin> iv_tokenHash ` {iv \<in> set (mdb_invitations db). iv_id iv \<noteq> i}"
    "\<And>iv. iv_id (g iv) = iv_id iv \<and> iv_tokenHash (g iv) = h" "\<And>iv. p iv \<Longrightarrow> iv_id iv = i \<and> iv_acceptedAt iv = None"
  shows "keeps_invitations db (snd (update_invitations p g db))"
proof -
  let ?f = "\<lambda>iv. if p iv then g iv else iv"
  have "map iv_id (map ?f ivs) = map iv_id ivs" for ivs using assms(2) by simp
  moreover have "distinct (map iv_tokenHash (map ?f ivs))"
    if "distinct (map iv_id ivs)" "distinct (map iv_tokenHash ivs)" "set ivs \<subseteq> set (mdb_invitations db)" for ivs
    using that
  proof (induction ivs)
    case (Cons a ivs)
    have other: "iv_tokenHash (?f a) \<noteq> iv_tokenHash (?f b)" if "b \<in> set ivs" for b
    proof -
      have ne: "iv_id a \<noteq> iv_id b" "iv_tokenHash a \<noteq> iv_tokenHash b" using Cons.prems(1,2) that by (auto simp: image_iff)
      have mem: "a \<in> set (mdb_invitations db)" "b \<in> set (mdb_invitations db)" using Cons.prems(3) that by auto
      show ?thesis using ne mem assms by (auto simp: image_iff)
    qed
    from Cons.IH Cons.prems have "distinct (map iv_tokenHash (map ?f ivs))" by simp
    moreover have "iv_tokenHash (?f a) \<notin> set (map iv_tokenHash (map ?f ivs))"
      unfolding set_map image_image using other by blast
    ultimately show ?case by (simp only: list.map distinct.simps simp_thms)
  qed simp
  ultimately have "tidy_invitations (snd (update_invitations p g db))" if "tidy_invitations db"
    using that by (simp add: tidy_invitations_def update_invitations_def del: map_map)
  moreover have "spent h' (snd (update_invitations p g db))" if "spent h' db" for h'
    by (rule update_invitations_spent [OF that]) (use assms(3) in auto)
  ultimately show ?thesis unfolding keeps_invitations_def by blast
qed

lemma resend_keeps:
  assumes "resend env orgId i db = (res, db')"
  shows "keeps_invitations db db'"
proof (cases "assertWithinRateLimit env orgId db")
  case (Pair u db1)
  then have 1: "mdb_invitations db1 = mdb_invitations db" using rate_limit_invitations [of env orgId db] by simp
  let ?h = "me_sha256 env (me_token env)"
  let ?u = "update_invitations (\<lambda>iv. iv_id iv = i \<and> is_open iv)
    (\<lambda>iv. iv\<lparr>iv_tokenHash := ?h, iv_expiresAt := me_now env + INVITATION_TTL_MS,
      iv_emailStatus := new_email_status env, iv_emailError := None\<rparr>) db1"
  have 2: "keeps_invitations db (snd ?u)" if "?h \<notin> iv_tokenHash ` {iv \<in> set (mdb_invitations db1). iv_id iv \<noteq> i}"
    by (rule keeps_invitations_trans [OF keeps_invitations_same [OF 1] new_hash_keeps [OF that]]) (auto simp: is_open_def)
  have 3: "keeps_invitations db (snd (enqueueEmail env iv tk (snd ?u)))"
    if "?h \<notin> iv_tokenHash ` {iv \<in> set (mdb_invitations db1). iv_id iv \<noteq> i}" for iv tk
    by (rule keeps_invitations_trans [OF 2 [OF that] keeps_invitations_email])
  show ?thesis
    using assms Pair keeps_invitations_same [OF 1] 2 3 unfolding resend_def Let_def case_prod_beta
    by (simp split: sum.splits if_splits option.splits) auto
qed

lemma revoke_keeps:
  assumes "revoke env orgId i db = (res, db')"
  shows "keeps_invitations db db'"
proof -
  have "keeps_invitations db (snd (update_invitations (\<lambda>iv. iv_id iv = i \<and> is_open iv) (\<lambda>iv. iv\<lparr>iv_revokedAt := Some (me_now env)\<rparr>) db))"
    by (rule keeps_invitations_update) simp_all
  then show ?thesis using assms by (auto simp: revoke_def split: sum.splits if_splits)
qed

lemma accept_keeps:
  assumes "accept env token userId db = (res, db')"
  shows "keeps_invitations db db'"
proof -
  have u: "keeps_invitations db (snd (update_invitations p (\<lambda>x. x\<lparr>iv_acceptedAt := Some t, iv_acceptedById := Some userId\<rparr>) db))" for p t
    by (rule keeps_invitations_update) simp_all
  show ?thesis using assms keeps_invitations_trans [OF u keeps_invitations_same [OF upsert_invitations]] u
    unfolding accept_def Let_def case_prod_beta by (simp split: sum.splits if_splits option.splits) auto
qed

lemma members_step_invitations: "members_step sha db db' \<Longrightarrow> keeps_invitations db db'"
proof (induction rule: members_step.induct)
  case (changeRole orgId userId new db res3 db')
  from changeRole_cases [OF this] show ?case by (auto intro!: keeps_invitations_same simp: set_role_def)
next
  case (remove orgId userId db res4 db')
  from remove_cases [OF this] show ?case by (auto intro!: keeps_invitations_same simp: delete_member_def)
qed (auto intro: invite_keeps resend_keeps revoke_keeps accept_keeps keeps_invitations_same simp: found_organization_def)

lemma members_steps_invitations: "members_steps sha db db' \<Longrightarrow> keeps_invitations db db'"
  by (induction rule: rtranclp_induct) (auto intro: keeps_invitations_trans members_step_invitations)

lemma findByToken_Inr:
  assumes "findByToken env db token = Inr iv"
  shows "isInvitationTokenShape token" "iv \<in> set (mdb_invitations db)" "iv_tokenHash iv = me_sha256 env token"
  using assms by (auto simp: findByToken_def dest: find_SomeD split: option.splits if_splits)

lemma accept_spends:
  assumes "accept env token userId db = (Inr v, db')"
  shows "isInvitationTokenShape token" "spent (me_sha256 env token) db'"
proof -
  from assms show "isInvitationTokenShape token" by (rule accept_Inr) (rule findByToken_Inr(1))
  from assms show "spent (me_sha256 env token) db'"
  proof (rule accept_Inr)
    fix iv
    assume iv: "findByToken env db token = Inr iv" "statusOf iv (me_now env) = InvitePending"
      and db': "db' = upsert_member (iv_organizationId iv) userId (iv_role iv) (snd (update_invitations
      (\<lambda>x. iv_id x = iv_id iv \<and> iv_tokenHash x = iv_tokenHash iv \<and> is_open x \<and> me_now env < iv_expiresAt x)
      (\<lambda>x. x\<lparr>iv_acceptedAt := Some (me_now env), iv_acceptedById := Some userId\<rparr>) db))"
    from iv(2) have "is_open iv \<and> me_now env < iv_expiresAt iv" by (simp add: statusOf_def is_open_def split: if_splits)
    with findByToken_Inr [OF iv(1)] db' have "iv\<lparr>iv_acceptedAt := Some (me_now env), iv_acceptedById := Some userId\<rparr> \<in> set (mdb_invitations db')"
      unfolding db' upsert_invitations update_invitations_def by (simp add: image_iff) (rule disjI1, rule bexI [of _ iv], simp_all)
    with findByToken_Inr(3) [OF iv(1)] show ?thesis unfolding spent_def by (intro bexI) auto
  qed
qed

lemma accept_spent:
  assumes "spent (me_sha256 env token) db" "tidy_invitations db" "isInvitationTokenShape token"
  shows "accept env token userId db = (Inl (410, ''token'', ''invite_used''), db)"
proof -
  from assms(1) obtain iv where iv: "iv \<in> set (mdb_invitations db)" "iv_tokenHash iv = me_sha256 env token" "iv_acceptedAt iv \<noteq> None"
    by (auto simp: spent_def)
  have "List.find (\<lambda>iv. iv_tokenHash iv = me_sha256 env token) (mdb_invitations db) \<noteq> None"
    using iv by (auto simp: find_None_iff)
  then obtain iv' where f: "List.find (\<lambda>iv. iv_tokenHash iv = me_sha256 env token) (mdb_invitations db) = Some iv'" by blast
  have "iv' = iv" using find_SomeD [OF f] iv assms(2) by (auto simp: tidy_invitations_def distinct_map inj_on_def)
  with f iv(3) assms(3) show ?thesis by (simp add: accept_def findByToken_def Let_def statusOf_def gone_message_def)
qed

text \<open>An invitation admits one person.  Once a token has been accepted, every further attempt
  with it, by anyone and after any sequence of operations (a resend of that invitation and invitations
  of the same address included), is answered 410 \<open>invite_used\<close> and changes nothing.\<close>

theorem accept_once:
  assumes "accept env token userId db = (Inr v, db')" "members_steps (me_sha256 env) db' db''"
    "tidy_invitations db" "me_sha256 env' = me_sha256 env"
  shows "accept env' token userId' db'' = (Inl (410, ''token'', ''invite_used''), db'')"
proof (rule accept_spent)
  have k: "keeps_invitations db db'" "keeps_invitations db' db''"
    using accept_keeps [OF assms(1)] members_steps_invitations [OF assms(2)] by auto
  from k assms(3) show "tidy_invitations db''" by (simp add: keeps_invitations_def)
  from k assms(3) accept_spends(2) [OF assms(1)] show "spent (me_sha256 env' token) db''"
    by (simp add: keeps_invitations_def assms(4))
qed (rule accept_spends(1) [OF assms(1)])

theorem accept_once_witness:
  "let tok = replicate 43 CHR ''a'';
     env = \<lparr>me_sha256 = (\<lambda>x. x), me_now = 5, me_token = tok, me_newId = ''i1'', me_redisUp = True,
       me_mailConfigured = False, me_mailQueueUp = False\<rparr>;
     db = \<lparr>mdb_memberships = [], mdb_invitations = [], mdb_emails = [(''u1'', ''a@b.c''), (''u2'', ''d@b.c'')],
       mdb_invites_sent = [], mdb_mail = []\<rparr>;
     db1 = snd (invite env ''o1'' ''u0'' ''a@b.c'' REVIEWER db);
     db2 = snd (accept env tok ''u1'' db1)
   in fst (accept env tok ''u1'' db1) = Inr (''o1'', REVIEWER) \<and>
     accept env tok ''u2'' db2 = (Inl (410, ''token'', ''invite_used''), db2)"
proof -
  define tok where "tok = replicate 43 CHR ''a''"
  define env where "env = \<lparr>me_sha256 = (\<lambda>x. x), me_now = 5, me_token = tok, me_newId = ''i1'', me_redisUp = True,
       me_mailConfigured = False, me_mailQueueUp = False\<rparr>"
  define db :: members_db where "db = \<lparr>mdb_memberships = [], mdb_invitations = [], mdb_emails = [(''u1'', ''a@b.c''), (''u2'', ''d@b.c'')],
       mdb_invites_sent = [], mdb_mail = []\<rparr>"
  define db1 where "db1 = snd (invite env ''o1'' ''u0'' ''a@b.c'' REVIEWER db)"
  have ok: "fst (accept env tok ''u1'' db1) = Inr (''o1'', REVIEWER)"
    unfolding db1_def db_def env_def tok_def by code_simp
  then have a: "accept env tok ''u1'' db1 = (Inr (''o1'', REVIEWER), snd (accept env tok ''u1'' db1))" by (simp add: prod_eq_iff)
  have "tidy_invitations db1" unfolding db1_def db_def env_def tok_def by code_simp
  from accept_once [OF a rtranclp.rtrancl_refl this refl, of "''u2''"] ok
  show ?thesis by (simp add: Let_def tok_def env_def db_def db1_def)
qed

end
