(* ===== verification/Attempt_Jobs.thy ===== *)
theory Attempt_Jobs
  imports Critiq_Prelude
begin

section \<open>Jobs that are tried a number of times\<close>

text \<open>
  The interface between a processor and the queue that runs it (BullMQ): a job has a number of
  attempts; an attempt that throws is tried again, with the state it left, while attempts are left.
  \<open>attempt last n s\<close> is the attempt with \<open>n\<close> more to come.  The processors of
  reviews and of comments provide it.
\<close>

locale attempt_job =
  fixes attempt :: "bool \<Rightarrow> nat \<Rightarrow> 's \<Rightarrow> bool \<times> 's"
    and job :: "nat \<Rightarrow> 's \<Rightarrow> 's"
  assumes job_0: "job 0 s = s"
    and job_Suc: "job (Suc n) s = (if fst (attempt (n = 0) n s) then job n (snd (attempt (n = 0) n s)) else snd (attempt (n = 0) n s))"
    and throw_keeps: "fst (attempt final n s) \<Longrightarrow> snd (attempt final n s) = s"
begin

lemma job_step: "job (Suc n) s = (if fst (attempt (n = 0) n s) then job n s else snd (attempt (n = 0) n s))"
  using job_Suc throw_keeps by simp

text \<open>A job is its first attempt that does not throw, or nothing.\<close>

lemma job_cases: "(\<exists>k < n. \<not> fst (attempt (k = 0) k s) \<and> job n s = snd (attempt (k = 0) k s)) \<or>
    (\<forall>k < n. fst (attempt (k = 0) k s)) \<and> job n s = s"
proof (induction n)
  case (Suc n)
  show ?case
  proof (cases "fst (attempt (n = 0) n s)")
    case True
    with Suc show ?thesis by (auto simp: job_step less_Suc_eq)
  next
    case False
    then show ?thesis by (auto simp: job_step intro!: exI [of _ n])
  qed
qed (simp add: job_0)

text \<open>What every attempt keeps, the job keeps.\<close>

lemma job_keeps:
  assumes "\<And>final k s. P s \<Longrightarrow> P (snd (attempt final k s))" "P s"
  shows "P (job n s)"
  using job_cases [of n s] assms by auto

end

text \<open>A job whose last attempt never throws ends with what one of its attempts wrote.\<close>

locale settling_job = attempt_job +
  assumes last_settles: "\<not> fst (attempt True n s)"
begin

lemma job_settles: "0 < n \<Longrightarrow> \<exists>k < n. \<not> fst (attempt (k = 0) k s) \<and> job n s = snd (attempt (k = 0) k s)"
  using job_cases [of n s] last_settles [of 0 s] by auto

end

end
