(* ===== verification/Reviews.thy ===== *)
theory Reviews
  imports Scan_Queue Members Attempt_Jobs
begin

section \<open>Reviews and merges\<close>

text \<open>
  A person's decision on a pull request and the merge that may follow:
  \<open>src/modules/reviews\<close> (\<open>reviews.service.ts\<close>, \<open>merge.service.ts\<close>,
  \<open>merge-blockers.ts\<close>, \<open>latest-per-reviewer.ts\<close>) and
  \<open>src/queue/review-sync.processor.ts\<close>, which copies a decision to GitHub or GitLab.  The
  tables are an explicit state, reviews in the order of their creation.  What the code host answers
  is a parameter.  Log entries and realtime events are left out.
\<close>

datatype pull_state = PullOpen | PullClosed | PullMerged
datatype review_decision = APPROVE | REQUEST_CHANGES
datatype sync_status = SyncPending | SyncSynced | SyncFailed
datatype provider_source = GITHUB | GITLAB
datatype integration_state = IntActive | IntExpiringSoon | IntTokenExpired | IntInvalid | IntPendingApproval
  | IntUninstalled | IntSuspended

record latest_scan =
  ls_status :: scan_status
  ls_headSha :: jstr
  ls_criticalCount :: nat
  ls_aiStatus :: "ai_scan_status option"

record pull_request =
  pq_id :: jstr
  pq_organizationId :: jstr
  pq_repositoryId :: jstr
  pq_externalId :: jstr
  pq_sourceBranch :: jstr
  pq_headSha :: "jstr option"
  pq_state :: pull_state
  pq_effectivePolicy :: review_policy
  pq_latestScan :: "latest_scan option"
  pq_source :: provider_source
  pq_integrationState :: integration_state

record pull_review =
  rw_id :: jstr
  rw_organizationId :: jstr
  rw_pullId :: jstr
  rw_headSha :: jstr
  rw_decision :: review_decision
  rw_body :: "jstr option"
  rw_reviewerId :: "jstr option"
  rw_reviewerRole :: role
  rw_effectivePolicy :: review_policy
  rw_manualConfirmation :: bool
  rw_aiAssisted :: bool
  rw_syncStatus :: sync_status
  rw_syncError :: "jstr option"

text \<open>\<open>rd_jobs\<close> are the reviews with a job in the sync queue, \<open>rd_cancelled\<close> the pull
  requests whose scans were cancelled.\<close>

record review_db =
  rd_pulls :: "pull_request list"
  rd_reviews :: "pull_review list"
  rd_memberships :: "membership list"
  rd_jobs :: "jstr list"
  rd_cancelled :: "jstr list"

subsection \<open>What blocks a merge\<close>

datatype merge_blocker = PullNotOpen | ApprovalRequired | ChangesRequested | ScanRequired | CriticalFindings

fun blocker_name :: "merge_blocker \<Rightarrow> jstr" where
  "blocker_name PullNotOpen = ''pull_not_open''"
| "blocker_name ApprovalRequired = ''approval_required''"
| "blocker_name ChangesRequested = ''changes_requested''"
| "blocker_name ScanRequired = ''scan_required''"
| "blocker_name CriticalFindings = ''critical_findings''"

text \<open>The key of a review: its reviewer, or its place when the reviewer is gone.  Keys of the two
  kinds are kept apart, which \<open>deleted-{index}\<close> does as long as no user has such an id.\<close>

definition reviewer_key :: "nat \<Rightarrow> jstr option \<Rightarrow> nat + jstr" where
  "reviewer_key index reviewerId = (case reviewerId of Some r \<Rightarrow> Inr r | None \<Rightarrow> Inl index)"

fun latest_loop :: "nat \<Rightarrow> (nat + jstr) list \<Rightarrow> pull_review list \<Rightarrow> pull_review list" where
  "latest_loop index seen [] = []"
| "latest_loop index seen (r # rs) =
    (let key = reviewer_key index (rw_reviewerId r)
     in if key \<in> set seen then latest_loop (Suc index) seen rs
        else r # latest_loop (Suc index) (key # seen) rs)"

definition latestPerReviewer :: "pull_review list \<Rightarrow> pull_review list" where
  "latestPerReviewer newestFirst = latest_loop 0 [] newestFirst"

definition scan_blocker :: "jstr option \<Rightarrow> latest_scan option \<Rightarrow> merge_blocker list" where
  "scan_blocker headSha scan =
    (case scan of
      None \<Rightarrow> [ScanRequired]
    | Some s \<Rightarrow>
        if ls_status s \<noteq> ScanDone \<or> headSha = None \<or> Some (ls_headSha s) \<noteq> headSha then [ScanRequired]
        else if 0 < ls_criticalCount s then [CriticalFindings] else [])"

definition mergeBlockers :: "pull_state \<Rightarrow> jstr option \<Rightarrow> latest_scan option \<Rightarrow> pull_review list \<Rightarrow> merge_blocker list" where
  "mergeBlockers state headSha scan reviewsOnHead =
    (if state \<noteq> PullOpen then [PullNotOpen]
     else (let decisions = map rw_decision (latestPerReviewer reviewsOnHead)
       in (if APPROVE \<notin> set decisions then [ApprovalRequired] else []) @
          (if REQUEST_CHANGES \<in> set decisions then [ChangesRequested] else []) @
          scan_blocker headSha scan))"

text \<open>The reviews of a commit, newest first.\<close>

definition reviews_on :: "review_db \<Rightarrow> jstr \<Rightarrow> jstr \<Rightarrow> pull_review list" where
  "reviews_on db pullId headSha = rev (filter (\<lambda>r. rw_pullId r = pullId \<and> rw_headSha r = headSha) (rd_reviews db))"

definition loadMergeBlockers :: "review_db \<Rightarrow> pull_request \<Rightarrow> merge_blocker list" where
  "loadMergeBlockers db pull =
    mergeBlockers (pq_state pull) (pq_headSha pull) (pq_latestScan pull)
      (case pq_headSha pull of Some h \<Rightarrow> if h = [] then [] else reviews_on db (pq_id pull) h | None \<Rightarrow> [])"

subsection \<open>Reading\<close>

definition findPullOrThrow :: "review_db \<Rightarrow> jstr \<Rightarrow> jstr \<Rightarrow> jstr \<Rightarrow> api_error + pull_request" where
  "findPullOrThrow db organizationId repositoryId pullId =
    (case List.find (\<lambda>p. pq_id p = pullId) (rd_pulls db) of
      None \<Rightarrow> Inl (404, [], ''Pull request not found.'')
    | Some p \<Rightarrow>
        if pq_organizationId p \<noteq> organizationId \<or> pq_repositoryId p \<noteq> repositoryId
        then Inl (404, [], ''Pull request not found.'') else Inr p)"

definition role_of :: "review_db \<Rightarrow> jstr \<Rightarrow> jstr \<Rightarrow> api_error + role" where
  "role_of db organizationId userId =
    (case List.find (\<lambda>m. mb_userId m = userId \<and> mb_organizationId m = organizationId) (rd_memberships db) of
      Some m \<Rightarrow> Inr (mb_role m) | None \<Rightarrow> Inl (500, [], ''P2025''))"

text \<open>An empty or missing head, or another one than the caller saw.\<close>

definition head_differs :: "pull_request \<Rightarrow> jstr \<Rightarrow> bool" where
  "head_differs pull headSha \<longleftrightarrow> pq_headSha pull = None \<or> pq_headSha pull = Some [] \<or> pq_headSha pull \<noteq> Some headSha"

subsection \<open>Submitting a decision\<close>

definition AI_DONE :: "ai_scan_status list" where
  "AI_DONE = [AiDone, AiCached]"

definition aiReviewedHead :: "pull_request \<Rightarrow> bool" where
  "aiReviewedHead pull =
    (case pq_latestScan pull of
      None \<Rightarrow> False
    | Some s \<Rightarrow> ls_status s = ScanDone \<and> Some (ls_headSha s) = pq_headSha pull \<and>
        (case ls_aiStatus s of None \<Rightarrow> False | Some a \<Rightarrow> a \<in> set AI_DONE))"

definition assertRequireBoth :: "pull_request \<Rightarrow> bool \<Rightarrow> api_error option" where
  "assertRequireBoth pull manualConfirmation =
    (if \<not> manualConfirmation then Some (422, ''manualConfirmation'', ''manual_confirmation_required'')
     else (case pq_latestScan pull of
        None \<Rightarrow> Some (422, ''pullId'', ''scan_required'')
      | Some s \<Rightarrow>
          if ls_status s \<noteq> ScanDone \<or> Some (ls_headSha s) \<noteq> pq_headSha pull
          then Some (422, ''pullId'', ''scan_required'')
          else if (case ls_aiStatus s of None \<Rightarrow> True | Some a \<Rightarrow> a \<notin> set AI_DONE)
          then Some (422, ''pullId'', ''ai_analysis_required'') else None))"

record submit_dto =
  sm_decision :: review_decision
  sm_headSha :: jstr
  sm_body :: "jstr option"
  sm_manualConfirmation :: bool

definition review_body :: "submit_dto \<Rightarrow> jstr option" where
  "review_body dto = (case sm_body dto of None \<Rightarrow> None | Some b \<Rightarrow> if trim b = [] then None else Some (trim b))"

definition my_latest :: "review_db \<Rightarrow> jstr \<Rightarrow> jstr \<Rightarrow> jstr \<Rightarrow> pull_review option" where
  "my_latest db pullId userId headSha = List.find (\<lambda>r. rw_reviewerId r = Some userId) (reviews_on db pullId headSha)"

text \<open>Everything \<open>submit\<close> does before it writes: an error, or the row to create (with the id the
  database will give it).\<close>

definition submit_check :: "jstr \<Rightarrow> jstr \<Rightarrow> jstr \<Rightarrow> jstr \<Rightarrow> jstr \<Rightarrow> submit_dto \<Rightarrow> review_db \<Rightarrow> api_error + pull_review" where
  "submit_check newId organizationId repositoryId pullId actor dto db =
    (case findPullOrThrow db organizationId repositoryId pullId of
      Inl e \<Rightarrow> Inl e
    | Inr pull \<Rightarrow>
        if pq_state pull \<noteq> PullOpen then Inl (422, ''pullId'', ''pull_not_open'')
        else if head_differs pull (sm_headSha dto) then Inl (409, ''headSha'', ''head_changed'')
        else if map_option rw_decision (my_latest db pullId actor (sm_headSha dto)) = Some (sm_decision dto)
        then Inl (409, ''decision'', ''already_reviewed'')
        else if sm_decision dto = REQUEST_CHANGES \<and> review_body dto = None
        then Inl (422, ''body'', ''body_required'')
        else (case (if sm_decision dto = APPROVE \<and> pq_effectivePolicy pull = RequireBoth
                    then assertRequireBoth pull (sm_manualConfirmation dto) else None) of
            Some e \<Rightarrow> Inl e
          | None \<Rightarrow>
             (case role_of db organizationId actor of
                Inl e \<Rightarrow> Inl e
              | Inr r \<Rightarrow> Inr \<lparr>rw_id = newId, rw_organizationId = organizationId, rw_pullId = pullId,
                  rw_headSha = sm_headSha dto, rw_decision = sm_decision dto, rw_body = review_body dto,
                  rw_reviewerId = Some actor, rw_reviewerRole = r, rw_effectivePolicy = pq_effectivePolicy pull,
                  rw_manualConfirmation = sm_manualConfirmation dto, rw_aiAssisted = aiReviewedHead pull,
                  rw_syncStatus = SyncPending, rw_syncError = None\<rparr>)))"

text \<open>\<open>updateMany\<close> on the reviews.\<close>

definition update_reviews :: "(pull_review \<Rightarrow> bool) \<Rightarrow> (pull_review \<Rightarrow> pull_review) \<Rightarrow> review_db \<Rightarrow> nat \<times> review_db" where
  "update_reviews p g db =
    (length (filter p (rd_reviews db)), db\<lparr>rd_reviews := map (\<lambda>r. if p r then g r else r) (rd_reviews db)\<rparr>)"

definition set_sync :: "sync_status \<Rightarrow> jstr option \<Rightarrow> pull_review \<Rightarrow> pull_review" where
  "set_sync st err r = r\<lparr>rw_syncStatus := st, rw_syncError := err\<rparr>"

definition enqueueSync :: "bool \<Rightarrow> pull_review \<Rightarrow> review_db \<Rightarrow> pull_review \<times> review_db" where
  "enqueueSync queueUp review db =
    (if queueUp then (review, db\<lparr>rd_jobs := rd_jobs db @ [rw_id review]\<rparr>)
     else (set_sync SyncFailed (Some ''unknown'') review,
       snd (update_reviews (\<lambda>r. rw_id r = rw_id review) (set_sync SyncFailed (Some ''unknown'')) db)))"

definition create_review :: "pull_review \<Rightarrow> review_db \<Rightarrow> review_db" where
  "create_review r db = db\<lparr>rd_reviews := rd_reviews db @ [r]\<rparr>"

definition submit :: "bool \<Rightarrow> jstr \<Rightarrow> jstr \<Rightarrow> jstr \<Rightarrow> jstr \<Rightarrow> jstr \<Rightarrow> submit_dto \<Rightarrow> review_db \<Rightarrow>
    (api_error + pull_review) \<times> review_db" where
  "submit queueUp newId organizationId repositoryId pullId actor dto db =
    (case submit_check newId organizationId repositoryId pullId actor dto db of
      Inl e \<Rightarrow> (Inl e, db)
    | Inr review \<Rightarrow> apfst Inr (enqueueSync queueUp review (create_review review db)))"

definition list_reviews :: "jstr \<Rightarrow> jstr \<Rightarrow> jstr \<Rightarrow> review_db \<Rightarrow> api_error + pull_review list" where
  "list_reviews organizationId repositoryId pullId db =
    (case findPullOrThrow db organizationId repositoryId pullId of
      Inl e \<Rightarrow> Inl e
    | Inr _ \<Rightarrow> Inr (rev (filter (\<lambda>r. rw_organizationId r = organizationId \<and> rw_pullId r = pullId) (rd_reviews db))))"

definition retry_check :: "jstr \<Rightarrow> jstr \<Rightarrow> jstr \<Rightarrow> jstr \<Rightarrow> review_db \<Rightarrow> api_error + pull_review" where
  "retry_check organizationId repositoryId pullId reviewId db =
    (case findPullOrThrow db organizationId repositoryId pullId of
      Inl e \<Rightarrow> Inl e
    | Inr pull \<Rightarrow>
       (case List.find (\<lambda>r. rw_id r = reviewId) (rd_reviews db) of
          None \<Rightarrow> Inl (404, [], ''Review not found.'')
        | Some r \<Rightarrow>
            if rw_organizationId r \<noteq> organizationId \<or> rw_pullId r \<noteq> pullId then Inl (404, [], ''Review not found.'')
            else if rw_syncStatus r = SyncSynced then Inl (409, ''reviewId'', ''already_synced'')
            else if rw_syncStatus r = SyncPending then Inl (409, ''reviewId'', ''sync_in_progress'')
            else if Some (rw_headSha r) \<noteq> pq_headSha pull then Inl (409, ''reviewId'', ''head_changed'')
            else Inr r))"

text \<open>The claim of a retry, against the reviews as they are then.\<close>

definition retry_claim :: "jstr \<Rightarrow> review_db \<Rightarrow> nat \<times> review_db" where
  "retry_claim reviewId = update_reviews (\<lambda>r. rw_id r = reviewId \<and> rw_syncStatus r = SyncFailed) (set_sync SyncPending None)"

definition retrySync :: "bool \<Rightarrow> jstr \<Rightarrow> jstr \<Rightarrow> jstr \<Rightarrow> jstr \<Rightarrow> review_db \<Rightarrow> (api_error + pull_review) \<times> review_db" where
  "retrySync queueUp organizationId repositoryId pullId reviewId db =
    (case retry_check organizationId repositoryId pullId reviewId db of
      Inl e \<Rightarrow> (Inl e, db)
    | Inr r \<Rightarrow>
       (let (count, db1) = retry_claim reviewId db
        in if count = 0 then (Inl (409, ''reviewId'', ''sync_in_progress''), db1)
           else apfst Inr (enqueueSync queueUp (set_sync SyncPending None r) db1)))"
subsection \<open>Merging\<close>

text \<open>\<open>overrideCritical\<close> is optional: \<open>@IsOptional()\<close> lets \<open>null\<close> through as well as
  an absent one.\<close>

datatype override_critical = OverrideAbsent | OverrideNull | OverrideReason jstr
datatype merge_method = MergeCommit | MergeSquash

record merge_dto =
  mg_headSha :: jstr
  mg_method :: "merge_method option"
  mg_deleteSourceBranch :: bool
  mg_overrideCritical :: override_critical

datatype merge_error_code = MergeHeadChanged | MergeNotMergeable | MergeInsufficientPermission | MergeUnreachable
datatype merge_outcome = MergeDone | MergeRefused merge_error_code | MergeThrown

text \<open>The calls to the code host: the number of the request, the commit, the method, and on GitLab
  whether to remove the branch.\<close>

datatype host_call =
  GithubMerge jstr jstr merge_method
| GithubDeleteBranch jstr
| GitlabMerge jstr jstr bool bool

definition UNUSABLE_STATES :: "integration_state list" where
  "UNUSABLE_STATES = [IntTokenExpired, IntInvalid, IntUninstalled, IntSuspended, IntPendingApproval]"

fun toHttpError :: "merge_error_code \<Rightarrow> api_error" where
  "toHttpError MergeHeadChanged = (409, ''pullId'', ''head_changed'')"
| "toHttpError MergeNotMergeable = (422, ''pullId'', ''not_mergeable'')"
| "toHttpError MergeInsufficientPermission = (403, ''pullId'', ''insufficient_permission'')"
| "toHttpError MergeUnreachable = (502, ''pullId'', ''provider_unreachable'')"

fun override_truthy :: "override_critical \<Rightarrow> bool" where
  "override_truthy (OverrideReason _) = True"
| "override_truthy _ = False"

text \<open>The blockers that remain, and whether a critical one was overridden.\<close>

definition overridden :: "merge_dto \<Rightarrow> merge_blocker list \<Rightarrow> bool" where
  "overridden dto blockers \<longleftrightarrow> mg_overrideCritical dto \<noteq> OverrideAbsent \<and> CriticalFindings \<in> set blockers"

definition remaining :: "merge_dto \<Rightarrow> merge_blocker list \<Rightarrow> merge_blocker list" where
  "remaining dto blockers = filter (\<lambda>b. \<not> (overridden dto blockers \<and> b = CriticalFindings)) blockers"

text \<open>The guards of \<open>merge\<close>, in order.\<close>

definition merge_check :: "jstr \<Rightarrow> jstr \<Rightarrow> jstr \<Rightarrow> jstr \<Rightarrow> merge_dto \<Rightarrow> review_db \<Rightarrow> api_error + pull_request" where
  "merge_check organizationId repositoryId pullId actor dto db =
    (case findPullOrThrow db organizationId repositoryId pullId of
      Inl e \<Rightarrow> Inl e
    | Inr pull \<Rightarrow>
        if pq_state pull \<noteq> PullOpen then Inl (422, ''pullId'', ''pull_not_open'')
        else if head_differs pull (mg_headSha dto) then Inl (409, ''headSha'', ''head_changed'')
        else (case role_of db organizationId actor of
            Inl e \<Rightarrow> Inl e
          | Inr r \<Rightarrow>
              if override_truthy (mg_overrideCritical dto) \<and> r \<noteq> ADMIN
              then Inl (403, ''overrideCritical'', ''override_requires_admin'')
              else (case remaining dto (loadMergeBlockers db pull) of
                  b # _ \<Rightarrow> Inl (422, ''pullId'', blocker_name b)
                | [] \<Rightarrow>
                    if pq_integrationState pull \<in> set UNUSABLE_STATES
                    then Inl (403, ''organizationId'', ''insufficient_permission'') else Inr pull)))"

definition merge_calls :: "pull_request \<Rightarrow> merge_dto \<Rightarrow> host_call \<times> host_call list" where
  "merge_calls pull dto =
    (let mth = (case mg_method dto of Some m \<Rightarrow> m | None \<Rightarrow> MergeCommit)
     in (case pq_source pull of
        GITHUB \<Rightarrow> (GithubMerge (pq_externalId pull) (mg_headSha dto) mth,
          if mg_deleteSourceBranch dto then [GithubDeleteBranch (pq_sourceBranch pull)] else [])
      | GITLAB \<Rightarrow> (GitlabMerge (pq_externalId pull) (mg_headSha dto) (mth = MergeSquash) (mg_deleteSourceBranch dto), [])))"

definition set_merged :: "jstr \<Rightarrow> review_db \<Rightarrow> review_db" where
  "set_merged pullId db = db\<lparr>rd_pulls := map (\<lambda>p. if pq_id p = pullId \<and> pq_state p = PullOpen
     then p\<lparr>pq_state := PullMerged\<rparr> else p) (rd_pulls db), rd_cancelled := rd_cancelled db @ [pullId]\<rparr>"

text \<open>The result, the state, and the calls the code host received.  \<open>deleteBranch\<close> never throws.\<close>

definition merge :: "(host_call \<Rightarrow> merge_outcome) \<Rightarrow> jstr \<Rightarrow> jstr \<Rightarrow> jstr \<Rightarrow> jstr \<Rightarrow> merge_dto \<Rightarrow> review_db \<Rightarrow>
    (api_error + jstr) \<times> review_db \<times> host_call list" where
  "merge host organizationId repositoryId pullId actor dto db =
    (case merge_check organizationId repositoryId pullId actor dto db of
      Inl e \<Rightarrow> (Inl e, db, [])
    | Inr pull \<Rightarrow>
       (let (call, after) = merge_calls pull dto
        in (case host call of
            MergeRefused code \<Rightarrow> (Inl (toHttpError code), db, [call])
          | MergeThrown \<Rightarrow> (Inl (500, [], ''error''), db, [call])
          | MergeDone \<Rightarrow> (Inr (mg_headSha dto), set_merged pullId db, call # after))))"

subsection \<open>Copying a decision to the code host\<close>

datatype review_error_code = RevHeadChanged | RevInsufficientPermission | RevNotAllowed | RevUnreachable | RevUnknown

fun review_error_name :: "review_error_code \<Rightarrow> jstr" where
  "review_error_name RevHeadChanged = ''head_changed''"
| "review_error_name RevInsufficientPermission = ''insufficient_permission''"
| "review_error_name RevNotAllowed = ''not_allowed''"
| "review_error_name RevUnreachable = ''provider_unreachable''"
| "review_error_name RevUnknown = ''unknown''"

text \<open>A failure with whether it is retryable; any other error is \<open>unknown\<close> and retryable.\<close>

type_synonym sync_failure = "review_error_code \<times> bool"

datatype sync_call =
  GithubReview jstr jstr review_decision jstr
| GitlabApprove jstr jstr
| GitlabUnapprove jstr
| GitlabNote jstr jstr

definition NEWLINES :: jstr where "NEWLINES = [CHR 0x0A, CHR 0x0A]"

definition review_text :: "jstr \<Rightarrow> pull_review \<Rightarrow> jstr" where
  "review_text reviewerName r =
    (case rw_decision r of
      APPROVE \<Rightarrow> (case rw_body r of Some b \<Rightarrow> if b = [] then [] else b @ NEWLINES | None \<Rightarrow> []) @
        ''Approved by '' @ reviewerName @ '' via Critiq.''
    | REQUEST_CHANGES \<Rightarrow> ''Changes requested by '' @ reviewerName @ '' via Critiq:'' @ NEWLINES @
        (case rw_body r of Some b \<Rightarrow> b | None \<Rightarrow> []))"

text \<open>The note of an approval on GitLab only names the reviewer: its failure is caught and logged.\<close>

definition send :: "(sync_call \<Rightarrow> sync_failure option) \<Rightarrow> jstr \<Rightarrow> pull_request \<Rightarrow> pull_review \<Rightarrow> sync_failure option" where
  "send host reviewerName pull r =
    (if pq_integrationState pull \<in> set UNUSABLE_STATES then Some (RevInsufficientPermission, False)
     else (case pq_source pull of
        GITHUB \<Rightarrow> host (GithubReview (pq_externalId pull) (rw_headSha r) (rw_decision r) (review_text reviewerName r))
      | GITLAB \<Rightarrow>
          (case rw_decision r of
            APPROVE \<Rightarrow>
              (case host (GitlabApprove (pq_externalId pull) (rw_headSha r)) of
                Some e \<Rightarrow> Some e
              | None \<Rightarrow> (let note_failure = host (GitlabNote (pq_externalId pull) (review_text reviewerName r)) in None))
          | REQUEST_CHANGES \<Rightarrow>
              (case host (GitlabUnapprove (pq_externalId pull)) of
                Some e \<Rightarrow> Some e
              | None \<Rightarrow> host (GitlabNote (pq_externalId pull) (review_text reviewerName r))))))"

definition load_sync :: "jstr \<Rightarrow> review_db \<Rightarrow> (pull_request \<times> pull_review) option" where
  "load_sync reviewId db =
    (case List.find (\<lambda>r. rw_id r = reviewId) (rd_reviews db) of
      None \<Rightarrow> None
    | Some r \<Rightarrow> if rw_syncStatus r \<noteq> SyncPending then None
        else map_option (\<lambda>p. (p, r)) (List.find (\<lambda>p. pq_id p = rw_pullId r) (rd_pulls db)))"

text \<open>The write after the call, against the reviews as they are then.\<close>

definition settle_sync :: "jstr \<Rightarrow> sync_failure option \<Rightarrow> review_db \<Rightarrow> review_db" where
  "settle_sync reviewId outcome = (\<lambda>db. snd (update_reviews (\<lambda>r. rw_id r = reviewId \<and> rw_syncStatus r = SyncPending)
    (case outcome of None \<Rightarrow> set_sync SyncSynced None | Some (code, _) \<Rightarrow> set_sync SyncFailed (Some (review_error_name code))) db))"

text \<open>One attempt of the job: whether it throws, so that BullMQ tries again, and the state.\<close>

definition process_sync :: "bool \<Rightarrow> (sync_call \<Rightarrow> sync_failure option) \<Rightarrow> (jstr option \<Rightarrow> jstr) \<Rightarrow> jstr \<Rightarrow> review_db \<Rightarrow>
    bool \<times> review_db" where
  "process_sync lastAttempt host name_of reviewId db =
    (case load_sync reviewId db of
      None \<Rightarrow> (False, db)
    | Some (pull, r) \<Rightarrow>
       (let outcome = send host (name_of (rw_reviewerId r)) pull r
        in (case outcome of
            Some (code, retryable) \<Rightarrow>
              if retryable \<and> \<not> lastAttempt then (True, db) else (False, settle_sync reviewId outcome db)
          | None \<Rightarrow> (False, settle_sync reviewId outcome db))))"

text \<open>The attempts of one job, \<open>n\<close> of them left, each with what the code host answers then.\<close>

fun sync_job :: "nat \<Rightarrow> (nat \<Rightarrow> sync_call \<Rightarrow> sync_failure option) \<Rightarrow> (jstr option \<Rightarrow> jstr) \<Rightarrow> jstr \<Rightarrow> review_db \<Rightarrow> review_db" where
  "sync_job 0 host name_of reviewId db = db"
| "sync_job (Suc n) host name_of reviewId db =
    (let (again, db') = process_sync (n = 0) (host n) name_of reviewId db
     in if again then sync_job n host name_of reviewId db' else db')"

definition REVIEW_SYNC_JOB_ATTEMPTS :: nat where "REVIEW_SYNC_JOB_ATTEMPTS = 4"

subsection \<open>The standing decisions\<close>

text \<open>A review stands when its reviewer has made no later one on the commit.\<close>

definition standing :: "review_db \<Rightarrow> jstr \<Rightarrow> jstr \<Rightarrow> pull_review \<Rightarrow> bool" where
  "standing db pullId headSha r \<longleftrightarrow>
    (\<exists>before after. filter (\<lambda>r. rw_pullId r = pullId \<and> rw_headSha r = headSha) (rd_reviews db) = before @ r # after \<and>
      (\<forall>r' \<in> set after. rw_reviewerId r = None \<or> rw_reviewerId r' \<noteq> rw_reviewerId r))"

lemma latest_loop_set:
  assumes "\<forall>j. Inl j \<in> set seen \<longrightarrow> j < i"
  shows "r \<in> set (latest_loop i seen rs) \<longleftrightarrow>
    (\<exists>newer older. rs = newer @ r # older \<and> (rw_reviewerId r = None \<or>
      Inr (the (rw_reviewerId r)) \<notin> set seen \<and> (\<forall>r' \<in> set newer. rw_reviewerId r' \<noteq> rw_reviewerId r)))"
  using assms
proof (induction i seen rs rule: latest_loop.induct)
  case (2 i seen x rs)
  let ?k = "reviewer_key i (rw_reviewerId x)"
  have split: "(\<exists>newer older. x # rs = newer @ r # older \<and> P newer) \<longleftrightarrow>
      (x = r \<and> P []) \<or> (\<exists>newer older. rs = newer @ r # older \<and> P (x # newer))" for P
    by (auto simp: Cons_eq_append_conv)
  show ?case
  proof (cases "?k \<in> set seen")
    case True
    with 2(3) obtain u where u: "rw_reviewerId x = Some u" "Inr u \<in> set seen"
      by (auto simp: reviewer_key_def split: option.splits)
    from True 2(1) [OF refl True] 2(3) have ih: "r \<in> set (latest_loop i seen (x # rs)) \<longleftrightarrow>
      (\<exists>newer older. rs = newer @ r # older \<and> (rw_reviewerId r = None \<or>
        Inr (the (rw_reviewerId r)) \<notin> set seen \<and> (\<forall>r' \<in> set newer. rw_reviewerId r' \<noteq> rw_reviewerId r)))"
      by (auto simp: less_Suc_eq)
    have ne: "rw_reviewerId r = None \<or> rw_reviewerId x \<noteq> rw_reviewerId r" "x \<noteq> r"
      if "rw_reviewerId r = None \<or> Inr (the (rw_reviewerId r)) \<notin> set seen" using that u by auto
    show ?thesis unfolding ih split list.set ball_simps using ne by blast
  next
    case False
    have lt: "\<forall>j. Inl j \<in> set (?k # seen) \<longrightarrow> j < Suc i"
      using 2(3) by (auto simp: reviewer_key_def less_Suc_eq split: option.splits)
    have ih: "r \<in> set (latest_loop i seen (x # rs)) \<longleftrightarrow> x = r \<or>
      (\<exists>newer older. rs = newer @ r # older \<and> (rw_reviewerId r = None \<or>
        Inr (the (rw_reviewerId r)) \<notin> set (?k # seen) \<and> (\<forall>r' \<in> set newer. rw_reviewerId r' \<noteq> rw_reviewerId r)))"
      using False 2(2) [OF refl False lt] by auto
    show ?thesis unfolding ih split using False
      by (auto simp: reviewer_key_def split: option.splits)
  qed
qed simp

lemma standing_iff: "r \<in> set (latestPerReviewer (reviews_on db pullId headSha)) \<longleftrightarrow> standing db pullId headSha r"
proof -
  let ?xs = "filter (\<lambda>r. rw_pullId r = pullId \<and> rw_headSha r = headSha) (rd_reviews db)"
  have turn: "(\<exists>newer older. rev xs = newer @ r # older \<and> P (set newer)) \<longleftrightarrow>
      (\<exists>older newer. xs = older @ r # newer \<and> P (set newer))" for P and xs :: "pull_review list"
  proof
    assume "\<exists>newer older. rev xs = newer @ r # older \<and> P (set newer)"
    then obtain newer older where h: "rev xs = newer @ r # older" "P (set newer)" by blast
    from arg_cong [OF h(1), of rev] have "xs = rev older @ r # rev newer" by simp
    with h(2) show "\<exists>older newer. xs = older @ r # newer \<and> P (set newer)" by (metis set_rev)
  next
    assume "\<exists>older newer. xs = older @ r # newer \<and> P (set newer)"
    then obtain older newer where h: "xs = older @ r # newer" "P (set newer)" by blast
    then have "rev xs = rev newer @ r # rev older" by simp
    with h(2) show "\<exists>newer older. rev xs = newer @ r # older \<and> P (set newer)" by (metis set_rev)
  qed
  have "r \<in> set (latestPerReviewer (reviews_on db pullId headSha)) \<longleftrightarrow>
      (\<exists>newer older. rev ?xs = newer @ r # older \<and> (\<lambda>N. rw_reviewerId r = None \<or> (\<forall>r' \<in> N. rw_reviewerId r' \<noteq> rw_reviewerId r)) (set newer))"
    by (simp add: latestPerReviewer_def latest_loop_set reviews_on_def)
  also note turn
  also have "(\<exists>older newer. ?xs = older @ r # newer \<and> (rw_reviewerId r = None \<or> (\<forall>r' \<in> set newer. rw_reviewerId r' \<noteq> rw_reviewerId r)))
      \<longleftrightarrow> standing db pullId headSha r"
    unfolding standing_def by blast
  finally show ?thesis .
qed

lemma mergeBlockers_mem:
  "ApprovalRequired \<in> set (mergeBlockers PullOpen headSha scan rs) \<longleftrightarrow> (\<forall>r \<in> set (latestPerReviewer rs). rw_decision r \<noteq> APPROVE)"
  "ChangesRequested \<in> set (mergeBlockers PullOpen headSha scan rs) \<longleftrightarrow> (\<exists>r \<in> set (latestPerReviewer rs). rw_decision r = REQUEST_CHANGES)"
  "ScanRequired \<in> set (mergeBlockers PullOpen headSha scan rs) \<longleftrightarrow>
    \<not> (\<exists>s. scan = Some s \<and> ls_status s = ScanDone \<and> Some (ls_headSha s) = headSha)"
  "CriticalFindings \<in> set (mergeBlockers PullOpen headSha scan rs) \<longleftrightarrow>
    (\<exists>s. scan = Some s \<and> ls_status s = ScanDone \<and> Some (ls_headSha s) = headSha \<and> 0 < ls_criticalCount s)"
  by (force simp: mergeBlockers_def scan_blocker_def Let_def split: option.splits)+

lemma findPull_Inr:
  "findPullOrThrow db organizationId repositoryId pullId = Inr p \<Longrightarrow>
    p \<in> set (rd_pulls db) \<and> pq_id p = pullId \<and> pq_organizationId p = organizationId \<and> pq_repositoryId p = repositoryId"
  by (auto simp: findPullOrThrow_def split: option.splits if_splits dest: find_SomeD)

lemma merge_check_Inr:
  assumes "merge_check organizationId repositoryId pullId actor dto db = Inr pull"
  shows "findPullOrThrow db organizationId repositoryId pullId = Inr pull" "pq_state pull = PullOpen"
    "pq_headSha pull = Some (mg_headSha dto)" "mg_headSha dto \<noteq> []"
    "override_truthy (mg_overrideCritical dto) \<Longrightarrow> role_of db organizationId actor = Inr ADMIN"
    "remaining dto (loadMergeBlockers db pull) = []" "pq_integrationState pull \<notin> set UNUSABLE_STATES"
  using assms by (auto simp: merge_check_def head_differs_def split: sum.splits if_splits list.splits)

lemma remaining_nil:
  "remaining dto bs = [] \<longleftrightarrow> (\<forall>b \<in> set bs. b = CriticalFindings \<and> mg_overrideCritical dto \<noteq> OverrideAbsent)"
  by (auto simp: remaining_def overridden_def filter_empty_conv)

text \<open>C1: nothing is merged without a decision.  A call reaches the code host only for an open pull
  request of that organization and repository, at the very commit the caller saw and names to the code
  host; a reviewer's standing decision on that commit approves it and none asks for changes; the
  latest scan is of that commit and done; and while it has critical findings the caller sent an
  override, as an Admin unless the override was \<open>null\<close>.\<close>

theorem merge_needs_approval:
  assumes "merge host organizationId repositoryId pullId actor dto db = (res, db', calls)" "calls \<noteq> []"
  shows "\<exists>pull \<in> set (rd_pulls db). \<exists>sha s. pq_id pull = pullId \<and> pq_organizationId pull = organizationId \<and>
    pq_repositoryId pull = repositoryId \<and> pq_state pull = PullOpen \<and> pq_headSha pull = Some sha \<and> sha = mg_headSha dto \<and>
    (hd calls = GithubMerge (pq_externalId pull) sha (case mg_method dto of Some m \<Rightarrow> m | None \<Rightarrow> MergeCommit) \<or>
     hd calls = GitlabMerge (pq_externalId pull) sha (mg_method dto = Some MergeSquash) (mg_deleteSourceBranch dto)) \<and>
    (\<exists>r. standing db pullId sha r \<and> rw_decision r = APPROVE) \<and>
    (\<forall>r. standing db pullId sha r \<longrightarrow> rw_decision r \<noteq> REQUEST_CHANGES) \<and>
    pq_latestScan pull = Some s \<and> ls_status s = ScanDone \<and> ls_headSha s = sha \<and>
    (0 < ls_criticalCount s \<longrightarrow> mg_overrideCritical dto = OverrideNull \<or>
      (\<exists>reason. mg_overrideCritical dto = OverrideReason reason \<and> role_of db organizationId actor = Inr ADMIN))"
proof -
  from assms obtain pull where c: "merge_check organizationId repositoryId pullId actor dto db = Inr pull"
    by (auto simp: merge_def split: sum.splits)
  note k = merge_check_Inr [OF c]
  note p = findPull_Inr [OF k(1)]
  let ?sha = "mg_headSha dto"
  have hd: "hd calls = fst (merge_calls pull dto)"
    using assms(1) c by (auto simp: merge_def Let_def case_prod_beta split: merge_outcome.splits)
  have bl: "loadMergeBlockers db pull = mergeBlockers PullOpen (Some ?sha) (pq_latestScan pull) (reviews_on db pullId ?sha)"
    using k p by (simp add: loadMergeBlockers_def)
  note r = k(6) [unfolded bl remaining_nil]
  have no: "ApprovalRequired \<notin> set (loadMergeBlockers db pull)" "ChangesRequested \<notin> set (loadMergeBlockers db pull)"
    "ScanRequired \<notin> set (loadMergeBlockers db pull)"
    using r unfolding bl by blast+
  note nb = no [unfolded bl mergeBlockers_mem, unfolded Bex_def Ball_def standing_iff]
  from nb(3) obtain s where s: "pq_latestScan pull = Some s" "ls_status s = ScanDone" "ls_headSha s = ?sha" by auto
  have crit: "mg_overrideCritical dto \<noteq> OverrideAbsent" if "0 < ls_criticalCount s"
  proof -
    have "CriticalFindings \<in> set (mergeBlockers PullOpen (Some ?sha) (pq_latestScan pull) (reviews_on db pullId ?sha))"
      unfolding mergeBlockers_mem using s that by auto
    with r show ?thesis by blast
  qed
  have ov: "mg_overrideCritical dto = OverrideNull \<or>
      (\<exists>reason. mg_overrideCritical dto = OverrideReason reason \<and> role_of db organizationId actor = Inr ADMIN)"
    if "0 < ls_criticalCount s"
    using crit [OF that] k(5) by (cases "mg_overrideCritical dto") auto
  have call: "hd calls = GithubMerge (pq_externalId pull) ?sha (case mg_method dto of Some m \<Rightarrow> m | None \<Rightarrow> MergeCommit) \<or>
     hd calls = GitlabMerge (pq_externalId pull) ?sha (mg_method dto = Some MergeSquash) (mg_deleteSourceBranch dto)"
    unfolding hd by (auto simp: merge_calls_def Let_def split: provider_source.splits option.splits)
  have app: "\<exists>r. standing db pullId ?sha r \<and> rw_decision r = APPROVE"
    and chg: "\<forall>r. standing db pullId ?sha r \<longrightarrow> rw_decision r \<noteq> REQUEST_CHANGES"
    using nb(1,2) by auto
  show ?thesis
    by (rule bexI [of _ pull], rule exI [of _ ?sha], rule exI [of _ s], intro conjI impI)
      (use p k(2,3) app chg s ov call in simp_all)
qed

lemma scan_blocker_cases: "scan_blocker headSha scan \<in> {[], [ScanRequired], [CriticalFindings]}"
  by (auto simp: scan_blocker_def split: option.splits)

lemma critical_first:
  assumes "mergeBlockers PullOpen headSha scan rs = CriticalFindings # bs"
  shows "bs = []"
  using assms scan_blocker_cases [of headSha scan] by (auto simp: mergeBlockers_def Let_def split: if_splits)

text \<open>C39: the override is the Admin's only when it carries a reason.  Where a merge without override is
  refused for critical findings, a member who is no Admin is refused with an override too; but with
  \<open>overrideCritical: null\<close>, which the validation of the request lets through, the guards let the
  same member merge.\<close>

theorem null_override_skips_critical:
  assumes "merge_check organizationId repositoryId pullId actor (dto\<lparr>mg_overrideCritical := OverrideAbsent\<rparr>) db =
      Inl (422, ''pullId'', ''critical_findings'')"
    and "findPullOrThrow db organizationId repositoryId pullId = Inr pull" "pq_integrationState pull \<notin> set UNUSABLE_STATES"
    and "role_of db organizationId actor = Inr r" "r \<noteq> ADMIN"
  shows "merge_check organizationId repositoryId pullId actor (dto\<lparr>mg_overrideCritical := OverrideReason reason\<rparr>) db =
      Inl (403, ''overrideCritical'', ''override_requires_admin'') \<and>
    merge_check organizationId repositoryId pullId actor (dto\<lparr>mg_overrideCritical := OverrideNull\<rparr>) db = Inr pull"
proof -
  have st: "pq_state pull = PullOpen" "\<not> head_differs pull (mg_headSha dto)"
    using assms(1,2) by (auto simp: merge_check_def split: if_splits)
  have "remaining (dto\<lparr>mg_overrideCritical := OverrideAbsent\<rparr>) (loadMergeBlockers db pull) = loadMergeBlockers db pull"
    by (simp add: remaining_def overridden_def)
  with assms(1,2,4) st assms(3) obtain b bs where b: "loadMergeBlockers db pull = b # bs" "blocker_name b = ''critical_findings''"
    by (auto simp: merge_check_def split: list.splits if_splits)
  from b(2) have "b = CriticalFindings" by (cases b) simp_all
  with b(1) critical_first have bl: "loadMergeBlockers db pull = [CriticalFindings]"
    unfolding loadMergeBlockers_def st(1) by fastforce
  show ?thesis using assms st by (simp add: merge_check_def bl remaining_def overridden_def)
qed

subsection \<open>The record of decisions\<close>

text \<open>
  The writes of the requests and of the sync worker, in any order.  What a request has read may be
  out of date when it writes: a decision is checked against some earlier state \<open>db0\<close>, and
  pull requests, memberships and the queue change freely in between.
\<close>

inductive review_step :: "review_db \<Rightarrow> review_db \<Rightarrow> bool" where
  submitted: "submit_check newId orgId repoId pullId actor dto db0 = Inr review \<Longrightarrow> newId \<notin> rw_id ` set (rd_reviews db) \<Longrightarrow>
    review_step db (create_review review db)"
| enqueued: "enqueueSync queueUp review db = (review', db') \<Longrightarrow> review_step db db'"
| retried: "retry_claim i db = (n, db') \<Longrightarrow> review_step db db'"
| settled: "review_step db (settle_sync i outcome db)"
| other: "review_step db (db\<lparr>rd_pulls := pulls, rd_memberships := ms, rd_jobs := jobs, rd_cancelled := cs\<rparr>)"

definition sound_review :: "pull_review \<Rightarrow> bool" where
  "sound_review r \<longleftrightarrow>
    (rw_decision r = APPROVE \<and> rw_effectivePolicy r = RequireBoth \<longrightarrow> rw_manualConfirmation r \<and> rw_aiAssisted r) \<and>
    (rw_decision r = REQUEST_CHANGES \<longrightarrow> (\<exists>b. rw_body r = Some b \<and> b \<noteq> [])) \<and>
    (rw_syncError r \<noteq> None \<longleftrightarrow> rw_syncStatus r = SyncFailed)"

lemma require_both_assisted: "assertRequireBoth pull m = None \<Longrightarrow> m \<and> aiReviewedHead pull"
  by (auto simp: assertRequireBoth_def aiReviewedHead_def split: if_splits option.splits)

lemma submit_check_Inr:
  assumes "submit_check newId organizationId repositoryId pullId actor dto db = Inr review"
  shows "sound_review review" "rw_id review = newId" "rw_syncStatus review = SyncPending"
  using assms
  by (auto simp: submit_check_def sound_review_def review_body_def dest!: require_both_assisted
      split: sum.splits if_splits option.splits)

lemma sound_set_sync:
  "sound_review r \<Longrightarrow> sound_review (set_sync SyncPending None r)"
  "sound_review r \<Longrightarrow> sound_review (set_sync SyncSynced None r)"
  "sound_review r \<Longrightarrow> sound_review (set_sync SyncFailed (Some e) r)"
  by (auto simp: sound_review_def set_sync_def)

definition reviews_inv :: "review_db \<Rightarrow> bool" where
  "reviews_inv db \<longleftrightarrow> distinct (map rw_id (rd_reviews db)) \<and> (\<forall>r \<in> set (rd_reviews db). sound_review r)"

lemma update_reviews_inv:
  assumes "reviews_inv db" "\<And>r. rw_id (g r) = rw_id r" "\<And>r. sound_review r \<Longrightarrow> sound_review (g r)"
  shows "reviews_inv (snd (update_reviews p g db))"
proof -
  have "map rw_id (map (\<lambda>r. if p r then g r else r) rs) = map rw_id rs" for rs using assms(2) by simp
  with assms(1,3) show ?thesis by (auto simp: reviews_inv_def update_reviews_def simp del: map_map)
qed

lemma set_sync_id [simp]: "rw_id (set_sync st e r) = rw_id r"
  by (simp add: set_sync_def)

lemma reviews_inv_jobs: "reviews_inv (db\<lparr>rd_jobs := jobs\<rparr>) = reviews_inv db"
  by (simp add: reviews_inv_def)

lemma review_step_inv: "review_step db db' \<Longrightarrow> reviews_inv db \<Longrightarrow> reviews_inv db'"
proof (induction rule: review_step.induct)
  case (submitted newId orgId repoId pullId actor dto db0 review db)
  with submit_check_Inr [OF submitted.hyps(1)] show ?case by (auto simp: reviews_inv_def create_review_def)
next
  case (enqueued queueUp review db review' db')
  have "reviews_inv (snd (update_reviews p (set_sync SyncFailed (Some ''unknown'')) db))" for p
    by (rule update_reviews_inv [OF enqueued.prems]) (simp_all add: sound_set_sync)
  with enqueued.prems have "reviews_inv (snd (enqueueSync queueUp review db))"
    by (cases queueUp) (simp_all add: enqueueSync_def reviews_inv_jobs)
  with enqueued.hyps show ?case by simp
next
  case (retried i db n db')
  have "reviews_inv (snd (retry_claim i db))" unfolding retry_claim_def
    by (rule update_reviews_inv [OF retried.prems]) (simp_all add: sound_set_sync)
  with retried.hyps show ?case by simp
next
  case (settled db i outcome)
  show ?case unfolding settle_sync_def
    by (rule update_reviews_inv [OF settled]) (auto simp: sound_set_sync split: option.split)
qed (simp add: reviews_inv_def)

text \<open>C40: every recorded decision was entitled.  However requests, retries and workers interleave, an
  approval under \<open>REQUIRE_BOTH\<close> was confirmed by hand and made on a commit whose AI review was
  done; a request for changes has a text; and a copy carries an error exactly while it has failed.\<close>

theorem recorded_reviews_sound:
  assumes "review_step\<^sup>*\<^sup>* db db'" "rd_reviews db = []" "r \<in> set (rd_reviews db')"
  shows "(rw_decision r = APPROVE \<and> rw_effectivePolicy r = RequireBoth \<longrightarrow> rw_manualConfirmation r \<and> rw_aiAssisted r) \<and>
    (rw_decision r = REQUEST_CHANGES \<longrightarrow> (\<exists>b. rw_body r = Some b \<and> b \<noteq> [])) \<and>
    (rw_syncError r \<noteq> None \<longleftrightarrow> rw_syncStatus r = SyncFailed)"
proof -
  have "reviews_inv db'" using assms(1)
  proof (induction rule: rtranclp_induct)
    case base
    show ?case by (simp add: reviews_inv_def assms(2))
  qed (rule review_step_inv)
  with assms(3) show ?thesis by (simp add: reviews_inv_def sound_review_def)
qed

subsection \<open>Every copy ends\<close>

lemma settle_sync_at:
  assumes "distinct (map rw_id (rd_reviews db))" "r \<in> set (rd_reviews db)" "rw_id r = i" "rw_syncStatus r = SyncPending"
  shows "rd_reviews (settle_sync i outcome db) = map (\<lambda>x. if rw_id x = i
    then (case outcome of None \<Rightarrow> set_sync SyncSynced None x | Some (code, _) \<Rightarrow> set_sync SyncFailed (Some (review_error_name code)) x)
    else x) (rd_reviews db)"
proof -
  have "x = r" if "x \<in> set (rd_reviews db)" "rw_id x = i" for x
    using assms that by (auto simp: distinct_map inj_on_def)
  with assms(4) have "(rw_id x = i \<and> rw_syncStatus x = SyncPending) = (rw_id x = i)" if "x \<in> set (rd_reviews db)" for x
    using that by blast
  then show ?thesis by (auto simp: settle_sync_def update_reviews_def split: option.splits)
qed

text \<open>The processor is a job whose last attempt does not throw.\<close>

interpretation review_job: settling_job "\<lambda>final n. process_sync final (host n) name_of reviewId"
    "\<lambda>n. sync_job n host name_of reviewId" for host name_of reviewId
  by unfold_locales (auto simp: process_sync_def Let_def split: option.splits prod.splits if_splits)

lemma process_sync_settles:
  assumes "load_sync i db = Some (pull, r)" "\<not> fst (process_sync final h name_of i db)"
  shows "snd (process_sync final h name_of i db) = settle_sync i (send h (name_of (rw_reviewerId r)) pull r) db"
  using assms by (auto simp: process_sync_def Let_def split: option.splits if_splits)

lemma load_sync_Some:
  assumes "r \<in> set (rd_reviews db)" "rw_syncStatus r = SyncPending" "distinct (map rw_id (rd_reviews db))"
    "\<exists>p \<in> set (rd_pulls db). pq_id p = rw_pullId r"
  obtains pull where "load_sync (rw_id r) db = Some (pull, r)"
proof -
  have "List.find (\<lambda>x. rw_id x = rw_id r) (rd_reviews db) \<noteq> None" using assms(1) by (auto simp: find_None_iff)
  then obtain x where x: "List.find (\<lambda>x. rw_id x = rw_id r) (rd_reviews db) = Some x" by blast
  have "x = r" using find_SomeD [OF x] assms(1,3) by (auto simp: distinct_map inj_on_def)
  moreover have "List.find (\<lambda>p. pq_id p = rw_pullId r) (rd_pulls db) \<noteq> None" using assms(4) by (auto simp: find_None_iff)
  ultimately show thesis using that x assms(2) by (auto simp: load_sync_def)
qed

text \<open>Every copy of a decision ends.  Whatever the code host answers to the four attempts of its job,
  a pending copy of a review is afterwards synced or failed, with the error of the last answer, and no
  other review has changed; it is synced only if one attempt was sent without a failure.\<close>

theorem sync_job_settles:
  assumes "r \<in> set (rd_reviews db)" "rw_syncStatus r = SyncPending" "distinct (map rw_id (rd_reviews db))"
    and "\<exists>p \<in> set (rd_pulls db). pq_id p = rw_pullId r"
  shows "\<exists>k outcome pull. k < REVIEW_SYNC_JOB_ATTEMPTS \<and> load_sync (rw_id r) db = Some (pull, r) \<and>
    outcome = send (host k) (name_of (rw_reviewerId r)) pull r \<and>
    rd_reviews (sync_job REVIEW_SYNC_JOB_ATTEMPTS host name_of (rw_id r) db) =
      map (\<lambda>x. if rw_id x = rw_id r
        then (case outcome of None \<Rightarrow> set_sync SyncSynced None x
          | Some (code, _) \<Rightarrow> set_sync SyncFailed (Some (review_error_name code)) x)
        else x) (rd_reviews db)"
proof -
  from assms obtain pull where l: "load_sync (rw_id r) db = Some (pull, r)" by (rule load_sync_Some)
  note at = settle_sync_at [OF assms(3,1) refl assms(2)]
  from review_job.job_settles [of REVIEW_SYNC_JOB_ATTEMPTS host name_of "rw_id r" db]
  obtain k where k: "k < REVIEW_SYNC_JOB_ATTEMPTS" "\<not> fst (process_sync (k = 0) (host k) name_of (rw_id r) db)"
    "sync_job REVIEW_SYNC_JOB_ATTEMPTS host name_of (rw_id r) db = snd (process_sync (k = 0) (host k) name_of (rw_id r) db)"
    by (auto simp: REVIEW_SYNC_JOB_ATTEMPTS_def)
  let ?out = "send (host k) (name_of (rw_reviewerId r)) pull r"
  show ?thesis unfolding k(3) process_sync_settles [OF l k(2)]
    using k(1) l at [of ?out] by (intro exI [of _ k] exI [of _ ?out] exI [of _ pull]) simp
qed

subsection \<open>Samples\<close>

definition sample_pull :: pull_request where
  "sample_pull = \<lparr>pq_id = ''p1'', pq_organizationId = ''o1'', pq_repositoryId = ''r1'', pq_externalId = ''7'',
    pq_sourceBranch = ''dev'', pq_headSha = Some ''abc'', pq_state = PullOpen, pq_effectivePolicy = RequireBoth,
    pq_latestScan = Some \<lparr>ls_status = ScanDone, ls_headSha = ''abc'', ls_criticalCount = 1, ls_aiStatus = Some AiDone\<rparr>,
    pq_source = GITHUB, pq_integrationState = IntActive\<rparr>"

definition sample_approve :: submit_dto where
  "sample_approve = \<lparr>sm_decision = APPROVE, sm_headSha = ''abc'', sm_body = None, sm_manualConfirmation = True\<rparr>"

definition no_reviews :: review_db where
  "no_reviews = \<lparr>rd_pulls = [sample_pull], rd_reviews = [],
    rd_memberships = [\<lparr>mb_userId = ''u1'', mb_organizationId = ''o1'', mb_role = REVIEWER, mb_status = MemberActive\<rparr>],
    rd_jobs = [], rd_cancelled = []\<rparr>"

definition sample_review :: pull_review where
  "sample_review = \<lparr>rw_id = ''v1'', rw_organizationId = ''o1'', rw_pullId = ''p1'', rw_headSha = ''abc'',
    rw_decision = APPROVE, rw_body = None, rw_reviewerId = Some ''u1'', rw_reviewerRole = REVIEWER,
    rw_effectivePolicy = RequireBoth, rw_manualConfirmation = True, rw_aiAssisted = True, rw_syncStatus = SyncPending,
    rw_syncError = None\<rparr>"

definition one_review :: review_db where
  "one_review = create_review sample_review no_reviews"

definition sample_merge_dto :: merge_dto where
  "sample_merge_dto = \<lparr>mg_headSha = ''abc'', mg_method = None, mg_deleteSourceBranch = False, mg_overrideCritical = OverrideNull\<rparr>"

lemma sample_submitted: "submit_check ''v1'' ''o1'' ''r1'' ''p1'' ''u1'' sample_approve no_reviews = Inr sample_review"
  by code_simp

lemma merge_needs_approval_witness: "\<exists>r. standing one_review ''p1'' ''abc'' r \<and> rw_decision r = APPROVE"
proof -
  have "merge (\<lambda>_. MergeDone) ''o1'' ''r1'' ''p1'' ''u1'' sample_merge_dto one_review =
      (Inr ''abc'', set_merged ''p1'' one_review, [GithubMerge ''7'' ''abc'' MergeCommit])"
    by code_simp
  from merge_needs_approval [OF this] show ?thesis by (auto simp: sample_merge_dto_def)
qed

lemma null_override_skips_critical_witness:
  "merge_check ''o1'' ''r1'' ''p1'' ''u1'' sample_merge_dto one_review = Inr sample_pull"
proof -
  let ?d = "sample_merge_dto"
  have "merge_check ''o1'' ''r1'' ''p1'' ''u1'' (?d\<lparr>mg_overrideCritical := OverrideAbsent\<rparr>) one_review =
      Inl (422, ''pullId'', ''critical_findings'')"
    and "findPullOrThrow one_review ''o1'' ''r1'' ''p1'' = Inr sample_pull"
    and "pq_integrationState sample_pull \<notin> set UNUSABLE_STATES" and "role_of one_review ''o1'' ''u1'' = Inr REVIEWER"
    by code_simp+
  from null_override_skips_critical [OF this] show ?thesis by (simp add: sample_merge_dto_def)
qed

lemma recorded_reviews_sound_witness: "rw_manualConfirmation sample_review \<and> rw_aiAssisted sample_review"
proof -
  have "review_step no_reviews one_review"
    unfolding one_review_def by (rule review_step.submitted [OF sample_submitted]) (simp add: no_reviews_def)
  moreover have "rd_reviews no_reviews = []" "sample_review \<in> set (rd_reviews one_review)"
    by (simp_all add: no_reviews_def one_review_def create_review_def)
  ultimately have "rw_decision sample_review = APPROVE \<and> rw_effectivePolicy sample_review = RequireBoth \<longrightarrow>
      rw_manualConfirmation sample_review \<and> rw_aiAssisted sample_review"
    using recorded_reviews_sound [OF r_into_rtranclp] by blast
  then show ?thesis by (simp add: sample_review_def)
qed

lemma sync_job_settles_witness:
  "SyncPending \<notin> rw_syncStatus ` set (rd_reviews (sync_job REVIEW_SYNC_JOB_ATTEMPTS
     (\<lambda>k _. if k = 3 then Some (RevUnreachable, True) else None) (\<lambda>_. ''Ann'') ''v1'' one_review))"
proof -
  define host :: "nat \<Rightarrow> sync_call \<Rightarrow> sync_failure option" where "host = (\<lambda>k _. if k = 3 then Some (RevUnreachable, True) else None)"
  have one: "rd_reviews one_review = [sample_review]" "rw_id sample_review = ''v1''"
    by (simp_all add: one_review_def create_review_def no_reviews_def sample_review_def)
  have "sample_review \<in> set (rd_reviews one_review)" "rw_syncStatus sample_review = SyncPending"
    "distinct (map rw_id (rd_reviews one_review))" "\<exists>p \<in> set (rd_pulls one_review). pq_id p = rw_pullId sample_review"
    by (simp_all add: one_review_def create_review_def no_reviews_def sample_pull_def) (simp_all add: sample_review_def)
  from sync_job_settles [OF this, of host "\<lambda>_. ''Ann''"]
  have "SyncPending \<notin> rw_syncStatus ` set (rd_reviews (sync_job REVIEW_SYNC_JOB_ATTEMPTS host (\<lambda>_. ''Ann'') ''v1'' one_review))"
    by (elim exE conjE) (simp add: one set_sync_def split: option.split)
  then show ?thesis unfolding host_def .
qed

end
