(* ===== verification/Comment_Marker.thy ===== *)
theory Comment_Marker
  imports Js_Regex "HOL-Library.Sublist"
begin

section \<open>The marker of a comment and the text shown on the code host\<close>

text \<open>
  \<open>src/modules/comments/comment-marker.ts\<close>: the invisible marker that names the comment of
  Critiq in the text sent to GitHub or GitLab, the framing of that text, and the way back.  The
  lemmas show when the framing is undone exactly, and when it is not.
\<close>

abbreviation LF :: char where "LF \<equiv> CHR 0x0A"
abbreviation CR :: char where "CR \<equiv> CHR 0x0D"

text \<open>\<open>/<!--\s*critiq:comment:([a-z0-9]+)\s*-->/i\<close>\<close>

definition MARKER :: rx where
  "MARKER = rseq [rlit ''<!--'', rspaces, rlit_i ''critiq:comment:'', RGroup 1 (rplus (RSet is_alnum)), rspaces, rlit ''-->'']"

definition withMarker :: "jstr \<Rightarrow> jstr \<Rightarrow> jstr" where
  "withMarker body commentId = body @ [LF, LF] @ ''<!-- critiq:comment:'' @ commentId @ '' -->''"

definition markerOf :: "jstr \<Rightarrow> jstr option" where
  "markerOf body = (case rx_exec MARKER body 0 of None \<Rightarrow> None | Some m \<Rightarrow> rx_group 1 m body)"

text \<open>The quote of the thread's root, at most three lines of it; an absent or empty one is left out.\<close>

definition quoted :: "jstr option \<Rightarrow> jstr" where
  "quoted quote =
    (case quote of
      None \<Rightarrow> []
    | Some q \<Rightarrow> if q = [] then []
        else join [LF] (map (\<lambda>line. ''> '' @ line) (take 3 (split_on LF q))) @ [LF, LF])"

definition framing :: "jstr \<Rightarrow> jstr" where
  "framing authorName = ''**'' @ authorName @ ''** via Critiq:'' @ [LF, LF]"

definition providerBody :: "jstr \<Rightarrow> jstr \<Rightarrow> jstr \<Rightarrow> jstr option \<Rightarrow> jstr" where
  "providerBody authorName body commentId quote =
    withMarker (framing authorName @ quoted quote @ body) commentId"

text \<open>\<open>replace(/\r\n/g, '\n')\<close>\<close>

fun crlf_to_lf :: "jstr \<Rightarrow> jstr" where
  "crlf_to_lf (a # b # s) = (if a = CR \<and> b = LF then LF # crlf_to_lf s else a # crlf_to_lf (b # s))"
| "crlf_to_lf s = s"

text \<open>\<open>/^\*\*[^*]+\*\* via Critiq:\n\n/\<close> and \<open>/^(?:>[^\n]*\n)+\n/\<close>\<close>

definition FRAMING :: rx where
  "FRAMING = RSeq RBol (rseq [rlit ''**'', rplus (rnone ''*''), rlit (''** via Critiq:'' @ [LF, LF])])"

definition QUOTE_LINE :: rx where
  "QUOTE_LINE = rseq [rchar (CHR ''>''), rstar (rnone [LF]), rchar LF]"

definition QUOTE :: rx where
  "QUOTE = RSeq RBol (RSeq (rplus QUOTE_LINE) (rchar LF))"

definition stripCritiqFraming :: "bool \<Rightarrow> jstr \<Rightarrow> jstr" where
  "stripCritiqFraming quotedParent body =
    (let txt = rx_replace FRAMING [] (rx_replace MARKER [] (crlf_to_lf body))
     in trim (if quotedParent then rx_replace QUOTE [] txt else txt))"

text \<open>A host that returns the text with CRLF line endings.\<close>

definition lf_to_crlf :: "jstr \<Rightarrow> jstr" where
  "lf_to_crlf s = concat (map (\<lambda>c. if c = LF then [CR, LF] else [c]) s)"

subsection \<open>More shapes of the first match\<close>

lemma drop_ConsD:
  assumes "drop i s = x # r"
  shows "i < length s" "s ! i = x" "drop (Suc i) s = r"
  using assms by (metis drop_eq_Nil2 list.distinct(1) linorder_not_less, metis nth_via_drop,
    metis drop_Suc list.sel(3) tl_drop)

lemma rx_takes_lit_i:
  assumes "drop i s = p' @ rest" "map lower_char p' = map lower_char p" "j = i + length p"
  shows "rx_takes (rlit_i p) s (i, c) (j, c)"
  using assms
proof (induction p arbitrary: i p')
  case (Cons x p)
  then obtain x' p2 where p': "p' = x' # p2" "lower_char x' = lower_char x" "map lower_char p2 = map lower_char p"
    by (cases p') auto
  with Cons.prems(1) have "drop i s = x' # p2 @ rest" by simp
  note d = drop_ConsD [OF this]
  from d Cons.IH [of "Suc i" p2] Cons.prems(3) p' show ?case by (simp add: rx_takes_def)
qed (simp add: rx_takes_def)

lemma rx_takes_star:
  assumes "drop i s = ds @ rest" "\<forall>d \<in> set ds. P d" "rest = [] \<or> \<not> P (hd rest)" "i \<le> length s"
    and j: "j = i + length ds"
  shows "rx_takes (rstar (RSet P)) s (i, c) (j, c)"
proof -
  have len: "length s - i = length ds + length rest"
    using arg_cong [OF assms(1), of length] by simp
  have nth: "s ! (i + k) = (ds @ rest) ! k" if "k < length ds + length rest" for k
    using assms(1,4) by (metis nth_drop)
  have "\<exists>zs. rep_run (rx_run (RSet P) s) (Suc (0 + (length s - i))) 0 None True (i, c) = (i + length ds, c) # zs"
  proof (rule rep_run_class)
    show "\<forall>k < length ds. i + k < length s \<and> s ! (i + k) = ds ! k \<and> P (ds ! k)"
      using nth len assms(2) by (auto simp: nth_append)
    show "i + length ds < length s \<longrightarrow> \<not> P (s ! (i + length ds))"
      using nth [of "length ds"] len assms(3) by (cases rest) (auto simp: nth_append)
  qed (use len in simp_all)
  then show ?thesis unfolding rx_takes_def rx_run.simps fst_conv j .
qed

lemma rx_takes_lit_to: "drop i s = p @ rest \<Longrightarrow> j = i + length p \<Longrightarrow> rx_takes (rlit p) s (i, c) (j, c)"
  using rx_takes_lit by blast

lemma rx_takes_char: "drop i s = c # rest \<Longrightarrow> rx_takes (rchar c) s (i, cs) (Suc i, cs)"
  by (auto simp: rx_takes_def dest: drop_ConsD)

lemma rx_exec_bol_takes: "rx_takes r s (0, []) st \<Longrightarrow> rx_exec (RSeq RBol r) s 0 = Some (0, st)"
  unfolding rx_takes_def rx_exec_bol by (elim exE) simp

lemma rx_exec_bol_none: "rx_run r s (0, []) = [] \<Longrightarrow> rx_exec (RSeq RBol r) s 0 = None"
  by (simp only: rx_exec_bol list.case)

lemma rx_exec_first:
  assumes "\<And>k. k < n \<Longrightarrow> rx_run r s (k, []) = []" "rx_takes r s (n, []) st" "n \<le> length s"
  shows "rx_exec r s 0 = Some (n, st)"
proof -
  have "List.find P (xs @ y # ys) = Some y" if "\<forall>x \<in> set xs. \<not> P x" "P y" for P :: "nat \<Rightarrow> bool" and xs y ys
    using that by (induction xs) auto
  then have "List.find (\<lambda>k. rx_run r s (k, []) \<noteq> []) ([0..<n] @ n # [Suc n..<Suc (length s)]) = Some n"
    using assms(1,2) by (simp add: rx_takes_def) fastforce
  moreover have "[0..<Suc (length s)] = [0..<n] @ n # [Suc n..<Suc (length s)]"
    using assms(3) upt_add_eq_append [of 0 n "Suc (length s) - n"] by (simp add: upt_conv_Cons del: upt_Suc)
  ultimately show ?thesis using assms(2) unfolding rx_exec_def rx_takes_def by (auto simp del: upt_Suc)
qed
subsection \<open>Finding the marker\<close>

text \<open>\<open>unmarked s\<close>: no HTML comment opens in \<open>s\<close>.\<close>

definition unmarked :: "jstr \<Rightarrow> bool" where
  "unmarked s \<longleftrightarrow> \<not> sublist ''<!--'' s"

lemma unmarked_join:
  assumes c: "c \<notin> set ''<!--''"
  shows "unmarked (a @ c # b) \<longleftrightarrow> unmarked a \<and> unmarked b"
proof -
  have "sublist ''<!--'' a \<or> sublist ''<!--'' b" if "sublist ''<!--'' (a @ c # b)"
  proof -
    from that obtain ps ss where "a @ c # b = ps @ ''<!--'' @ ss" unfolding sublist_def by blast
    then consider us where "b = us @ ''<!--'' @ ss" | us where "a = ps @ us" "us @ c # b = ''<!--'' @ ss"
      by (auto simp: append_eq_append_conv2 Cons_eq_append_conv)
    then show ?thesis
    proof cases
      case (2 us)
      then have "\<exists>vs. us = ''<!--'' @ vs" using c by (auto simp: append_eq_Cons_conv)
      with 2(1) have "\<exists>vs. a = ps @ ''<!--'' @ vs" by blast
      then show ?thesis unfolding sublist_def by blast
    qed (unfold sublist_def, blast)
  qed
  moreover have "sublist x (a @ c # b)" if "sublist x a \<or> sublist x b" for x
    using that by (metis append_Cons append_Nil append.assoc sublist_append_leftI sublist_append_rightI sublist_order.order_trans)
  ultimately show ?thesis unfolding unmarked_def by blast
qed

lemma unmarked_nil: "unmarked []"
  by (simp add: unmarked_def)

lemma unmarked_cons: "c \<notin> set ''<!--'' \<Longrightarrow> unmarked (c # b) \<longleftrightarrow> unmarked b"
  using unmarked_join [of c "[]" b] by (simp add: unmarked_nil)

lemma unmarked_no_match:
  assumes "unmarked (a @ [LF])" "k \<le> length a"
  shows "rx_run MARKER (a @ LF # b) (k, []) = []"
proof -
  have "\<not> starts_at (a @ LF # b) k ''<!--''"
  proof
    let ?d = "drop k a"
    assume "starts_at (a @ LF # b) k ''<!--''"
    moreover have "length ''<!--'' = 4" "drop k (a @ LF # b) = ?d @ LF # b" using assms(2) by simp_all
    ultimately have t: "take 4 (?d @ LF # b) = ''<!--''" unfolding starts_at_def by metis
    have "4 \<le> length ?d"
    proof (rule ccontr)
      assume "\<not> 4 \<le> length ?d"
      then have n: "length ?d < 4" by simp
      then have "''<!--'' ! length ?d = LF" unfolding t [symmetric] by (simp only: nth_take nth_append_length)
      moreover from n have "length ?d \<in> {0, 1, 2, 3}" by auto
      ultimately show False by auto
    qed
    with t have "take 4 ?d = ''<!--''" by simp
    then have "a = take k a @ ''<!--'' @ drop 4 ?d" by (metis append_take_drop_id)
    then have "sublist ''<!--'' a" unfolding sublist_def by blast
    with assms(1) show False unfolding unmarked_def by (meson sublist_append_rightI sublist_order.order_trans)
  qed
  then show ?thesis by (simp add: MARKER_def rx_run_lit del: rlit.simps rx_run.simps add: rx_run.simps(3))
qed

lemma marker_takes:
  assumes "drop i s = ''<!-- critiq:comment:'' @ commentId @ '' -->''" "commentId \<noteq> []" "\<forall>c \<in> set commentId. is_alnum c"
  shows "rx_takes MARKER s (i, []) (length s, [(1, i + 20, i + 20 + length commentId)])"
proof -
  let ?n = "length commentId"
  have il: "i \<le> length s" using assms(1) by (metis drop_all list.discI append_Cons nat_le_linear)
  then have len: "length s = i + 24 + ?n" using arg_cong [OF assms(1), of length] by simp
  have at: "drop (i + k) s = drop k (''<!-- critiq:comment:'' @ commentId @ '' -->'')" for k
    unfolding assms(1) [symmetric] by (simp add: add.commute)
  have at20: "drop (i + 20) s = commentId @ '' -->''" using at [of 20] by simp
  have after: "drop (i + 20 + ?n + k) s = drop k '' -->''" for k
  proof -
    have "drop (?n + k) (drop (i + 20) s) = drop k '' -->''" unfolding at20 by simp
    then show ?thesis by (simp add: ac_simps)
  qed
  have 1: "rx_takes (rlit ''<!--'') s (i, []) (i + 4, [])"
    by (rule rx_takes_lit_to [where rest = "'' critiq:comment:'' @ commentId @ '' -->''"]) (simp_all add: assms(1))
  have 2: "rx_takes rspaces s (i + 4, []) (i + 5, [])"
    by (rule rx_takes_star [where ds = "'' ''" and rest = "''critiq:comment:'' @ commentId @ '' -->''"])
      (use at [of 4] len in \<open>simp_all add: is_space_def\<close>)
  have 3: "rx_takes (rlit_i ''critiq:comment:'') s (i + 5, []) (i + 20, [])"
    by (rule rx_takes_lit_i [where p' = "''critiq:comment:''" and rest = "commentId @ '' -->''"]) (use at [of 5] in simp_all)
  have 4: "rx_takes (RGroup 1 (rplus (RSet is_alnum))) s (i + 20, []) (i + 20 + ?n, [(1, i + 20, i + 20 + ?n)])"
  proof -
    have "rx_takes (rplus (RSet is_alnum)) s (i + 20, []) (i + 20 + ?n, [])"
      by (rule rx_takes_digits [where rest = "'' -->''"]) (use at20 assms(2,3) in \<open>simp_all add: char_class_defs\<close>)
    from rx_takes_group [OF this, of 1] show ?thesis unfolding fst_conv snd_conv .
  qed
  have 5: "rx_takes rspaces s (i + 20 + ?n, cs) (i + 21 + ?n, cs)" for cs
    by (rule rx_takes_star [where ds = "'' ''" and rest = "''-->''"])
      (use after [of 0] len in \<open>simp_all add: is_space_def\<close>)
  have 6: "rx_takes (rlit ''-->'') s (i + 21 + ?n, cs) (i + 24 + ?n, cs)" for cs
    by (rule rx_takes_lit_to [where rest = "[]"]) (use after [of 1] in \<open>simp_all add: ac_simps\<close>)
  show ?thesis unfolding MARKER_def rseq.simps len
    by (rule rx_takes_seq [OF 1] rx_takes_seq [OF 2] rx_takes_seq [OF 3] rx_takes_seq [OF 4] rx_takes_seq [OF 5] 6)+
qed

lemma marker_exec:
  assumes "unmarked b" "commentId \<noteq> []" "\<forall>c \<in> set commentId. is_alnum c"
    and s: "s = b @ LF # ''<!-- critiq:comment:'' @ commentId @ '' -->''"
  shows "rx_exec MARKER s 0 = Some (length b + 1, length s, [(1, length b + 21, length b + 21 + length commentId)])"
proof (rule rx_exec_first)
  fix k assume k: "k < length b + 1"
  have "unmarked (b @ [LF])" using assms(1) unmarked_join [of LF b "[]"] by (simp add: unmarked_nil)
  with k show "rx_run MARKER s (k, []) = []" unfolding s by (intro unmarked_no_match) simp_all
next
  have "drop (length b + 1) s = ''<!-- critiq:comment:'' @ commentId @ '' -->''" by (simp add: s)
  from marker_takes [OF this assms(2,3)]
  show "rx_takes MARKER s (length b + 1, []) (length s, [(1, length b + 21, length b + 21 + length commentId)])"
    by (simp only: add.assoc) simp
qed (simp add: s)

lemma marker_found:
  assumes "unmarked b" "commentId \<noteq> []" "\<forall>c \<in> set commentId. is_alnum c"
    and s: "s = b @ LF # ''<!-- critiq:comment:'' @ commentId @ '' -->''"
  shows "markerOf s = Some commentId" "rx_replace MARKER [] s = b @ [LF]"
  unfolding markerOf_def rx_replace_def marker_exec [OF assms]
  by (simp_all add: rx_group_def slice_def s rx_start_def rx_end_def)

lemma markerOf_withMarker:
  assumes "unmarked a" "commentId \<noteq> []" "\<forall>c \<in> set commentId. is_alnum c"
  shows "markerOf (withMarker a commentId) = Some commentId"
    "rx_replace MARKER [] (withMarker a commentId) = a @ [LF, LF]"
proof -
  have u: "unmarked (a @ [LF])" using assms(1) unmarked_join [of LF a "[]"] by (simp add: unmarked_nil)
  have s: "withMarker a commentId = (a @ [LF]) @ LF # ''<!-- critiq:comment:'' @ commentId @ '' -->''"
    by (simp add: withMarker_def)
  from marker_found [OF u assms(2,3) s]
  show "markerOf (withMarker a commentId) = Some commentId" "rx_replace MARKER [] (withMarker a commentId) = a @ [LF, LF]"
    by simp_all
qed

text \<open>The marker is found as well in a text that comes back with CRLF line endings.\<close>

lemma lf_to_crlf_append: "lf_to_crlf (a @ b) = lf_to_crlf a @ lf_to_crlf b"
  by (simp add: lf_to_crlf_def)

lemma lf_to_crlf_id: "LF \<notin> set a \<Longrightarrow> lf_to_crlf a = a"
  by (induction a) (auto simp: lf_to_crlf_def)

lemma unmarked_crlf: "unmarked a \<Longrightarrow> unmarked (lf_to_crlf a)"
proof (induction "length a" arbitrary: a rule: less_induct)
  case less
  show ?case
  proof (cases "LF \<in> set a")
    case True
    then obtain p r where a: "a = p @ LF # r" "LF \<notin> set p" by (meson split_list_first)
    have "lf_to_crlf a = p @ CR # LF # lf_to_crlf r"
      unfolding a(1) lf_to_crlf_append lf_to_crlf_id [OF a(2)] by (simp add: lf_to_crlf_def)
    moreover have "unmarked p" "unmarked r" using less.prems unfolding a(1) by (simp_all add: unmarked_join)
    moreover have "unmarked (lf_to_crlf r)" using less.hyps [of r] a(1) \<open>unmarked r\<close> by simp
    ultimately show ?thesis by (simp add: unmarked_join unmarked_cons)
  qed (simp add: lf_to_crlf_id less.prems)
qed

lemma markerOf_crlf:
  assumes "unmarked a" "commentId \<noteq> []" "\<forall>c \<in> set commentId. is_alnum c"
  shows "markerOf (lf_to_crlf (withMarker a commentId)) = Some commentId"
proof (rule marker_found(1))
  have "\<not> is_alnum LF" by (simp add: char_class_defs)
  then have "lf_to_crlf commentId = commentId" using assms(3) by (intro lf_to_crlf_id) blast
  then show "lf_to_crlf (withMarker a commentId) =
      (lf_to_crlf a @ [CR, LF, CR]) @ LF # ''<!-- critiq:comment:'' @ commentId @ '' -->''"
    by (simp add: withMarker_def lf_to_crlf_append) (simp add: lf_to_crlf_def)
  show "unmarked (lf_to_crlf a @ [CR, LF, CR])"
    using unmarked_crlf [OF assms(1)] by (simp add: unmarked_join unmarked_cons unmarked_nil)
qed (use assms in auto)

subsection \<open>Undoing the framing\<close>

lemma framing_stripped:
  assumes "authorName \<noteq> []" "CHR ''*'' \<notin> set authorName"
  shows "rx_replace FRAMING [] (framing authorName @ rest) = rest"
proof -
  let ?s = "framing authorName @ rest" and ?n = "length authorName"
  have 1: "rx_takes (rlit ''**'') ?s (0, []) (2, [])"
    by (rule rx_takes_lit_to [where rest = "authorName @ ''** via Critiq:'' @ [LF, LF] @ rest"]) (simp_all add: framing_def)
  have 2: "rx_takes (rplus (rnone ''*'')) ?s (2, []) (2 + ?n, [])"
    by (rule rx_takes_digits [of 2 ?s authorName "''** via Critiq:'' @ [LF, LF] @ rest"]) (use assms in \<open>auto simp: framing_def\<close>)
  have 3: "rx_takes (rlit (''** via Critiq:'' @ [LF, LF])) ?s (2 + ?n, []) (18 + ?n, [])"
    by (rule rx_takes_lit_to [where rest = rest]) (simp_all add: framing_def)
  have "rx_takes (rseq [rlit ''**'', rplus (rnone ''*''), rlit (''** via Critiq:'' @ [LF, LF])]) ?s (0, []) (18 + ?n, [])"
    unfolding rseq.simps by (rule rx_takes_seq [OF 1] rx_takes_seq [OF 2] 3)+
  then have "rx_exec FRAMING ?s 0 = Some (0, 18 + ?n, [])"
    unfolding FRAMING_def by (rule rx_exec_bol_takes)
  then show ?thesis by (simp add: rx_replace_def rx_start_def rx_end_def) (simp add: framing_def)
qed

text \<open>A name with an asterisk is not taken off.\<close>

lemma rep_run_class_result:
  assumes "st' \<in> set (rep_run (rx_run (RSet P) s) fuel lo hi g st)" "fst st \<le> k" "k < fst st'"
  shows "P (s ! k)"
  by (rule rep_run_over [OF _ assms]) (auto split: if_splits dest: le_antisym simp: less_Suc_eq_le)

lemma rx_seq_none:
  "rx_run a s st = [st1] \<Longrightarrow> \<forall>st2 \<in> set (rx_run b s st1). rx_run c s st2 = [] \<Longrightarrow> rx_run (RSeq a (RSeq b c)) s st = []"
  by simp

lemma framing_kept:
  assumes "CHR ''*'' \<in> set authorName" "LF \<notin> set authorName"
  shows "rx_replace FRAMING [] (framing authorName @ rest) = framing authorName @ rest"
proof -
  let ?s = "framing authorName @ rest" and ?lit = "''** via Critiq:'' @ [LF, LF]"
  from assms(1) obtain p where p: "p < length authorName" "authorName ! p = CHR ''*''" by (auto simp: in_set_conv_nth)
  have "rx_run (rlit ?lit) ?s st = []" if st: "st \<in> set (rx_run (rplus (rnone ''*'')) ?s (2, []))" for st
  proof -
    have "fst st \<le> 2 + p"
    proof (rule ccontr)
      assume "\<not> fst st \<le> 2 + p"
      with st have "?s ! (2 + p) \<notin> set ''*''" unfolding rx_run.simps(5)
        by (elim rep_run_class_result) auto
      with p show False by (simp add: framing_def nth_append)
    qed
    moreover have "fst st \<ge> 2" using rx_run_mono(1) [of "fst st" "snd st" "rplus (rnone ''*'')" ?s 2 "[]"] st by (simp only: prod.collapse) simp
    ultimately obtain j where j: "fst st = 2 + j" "j \<le> p" by (metis le_Suc_ex add_le_cancel_left)
    have "?s ! (fst st + 14) \<noteq> LF"
    proof -
      have "?s ! (fst st + 14) = (authorName @ ''** via Critiq:'' @ [LF, LF] @ rest) ! (j + 14)"
        by (simp add: framing_def j(1) add.commute)
      also have "\<dots> \<in> set (authorName @ ''** via Critiq:'')"
      proof -
        have "j + 14 < length (authorName @ ''** via Critiq:'')" using j(2) p(1) by simp
        then have "(authorName @ ''** via Critiq:'' @ [LF, LF] @ rest) ! (j + 14) = (authorName @ ''** via Critiq:'') ! (j + 14)"
          by (metis append.assoc nth_append)
        then show ?thesis using \<open>j + 14 < _\<close> nth_mem by metis
      qed
      finally show ?thesis using assms(2) by auto
    qed
    moreover have "?s ! (fst st + 14) = LF" if "starts_at ?s (fst st) ?lit"
    proof -
      have "length ?lit = 16" by simp
      with that have "take 16 (drop (fst st) ?s) = ?lit" unfolding starts_at_def by metis
      then have "take 16 (drop (fst st) ?s) ! 14 = ?lit ! 14" by (rule arg_cong)
      moreover have "(14::nat) < 16" by simp
      ultimately have "drop (fst st) ?s ! 14 = LF" by (simp only: nth_take) simp
      moreover have "fst st \<le> length ?s"
      proof (rule ccontr)
        assume "\<not> fst st \<le> length ?s"
        then have "drop (fst st) ?s = []" by simp
        with \<open>take 16 _ = _\<close> show False by (simp only: take_Nil) simp
      qed
      ultimately show ?thesis by (simp only: nth_drop)
    qed
    ultimately show ?thesis by (cases st) (auto simp: rx_run_lit simp del: rlit.simps)
  qed
  moreover have "rx_run (rlit ''**'') ?s (0, []) = [(2, [])]"
    unfolding rx_run_lit by (simp add: starts_at_def framing_def)
  ultimately have "rx_run (rseq [rlit ''**'', rplus (rnone ''*''), rlit ?lit]) ?s (0, []) = []"
    unfolding rseq.simps by (intro rx_seq_none ballI)
  then have "rx_exec FRAMING ?s 0 = None" unfolding FRAMING_def by (rule rx_exec_bol_none)
  then show ?thesis by (simp add: rx_replace_def)
qed

subsection \<open>Undoing the quote\<close>

lemma quote_line_takes:
  assumes "drop i s = (''> '' @ l @ [LF]) @ rest" "LF \<notin> set l"
  shows "rx_takes QUOTE_LINE s (i, c) (i + length (''> '' @ l @ [LF]), c)"
proof -
  have d: "drop (Suc i) s = ('' '' @ l) @ LF # rest" using assms(1) drop_ConsD(3) [of i s "CHR ''>''"] by simp
  then have il: "Suc i \<le> length s" by (metis append_is_Nil_conv drop_all list.discI nat_le_linear)
  have e: "drop (Suc i + length ('' '' @ l)) s = LF # rest"
    by (metis d add.commute append_eq_conv_conj drop_drop)
  have 1: "rx_takes (rchar (CHR ''>'')) s (i, c) (Suc i, c)" using assms(1) by (intro rx_takes_char) simp
  have 2: "rx_takes (rstar (rnone [LF])) s (Suc i, c) (Suc i + length ('' '' @ l), c)"
    by (rule rx_takes_star [OF d]) (use assms(2) il in auto)
  have 3: "rx_takes (rchar LF) s (Suc i + length ('' '' @ l), c) (Suc (Suc i + length ('' '' @ l)), c)"
    by (rule rx_takes_char [OF e])
  have "rx_takes QUOTE_LINE s (i, c) (Suc (Suc i + length ('' '' @ l)), c)"
    unfolding QUOTE_LINE_def rseq.simps by (rule rx_takes_seq [OF 1] rx_takes_seq [OF 2] 3)+
  then show ?thesis by simp
qed

lemma rep_run_takes:
  assumes "\<forall>k < n. rx_takes r s (p k, c) (p (Suc k), c) \<and> p k < p (Suc k)" "rx_run r s (p n, c) = []"
    "lo \<le> n" "n < fuel"
  shows "\<exists>zs. rep_run (rx_run r s) fuel lo None True (p 0, c) = (p n, c) # zs"
  using assms
proof (induction n arbitrary: p lo fuel)
  case 0
  then obtain k where "fuel = Suc k" by (cases fuel) auto
  with 0 show ?case by (simp add: Let_def)
next
  case (Suc n)
  from Suc.prems(4) obtain k where k: "fuel = Suc k" "n < k" by (cases fuel) auto
  from Suc.prems(1) have "rx_takes r s (p 0, c) (p (Suc 0), c)" "p 0 < p (Suc 0)" by blast+
  then obtain ys where ys: "rx_run r s (p 0, c) = (p (Suc 0), c) # ys" unfolding rx_takes_def by blast
  have "\<exists>zs. rep_run (rx_run r s) k (lo - 1) None True (p (Suc 0), c) = (p (Suc n), c) # zs"
    by (rule Suc.IH [of "\<lambda>k. p (Suc k)"]) (use Suc.prems k in auto)
  with ys \<open>p 0 < p (Suc 0)\<close> show ?case unfolding k rep_run.simps(2) by (auto simp: Let_def)
qed

lemma join_concat: "ls \<noteq> [] \<Longrightarrow> join [x] ls @ [x] = concat (map (\<lambda>l. l @ [x]) ls)"
  by (induction "[x]" ls rule: join.induct) auto

definition quote_lines :: "jstr list \<Rightarrow> jstr" where
  "quote_lines ls = concat (map (\<lambda>l. ''> '' @ l @ [LF]) ls)"

lemma quote_exec:
  assumes "ls \<noteq> []" "\<forall>l \<in> set ls. LF \<notin> set l"
  shows "rx_exec QUOTE (quote_lines ls @ LF # rest) 0 = Some (0, Suc (length (quote_lines ls)), [])"
proof -
  let ?s = "quote_lines ls @ LF # rest"
  define p where "p = (\<lambda>k. length (quote_lines (take k ls)))"
  have line: "rx_takes QUOTE_LINE ?s (p k, []) (p (Suc k), []) \<and> p k < p (Suc k)" if k: "k < length ls" for k
  proof -
    have split: "ls = take k ls @ ls ! k # drop (Suc k) ls" using k by (simp add: id_take_nth_drop)
    have "?s = quote_lines (take k ls) @ (''> '' @ ls ! k @ [LF]) @ quote_lines (drop (Suc k) ls) @ LF # rest"
      by (subst split) (simp add: quote_lines_def)
    then have "drop (p k) ?s = (''> '' @ ls ! k @ [LF]) @ quote_lines (drop (Suc k) ls) @ LF # rest"
      unfolding p_def by (metis append_eq_conv_conj)
    from quote_line_takes [OF this, of "[]"] assms(2) k
    have "rx_takes QUOTE_LINE ?s (p k, []) (p k + length (''> '' @ ls ! k @ [LF]), [])" by simp
    moreover have "p (Suc k) = p k + length (''> '' @ ls ! k @ [LF])"
      using k by (simp add: p_def quote_lines_def take_Suc_conv_app_nth)
    ultimately show ?thesis by simp
  qed
  have at: "drop (p (length ls)) ?s = LF # rest" by (simp add: p_def)
  then have stop: "rx_run QUOTE_LINE ?s (p (length ls), []) = []"
    using drop_ConsD(2) [OF at] by (simp add: QUOTE_LINE_def del: rx_run.simps(5))
  have "length ls \<le> length (quote_lines ls)" by (induction ls) (simp_all add: quote_lines_def)
  then have "\<exists>zs. rep_run (rx_run QUOTE_LINE ?s) (Suc (1 + (length ?s - p 0))) 1 None True (p 0, []) = (p (length ls), []) # zs"
    by (intro rep_run_takes) (use line stop assms(1) in \<open>auto simp: p_def quote_lines_def Suc_le_eq\<close>)
  then have 1: "rx_takes (rplus QUOTE_LINE) ?s (0, []) (p (length ls), [])"
    by (simp add: rx_takes_def p_def quote_lines_def)
  have "rx_takes (RSeq (rplus QUOTE_LINE) (rchar LF)) ?s (0, []) (Suc (p (length ls)), [])"
    by (rule rx_takes_seq [OF 1 rx_takes_char [OF at]])
  then show ?thesis unfolding QUOTE_def by (rule rx_exec_bol_takes [THEN trans]) (simp add: p_def)
qed

lemma quoted_lines:
  assumes "q \<noteq> []"
  shows "quoted (Some q) = quote_lines (take 3 (split_on LF q)) @ [LF]"
proof -
  have "take 3 (split_on LF q) \<noteq> []" by simp
  then have "join [LF] (map (\<lambda>line. ''> '' @ line) (take 3 (split_on LF q))) @ [LF] = quote_lines (take 3 (split_on LF q))"
    by (simp add: join_concat quote_lines_def comp_def)
  moreover have "quoted (Some q) = join [LF] (map (\<lambda>line. ''> '' @ line) (take 3 (split_on LF q))) @ [LF, LF]"
    by (simp only: quoted_def option.case assms if_False)
  moreover have "x @ [LF, LF] = (x @ [LF]) @ [LF]" for x by simp
  ultimately show ?thesis by metis
qed

lemma quote_stripped:
  assumes "q \<noteq> []"
  shows "rx_replace QUOTE [] (quoted (Some q) @ rest) = rest"
proof -
  have "\<forall>l \<in> set (take 3 (split_on LF q)). LF \<notin> set l" by (meson in_set_takeD split_on_parts)
  from quote_exec [OF _ this, of rest] show ?thesis
    by (simp add: quoted_lines [OF assms] rx_replace_def rx_start_def rx_end_def)
qed

subsection \<open>Line endings and blanks\<close>

lemma crlf_to_lf_id: "CR \<notin> set s \<Longrightarrow> crlf_to_lf s = s"
  by (induction s rule: crlf_to_lf.induct) auto

lemma crlf_to_lf_cons: "c \<noteq> CR \<Longrightarrow> crlf_to_lf (c # s) = c # crlf_to_lf s"
  by (cases s) auto

lemma crlf_round_trip: "CR \<notin> set s \<Longrightarrow> crlf_to_lf (lf_to_crlf s) = s"
  by (induction s) (auto simp: lf_to_crlf_def crlf_to_lf_cons)

lemma trim_append_spaces:
  assumes "\<forall>c \<in> set w. is_space c"
  shows "trim (s @ w) = trim s"
proof (cases "\<forall>c \<in> set s. is_space c")
  case True
  with assms have "dropWhile is_space (s @ w) = []" "dropWhile is_space s = []"
    unfolding dropWhile_eq_Nil_conv by auto
  then show ?thesis unfolding trim_def trim_start_def by (simp only:)
next
  case False
  then have "dropWhile is_space (s @ w) = dropWhile is_space s @ w" by (auto simp: dropWhile_append1)
  moreover have "dropWhile is_space (rev w @ t) = dropWhile is_space t" for t
    by (rule dropWhile_append2) (use assms in simp)
  ultimately show ?thesis by (simp add: trim_def trim_start_def trim_end_def)
qed

lemma trim_id:
  assumes "s \<noteq> []" "\<not> is_space (hd s)" "\<not> is_space (last s)"
  shows "trim s = s"
proof -
  have "dropWhile is_space s = s" using assms by (cases s) auto
  moreover have "dropWhile is_space (rev s) = rev s"
    using assms by (metis dropWhile_eq_self_iff hd_rev)
  ultimately show ?thesis by (simp add: trim_def trim_start_def trim_end_def)
qed

lemma trim_last: "trim s = s \<Longrightarrow> s \<noteq> [] \<Longrightarrow> \<not> is_space (last s)"
  by (metis dropWhile_eq_self_iff hd_rev rev_rev_ident trim_def trim_end_def dropWhile_idem hd_dropWhile rev_is_Nil_conv)

subsection \<open>The way there and back\<close>

text \<open>\<open>plain s\<close>: no HTML comment opens in \<open>s\<close> and no carriage return is in it.\<close>

definition plain :: "jstr \<Rightarrow> bool" where
  "plain s \<longleftrightarrow> unmarked s \<and> CR \<notin> set s"

lemma plain_join: "c \<notin> set ''<!--'' \<Longrightarrow> c \<noteq> CR \<Longrightarrow> plain (a @ c # b) \<longleftrightarrow> plain a \<and> plain b"
  by (auto simp: plain_def unmarked_join)

lemma plain_cons: "c \<notin> set ''<!--'' \<Longrightarrow> c \<noteq> CR \<Longrightarrow> plain (c # b) \<longleftrightarrow> plain b"
  using plain_join [of c "[]" b] by (simp add: plain_def [of "[]"] unmarked_def [of "[]"])

lemma plain_lines: "plain (join [LF] ls) \<longleftrightarrow> (\<forall>l \<in> set ls. plain l)"
  by (induction "[LF]" ls rule: join.induct) (simp_all add: plain_join plain_def [of "[]"] unmarked_def [of "[]"])

lemma plain_quote_lines: "\<forall>l \<in> set ls. plain l \<Longrightarrow> plain rest \<Longrightarrow> plain (quote_lines ls @ rest)"
  by (induction ls) (simp_all add: quote_lines_def plain_join plain_cons)

lemma plain_framed:
  assumes "plain authorName" "plain body" "\<forall>q. quote = Some q \<longrightarrow> plain q"
  shows "plain (framing authorName @ quoted quote @ body)"
proof -
  have "plain (quoted quote @ body)"
  proof (cases "quote = None \<or> quote = Some []")
    case True
    with assms(2) show ?thesis by (auto simp: quoted_def)
  next
    case False
    then obtain q where q: "quote = Some q" "q \<noteq> []" by auto
    with assms(3) have "plain (join [LF] (split_on LF q))" by (simp add: join_split_on)
    then have "\<forall>l \<in> set (take 3 (split_on LF q)). plain l" unfolding plain_lines by (meson in_set_takeD)
    from plain_quote_lines [OF this, of "LF # body"] assms(2) show ?thesis
      unfolding q(1) quoted_lines [OF q(2)] by (simp add: plain_cons)
  qed
  then show ?thesis using assms(1) by (simp add: framing_def plain_cons plain_join)
qed

abbreviation quotes :: "jstr option \<Rightarrow> bool" where
  "quotes quote \<equiv> quote \<noteq> None \<and> quote \<noteq> Some []"

text \<open>What the first two replacements leave of a sent text.\<close>

lemma sent_text:
  assumes "plain authorName" "plain body" "\<forall>q. quote = Some q \<longrightarrow> plain q" "commentId \<noteq> []" "\<forall>c \<in> set commentId. is_alnum c"
  shows "rx_replace MARKER [] (providerBody authorName body commentId quote) = framing authorName @ quoted quote @ body @ [LF, LF]"
    "markerOf (providerBody authorName body commentId quote) = Some commentId" "CR \<notin> set (providerBody authorName body commentId quote)"
    "markerOf (lf_to_crlf (providerBody authorName body commentId quote)) = Some commentId"
proof -
  have p: "plain (framing authorName @ quoted quote @ body)" using assms(1-3) by (rule plain_framed)
  then have "unmarked (framing authorName @ quoted quote @ body)" by (simp add: plain_def)
  note m = markerOf_withMarker [OF this assms(4,5)] markerOf_crlf [OF this assms(4,5)]
  then show "rx_replace MARKER [] (providerBody authorName body commentId quote) = framing authorName @ quoted quote @ body @ [LF, LF]"
    "markerOf (providerBody authorName body commentId quote) = Some commentId"
    "markerOf (lf_to_crlf (providerBody authorName body commentId quote)) = Some commentId"
    unfolding providerBody_def by simp_all
  have "\<not> is_alnum CR" by (simp add: char_class_defs)
  then have "CR \<notin> set commentId" using assms(5) by blast
  with p show "CR \<notin> set (providerBody authorName body commentId quote)"
    unfolding providerBody_def withMarker_def by (auto simp: plain_def)
qed

lemma quoted_stripped: "quotes quote \<Longrightarrow> rx_replace QUOTE [] (quoted quote @ rest) = rest"
  using quote_stripped by auto

lemma quoted_none: "\<not> quotes quote \<Longrightarrow> quoted quote = []"
  by (auto simp: quoted_def)

lemma sent_round_trip:
  assumes "plain authorName" "authorName \<noteq> []" "CHR ''*'' \<notin> set authorName" "plain body" "trim body = body"
    and "\<forall>q. quote = Some q \<longrightarrow> plain q" "commentId \<noteq> []" "\<forall>c \<in> set commentId. is_alnum c"
  shows "stripCritiqFraming (quotes quote) (providerBody authorName body commentId quote) = body \<and>
    stripCritiqFraming (quotes quote) (lf_to_crlf (providerBody authorName body commentId quote)) = body \<and>
    markerOf (providerBody authorName body commentId quote) = Some commentId \<and>
    markerOf (lf_to_crlf (providerBody authorName body commentId quote)) = Some commentId"
proof -
  note sent = sent_text [OF assms(1,4,6,7,8)]
  have "trim (body @ [LF, LF]) = body" using trim_append_spaces [of "[LF, LF]" body] assms(5) by (simp add: is_space_def)
  then have "trim (if quotes quote then rx_replace QUOTE [] (quoted quote @ body @ [LF, LF]) else quoted quote @ body @ [LF, LF]) = body"
    using quoted_none [of quote] by (simp add: quoted_stripped)
  with sent show ?thesis
    by (simp add: stripCritiqFraming_def Let_def crlf_to_lf_id crlf_round_trip framing_stripped [OF assms(2,3)])
qed

text \<open>C38: a sent comment is read back as it was written, when the marks it is framed with do not occur in its parts.  Let the author's name be
  not empty and without an asterisk, let the name, the text and the quoted thread have no \<open><!--\<close> and no carriage return,
  and let the text be trimmed and the id of the comment be letters and digits.  Then the text that was sent with its author named, its
  thread quoted and its marker appended is read back as it was written, whether the host returns it with
  its own or with CRLF line endings, and its marker names it.  Without the first condition it is not (lemma \<open>starred_author_keeps_framing\<close>).\<close>

theorem stripCritiqFraming_inverts:
  assumes "plain authorName" "authorName \<noteq> []" "CHR ''*'' \<notin> set authorName" "plain body" "trim body = body"
    and "\<forall>q. quote = Some q \<longrightarrow> plain q" "commentId \<noteq> []" "\<forall>c \<in> set commentId. is_alnum c"
  shows "stripCritiqFraming (quotes quote) (providerBody authorName body commentId quote) = body \<and>
    stripCritiqFraming (quotes quote) (lf_to_crlf (providerBody authorName body commentId quote)) = body \<and>
    markerOf (providerBody authorName body commentId quote) = Some commentId \<and>
    markerOf (lf_to_crlf (providerBody authorName body commentId quote)) = Some commentId"
  by (rule sent_round_trip [OF assms])

lemma no_quote:
  assumes "hd s \<noteq> CHR ''>''"
  shows "rx_replace QUOTE [] s = s"
proof -
  have line: "rx_run QUOTE_LINE s (0, []) = []" using assms by (cases s) (simp_all add: QUOTE_LINE_def del: rx_run.simps(5))
  have "rx_run (rplus QUOTE_LINE) s (0, []) = []" by (simp add: line)
  then have "rx_run (RSeq (rplus QUOTE_LINE) (rchar LF)) s (0, []) = []" by (simp only: rx_run.simps(3) list.map concat.simps)
  then have "rx_exec QUOTE s 0 = None" unfolding QUOTE_def by (rule rx_exec_bol_none)
  then show ?thesis by (simp add: rx_replace_def)
qed

text \<open>An asterisk in the name of its author breaks it.  Of a comment whose author's name has an asterisk the
  framing, the quote included, stays in the text that is read back.\<close>

theorem starred_author_keeps_framing:
  assumes "plain authorName" "CHR ''*'' \<in> set authorName" "LF \<notin> set authorName" "plain body" "trim body = body" "body \<noteq> []"
    and "\<forall>q. quote = Some q \<longrightarrow> plain q" "commentId \<noteq> []" "\<forall>c \<in> set commentId. is_alnum c"
  shows "stripCritiqFraming (quotes quote) (providerBody authorName body commentId quote) = framing authorName @ quoted quote @ body"
proof -
  let ?t = "framing authorName @ quoted quote @ body"
  note sent = sent_text [OF assms(1,4,7,8,9)]
  have "hd (?t @ [LF, LF]) \<noteq> CHR ''>''" "\<not> is_space (hd ?t)" "?t \<noteq> []" by (simp_all add: framing_def is_space_def)
  moreover have "\<not> is_space (last ?t)" using trim_last [OF assms(5,6)] assms(6) by simp
  moreover have "trim (?t @ [LF, LF]) = trim ?t" by (rule trim_append_spaces) (simp add: is_space_def)
  ultimately show ?thesis
    using sent framing_kept [OF assms(2,3), of "quoted quote @ body @ [LF, LF]"] no_quote [of "?t @ [LF, LF]"] trim_id [of ?t]
    by (simp add: stripCritiqFraming_def Let_def crlf_to_lf_id)
qed

lemma stripCritiqFraming_inverts_witness:
  "stripCritiqFraming True (providerBody ''Ann'' ''Fixed in v2'' ''cm1x'' (Some ''Why?'')) = ''Fixed in v2''"
proof -
  have "stripCritiqFraming (quotes (Some ''Why?'')) (providerBody ''Ann'' ''Fixed in v2'' ''cm1x'' (Some ''Why?'')) = ''Fixed in v2'' \<and>
      stripCritiqFraming (quotes (Some ''Why?'')) (lf_to_crlf (providerBody ''Ann'' ''Fixed in v2'' ''cm1x'' (Some ''Why?''))) = ''Fixed in v2'' \<and>
      markerOf (providerBody ''Ann'' ''Fixed in v2'' ''cm1x'' (Some ''Why?'')) = Some ''cm1x'' \<and>
      markerOf (lf_to_crlf (providerBody ''Ann'' ''Fixed in v2'' ''cm1x'' (Some ''Why?''))) = Some ''cm1x''"
    by (rule stripCritiqFraming_inverts)
      (simp_all add: plain_def unmarked_def sublist_Cons_right trim_def trim_start_def trim_end_def char_class_defs)
  then show ?thesis by simp
qed

lemma starred_author_keeps_framing_witness:
  "stripCritiqFraming False (providerBody ''A*n'' ''ok'' ''cm1x'' None) = framing ''A*n'' @ ''ok''"
proof -
  have "stripCritiqFraming (quotes None) (providerBody ''A*n'' ''ok'' ''cm1x'' None) = framing ''A*n'' @ quoted None @ ''ok''"
    by (rule starred_author_keeps_framing)
      (simp_all add: plain_def unmarked_def sublist_Cons_right trim_def trim_start_def trim_end_def char_class_defs)
  then show ?thesis by (simp add: quoted_def)
qed

end
