(* ===== verification/Comments.thy ===== *)
theory Comments
  imports Reviews Comment_Marker
begin

section \<open>Comments, synced both ways\<close>

text \<open>
  Comments on a pull request: those written in Critiq
  (\<open>src/modules/comments/comments.service.ts\<close>) and copied to GitHub or GitLab
  (\<open>src/queue/comment-sync.processor.ts\<close>), those written there and brought in by webhook
  (\<open>comment-ingest.service.ts\<close>), and the threads a reader sees (\<open>dto/comment.dto.ts\<close>).
  The tables are an explicit state, \<open>cd_jobs\<close> the comments with a job in the sync queue.  What the
  code host answers, the clock and the ids of new rows are parameters.  Owner, repository and token of
  the calls, log entries and realtime events are left out.
\<close>

subsection \<open>The tables\<close>

datatype comment_origin = OriginCritiq | OriginGithub | OriginGitlab
datatype comment_kind = GENERAL | INLINE
datatype diff_side = SideNew | SideOld

record pull_comment =
  pc_id :: jstr
  pc_organizationId :: jstr
  pc_pullId :: jstr
  pc_origin :: comment_origin
  pc_kind :: comment_kind
  pc_parentId :: "jstr option"
  pc_authorId :: "jstr option"
  pc_providerAuthor :: "jstr option"
  pc_providerAuthorAvatarUrl :: "jstr option"
  pc_body :: jstr
  pc_path :: "jstr option"
  pc_line :: "int option"
  pc_side :: "diff_side option"
  pc_headSha :: "jstr option"
  pc_providerCommentId :: "jstr option"
  pc_providerThreadId :: "jstr option"
  pc_syncStatus :: "sync_status option"
  pc_syncError :: "jstr option"
  pc_editedAt :: "int option"
  pc_deletedAt :: "int option"
  pc_createdAt :: int

record user_row =
  us_id :: jstr
  us_name :: "jstr option"
  us_email :: jstr
  us_avatarUrl :: "jstr option"

record provider_repo =
  rp_id :: jstr
  rp_organizationId :: jstr
  rp_provider :: provider_source
  rp_externalId :: jstr

record comment_db =
  cd_pulls :: "pull_request list"
  cd_repos :: "provider_repo list"
  cd_users :: "user_row list"
  cd_comments :: "pull_comment list"
  cd_jobs :: "jstr list"

text \<open>Where a comment is: its kind and its position in the diff.\<close>

type_synonym placement = "comment_kind \<times> jstr option \<times> int option \<times> diff_side option \<times> jstr option"

definition place :: "pull_comment \<Rightarrow> placement" where
  "place c = (pc_kind c, pc_path c, pc_line c, pc_side c, pc_headSha c)"

definition find_comment :: "comment_db \<Rightarrow> jstr \<Rightarrow> pull_comment option" where
  "find_comment db i = List.find (\<lambda>c. pc_id c = i) (cd_comments db)"

text \<open>\<open>updateMany\<close> on the comments.\<close>

definition update_comments :: "(pull_comment \<Rightarrow> bool) \<Rightarrow> (pull_comment \<Rightarrow> pull_comment) \<Rightarrow> comment_db \<Rightarrow> nat \<times> comment_db" where
  "update_comments p g db =
    (length (filter p (cd_comments db)), db\<lparr>cd_comments := map (\<lambda>c. if p c then g c else c) (cd_comments db)\<rparr>)"

definition add_comment :: "pull_comment \<Rightarrow> comment_db \<Rightarrow> comment_db" where
  "add_comment c db = db\<lparr>cd_comments := cd_comments db @ [c]\<rparr>"

definition comment_pull :: "comment_db \<Rightarrow> jstr \<Rightarrow> jstr \<Rightarrow> jstr \<Rightarrow> api_error + pull_request" where
  "comment_pull db organizationId repositoryId pullId =
    (case List.find (\<lambda>p. pq_id p = pullId) (cd_pulls db) of
      None \<Rightarrow> Inl (404, [], ''Pull request not found.'')
    | Some p \<Rightarrow>
        if pq_organizationId p \<noteq> organizationId \<or> pq_repositoryId p \<noteq> repositoryId
        then Inl (404, [], ''Pull request not found.'') else Inr p)"

text \<open>\<open>parentId ?? id\<close>, and the root itself: the comment, or a row that must exist.\<close>

definition root_of :: "comment_db \<Rightarrow> pull_comment \<Rightarrow> pull_comment option" where
  "root_of db c =
    (let rootId = (case pc_parentId c of Some r \<Rightarrow> r | None \<Rightarrow> pc_id c)
     in if rootId = pc_id c then Some c else find_comment db rootId)"

subsection \<open>Writing a comment in Critiq\<close>

record inline_position =
  ip_path :: jstr
  ip_line :: int
  ip_side :: diff_side
  ip_headSha :: jstr

record create_dto =
  cc_body :: jstr
  cc_parentId :: "jstr option"
  cc_inline :: "inline_position option"

definition create_place :: "comment_db \<Rightarrow> pull_request \<Rightarrow> jstr \<Rightarrow> create_dto \<Rightarrow> api_error + jstr option \<times> placement" where
  "create_place db pull pullId dto =
    (if cc_parentId dto \<noteq> None \<and> cc_parentId dto \<noteq> Some []
     then (case (if cc_inline dto \<noteq> None then None else find_comment db (the (cc_parentId dto))) of
        None \<Rightarrow> Inl (422, ''parentId'', ''invalid_parent'')
      | Some parent \<Rightarrow>
          if pc_pullId parent \<noteq> pullId then Inl (422, ''parentId'', ''invalid_parent'')
          else (case root_of db parent of
              None \<Rightarrow> Inl (500, [], ''P2025'')
            | Some rootRow \<Rightarrow> Inr (Some (pc_id rootRow), place rootRow)))
     else (case cc_inline dto of
        Some ip \<Rightarrow>
          if head_differs pull (ip_headSha ip) then Inl (409, ''inline.headSha'', ''head_changed'')
          else Inr (None, INLINE, Some (ip_path ip), Some (ip_line ip), Some (ip_side ip), pq_headSha pull)
      | None \<Rightarrow> Inr (None, GENERAL, None, None, None, None)))"

text \<open>Everything \<open>create\<close> does before it writes: an error, or the row.\<close>

definition create_check :: "jstr \<Rightarrow> int \<Rightarrow> jstr \<Rightarrow> jstr \<Rightarrow> jstr \<Rightarrow> jstr \<Rightarrow> create_dto \<Rightarrow> comment_db \<Rightarrow> api_error + pull_comment" where
  "create_check newId now organizationId repositoryId pullId actor dto db =
    (case comment_pull db organizationId repositoryId pullId of
      Inl e \<Rightarrow> Inl e
    | Inr pull \<Rightarrow>
        if trim (cc_body dto) = [] then Inl (422, ''body'', ''body_required'')
        else (case create_place db pull pullId dto of
            Inl e \<Rightarrow> Inl e
          | Inr (parentId, kind, path, line, side, headSha) \<Rightarrow>
              Inr \<lparr>pc_id = newId, pc_organizationId = organizationId, pc_pullId = pullId, pc_origin = OriginCritiq,
                pc_kind = kind, pc_parentId = parentId, pc_authorId = Some actor, pc_providerAuthor = None,
                pc_providerAuthorAvatarUrl = None, pc_body = trim (cc_body dto), pc_path = path, pc_line = line,
                pc_side = side, pc_headSha = headSha, pc_providerCommentId = None, pc_providerThreadId = None,
                pc_syncStatus = Some SyncPending, pc_syncError = None, pc_editedAt = None, pc_deletedAt = None,
                pc_createdAt = now\<rparr>))"

definition set_copy :: "sync_status \<Rightarrow> jstr option \<Rightarrow> pull_comment \<Rightarrow> pull_comment" where
  "set_copy st err c = c\<lparr>pc_syncStatus := Some st, pc_syncError := err\<rparr>"

definition enqueue_comment :: "bool \<Rightarrow> pull_comment \<Rightarrow> comment_db \<Rightarrow> pull_comment \<times> comment_db" where
  "enqueue_comment queueUp c db =
    (if queueUp then (c, db\<lparr>cd_jobs := cd_jobs db @ [pc_id c]\<rparr>)
     else (set_copy SyncFailed (Some ''unknown'') c,
       snd (update_comments (\<lambda>x. pc_id x = pc_id c) (set_copy SyncFailed (Some ''unknown'')) db)))"

text \<open>The claim of a retry, against the comments as they are then.\<close>

definition retry_comment_claim :: "jstr \<Rightarrow> comment_db \<Rightarrow> nat \<times> comment_db" where
  "retry_comment_claim commentId =
    update_comments (\<lambda>c. pc_id c = commentId \<and> pc_syncStatus c = Some SyncFailed) (set_copy SyncPending None)"

definition retry_comment_check :: "jstr \<Rightarrow> jstr \<Rightarrow> jstr \<Rightarrow> jstr \<Rightarrow> comment_db \<Rightarrow> api_error + pull_comment" where
  "retry_comment_check organizationId repositoryId pullId commentId db =
    (case comment_pull db organizationId repositoryId pullId of
      Inl e \<Rightarrow> Inl e
    | Inr _ \<Rightarrow>
       (case find_comment db commentId of
          None \<Rightarrow> Inl (404, [], ''Comment not found.'')
        | Some c \<Rightarrow>
            if pc_organizationId c \<noteq> organizationId \<or> pc_pullId c \<noteq> pullId \<or> pc_origin c \<noteq> OriginCritiq
            then Inl (404, [], ''Comment not found.'')
            else if pc_syncStatus c = Some SyncSynced then Inl (409, ''commentId'', ''already_synced'')
            else Inr c))"
subsection \<open>What a reader sees\<close>

type_synonym comment_row = "pull_comment \<times> user_row option"

text \<open>\<open>COMMENT_INCLUDE\<close>: the row with its Critiq author.\<close>

definition with_author :: "comment_db \<Rightarrow> pull_comment \<Rightarrow> comment_row" where
  "with_author db c =
    (c, case pc_authorId c of None \<Rightarrow> None | Some a \<Rightarrow> List.find (\<lambda>u. us_id u = a) (cd_users db))"

record author_dto =
  ad_name :: jstr
  ad_avatarUrl :: "jstr option"
  ad_critiqUserId :: "jstr option"
  ad_providerUsername :: "jstr option"

record comment_dto =
  cm_id :: jstr
  cm_origin :: comment_origin
  cm_author :: author_dto
  cm_body :: jstr
  cm_createdAt :: int
  cm_editedAt :: "int option"
  cm_deleted :: bool
  cm_sync :: "(sync_status \<times> jstr option) option"

definition toCommentDto :: "comment_row \<Rightarrow> comment_dto" where
  "toCommentDto row =
    (let (c, author) = row; deleted = pc_deletedAt c \<noteq> None
     in \<lparr>cm_id = pc_id c, cm_origin = pc_origin c,
       cm_author = (case author of
          Some u \<Rightarrow> \<lparr>ad_name = (case us_name u of Some n \<Rightarrow> n | None \<Rightarrow> us_email u), ad_avatarUrl = us_avatarUrl u,
            ad_critiqUserId = Some (us_id u), ad_providerUsername = None\<rparr>
        | None \<Rightarrow> \<lparr>ad_name = (case pc_providerAuthor c of Some n \<Rightarrow> n | None \<Rightarrow> ''Unknown''),
            ad_avatarUrl = pc_providerAuthorAvatarUrl c, ad_critiqUserId = None, ad_providerUsername = pc_providerAuthor c\<rparr>),
       cm_body = (if deleted then [] else pc_body c), cm_createdAt = pc_createdAt c, cm_editedAt = pc_editedAt c,
       cm_deleted = deleted, cm_sync = map_option (\<lambda>st. (st, pc_syncError c)) (pc_syncStatus c)\<rparr>)"

record comment_thread =
  th_id :: jstr
  th_kind :: comment_kind
  th_path :: "jstr option"
  th_line :: "int option"
  th_side :: "diff_side option"
  th_headSha :: "jstr option"
  th_outdated :: bool
  th_comments :: "comment_dto list"

definition thread_of :: "jstr option \<Rightarrow> comment_row \<Rightarrow> comment_thread" where
  "thread_of pullHeadSha row =
    (let c = fst row
     in \<lparr>th_id = pc_id c, th_kind = pc_kind c, th_path = pc_path c, th_line = pc_line c, th_side = pc_side c,
       th_headSha = pc_headSha c,
       th_outdated = (pc_kind c = INLINE \<and> pullHeadSha \<noteq> None \<and> pc_headSha c \<noteq> pullHeadSha),
       th_comments = [toCommentDto row]\<rparr>)"

definition push_comment :: "comment_dto \<Rightarrow> comment_thread \<Rightarrow> comment_thread" where
  "push_comment d t = t\<lparr>th_comments := th_comments t @ [d]\<rparr>"

text \<open>The threads so far, in order, and the map from a root's id to its place among them.\<close>

type_synonym threads = "(jstr \<times> nat) list \<times> comment_thread list"

definition add_thread :: "jstr option \<Rightarrow> comment_row \<Rightarrow> threads \<Rightarrow> threads" where
  "add_thread pullHeadSha row ts =
    (al_set (pc_id (fst row)) (length (snd ts)) (fst ts), snd ts @ [thread_of pullHeadSha row])"

definition add_reply :: "jstr option \<Rightarrow> comment_row \<Rightarrow> threads \<Rightarrow> threads" where
  "add_reply pullHeadSha row ts =
    (case al_get (fst ts) (the (pc_parentId (fst row))) of
      Some k \<Rightarrow> (fst ts, (snd ts)[k := push_comment (toCommentDto row) (snd ts ! k)])
    | None \<Rightarrow> add_thread pullHeadSha row ts)"

definition by_creation :: "comment_row list \<Rightarrow> comment_row list" where
  "by_creation = js_sort (\<lambda>a b. pc_createdAt (fst a) - pc_createdAt (fst b))"

definition toThreads :: "comment_row list \<Rightarrow> jstr option \<Rightarrow> comment_thread list" where
  "toThreads rows pullHeadSha =
    (let sorted = by_creation rows;
         ts = fold (add_thread pullHeadSha) (filter (\<lambda>row. pc_parentId (fst row) = None) sorted) ([], [])
     in snd (fold (add_reply pullHeadSha) (filter (\<lambda>row. pc_parentId (fst row) \<noteq> None) sorted) ts))"

definition list_comments :: "jstr \<Rightarrow> jstr \<Rightarrow> jstr \<Rightarrow> comment_db \<Rightarrow> api_error + comment_thread list" where
  "list_comments organizationId repositoryId pullId db =
    (case comment_pull db organizationId repositoryId pullId of
      Inl e \<Rightarrow> Inl e
    | Inr pull \<Rightarrow> Inr (toThreads
        (map (with_author db) (filter (\<lambda>c. pc_organizationId c = organizationId \<and> pc_pullId c = pullId) (cd_comments db)))
        (pq_headSha pull)))"

definition create_comment :: "bool \<Rightarrow> jstr \<Rightarrow> int \<Rightarrow> jstr \<Rightarrow> jstr \<Rightarrow> jstr \<Rightarrow> jstr \<Rightarrow> create_dto \<Rightarrow> comment_db \<Rightarrow>
    (api_error + comment_dto) \<times> comment_db" where
  "create_comment queueUp newId now organizationId repositoryId pullId actor dto db =
    (case create_check newId now organizationId repositoryId pullId actor dto db of
      Inl e \<Rightarrow> (Inl e, db)
    | Inr c \<Rightarrow> apfst (\<lambda>c. Inr (toCommentDto (with_author db c))) (enqueue_comment queueUp c (add_comment c db)))"

definition retry_comment :: "bool \<Rightarrow> jstr \<Rightarrow> jstr \<Rightarrow> jstr \<Rightarrow> jstr \<Rightarrow> comment_db \<Rightarrow> (api_error + comment_dto) \<times> comment_db" where
  "retry_comment queueUp organizationId repositoryId pullId commentId db =
    (case retry_comment_check organizationId repositoryId pullId commentId db of
      Inl e \<Rightarrow> (Inl e, db)
    | Inr c \<Rightarrow>
       (let (count, db1) = retry_comment_claim commentId db
        in if count = 0 then (Inl (409, ''commentId'', ''sync_in_progress''), db1)
           else apfst (\<lambda>c. Inr (toCommentDto (with_author db c))) (enqueue_comment queueUp (set_copy SyncPending None c) db1)))"

subsection \<open>Copying a comment to the code host\<close>

datatype comment_error_code = CmtInsufficientPermission | CmtInvalidPosition | CmtParentNotSynced | CmtUnreachable | CmtUnknown

fun comment_error_name :: "comment_error_code \<Rightarrow> jstr" where
  "comment_error_name CmtInsufficientPermission = ''insufficient_permission''"
| "comment_error_name CmtInvalidPosition = ''invalid_position''"
| "comment_error_name CmtParentNotSynced = ''parent_not_synced''"
| "comment_error_name CmtUnreachable = ''provider_unreachable''"
| "comment_error_name CmtUnknown = ''unknown''"

text \<open>A failure with whether it is retryable; any other error is \<open>unknown\<close> and retryable.\<close>

type_synonym comment_failure = "comment_error_code \<times> bool"

text \<open>The calls of the code host's client that the processor makes, each with its own answer: the id of
  a GitHub comment, of a GitLab discussion and note; the revisions of a merge request are opaque.\<close>

record note_position =
  np_refs :: "jstr list"
  np_path :: jstr
  np_old_line :: "int option"
  np_new_line :: "int option"

record comment_host =
  ch_createIssueComment :: "jstr \<Rightarrow> jstr \<Rightarrow> comment_failure + nat"
  ch_replyToReviewComment :: "jstr \<Rightarrow> int \<Rightarrow> jstr \<Rightarrow> comment_failure + nat"
  ch_createReviewComment :: "jstr \<Rightarrow> jstr \<Rightarrow> jstr \<Rightarrow> jstr \<Rightarrow> int \<Rightarrow> diff_side \<Rightarrow> comment_failure + nat"
  ch_addDiscussionNote :: "jstr \<Rightarrow> jstr \<Rightarrow> jstr \<Rightarrow> comment_failure + nat"
  ch_fetchDiffRefs :: "jstr \<Rightarrow> comment_failure + jstr list"
  ch_createDiscussion :: "jstr \<Rightarrow> jstr \<Rightarrow> note_position option \<Rightarrow> comment_failure + jstr \<times> nat"

definition or_empty :: "jstr option \<Rightarrow> jstr" where
  "or_empty s = (case s of Some t \<Rightarrow> t | None \<Rightarrow> [])"

definition or_zero :: "int option \<Rightarrow> int" where
  "or_zero n = (case n of Some k \<Rightarrow> k | None \<Rightarrow> 0)"

text \<open>\<open>Number\<close> of a decimal integer, blanks around it and a sign allowed, an empty one being 0;
  other numerals do not occur in the ids the code writes and are no integer here.\<close>

definition js_integer :: "jstr \<Rightarrow> int option" where
  "js_integer s =
    (let t = trim s;
         (sign, ds) = (case t of c # cs \<Rightarrow> if c = CHR ''-'' then (-1, cs) else if c = CHR ''+'' then (1, cs) else (1, t) | [] \<Rightarrow> (1, t))
     in if t = [] then Some 0
        else if ds \<noteq> [] \<and> (\<forall>d \<in> set ds. is_digit d) then Some (sign * int (digits_val ds)) else None)"

definition numericId :: "jstr option \<Rightarrow> jstr \<Rightarrow> comment_failure + int" where
  "numericId prefixed pre =
    (case prefixed of
      None \<Rightarrow> Inl (CmtParentNotSynced, True)
    | Some s \<Rightarrow>
        if starts_with s pre
        then (case js_integer (drop (length pre) s) of Some n \<Rightarrow> Inr n | None \<Rightarrow> Inl (CmtParentNotSynced, True))
        else Inl (CmtParentNotSynced, True))"

text \<open>\<open>sendToGithub\<close> and \<open>sendToGitlab\<close>: a failure, or the ids of the comment and of its thread.\<close>

definition sendToGithub :: "comment_host \<Rightarrow> jstr \<Rightarrow> pull_comment \<Rightarrow> pull_comment option \<Rightarrow> jstr \<Rightarrow>
    comment_failure + jstr \<times> jstr option" where
  "sendToGithub host num c parent txt =
    (if pc_kind c = GENERAL
     then (case ch_createIssueComment host num txt of
        Inl e \<Rightarrow> Inl e | Inr i \<Rightarrow> Inr (''github-issue:'' @ show_nat i, None))
     else (case parent of
        Some p \<Rightarrow>
         (case numericId (pc_providerThreadId p) ''github-review:'' of
            Inl e \<Rightarrow> Inl e
          | Inr rootId \<Rightarrow> (case ch_replyToReviewComment host num rootId txt of
              Inl e \<Rightarrow> Inl e | Inr i \<Rightarrow> Inr (''github-review:'' @ show_nat i, pc_providerThreadId p)))
      | None \<Rightarrow>
         (case ch_createReviewComment host num txt (or_empty (pc_headSha c)) (or_empty (pc_path c)) (or_zero (pc_line c))
             (if pc_side c = Some SideOld then SideOld else SideNew) of
            Inl e \<Rightarrow> Inl e
          | Inr i \<Rightarrow> Inr (''github-review:'' @ show_nat i, Some (''github-review:'' @ show_nat i)))))"

definition note_at :: "pull_comment \<Rightarrow> jstr list \<Rightarrow> note_position" where
  "note_at c refs = \<lparr>np_refs = refs, np_path = or_empty (pc_path c),
    np_old_line = (if pc_side c = Some SideOld then Some (or_zero (pc_line c)) else None),
    np_new_line = (if pc_side c = Some SideOld then None else Some (or_zero (pc_line c)))\<rparr>"

definition sendToGitlab :: "comment_host \<Rightarrow> jstr \<Rightarrow> pull_comment \<Rightarrow> pull_comment option \<Rightarrow> jstr \<Rightarrow>
    comment_failure + jstr \<times> jstr option" where
  "sendToGitlab host iid c parent txt =
    (case parent of
      Some p \<Rightarrow>
       (case pc_providerThreadId p of
          None \<Rightarrow> Inl (CmtParentNotSynced, True)
        | Some threadId \<Rightarrow>
            if \<not> starts_with threadId ''gitlab-discussion:'' then Inl (CmtParentNotSynced, True)
            else (case ch_addDiscussionNote host iid (drop (length ''gitlab-discussion:'') threadId) txt of
                Inl e \<Rightarrow> Inl e | Inr n \<Rightarrow> Inr (''gitlab-note:'' @ show_nat n, Some threadId)))
    | None \<Rightarrow>
       (case (if pc_kind c = INLINE then map_sum id (\<lambda>refs. Some (note_at c refs)) (ch_fetchDiffRefs host iid) else Inr None) of
          Inl e \<Rightarrow> Inl e
        | Inr position \<Rightarrow> (case ch_createDiscussion host iid txt position of
            Inl e \<Rightarrow> Inl e
          | Inr (d, n) \<Rightarrow> Inr (''gitlab-note:'' @ show_nat n, Some (''gitlab-discussion:'' @ d)))))"

definition comment_author :: "comment_db \<Rightarrow> pull_comment \<Rightarrow> jstr" where
  "comment_author db c =
    (case snd (with_author db c) of
      None \<Rightarrow> ''A Critiq user''
    | Some u \<Rightarrow> (case us_name u of Some n \<Rightarrow> n | None \<Rightarrow> us_email u))"

definition comment_parent :: "comment_db \<Rightarrow> pull_comment \<Rightarrow> pull_comment option" where
  "comment_parent db c = (case pc_parentId c of None \<Rightarrow> None | Some p \<Rightarrow> find_comment db p)"

text \<open>GitHub's conversation has no threads: a reply quotes its root.\<close>

definition sent_quote :: "pull_request \<Rightarrow> pull_comment \<Rightarrow> pull_comment option \<Rightarrow> jstr option" where
  "sent_quote pull c parent =
    (if pq_source pull = GITHUB \<and> pc_kind c = GENERAL then map_option pc_body parent else None)"

definition send_comment :: "comment_host \<Rightarrow> comment_db \<Rightarrow> pull_request \<Rightarrow> pull_comment \<Rightarrow> comment_failure + jstr \<times> jstr option" where
  "send_comment host db pull c =
    (if pq_integrationState pull \<in> set UNUSABLE_STATES then Inl (CmtInsufficientPermission, False)
     else (let parent = comment_parent db c;
               txt = providerBody (comment_author db c) (pc_body c) (pc_id c) (sent_quote pull c parent)
       in (case pq_source pull of
          GITHUB \<Rightarrow> sendToGithub host (pq_externalId pull) c parent txt
        | GITLAB \<Rightarrow> sendToGitlab host (pq_externalId pull) c parent txt)))"

definition load_comment :: "jstr \<Rightarrow> comment_db \<Rightarrow> (pull_request \<times> pull_comment) option" where
  "load_comment commentId db =
    (case find_comment db commentId of
      None \<Rightarrow> None
    | Some c \<Rightarrow> if pc_syncStatus c \<noteq> Some SyncPending then None
        else map_option (\<lambda>p. (p, c)) (List.find (\<lambda>p. pq_id p = pc_pullId c) (cd_pulls db)))"

definition synced_copy :: "jstr \<times> jstr option \<Rightarrow> pull_comment \<Rightarrow> pull_comment" where
  "synced_copy ids c = (set_copy SyncSynced None c)\<lparr>pc_providerCommentId := Some (fst ids), pc_providerThreadId := snd ids\<rparr>"

text \<open>The unique index on \<open>(pullId, providerCommentId)\<close>: a write of \<open>key\<close> to the rows \<open>p\<close> violates it when
  another row of the pull request has it.\<close>

definition id_taken :: "(pull_comment \<Rightarrow> bool) \<Rightarrow> jstr \<Rightarrow> comment_db \<Rightarrow> bool" where
  "id_taken p key db \<longleftrightarrow> (\<exists>c \<in> set (cd_comments db). p c \<and>
     (\<exists>c' \<in> set (cd_comments db). \<not> p c' \<and> pc_pullId c' = pc_pullId c \<and> pc_providerCommentId c' = Some key))"

text \<open>The write after the call, against the comments as they are then: whether it throws, and the state.\<close>

definition settle_comment :: "jstr \<Rightarrow> comment_failure + jstr \<times> jstr option \<Rightarrow> comment_db \<Rightarrow> bool \<times> comment_db" where
  "settle_comment commentId outcome db =
    (let p = (\<lambda>c. pc_id c = commentId \<and> pc_syncStatus c = Some SyncPending)
     in (case outcome of
        Inl (code, _) \<Rightarrow> (False, snd (update_comments p (set_copy SyncFailed (Some (comment_error_name code))) db))
      | Inr ids \<Rightarrow> if id_taken p (fst ids) db then (True, db) else (False, snd (update_comments p (synced_copy ids) db))))"

text \<open>One attempt of the job: whether it throws, so that BullMQ tries again, and the state.\<close>

definition process_comment :: "bool \<Rightarrow> comment_host \<Rightarrow> jstr \<Rightarrow> comment_db \<Rightarrow> bool \<times> comment_db" where
  "process_comment lastAttempt host commentId db =
    (case load_comment commentId db of
      None \<Rightarrow> (False, db)
    | Some (pull, c) \<Rightarrow>
       (let outcome = send_comment host db pull c
        in (case outcome of
            Inl (code, retryable) \<Rightarrow>
              if retryable \<and> \<not> lastAttempt then (True, db) else settle_comment commentId outcome db
          | Inr _ \<Rightarrow> settle_comment commentId outcome db)))"

fun comment_job :: "nat \<Rightarrow> (nat \<Rightarrow> comment_host) \<Rightarrow> jstr \<Rightarrow> comment_db \<Rightarrow> comment_db" where
  "comment_job 0 host commentId db = db"
| "comment_job (Suc n) host commentId db =
    (let (again, db') = process_comment (n = 0) (host n) commentId db
     in if again then comment_job n host commentId db' else db')"

definition COMMENT_SYNC_JOB_ATTEMPTS :: nat where "COMMENT_SYNC_JOB_ATTEMPTS = 4"

interpretation comment_sync: attempt_job "\<lambda>final n. process_comment final (host n) commentId"
    "\<lambda>n. comment_job n host commentId" for host commentId
  by unfold_locales (auto simp: process_comment_def settle_comment_def Let_def split: option.splits sum.splits prod.splits if_splits)

subsection \<open>Comments written on the code host\<close>

datatype comment_action = CmtCreated | CmtEdited | CmtDeleted

record inbound_comment =
  ib_provider :: provider_source
  ib_repositoryExternalId :: jstr
  ib_pullExternalId :: jstr
  ib_action :: comment_action
  ib_providerCommentId :: jstr
  ib_providerThreadKey :: "jstr option"
  ib_kind :: comment_kind
  ib_path :: "jstr option"
  ib_line :: "int option"
  ib_side :: "diff_side option"
  ib_headSha :: "jstr option"
  ib_body :: jstr
  ib_author :: jstr
  ib_avatarUrl :: "jstr option"
  ib_createdAt :: int

datatype ingest_outcome = IngestCreated | IngestUpdated | IngestDeleted | IngestLinked | IngestIgnored

text \<open>Where a new comment goes: its parent, its placement and its thread on the host; \<open>None\<close> when a rootRow
  that must exist does not.\<close>

definition anchor_of :: "jstr \<Rightarrow> jstr \<Rightarrow> comment_db \<Rightarrow> pull_comment option" where
  "anchor_of pullId key db =
    List.find (\<lambda>c. pc_pullId c = pullId \<and> (pc_providerCommentId c = Some key \<or> pc_providerThreadId c = Some key))
      (js_sort (\<lambda>a b. pc_createdAt a - pc_createdAt b) (cd_comments db))"

definition resolveThread :: "jstr \<Rightarrow> inbound_comment \<Rightarrow> comment_db \<Rightarrow> (jstr option \<times> placement \<times> jstr option) option" where
  "resolveThread pullId ev db =
    (let own = (None, (ib_kind ev, ib_path ev, ib_line ev, ib_side ev, ib_headSha ev),
           case ib_providerThreadKey ev of Some k \<Rightarrow> Some k
           | None \<Rightarrow> if ib_kind ev = INLINE then Some (ib_providerCommentId ev) else None)
     in (case ib_providerThreadKey ev of
        None \<Rightarrow> Some own
      | Some key \<Rightarrow>
          if key = [] then Some own
          else (case anchor_of pullId key db of
              None \<Rightarrow> Some own
            | Some anchor \<Rightarrow>
               (case root_of db anchor of
                  None \<Rightarrow> None
                | Some rootRow \<Rightarrow> Some (Some (pc_id rootRow), place rootRow,
                    case pc_providerThreadId rootRow of Some t \<Rightarrow> Some t | None \<Rightarrow> Some key)))))"

definition ingest_pull :: "inbound_comment \<Rightarrow> comment_db \<Rightarrow> (provider_repo \<times> pull_request) option" where
  "ingest_pull ev db =
    (case List.find (\<lambda>r. rp_provider r = ib_provider ev \<and> rp_externalId r = ib_repositoryExternalId ev) (cd_repos db) of
      None \<Rightarrow> None
    | Some repo \<Rightarrow> map_option (\<lambda>p. (repo, p))
        (List.find (\<lambda>p. pq_repositoryId p = rp_id repo \<and> pq_externalId p = ib_pullExternalId ev) (cd_pulls db)))"

definition known_comment :: "jstr \<Rightarrow> jstr \<Rightarrow> comment_db \<Rightarrow> pull_comment option" where
  "known_comment pullId key db =
    List.find (\<lambda>c. pc_pullId c = pullId \<and> pc_providerCommentId c = Some key) (cd_comments db)"

definition edited_body :: "inbound_comment \<Rightarrow> pull_comment \<Rightarrow> jstr" where
  "edited_body ev existing =
    (if pc_origin existing = OriginCritiq
     then stripCritiqFraming (ib_provider ev = GITHUB \<and> pc_kind existing = GENERAL \<and> pc_parentId existing \<noteq> None) (ib_body ev)
     else ib_body ev)"

definition set_comment :: "jstr \<Rightarrow> (pull_comment \<Rightarrow> pull_comment) \<Rightarrow> comment_db \<Rightarrow> comment_db" where
  "set_comment i g db = snd (update_comments (\<lambda>c. pc_id c = i) g db)"

definition ingest_new :: "jstr \<Rightarrow> inbound_comment \<Rightarrow> provider_repo \<Rightarrow> pull_request \<Rightarrow> jstr option \<times> placement \<times> jstr option \<Rightarrow> pull_comment" where
  "ingest_new newId ev repo pull thread =
    (let (parentId, (kind, path, line, side, headSha), threadId) = thread
     in \<lparr>pc_id = newId, pc_organizationId = rp_organizationId repo, pc_pullId = pq_id pull,
       pc_origin = (if ib_provider ev = GITHUB then OriginGithub else OriginGitlab), pc_kind = kind, pc_parentId = parentId,
       pc_authorId = None, pc_providerAuthor = Some (ib_author ev), pc_providerAuthorAvatarUrl = ib_avatarUrl ev,
       pc_body = ib_body ev, pc_path = path, pc_line = line, pc_side = side, pc_headSha = headSha,
       pc_providerCommentId = Some (ib_providerCommentId ev), pc_providerThreadId = threadId, pc_syncStatus = None,
       pc_syncError = None, pc_editedAt = None, pc_deletedAt = None, pc_createdAt = ib_createdAt ev\<rparr>)"

definition ingest_unknown :: "jstr \<Rightarrow> inbound_comment \<Rightarrow> provider_repo \<Rightarrow> pull_request \<Rightarrow> comment_db \<Rightarrow>
    (jstr + ingest_outcome) \<times> comment_db" where
  "ingest_unknown newId ev repo pull db =
    (case markerOf (ib_body ev) of
      Some ownId \<Rightarrow>
       (case find_comment db ownId of
          None \<Rightarrow> (Inr IngestIgnored, db)
        | Some own \<Rightarrow>
            if pc_pullId own = pq_id pull \<and> pc_providerCommentId own = None
            then (Inr IngestLinked, set_comment (pc_id own) (\<lambda>c. c\<lparr>pc_providerCommentId := Some (ib_providerCommentId ev)\<rparr>) db)
            else (Inr IngestIgnored, db))
    | None \<Rightarrow>
       (case resolveThread (pq_id pull) ev db of
          None \<Rightarrow> (Inl ''P2025'', db)
        | Some thread \<Rightarrow> (Inr IngestCreated, add_comment (ingest_new newId ev repo pull thread) db)))"

text \<open>\<open>ingest\<close>; \<open>Inl\<close> is the error it throws.\<close>

definition ingest :: "jstr \<Rightarrow> int \<Rightarrow> inbound_comment \<Rightarrow> comment_db \<Rightarrow> (jstr + ingest_outcome) \<times> comment_db" where
  "ingest newId now ev db =
    (case ingest_pull ev db of
      None \<Rightarrow> (Inr IngestIgnored, db)
    | Some (repo, pull) \<Rightarrow>
       (case known_comment (pq_id pull) (ib_providerCommentId ev) db of
          Some existing \<Rightarrow>
            if ib_action ev = CmtDeleted
            then (Inr IngestDeleted, set_comment (pc_id existing) (\<lambda>c. c\<lparr>pc_deletedAt := Some now\<rparr>) db)
            else if ib_action ev \<noteq> CmtEdited then (Inr IngestLinked, db)
            else (let body = edited_body ev existing
              in if body = pc_body existing then (Inr IngestIgnored, db)
                 else (Inr IngestUpdated, set_comment (pc_id existing) (\<lambda>c. c\<lparr>pc_body := body, pc_editedAt := Some now\<rparr>) db))
        | None \<Rightarrow>
            if ib_action ev = CmtDeleted then (Inr IngestIgnored, db) else ingest_unknown newId ev repo pull db))"

end
