(* ===== verification/Webhook_Payload.thy ===== *)
theory Webhook_Payload
  imports Ai_Review Comments
begin

section \<open>Webhook payloads\<close>

text \<open>
  \<open>src/modules/webhooks/webhook-payload.ts\<close>, the guards that decide whether a JSON value is an
  event, and \<open>comment-events.ts\<close>, which turns the comment events into the comments of
  \<open>Comments\<close>.  The TypeScript interfaces of the events are types of a small language
  (\<open>ty\<close>); a lemma relates each guard to the interface it claims.  \<open>String(x)\<close> of a JSON
  value and the time of a date string are parameters.
\<close>

subsection \<open>Types of JSON values\<close>

datatype ty =
  TUnknown
| TString
| TNumber
| TBoolean
| TLiteral jstr
| TNullable ty
| TRecord "field list"
and field = Field jstr bool ty  \<comment> \<open>name, optional, type\<close>

fun has_type :: "ty \<Rightarrow> json \<Rightarrow> bool" and has_field :: "field \<Rightarrow> (jstr \<times> json) list \<Rightarrow> bool" where
  "has_type TUnknown v = True"
| "has_type TString v = (case v of JString _ \<Rightarrow> True | _ \<Rightarrow> False)"
| "has_type TNumber v = (case v of JNumber _ \<Rightarrow> True | _ \<Rightarrow> False)"
| "has_type TBoolean v = (case v of JBool _ \<Rightarrow> True | _ \<Rightarrow> False)"
| "has_type (TLiteral s) v = (v = JString s)"
| "has_type (TNullable t) v = (v = JNull \<or> has_type t v)"
| "has_type (TRecord fs) v = (isRecord v \<and> list_all (\<lambda>f. has_field f (props v)) fs)"
| "has_field (Field k optional t) ps = (case al_get ps k of None \<Rightarrow> optional | Some v \<Rightarrow> has_type t v)"

text \<open>\<open>sub a b\<close>: every value of type \<open>a\<close> is one of type \<open>b\<close>.\<close>

fun field_name :: "field \<Rightarrow> jstr" where "field_name (Field k _ _) = k"

fun sub :: "ty \<Rightarrow> ty \<Rightarrow> bool" and sub_field :: "field list \<Rightarrow> field \<Rightarrow> bool" where
  "sub a TUnknown = True"
| "sub TString TString = True"
| "sub (TLiteral s) TString = True"
| "sub (TLiteral s) (TLiteral s') = (s = s')"
| "sub TNumber TNumber = True"
| "sub TBoolean TBoolean = True"
| "sub (TNullable a) (TNullable b) = sub a b"
| "sub (TRecord fs) (TRecord gs) = list_all (sub_field fs) gs"
| "sub a b = False"
| "sub_field [] (Field k optional t) = False"
| "sub_field (Field k' optional' t' # fs) (Field k optional t) =
    (if k' = k then (optional' \<longrightarrow> optional) \<and> sub t' t else sub_field fs (Field k optional t))"

abbreviation required :: "jstr \<Rightarrow> ty \<Rightarrow> field" where "required k t \<equiv> Field k False t"
abbreviation maybe :: "jstr \<Rightarrow> ty \<Rightarrow> field" where "maybe k t \<equiv> Field k True t"
abbreviation with_id :: ty where "with_id \<equiv> TRecord [required ''id'' TNumber]"

subsection \<open>The interfaces\<close>

definition GitlabMergeRequestPayload :: ty where
  "GitlabMergeRequestPayload = TRecord
    [required ''object_kind'' TString, required ''project'' with_id,
     maybe ''object_attributes'' (TRecord
      [required ''iid'' TNumber, required ''title'' TString, maybe ''description'' (TNullable TString), required ''state'' TString,
       required ''target_branch'' TString, required ''source_branch'' TString,
       maybe ''last_commit'' (TRecord [required ''id'' TString]), maybe ''action'' TString, maybe ''oldrev'' TString,
       maybe ''created_at'' TString]),
     maybe ''user'' (TRecord [required ''username'' TString])]"

definition GithubPullRequestPayload :: ty where
  "GithubPullRequestPayload = TRecord
    [maybe ''action'' TString, required ''repository'' with_id,
     maybe ''pull_request'' (TRecord
      [required ''number'' TNumber, required ''title'' TString, maybe ''body'' (TNullable TString), required ''state'' TString,
       required ''merged'' TBoolean, maybe ''user'' (TRecord [required ''login'' TString]),
       required ''head'' (TRecord [required ''sha'' TString, required ''ref'' TString]),
       required ''base'' (TRecord [required ''ref'' TString, maybe ''sha'' TString]), maybe ''created_at'' TString])]"

definition GithubInstallationPayload :: ty where
  "GithubInstallationPayload = TRecord [required ''action'' TString, required ''installation'' with_id]"

definition GithubCommentUser :: ty where
  "GithubCommentUser = TRecord [required ''login'' TString, maybe ''avatar_url'' (TNullable TString)]"

definition GithubIssueCommentPayload :: ty where
  "GithubIssueCommentPayload = TRecord
    [required ''action'' TString, required ''repository'' with_id,
     required ''issue'' (TRecord [required ''number'' TNumber, maybe ''pull_request'' TUnknown]),
     required ''comment'' (TRecord
      [required ''id'' TNumber, required ''body'' TString, required ''user'' GithubCommentUser, required ''created_at'' TString])]"

definition GithubReviewCommentPayload :: ty where
  "GithubReviewCommentPayload = TRecord
    [required ''action'' TString, required ''repository'' with_id, required ''pull_request'' (TRecord [required ''number'' TNumber]),
     required ''comment'' (TRecord
      [required ''id'' TNumber, required ''body'' TString, required ''path'' TString, maybe ''line'' (TNullable TNumber),
       maybe ''original_line'' (TNullable TNumber), maybe ''side'' (TNullable TString), required ''commit_id'' TString,
       maybe ''in_reply_to_id'' (TNullable TNumber), required ''user'' GithubCommentUser, required ''created_at'' TString])]"

definition GitlabNotePayload :: ty where
  "GitlabNotePayload = TRecord
    [required ''object_kind'' (TLiteral ''note''), required ''project'' with_id,
     required ''user'' (TRecord [required ''username'' TString, maybe ''avatar_url'' (TNullable TString)]),
     required ''merge_request'' (TRecord [required ''iid'' TNumber]),
     required ''object_attributes'' (TRecord
      [required ''id'' TNumber, required ''note'' TString, required ''noteable_type'' TString,
       maybe ''discussion_id'' (TNullable TString), maybe ''system'' TBoolean, maybe ''action'' (TNullable TString),
       required ''created_at'' TString,
       maybe ''position'' (TNullable (TRecord
        [maybe ''new_path'' (TNullable TString), maybe ''old_path'' (TNullable TString), maybe ''new_line'' (TNullable TNumber),
         maybe ''old_line'' (TNullable TNumber), maybe ''head_sha'' (TNullable TString)]))])]"

definition GitlabEventEnvelope :: ty where
  "GitlabEventEnvelope = TRecord [required ''object_kind'' TString, required ''project'' with_id]"

subsection \<open>The guards\<close>

text \<open>Property access on a record; \<open>None\<close> is \<open>undefined\<close>.\<close>

definition get :: "json \<Rightarrow> jstr \<Rightarrow> json option" where
  "get v k = al_get (props v) k"

fun is_number :: "json option \<Rightarrow> bool" where
  "is_number (Some (JNumber _)) = True"
| "is_number _ = False"

fun is_boolean :: "json option \<Rightarrow> bool" where
  "is_boolean (Some (JBool _)) = True"
| "is_boolean _ = False"

text \<open>\<open>isRecord(value.k) && p(value.k)\<close>.\<close>

definition record_at :: "json \<Rightarrow> jstr \<Rightarrow> (json \<Rightarrow> bool) \<Rightarrow> bool" where
  "record_at v k p = (case get v k of Some w \<Rightarrow> isRecord w \<and> p w | None \<Rightarrow> False)"

definition absent_or :: "json option \<Rightarrow> (json option \<Rightarrow> bool) \<Rightarrow> bool" where
  "absent_or x p \<longleftrightarrow> x = None \<or> p x"

definition has_id :: "json \<Rightarrow> jstr \<Rightarrow> bool" where
  "has_id v k = record_at v k (\<lambda>w. is_number (get w ''id''))"

definition isGitlabMergeRequestPayload :: "json \<Rightarrow> bool" where
  "isGitlabMergeRequestPayload v \<longleftrightarrow> isRecord v \<and> is_string (get v ''object_kind'') \<and> has_id v ''project'' \<and>
    (get v ''object_attributes'' = None \<or> record_at v ''object_attributes'' (\<lambda>a.
      is_number (get a ''iid'') \<and> is_string (get a ''title'') \<and> is_string (get a ''state'') \<and>
      is_string (get a ''target_branch'') \<and> is_string (get a ''source_branch'') \<and>
      (get a ''last_commit'' = None \<or> record_at a ''last_commit'' (\<lambda>c. is_string (get c ''id''))) \<and>
      absent_or (get a ''action'') is_string \<and> absent_or (get a ''oldrev'') is_string)) \<and>
    (get v ''user'' = None \<or> record_at v ''user'' (\<lambda>u. is_string (get u ''username'')))"

definition isGithubPullRequestPayload :: "json \<Rightarrow> bool" where
  "isGithubPullRequestPayload v \<longleftrightarrow> isRecord v \<and> has_id v ''repository'' \<and> absent_or (get v ''action'') is_string \<and>
    (get v ''pull_request'' = None \<or> record_at v ''pull_request'' (\<lambda>p.
      is_number (get p ''number'') \<and> is_string (get p ''title'') \<and> is_string (get p ''state'') \<and>
      is_boolean (get p ''merged'') \<and>
      record_at p ''head'' (\<lambda>h. is_string (get h ''ref'') \<and> absent_or (get h ''sha'') is_string) \<and>
      record_at p ''base'' (\<lambda>b. is_string (get b ''ref'') \<and> absent_or (get b ''sha'') is_string) \<and>
      (get p ''user'' = None \<or> record_at p ''user'' (\<lambda>u. is_string (get u ''login'')))))"

definition isGithubInstallationPayload :: "json \<Rightarrow> bool" where
  "isGithubInstallationPayload v \<longleftrightarrow> isRecord v \<and> is_string (get v ''action'') \<and> has_id v ''installation''"

definition isGithubPingEvent :: "json \<Rightarrow> bool" where
  "isGithubPingEvent v \<longleftrightarrow> isRecord v \<and> is_string (get v ''zen'')"

definition isGithubCommentUser :: "json \<Rightarrow> jstr \<Rightarrow> bool" where
  "isGithubCommentUser v k = record_at v k (\<lambda>u. is_string (get u ''login''))"

definition isGithubIssueCommentPayload :: "json \<Rightarrow> bool" where
  "isGithubIssueCommentPayload v \<longleftrightarrow> isRecord v \<and> is_string (get v ''action'') \<and> has_id v ''repository'' \<and>
    record_at v ''issue'' (\<lambda>i. is_number (get i ''number'')) \<and>
    record_at v ''comment'' (\<lambda>c. is_number (get c ''id'') \<and> is_string (get c ''body'') \<and> is_string (get c ''created_at'') \<and>
      isGithubCommentUser c ''user'')"

definition isGithubReviewCommentPayload :: "json \<Rightarrow> bool" where
  "isGithubReviewCommentPayload v \<longleftrightarrow> isRecord v \<and> is_string (get v ''action'') \<and> has_id v ''repository'' \<and>
    record_at v ''pull_request'' (\<lambda>p. is_number (get p ''number'')) \<and>
    record_at v ''comment'' (\<lambda>c. is_number (get c ''id'') \<and> is_string (get c ''body'') \<and> is_string (get c ''path'') \<and>
      is_string (get c ''commit_id'') \<and> is_string (get c ''created_at'') \<and> isGithubCommentUser c ''user'')"

definition isGitlabNotePayload :: "json \<Rightarrow> bool" where
  "isGitlabNotePayload v \<longleftrightarrow> isRecord v \<and> get v ''object_kind'' = Some (JString ''note'') \<and> has_id v ''project'' \<and>
    record_at v ''user'' (\<lambda>u. is_string (get u ''username'')) \<and> record_at v ''merge_request'' (\<lambda>m. is_number (get m ''iid'')) \<and>
    record_at v ''object_attributes'' (\<lambda>a. is_number (get a ''id'') \<and> is_string (get a ''note'') \<and>
      is_string (get a ''noteable_type'') \<and> is_string (get a ''created_at''))"

definition isGitlabEventEnvelope :: "json \<Rightarrow> bool" where
  "isGitlabEventEnvelope v \<longleftrightarrow> isRecord v \<and> is_string (get v ''object_kind'') \<and> has_id v ''project''"

text \<open>\<open>parseJsonBody\<close>: \<open>parse\<close> is \<open>JSON.parse\<close>, \<open>None\<close> where it throws.\<close>

definition parseJsonBody :: "(jstr \<Rightarrow> json option) \<Rightarrow> jstr \<Rightarrow> json" where
  "parseJsonBody parse rawBody = (case parse rawBody of Some v \<Rightarrow> v | None \<Rightarrow> JNull)"

subsection \<open>What the guards check\<close>

text \<open>The part of each interface its guard checks: the fields the service writes to columns that may not be null
  and a few optional ones.\<close>

definition checked_merge_request :: ty where
  "checked_merge_request = TRecord
    [required ''object_kind'' TString, required ''project'' with_id,
     maybe ''object_attributes'' (TRecord
      [required ''iid'' TNumber, required ''title'' TString, required ''state'' TString, required ''target_branch'' TString,
       required ''source_branch'' TString, maybe ''last_commit'' (TRecord [required ''id'' TString]), maybe ''action'' TString,
       maybe ''oldrev'' TString]),
     maybe ''user'' (TRecord [required ''username'' TString])]"

definition checked_pull_request :: ty where
  "checked_pull_request = TRecord
    [required ''repository'' with_id, maybe ''action'' TString,
     maybe ''pull_request'' (TRecord
      [required ''number'' TNumber, required ''title'' TString, required ''state'' TString, required ''merged'' TBoolean,
       required ''head'' (TRecord [required ''ref'' TString, maybe ''sha'' TString]),
       required ''base'' (TRecord [required ''ref'' TString, maybe ''sha'' TString]),
       maybe ''user'' (TRecord [required ''login'' TString])])]"

definition checked_issue_comment :: ty where
  "checked_issue_comment = TRecord
    [required ''action'' TString, required ''repository'' with_id, required ''issue'' (TRecord [required ''number'' TNumber]),
     required ''comment'' (TRecord
      [required ''id'' TNumber, required ''body'' TString, required ''created_at'' TString,
       required ''user'' (TRecord [required ''login'' TString])])]"

definition checked_review_comment :: ty where
  "checked_review_comment = TRecord
    [required ''action'' TString, required ''repository'' with_id, required ''pull_request'' (TRecord [required ''number'' TNumber]),
     required ''comment'' (TRecord
      [required ''id'' TNumber, required ''body'' TString, required ''path'' TString, required ''commit_id'' TString,
       required ''created_at'' TString, required ''user'' (TRecord [required ''login'' TString])])]"

definition checked_note :: ty where
  "checked_note = TRecord
    [required ''object_kind'' (TLiteral ''note''), required ''project'' with_id, required ''user'' (TRecord [required ''username'' TString]),
     required ''merge_request'' (TRecord [required ''iid'' TNumber]),
     required ''object_attributes'' (TRecord
      [required ''id'' TNumber, required ''note'' TString, required ''noteable_type'' TString, required ''created_at'' TString])]"
lemma has_record: "has_type (TRecord fs) v \<longleftrightarrow> isRecord v \<and> list_all (\<lambda>f. has_field f (props v)) fs"
  by simp

lemma field_checks:
  "has_field (required k TString) (props v) \<longleftrightarrow> is_string (get v k)"
  "has_field (required k TNumber) (props v) \<longleftrightarrow> is_number (get v k)"
  "has_field (required k TBoolean) (props v) \<longleftrightarrow> is_boolean (get v k)"
  "has_field (required k (TLiteral s)) (props v) \<longleftrightarrow> get v k = Some (JString s)"
  "has_field (maybe k TString) (props v) \<longleftrightarrow> absent_or (get v k) is_string"
  by (auto simp: get_def absent_or_def split: option.split json.split)

lemma record_checks:
  "has_field (required k (TRecord fs)) (props v) \<longleftrightarrow> record_at v k (\<lambda>w. list_all (\<lambda>f. has_field f (props w)) fs)"
  "has_field (maybe k (TRecord fs)) (props v) \<longleftrightarrow>
    get v k = None \<or> record_at v k (\<lambda>w. list_all (\<lambda>f. has_field f (props w)) fs)"
  by (auto simp: get_def record_at_def split: option.split)

lemmas guard_checks = has_record list.pred_inject field_checks record_checks has_id_def isGithubCommentUser_def simp_thms conj_assoc

lemma sub_sound:
  "sub a b \<Longrightarrow> has_type a v \<Longrightarrow> has_type b v"
  "sub_field fs g \<Longrightarrow> list_all (\<lambda>f. has_field f ps) fs \<Longrightarrow> has_field g ps"
  by (induction a b and fs g arbitrary: v and ps rule: sub_sub_field.induct)
    (auto simp: list_all_iff split: if_splits option.splits)

text \<open>Each guard decides membership in the checked part of its interface, and accepts every value of the interface it
  claims.\<close>

lemma guards_decide_types:
  "(isGitlabMergeRequestPayload v \<longleftrightarrow> has_type checked_merge_request v) \<and>
   (isGithubPullRequestPayload v \<longleftrightarrow> has_type checked_pull_request v) \<and>
   (isGithubInstallationPayload v \<longleftrightarrow> has_type GithubInstallationPayload v) \<and>
   (isGithubIssueCommentPayload v \<longleftrightarrow> has_type checked_issue_comment v) \<and>
   (isGithubReviewCommentPayload v \<longleftrightarrow> has_type checked_review_comment v) \<and>
   (isGitlabNotePayload v \<longleftrightarrow> has_type checked_note v) \<and>
   (isGitlabEventEnvelope v \<longleftrightarrow> has_type GitlabEventEnvelope v) \<and>
   (has_type GitlabMergeRequestPayload v \<longrightarrow> isGitlabMergeRequestPayload v) \<and>
   (has_type GithubPullRequestPayload v \<longrightarrow> isGithubPullRequestPayload v) \<and>
   (has_type GithubIssueCommentPayload v \<longrightarrow> isGithubIssueCommentPayload v) \<and>
   (has_type GithubReviewCommentPayload v \<longrightarrow> isGithubReviewCommentPayload v) \<and>
   (has_type GitlabNotePayload v \<longrightarrow> isGitlabNotePayload v)"
proof -
  have m: "isGitlabMergeRequestPayload v \<longleftrightarrow> has_type checked_merge_request v"
    unfolding isGitlabMergeRequestPayload_def checked_merge_request_def by (simp only: guard_checks)
  have p: "isGithubPullRequestPayload v \<longleftrightarrow> has_type checked_pull_request v"
    unfolding isGithubPullRequestPayload_def checked_pull_request_def by (simp only: guard_checks)
  have i: "isGithubInstallationPayload v \<longleftrightarrow> has_type GithubInstallationPayload v"
    unfolding isGithubInstallationPayload_def GithubInstallationPayload_def by (simp only: guard_checks)
  have c: "isGithubIssueCommentPayload v \<longleftrightarrow> has_type checked_issue_comment v"
    unfolding isGithubIssueCommentPayload_def checked_issue_comment_def by (simp only: guard_checks)
  have r: "isGithubReviewCommentPayload v \<longleftrightarrow> has_type checked_review_comment v"
    unfolding isGithubReviewCommentPayload_def checked_review_comment_def by (simp only: guard_checks)
  have n: "isGitlabNotePayload v \<longleftrightarrow> has_type checked_note v"
    unfolding isGitlabNotePayload_def checked_note_def by (simp only: guard_checks)
  have e: "isGitlabEventEnvelope v \<longleftrightarrow> has_type GitlabEventEnvelope v"
    unfolding isGitlabEventEnvelope_def GitlabEventEnvelope_def by (simp only: guard_checks)
  have "sub GitlabMergeRequestPayload checked_merge_request" "sub GithubPullRequestPayload checked_pull_request"
    "sub GithubIssueCommentPayload checked_issue_comment" "sub GithubReviewCommentPayload checked_review_comment"
    "sub GitlabNotePayload checked_note"
    by code_simp+
  then show ?thesis unfolding m p i c r n e using sub_sound(1) by blast
qed

definition demo_installation :: json where
  "demo_installation = JObject [(''action'', JString ''suspend''), (''installation'', JObject [(''id'', JNumber 7)])]"

subsection \<open>Comment events\<close>

text \<open>Reading a field.  Of the fields no guard checks the type the host documents is relied on: a value of another
  type reads as absent.\<close>

definition at2 :: "json \<Rightarrow> jstr \<Rightarrow> jstr \<Rightarrow> json option" where
  "at2 v k l = (case get v k of Some w \<Rightarrow> get w l | None \<Rightarrow> None)"

fun opt_string :: "json option \<Rightarrow> jstr option" where
  "opt_string (Some (JString s)) = Some s"
| "opt_string _ = None"

fun opt_int :: "json option \<Rightarrow> int option" where
  "opt_int (Some (JNumber q)) = (if of_int \<lfloor>q\<rfloor> = q then Some \<lfloor>q\<rfloor> else None)"
| "opt_int _ = None"

definition string_at :: "json \<Rightarrow> jstr \<Rightarrow> jstr" where
  "string_at v k = (case opt_string (get v k) of Some s \<Rightarrow> s | None \<Rightarrow> [])"

fun js_truthy :: "json option \<Rightarrow> bool" where
  "js_truthy None = False"
| "js_truthy (Some JNull) = False"
| "js_truthy (Some (JBool b)) = b"
| "js_truthy (Some (JNumber q)) = (q \<noteq> 0)"
| "js_truthy (Some (JString s)) = (s \<noteq> [])"
| "js_truthy (Some _) = True"

definition nullish :: "json option \<Rightarrow> bool" where
  "nullish x \<longleftrightarrow> x = None \<or> x = Some JNull"

definition coalesce :: "json option \<Rightarrow> json option \<Rightarrow> json option" where
  "coalesce x y = (if nullish x then y else x)"

text \<open>\<open>`prefix${x}`\<close>; \<open>str\<close> is \<open>String\<close> of a value that is there.\<close>

definition prefixed_id :: "(json \<Rightarrow> jstr) \<Rightarrow> jstr \<Rightarrow> json option \<Rightarrow> jstr" where
  "prefixed_id str pre x = pre @ (case x of Some v \<Rightarrow> str v | None \<Rightarrow> ''undefined'')"

definition githubAction :: "jstr \<Rightarrow> comment_action option" where
  "githubAction action =
    (if action = ''created'' then Some CmtCreated else if action = ''edited'' then Some CmtEdited
     else if action = ''deleted'' then Some CmtDeleted else None)"

text \<open>A GitHub comment, with its part of the event and the kind-specific fields.\<close>

definition fromGithubIssueComment :: "(json \<Rightarrow> jstr) \<Rightarrow> (jstr \<Rightarrow> int) \<Rightarrow> json \<Rightarrow> inbound_comment option" where
  "fromGithubIssueComment str time v =
    (case get v ''comment'' of
      None \<Rightarrow> None
    | Some c \<Rightarrow>
       (case githubAction (string_at v ''action'') of
          None \<Rightarrow> None
        | Some action \<Rightarrow>
            if at2 v ''issue'' ''pull_request'' = None then None
            else Some \<lparr>ib_provider = GITHUB, ib_repositoryExternalId = prefixed_id str [] (at2 v ''repository'' ''id''),
              ib_pullExternalId = prefixed_id str [] (at2 v ''issue'' ''number''), ib_action = action,
              ib_providerCommentId = prefixed_id str ''github-issue:'' (get c ''id''), ib_providerThreadKey = None,
              ib_kind = GENERAL, ib_path = None, ib_line = None, ib_side = None, ib_headSha = None,
              ib_body = string_at c ''body'', ib_author = (case opt_string (at2 c ''user'' ''login'') of Some l \<Rightarrow> l | None \<Rightarrow> []),
              ib_avatarUrl = opt_string (at2 c ''user'' ''avatar_url''), ib_createdAt = time (string_at c ''created_at'')\<rparr>))"

definition fromGithubReviewComment :: "(json \<Rightarrow> jstr) \<Rightarrow> (jstr \<Rightarrow> int) \<Rightarrow> json \<Rightarrow> inbound_comment option" where
  "fromGithubReviewComment str time v =
    (case get v ''comment'' of
      None \<Rightarrow> None
    | Some c \<Rightarrow>
       (case githubAction (string_at v ''action'') of
          None \<Rightarrow> None
        | Some action \<Rightarrow>
            Some \<lparr>ib_provider = GITHUB, ib_repositoryExternalId = prefixed_id str [] (at2 v ''repository'' ''id''),
              ib_pullExternalId = prefixed_id str [] (at2 v ''pull_request'' ''number''), ib_action = action,
              ib_providerCommentId = prefixed_id str ''github-review:'' (get c ''id''),
              ib_providerThreadKey = (if js_truthy (get c ''in_reply_to_id'')
                then Some (prefixed_id str ''github-review:'' (get c ''in_reply_to_id'')) else None),
              ib_kind = INLINE, ib_path = opt_string (get c ''path''),
              ib_line = opt_int (coalesce (get c ''line'') (get c ''original_line'')),
              ib_side = Some (if get c ''side'' = Some (JString ''LEFT'') then SideOld else SideNew),
              ib_headSha = opt_string (get c ''commit_id''), ib_body = string_at c ''body'',
              ib_author = (case opt_string (at2 c ''user'' ''login'') of Some l \<Rightarrow> l | None \<Rightarrow> []),
              ib_avatarUrl = opt_string (at2 c ''user'' ''avatar_url''), ib_createdAt = time (string_at c ''created_at'')\<rparr>))"

definition fromGitlabNote :: "(json \<Rightarrow> jstr) \<Rightarrow> (jstr \<Rightarrow> int) \<Rightarrow> json \<Rightarrow> inbound_comment option" where
  "fromGitlabNote str time v =
    (case get v ''object_attributes'' of
      None \<Rightarrow> None
    | Some a \<Rightarrow>
        if string_at a ''noteable_type'' \<noteq> ''MergeRequest'' \<or> js_truthy (get a ''system'') then None
        else (let position = get a ''position'';
                  pos = (\<lambda>k. case position of Some p \<Rightarrow> get p k | None \<Rightarrow> None);
                  onOldSide = (\<not> nullish position \<and> nullish (pos ''new_line'') \<and> \<not> nullish (pos ''old_line''));
                  placed = js_truthy position
          in Some \<lparr>ib_provider = GITLAB, ib_repositoryExternalId = prefixed_id str [] (at2 v ''project'' ''id''),
            ib_pullExternalId = prefixed_id str [] (at2 v ''merge_request'' ''iid''),
            ib_action = (if get a ''action'' = Some (JString ''update'') then CmtEdited else CmtCreated),
            ib_providerCommentId = prefixed_id str ''gitlab-note:'' (get a ''id''),
            ib_providerThreadKey = (if js_truthy (get a ''discussion_id'')
              then Some (prefixed_id str ''gitlab-discussion:'' (get a ''discussion_id'')) else None),
            ib_kind = (if placed then INLINE else GENERAL),
            ib_path = (if placed then opt_string (coalesce (pos ''new_path'') (pos ''old_path'')) else None),
            ib_line = (if placed then opt_int (if onOldSide then pos ''old_line'' else pos ''new_line'') else None),
            ib_side = (if placed then Some (if onOldSide then SideOld else SideNew) else None),
            ib_headSha = opt_string (pos ''head_sha''), ib_body = string_at a ''note'',
            ib_author = (case opt_string (at2 v ''user'' ''username'') of Some l \<Rightarrow> l | None \<Rightarrow> []),
            ib_avatarUrl = opt_string (at2 v ''user'' ''avatar_url''), ib_createdAt = time (string_at a ''created_at'')\<rparr>))"

end
