(* ===== verification/Webhooks.thy ===== *)
theory Webhooks
  imports Webhook_Payload Scan_Queue
begin

section \<open>Webhooks\<close>

text \<open>
  What GitHub and GitLab send: \<open>src/modules/webhooks/webhooks.service.ts\<close> (the sender is
  authenticated, the event read, its delivery claimed), \<open>webhooks.controller.ts\<close> (the answer) and
  \<open>upsertFromWebhook\<close> of \<open>src/modules/pulls/pulls.service.ts\<close>.  The scans a pull
  request starts or cancels are those of \<open>Scan_Queue\<close>, run without interruption.  The import of a
  comment, its tables (\<open>'s\<close>), the JSON parser, \<open>String\<close>, dates, the HMAC and the decryption of
  secrets are parameters, as are the ids of new rows.  Log entries and realtime events are left out.
\<close>

subsection \<open>The tables\<close>

record wh_repo =
  wr_id :: jstr
  wr_organizationId :: jstr
  wr_provider :: provider_source
  wr_externalId :: jstr
  wr_secret :: "jstr option"
  wr_branches :: "jstr list option"  \<comment> \<open>\<open>scanConfig\<close>\<close>

record wh_pull =
  wp_id :: jstr
  wp_organizationId :: jstr
  wp_repositoryId :: jstr
  wp_provider :: provider_source
  wp_externalId :: jstr
  wp_title :: jstr
  wp_description :: "jstr option"
  wp_authorUsername :: "jstr option"
  wp_sourceBranch :: jstr
  wp_targetBranch :: jstr
  wp_headSha :: "jstr option"
  wp_state :: pull_state
  wp_openedAt :: "int option"
  wp_effectivePolicy :: review_policy

record wh_integration =
  wi_organizationId :: jstr
  wi_source :: provider_source
  wi_installationId :: "jstr option"
  wi_state :: integration_state

text \<open>\<open>wd_policies\<close> are the policies by repository and branch, \<open>wd_keys\<close> the delivery keys Redis
  holds; \<open>wd_world\<close> is the scan queue's view.\<close>

record 's wh_db =
  wd_repos :: "wh_repo list"
  wd_pulls :: "wh_pull list"
  wd_policies :: "(jstr \<times> jstr \<times> review_policy) list"
  wd_integrations :: "wh_integration list"
  wd_keys :: "jstr list"
  wd_world :: world
  wd_comments :: 's

record 's wh_env =
  en_parse :: "jstr \<Rightarrow> json option"
  en_str :: "json \<Rightarrow> jstr"
  en_time :: "jstr \<Rightarrow> int option"  \<comment> \<open>a date, or none where it is unreadable\<close>
  en_date :: "jstr \<Rightarrow> int"  \<comment> \<open>the date of a comment\<close>
  en_decrypt :: "jstr \<Rightarrow> jstr option"
  en_signature :: "jstr \<Rightarrow> jstr"  \<comment> \<open>\<open>sha256=\<close> and the HMAC of the body under the App's secret\<close>
  en_redis :: bool
  en_up :: bool
  en_pullId :: jstr
  en_scanId :: jstr
  en_ingest :: "inbound_comment \<Rightarrow> 's \<Rightarrow> (jstr + ingest_outcome) \<times> 's"

datatype skip_reason = SkipMalformed | SkipPing | SkipUnsupportedEvent | SkipUnknownInstallation | SkipUnknownRepo
  | SkipUntrackedPull | SkipOutOfScope | SkipNotScanTrigger | SkipNoHeadSha

datatype webhook_outcome = WhRejected | WhDuplicate | WhSkipped skip_reason | WhPullClosed | WhInstallationUpdated
  | WhCommentRecorded | WhScanEnqueued jstr bool

type_synonym 's wh_result = "(jstr + webhook_outcome) \<times> 's wh_db"

datatype header = HString jstr | HList "jstr list"

definition headerString :: "(jstr \<times> header) list \<Rightarrow> jstr \<Rightarrow> jstr option" where
  "headerString hs k = (case al_get hs k of Some (HString s) \<Rightarrow> if s = [] then None else Some s | _ \<Rightarrow> None)"

definition safeCompare :: "jstr \<Rightarrow> jstr \<Rightarrow> bool" where
  "safeCompare a b \<longleftrightarrow> length a = length b \<and> a = b"

subsection \<open>Claiming a delivery\<close>

fun provider_name :: "provider_source \<Rightarrow> jstr" where
  "provider_name GITHUB = ''GITHUB''"
| "provider_name GITLAB = ''GITLAB''"

definition dedupeKey :: "provider_source \<Rightarrow> jstr \<Rightarrow> jstr" where
  "dedupeKey provider deliveryId = ''webhook:delivery:'' @ provider_name provider @ '':'' @ deliveryId"

text \<open>\<open>SET NX\<close>; without Redis every delivery is taken as the first.\<close>

definition claimDelivery :: "'s wh_env \<Rightarrow> jstr \<Rightarrow> 's wh_db \<Rightarrow> bool \<times> 's wh_db" where
  "claimDelivery env key db =
    (if \<not> en_redis env then (True, db) else if key \<in> set (wd_keys db) then (False, db)
     else (True, db\<lparr>wd_keys := key # wd_keys db\<rparr>))"

definition release :: "'s wh_env \<Rightarrow> jstr \<Rightarrow> 's wh_db \<Rightarrow> 's wh_db" where
  "release env key db = (if en_redis env then db\<lparr>wd_keys := filter (\<lambda>k. k \<noteq> key) (wd_keys db)\<rparr> else db)"

text \<open>The claim and the \<open>try ... catch\<close> that both kinds of event are processed in: an error gives the claim back.\<close>

definition claimed :: "'s wh_env \<Rightarrow> provider_source \<Rightarrow> jstr option \<Rightarrow> ('s wh_db \<Rightarrow> 's wh_result) \<Rightarrow> 's wh_db \<Rightarrow> 's wh_result" where
  "claimed env provider deliveryId body db =
    (case deliveryId of
      None \<Rightarrow> body db
    | Some d \<Rightarrow>
       (let key = dedupeKey provider d; (first, db1) = claimDelivery env key db
        in if \<not> first then (Inr WhDuplicate, db1)
           else (case body db1 of
              (Inl e, db2) \<Rightarrow> (Inl e, release env key db2)
            | (Inr out, db2) \<Rightarrow> (Inr out, db2))))"

subsection \<open>The row of a pull request\<close>

record mapped_pull =
  mp_externalId :: jstr
  mp_title :: jstr
  mp_description :: "jstr option"
  mp_authorUsername :: "jstr option"
  mp_sourceBranch :: jstr
  mp_targetBranch :: jstr
  mp_headSha :: "jstr option"
  mp_state :: pull_state
  mp_openedAt :: "int option"

text \<open>\<open>/^\d{4}-\d{2}-\d{2} \d{2}:\d{2}:\d{2} UTC$/\<close>\<close>

definition UTC_TIME :: rx where
  "UTC_TIME = (let d = (\<lambda>n. rtimes n n (RSet is_digit))
     in rseq [RBol, d 4, rchar (CHR ''-''), d 2, rchar (CHR ''-''), d 2, rchar (CHR '' ''), d 2, rchar (CHR '':''), d 2,
       rchar (CHR '':''), d 2, rlit '' UTC'', REol])"

definition replace_first :: "jstr \<Rightarrow> jstr \<Rightarrow> jstr \<Rightarrow> jstr" where
  "replace_first p q s = (case index_of s p 0 of None \<Rightarrow> s | Some k \<Rightarrow> take k s @ q @ drop (k + length p) s)"

definition parseProviderTime :: "(jstr \<Rightarrow> int option) \<Rightarrow> jstr option \<Rightarrow> int option" where
  "parseProviderTime time t =
    (case t of
      None \<Rightarrow> None
    | Some s \<Rightarrow> if s = [] then None
        else time (if rx_test UTC_TIME s then replace_first '' UTC'' ''Z'' (replace_first '' '' ''T'' s) else s))"

definition mapGitlabState :: "jstr \<Rightarrow> pull_state" where
  "mapGitlabState state = (if state = ''merged'' then PullMerged else if state = ''closed'' then PullClosed else PullOpen)"

definition mapGithubState :: "jstr \<Rightarrow> bool \<Rightarrow> pull_state" where
  "mapGithubState state merged = (if state = ''closed'' then if merged then PullMerged else PullClosed else PullOpen)"

definition mapGitlabPayload :: "'s wh_env \<Rightarrow> json \<Rightarrow> mapped_pull option" where
  "mapGitlabPayload env v =
    (case get v ''object_attributes'' of
      None \<Rightarrow> None
    | Some a \<Rightarrow> Some \<lparr>mp_externalId = prefixed_id (en_str env) [] (get a ''iid''), mp_title = string_at a ''title'',
        mp_description = opt_string (get a ''description''), mp_authorUsername = opt_string (at2 v ''user'' ''username''),
        mp_sourceBranch = string_at a ''source_branch'', mp_targetBranch = string_at a ''target_branch'',
        mp_headSha = opt_string (at2 a ''last_commit'' ''id''), mp_state = mapGitlabState (string_at a ''state''),
        mp_openedAt = parseProviderTime (en_time env) (opt_string (get a ''created_at''))\<rparr>)"

definition mapGithubPayload :: "'s wh_env \<Rightarrow> json \<Rightarrow> mapped_pull option" where
  "mapGithubPayload env v =
    (case get v ''pull_request'' of
      None \<Rightarrow> None
    | Some p \<Rightarrow> Some \<lparr>mp_externalId = prefixed_id (en_str env) [] (get p ''number''), mp_title = string_at p ''title'',
        mp_description = opt_string (get p ''body''), mp_authorUsername = opt_string (at2 p ''user'' ''login''),
        mp_sourceBranch = (case opt_string (at2 p ''head'' ''ref'') of Some r \<Rightarrow> r | None \<Rightarrow> []),
        mp_targetBranch = (case opt_string (at2 p ''base'' ''ref'') of Some r \<Rightarrow> r | None \<Rightarrow> []),
        mp_headSha = opt_string (at2 p ''head'' ''sha''),
        mp_state = mapGithubState (string_at p ''state'') (get p ''merged'' = Some (JBool True)),
        mp_openedAt = parseProviderTime (en_time env) (opt_string (get p ''created_at''))\<rparr>)"

definition resolveEffectivePolicy :: "'s wh_db \<Rightarrow> jstr \<Rightarrow> jstr \<Rightarrow> review_policy" where
  "resolveEffectivePolicy db repositoryId targetBranch =
    (case List.find (\<lambda>(r, b, _). r = repositoryId \<and> b = targetBranch) (wd_policies db) of
      Some (_, _, p) \<Rightarrow> p | None \<Rightarrow> ManualOnly)"

definition pull_matches :: "jstr \<Rightarrow> mapped_pull \<Rightarrow> wh_pull \<Rightarrow> bool" where
  "pull_matches repositoryId m p \<longleftrightarrow> wp_repositoryId p = repositoryId \<and> wp_externalId p = mp_externalId m"

definition update_pull :: "mapped_pull \<Rightarrow> wh_pull \<Rightarrow> wh_pull" where
  "update_pull m p = p\<lparr>wp_title := mp_title m, wp_description := mp_description m, wp_authorUsername := mp_authorUsername m,
    wp_sourceBranch := mp_sourceBranch m, wp_headSha := mp_headSha m, wp_state := mp_state m,
    wp_openedAt := (case mp_openedAt m of Some t \<Rightarrow> Some t | None \<Rightarrow> wp_openedAt p)\<rparr>"

definition new_pull :: "jstr \<Rightarrow> wh_repo \<Rightarrow> review_policy \<Rightarrow> mapped_pull \<Rightarrow> wh_pull" where
  "new_pull i repo policy m = \<lparr>wp_id = i, wp_organizationId = wr_organizationId repo, wp_repositoryId = wr_id repo,
    wp_provider = wr_provider repo, wp_externalId = mp_externalId m, wp_title = mp_title m, wp_description = mp_description m,
    wp_authorUsername = mp_authorUsername m, wp_sourceBranch = mp_sourceBranch m, wp_targetBranch = mp_targetBranch m,
    wp_headSha = mp_headSha m, wp_state = mp_state m, wp_openedAt = mp_openedAt m, wp_effectivePolicy = policy\<rparr>"

text \<open>The stored row and the state; a new row is also one the scan queue reads.\<close>

definition upsertFromWebhook :: "'s wh_env \<Rightarrow> wh_repo \<Rightarrow> json \<Rightarrow> 's wh_db \<Rightarrow> wh_pull option \<times> 's wh_db" where
  "upsertFromWebhook env repo payload db =
    (case (case wr_provider repo of GITLAB \<Rightarrow> mapGitlabPayload env payload | GITHUB \<Rightarrow> mapGithubPayload env payload) of
      None \<Rightarrow> (None, db)
    | Some m \<Rightarrow>
       (case List.find (pull_matches (wr_id repo) m) (wd_pulls db) of
          Some p \<Rightarrow> (Some (update_pull m p),
            db\<lparr>wd_pulls := map (\<lambda>q. if pull_matches (wr_id repo) m q then update_pull m q else q) (wd_pulls db)\<rparr>)
        | None \<Rightarrow>
           (let p = new_pull (en_pullId env) repo (resolveEffectivePolicy db (wr_id repo) (mp_targetBranch m)) m
            in (Some p, db\<lparr>wd_pulls := wd_pulls db @ [p], wd_world := (wd_world db)\<lparr>w_pulls := (w_pulls (wd_world db))
              (wp_id p \<mapsto> \<lparr>pl_organizationId = wp_organizationId p, pl_effectivePolicy = wp_effectivePolicy p\<rparr>)\<rparr>\<rparr>))))"

subsection \<open>Pull request events\<close>

text \<open>\<open>cancelPending\<close>, run without interruption; its phases are those of the scan queue.\<close>

fun cancel_run :: "nat \<Rightarrow> bool \<Rightarrow> jstr \<Rightarrow> world \<Rightarrow> cancel_phase \<Rightarrow> world \<times> cancel_phase" where
  "cancel_run 0 up pullId w ph = (w, ph)"
| "cancel_run (Suc n) up pullId w ph = (let (w', ph') = cancel_step up pullId w ph in cancel_run n up pullId w' ph')"

definition cancelPending :: "bool \<Rightarrow> jstr \<Rightarrow> world \<Rightarrow> world \<times> cancel_phase" where
  "cancelPending up pullId w = cancel_run (length (w_scans w) + 4) up pullId w CancelRead"

record verified_event =
  ve_repository :: wh_repo
  ve_deliveryId :: "jstr option"
  ve_targetBranch :: "jstr option"
  ve_payload :: json
  ve_isScanTrigger :: bool

text \<open>The body of \<open>processVerifiedEvent\<close> once the delivery is claimed.\<close>

definition scan_pull :: "'s wh_env \<Rightarrow> verified_event \<Rightarrow> wh_pull \<Rightarrow> 's wh_db \<Rightarrow> 's wh_result" where
  "scan_pull env ev pull db =
    (if wp_state pull \<noteq> PullOpen
     then (let (w, ph) = cancelPending (en_up env) (wp_id pull) (wd_world db)
       in (case ph of CancelDone _ \<Rightarrow> Inr WhPullClosed | _ \<Rightarrow> Inl ''error'', db\<lparr>wd_world := w\<rparr>))
     else if \<not> ve_isScanTrigger ev then (Inr (WhSkipped SkipNotScanTrigger), db)
     else if wp_headSha pull = None \<or> wp_headSha pull = Some [] then (Inr (WhSkipped SkipNoHeadSha), db)
     else (let (w, ph) = enqueue (en_scanId env) (en_up env) (wd_world db)
         \<lparr>ei_organizationId = wr_organizationId (ve_repository ev), ei_repositoryId = wr_id (ve_repository ev),
          ei_pullId = wp_id pull, ei_headSha = the (wp_headSha pull), ei_trigger = TriggerWebhook, ei_full = False\<rparr>
       in (case ph of PhReturned r \<Rightarrow> Inr (WhScanEnqueued (er_scanId r) (er_deduplicated r)) | _ \<Rightarrow> Inl ''error'',
           db\<lparr>wd_world := w\<rparr>)))"

definition process_event :: "'s wh_env \<Rightarrow> verified_event \<Rightarrow> 's wh_db \<Rightarrow> 's wh_result" where
  "process_event env ev db =
    (case (ve_targetBranch ev, wr_branches (ve_repository ev)) of
      (Some branch, Some branches) \<Rightarrow>
        if branch = [] then (Inr (WhSkipped SkipUnsupportedEvent), db)
        else if branch \<notin> set branches then (Inr (WhSkipped SkipOutOfScope), db)
        else (case upsertFromWebhook env (ve_repository ev) (ve_payload ev) db of
            (None, db') \<Rightarrow> (Inr (WhSkipped SkipMalformed), db')
          | (Some pull, db') \<Rightarrow> scan_pull env ev pull db')
    | _ \<Rightarrow> (Inr (WhSkipped SkipUnsupportedEvent), db))"

definition processVerifiedEvent :: "'s wh_env \<Rightarrow> verified_event \<Rightarrow> 's wh_db \<Rightarrow> 's wh_result" where
  "processVerifiedEvent env ev = claimed env (wr_provider (ve_repository ev)) (ve_deliveryId ev) (process_event env ev)"
subsection \<open>Comment and installation events\<close>

definition recordComment :: "'s wh_env \<Rightarrow> provider_source \<Rightarrow> inbound_comment option option \<Rightarrow> jstr option \<Rightarrow> 's wh_db \<Rightarrow> 's wh_result" where
  "recordComment env provider comment deliveryId db =
    (case comment of
      None \<Rightarrow> (Inr (WhSkipped SkipMalformed), db)
    | Some None \<Rightarrow> (Inr (WhSkipped SkipUnsupportedEvent), db)
    | Some (Some c) \<Rightarrow> claimed env provider deliveryId (\<lambda>db.
       (let (outcome, s) = en_ingest env c (wd_comments db)
        in (case outcome of
            Inl e \<Rightarrow> Inl e
          | Inr IngestIgnored \<Rightarrow> Inr (WhSkipped SkipUntrackedPull)
          | Inr _ \<Rightarrow> Inr WhCommentRecorded, db\<lparr>wd_comments := s\<rparr>))) db)"

text \<open>\<open>INSTALLATION_TRANSITIONS\<close> is a plain object: a name \<open>Object.prototype\<close> has is found in it too, with
  neither \<open>to\<close> nor \<open>from\<close>, so that the row is written without a state.\<close>

definition INSTALLATION_TRANSITIONS :: "(jstr \<times> integration_state \<times> integration_state option) list" where
  "INSTALLATION_TRANSITIONS = [(''deleted'', IntUninstalled, None), (''suspend'', IntSuspended, None),
    (''unsuspend'', IntActive, Some IntSuspended)]"

definition OBJECT_PROTOTYPE :: "jstr list" where
  "OBJECT_PROTOTYPE = [''constructor'', ''__proto__'', ''toString'', ''toLocaleString'', ''valueOf'', ''hasOwnProperty'',
    ''isPrototypeOf'', ''propertyIsEnumerable'', ''__defineGetter__'', ''__defineSetter__'', ''__lookupGetter__'', ''__lookupSetter__'']"

definition transition_of :: "jstr \<Rightarrow> (integration_state \<times> integration_state option) record_entry" where
  "transition_of action =
    (case map_of INSTALLATION_TRANSITIONS action of
      Some t \<Rightarrow> Own t
    | None \<Rightarrow> if action \<in> set OBJECT_PROTOTYPE then Inherited else Absent)"

definition transition_row :: "jstr \<Rightarrow> integration_state option \<Rightarrow> wh_integration \<Rightarrow> bool" where
  "transition_row installationId from_state i \<longleftrightarrow> wi_source i = GITHUB \<and> wi_installationId i = Some installationId \<and>
    (from_state = None \<or> from_state = Some (wi_state i))"

definition set_installation :: "jstr \<Rightarrow> integration_state option \<Rightarrow> integration_state option \<Rightarrow> 's wh_db \<Rightarrow> 's wh_result" where
  "set_installation installationId from_state to_state db =
    (let p = transition_row installationId from_state
     in if filter p (wd_integrations db) = [] then (Inr (WhSkipped SkipUnknownInstallation), db)
        else (Inr WhInstallationUpdated, db\<lparr>wd_integrations :=
          map (\<lambda>i. if p i then (case to_state of Some st \<Rightarrow> i\<lparr>wi_state := st\<rparr> | None \<Rightarrow> i) else i) (wd_integrations db)\<rparr>))"

definition handleGithubInstallationEvent :: "'s wh_env \<Rightarrow> json \<Rightarrow> 's wh_db \<Rightarrow> 's wh_result" where
  "handleGithubInstallationEvent env v db =
    (if \<not> isGithubInstallationPayload v then (Inr (WhSkipped SkipMalformed), db)
     else (let installationId = prefixed_id (en_str env) [] (at2 v ''installation'' ''id'')
       in (case transition_of (string_at v ''action'') of
          Absent \<Rightarrow> (Inr (WhSkipped SkipUnsupportedEvent), db)
        | Inherited \<Rightarrow> set_installation installationId None None db
        | Own (to_state, from_state) \<Rightarrow> set_installation installationId from_state (Some to_state) db)))"

subsection \<open>The two endpoints\<close>

definition find_repo :: "provider_source \<Rightarrow> jstr \<Rightarrow> 's wh_db \<Rightarrow> wh_repo option" where
  "find_repo provider externalId db =
    List.find (\<lambda>r. wr_provider r = provider \<and> wr_externalId r = externalId) (wd_repos db)"

definition GITHUB_SCAN_ACTIONS :: "jstr list" where
  "GITHUB_SCAN_ACTIONS = [''opened'', ''reopened'', ''synchronize'', ''ready_for_review'']"

definition github_comment :: "'s wh_env \<Rightarrow> jstr \<Rightarrow> json \<Rightarrow> inbound_comment option option" where
  "github_comment env eventName v =
    (if eventName = ''issue_comment''
        then if isGithubIssueCommentPayload v then Some (fromGithubIssueComment (en_str env) (en_date env) v) else None
        else if isGithubReviewCommentPayload v then Some (fromGithubReviewComment (en_str env) (en_date env) v) else None)"

definition github_pull_event :: "'s wh_env \<Rightarrow> (jstr \<times> header) list \<Rightarrow> json \<Rightarrow> 's wh_db \<Rightarrow> 's wh_result" where
  "github_pull_event env hs v db =
    (if \<not> isGithubPullRequestPayload v then (Inr (WhSkipped SkipMalformed), db)
     else (case find_repo GITHUB (prefixed_id (en_str env) [] (at2 v ''repository'' ''id'')) db of
        None \<Rightarrow> (Inr (WhSkipped SkipUnknownRepo), db)
      | Some repo \<Rightarrow> processVerifiedEvent env
          \<lparr>ve_repository = repo, ve_deliveryId = headerString hs ''x-github-delivery'',
           ve_targetBranch = (case get v ''pull_request'' of None \<Rightarrow> None | Some p \<Rightarrow> opt_string (at2 p ''base'' ''ref'')),
           ve_payload = v, ve_isScanTrigger = (get v ''action'' = None \<or> string_at v ''action'' \<in> set GITHUB_SCAN_ACTIONS)\<rparr> db))"

definition handleGithubEvent :: "'s wh_env \<Rightarrow> jstr \<Rightarrow> (jstr \<times> header) list \<Rightarrow> 's wh_db \<Rightarrow> 's wh_result" where
  "handleGithubEvent env rawBody hs db =
    (case al_get hs ''x-hub-signature-256'' of
      Some (HString signature) \<Rightarrow>
        if \<not> safeCompare signature (en_signature env rawBody) then (Inr WhRejected, db)
        else (let v = parseJsonBody (en_parse env) rawBody; eventName = headerString hs ''x-github-event''
          in if isGithubPingEvent v then (Inr (WhSkipped SkipPing), db)
             else if eventName = Some ''installation'' then handleGithubInstallationEvent env v db
             else if eventName = Some ''issue_comment'' \<or> eventName = Some ''pull_request_review_comment''
             then recordComment env GITHUB (github_comment env (the eventName) v) (headerString hs ''x-github-delivery'') db
             else if eventName \<noteq> None \<and> eventName \<noteq> Some ''pull_request'' then (Inr (WhSkipped SkipUnsupportedEvent), db)
             else github_pull_event env hs v db)
    | _ \<Rightarrow> (Inr WhRejected, db))"

definition gitlab_event :: "'s wh_env \<Rightarrow> (jstr \<times> header) list \<Rightarrow> json \<Rightarrow> wh_repo \<Rightarrow> 's wh_db \<Rightarrow> 's wh_result" where
  "gitlab_event env hs v repo db =
    (let deliveryId = headerString hs ''x-gitlab-event-uuid''
     in if string_at v ''object_kind'' = ''note''
        then recordComment env GITLAB
          (if isGitlabNotePayload v
           then Some (fromGitlabNote (en_str env) (en_date env) v) else None) deliveryId db
        else if string_at v ''object_kind'' \<noteq> ''merge_request'' then (Inr (WhSkipped SkipUnsupportedEvent), db)
        else if \<not> isGitlabMergeRequestPayload v then (Inr (WhSkipped SkipMalformed), db)
        else (let action = at2 v ''object_attributes'' ''action''
          in processVerifiedEvent env
            \<lparr>ve_repository = repo, ve_deliveryId = deliveryId,
             ve_targetBranch = opt_string (at2 v ''object_attributes'' ''target_branch''), ve_payload = v,
             ve_isScanTrigger = (action = None \<or> action = Some (JString ''open'') \<or> action = Some (JString ''reopen'') \<or>
               action = Some (JString ''update'') \<and> at2 v ''object_attributes'' ''oldrev'' \<noteq> None)\<rparr> db))"

definition handleGitlabEvent :: "'s wh_env \<Rightarrow> jstr \<Rightarrow> (jstr \<times> header) list \<Rightarrow> 's wh_db \<Rightarrow> 's wh_result" where
  "handleGitlabEvent env rawBody hs db =
    (let v = parseJsonBody (en_parse env) rawBody
     in if \<not> isGitlabEventEnvelope v then (Inr (WhSkipped SkipMalformed), db)
        else (case find_repo GITLAB (prefixed_id (en_str env) [] (at2 v ''project'' ''id'')) db of
            None \<Rightarrow> (Inr WhRejected, db)
          | Some repo \<Rightarrow>
             (case wr_secret repo of
                None \<Rightarrow> (Inr WhRejected, db)
              | Some encrypted \<Rightarrow>
                  if encrypted = [] then (Inr WhRejected, db)
                  else (case en_decrypt env encrypted of
                      None \<Rightarrow> (Inl ''decrypt'', db)
                    | Some secret \<Rightarrow>
                       (case al_get hs ''x-gitlab-token'' of
                          Some (HString token) \<Rightarrow>
                            if safeCompare token secret then gitlab_event env hs v repo db else (Inr WhRejected, db)
                        | _ \<Rightarrow> (Inr WhRejected, db))))))"

text \<open>\<open>handle\<close> of the controller: the status and the body of the answer.\<close>

record wh_response =
  rs_status :: nat
  rs_received :: bool
  rs_duplicate :: bool
  rs_skipped :: "skip_reason option"
  rs_scanId :: "jstr option"
  rs_deduplicated :: bool

definition answer :: "nat \<Rightarrow> bool \<Rightarrow> wh_response" where
  "answer status received = \<lparr>rs_status = status, rs_received = received, rs_duplicate = False, rs_skipped = None,
    rs_scanId = None, rs_deduplicated = False\<rparr>"

fun outcome_answer :: "jstr + webhook_outcome \<Rightarrow> wh_response" where
  "outcome_answer (Inl _) = answer 200 True"
| "outcome_answer (Inr WhRejected) = answer 401 False"
| "outcome_answer (Inr WhDuplicate) = (answer 200 True)\<lparr>rs_duplicate := True\<rparr>"
| "outcome_answer (Inr (WhSkipped r)) = (answer 200 True)\<lparr>rs_skipped := Some r\<rparr>"
| "outcome_answer (Inr (WhScanEnqueued scanId deduplicated)) =
    (answer (if deduplicated then 200 else 202) True)\<lparr>rs_scanId := Some scanId, rs_deduplicated := deduplicated\<rparr>"
| "outcome_answer (Inr _) = answer 200 True"

definition handle :: "(jstr \<Rightarrow> 's wh_db \<Rightarrow> 's wh_result) \<Rightarrow> jstr option \<Rightarrow> 's wh_db \<Rightarrow> wh_response \<times> 's wh_db" where
  "handle run rawBody db =
    (case rawBody of
      None \<Rightarrow> ((answer 200 True)\<lparr>rs_skipped := Some SkipMalformed\<rparr>, db)
    | Some raw \<Rightarrow> apfst outcome_answer (run raw db))"

end
