(* ===== verification/Webhook_Events.thy ===== *)
theory Webhook_Events
  imports Webhooks
begin

section \<open>What holds of webhooks\<close>

text \<open>
  The properties of the deliveries of \<open>Webhooks\<close>: only an authenticated sender changes anything, a
  delivery is processed once, a stored pull request is what the payload says, an event of a pull request leaves its
  scans as the event says, and an installation moves only along its transitions.
\<close>

subsection \<open>What an event leaves alone\<close>

text \<open>\<open>keeps db r\<close>: the result \<open>r\<close> has the delivery keys, repositories and integrations of \<open>db\<close>.\<close>

definition keeps :: "'s wh_db \<Rightarrow> 's wh_result \<Rightarrow> bool" where
  "keeps db r \<longleftrightarrow> wd_keys (snd r) = wd_keys db \<and> wd_repos (snd r) = wd_repos db \<and> wd_integrations (snd r) = wd_integrations db"

definition other_pulls :: "wh_repo \<Rightarrow> 's wh_db \<Rightarrow> wh_pull list" where
  "other_pulls repo db = filter (\<lambda>p. wp_repositoryId p \<noteq> wr_id repo) (wd_pulls db)"

lemma update_pull_id [simp]: "wp_repositoryId (update_pull m p) = wp_repositoryId p" "wp_id (update_pull m p) = wp_id p"
  by (simp_all add: update_pull_def)

lemma upsert_keeps:
  "wd_keys (snd (upsertFromWebhook env repo v db)) = wd_keys db"
  "wd_repos (snd (upsertFromWebhook env repo v db)) = wd_repos db"
  "wd_integrations (snd (upsertFromWebhook env repo v db)) = wd_integrations db"
  "wd_comments (snd (upsertFromWebhook env repo v db)) = wd_comments db"
  by (auto simp: upsertFromWebhook_def Let_def split: option.split provider_source.split)

lemma upsert_other_pulls: "other_pulls repo (snd (upsertFromWebhook env repo v db)) = other_pulls repo db"
proof -
  have "filter (\<lambda>p. wp_repositoryId p \<noteq> i) (map (\<lambda>q. if pull_matches i m q then update_pull m q else q) ps) =
      filter (\<lambda>p. wp_repositoryId p \<noteq> i) ps" for i m and ps :: "wh_pull list"
    by (induction ps) (auto simp: pull_matches_def)
  then show ?thesis
    by (auto simp: upsertFromWebhook_def other_pulls_def new_pull_def Let_def split: option.split provider_source.split)
qed

lemma scan_pull_keeps: "keeps db (scan_pull env ev pull db)" "wd_pulls (snd (scan_pull env ev pull db)) = wd_pulls db"
  by (auto simp: scan_pull_def keeps_def Let_def case_prod_beta)

lemma process_event_keeps: "keeps db (process_event env ev db)"
proof (cases "upsertFromWebhook env (ve_repository ev) (ve_payload ev) db")
  case (Pair pull db')
  then have "keeps db (process_event env ev db)" if "keeps db' (scan_pull env ev p db')" for p
    using upsert_keeps [of env "ve_repository ev" "ve_payload ev" db] that scan_pull_keeps(1) [of db' env ev]
    by (auto simp: process_event_def keeps_def split: option.split)
  with scan_pull_keeps(1) show ?thesis by blast
qed

lemma process_event_other_pulls: "other_pulls (ve_repository ev) (snd (process_event env ev db)) = other_pulls (ve_repository ev) db"
proof (cases "upsertFromWebhook env (ve_repository ev) (ve_payload ev) db")
  case (Pair pull db')
  then have "other_pulls (ve_repository ev) db' = other_pulls (ve_repository ev) db"
    using upsert_other_pulls [of "ve_repository ev" env "ve_payload ev" db] by simp
  moreover have "other_pulls r (snd (scan_pull env ev p db')) = other_pulls r db'" for r p
    by (simp add: other_pulls_def scan_pull_keeps)
  ultimately show ?thesis using Pair by (auto simp: process_event_def split: option.split)
qed

text \<open>What does not depend on the delivery keys and the body keeps, the claim keeps.\<close>

lemma claimed_invariant:
  assumes keys: "\<And>x k. F (x\<lparr>wd_keys := k\<rparr>) = F x" and body: "\<And>x. F (snd (body x)) = F x"
  shows "F (snd (claimed env provider deliveryId body db)) = F db"
proof (cases deliveryId)
  case (Some d)
  obtain b db1 where c: "claimDelivery env (dedupeKey provider d) db = (b, db1)" by fastforce
  then have db1: "F db1 = F db" by (auto simp: claimDelivery_def keys split: if_splits)
  obtain res db2 where r: "body db1 = (res, db2)" by fastforce
  have "F db2 = F db" using body [of db1] db1 r by simp
  with Some c r db1 show ?thesis by (cases res) (simp_all add: claimed_def release_def keys)
qed (simp add: claimed_def body)

lemma claimed_duplicate:
  assumes "en_redis env" "dedupeKey provider d \<in> set (wd_keys db)"
  shows "claimed env provider (Some d) body db = (Inr WhDuplicate, db)"
  using assms by (simp add: claimed_def claimDelivery_def)

lemma claimed_keys:
  assumes "en_redis env" "\<And>x. wd_keys (snd (body x)) = wd_keys x" "claimed env provider (Some d) body db = (res, db')"
  shows "case res of Inr _ \<Rightarrow> dedupeKey provider d \<in> set (wd_keys db') | Inl _ \<Rightarrow> dedupeKey provider d \<notin> set (wd_keys db')"
proof (cases "dedupeKey provider d \<in> set (wd_keys db)")
  case True
  with assms(1,3) show ?thesis by (auto simp: claimed_duplicate)
next
  case False
  let ?db = "db\<lparr>wd_keys := dedupeKey provider d # wd_keys db\<rparr>"
  obtain r db2 where r: "body ?db = (r, db2)" by fastforce
  with assms(2) [of ?db] have "wd_keys db2 = dedupeKey provider d # wd_keys db" by simp
  with assms(1,3) False r show ?thesis
    by (cases r) (auto simp: claimed_def claimDelivery_def release_def)
qed

lemma process_verified_keeps:
  "wd_repos (snd (processVerifiedEvent env ev db)) = wd_repos db"
  "wd_integrations (snd (processVerifiedEvent env ev db)) = wd_integrations db"
  "other_pulls (ve_repository ev) (snd (processVerifiedEvent env ev db)) = other_pulls (ve_repository ev) db"
  unfolding processVerifiedEvent_def
  using process_event_keeps [of _ env ev] process_event_other_pulls [of ev env]
  by (auto intro!: claimed_invariant simp: keeps_def other_pulls_def)

lemma record_comment_keeps:
  "wd_repos (snd (recordComment env provider c d db)) = wd_repos db"
  "wd_integrations (snd (recordComment env provider c d db)) = wd_integrations db"
  "wd_pulls (snd (recordComment env provider c d db)) = wd_pulls db"
  "wd_world (snd (recordComment env provider c d db)) = wd_world db"
  unfolding recordComment_def
  by (auto intro!: claimed_invariant simp: case_prod_beta Let_def split: option.split)

subsection \<open>Only authenticated senders change anything\<close>

text \<open>C6: only an authenticated sender changes anything.  A GitHub delivery that is not signed with the App's
  secret, and a GitLab delivery whose token is not the secret of a connected repository with the project's id, leave
  every table as it was; an authenticated GitLab delivery changes no pull request of another repository.\<close>

theorem webhooks_authenticated:
  "(snd (handleGithubEvent env rawBody hs db) \<noteq> db \<longrightarrow> al_get hs ''x-hub-signature-256'' = Some (HString (en_signature env rawBody))) \<and>
   (snd (handleGitlabEvent env rawBody hs db) \<noteq> db \<longrightarrow> (\<exists>repo encrypted token. repo \<in> set (wd_repos db) \<and>
      wr_provider repo = GITLAB \<and>
      wr_externalId repo = prefixed_id (en_str env) [] (at2 (parseJsonBody (en_parse env) rawBody) ''project'' ''id'') \<and>
      wr_secret repo = Some encrypted \<and> encrypted \<noteq> [] \<and> en_decrypt env encrypted = Some token \<and>
      al_get hs ''x-gitlab-token'' = Some (HString token) \<and>
      wd_repos (snd (handleGitlabEvent env rawBody hs db)) = wd_repos db \<and>
      other_pulls repo (snd (handleGitlabEvent env rawBody hs db)) = other_pulls repo db))"
proof (intro conjI impI)
  assume "snd (handleGithubEvent env rawBody hs db) \<noteq> db"
  then show "al_get hs ''x-hub-signature-256'' = Some (HString (en_signature env rawBody))"
    by (auto simp: handleGithubEvent_def safeCompare_def split: option.splits header.splits if_splits)
next
  let ?v = "parseJsonBody (en_parse env) rawBody"
  assume "snd (handleGitlabEvent env rawBody hs db) \<noteq> db"
  then obtain repo encrypted token where
    r: "find_repo GITLAB (prefixed_id (en_str env) [] (at2 ?v ''project'' ''id'')) db = Some repo" "wr_secret repo = Some encrypted"
      "encrypted \<noteq> []" "en_decrypt env encrypted = Some token" "al_get hs ''x-gitlab-token'' = Some (HString token)"
    and h: "handleGitlabEvent env rawBody hs db = gitlab_event env hs ?v repo db"
    by (auto simp: handleGitlabEvent_def Let_def safeCompare_def split: option.splits header.splits if_splits)
  from find_SomeD [OF r(1) [unfolded find_repo_def]]
  have "repo \<in> set (wd_repos db)" "wr_provider repo = GITLAB"
    "wr_externalId repo = prefixed_id (en_str env) [] (at2 ?v ''project'' ''id'')" by auto
  moreover have "wd_repos (snd (gitlab_event env hs ?v repo db)) = wd_repos db"
    by (simp add: gitlab_event_def Let_def record_comment_keeps process_verified_keeps)
  moreover have "other_pulls repo (snd (gitlab_event env hs ?v repo db)) = other_pulls repo db"
  proof -
    have rec: "other_pulls repo (snd (recordComment env GITLAB c d db)) = other_pulls repo db" for c d
      by (simp add: other_pulls_def record_comment_keeps)
    have "other_pulls repo (snd (processVerifiedEvent env ev db)) = other_pulls repo db" if "ve_repository ev = repo" for ev
      using process_verified_keeps(3) [where env = env and ev = ev and db = db] that by simp
    then show ?thesis by (simp add: gitlab_event_def Let_def rec)
  qed
  ultimately show "\<exists>repo encrypted token. repo \<in> set (wd_repos db) \<and> wr_provider repo = GITLAB \<and>
      wr_externalId repo = prefixed_id (en_str env) [] (at2 ?v ''project'' ''id'') \<and>
      wr_secret repo = Some encrypted \<and> encrypted \<noteq> [] \<and> en_decrypt env encrypted = Some token \<and>
      al_get hs ''x-gitlab-token'' = Some (HString token) \<and>
      wd_repos (snd (handleGitlabEvent env rawBody hs db)) = wd_repos db \<and>
      other_pulls repo (snd (handleGitlabEvent env rawBody hs db)) = other_pulls repo db"
    using r(2-5) unfolding h by blast
qed

subsection \<open>A delivery is processed once\<close>

lemma find_repo_same: "find_repo p i db = y \<Longrightarrow> wd_repos x = wd_repos db \<Longrightarrow> find_repo p i x = y"
  by (simp add: find_repo_def)

lemma verified_once:
  assumes "en_redis env" "ve_deliveryId ev = Some d"
  shows "processVerifiedEvent env ev db = (Inr out, db') \<Longrightarrow> dedupeKey (wr_provider (ve_repository ev)) d \<in> set (wd_keys db')"
    "processVerifiedEvent env ev db = (Inl e, db') \<Longrightarrow> dedupeKey (wr_provider (ve_repository ev)) d \<notin> set (wd_keys db')"
    "dedupeKey (wr_provider (ve_repository ev)) d \<in> set (wd_keys x) \<Longrightarrow> processVerifiedEvent env ev x = (Inr WhDuplicate, x)"
proof -
  have "wd_keys (snd (process_event env ev x)) = wd_keys x" for x
    using process_event_keeps [of x env ev] by (simp add: keeps_def)
  note keys = claimed_keys [OF assms(1) this, folded assms(2) processVerifiedEvent_def]
  show "processVerifiedEvent env ev db = (Inr out, db') \<Longrightarrow> dedupeKey (wr_provider (ve_repository ev)) d \<in> set (wd_keys db')"
    using keys [of "wr_provider (ve_repository ev)" d db "Inr out" db'] assms(2) by (simp add: processVerifiedEvent_def)
  show "processVerifiedEvent env ev db = (Inl e, db') \<Longrightarrow> dedupeKey (wr_provider (ve_repository ev)) d \<notin> set (wd_keys db')"
    using keys [of "wr_provider (ve_repository ev)" d db "Inl e" db'] assms(2) by (simp add: processVerifiedEvent_def)
qed (simp add: processVerifiedEvent_def claimed_duplicate assms)

lemma recorded_once:
  assumes "en_redis env"
  shows "recordComment env p (Some (Some c)) (Some d) db = (Inr out, db') \<Longrightarrow> dedupeKey p d \<in> set (wd_keys db')"
    "recordComment env p (Some (Some c)) (Some d) db = (Inl e, db') \<Longrightarrow> dedupeKey p d \<notin> set (wd_keys db')"
    "dedupeKey p d \<in> set (wd_keys x) \<Longrightarrow> recordComment env p (Some (Some c)) (Some d) x = (Inr WhDuplicate, x)"
proof -
  let ?body = "\<lambda>db. let (outcome, s) = en_ingest env c (wd_comments db)
    in (case outcome of Inl e \<Rightarrow> Inl e | Inr IngestIgnored \<Rightarrow> Inr (WhSkipped SkipUntrackedPull)
      | Inr _ \<Rightarrow> Inr WhCommentRecorded, db\<lparr>wd_comments := s\<rparr>)"
  have "wd_keys (snd (?body x)) = wd_keys x" for x by (simp add: case_prod_beta Let_def)
  note keys = claimed_keys [OF assms this, of p d db]
  show "recordComment env p (Some (Some c)) (Some d) db = (Inr out, db') \<Longrightarrow> dedupeKey p d \<in> set (wd_keys db')"
    using keys [of "Inr out" db'] by (simp add: recordComment_def)
  show "recordComment env p (Some (Some c)) (Some d) db = (Inl e, db') \<Longrightarrow> dedupeKey p d \<notin> set (wd_keys db')"
    using keys [of "Inl e" db'] by (simp add: recordComment_def)
qed (simp add: recordComment_def claimed_duplicate assms)

text \<open>An installation event is not claimed; it sets states, so that its second run finds them set.\<close>

lemma set_installation_exact:
  "snd (set_installation i from_state to_state db) = db\<lparr>wd_integrations :=
    map (\<lambda>r. if transition_row i from_state r then (case to_state of Some st \<Rightarrow> r\<lparr>wi_state := st\<rparr> | None \<Rightarrow> r) else r) (wd_integrations db)\<rparr>"
proof (cases "filter (transition_row i from_state) (wd_integrations db) = []")
  case True
  then have "map (\<lambda>r. if transition_row i from_state r then (case to_state of Some st \<Rightarrow> r\<lparr>wi_state := st\<rparr> | None \<Rightarrow> r) else r) (wd_integrations db) = wd_integrations db"
    by (intro map_idI) (auto simp: filter_empty_conv)
  with True show ?thesis by (simp add: set_installation_def)
qed (simp add: set_installation_def Let_def)

lemma set_installation_again:
  "snd (set_installation i from_state to_state (snd (set_installation i from_state to_state db))) = snd (set_installation i from_state to_state db)"
proof -
  have "map (\<lambda>r. if P r then f r else r) (map (\<lambda>r. if P r then f r else r) xs) = map (\<lambda>r. if P r then f r else r) xs"
    if "\<And>r. f (f r) = f r" for P f and xs :: "wh_integration list"
    using that by simp
  from this [of "\<lambda>r. case to_state of Some st \<Rightarrow> r\<lparr>wi_state := st\<rparr> | None \<Rightarrow> r"] show ?thesis
    unfolding set_installation_exact by (simp split: option.split)
qed

lemma installation_again:
  "snd (handleGithubInstallationEvent env v (snd (handleGithubInstallationEvent env v db))) = snd (handleGithubInstallationEvent env v db)"
  by (simp add: handleGithubInstallationEvent_def Let_def set_installation_again split: record_entry.split prod.split)

lemma installation_keeps:
  "wd_repos (snd (handleGithubInstallationEvent env v db)) = wd_repos db"
  "wd_keys (snd (handleGithubInstallationEvent env v db)) = wd_keys db"
  by (simp_all add: handleGithubInstallationEvent_def Let_def set_installation_exact split: record_entry.split prod.split)

text \<open>The outcomes of a claimed delivery after which something was done; an installation event (\<open>WhInstallationUpdated\<close>) is not
  claimed.\<close>

fun effective :: "webhook_outcome \<Rightarrow> bool" where
  "effective WhPullClosed = True"
| "effective WhCommentRecorded = True"
| "effective (WhScanEnqueued _ _) = True"
| "effective _ = False"

text \<open>The result of a delivery with its key, and what the same delivery does when it comes again: at once, or in any later state
  with the same repositories.\<close>

definition processed_once :: "('s wh_db \<Rightarrow> 's wh_result) \<Rightarrow> jstr \<Rightarrow> 's wh_db \<Rightarrow> bool" where
  "processed_once run key db \<longleftrightarrow>
    (case run db of
      (Inl _, db') \<Rightarrow> key \<notin> set (wd_keys db')
    | (Inr out, db') \<Rightarrow> snd (run db') = db' \<and> (effective out \<longrightarrow> key \<in> set (wd_keys db')) \<and>
        (key \<in> set (wd_keys db') \<longrightarrow>
          (\<forall>x. wd_repos x = wd_repos db \<and> key \<in> set (wd_keys x) \<longrightarrow> run x = (Inr WhDuplicate, x))))"

text \<open>Where a delivery goes depends on the body, the headers and the repositories only.\<close>

definition routes :: "'s wh_env \<Rightarrow> ('s wh_db \<Rightarrow> 's wh_result) \<Rightarrow> provider_source \<Rightarrow> jstr option \<Rightarrow> 's wh_db \<Rightarrow> bool" where
  "routes env run provider deliveryId db \<longleftrightarrow>
    (\<exists>ev. ve_deliveryId ev = deliveryId \<and> wr_provider (ve_repository ev) = provider \<and>
      (\<forall>x. wd_repos x = wd_repos db \<longrightarrow> run x = processVerifiedEvent env ev x)) \<or>
    (\<exists>c. \<forall>x. wd_repos x = wd_repos db \<longrightarrow> run x = recordComment env provider (Some (Some c)) deliveryId x) \<or>
    (\<exists>v. \<forall>x. wd_repos x = wd_repos db \<longrightarrow> run x = handleGithubInstallationEvent env v x) \<or>
    (\<exists>r. (case r of Inr out \<Rightarrow> \<not> effective out | Inl _ \<Rightarrow> True) \<and> (\<forall>x. wd_repos x = wd_repos db \<longrightarrow> run x = (r, x)))"

lemma routes_cong:
  assumes "\<And>x. wd_repos x = wd_repos db \<Longrightarrow> run x = run' x"
  shows "routes env run p d db \<longleftrightarrow> routes env run' p d db"
proof -
  have "(wd_repos x = wd_repos db \<longrightarrow> run x = r) \<longleftrightarrow> (wd_repos x = wd_repos db \<longrightarrow> run' x = r)" for x r
    using assms by auto
  then show ?thesis by (simp add: routes_def)
qed

lemma routes_still: "(\<And>x. wd_repos x = wd_repos db \<Longrightarrow> run x = (Inr out, x)) \<Longrightarrow> \<not> effective out \<Longrightarrow> routes env run p d db"
  unfolding routes_def by (intro disjI2 exI [of _ "Inr out"]) simp

lemma record_routes:
  assumes "\<And>x. wd_repos x = wd_repos db \<Longrightarrow> run x = recordComment env p c d x"
  shows "routes env run p d db"
proof -
  consider "c = None" | "c = Some None" | k where "c = Some (Some k)" by (cases c; cases "the c") auto
  then show ?thesis
  proof cases
    case 1
    with assms show ?thesis by (intro routes_still [where out = "WhSkipped SkipMalformed"]) (simp_all add: recordComment_def)
  next
    case 2
    with assms show ?thesis by (intro routes_still [where out = "WhSkipped SkipUnsupportedEvent"]) (simp_all add: recordComment_def)
  next
    case 3
    with assms show ?thesis unfolding routes_def by blast
  qed
qed

lemma github_pull_routes: "routes env (github_pull_event env hs v) GITHUB (headerString hs ''x-github-delivery'') db"
proof (cases "isGithubPullRequestPayload v")
  case True
  show ?thesis
  proof (cases "find_repo GITHUB (prefixed_id (en_str env) [] (at2 v ''repository'' ''id'')) db")
    case None
    from True show ?thesis by (intro routes_still [where out = "WhSkipped SkipUnknownRepo"])
      (simp_all add: github_pull_event_def find_repo_same [OF None])
  next
    case (Some repo)
    with find_SomeD [OF Some [unfolded find_repo_def]] have "wr_provider repo = GITHUB" by simp
    with True show ?thesis unfolding routes_def
      by (intro disjI1 exI [of _ "\<lparr>ve_repository = repo, ve_deliveryId = headerString hs ''x-github-delivery'',
           ve_targetBranch = (case get v ''pull_request'' of None \<Rightarrow> None | Some p \<Rightarrow> opt_string (at2 p ''base'' ''ref'')),
           ve_payload = v, ve_isScanTrigger = (get v ''action'' = None \<or> string_at v ''action'' \<in> set GITHUB_SCAN_ACTIONS)\<rparr>"])
        (simp add: github_pull_event_def find_repo_same [OF Some])
  qed
qed (intro routes_still [where out = "WhSkipped SkipMalformed"], simp_all add: github_pull_event_def)

lemma github_routes: "routes env (handleGithubEvent env rawBody hs) GITHUB (headerString hs ''x-github-delivery'') db"
proof -
  let ?run = "handleGithubEvent env rawBody hs" and ?v = "parseJsonBody (en_parse env) rawBody"
  let ?name = "headerString hs ''x-github-event''"
  show ?thesis
  proof (cases "al_get hs ''x-hub-signature-256'' = Some (HString (en_signature env rawBody))")
    case False
    then have "?run x = (Inr WhRejected, x)" for x
      by (auto simp: handleGithubEvent_def safeCompare_def split: option.split header.split)
    then show ?thesis by (intro routes_still [where out = WhRejected]) simp_all
  next
    case True
    note run = handleGithubEvent_def [of env rawBody hs] True
    consider "isGithubPingEvent ?v" | "\<not> isGithubPingEvent ?v" "?name = Some ''installation''"
      | "\<not> isGithubPingEvent ?v" "?name = Some ''issue_comment'' \<or> ?name = Some ''pull_request_review_comment''"
      | "\<not> isGithubPingEvent ?v" "?name \<noteq> None" "?name \<noteq> Some ''installation''" "?name \<noteq> Some ''issue_comment''"
          "?name \<noteq> Some ''pull_request_review_comment''" "?name \<noteq> Some ''pull_request''"
      | "\<not> isGithubPingEvent ?v" "?name = None \<or> ?name = Some ''pull_request''" by argo
    then show ?thesis
    proof cases
      case 1
      then show ?thesis by (intro routes_still [where out = "WhSkipped SkipPing"]) (simp_all add: run safeCompare_def Let_def)
    next
      case 2
      then have "?run x = handleGithubInstallationEvent env ?v x" for x by (simp add: run safeCompare_def Let_def)
      then show ?thesis unfolding routes_def by blast
    next
      case 3
      then show ?thesis by (intro record_routes [where c = "github_comment env (the ?name) ?v"]) (auto simp: run safeCompare_def Let_def)
    next
      case 4
      then show ?thesis by (intro routes_still [where out = "WhSkipped SkipUnsupportedEvent"]) (auto simp: run safeCompare_def Let_def)
    next
      case 5
      then have "?run x = github_pull_event env hs ?v x" for x by (auto simp: run safeCompare_def Let_def)
      then have "?run = github_pull_event env hs ?v" by (rule ext)
      with github_pull_routes show ?thesis by metis
    qed
  qed
qed

lemma gitlab_event_routes:
  assumes "wr_provider repo = GITLAB"
  shows "routes env (gitlab_event env hs v repo) GITLAB (headerString hs ''x-gitlab-event-uuid'') db"
proof -
  let ?kind = "string_at v ''object_kind''"
  consider "?kind = ''note''" | "?kind \<noteq> ''note''" "?kind \<noteq> ''merge_request''"
    | "?kind = ''merge_request''" "\<not> isGitlabMergeRequestPayload v" | "?kind = ''merge_request''" "isGitlabMergeRequestPayload v" by blast
  then show ?thesis
  proof cases
    case 1
    then show ?thesis
      by (intro record_routes [where c = "if isGitlabNotePayload v then Some (fromGitlabNote (en_str env) (en_date env) v) else None"])
        (simp add: gitlab_event_def Let_def)
  next
    case 2
    then show ?thesis by (intro routes_still [where out = "WhSkipped SkipUnsupportedEvent"]) (simp_all add: gitlab_event_def Let_def)
  next
    case 3
    then show ?thesis by (intro routes_still [where out = "WhSkipped SkipMalformed"]) (simp_all add: gitlab_event_def Let_def)
  next
    case 4
    let ?action = "at2 v ''object_attributes'' ''action''"
    let ?ev = "\<lparr>ve_repository = repo, ve_deliveryId = headerString hs ''x-gitlab-event-uuid'',
      ve_targetBranch = opt_string (at2 v ''object_attributes'' ''target_branch''), ve_payload = v,
      ve_isScanTrigger = (?action = None \<or> ?action = Some (JString ''open'') \<or> ?action = Some (JString ''reopen'') \<or>
        ?action = Some (JString ''update'') \<and> at2 v ''object_attributes'' ''oldrev'' \<noteq> None)\<rparr>"
    from 4 have "gitlab_event env hs v repo x = processVerifiedEvent env ?ev x" for x by (simp add: gitlab_event_def Let_def)
    with assms show ?thesis unfolding routes_def by (intro disjI1 exI [of _ ?ev]) simp
  qed
qed

text \<open>The check of a GitLab secret: the token is the secret, the secret cannot be read, or it is refused.\<close>

lemma secret_cases:
  "(case a of None \<Rightarrow> R | Some e \<Rightarrow> if e = [] then R else (case f e of None \<Rightarrow> D
      | Some s \<Rightarrow> (case h of Some (HString t) \<Rightarrow> if length t = length s \<and> t = s then G else R | _ \<Rightarrow> R))) =
   (if \<exists>e t. a = Some e \<and> e \<noteq> [] \<and> f e = Some t \<and> h = Some (HString t) then G
    else if \<exists>e. a = Some e \<and> e \<noteq> [] \<and> f e = None then D else R)"
  by (auto split: option.splits header.splits)

lemma gitlab_routes: "routes env (handleGitlabEvent env rawBody hs) GITLAB (headerString hs ''x-gitlab-event-uuid'') db"
proof -
  let ?run = "handleGitlabEvent env rawBody hs" and ?v = "parseJsonBody (en_parse env) rawBody"
  have "(\<exists>r. (case r of Inr out \<Rightarrow> \<not> effective out | Inl _ \<Rightarrow> True) \<and> (\<forall>x. wd_repos x = wd_repos db \<longrightarrow> ?run x = (r, x))) \<or>
    (\<exists>repo. wr_provider repo = GITLAB \<and> (\<forall>x. wd_repos x = wd_repos db \<longrightarrow> ?run x = gitlab_event env hs ?v repo x))"
  proof (cases "isGitlabEventEnvelope ?v")
    case True
    show ?thesis
    proof (cases "find_repo GITLAB (prefixed_id (en_str env) [] (at2 ?v ''project'' ''id'')) db")
      case None
      from True show ?thesis by (intro disjI1 exI [of _ "Inr WhRejected"]) (simp add: handleGitlabEvent_def find_repo_same [OF None] Let_def)
    next
      case (Some repo)
      with find_SomeD [OF Some [unfolded find_repo_def]] have p: "wr_provider repo = GITLAB" by simp
      have run: "?run x = (if \<exists>e t. wr_secret repo = Some e \<and> e \<noteq> [] \<and> en_decrypt env e = Some t \<and>
            al_get hs ''x-gitlab-token'' = Some (HString t) then gitlab_event env hs ?v repo x
          else if \<exists>e. wr_secret repo = Some e \<and> e \<noteq> [] \<and> en_decrypt env e = None then (Inl ''decrypt'', x) else (Inr WhRejected, x))"
        if "wd_repos x = wd_repos db" for x
        unfolding handleGitlabEvent_def Let_def find_repo_same [OF Some that] safeCompare_def secret_cases [symmetric] using True by simp
      then show ?thesis
      proof (cases "\<exists>e t. wr_secret repo = Some e \<and> e \<noteq> [] \<and> en_decrypt env e = Some t \<and>
          al_get hs ''x-gitlab-token'' = Some (HString t)")
        case False
        let ?r = "if \<exists>e. wr_secret repo = Some e \<and> e \<noteq> [] \<and> en_decrypt env e = None then Inl ''decrypt'' else Inr WhRejected"
        have "?run x = (?r, x)" if "wd_repos x = wd_repos db" for x
          unfolding run [OF that] if_not_P [OF False] by simp
        then show ?thesis by (intro disjI1 exI [of _ ?r]) simp
      qed (use p run in auto)
    qed
  next
    case False
    then show ?thesis by (intro disjI1 exI [of _ "Inr (WhSkipped SkipMalformed)"]) (simp add: handleGitlabEvent_def Let_def)
  qed
  then show ?thesis
  proof
    assume "\<exists>repo. wr_provider repo = GITLAB \<and> (\<forall>x. wd_repos x = wd_repos db \<longrightarrow> ?run x = gitlab_event env hs ?v repo x)"
    then obtain repo where "wr_provider repo = GITLAB" "\<forall>x. wd_repos x = wd_repos db \<longrightarrow> ?run x = gitlab_event env hs ?v repo x" by blast
    with gitlab_event_routes [OF this(1), of env hs ?v db] routes_cong [of db ?run "gitlab_event env hs ?v repo"]
    show ?thesis by simp
  qed (simp add: routes_def)
qed

lemma routed_once:
  assumes "routes env run p (Some d) db" "en_redis env" "dedupeKey p d \<notin> set (wd_keys db)"
  shows "processed_once run (dedupeKey p d) db"
proof -
  obtain res db' where run: "run db = (res, db')" by fastforce
  from assms(1) show ?thesis unfolding routes_def
  proof (elim disjE exE conjE)
    fix ev assume ev: "ve_deliveryId ev = Some d" "wr_provider (ve_repository ev) = p"
      "\<forall>x. wd_repos x = wd_repos db \<longrightarrow> run x = processVerifiedEvent env ev x"
    with run have r: "processVerifiedEvent env ev db = (res, db')" by simp
    note once = verified_once [OF assms(2) ev(1), unfolded ev(2)]
    have repos: "wd_repos db' = wd_repos db" using process_verified_keeps(1) [where env = env and ev = ev and db = db] r by simp
    show ?thesis
      using once(1) [of db _ db'] once(2) [of db _ db'] once(3) ev(3) r repos by (cases res) (auto simp: processed_once_def run)
  next
    fix c assume c: "\<forall>x. wd_repos x = wd_repos db \<longrightarrow> run x = recordComment env p (Some (Some c)) (Some d) x"
    with run have r: "recordComment env p (Some (Some c)) (Some d) db = (res, db')" by simp
    note once = recorded_once [OF assms(2)]
    have repos: "wd_repos db' = wd_repos db"
      using record_comment_keeps(1) [where env = env and provider = p and c = "Some (Some c)" and d = "Some d" and db = db] r by simp
    show ?thesis
      using once(1) [of p c d db _ db'] once(2) [of p c d db _ db'] once(3) [of p d _ c] c r repos
      by (cases res) (auto simp: processed_once_def run)
  next
    fix v assume v: "\<forall>x. wd_repos x = wd_repos db \<longrightarrow> run x = handleGithubInstallationEvent env v x"
    with run have r: "handleGithubInstallationEvent env v db = (res, db')" by simp
    note keeps = installation_keeps [of env v db, unfolded r, simplified]
    have "\<exists>out. res = Inr out \<and> \<not> effective out"
      using r by (auto simp: handleGithubInstallationEvent_def set_installation_def Let_def split: if_splits record_entry.splits prod.splits)
    moreover have "snd (run db') = db'" using v keeps(1) installation_again [of env v db] r by simp
    ultimately show ?thesis using assms(3) keeps(2) by (auto simp: processed_once_def run)
  next
    fix r assume r: "case r of Inr out \<Rightarrow> \<not> effective out | Inl _ \<Rightarrow> True" "\<forall>x. wd_repos x = wd_repos db \<longrightarrow> run x = (r, x)"
    with assms(3) show ?thesis by (cases r) (simp_all add: processed_once_def)
  qed
qed


subsection \<open>What an event of a pull request does to its scans\<close>

lemma cancel_run_done: "cancel_run n up p w (CancelDone k) = (w, CancelDone k)"
  by (induction n) simp_all

lemma cancel_run_remove:
  "cancel_run (length js + n) True p w (CancelRemove ids js) = cancel_run n True p (fold remove_job js w) (CancelRemove ids [])"
  by (induction js arbitrary: w) simp_all

lemma cancel_alone:
  assumes "distinct (map sr_id (w_scans w))"
  shows "\<exists>n. cancelPending True pullId w = (cancelled pullId w, CancelDone n)"
proof (cases "in_flight_of w pullId")
  case Nil
  then show ?thesis by (simp add: cancelPending_def cancelled_nothing cancel_run_done eval_nat_numeral Let_def)
next
  case (Cons j js)
  let ?ids = "in_flight_of w pullId"
  have "length ?ids \<le> length (w_scans w)" by (simp add: in_flight_of_def)
  then obtain d where "length (w_scans w) = length ?ids + d" by (auto simp: le_iff_add)
  then have m: "length (w_scans w) + 4 = Suc (length ?ids + Suc (Suc (Suc d)))" by simp
  have "cancelPending True pullId w = cancel_run (length ?ids + Suc (Suc (Suc d))) True pullId w (CancelRemove ?ids ?ids)"
    using Cons by (simp add: cancelPending_def m Let_def)
  also have "\<dots> = cancel_run (Suc (Suc (Suc d))) True pullId (fold remove_job ?ids w) (CancelRemove ?ids [])"
    by (rule cancel_run_remove)
  also have "\<dots> = cancel_run (Suc (Suc d)) True pullId (fold remove_job ?ids w) (CancelUpdate ?ids)" by simp
  also have "\<dots> = (snd (supersede ?ids (fold remove_job ?ids w)), CancelDone (fst (supersede ?ids (fold remove_job ?ids w))))"
    by (simp add: cancel_run_done case_prod_beta)
  finally show ?thesis unfolding supersede_cancelled [OF assms] by blast
qed

lemma cancelled_scans: "w_scans (cancelled pullId w) = map (superseded pullId) (w_scans w)"
  by (simp add: cancelled_def)

lemma superseded_not_in_flight: "sr_pullId (superseded p s) = p \<Longrightarrow> \<not> in_flight (superseded p s)"
  by (cases "sr_pullId s = p \<and> in_flight s") (simp_all add: superseded_def, simp_all add: in_flight_def)

lemma superseded_none_in_flight: "filter (\<lambda>s. sr_pullId s = p \<and> in_flight s) (map (superseded p) xs) = []"
  using superseded_not_in_flight [of p] by (induction xs) simp_all

lemma cancelled_in_flight: "in_flight_of (cancelled pullId w) pullId = []"
  unfolding in_flight_of_def cancelled_scans superseded_none_in_flight by simp

lemma upsert_world:
  "w_scans (wd_world (snd (upsertFromWebhook env repo v db))) = w_scans (wd_world db)"
  "w_jobs (wd_world (snd (upsertFromWebhook env repo v db))) = w_jobs (wd_world db)"
  by (auto simp: upsertFromWebhook_def Let_def split: option.split provider_source.split)

text \<open>The outcome for a pull request that was stored: what the answer says is what its scans are.\<close>

definition settled :: "'s wh_env \<Rightarrow> verified_event \<Rightarrow> wh_pull \<Rightarrow> 's wh_db \<Rightarrow> webhook_outcome \<Rightarrow> 's wh_db \<Rightarrow> bool" where
  "settled env ev pull db out db' \<longleftrightarrow>
    (case out of
      WhPullClosed \<Rightarrow> wp_state pull \<noteq> PullOpen \<and> in_flight_of (wd_world db') (wp_id pull) = [] \<and>
        w_scans (wd_world db') = map (superseded (wp_id pull)) (w_scans (wd_world db))
    | WhSkipped _ \<Rightarrow> wp_state pull = PullOpen \<and> db' = db \<and>
        (\<not> ve_isScanTrigger ev \<or> wp_headSha pull = None \<or> wp_headSha pull = Some [])
    | WhScanEnqueued i dup \<Rightarrow> wp_state pull = PullOpen \<and> ve_isScanTrigger ev \<and>
        (\<exists>s \<in> set (w_scans (wd_world db')). sr_id s = i \<and> sr_pullId s = wp_id pull \<and> Some (sr_headSha s) = wp_headSha pull \<and>
          (if dup then db' = db \<and> sr_status s \<in> {ScanQueued, ScanRunning, ScanDone}
           else i = en_scanId env \<and> in_flight s)) \<and>
        (\<not> dup \<longrightarrow> in_flight_of (wd_world db') (wp_id pull) = [i] \<and> al_get (w_jobs (wd_world db')) i = Some JobWaiting)
    | _ \<Rightarrow> False)"

lemma in_flight_last:
  assumes "in_flight_of w p = [i]" "w_scans w = map (superseded p) xs @ [new]"
  shows "in_flight new \<and> sr_id new = i"
proof -
  have "in_flight_of w p = map sr_id (filter (\<lambda>s. sr_pullId s = p \<and> in_flight s) [new])"
    by (simp only: in_flight_of_def assms(2) filter_append superseded_none_in_flight append_Nil)
  with assms(1) show ?thesis by (cases "sr_pullId new = p \<and> in_flight new") simp_all
qed

lemma scan_pull_settles:
  assumes "en_up env" "en_scanId env \<notin> sr_id ` set (w_scans (wd_world db))" "al_get (w_jobs (wd_world db)) (en_scanId env) = None"
    "distinct (map sr_id (w_scans (wd_world db)))"
  shows "\<exists>out db'. scan_pull env ev pull db = (Inr out, db') \<and> settled env ev pull db out db'"
proof -
  consider "wp_state pull \<noteq> PullOpen" | "wp_state pull = PullOpen" "\<not> ve_isScanTrigger ev \<or> wp_headSha pull = None \<or> wp_headSha pull = Some []"
    | sha where "wp_state pull = PullOpen" "ve_isScanTrigger ev" "wp_headSha pull = Some sha" "sha \<noteq> []"
    by (cases "wp_headSha pull") auto
  then show ?thesis
  proof cases
    case 1
    obtain n where "cancelPending True (wp_id pull) (wd_world db) = (cancelled (wp_id pull) (wd_world db), CancelDone n)"
      using cancel_alone [OF assms(4)] by blast
    with 1 assms(1) show ?thesis by (simp add: scan_pull_def settled_def cancelled_in_flight cancelled_scans)
  next
    case 2
    then show ?thesis by (auto simp: scan_pull_def settled_def)
  next
    case 3
    let ?inp = "\<lparr>ei_organizationId = wr_organizationId (ve_repository ev), ei_repositoryId = wr_id (ve_repository ev),
      ei_pullId = wp_id pull, ei_headSha = sha, ei_trigger = TriggerWebhook, ei_full = False\<rparr>"
    obtain w ph where r: "enqueue (en_scanId env) True (wd_world db) ?inp = (w, ph)" by fastforce
    from 3 assms(1) r have run: "scan_pull env ev pull db = (case ph of PhReturned r \<Rightarrow> Inr (WhScanEnqueued (er_scanId r) (er_deduplicated r))
        | _ \<Rightarrow> Inl ''error'', db\<lparr>wd_world := w\<rparr>)" by (simp add: scan_pull_def)
    from enqueue_alone [OF assms(2-4) r] show ?thesis
    proof (elim disjE exE conjE)
      fix s assume s: "latestForSha (wd_world db) ?inp = Some s" "sr_status s \<in> {ScanQueued, ScanRunning, ScanDone}" "w = wd_world db"
        "ph = PhReturned \<lparr>er_scanId = sr_id s, er_status = sr_status s, er_deduplicated = True\<rparr>"
      with 3 latestForSha_in [OF s(1)] show ?thesis by (auto simp: run settled_def same_sha_def)
    next
      fix new assume n: "ph = PhReturned \<lparr>er_scanId = en_scanId env, er_status = ScanQueued, er_deduplicated = False\<rparr>"
        "in_flight_of w (ei_pullId ?inp) = [en_scanId env]" "al_get (w_jobs w) (en_scanId env) = Some JobWaiting"
        "w_scans w = map (superseded (ei_pullId ?inp)) (w_scans (wd_world db)) @ [new]" "same_sha ?inp new"
      then have "in_flight new \<and> sr_id new = en_scanId env" by (intro in_flight_last [OF n(2) n(4)])
      with 3 n show ?thesis by (simp add: run settled_def same_sha_def)
    qed
  qed
qed

lemma upsert_row:
  "upsertFromWebhook env repo v db = (Some pull, db') \<Longrightarrow> pull \<in> set (wd_pulls db') \<and> wp_repositoryId pull = wr_id repo"
  by (auto simp: upsertFromWebhook_def new_pull_def pull_matches_def Let_def
      dest!: find_SomeD split: option.splits provider_source.splits)

text \<open>C26: an event of a pull request leaves its scans as its answer says.  For a tracked target branch, with
  every service up, the event stores the pull request.  If that is closed or merged, none of its scans stays queued or running.
  If it is open, an event that calls for no scan, or has no head commit, changes nothing else; any other gets the scan of the
  head commit that is answered for: an existing one, queued, running or finished, or the new one, which then is the only
  one of the pull request in flight and has a job waiting.\<close>

theorem webhook_settles_pull:
  assumes "en_up env" "en_scanId env \<notin> sr_id ` set (w_scans (wd_world db))" "al_get (w_jobs (wd_world db)) (en_scanId env) = None"
    "distinct (map sr_id (w_scans (wd_world db)))"
    and target: "ve_targetBranch ev = Some b" "b \<noteq> []" "wr_branches (ve_repository ev) = Some bs" "b \<in> set bs"
    and stored: "upsertFromWebhook env (ve_repository ev) (ve_payload ev) db = (Some pull, db1)"
  shows "pull \<in> set (wd_pulls db1) \<and> wp_repositoryId pull = wr_id (ve_repository ev) \<and>
    (\<exists>out db'. process_event env ev db = (Inr out, db') \<and> settled env ev pull db1 out db')"
proof -
  have "process_event env ev db = scan_pull env ev pull db1" using target stored by (simp add: process_event_def)
  moreover have "w_scans (wd_world db1) = w_scans (wd_world db)" "w_jobs (wd_world db1) = w_jobs (wd_world db)"
    using upsert_world [of env "ve_repository ev" "ve_payload ev" db] stored by simp_all
  ultimately show ?thesis using scan_pull_settles [of env db1 ev pull] assms(1-4) upsert_row [OF stored] by simp
qed

subsection \<open>The states of an installation\<close>

fun installation_after :: "jstr \<Rightarrow> integration_state \<Rightarrow> integration_state" where
  "installation_after action st =
    (if action = ''deleted'' then IntUninstalled else if action = ''suspend'' then IntSuspended
     else if action = ''unsuspend'' \<and> st = IntSuspended then IntActive else st)"

text \<open>An installation moves only along its transitions.  An \<open>installation\<close> event writes the integrations of
  the GitHub installation it names and nothing else: \<open>deleted\<close> leaves them uninstalled, \<open>suspend\<close>
  suspended, \<open>unsuspend\<close> makes active only what is suspended, and no other action, one named like a
  property every object has included, changes a state.\<close>

theorem installation_transitions:
  assumes "isGithubInstallationPayload v"
  shows "snd (handleGithubInstallationEvent env v db) = db\<lparr>wd_integrations :=
    map (\<lambda>r. if wi_source r = GITHUB \<and> wi_installationId r = Some (prefixed_id (en_str env) [] (at2 v ''installation'' ''id''))
      then r\<lparr>wi_state := installation_after (string_at v ''action'') (wi_state r)\<rparr> else r) (wd_integrations db)\<rparr>"
proof -
  let ?i = "prefixed_id (en_str env) [] (at2 v ''installation'' ''id'')" and ?a = "string_at v ''action''"
  have row: "snd (handleGithubInstallationEvent env v db) = snd (set_installation ?i from_state (Some st) db)"
    if "map_of INSTALLATION_TRANSITIONS ?a = Some (st, from_state)" for st from_state
    using assms that by (simp add: handleGithubInstallationEvent_def transition_of_def Let_def)
  note rows = row [unfolded INSTALLATION_TRANSITIONS_def set_installation_exact transition_row_def]
  consider "?a = ''deleted''" | "?a = ''suspend''" | "?a = ''unsuspend''"
    | "?a \<noteq> ''deleted''" "?a \<noteq> ''suspend''" "?a \<noteq> ''unsuspend''" by argo
  then show ?thesis
  proof cases
    case 4
    then have still: "installation_after ?a st = st" for st by simp
    from 4 have "transition_of ?a = Inherited \<or> transition_of ?a = Absent"
      by (simp add: transition_of_def INSTALLATION_TRANSITIONS_def)
    then have "snd (handleGithubInstallationEvent env v db) = db"
      using assms by (auto simp: handleGithubInstallationEvent_def set_installation_exact Let_def cong: if_cong)
    moreover have id: "(if P then r\<lparr>wi_state := wi_state r\<rparr> else r) = r" for P and r :: wh_integration by simp
    ultimately show ?thesis unfolding still id by simp
  qed (simp_all add: rows cong: if_cong)
qed

subsection \<open>An example\<close>

definition demo_body :: json where
  "demo_body = JObject [(''action'', JString ''closed''), (''repository'', JObject [(''id'', JNumber 11)]),
    (''pull_request'', JObject [(''number'', JNumber 7), (''title'', JString ''t''), (''state'', JString ''closed''), (''merged'', JBool True),
      (''head'', JObject [(''ref'', JString ''f''), (''sha'', JString ''1'')]), (''base'', JObject [(''ref'', JString ''main'')])])]"

definition demo_env :: "jstr list wh_env" where
  "demo_env = \<lparr>en_parse = (\<lambda>s. if s = ''b'' then Some demo_body else None),
    en_str = (\<lambda>v. if v = JNumber 11 then ''11'' else ''7''), en_time = (\<lambda>_. None), en_date = (\<lambda>_. 0), en_decrypt = Some,
    en_signature = (\<lambda>_. ''sha256=0''), en_redis = True, en_up = True, en_pullId = ''p'', en_scanId = ''s'',
    en_ingest = (\<lambda>c s. (Inr IngestCreated, ib_providerCommentId c # s))\<rparr>"

definition demo_repo :: wh_repo where
  "demo_repo = \<lparr>wr_id = ''r'', wr_organizationId = ''o'', wr_provider = GITHUB, wr_externalId = ''11'', wr_secret = None,
    wr_branches = Some [''main'']\<rparr>"

definition demo_db :: "jstr list wh_db" where
  "demo_db = \<lparr>wd_repos = [demo_repo], wd_pulls = [], wd_policies = [],
    wd_integrations = [\<lparr>wi_organizationId = ''o'', wi_source = GITHUB, wi_installationId = Some ''7'', wi_state = IntUninstalled\<rparr>],
    wd_keys = [], wd_world = sample_world, wd_comments = []\<rparr>"

definition demo_headers :: "(jstr \<times> header) list" where
  "demo_headers = [(''x-hub-signature-256'', HString ''sha256=0''), (''x-github-event'', HString ''pull_request''),
    (''x-github-delivery'', HString ''d1'')]"

lemma webhooks_authenticated_witness: "snd (handleGithubEvent demo_env ''b'' [(''x-hub-signature-256'', HString ''sha256=1'')] demo_db) = demo_db"
  using webhooks_authenticated [of demo_env "''b''" "[(''x-hub-signature-256'', HString ''sha256=1'')]" demo_db]
  by (auto simp: demo_env_def)

lemma demo_delivery: "fst (handleGithubEvent demo_env ''b'' demo_headers demo_db) = Inr WhPullClosed"
  by code_simp


definition demo_event :: verified_event where
  "demo_event = \<lparr>ve_repository = demo_repo, ve_deliveryId = None, ve_targetBranch = Some ''main'', ve_payload = demo_body,
    ve_isScanTrigger = False\<rparr>"

lemma webhook_settles_pull_witness: "fst (process_event demo_env demo_event demo_db) = Inr WhPullClosed"
proof -
  obtain x db1 where u: "upsertFromWebhook demo_env demo_repo demo_body demo_db = (x, db1)" by fastforce
  have "map_option wp_state (fst (upsertFromWebhook demo_env demo_repo demo_body demo_db)) = Some PullMerged" by code_simp
  with u obtain pull where p: "x = Some pull" "wp_state pull = PullMerged" by auto
  obtain out db' where "process_event demo_env demo_event demo_db = (Inr out, db')" "settled demo_env demo_event pull db1 out db'"
    using webhook_settles_pull [of demo_env demo_db demo_event "''main''" "[''main'']" pull db1] u p(1)
    by (auto simp: demo_env_def demo_db_def demo_event_def demo_repo_def sample_world_def)
  with p(2) show ?thesis by (cases out) (simp_all add: settled_def)
qed

lemma installation_transitions_witness:
  "map wi_state (wd_integrations (snd (handleGithubInstallationEvent demo_env demo_installation demo_db))) = [IntSuspended]"
  using installation_transitions [of demo_installation demo_env demo_db]
  by (simp add: demo_installation_def demo_env_def demo_db_def isGithubInstallationPayload_def has_id_def record_at_def
      get_def at2_def prefixed_id_def string_at_def)

subsection \<open>Where a stored row comes from\<close>

text \<open>The rows a pull request event leaves: those of before, and rows with the fields the payload is mapped to.\<close>

definition row_of :: "wh_repo \<Rightarrow> mapped_pull \<Rightarrow> 's wh_db \<Rightarrow> wh_pull \<Rightarrow> bool" where
  "row_of repo m db p \<longleftrightarrow> wp_repositoryId p = wr_id repo \<and> wp_externalId p = mp_externalId m \<and> wp_title p = mp_title m \<and>
    wp_sourceBranch p = mp_sourceBranch m \<and> wp_headSha p = mp_headSha m \<and> wp_state p = mp_state m \<and>
    (wp_targetBranch p = mp_targetBranch m \<or> (\<exists>q \<in> set (wd_pulls db). wp_id q = wp_id p \<and> wp_targetBranch q = wp_targetBranch p))"

lemma upsert_rows:
  assumes "p \<in> set (wd_pulls (snd (upsertFromWebhook env repo v db)))"
  shows "p \<in> set (wd_pulls db) \<or> (\<exists>m. (case wr_provider repo of GITLAB \<Rightarrow> mapGitlabPayload env v | GITHUB \<Rightarrow> mapGithubPayload env v) = Some m \<and>
    row_of repo m db p)"
proof (cases "case wr_provider repo of GITLAB \<Rightarrow> mapGitlabPayload env v | GITHUB \<Rightarrow> mapGithubPayload env v")
  case (Some m)
  have new: "row_of repo m db (new_pull i repo policy m)" for i policy by (simp add: row_of_def new_pull_def)
  have old: "row_of repo m db (update_pull m q)" if "q \<in> set (wd_pulls db)" "pull_matches (wr_id repo) m q" for q
    using that by (auto simp: row_of_def update_pull_def pull_matches_def)
  show ?thesis using assms Some new old by (auto simp: upsertFromWebhook_def Let_def split: option.splits if_splits)
qed (use assms in \<open>simp add: upsertFromWebhook_def\<close>)

lemma process_rows:
  assumes "p \<in> set (wd_pulls (snd (process_event env ev db)))" "p \<notin> set (wd_pulls db)"
  shows "\<exists>m b bs. ve_targetBranch ev = Some b \<and> wr_branches (ve_repository ev) = Some bs \<and> b \<in> set bs \<and> b \<noteq> [] \<and>
    (case wr_provider (ve_repository ev) of GITLAB \<Rightarrow> mapGitlabPayload env (ve_payload ev) | GITHUB \<Rightarrow> mapGithubPayload env (ve_payload ev)) = Some m \<and>
    row_of (ve_repository ev) m db p"
proof -
  have "p \<in> set (wd_pulls (snd (upsertFromWebhook env (ve_repository ev) (ve_payload ev) db)))"
    "\<exists>b bs. ve_targetBranch ev = Some b \<and> wr_branches (ve_repository ev) = Some bs \<and> b \<in> set bs \<and> b \<noteq> []"
    using assms by (auto simp: process_event_def scan_pull_keeps split: option.splits if_splits prod.splits)
  with upsert_rows [of p env "ve_repository ev" "ve_payload ev" db] assms(2) show ?thesis by blast
qed

text \<open>What a claim changes is the keys.\<close>

lemma claimed_pulls:
  assumes "p \<in> set (wd_pulls (snd (claimed env provider deliveryId body db)))"
  shows "\<exists>k. p \<in> set (wd_pulls (snd (body (db\<lparr>wd_keys := k\<rparr>)))) \<or> p \<in> set (wd_pulls db)"
proof (cases deliveryId)
  case None
  then have "claimed env provider deliveryId body db = body (db\<lparr>wd_keys := wd_keys db\<rparr>)" by (simp add: claimed_def)
  with assms show ?thesis by metis
next
  case (Some d)
  let ?key = "dedupeKey provider d"
  obtain b db1 where c: "claimDelivery env ?key db = (b, db1)" by fastforce
  then have "db1 = db\<lparr>wd_keys := wd_keys db1\<rparr>" by (auto simp: claimDelivery_def split: if_splits)
  then obtain k where k: "db1 = db\<lparr>wd_keys := k\<rparr>" by blast
  show ?thesis
  proof (cases b)
    case True
    with Some c assms have "p \<in> set (wd_pulls (snd (body db1)))"
      by (auto simp: claimed_def release_def split: prod.splits sum.splits if_splits)
    with k show ?thesis by blast
  qed (use Some c k assms in \<open>auto simp: claimed_def\<close>)
qed

lemma verified_rows:
  assumes "p \<in> set (wd_pulls (snd (processVerifiedEvent env ev db)))" "p \<notin> set (wd_pulls db)"
  shows "\<exists>m b bs. ve_targetBranch ev = Some b \<and> wr_branches (ve_repository ev) = Some bs \<and> b \<in> set bs \<and> b \<noteq> [] \<and>
    (case wr_provider (ve_repository ev) of GITLAB \<Rightarrow> mapGitlabPayload env (ve_payload ev) | GITHUB \<Rightarrow> mapGithubPayload env (ve_payload ev)) = Some m \<and>
    row_of (ve_repository ev) m db p"
proof -
  obtain k where "p \<in> set (wd_pulls (snd (process_event env ev (db\<lparr>wd_keys := k\<rparr>))))"
    using claimed_pulls [OF assms(1) [unfolded processVerifiedEvent_def]] assms(2) by blast
  from process_rows [OF this] assms(2) show ?thesis by (simp add: row_of_def)
qed

text \<open>The fields of an accepted payload, as the mapping reads them.\<close>

lemma is_string_some: "is_string x \<Longrightarrow> \<exists>s. x = Some (JString s)"
  by (cases x; cases "the x") auto

lemma is_number_some: "is_number x \<Longrightarrow> \<exists>n. x = Some (JNumber n)"
  by (cases x; cases "the x") auto

lemma is_boolean_some: "is_boolean x \<Longrightarrow> \<exists>b. x = Some (JBool b)"
  by (cases x; cases "the x") auto

lemma absent_or_string: "absent_or x is_string \<Longrightarrow> x = map_option JString (opt_string x)"
  using is_string_some [of x] by (auto simp: absent_or_def)

lemma record_at_at2: "record_at v k (\<lambda>w. P (get w l)) \<Longrightarrow> P (at2 v k l)"
  by (auto simp: record_at_def at2_def split: option.splits)


lemma github_mapped:
  assumes "isGithubPullRequestPayload v" "mapGithubPayload env v = Some m"
  shows "\<exists>r n state merged. get v ''pull_request'' = Some r \<and> get r ''number'' = Some (JNumber n) \<and>
    mp_externalId m = en_str env (JNumber n) \<and> get r ''title'' = Some (JString (mp_title m)) \<and>
    at2 r ''head'' ''ref'' = Some (JString (mp_sourceBranch m)) \<and> at2 r ''base'' ''ref'' = Some (JString (mp_targetBranch m)) \<and>
    at2 r ''head'' ''sha'' = map_option JString (mp_headSha m) \<and> get r ''state'' = Some (JString state) \<and>
    get r ''merged'' = Some (JBool merged) \<and> mp_state m = mapGithubState state merged"
proof -
  obtain r where r: "get v ''pull_request'' = Some r" using assms(2) by (auto simp: mapGithubPayload_def split: option.splits)
  with assms(1) have g: "is_number (get r ''number'')" "is_string (get r ''title'')" "is_string (get r ''state'')" "is_boolean (get r ''merged'')"
    "record_at r ''head'' (\<lambda>h. is_string (get h ''ref''))" "record_at r ''head'' (\<lambda>h. absent_or (get h ''sha'') is_string)"
    "record_at r ''base'' (\<lambda>h. is_string (get h ''ref''))"
    by (auto simp: isGithubPullRequestPayload_def record_at_def split: option.splits)
  note at = record_at_at2 [where P = is_string, OF g(5)] record_at_at2 [where P = "\<lambda>x. absent_or x is_string", OF g(6)]
    record_at_at2 [where P = is_string, OF g(7)]
  obtain n title state merged ref target where
    f: "get r ''number'' = Some (JNumber n)" "get r ''title'' = Some (JString title)" "get r ''state'' = Some (JString state)"
      "get r ''merged'' = Some (JBool merged)" "at2 r ''head'' ''ref'' = Some (JString ref)" "at2 r ''base'' ''ref'' = Some (JString target)"
    using is_number_some [OF g(1)] is_string_some [OF g(2)] is_string_some [OF g(3)] is_boolean_some [OF g(4)]
      is_string_some [OF at(1)] is_string_some [OF at(3)] by blast
  show ?thesis
    using assms(2) r f absent_or_string [OF at(2)]
    by (auto simp: mapGithubPayload_def prefixed_id_def string_at_def)
qed

lemma gitlab_mapped:
  assumes "isGitlabMergeRequestPayload v" "mapGitlabPayload env v = Some m"
  shows "\<exists>r n state. get v ''object_attributes'' = Some r \<and> get r ''iid'' = Some (JNumber n) \<and>
    mp_externalId m = en_str env (JNumber n) \<and> get r ''title'' = Some (JString (mp_title m)) \<and>
    get r ''source_branch'' = Some (JString (mp_sourceBranch m)) \<and> get r ''target_branch'' = Some (JString (mp_targetBranch m)) \<and>
    at2 r ''last_commit'' ''id'' = map_option JString (mp_headSha m) \<and> get r ''state'' = Some (JString state) \<and>
    mp_state m = mapGitlabState state"
proof -
  obtain r where r: "get v ''object_attributes'' = Some r" using assms(2) by (auto simp: mapGitlabPayload_def split: option.splits)
  with assms(1) have g: "is_number (get r ''iid'')" "is_string (get r ''title'')" "is_string (get r ''state'')"
    "is_string (get r ''source_branch'')" "is_string (get r ''target_branch'')"
    "absent_or (at2 r ''last_commit'' ''id'') is_string"
    by (auto simp: isGitlabMergeRequestPayload_def record_at_def at2_def absent_or_def split: option.splits)
  obtain n title state ref target where
    f: "get r ''iid'' = Some (JNumber n)" "get r ''title'' = Some (JString title)" "get r ''state'' = Some (JString state)"
      "get r ''source_branch'' = Some (JString ref)" "get r ''target_branch'' = Some (JString target)"
    using is_number_some [OF g(1)] is_string_some [OF g(2)] is_string_some [OF g(3)] is_string_some [OF g(4)] is_string_some [OF g(5)] by blast
  show ?thesis
    using assms(2) r f absent_or_string [OF g(6)]
    by (auto simp: mapGitlabPayload_def prefixed_id_def string_at_def)
qed

text \<open>A row written for a GitHub or a GitLab event: of a connected repository with the id in the payload, for a target
  branch it tracks, with the number, title, source branch, head commit and state the payload gives, each found there with its
  type.  The target branch is the payload's where the row is new, and stays where there was one.\<close>

definition written_for :: "'s wh_db \<Rightarrow> wh_repo \<Rightarrow> jstr \<Rightarrow> wh_pull \<Rightarrow> bool" where
  "written_for db repo b p \<longleftrightarrow> repo \<in> set (wd_repos db) \<and> wp_repositoryId p = wr_id repo \<and>
    (\<exists>bs. wr_branches repo = Some bs \<and> b \<in> set bs) \<and>
    (wp_targetBranch p = b \<or> (\<exists>q \<in> set (wd_pulls db). wp_id q = wp_id p \<and> wp_targetBranch q = wp_targetBranch p))"

definition github_row :: "'s wh_env \<Rightarrow> 's wh_db \<Rightarrow> json \<Rightarrow> wh_pull \<Rightarrow> bool" where
  "github_row env db v p \<longleftrightarrow> (\<exists>repo b i r n state merged. written_for db repo b p \<and> wr_provider repo = GITHUB \<and>
    at2 v ''repository'' ''id'' = Some (JNumber i) \<and> wr_externalId repo = en_str env (JNumber i) \<and>
    get v ''pull_request'' = Some r \<and> get r ''number'' = Some (JNumber n) \<and> wp_externalId p = en_str env (JNumber n) \<and>
    get r ''title'' = Some (JString (wp_title p)) \<and> at2 r ''head'' ''ref'' = Some (JString (wp_sourceBranch p)) \<and>
    at2 r ''base'' ''ref'' = Some (JString b) \<and> at2 r ''head'' ''sha'' = map_option JString (wp_headSha p) \<and>
    get r ''state'' = Some (JString state) \<and> get r ''merged'' = Some (JBool merged) \<and> wp_state p = mapGithubState state merged)"

definition gitlab_row :: "'s wh_env \<Rightarrow> 's wh_db \<Rightarrow> json \<Rightarrow> wh_pull \<Rightarrow> bool" where
  "gitlab_row env db v p \<longleftrightarrow> (\<exists>repo b i r n state. written_for db repo b p \<and> wr_provider repo = GITLAB \<and>
    at2 v ''project'' ''id'' = Some (JNumber i) \<and> wr_externalId repo = en_str env (JNumber i) \<and>
    get v ''object_attributes'' = Some r \<and> get r ''iid'' = Some (JNumber n) \<and> wp_externalId p = en_str env (JNumber n) \<and>
    get r ''title'' = Some (JString (wp_title p)) \<and> get r ''source_branch'' = Some (JString (wp_sourceBranch p)) \<and>
    get r ''target_branch'' = Some (JString b) \<and> at2 r ''last_commit'' ''id'' = map_option JString (wp_headSha p) \<and>
    get r ''state'' = Some (JString state) \<and> wp_state p = mapGitlabState state)"

lemma has_id_some: "has_id v k \<Longrightarrow> \<exists>i. at2 v k ''id'' = Some (JNumber i)"
  using record_at_at2 [where P = is_number and v = v and k = k and l = "''id''"] is_number_some by (auto simp: has_id_def)

lemma github_pull_rows:
  assumes "p \<in> set (wd_pulls (snd (github_pull_event env hs v db)))" "p \<notin> set (wd_pulls db)"
  shows "github_row env db v p"
proof -
  have g: "isGithubPullRequestPayload v" using assms by (auto simp: github_pull_event_def split: if_splits)
  with assms obtain repo where repo: "find_repo GITHUB (prefixed_id (en_str env) [] (at2 v ''repository'' ''id'')) db = Some repo"
    by (auto simp: github_pull_event_def split: option.splits)
  define ev where "ev = \<lparr>ve_repository = repo, ve_deliveryId = headerString hs ''x-github-delivery'',
    ve_targetBranch = (case get v ''pull_request'' of None \<Rightarrow> None | Some p \<Rightarrow> opt_string (at2 p ''base'' ''ref'')),
    ve_payload = v, ve_isScanTrigger = (get v ''action'' = None \<or> string_at v ''action'' \<in> set GITHUB_SCAN_ACTIONS)\<rparr>"
  have ev: "ve_repository ev = repo" "ve_payload ev = v"
    "ve_targetBranch ev = (case get v ''pull_request'' of None \<Rightarrow> None | Some p \<Rightarrow> opt_string (at2 p ''base'' ''ref''))"
    by (simp_all add: ev_def)
  have p: "p \<in> set (wd_pulls (snd (processVerifiedEvent env ev db)))"
    using assms(1) g repo by (simp add: github_pull_event_def ev_def)
  note rp = find_SomeD [OF repo [unfolded find_repo_def]]
  have "has_id v ''repository''" using g by (simp add: isGithubPullRequestPayload_def)
  from has_id_some [OF this] obtain i where i: "at2 v ''repository'' ''id'' = Some (JNumber i)" by blast
  from verified_rows [OF p assms(2)] rp ev obtain m b bs where
    m: "ve_targetBranch ev = Some b" "wr_branches repo = Some bs" "b \<in> set bs" "mapGithubPayload env v = Some m" "row_of repo m db p"
    by auto
  from github_mapped [OF g m(4)] obtain r n state merged where
    r: "get v ''pull_request'' = Some r" "get r ''number'' = Some (JNumber n)" "mp_externalId m = en_str env (JNumber n)"
      "get r ''title'' = Some (JString (mp_title m))" "at2 r ''head'' ''ref'' = Some (JString (mp_sourceBranch m))"
      "at2 r ''base'' ''ref'' = Some (JString (mp_targetBranch m))" "at2 r ''head'' ''sha'' = map_option JString (mp_headSha m)"
      "get r ''state'' = Some (JString state)" "get r ''merged'' = Some (JBool merged)" "mp_state m = mapGithubState state merged" by blast
  have "b = mp_targetBranch m" using ev(3) m(1) r(1,6) by simp
  with m(2,3,5) rp have "written_for db repo b p" by (auto simp: written_for_def row_of_def)
  moreover have "wr_externalId repo = en_str env (JNumber i)" using rp i by (simp add: prefixed_id_def)
  ultimately show ?thesis
    unfolding github_row_def using i r rp m(5) \<open>b = mp_targetBranch m\<close> by (auto simp: row_of_def)
qed

lemma gitlab_event_rows:
  assumes "p \<in> set (wd_pulls (snd (gitlab_event env hs v repo db)))" "p \<notin> set (wd_pulls db)"
    and repo: "find_repo GITLAB (prefixed_id (en_str env) [] (at2 v ''project'' ''id'')) db = Some repo"
  shows "gitlab_row env db v p"
proof -
  let ?action = "at2 v ''object_attributes'' ''action''"
  define ev where "ev = \<lparr>ve_repository = repo, ve_deliveryId = headerString hs ''x-gitlab-event-uuid'',
    ve_targetBranch = opt_string (at2 v ''object_attributes'' ''target_branch''), ve_payload = v,
    ve_isScanTrigger = (?action = None \<or> ?action = Some (JString ''open'') \<or> ?action = Some (JString ''reopen'') \<or>
      ?action = Some (JString ''update'') \<and> at2 v ''object_attributes'' ''oldrev'' \<noteq> None)\<rparr>"
  have g: "isGitlabMergeRequestPayload v" and p: "p \<in> set (wd_pulls (snd (processVerifiedEvent env ev db)))"
    using assms(1,2) by (auto simp: gitlab_event_def record_comment_keeps Let_def ev_def split: if_splits)
  have ev: "ve_repository ev = repo" "ve_payload ev = v"
    "ve_targetBranch ev = opt_string (at2 v ''object_attributes'' ''target_branch'')"
    by (simp_all add: ev_def)
  note rp = find_SomeD [OF repo [unfolded find_repo_def]]
  have "has_id v ''project''" using g by (simp add: isGitlabMergeRequestPayload_def)
  from has_id_some [OF this] obtain i where i: "at2 v ''project'' ''id'' = Some (JNumber i)" by blast
  from verified_rows [OF p assms(2)] rp ev obtain m b bs where
    m: "ve_targetBranch ev = Some b" "wr_branches repo = Some bs" "b \<in> set bs" "mapGitlabPayload env v = Some m" "row_of repo m db p"
    by auto
  from gitlab_mapped [OF g m(4)] obtain r n state where
    r: "get v ''object_attributes'' = Some r" "get r ''iid'' = Some (JNumber n)" "mp_externalId m = en_str env (JNumber n)"
      "get r ''title'' = Some (JString (mp_title m))" "get r ''source_branch'' = Some (JString (mp_sourceBranch m))"
      "get r ''target_branch'' = Some (JString (mp_targetBranch m))" "at2 r ''last_commit'' ''id'' = map_option JString (mp_headSha m)"
      "get r ''state'' = Some (JString state)" "mp_state m = mapGitlabState state" by blast
  have "b = mp_targetBranch m" using ev(3) m(1) r(1,6) by (simp add: at2_def)
  with m(2,3,5) rp have "written_for db repo b p" by (auto simp: written_for_def row_of_def)
  moreover have "wr_externalId repo = en_str env (JNumber i)" using rp i by (simp add: prefixed_id_def)
  ultimately show ?thesis
    unfolding gitlab_row_def using i r rp m(5) \<open>b = mp_targetBranch m\<close> by (auto simp: row_of_def)
qed

lemma installation_pulls: "wd_pulls (snd (handleGithubInstallationEvent env v db)) = wd_pulls db"
  by (simp add: handleGithubInstallationEvent_def Let_def set_installation_exact split: record_entry.split prod.split)



end
