(* ===== verification/Scan_Serial.thy ===== *)
theory Scan_Serial
  imports Scan_Progress Webhook_Events
begin

section \<open>Requests one after another\<close>

text \<open>
  The system of \<open>Scan_Flow\<close> with its requests in sequence: a call of \<open>enqueue\<close> or \<open>cancelPending\<close> runs to its end before
  the next one starts, while the workers, their retries, stalls and crashes come in between in any order.  Then one scan of a
  pull request at most is queued or running.  Calls that overlap do not keep this (the last lemma): two of them can both have
  cancelled what was in flight before either creates its scan.
\<close>

subsection \<open>The runs\<close>

fun worker_thread :: "scan_thread \<Rightarrow> bool" where
  "worker_thread (Claim i) = True"
| "worker_thread (Run i) = True"
| "worker_thread (Failing i code) = True"
| "worker_thread t = False"

inductive served :: "flow \<Rightarrow> bool" where
  start: "served (empty_world orgs pulls, [])"
| call: "served (w, ts) \<Longrightarrow> i \<notin> sr_id ` set (w_scans w) \<Longrightarrow> enqueue i True w inp = (w', ph) \<Longrightarrow> served (w', ts)"
| cancelled: "served (w, ts) \<Longrightarrow> cancelPending True pullId w = (w', ph) \<Longrightarrow> served (w', ts)"
| worker: "served (w, ts) \<Longrightarrow> flow_step True (w, ts) (w', ts') \<Longrightarrow> list_all worker_thread ts' \<Longrightarrow> served (w', ts')"

subsection \<open>Calls as steps\<close>

text \<open>The id of a new row matters in the step that creates it only.\<close>

lemma enqueue_step_id: "(\<And>m. ph \<noteq> PhCreate m) \<Longrightarrow> enqueue_step i up w ctx ph = enqueue_step j up w ctx ph"
  by (cases "(i, up, w, ctx, ph)" rule: enqueue_step.cases) simp_all

fun created :: "phase \<Rightarrow> bool" where
  "created (PhAdd j) = True"
| "created (PhReturned r) = True"
| "created PhThrown = True"
| "created ph = False"

lemma cancel_step_ids:
  assumes "cancel_step up p w c = (w', c')"
  shows "sr_id ` set (w_scans w') = sr_id ` set (w_scans w)"
proof -
  have "w' = w \<or> (\<exists>j. w' = remove_job j w) \<or> (\<exists>ids. w' = snd (supersede ids w))"
    using assms by (cases "(up, p, w, c)" rule: cancel_step.cases) (auto simp: Let_def case_prod_beta split: if_splits)
  moreover have "map sr_id (w_scans (snd (supersede ids w))) = map sr_id (w_scans w)" for ids
    unfolding supersede_def update_scans_other by simp
  ultimately have "map sr_id (w_scans w') = map sr_id (w_scans w)" by auto
  from arg_cong [OF this, of set] show ?thesis by simp
qed

lemma enqueue_step_created:
  assumes "enqueue_step i True w ctx ph = (w', ctx', ph')" "created ph \<or> i \<notin> sr_id ` set (w_scans w)"
  shows "created ph' \<or> i \<notin> sr_id ` set (w_scans w')"
proof (cases ph)
  case (PhCancel c)
  from cancel_in_enqueue [OF assms(1) [unfolded PhCancel]] cancel_step_ids [of True "ei_pullId (ec_input ctx)" w]
  have "sr_id ` set (w_scans w') = sr_id ` set (w_scans w)" by metis
  with assms(2) PhCancel show ?thesis by simp
qed (use assms in \<open>auto simp: Let_def split: if_splits option.splits\<close>)

lemma enqueue_run_steps:
  assumes "enqueue_run n i True w ctx ph = (w', ctx', ph')" "created ph \<or> i \<notin> sr_id ` set (w_scans w)"
  shows "flow_steps True (w, as @ [Enqueue ctx ph]) (w', as @ [Enqueue ctx' ph'])"
  using assms
proof (induction n arbitrary: w ctx ph)
  case (Suc n)
  obtain w2 ctx2 ph2 where st: "enqueue_step i True w ctx ph = (w2, ctx2, ph2)" using prod_cases3 by blast
  obtain j where j: "j \<notin> sr_id ` set (w_scans w)" "enqueue_step j True w ctx ph = (w2, ctx2, ph2)"
  proof (cases "i \<in> sr_id ` set (w_scans w)")
    case True
    with Suc.prems(2) have "ph \<noteq> PhCreate m" for m by auto
    from enqueue_step_id [OF this] st have "enqueue_step j True w ctx ph = (w2, ctx2, ph2)" for j by metis
    with fresh_id [of w] that show ?thesis by blast
  qed (use st that in blast)
  have "flow_steps True (w2, as @ [Enqueue ctx2 ph2]) (w', as @ [Enqueue ctx' ph'])"
    by (rule Suc.IH) (use Suc.prems(1) st enqueue_step_created [OF st Suc.prems(2)] in simp_all)
  moreover from flow_step.enqueue [OF j(2,1), of True as "[]"]
  have "flow_step True (w, as @ [Enqueue ctx ph]) (w2, as @ [Enqueue ctx2 ph2])" by simp
  ultimately show ?case by (rule converse_rtranclp_into_rtranclp [rotated])
qed simp

text \<open>The call and its thread, which has nothing left to do when it has returned.\<close>

definition sound :: "flow \<Rightarrow> bool" where
  "sound f \<longleftrightarrow> flow_inv f \<and> attended (fst f) (snd f)"

lemma sound_steps: "flow_steps True f f' \<Longrightarrow> sound f \<Longrightarrow> sound f'"
  unfolding sound_def using flow_inv_steps attended_steps by metis

lemma sound_drop:
  assumes "sound (w, ts @ [t])" "adds t = []" "ends t = []"
  shows "sound (w, ts)"
  using assms thread_inv_drop(2) [of w ts t "[]" t] by (auto simp: sound_def flow_inv_def attended_def)

lemma sound_call:
  assumes "sound (w, ts)" "i \<notin> sr_id ` set (w_scans w)" "enqueue i True w inp = (w', PhReturned r)"
  shows "sound (w', ts)"
proof -
  obtain ctx where run: "enqueue_run (length (w_scans w) + 10) i True w (enqueue_call inp) PhLatest = (w', ctx, PhReturned r)"
    using assms(3) by (auto simp: enqueue_def split: prod.splits)
  have "flow_step True (w, ts) (w, ts @ [Enqueue (enqueue_call inp) PhLatest])" by (rule flow_step.request)
  moreover have "flow_steps True (w, ts @ [Enqueue (enqueue_call inp) PhLatest]) (w', ts @ [Enqueue ctx (PhReturned r)])"
    by (rule enqueue_run_steps [OF run]) (use assms(2) in simp)
  ultimately have "flow_steps True (w, ts) (w', ts @ [Enqueue ctx (PhReturned r)])" by (rule converse_rtranclp_into_rtranclp)
  from sound_drop [OF sound_steps [OF this assms(1)]] show ?thesis by simp
qed

lemma cancel_run_steps:
  "cancel_run n True p w c = (w', c') \<Longrightarrow> flow_steps True (w, as @ [Cancel p c]) (w', as @ [Cancel p c'])"
proof (induction n arbitrary: w c)
  case (Suc n)
  obtain w2 c2 where st: "cancel_step True p w c = (w2, c2)" by fastforce
  with flow_step.cancel [OF this, of True as "[]"]
  have "flow_step True (w, as @ [Cancel p c]) (w2, as @ [Cancel p c2])" by simp
  then show ?case using Suc st by (auto intro: converse_rtranclp_into_rtranclp)
qed simp

lemma sound_cancelled:
  assumes "sound (w, ts)"
  shows "sound (fst (cancelPending True p w), ts)" "fst (cancelPending True p w) = cancelled p w"
proof -
  have "distinct (map sr_id (w_scans w))" using assms by (simp add: sound_def flow_inv_def table_inv_def)
  from cancel_alone [OF this, of p] obtain n where run: "cancelPending True p w = (cancelled p w, CancelDone n)" by blast
  have "flow_step True (w, ts) (w, ts @ [Cancel p CancelRead])" by (rule flow_step.cancel_request)
  moreover have "flow_steps True (w, ts @ [Cancel p CancelRead]) (cancelled p w, ts @ [Cancel p (CancelDone n)])"
    by (rule cancel_run_steps) (use run in \<open>simp add: cancelPending_def\<close>)
  ultimately have "flow_steps True (w, ts) (cancelled p w, ts @ [Cancel p (CancelDone n)])" by (rule converse_rtranclp_into_rtranclp)
  from sound_drop [OF sound_steps [OF this assms]] run show "sound (fst (cancelPending True p w), ts)" by simp
  show "fst (cancelPending True p w) = cancelled p w" by (simp add: run)
qed

subsection \<open>At most one scan in flight\<close>

lemma in_flight_map:
  assumes "w_scans w' = map g (w_scans w)" "\<And>s. sr_pullId (g s) = sr_pullId s" "\<And>s. in_flight (g s) \<Longrightarrow> in_flight s"
  shows "length (in_flight_of w' p) \<le> length (in_flight_of w p)"
proof -
  have "length (filter (\<lambda>s. sr_pullId s = p \<and> in_flight s) (map g xs)) \<le> length (filter (\<lambda>s. sr_pullId s = p \<and> in_flight s) xs)" for xs
    using assms(2,3) by (induction xs) auto
  with assms(1) show ?thesis by (simp add: in_flight_of_def)
qed

lemma in_flight_update:
  assumes "w_scans w' = w_scans (snd (update_scans q g w))" "\<And>s. sr_pullId (g s) = sr_pullId s" "\<And>s. q s \<Longrightarrow> in_flight (g s) \<Longrightarrow> in_flight s"
  shows "length (in_flight_of w' p) \<le> length (in_flight_of w p)"
  by (rule in_flight_map [where g = "\<lambda>s. if q s then g s else s"]) (use assms in \<open>auto split: if_splits\<close>)

lemma in_flight_same: "w_scans w' = w_scans w \<Longrightarrow> length (in_flight_of w' p) \<le> length (in_flight_of w p)"
  by (simp add: in_flight_of_def)

lemma worker_in_flight:
  assumes "flow_step True (w, ts) (w', ts')" "list_all worker_thread ts'"
  shows "length (in_flight_of w' p) \<le> length (in_flight_of w p)"
  using assms(1)
proof (cases rule: flow_step.cases)
  case (claim i n as bs)
  then have "w_scans w' = w_scans (snd (update_scans (\<lambda>s. sr_id s = i \<and> in_flight s) (set_status ScanRunning) w))"
    by (metis claim_scan_def snd_conv)
  then show ?thesis by (rule in_flight_update) (simp_all add: set_status_def)
next
  case (skip i w2 as bs)
  then have "w_scans w' = w_scans (snd (update_scans (\<lambda>s. sr_id s = i \<and> in_flight s) (set_status ScanRunning) w))"
    by (metis claim_scan_def job_scans snd_conv)
  then show ?thesis by (rule in_flight_update) (simp_all add: set_status_def)
next
  case (force_pushed as i bs)
  then show ?thesis
    by (intro in_flight_update [where q = "\<lambda>s. sr_id s = i" and
        g = "\<lambda>s. s\<lparr>sr_mode := (sr_mode s)\<lparr>md_diffMode := DiffFull, md_fullReason := Some ForcePush, md_prevHeadSha := None\<rparr>\<rparr>"])
      (simp_all add: force_push_def in_flight_def)
next
  case (persist as i bs)
  then have "w_scans w' = w_scans (snd (update_scans (\<lambda>s. sr_id s = i \<and> sr_status s = ScanRunning)
      (\<lambda>s. s\<lparr>sr_status := ScanDone, sr_errorCode := None\<rparr>) w))" by (simp only: job_scans persist_scans)
  then show ?thesis by (rule in_flight_update) (simp_all add: in_flight_def)
next
  case (failed as i code bs)
  then have "w_scans w' = w_scans (snd (update_scans (\<lambda>s. sr_id s = i \<and> in_flight s)
      (\<lambda>s. s\<lparr>sr_status := ScanFailed, sr_errorCode := code\<rparr>) w))" by (simp only: fail_scans)
  then show ?thesis by (rule in_flight_update) (simp_all add: in_flight_def)
qed (use assms(2) in \<open>auto intro!: in_flight_same\<close>)

lemma in_flight_cancelled: "length (in_flight_of (cancelled p w) q) \<le> length (in_flight_of w q)"
  by (rule in_flight_map [OF cancelled_scans]) (auto simp: superseded_def in_flight_def split: if_splits)

text \<open>What holds between the calls.\<close>

definition one_each :: "flow \<Rightarrow> bool" where
  "one_each f \<longleftrightarrow> sound f \<and> list_all worker_thread (snd f) \<and> (\<forall>p. length (in_flight_of (fst f) p) \<le> 1)"

lemma one_each_fresh:
  assumes "one_each (w, ts)" "i \<notin> sr_id ` set (w_scans w)"
  shows "al_get (w_jobs w) i = None" "distinct (map sr_id (w_scans w))"
proof -
  have "table_inv w" using assms(1) by (simp add: one_each_def sound_def flow_inv_def)
  with table_inv_job_ids [OF this] assms(2) show "al_get (w_jobs w) i = None" "distinct (map sr_id (w_scans w))"
    by (auto simp: al_get_None table_inv_def)
qed

lemma in_flight_others:
  assumes "w_scans w' = map (superseded p) (w_scans w) @ [new]" "sr_pullId new = p" "q \<noteq> p"
  shows "length (in_flight_of w' q) \<le> length (in_flight_of w q)"
proof -
  have "in_flight_of w' q = in_flight_of (w\<lparr>w_scans := map (superseded p) (w_scans w)\<rparr>) q"
    using assms by (simp add: in_flight_of_def)
  also have "length \<dots> \<le> length (in_flight_of w q)"
    by (rule in_flight_map [where g = "superseded p"]) (auto simp: superseded_def in_flight_def split: if_splits)
  finally show ?thesis .
qed

lemma one_each_call:
  assumes one: "one_each (w, ts)" and i: "i \<notin> sr_id ` set (w_scans w)" and run: "enqueue i True w inp = (w', ph)"
  shows "one_each (w', ts)"
proof -
  note alone = enqueue_alone [OF i one_each_fresh [OF one i] run]
  then obtain r where "ph = PhReturned r" by blast
  with sound_call [of w ts i inp w' r] one i run have "sound (w', ts)" by (simp add: one_each_def)
  moreover have "length (in_flight_of w' p) \<le> 1" for p
    using alone
  proof (elim disjE exE conjE)
    assume "w' = w"
    then show ?thesis using one by (simp add: one_each_def)
  next
    fix new assume n: "in_flight_of w' (ei_pullId inp) = [i]" "w_scans w' = map (superseded (ei_pullId inp)) (w_scans w) @ [new]" "same_sha inp new"
    show ?thesis
    proof (cases "p = ei_pullId inp")
      case False
      with n have "length (in_flight_of w' p) \<le> length (in_flight_of w p)" by (intro in_flight_others) (auto simp: same_sha_def)
      also have "\<dots> \<le> 1" using one by (simp add: one_each_def)
      finally show ?thesis .
    qed (simp add: n(1))
  qed
  ultimately show ?thesis using one by (simp add: one_each_def)
qed

lemma served_one_each: "served f \<Longrightarrow> one_each f"
proof (induction rule: served.induct)
  case (start orgs pulls)
  have "flow_inv (empty_world orgs pulls, [])" by (rule flow_inv_reachable [of True]) (auto simp: reachable_def)
  moreover have "attended (empty_world orgs pulls) []" by (simp add: attended_def empty_world_def)
  ultimately show ?case by (simp add: one_each_def sound_def) (simp add: empty_world_def in_flight_of_def)
next
  case (call w ts i inp w' ph)
  show ?case by (rule one_each_call [OF call.IH call.hyps(2,3)])
next
  case (cancelled w ts p w' ph)
  then have "w' = fst (cancelPending True p w)" "sound (w, ts)" by (simp_all add: one_each_def)
  with sound_cancelled [of w ts p] have w': "w' = Scan_Queue.cancelled p w" "sound (w', ts)" by simp_all
  have "length (in_flight_of w' q) \<le> 1" for q
    using in_flight_cancelled [of p w q] cancelled.IH order_trans unfolding w'(1) one_each_def by force
  with w'(2) cancelled.IH show ?case by (simp add: one_each_def)
next
  case (worker w ts w' ts')
  then have "sound (w', ts')" using sound_steps [of "(w, ts)" "(w', ts')"] by (auto simp: one_each_def)
  with worker worker_in_flight [OF worker.hyps(2,3)] show ?case by (auto simp: one_each_def intro: order_trans)
qed

text \<open>The scans in flight, each with a job that is not over or with a worker about to record its failure.\<close>

definition well_served :: "world \<Rightarrow> scan_thread list \<Rightarrow> bool" where
  "well_served w ts \<longleftrightarrow> (\<forall>p. length (in_flight_of w p) \<le> 1) \<and>
    (\<forall>s \<in> set (w_scans w). in_flight s \<longrightarrow> job_live w (sr_id s) \<or> (\<exists>code. Failing (sr_id s) code \<in> set ts))"

lemma workers_end:
  assumes "list_all worker_thread ts" "j \<in> endset ts"
  shows "\<exists>code. Failing j code \<in> set ts"
proof -
  from assms obtain t where t: "t \<in> set ts" "j \<in> set (ends t)" "worker_thread t" by (auto simp: endset_def list_all_iff)
  from t(2,3) have "\<exists>code. t = Failing j code" by (cases t) simp_all
  with t(1) show ?thesis by blast
qed

lemma one_each_served: "one_each (w, ts) \<Longrightarrow> well_served w ts"
  unfolding one_each_def well_served_def sound_def attended_def by (auto dest: workers_end)



text \<open>Two calls for different commits that overlap: each has cancelled what was in flight, nothing, before the other creates
  its scan, and the pull request has two scans queued.\<close>

lemma overlapping_calls:
  "\<exists>w ts. reachable True (w, ts) \<and> in_flight_of w ''p'' = [''b'', ''a'']"
proof -
  let ?a = "enqueue_call (sample_push ''1'')" and ?b = "enqueue_call (sample_push ''2'')"
  obtain ctx where a1: "drive (replicate 3 (''x'', True)) no_world ?a PhLatest = Some (no_world, ctx, PhCancel (CancelDone 0))"
    "ctx = ?a\<lparr>ec_ruleTiers := ALL_RULE_TIERS\<rparr>"
    by (simp add: eval_nat_numeral run_defs Let_def)
  obtain wb ctxb where b: "drive (replicate 6 (''b'', True) @ [(''x'', True)]) no_world ?b PhLatest = Some (wb, ctxb, returned ''b'' False)"
    "wb = no_world\<lparr>w_scans := [new_scan ''b'' (sample_ctx\<lparr>ec_input := sample_push ''2''\<rparr>) first_mode], w_jobs := [(''b'', JobWaiting)]\<rparr>"
    by (simp add: eval_nat_numeral run_defs Let_def)
  obtain w ctx2 where a2: "drive (replicate 3 (''a'', True) @ [(''x'', True)]) wb ctx (PhCancel (CancelDone 0)) = Some (w, ctx2, returned ''a'' False)"
    "in_flight_of w ''p'' = [''b'', ''a'']"
    by (simp add: a1(2) b(2) eval_nat_numeral run_defs scan_key_def Let_def)
  have s1: "flow_steps True (no_world, []) (no_world, [Enqueue ?a PhLatest])"
    using flow_step.request [of True no_world "[]" "sample_push ''1''"] by auto
  have s2: "flow_steps True (no_world, [Enqueue ?a PhLatest]) (no_world, [Enqueue ctx (PhCancel (CancelDone 0))])"
    using drive_steps [OF a1(1), of True "[]" "[]"] by (simp add: list_all_iff)
  have s3: "flow_steps True (no_world, [Enqueue ctx (PhCancel (CancelDone 0))])
      (no_world, [Enqueue ctx (PhCancel (CancelDone 0)), Enqueue ?b PhLatest])"
    using flow_step.request [of True no_world "[Enqueue ctx (PhCancel (CancelDone 0))]" "sample_push ''2''"] by auto
  have s4: "flow_steps True (no_world, [Enqueue ctx (PhCancel (CancelDone 0)), Enqueue ?b PhLatest])
      (wb, [Enqueue ctx (PhCancel (CancelDone 0)), Enqueue ctxb (returned ''b'' False)])"
    using drive_steps [OF b(1), of True "[Enqueue ctx (PhCancel (CancelDone 0))]" "[]"] by (simp add: list_all_iff)
  have s5: "flow_steps True (wb, [Enqueue ctx (PhCancel (CancelDone 0)), Enqueue ctxb (returned ''b'' False)])
      (w, [Enqueue ctx2 (returned ''a'' False), Enqueue ctxb (returned ''b'' False)])"
    using drive_steps [OF a2(1), of True "[]" "[Enqueue ctxb (returned ''b'' False)]"] by (simp add: list_all_iff)
  from s1 rtranclp_trans [OF rtranclp_trans [OF rtranclp_trans [OF s2 s3] s4] s5]
  have "flow_steps True (no_world, []) (w, [Enqueue ctx2 (returned ''a'' False), Enqueue ctxb (returned ''b'' False)])"
    by (rule rtranclp_trans)
  then show ?thesis using a2(2) unfolding reachable_def no_world_def by blast
qed

end
