(* ===== verification/Comment_Sync.thy ===== *)
theory Comment_Sync
  imports Comments
begin

section \<open>What holds of comments\<close>

text \<open>
  The properties of the comments of \<open>Comments\<close>: threads stay flat under every interleaving, a comment
  sent to the code host never comes back as a copy, every copy ends, and a reader sees every comment
  once, in its thread.
\<close>

subsection \<open>Threads stay flat\<close>

text \<open>What never changes of a comment, and when such rows form flat threads.\<close>

definition fixed_part :: "pull_comment \<Rightarrow> jstr \<times> jstr option \<times> jstr \<times> placement" where
  "fixed_part c = (pc_id c, pc_parentId c, pc_pullId c, place c)"

definition flat_rows :: "(jstr \<times> jstr option \<times> jstr \<times> placement) list \<Rightarrow> bool" where
  "flat_rows rows \<longleftrightarrow> distinct (map fst rows) \<and> (\<forall>i r pl w. (i, Some r, pl, w) \<in> set rows \<longrightarrow> (r, None, pl, w) \<in> set rows)"

definition keys_unique :: "comment_db \<Rightarrow> bool" where
  "keys_unique db \<longleftrightarrow> (\<forall>c c' k. c \<in> set (cd_comments db) \<longrightarrow> c' \<in> set (cd_comments db) \<longrightarrow> pc_pullId c = pc_pullId c' \<longrightarrow>
     pc_providerCommentId c = Some k \<longrightarrow> pc_providerCommentId c' = Some k \<longrightarrow> pc_id c = pc_id c')"

definition comments_inv :: "comment_db \<Rightarrow> bool" where
  "comments_inv db \<longleftrightarrow> flat_rows (map fixed_part (cd_comments db)) \<and> keys_unique db"

lemma comments_inv_cong: "cd_comments db' = cd_comments db \<Longrightarrow> comments_inv db' = comments_inv db"
  by (simp only: comments_inv_def keys_unique_def)

lemma inv_key:
  "comments_inv db \<Longrightarrow> c \<in> set (cd_comments db) \<Longrightarrow> c' \<in> set (cd_comments db) \<Longrightarrow> pc_pullId c = pc_pullId c' \<Longrightarrow>
    pc_providerCommentId c = Some k \<Longrightarrow> pc_providerCommentId c' = Some k \<Longrightarrow> pc_id c = pc_id c'"
  unfolding comments_inv_def keys_unique_def by blast

lemma inv_distinct: "comments_inv db \<Longrightarrow> distinct (map pc_id (cd_comments db))"
  by (simp add: comments_inv_def flat_rows_def fixed_part_def comp_def)

lemma same_comment: "comments_inv db \<Longrightarrow> c \<in> set (cd_comments db) \<Longrightarrow> c' \<in> set (cd_comments db) \<Longrightarrow> pc_id c = pc_id c' \<Longrightarrow> c = c'"
  using inv_distinct by (auto simp: distinct_map inj_on_def)

lemma inv_root:
  assumes "comments_inv db" "c \<in> set (cd_comments db)" "pc_parentId c = Some r"
  obtains t where "t \<in> set (cd_comments db)" "pc_id t = r" "pc_parentId t = None" "pc_pullId t = pc_pullId c" "place t = place c"
proof -
  have "(pc_id c, Some r, pc_pullId c, place c) \<in> set (map fixed_part (cd_comments db))"
    using assms(2,3) by (force simp: fixed_part_def)
  then have "(r, None, pc_pullId c, place c) \<in> set (map fixed_part (cd_comments db))"
    using assms(1) unfolding comments_inv_def flat_rows_def by blast
  then show thesis using that by (auto simp: fixed_part_def)
qed

lemma find_commentD: "find_comment db i = Some c \<Longrightarrow> c \<in> set (cd_comments db) \<and> pc_id c = i"
  unfolding find_comment_def by (rule find_SomeD)

lemma root_ofD:
  assumes "comments_inv db" "c \<in> set (cd_comments db)" "root_of db c = Some t"
  shows "t \<in> set (cd_comments db)" "pc_parentId t = None" "pc_pullId t = pc_pullId c"
proof -
  have "t \<in> set (cd_comments db) \<and> pc_parentId t = None \<and> pc_pullId t = pc_pullId c"
  proof (cases "pc_parentId c")
    case None
    with assms show ?thesis by (simp add: root_of_def)
  next
    case (Some r)
    from inv_root [OF assms(1,2) Some] obtain t' where t': "t' \<in> set (cd_comments db)" "pc_id t' = r"
      "pc_parentId t' = None" "pc_pullId t' = pc_pullId c" by blast
    with same_comment [OF assms(1) t'(1) assms(2)] Some have "r \<noteq> pc_id c" by auto
    with Some assms(3) have "find_comment db r = Some t" by (simp add: root_of_def)
    from find_commentD [OF this] have f: "t \<in> set (cd_comments db)" "pc_id t = r" by auto
    have "t = t'" by (rule same_comment [OF assms(1) f(1) t'(1)]) (simp add: f t')
    with t' show ?thesis by simp
  qed
  then show "t \<in> set (cd_comments db)" "pc_parentId t = None" "pc_pullId t = pc_pullId c" by auto
qed

text \<open>A new row that replies to a root of its pull request, in the root's place.\<close>

definition joins :: "comment_db \<Rightarrow> pull_comment \<Rightarrow> bool" where
  "joins db c \<longleftrightarrow> (\<forall>r. pc_parentId c = Some r \<longrightarrow>
     (\<exists>t \<in> set (cd_comments db). pc_id t = r \<and> pc_parentId t = None \<and> pc_pullId t = pc_pullId c \<and> place t = place c))"

lemma add_comment_inv:
  assumes "comments_inv db" "pc_id c \<notin> pc_id ` set (cd_comments db)" "joins db c"
    and "\<forall>k. pc_providerCommentId c = Some k \<longrightarrow> known_comment (pc_pullId c) k db = None"
  shows "comments_inv (add_comment c db)"
proof -
  let ?rows = "map fixed_part (cd_comments db)"
  have "fst ` set ?rows = pc_id ` set (cd_comments db)" by (force simp: fixed_part_def)
  moreover have "(r, None, pc_pullId c, place c) \<in> set ?rows" if "pc_parentId c = Some r" for r
    using assms(3) that unfolding joins_def fixed_part_def by force
  ultimately have "flat_rows (?rows @ [fixed_part c])"
    using assms(1,2) unfolding comments_inv_def flat_rows_def by (auto simp: fixed_part_def [of c])
  moreover have "keys_unique (add_comment c db)"
    unfolding keys_unique_def
  proof (intro allI impI)
    fix a b k
    assume ab: "a \<in> set (cd_comments (add_comment c db))" "b \<in> set (cd_comments (add_comment c db))" "pc_pullId a = pc_pullId b"
      "pc_providerCommentId a = Some k" "pc_providerCommentId b = Some k"
    have free: "x \<notin> set (cd_comments db)" if "pc_pullId x = pc_pullId c" "pc_providerCommentId x = Some k'" "pc_providerCommentId c = Some k'" for x k'
      using assms(4) that by (auto simp: known_comment_def find_None_iff)
    from ab consider "a = c" "b = c" | "a \<in> set (cd_comments db)" "b \<in> set (cd_comments db)"
      | "a = c" "b \<in> set (cd_comments db)" | "b = c" "a \<in> set (cd_comments db)" by (auto simp: add_comment_def)
    then show "pc_id a = pc_id b"
    proof cases
      case 2
      with ab(3-5) assms(1) inv_key show ?thesis by blast
    qed (use ab free in auto)
  qed
  ultimately show ?thesis by (simp add: comments_inv_def add_comment_def)
qed

text \<open>An update that keeps the fixed part, and either the key or a key that is free.\<close>

lemma update_comments_inv:
  assumes "comments_inv db" "\<And>c. fixed_part (g c) = fixed_part c"
    and "(\<forall>c. pc_providerCommentId (g c) = pc_providerCommentId c) \<or>
      (\<exists>i k. (\<forall>c. p c \<longrightarrow> pc_id c = i) \<and> (\<forall>c. pc_providerCommentId (g c) = Some k) \<and> \<not> id_taken p k db)"
  shows "comments_inv (snd (update_comments p g db))"
proof -
  let ?u = "\<lambda>c. if p c then g c else c"
  have fixed: "fixed_part (?u c) = fixed_part c" for c by (simp add: assms(2))
  then have "map fixed_part (map ?u cs) = map fixed_part cs" for cs by simp
  then have flat: "flat_rows (map fixed_part (map ?u (cd_comments db)))"
    using assms(1) unfolding comments_inv_def by metis
  have parts: "pc_id (?u c) = pc_id c" "pc_pullId (?u c) = pc_pullId c" for c
    using fixed [of c] unfolding fixed_part_def by simp_all
  have "pc_id c = pc_id c'"
    if c: "c \<in> set (cd_comments db)" "c' \<in> set (cd_comments db)" "pc_pullId c = pc_pullId c'"
      "pc_providerCommentId (?u c) = Some k" "pc_providerCommentId (?u c') = Some k" for c c' k
    using assms(3)
  proof
    assume "\<forall>c. pc_providerCommentId (g c) = pc_providerCommentId c"
    with c(4,5) have "pc_providerCommentId c = Some k" "pc_providerCommentId c' = Some k" by (auto split: if_splits)
    with inv_key [OF assms(1) c(1-3)] show ?thesis by blast
  next
    assume "\<exists>i k. (\<forall>c. p c \<longrightarrow> pc_id c = i) \<and> (\<forall>c. pc_providerCommentId (g c) = Some k) \<and> \<not> id_taken p k db"
    then obtain i n where n: "\<And>c. p c \<Longrightarrow> pc_id c = i" "\<And>c. pc_providerCommentId (g c) = Some n" "\<not> id_taken p n db" by blast
    consider "p c" "p c'" | "\<not> p c" "\<not> p c'" | "p c" "\<not> p c'" | "\<not> p c" "p c'" by blast
    then show ?thesis
    proof cases
      case 2
      with inv_key [OF assms(1) c(1-3)] c(4,5) show ?thesis by simp
    next
      case 3
      with n(3) c(1,2) have "\<not> (pc_pullId c' = pc_pullId c \<and> pc_providerCommentId c' = Some n)" unfolding id_taken_def by blast
      with c(3-5) n(2) 3 show ?thesis by simp
    next
      case 4
      with n(3) c(1,2) have "\<not> (pc_pullId c = pc_pullId c' \<and> pc_providerCommentId c = Some n)" unfolding id_taken_def by blast
      with c(3-5) n(2) 4 show ?thesis by simp
    qed (use n(1) in simp)
  qed
  note unique = this
  have upd: "cd_comments (snd (update_comments p g db)) = map ?u (cd_comments db)" by (simp add: update_comments_def)
  have "keys_unique (snd (update_comments p g db))"
    unfolding keys_unique_def upd
  proof (intro allI impI)
    fix a b k
    assume ab: "a \<in> set (map ?u (cd_comments db))" "b \<in> set (map ?u (cd_comments db))" "pc_pullId a = pc_pullId b"
      "pc_providerCommentId a = Some k" "pc_providerCommentId b = Some k"
    then obtain c c' where c: "c \<in> set (cd_comments db)" "a = ?u c" "c' \<in> set (cd_comments db)" "b = ?u c'"
      unfolding set_map by blast
    have "pc_pullId c = pc_pullId c'" using ab(3) unfolding c(2,4) parts .
    from unique [OF c(1,3) this ab(4,5) [unfolded c(2,4)]] show "pc_id a = pc_id b" unfolding c(2,4) parts .
  qed
  with flat show ?thesis unfolding comments_inv_def upd by simp
qed

lemma set_copy_fixed [simp]: "fixed_part (set_copy st e c) = fixed_part c" "pc_providerCommentId (set_copy st e c) = pc_providerCommentId c"
  by (simp_all add: set_copy_def fixed_part_def place_def)

lemma set_copy_inv: "comments_inv db \<Longrightarrow> comments_inv (snd (update_comments p (set_copy st e) db))"
  by (rule update_comments_inv) simp_all

subsection \<open>Every operation keeps the threads\<close>

lemma create_checkD:
  assumes "comments_inv db" "create_check newId now organizationId repositoryId pullId actor dto db = Inr c"
  shows "pc_id c = newId" "pc_providerCommentId c = None" "joins db c"
proof -
  from assms(2) obtain pull parentId w where
    p: "create_place db pull pullId dto = Inr (parentId, w)" and
    c: "pc_id c = newId" "pc_providerCommentId c = None" "pc_parentId c = parentId" "place c = w" "pc_pullId c = pullId"
    by (auto simp: create_check_def place_def split: sum.splits if_splits)
  show "pc_id c = newId" "pc_providerCommentId c = None" by (rule c)+
  show "joins db c"
  proof (cases parentId)
    case (Some r)
    with p obtain parent t where t: "find_comment db (the (cc_parentId dto)) = Some parent" "pc_pullId parent = pullId"
      "root_of db parent = Some t" "r = pc_id t" "w = place t"
      by (auto simp: create_place_def split: if_splits option.splits)
    from find_commentD [OF t(1)] have "parent \<in> set (cd_comments db)" by blast
    from root_ofD [OF assms(1) this t(3)] t c Some show ?thesis by (auto simp: joins_def)
  qed (simp add: joins_def c)
qed

lemma resolveThreadD:
  assumes "comments_inv db" "resolveThread pullId ev db = Some (Some r, w, k)"
  obtains t where "t \<in> set (cd_comments db)" "pc_id t = r" "pc_parentId t = None" "pc_pullId t = pullId" "place t = w"
proof -
  from assms(2) obtain key anchor t where t: "anchor_of pullId key db = Some anchor" "root_of db anchor = Some t" "r = pc_id t" "w = place t"
    by (auto simp: resolveThread_def Let_def split: if_splits option.splits)
  from find_SomeD [OF t(1) [unfolded anchor_of_def]] have "anchor \<in> set (cd_comments db)" "pc_pullId anchor = pullId" by auto
  with root_ofD [OF assms(1) _ t(2)] t that show thesis by blast
qed

lemma ingest_new_fields:
  "pc_id (ingest_new newId ev repo pull (parentId, w, k)) = newId"
  "pc_parentId (ingest_new newId ev repo pull (parentId, w, k)) = parentId"
  "pc_pullId (ingest_new newId ev repo pull (parentId, w, k)) = pq_id pull"
  "place (ingest_new newId ev repo pull (parentId, w, k)) = w"
  "pc_providerCommentId (ingest_new newId ev repo pull (parentId, w, k)) = Some (ib_providerCommentId ev)"
  by (simp_all add: ingest_new_def place_def split: prod.split)

lemma ingest_unknown_inv:
  assumes "comments_inv db" "newId \<notin> pc_id ` set (cd_comments db)" "known_comment (pq_id pull) (ib_providerCommentId ev) db = None"
  shows "comments_inv (snd (ingest_unknown newId ev repo pull db))"
proof (cases "markerOf (ib_body ev)")
  case None
  have "comments_inv (add_comment (ingest_new newId ev repo pull thread) db)"
    if thread: "resolveThread (pq_id pull) ev db = Some thread" for thread
  proof -
    obtain parentId w k where t: "thread = (parentId, w, k)" by (cases thread)
    have "joins db (ingest_new newId ev repo pull (parentId, w, k))"
    proof (cases parentId)
      case (Some r)
      with resolveThreadD [OF assms(1)] thread t show ?thesis unfolding joins_def ingest_new_fields by (metis option.inject)
    qed (simp add: joins_def ingest_new_fields)
    with assms show ?thesis unfolding t by (intro add_comment_inv) (simp_all add: ingest_new_fields)
  qed
  with None assms(1) show ?thesis by (simp add: ingest_unknown_def split: option.split)
next
  case (Some ownId)
  let ?g = "\<lambda>c. c\<lparr>pc_providerCommentId := Some (ib_providerCommentId ev)\<rparr>"
  have "comments_inv (set_comment ownId ?g db)"
    if own: "find_comment db ownId = Some own" "pc_pullId own = pq_id pull" for own
  proof -
    from find_commentD [OF own(1)] have o: "own \<in> set (cd_comments db)" "pc_id own = ownId" by auto
    have "\<not> id_taken (\<lambda>c. pc_id c = ownId) (ib_providerCommentId ev) db"
    proof
      assume "id_taken (\<lambda>c. pc_id c = ownId) (ib_providerCommentId ev) db"
      then obtain c c' where "c \<in> set (cd_comments db)" "pc_id c = ownId" "c' \<in> set (cd_comments db)"
        "pc_pullId c' = pc_pullId c" "pc_providerCommentId c' = Some (ib_providerCommentId ev)"
        unfolding id_taken_def by blast
      with same_comment [OF assms(1) this(1) o(1)] o(2) own(2) assms(3) show False
        by (auto simp: known_comment_def find_None_iff)
    qed
    then show ?thesis unfolding set_comment_def
      by (intro update_comments_inv [OF assms(1)]) (auto simp: fixed_part_def place_def)
  qed
  with Some assms(1) find_commentD show ?thesis by (fastforce simp: ingest_unknown_def split: option.split)
qed

lemma set_comment_inv:
  "comments_inv db \<Longrightarrow> (\<And>c. fixed_part (g c) = fixed_part c) \<Longrightarrow> (\<And>c. pc_providerCommentId (g c) = pc_providerCommentId c) \<Longrightarrow>
    comments_inv (set_comment i g db)"
  unfolding set_comment_def by (rule update_comments_inv) simp_all

lemma ingest_inv:
  assumes "comments_inv db" "newId \<notin> pc_id ` set (cd_comments db)"
  shows "comments_inv (snd (ingest newId now ev db))"
  using assms ingest_unknown_inv [OF assms]
  by (auto simp: ingest_def Let_def fixed_part_def place_def intro!: set_comment_inv split: option.split)

lemma settle_comment_inv:
  assumes "comments_inv db"
  shows "comments_inv (snd (settle_comment i outcome db))"
proof (cases outcome)
  case (Inl e)
  with assms show ?thesis by (cases e) (simp add: settle_comment_def set_copy_inv)
next
  case (Inr ids)
  let ?p = "\<lambda>c. pc_id c = i \<and> pc_syncStatus c = Some SyncPending"
  have "comments_inv (snd (update_comments ?p (synced_copy ids) db))" if "\<not> id_taken ?p (fst ids) db"
    by (rule update_comments_inv [OF assms]) (use that in \<open>auto simp: synced_copy_def set_copy_def fixed_part_def place_def\<close>)
  with Inr assms show ?thesis by (simp add: settle_comment_def Let_def)
qed

text \<open>The steps of the system: requests, claims of retries, jobs that write what the host answered, and
  webhooks, in any order; the other tables are anyone's.\<close>

inductive comment_step :: "comment_db \<Rightarrow> comment_db \<Rightarrow> bool" where
  created: "create_check newId now organizationId repositoryId pullId actor dto db = Inr c \<Longrightarrow>
    newId \<notin> pc_id ` set (cd_comments db) \<Longrightarrow> comment_step db (add_comment c db)"
| enqueued: "comment_step db (snd (enqueue_comment queueUp c db))"
| retried: "comment_step db (snd (retry_comment_claim i db))"
| settled: "comment_step db (snd (settle_comment i outcome db))"
| ingested: "newId \<notin> pc_id ` set (cd_comments db) \<Longrightarrow> comment_step db (snd (ingest newId now ev db))"
| other: "comment_step db (db\<lparr>cd_pulls := pulls, cd_repos := repos, cd_users := users, cd_jobs := jobs\<rparr>)"

lemma comment_step_inv: "comment_step db db' \<Longrightarrow> comments_inv db \<Longrightarrow> comments_inv db'"
proof (induction rule: comment_step.induct)
  case (created newId now organizationId repositoryId pullId actor dto db c)
  from create_checkD [OF created.prems created.hyps(1)] created show ?case by (intro add_comment_inv) auto
next
  case (enqueued db queueUp c)
  then show ?case by (simp add: enqueue_comment_def set_copy_inv comments_inv_cong [of "db\<lparr>cd_jobs := _\<rparr>" db])
next
  case (other db pulls repos users jobs)
  then show ?case by (subst comments_inv_cong [of _ db]) simp_all
qed (simp_all add: retry_comment_claim_def set_copy_inv settle_comment_inv ingest_inv)

lemma comments_reachable:
  assumes "comment_step\<^sup>*\<^sup>* db db'" "cd_comments db = []"
  shows "comments_inv db'"
  using assms(1)
proof (induction rule: rtranclp_induct)
  case base
  show ?case by (simp add: comments_inv_def flat_rows_def keys_unique_def assms(2))
qed (rule comment_step_inv)

text \<open>Threads stay flat.  However comments written in Critiq, jobs, retries and webhooks interleave, every
  reply belongs to a comment of the same pull request that is itself no reply, and lies where that comment lies;
  and no two comments of a pull request stand for the same comment of the code host.\<close>

theorem threads_stay_flat:
  assumes "comment_step\<^sup>*\<^sup>* db db'" "cd_comments db = []" "c \<in> set (cd_comments db')"
  shows "(\<forall>r. pc_parentId c = Some r \<longrightarrow> (\<exists>t \<in> set (cd_comments db'). pc_id t = r \<and> pc_parentId t = None \<and>
      pc_pullId t = pc_pullId c \<and> pc_kind t = pc_kind c \<and> pc_path t = pc_path c \<and> pc_line t = pc_line c \<and>
      pc_side t = pc_side c \<and> pc_headSha t = pc_headSha c)) \<and>
    (\<forall>c' \<in> set (cd_comments db'). pc_pullId c' = pc_pullId c \<and> pc_providerCommentId c' = pc_providerCommentId c \<and>
      pc_providerCommentId c \<noteq> None \<longrightarrow> c' = c)"
proof -
  note inv = comments_reachable [OF assms(1,2)]
  have "\<exists>t \<in> set (cd_comments db'). pc_id t = r \<and> pc_parentId t = None \<and> pc_pullId t = pc_pullId c \<and> place t = place c"
    if "pc_parentId c = Some r" for r
    using inv_root [OF inv assms(3) that] by blast
  moreover have "c' = c" if "c' \<in> set (cd_comments db')" "pc_pullId c' = pc_pullId c"
    "pc_providerCommentId c' = pc_providerCommentId c" "pc_providerCommentId c \<noteq> None" for c'
    using inv_key [OF inv that(1) assms(3) that(2)] same_comment [OF inv that(1) assms(3)] that(3,4) by auto
  ultimately show ?thesis by (fastforce simp: place_def)
qed
subsection \<open>No copy of one's own comment\<close>

text \<open>What a comment of Critiq is sent as, and the forms in which a webhook may bring it back.\<close>

definition sent_as :: "jstr \<Rightarrow> jstr option \<Rightarrow> pull_comment \<Rightarrow> jstr" where
  "sent_as authorName quote c = providerBody authorName (pc_body c) (pc_id c) quote"

text \<open>What marks a comment: parts without \<open><!--\<close> and carriage returns, and an id of letters and digits.\<close>

definition sendable :: "jstr \<Rightarrow> jstr option \<Rightarrow> pull_comment \<Rightarrow> bool" where
  "sendable authorName quote c \<longleftrightarrow> plain authorName \<and> plain (pc_body c) \<and> (\<forall>q. quote = Some q \<longrightarrow> plain q) \<and>
    pc_id c \<noteq> [] \<and> (\<forall>x \<in> set (pc_id c). is_alnum x)"

text \<open>What the framing can be told from: a name with a character and no asterisk, and a text that is trimmed.\<close>

definition framed :: "jstr \<Rightarrow> pull_comment \<Rightarrow> bool" where
  "framed authorName c \<longleftrightarrow> authorName \<noteq> [] \<and> CHR ''*'' \<notin> set authorName \<and> trim (pc_body c) = pc_body c"

lemma sendable_marked:
  assumes "sendable authorName quote c" "s = sent_as authorName quote c \<or> s = lf_to_crlf (sent_as authorName quote c)"
  shows "markerOf s = Some (pc_id c)"
  using assms sent_text(2,4) [of authorName "pc_body c" quote "pc_id c"] unfolding sendable_def sent_as_def by auto

lemma sendable_back:
  assumes "sendable authorName quote c" "framed authorName c"
    and "s = sent_as authorName quote c \<or> s = lf_to_crlf (sent_as authorName quote c)"
  shows "stripCritiqFraming (quotes quote) s = pc_body c"
  using assms sent_round_trip [of authorName "pc_body c" quote "pc_id c"]
  unfolding sendable_def framed_def sent_as_def by auto

text \<open>C14: no copy of one's own comment.  Let the code host report (not as deleted) a comment that Critiq sent, as created or
  as edited without a change of its text, with its own line endings or with CRLF.  Let the author's name, the text and
  the quoted thread have no \<open><!--\<close> and no carriage return, which would disturb the marker, and let no other comment have its id
  on the host.  Then no comment is added, and at most the comment itself learns its id on the host.  Its text stays, unless
  the host reports an edit and the framing cannot be told from the text: the author's name is empty or has an
  asterisk, or the text is not trimmed; then the text is the one reported, less what could be taken off.\<close>

theorem own_comment_never_copied:
  assumes "comments_inv db" "c \<in> set (cd_comments db)" "pc_origin c = OriginCritiq" "sendable authorName quote c"
    and "ib_body ev = sent_as authorName quote c \<or> ib_body ev = lf_to_crlf (sent_as authorName quote c)"
    and "quotes quote \<longleftrightarrow> ib_provider ev = GITHUB \<and> pc_kind c = GENERAL \<and> pc_parentId c \<noteq> None"
    and "\<forall>c' \<in> set (cd_comments db). pc_providerCommentId c' = Some (ib_providerCommentId ev) \<longrightarrow> c' = c"
    and "ib_action ev \<noteq> CmtDeleted"
  shows "ingest newId now ev db = (Inr IngestIgnored, db) \<or> ingest newId now ev db = (Inr IngestLinked, db) \<or>
    pc_providerCommentId c = None \<and> ingest newId now ev db =
      (Inr IngestLinked, set_comment (pc_id c) (\<lambda>x. x\<lparr>pc_providerCommentId := Some (ib_providerCommentId ev)\<rparr>) db) \<or>
    \<not> framed authorName c \<and> ib_action ev = CmtEdited \<and> ingest newId now ev db =
      (Inr IngestUpdated, set_comment (pc_id c) (\<lambda>x. x\<lparr>pc_body := stripCritiqFraming (quotes quote) (ib_body ev), pc_editedAt := Some now\<rparr>) db)"
proof -
  note marked = sendable_marked [OF assms(4,5)]
  have edited: "edited_body ev c = stripCritiqFraming (quotes quote) (ib_body ev)" using assms(3,6) by (simp add: edited_body_def)
  have stays: "framed authorName c \<Longrightarrow> stripCritiqFraming (quotes quote) (ib_body ev) = pc_body c"
    using sendable_back [OF assms(4) _ assms(5)] .
  have known: "existing = c" if "known_comment i (ib_providerCommentId ev) db = Some existing" for i existing
    using find_SomeD [OF that [unfolded known_comment_def]] assms(7) by blast
  have "find_comment db (pc_id c) \<noteq> None" using assms(2) by (auto simp: find_comment_def find_None_iff)
  then obtain own where own: "find_comment db (pc_id c) = Some own" by blast
  then have "own = c" using find_commentD [OF own] same_comment [OF assms(1) _ assms(2)] by blast
  with own have own: "find_comment db (pc_id c) = Some c" by simp
  have unknown: "ingest_unknown newId ev repo pull db = (Inr IngestIgnored, db) \<or> pc_providerCommentId c = None \<and>
      ingest_unknown newId ev repo pull db =
        (Inr IngestLinked, set_comment (pc_id c) (\<lambda>x. x\<lparr>pc_providerCommentId := Some (ib_providerCommentId ev)\<rparr>) db)" for repo pull
    by (simp add: ingest_unknown_def marked own)
  show ?thesis
  proof (cases "ingest_pull ev db")
    case (Some rp)
    obtain repo pull where rp: "rp = (repo, pull)" by (cases rp)
    show ?thesis
    proof (cases "known_comment (pq_id pull) (ib_providerCommentId ev) db")
      case None
      with Some rp assms(8) unknown [of repo pull] show ?thesis by (auto simp: ingest_def)
    next
      case (Some existing)
      with known [OF Some] \<open>ingest_pull ev db = Some rp\<close> rp assms(8) stays show ?thesis
        by (cases "framed authorName c") (simp_all add: ingest_def edited Let_def)
    qed
  qed (simp add: ingest_def)
qed

subsection \<open>Every copy ends\<close>

lemma process_comment_settles:
  assumes "load_comment i db = Some (pull, c)" "\<not> fst (process_comment final host i db)"
  shows "process_comment final host i db = settle_comment i (send_comment host db pull c) db"
  using assms by (auto simp: process_comment_def Let_def split: sum.splits if_splits)

lemma process_comment_throws:
  assumes "load_comment i db = Some (pull, c)" "fst (process_comment True host i db)"
  obtains ids where "send_comment host db pull c = Inr ids" "fst (settle_comment i (Inr ids) db)"
  using assms by (auto simp: process_comment_def settle_comment_def Let_def split: sum.splits if_splits)

lemma load_comment_Some:
  assumes "comments_inv db" "c \<in> set (cd_comments db)" "pc_syncStatus c = Some SyncPending" "\<exists>p \<in> set (cd_pulls db). pq_id p = pc_pullId c"
  obtains pull where "load_comment (pc_id c) db = Some (pull, c)"
proof -
  have "find_comment db (pc_id c) \<noteq> None" using assms(2) by (auto simp: find_comment_def find_None_iff)
  then obtain x where x: "find_comment db (pc_id c) = Some x" by blast
  have "x = c" using find_commentD [OF x] same_comment [OF assms(1) _ assms(2)] by blast
  moreover have "List.find (\<lambda>p. pq_id p = pc_pullId c) (cd_pulls db) \<noteq> None" using assms(4) by (auto simp: find_None_iff)
  ultimately show thesis using that x assms(3) by (auto simp: load_comment_def)
qed

definition settled_copy :: "comment_failure + jstr \<times> jstr option \<Rightarrow> pull_comment \<Rightarrow> pull_comment" where
  "settled_copy outcome = (case outcome of Inl (code, _) \<Rightarrow> set_copy SyncFailed (Some (comment_error_name code)) | Inr ids \<Rightarrow> synced_copy ids)"

lemma settle_comment_at:
  assumes "comments_inv db" "c \<in> set (cd_comments db)" "pc_syncStatus c = Some SyncPending" "\<not> fst (settle_comment (pc_id c) outcome db)"
  shows "cd_comments (snd (settle_comment (pc_id c) outcome db)) =
    map (\<lambda>x. if pc_id x = pc_id c then settled_copy outcome x else x) (cd_comments db)"
proof -
  have "(pc_id x = pc_id c \<and> pc_syncStatus x = Some SyncPending) = (pc_id x = pc_id c)" if "x \<in> set (cd_comments db)" for x
    using same_comment [OF assms(1) that assms(2)] assms(3) by auto
  then show ?thesis using assms(4)
    by (auto simp: settle_comment_def settled_copy_def update_comments_def Let_def split: sum.splits if_splits)
qed

lemma host_ids_settle:
  assumes "comments_inv db" "c \<in> set (cd_comments db)"
    and "\<forall>c' \<in> set (cd_comments db). c' \<noteq> c \<and> pc_pullId c' = pc_pullId c \<longrightarrow> pc_providerCommentId c' \<noteq> Some (fst ids)"
  shows "\<not> fst (settle_comment (pc_id c) (Inr ids) db)"
proof -
  have "\<not> id_taken (\<lambda>x. pc_id x = pc_id c \<and> pc_syncStatus x = Some SyncPending) (fst ids) db"
  proof
    assume "id_taken (\<lambda>x. pc_id x = pc_id c \<and> pc_syncStatus x = Some SyncPending) (fst ids) db"
    then obtain a b where "a \<in> set (cd_comments db)" "pc_id a = pc_id c" "pc_syncStatus a = Some SyncPending" "b \<in> set (cd_comments db)"
      "\<not> (pc_id b = pc_id c \<and> pc_syncStatus b = Some SyncPending)" "pc_pullId b = pc_pullId a" "pc_providerCommentId b = Some (fst ids)"
      unfolding id_taken_def by blast
    moreover from this same_comment [OF assms(1) _ assms(2)] have "a = c" by blast
    ultimately show False using assms(3) by auto
  qed
  then show ?thesis by (simp add: settle_comment_def Let_def)
qed

text \<open>C37: every copy ends.  Whatever the code host answers to the four attempts of its job, as long as the ids it
  gives are not those of another comment, a pending copy is afterwards sent, with the ids of one attempt, or
  failed, with the error of one; no other comment has changed.\<close>

theorem comment_job_settles:
  assumes "comments_inv db" "c \<in> set (cd_comments db)" "pc_syncStatus c = Some SyncPending"
    and "\<exists>p \<in> set (cd_pulls db). pq_id p = pc_pullId c"
    and "\<forall>k pull ids. send_comment (host k) db pull c = Inr ids \<longrightarrow>
      (\<forall>c' \<in> set (cd_comments db). c' \<noteq> c \<and> pc_pullId c' = pc_pullId c \<longrightarrow> pc_providerCommentId c' \<noteq> Some (fst ids))"
  shows "\<exists>k pull outcome. k < COMMENT_SYNC_JOB_ATTEMPTS \<and> load_comment (pc_id c) db = Some (pull, c) \<and>
    outcome = send_comment (host k) db pull c \<and>
    cd_comments (comment_job COMMENT_SYNC_JOB_ATTEMPTS host (pc_id c) db) = map (\<lambda>x. if pc_id x = pc_id c
      then (case outcome of Inl (code, _) \<Rightarrow> set_copy SyncFailed (Some (comment_error_name code)) x
        | Inr ids \<Rightarrow> synced_copy ids x) else x) (cd_comments db)"
proof -
  from assms(1-4) obtain pull where l: "load_comment (pc_id c) db = Some (pull, c)" by (rule load_comment_Some)
  let ?n = COMMENT_SYNC_JOB_ATTEMPTS
  have last: "\<not> fst (process_comment True (host 0) (pc_id c) db)"
    using process_comment_throws [OF l] host_ids_settle [OF assms(1,2)] assms(5) by metis
  obtain k where k: "k < ?n" "\<not> fst (process_comment (k = 0) (host k) (pc_id c) db)"
    "comment_job ?n host (pc_id c) db = snd (process_comment (k = 0) (host k) (pc_id c) db)"
    using comment_sync.job_cases [of ?n host "pc_id c" db] last
    by (metis COMMENT_SYNC_JOB_ATTEMPTS_def zero_less_numeral)
  let ?out = "send_comment (host k) db pull c"
  note settle = process_comment_settles [OF l k(2)]
  with k(2) have "\<not> fst (settle_comment (pc_id c) ?out db)" by simp
  from settle_comment_at [OF assms(1-3) this] l k(1) show ?thesis unfolding k(3) settle
    by (intro exI [of _ k] exI [of _ pull] exI [of _ ?out]) (auto simp: settled_copy_def split: sum.splits)
qed

subsection \<open>A reader sees every comment once, in its thread\<close>

definition is_root :: "comment_row \<Rightarrow> bool" where
  "is_root row \<longleftrightarrow> pc_parentId (fst row) = None"

definition replies_to :: "comment_row \<Rightarrow> comment_row \<Rightarrow> bool" where
  "replies_to t row \<longleftrightarrow> pc_parentId (fst row) = Some (pc_id (fst t))"

interpretation creation_order: js_comparator "\<lambda>a b :: comment_row. pc_createdAt (fst a) - pc_createdAt (fst b)"
  by unfold_locales auto

text \<open>The threads as they should be: one per root, in the order of their creation, each the root and then its
  replies in the order of theirs.\<close>

definition thread_spec :: "jstr option \<Rightarrow> comment_row list \<Rightarrow> comment_row \<Rightarrow> comment_thread" where
  "thread_spec h rows t = (thread_of h t)\<lparr>th_comments := map toCommentDto (t # filter (replies_to t) rows)\<rparr>"

definition threads_spec :: "jstr option \<Rightarrow> comment_row list \<Rightarrow> comment_thread list" where
  "threads_spec h rows = map (thread_spec h rows) (filter is_root rows)"

lemma al_set_fresh: "k \<notin> fst ` set m \<Longrightarrow> al_set k v m = m @ [(k, v)]"
  by (induction m) auto

lemma roots_loop:
  assumes "distinct (map (pc_id \<circ> fst) (seen @ rs))" "fst ts = zip (map (pc_id \<circ> fst) seen) [0..<length seen]"
    "snd ts = map (thread_of h) seen"
  shows "fold (add_thread h) rs ts =
    (zip (map (pc_id \<circ> fst) (seen @ rs)) [0..<length (seen @ rs)], map (thread_of h) (seen @ rs))"
  using assms
proof (induction rs arbitrary: "seen" ts)
  case Nil
  then show ?case by (cases ts) simp
next
  case (Cons r rs)
  have "pc_id (fst r) \<notin> fst ` set (fst ts)" using Cons.prems(1) unfolding Cons.prems(2) by (force dest: set_zip_leftD)
  note set = al_set_fresh [OF this]
  have "fst (add_thread h r ts) = zip (map (pc_id \<circ> fst) (seen @ [r])) [0..<length (seen @ [r])]"
    "snd (add_thread h r ts) = map (thread_of h) (seen @ [r])"
    unfolding add_thread_def fst_conv snd_conv set using Cons.prems(2,3) by (simp_all add: comp_def)
  from Cons.IH [OF _ this] Cons.prems(1) show ?case by simp
qed

lemma reply_step:
  assumes "distinct (map (pc_id \<circ> fst) roots)" "fst ts = zip (map (pc_id \<circ> fst) roots) [0..<length roots]"
    "snd ts = map (thread_spec h seen) roots" "k < length roots" "pc_parentId (fst r) = Some (pc_id (fst (roots ! k)))"
  shows "add_reply h r ts = (fst ts, map (thread_spec h (seen @ [r])) roots)"
proof -
  have "(pc_id (fst (roots ! k)), k) \<in> set (fst ts)" "al_distinct (fst ts)"
    using assms(1,4) unfolding assms(2) by (auto simp: set_zip intro!: exI [of _ k])
  then have "al_get (fst ts) (pc_id (fst (roots ! k))) = Some k" by (intro al_get_in)
  moreover have "(map (thread_spec h seen) roots)[k := push_comment (toCommentDto r) (thread_spec h seen (roots ! k))]
      = map (thread_spec h (seen @ [r])) roots"
  proof (rule nth_equalityI)
    fix j assume "j < length ((map (thread_spec h seen) roots)[k := push_comment (toCommentDto r) (thread_spec h seen (roots ! k))])"
    then have j: "j < length roots" by simp
    have "replies_to (roots ! j) r \<longleftrightarrow> j = k"
      using assms(1,4,5) j by (auto simp: replies_to_def distinct_conv_nth)
    with j assms(4) show "(map (thread_spec h seen) roots)[k := push_comment (toCommentDto r) (thread_spec h seen (roots ! k))] ! j
        = map (thread_spec h (seen @ [r])) roots ! j"
      by (simp add: nth_list_update thread_spec_def push_comment_def)
  qed simp
  ultimately show ?thesis using assms(3-5) by (simp add: add_reply_def)
qed

lemma replies_loop:
  assumes "distinct (map (pc_id \<circ> fst) roots)" "fst ts = zip (map (pc_id \<circ> fst) roots) [0..<length roots]"
    "snd ts = map (thread_spec h seen) roots"
    "\<forall>r \<in> set rs. \<exists>t \<in> set roots. pc_parentId (fst r) = Some (pc_id (fst t))"
  shows "snd (fold (add_reply h) rs ts) = map (thread_spec h (seen @ rs)) roots"
  using assms
proof (induction rs arbitrary: seen ts)
  case (Cons r rs)
  from Cons.prems(4) obtain k where "k < length roots" "pc_parentId (fst r) = Some (pc_id (fst (roots ! k)))"
    by (auto simp: in_set_conv_nth)
  from reply_step [OF Cons.prems(1-3) this] Cons.IH [of "(fst ts, map (thread_spec h (seen @ [r])) roots)" "seen @ [r]"] Cons.prems
  show ?case by simp
qed simp

definition closed_rows :: "comment_row list \<Rightarrow> bool" where
  "closed_rows rows \<longleftrightarrow> distinct (map (pc_id \<circ> fst) rows) \<and>
    (\<forall>row \<in> set rows. \<not> is_root row \<longrightarrow> (\<exists>t \<in> set rows. is_root t \<and> replies_to t row))"

lemma toThreads_spec:
  assumes "closed_rows rows"
  shows "toThreads rows h = threads_spec h (by_creation rows)"
proof -
  let ?s = "by_creation rows"
  let ?roots = "filter is_root ?s" and ?replies = "filter (\<lambda>row. \<not> is_root row) ?s"
  have set: "set ?s = set rows" "mset ?s = mset rows" by (simp_all add: by_creation_def)
  have "distinct (map (pc_id \<circ> fst) ?s)"
    using assms unfolding closed_rows_def by (metis mset_map set(2) mset_eq_imp_distinct_iff)
  then have d: "distinct (map (pc_id \<circ> fst) ?roots)" by (rule distinct_map_filter)
  have "fold (add_thread h) ?roots ([], []) = (zip (map (pc_id \<circ> fst) ?roots) [0..<length ?roots], map (thread_of h) ?roots)"
    using roots_loop [of "[]" ?roots "([], [])" h] d by simp
  moreover have "thread_of h = thread_spec h []" by (rule ext) (simp add: thread_spec_def thread_of_def Let_def)
  moreover have "\<forall>r \<in> set ?replies. \<exists>t \<in> set ?roots. pc_parentId (fst r) = Some (pc_id (fst t))"
    using assms unfolding closed_rows_def replies_to_def set_filter set(1) by blast
  ultimately have "snd (fold (add_reply h) ?replies (fold (add_thread h) ?roots ([], []))) = map (thread_spec h ?replies) ?roots"
    using replies_loop [OF d, of "(zip (map (pc_id \<circ> fst) ?roots) [0..<length ?roots], map (thread_of h) ?roots)" h "[]" ?replies]
    by simp
  moreover have "thread_spec h ?replies t = thread_spec h ?s t" for t
  proof -
    have "filter (replies_to t) ?replies = filter (replies_to t) ?s"
      unfolding filter_filter by (rule filter_cong) (auto simp: replies_to_def is_root_def)
    then show ?thesis by (simp add: thread_spec_def)
  qed
  ultimately show ?thesis
    unfolding toThreads_def threads_spec_def Let_def is_root_def [symmetric] by simp
qed

lemma mset_filter_replies:
  assumes "distinct (map (pc_id \<circ> fst) roots)"
  shows "mset (concat (map (\<lambda>t. filter (replies_to t) rows) roots)) = mset (filter (\<lambda>row. \<exists>t \<in> set roots. replies_to t row) rows)"
  using assms
proof (induction roots)
  case (Cons t ts)
  have "\<not> (replies_to t row \<and> (\<exists>t' \<in> set ts. replies_to t' row))" for row
    using Cons.prems by (force simp: replies_to_def)
  then have "mset (filter (\<lambda>row. \<exists>t \<in> set (t # ts). replies_to t row) rows) =
      mset (filter (replies_to t) rows) + mset (filter (\<lambda>row. \<exists>t \<in> set ts. replies_to t row) rows)"
    by (induction rows) auto
  with Cons show ?case by simp
qed simp

lemma threads_spec_all:
  assumes "closed_rows rows"
  shows "mset (concat (map th_comments (threads_spec h rows))) = mset (map toCommentDto rows)"
proof -
  let ?roots = "filter is_root rows"
  have d: "distinct (map (pc_id \<circ> fst) ?roots)" using assms unfolding closed_rows_def by (intro distinct_map_filter) blast
  have "mset (concat (map (\<lambda>t. t # filter (replies_to t) rows) ts)) = mset ts + mset (concat (map (\<lambda>t. filter (replies_to t) rows) ts))" for ts
    by (induction ts) auto
  moreover have "filter (\<lambda>row. \<exists>t \<in> set ?roots. replies_to t row) rows = filter (\<lambda>row. \<not> is_root row) rows"
  proof (rule filter_cong [OF refl])
    fix row assume row: "row \<in> set rows"
    have "\<not> is_root row" if "replies_to t row" for t using that by (simp add: replies_to_def is_root_def)
    with row assms show "(\<exists>t \<in> set ?roots. replies_to t row) = (\<not> is_root row)"
      unfolding closed_rows_def set_filter by blast
  qed
  ultimately have "mset (concat (map (\<lambda>t. t # filter (replies_to t) rows) ?roots)) = mset rows"
    using mset_filter_replies [OF d, of rows] mset_partition [of is_root rows] by simp
  moreover have "concat (map th_comments (threads_spec h rows)) = map toCommentDto (concat (map (\<lambda>t. t # filter (replies_to t) rows) ?roots))"
    by (simp add: threads_spec_def thread_spec_def map_concat comp_def)
  ultimately show ?thesis by (simp add: mset_map)
qed

lemma closed_by_creation: "closed_rows rows \<Longrightarrow> closed_rows (by_creation rows)"
proof -
  have "mset (by_creation rows) = mset rows" by (simp add: by_creation_def)
  then have "distinct (map (pc_id \<circ> fst) (by_creation rows)) = distinct (map (pc_id \<circ> fst) rows)"
    by (metis mset_map mset_eq_imp_distinct_iff)
  then show "closed_rows rows \<Longrightarrow> closed_rows (by_creation rows)" by (simp add: closed_rows_def by_creation_def)
qed

lemma fst_with_author [simp]: "fst (with_author db c) = c"
  by (simp add: with_author_def)

lemma pull_rows_closed:
  assumes "comments_inv db"
  shows "closed_rows (map (with_author db) (filter (\<lambda>c. pc_pullId c = pullId) (cd_comments db)))"
proof -
  have "distinct (map pc_id (filter (\<lambda>c. pc_pullId c = pullId) (cd_comments db)))"
    by (rule distinct_map_filter [OF inv_distinct [OF assms]])
  moreover have "\<exists>t \<in> set (cd_comments db). pc_pullId t = pullId \<and> pc_parentId t = None \<and> pc_parentId c = Some (pc_id t)"
    if "c \<in> set (cd_comments db)" "pc_pullId c = pullId" "pc_parentId c \<noteq> None" for c
    using inv_root [OF assms that(1)] that(2,3) by (metis option.exhaust)
  ultimately show ?thesis by (auto simp: closed_rows_def is_root_def replies_to_def comp_def)
qed

text \<open>A reader sees every comment once, in its thread.  The list of a pull request has one thread per comment that
  is no reply, in the order of their creation, and in it that comment and then its replies in the order of theirs;
  the two passes over the rows lose and repeat none.\<close>

theorem list_comments_threads:
  assumes "comments_inv db" "comment_pull db organizationId repositoryId pullId = Inr pull"
    and "\<forall>c \<in> set (cd_comments db). pc_pullId c = pullId \<longrightarrow> pc_organizationId c = organizationId"
  defines "rows \<equiv> by_creation (map (with_author db) (filter (\<lambda>c. pc_pullId c = pullId) (cd_comments db)))"
  shows "\<exists>threads. list_comments organizationId repositoryId pullId db = Inr threads \<and>
    map th_id threads = map (pc_id \<circ> fst) (filter is_root rows) \<and>
    map th_comments threads = map (\<lambda>t. map toCommentDto (t # filter (replies_to t) rows)) (filter is_root rows) \<and>
    mset (concat (map th_comments threads)) = mset (map toCommentDto rows) \<and>
    sorted (map (pc_createdAt \<circ> fst) rows)"
proof -
  let ?rows = "map (with_author db) (filter (\<lambda>c. pc_pullId c = pullId) (cd_comments db))"
  note closed = pull_rows_closed [OF assms(1), of pullId]
  have "filter (\<lambda>c. pc_organizationId c = organizationId \<and> pc_pullId c = pullId) (cd_comments db) = filter (\<lambda>c. pc_pullId c = pullId) (cd_comments db)"
    using assms(3) by (intro filter_cong) auto
  then have l: "list_comments organizationId repositoryId pullId db = Inr (threads_spec (pq_headSha pull) rows)"
    using assms(2) toThreads_spec [OF closed] by (simp add: list_comments_def rows_def)
  have "closed_rows rows" unfolding rows_def by (rule closed_by_creation [OF closed])
  note all = threads_spec_all [OF this, of "pq_headSha pull"]
  have "sorted_wrt (\<lambda>a b. pc_createdAt (fst a) - pc_createdAt (fst b) \<le> 0) rows"
    unfolding rows_def by_creation_def by (rule creation_order.sorted_sort)
  then have "sorted (map (pc_createdAt \<circ> fst) rows)" by (simp add: sorted_map comp_def)
  with l all show ?thesis
    by (intro exI [of _ "threads_spec (pq_headSha pull) rows"])
      (simp add: threads_spec_def thread_spec_def thread_of_def Let_def comp_def)
qed

subsection \<open>Samples\<close>

definition no_comments :: comment_db where
  "no_comments = \<lparr>cd_pulls = [sample_pull], cd_repos = [\<lparr>rp_id = ''r1'', rp_organizationId = ''o1'', rp_provider = GITHUB, rp_externalId = ''11''\<rparr>],
    cd_users = [\<lparr>us_id = ''u1'', us_name = Some ''Ann'', us_email = ''a@x'', us_avatarUrl = None\<rparr>], cd_comments = [], cd_jobs = []\<rparr>"

definition sample_root :: pull_comment where
  "sample_root = \<lparr>pc_id = ''c1'', pc_organizationId = ''o1'', pc_pullId = ''p1'', pc_origin = OriginCritiq, pc_kind = GENERAL,
    pc_parentId = None, pc_authorId = Some ''u1'', pc_providerAuthor = None, pc_providerAuthorAvatarUrl = None, pc_body = ''Why?'',
    pc_path = None, pc_line = None, pc_side = None, pc_headSha = None, pc_providerCommentId = None, pc_providerThreadId = None,
    pc_syncStatus = Some SyncPending, pc_syncError = None, pc_editedAt = None, pc_deletedAt = None, pc_createdAt = 1\<rparr>"

definition sample_reply :: pull_comment where
  "sample_reply = sample_root\<lparr>pc_id := ''c2'', pc_parentId := Some ''c1'', pc_body := ''Fixed'', pc_createdAt := 2\<rparr>"

definition two_comments :: comment_db where
  "two_comments = add_comment sample_reply (add_comment sample_root no_comments)"

lemma sample_created:
  "create_check ''c1'' 1 ''o1'' ''r1'' ''p1'' ''u1'' \<lparr>cc_body = ''Why? '', cc_parentId = None, cc_inline = None\<rparr> no_comments = Inr sample_root"
  "create_check ''c2'' 2 ''o1'' ''r1'' ''p1'' ''u1'' \<lparr>cc_body = ''Fixed'', cc_parentId = Some ''c1'', cc_inline = None\<rparr>
    (add_comment sample_root no_comments) = Inr sample_reply"
  by code_simp+

lemma two_comments_reached: "comment_step\<^sup>*\<^sup>* no_comments two_comments"
proof -
  have "comment_step no_comments (add_comment sample_root no_comments)"
    by (rule comment_step.created [OF sample_created(1)]) (simp add: no_comments_def)
  moreover have "comment_step (add_comment sample_root no_comments) two_comments" unfolding two_comments_def
    by (rule comment_step.created [OF sample_created(2)]) (simp add: no_comments_def add_comment_def sample_root_def)
  ultimately show ?thesis by simp
qed

lemma no_comments_empty: "cd_comments no_comments = []"
  by (simp add: no_comments_def)

lemma two_comments_rows: "cd_comments two_comments = [sample_root, sample_reply]"
  by (simp add: two_comments_def add_comment_def no_comments_def)

lemma sample_fields:
  "pc_id sample_root = ''c1''" "pc_id sample_reply = ''c2''" "pc_parentId sample_root = None" "pc_parentId sample_reply = Some ''c1''"
  "pc_pullId sample_root = ''p1''" "pc_pullId sample_reply = ''p1''" "pc_providerCommentId sample_root = None"
  "pc_providerCommentId sample_reply = None" "pc_syncStatus sample_root = Some SyncPending" "pc_body sample_root = ''Why?''"
  "pc_organizationId sample_root = ''o1''" "pc_organizationId sample_reply = ''o1''" "pc_origin sample_root = OriginCritiq"
  by (simp_all add: sample_root_def sample_reply_def)

lemma threads_stay_flat_witness: "\<exists>t \<in> set (cd_comments two_comments). pc_id t = ''c1'' \<and> pc_parentId t = None \<and> pc_pullId t = ''p1''"
  using threads_stay_flat [OF two_comments_reached no_comments_empty, of sample_reply]
  by (auto simp: two_comments_rows sample_fields)

lemma two_comments_inv: "comments_inv two_comments"
  by (rule comments_reachable [OF two_comments_reached no_comments_empty])

definition sample_event :: inbound_comment where
  "sample_event = \<lparr>ib_provider = GITHUB, ib_repositoryExternalId = ''11'', ib_pullExternalId = ''7'', ib_action = CmtCreated,
    ib_providerCommentId = ''github-issue:5'', ib_providerThreadKey = None, ib_kind = GENERAL, ib_path = None, ib_line = None,
    ib_side = None, ib_headSha = None, ib_body = sent_as ''Ann'' None sample_root, ib_author = ''critiq-bot'', ib_avatarUrl = None,
    ib_createdAt = 3\<rparr>"

lemma own_comment_never_copied_witness:
  "length (cd_comments (snd (ingest ''c9'' 9 sample_event two_comments))) = 2"
proof -
  have "sendable ''Ann'' None sample_root"
    by (simp add: sendable_def sample_fields plain_def unmarked_def sublist_Cons_right char_class_defs)
  moreover have "sample_root \<in> set (cd_comments two_comments)" "pc_origin sample_root = OriginCritiq"
    by (simp_all add: two_comments_rows sample_fields)
  moreover have "\<forall>c' \<in> set (cd_comments two_comments). pc_providerCommentId c' = Some (ib_providerCommentId sample_event) \<longrightarrow> c' = sample_root"
    by (simp add: two_comments_rows sample_fields)
  moreover have "ib_body sample_event = sent_as ''Ann'' None sample_root" by (simp add: sample_event_def)
  moreover have "quotes None \<longleftrightarrow> ib_provider sample_event = GITHUB \<and> pc_kind sample_root = GENERAL \<and> pc_parentId sample_root \<noteq> None"
    by (simp add: sample_fields)
  moreover have "ib_action sample_event \<noteq> CmtDeleted" by (simp add: sample_event_def)
  ultimately have "ingest ''c9'' 9 sample_event two_comments = (Inr IngestIgnored, two_comments) \<or>
      ingest ''c9'' 9 sample_event two_comments = (Inr IngestLinked, two_comments) \<or>
      pc_providerCommentId sample_root = None \<and> ingest ''c9'' 9 sample_event two_comments =
        (Inr IngestLinked, set_comment (pc_id sample_root)
          (\<lambda>x. x\<lparr>pc_providerCommentId := Some (ib_providerCommentId sample_event)\<rparr>) two_comments) \<or>
      \<not> framed ''Ann'' sample_root \<and> ib_action sample_event = CmtEdited \<and> ingest ''c9'' 9 sample_event two_comments =
        (Inr IngestUpdated, set_comment (pc_id sample_root)
          (\<lambda>x. x\<lparr>pc_body := stripCritiqFraming (quotes None) (ib_body sample_event), pc_editedAt := Some 9\<rparr>) two_comments)"
    using own_comment_never_copied [OF two_comments_inv] by blast
  then show ?thesis by (auto simp: two_comments_rows set_comment_def update_comments_def)
qed

definition deaf_host :: comment_host where
  "deaf_host = \<lparr>ch_createIssueComment = (\<lambda>_ _. Inl (CmtUnreachable, True)), ch_replyToReviewComment = (\<lambda>_ _ _. Inl (CmtUnreachable, True)),
    ch_createReviewComment = (\<lambda>_ _ _ _ _ _. Inl (CmtUnreachable, True)), ch_addDiscussionNote = (\<lambda>_ _ _. Inl (CmtUnreachable, True)),
    ch_fetchDiffRefs = (\<lambda>_. Inl (CmtUnreachable, True)), ch_createDiscussion = (\<lambda>_ _ _. Inl (CmtUnreachable, True))\<rparr>"

lemma deaf_host_fails: "send_comment deaf_host db pull c \<noteq> Inr ids"
  by (auto simp: send_comment_def sendToGithub_def sendToGitlab_def deaf_host_def Let_def split: provider_source.split option.split sum.split)

lemma comment_job_settles_witness:
  "\<exists>e. map pc_syncStatus (cd_comments (comment_job COMMENT_SYNC_JOB_ATTEMPTS (\<lambda>_. deaf_host) ''c1'' two_comments)) = [Some SyncFailed, e]"
proof -
  have "sample_root \<in> set (cd_comments two_comments)" "pc_syncStatus sample_root = Some SyncPending"
    "\<exists>p \<in> set (cd_pulls two_comments). pq_id p = pc_pullId sample_root"
    by (simp_all add: two_comments_rows sample_fields) (simp add: two_comments_def add_comment_def no_comments_def sample_pull_def)
  from comment_job_settles [OF two_comments_inv this, of "\<lambda>_. deaf_host"] obtain pull outcome where
    o: "outcome = send_comment deaf_host two_comments pull sample_root" and
    "cd_comments (comment_job COMMENT_SYNC_JOB_ATTEMPTS (\<lambda>_. deaf_host) ''c1'' two_comments) = map (\<lambda>x. if pc_id x = ''c1''
      then (case outcome of Inl (code, _) \<Rightarrow> set_copy SyncFailed (Some (comment_error_name code)) x
        | Inr ids \<Rightarrow> synced_copy ids x) else x) (cd_comments two_comments)"
    by (auto simp: deaf_host_fails sample_fields)
  moreover from o obtain code r where "outcome = Inl (code, r)" by (metis deaf_host_fails sum.exhaust prod.exhaust)
  ultimately show ?thesis
    by (auto simp: two_comments_rows sample_fields set_copy_def deaf_host_fails split: sum.split)
qed

lemma list_comments_threads_witness:
  "\<exists>threads. list_comments ''o1'' ''r1'' ''p1'' two_comments = Inr threads \<and> map th_id threads = [''c1'']"
proof -
  have "comment_pull two_comments ''o1'' ''r1'' ''p1'' = Inr sample_pull" by code_simp
  moreover have "\<forall>c \<in> set (cd_comments two_comments). pc_pullId c = ''p1'' \<longrightarrow> pc_organizationId c = ''o1''"
    by (simp add: two_comments_rows sample_fields)
  moreover have "by_creation (map (with_author two_comments) (filter (\<lambda>c. pc_pullId c = ''p1'') (cd_comments two_comments))) =
      [with_author two_comments sample_root, with_author two_comments sample_reply]"
    by (simp add: two_comments_rows sample_fields by_creation_def js_sort_def) (simp add: sample_root_def sample_reply_def)
  ultimately show ?thesis using list_comments_threads [OF two_comments_inv, of "''o1''" "''r1''" "''p1''" sample_pull]
    by (auto simp: is_root_def sample_fields)
qed

end
