(* ===== verification/Review_Prompt.thy ===== *)
theory Review_Prompt
  imports Ai_Prompt "HOL-Library.Sublist"
begin

section \<open>What a review is sent\<close>

text \<open>
  The properties of \<open>Ai_Prompt\<close>: a line a secret rule flagged is printed without its text, files that must
  not leave are not in the prompt, the lines of the patch are printed once and in order, the files that are kept are as
  many as the budget allows, and an accepted finding points at lines that were printed.
\<close>

subsection \<open>Printed lines\<close>

text \<open>The numbers a list of printed lines carries.\<close>

fun number_of :: "prompt_line \<Rightarrow> line_no option" where
  "number_of (NumberedLine added n t) = Some n"
| "number_of _ = None"

definition numbers :: "prompt_line list \<Rightarrow> line_no list" where
  "numbers = List.map_filter number_of"

lemma numbers_simps [simp]:
  "numbers [] = []" "numbers (l # ls) = (case number_of l of Some n \<Rightarrow> n # numbers ls | None \<Rightarrow> numbers ls)"
  "numbers (ks @ ls) = numbers ks @ numbers ls" "numbers (map DeletedLine ds) = []"
  by (auto simp: numbers_def map_filter_simps List.map_filter_def split: option.split)

lemma in_numbers: "n \<in> set (numbers ls) \<longleftrightarrow> (\<exists>a t. NumberedLine a n t \<in> set ls)"
proof (induction ls)
  case (Cons l ls)
  then show ?case by (cases l) auto
qed simp

lemma set_with_gaps: "set (with_gaps bs) \<subseteq> insert GapLine (\<Union>b \<in> set bs. set b)"
  by (induction bs rule: with_gaps.induct) auto

lemma numbered_with_gaps: "NumberedLine a n t \<in> set (with_gaps bs) \<longleftrightarrow> (\<exists>b \<in> set bs. NumberedLine a n t \<in> set b)"
  by (induction bs rule: with_gaps.induct) auto

lemma numbers_with_gaps: "numbers (with_gaps bs) = concat (map numbers bs)"
  by (induction bs rule: with_gaps.induct) auto

lemma numbers_render_line:
  "numbers (render_line st head_opt secretLines n) = (if known_text (rs_text st) head_opt n = None then [] else [n])"
  by (auto simp: render_line_def split: option.split)

lemma numbers_render_range:
  "numbers (render_range st head_opt secretLines r) = filter (\<lambda>n. known_text (rs_text st) head_opt n \<noteq> None) [fst r..snd r]"
proof -
  have "numbers (concat (map (render_line st head_opt secretLines) ns)) = filter (\<lambda>n. known_text (rs_text st) head_opt n \<noteq> None) ns" for ns
    by (induction ns) (auto simp: numbers_render_line)
  then show ?thesis by (simp add: render_range_def)
qed

lemma shown_lines:
  "al_get (fold shown_line ls m) n = Some t \<Longrightarrow> (\<exists>a. NumberedLine a n t \<in> set ls) \<or> al_get m n = Some t"
proof (induction ls arbitrary: m)
  case (Cons l ls)
  from Cons.IH [of "shown_line l m"] Cons.prems show ?case by (cases l) (auto split: if_splits)
qed simp

lemma shown_all: "al_get (fold shown_line ls m) n \<noteq> None \<longleftrightarrow> n \<in> set (numbers ls) \<or> al_get m n \<noteq> None"
proof (induction ls arbitrary: m)
  case (Cons l ls)
  then show ?case by (cases l) auto
qed simp

text \<open>A rendered file, opened.\<close>

lemma renderFile_Some:
  assumes "renderFile file secretLines contextLines = Some f"
  defines "st \<equiv> scan_hunks (parsePatch (case pf_patch file of Some p \<Rightarrow> p | None \<Rightarrow> []))"
  shows "rf_path f = pf_path file" "sn_addedLines (rf_sent f) = rs_added st" "sn_lines (rf_sent f) = fold shown_line (rf_lines f) []"
    "numbers (rf_lines f) = concat (map (\<lambda>r. filter (\<lambda>n. known_text (rs_text st) (pf_headLines file) n \<noteq> None) [fst r..snd r])
      (windows file contextLines st))"
    "NumberedLine a n t \<in> set (rf_lines f) \<Longrightarrow> a = (n \<in> set (rs_added st)) \<and> (n \<in> set secretLines \<longrightarrow> t = REDACTED)"
proof -
  let ?body = "with_gaps (map (render_range st (pf_headLines file) secretLines) (windows file contextLines st))"
  from assms have f: "f = \<lparr>rf_path = pf_path file, rf_lines = TitleLine (pf_path file) (pf_status file) # ?body @ map DeletedLine (rs_trailing st),
    rf_sent = \<lparr>sn_addedLines = rs_added st,
      sn_lines = fold shown_line (TitleLine (pf_path file) (pf_status file) # ?body @ map DeletedLine (rs_trailing st)) []\<rparr>\<rparr>"
    by (simp add: renderFile_def Let_def split: if_splits)
  show "rf_path f = pf_path file" "sn_addedLines (rf_sent f) = rs_added st" "sn_lines (rf_sent f) = fold shown_line (rf_lines f) []"
    by (simp_all add: f)
  show "numbers (rf_lines f) = concat (map (\<lambda>r. filter (\<lambda>n. known_text (rs_text st) (pf_headLines file) n \<noteq> None) [fst r..snd r])
      (windows file contextLines st))"
    by (simp add: f numbers_with_gaps numbers_render_range comp_def)
  show "a = (n \<in> set (rs_added st)) \<and> (n \<in> set secretLines \<longrightarrow> t = REDACTED)" if "NumberedLine a n t \<in> set (rf_lines f)"
  proof -
    from that obtain r where "NumberedLine a n t \<in> set (render_range st (pf_headLines file) secretLines r)"
      by (auto simp: f numbered_with_gaps)
    then show ?thesis by (auto simp: render_range_def render_line_def split: option.splits)
  qed
qed

subsection \<open>Secrets\<close>

definition flags :: "static_input \<Rightarrow> jstr \<Rightarrow> line_no \<Rightarrow> bool" where
  "flags s path n \<longleftrightarrow> starts_with (si_ruleId s) ''secret.'' \<and> si_filePath s = path \<and> si_lineStart s \<le> n \<and> n \<le> si_lineEnd s"

definition lines_of :: "(jstr \<times> line_no list) list \<Rightarrow> jstr \<Rightarrow> line_no list" where
  "lines_of m path = (case al_get m path of Some ls \<Rightarrow> ls | None \<Rightarrow> [])"

definition secret_lines :: "static_input list \<Rightarrow> jstr \<Rightarrow> line_no list" where
  "secret_lines fs = lines_of (secretLinesByFile fs)"

lemma add_secret_lines_of: "set (lines_of (add_secret_lines s m) path) = set (lines_of m path) \<union> {n. flags s path n}"
  by (auto simp: add_secret_lines_def flags_def lines_of_def)

lemma secret_lines_complete: "n \<in> set (secret_lines fs path) \<longleftrightarrow> (\<exists>s \<in> set fs. flags s path n)"
proof -
  have "set (lines_of (fold add_secret_lines fs m) path) = set (lines_of m path) \<union> {n. \<exists>s \<in> set fs. flags s path n}" for m
    by (induction fs arbitrary: m) (auto simp: add_secret_lines_of)
  from this [of "[]"] show ?thesis by (auto simp: secret_lines_def secretLinesByFile_def lines_of_def)
qed

lemma rendered_file_of:
  assumes "f \<in> set (rendered_files mm inp)"
  shows "\<exists>file \<in> set (pi_files inp). sendable_file mm file \<and>
    renderFile file (secret_lines (pi_staticFindings inp) (pf_path file)) (pi_contextLines inp) = Some f"
  using assms by (auto simp: rendered_files_def secret_lines_def lines_of_def List.map_filter_def Let_def)

subsection \<open>The budget\<close>

lemma fit_budget_keeps:
  assumes "fit_budget inp kept omitted = (kept', omitted')"
  shows "\<exists>n \<le> length kept. kept' = take n kept \<and> omitted' = map rf_path (drop n kept) @ omitted \<and>
    (n = 0 \<or> prompt_size inp (take n kept) \<le> pi_maxInputTokens inp) \<and>
    (\<forall>m. n < m \<and> m \<le> length kept \<longrightarrow> pi_maxInputTokens inp < prompt_size inp (take m kept))"
  using assms
proof (induction inp kept omitted rule: fit_budget.induct)
  case (1 inp kept omitted)
  show ?case
  proof (cases "kept \<noteq> [] \<and> prompt_size inp kept > pi_maxInputTokens inp")
    case True
    then have run: "fit_budget inp (butlast kept) (rf_path (last kept) # omitted) = (kept', omitted')"
      using 1(2) by (simp add: fit_budget.simps [of inp kept])
    from 1(1) [OF True run] obtain n where n: "n \<le> length (butlast kept)" "kept' = take n (butlast kept)"
      "omitted' = map rf_path (drop n (butlast kept)) @ rf_path (last kept) # omitted"
      "n = 0 \<or> prompt_size inp (take n (butlast kept)) \<le> pi_maxInputTokens inp"
      "\<forall>m. n < m \<and> m \<le> length (butlast kept) \<longrightarrow> pi_maxInputTokens inp < prompt_size inp (take m (butlast kept))" by blast
    have pre: "take m (butlast kept) = take m kept" if "m < length kept" for m using that by (simp add: butlast_conv_take)
    have "drop n kept = drop n (butlast kept) @ [last kept]"
      using n(1) True by (metis append_butlast_last_id diff_is_0_eq' drop0 drop_append)
    moreover have "pi_maxInputTokens inp < prompt_size inp (take m kept)" if "n < m" "m \<le> length kept" for m
      using that n(5) pre [of m] True by (cases "m = length kept") auto
    moreover have "n < length kept"
    proof -
      from True have "length (butlast kept) < length kept" by simp
      with n(1) show ?thesis by simp
    qed
    ultimately show ?thesis using n pre [of n] by (intro exI [of _ n]) auto
  next
    case False
    with 1(2) have "kept' = kept" "omitted' = omitted" by (simp_all add: fit_budget.simps [of inp kept] split: if_splits)
    with False show ?thesis by (intro exI [of _ "length kept"]) auto
  qed
qed

text \<open>The files of a prompt are a prefix of the rendered ones.\<close>

lemma build_review_prompt:
  obtains n where "n \<le> length (rendered_files mm inp)"
    "n = 0 \<or> prompt_size inp (take n (rendered_files mm inp)) \<le> pi_maxInputTokens inp"
    "\<And>m. n < m \<Longrightarrow> m \<le> length (rendered_files mm inp) \<Longrightarrow> pi_maxInputTokens inp < prompt_size inp (take m (rendered_files mm inp))"
    "rq_user (pb_request (buildReviewPrompt mm inp)) = prompt_user inp (take n (rendered_files mm inp))
      (prompt_notices (map rf_path (drop n (rendered_files mm inp))) (not_sent mm inp))"
    "pb_sentFiles (buildReviewPrompt mm inp) = al_of (map (\<lambda>f. (rf_path f, rf_sent f)) (take n (rendered_files mm inp)))"
    "pb_filesOmitted (buildReviewPrompt mm inp) = map rf_path (drop n (rendered_files mm inp)) @ not_sent mm inp"
proof -
  obtain kept omitted where k: "fit_budget inp (rendered_files mm inp) [] = (kept, omitted)" by fastforce
  from fit_budget_keeps [OF k] obtain n where "n \<le> length (rendered_files mm inp)" "kept = take n (rendered_files mm inp)"
    "omitted = map rf_path (drop n (rendered_files mm inp))"
    "n = 0 \<or> prompt_size inp (take n (rendered_files mm inp)) \<le> pi_maxInputTokens inp"
    "\<forall>m. n < m \<and> m \<le> length (rendered_files mm inp) \<longrightarrow> pi_maxInputTokens inp < prompt_size inp (take m (rendered_files mm inp))"
    by auto
  with k show thesis by (intro that [of n]) (simp_all add: buildReviewPrompt_def Let_def)
qed
subsection \<open>The windows\<close>

text \<open>The merged windows, newest first: each begins past the line after every earlier one.\<close>

definition apart :: "(line_no \<times> line_no) list \<Rightarrow> bool" where
  "apart = sorted_wrt (\<lambda>x y. snd y + 1 < fst x)"

definition covered :: "(line_no \<times> line_no) list \<Rightarrow> line_no set" where
  "covered rs = (\<Union>r \<in> set rs. {fst r..snd r})"

lemma merge_step_apart:
  assumes "apart ms" "\<forall>m \<in> set ms. fst m \<le> fst r"
  shows "apart (merge_step r ms)" "\<forall>m \<in> set (merge_step r ms). fst m \<le> fst r"
    "covered (merge_step r ms) = {fst r..snd r} \<union> covered ms"
proof -
  have u: "{a..max b (snd r)} = {fst r..snd r} \<union> {a..b}" if "a \<le> fst r" "fst r \<le> b + 1" for a b
    using that by auto
  show "apart (merge_step r ms)" using assms by (cases ms) (fastforce simp: apart_def merge_step_def)+
  show "\<forall>m \<in> set (merge_step r ms). fst m \<le> fst r" using assms(2) by (cases ms) (auto simp: merge_step_def)
  have c: "covered ((a, b) # rest) = {a..b} \<union> covered rest" for a b rest by (simp add: covered_def)
  show "covered (merge_step r ms) = {fst r..snd r} \<union> covered ms"
  proof (cases ms)
    case (Cons m rest)
    obtain a b where m: "m = (a, b)" by fastforce
    show ?thesis
    proof (cases "fst r \<le> b + 1")
      case True
      with assms(2) Cons m u [of a b] have "{a..max b (snd r)} = {fst r..snd r} \<union> {a..b}" by simp
      with True Cons m show ?thesis by (simp only: merge_step_def c list.case prod.case if_True Un_assoc)
    next
      case False
      then show ?thesis by (simp add: merge_step_def Cons m covered_def)
    qed
  qed (simp add: merge_step_def covered_def)
qed

lemma merge_ranges_apart:
  assumes "sorted_wrt (\<lambda>x y. fst x \<le> fst y) rs"
  shows "sorted_wrt (\<lambda>x y. snd x + 1 < fst y) (merge_ranges rs) \<and> covered (merge_ranges rs) = covered rs"
proof -
  have "apart (fold merge_step rs ms) \<and> covered (fold merge_step rs ms) = covered rs \<union> covered ms"
    if "apart ms" "\<forall>r \<in> set rs. \<forall>m \<in> set ms. fst m \<le> fst r" for ms
    using assms that
  proof (induction rs arbitrary: ms)
    case Nil
    then show ?case by (simp add: covered_def)
  next
    case (Cons r rs)
    from Cons.prems(3) have "\<forall>m \<in> set ms. fst m \<le> fst r" by simp
    note step = merge_step_apart [OF Cons.prems(2) this]
    have "\<forall>r' \<in> set rs. \<forall>m \<in> set (merge_step r ms). fst m \<le> fst r'"
      using step(2) Cons.prems(1) by fastforce
    with Cons.IH [OF _ step(1) this] Cons.prems(1) step(3) show ?case by (auto simp: covered_def)
  qed
  from this [of "[]"] show ?thesis
    by (auto simp: merge_ranges_def apart_def sorted_wrt_rev covered_def)
qed

interpretation range_order: js_comparator by_start
  by unfold_locales (auto simp: by_start_def)

lemma windows_apart:
  "sorted_wrt (\<lambda>x y. snd x + 1 < fst y) (windows file contextLines st) \<and>
   covered (windows file contextLines st) = covered (map (widen (pf_headLines file) contextLines) (rs_ranges st))"
proof -
  let ?rs = "map (widen (pf_headLines file) contextLines) (rs_ranges st)"
  have "sorted_wrt (\<lambda>x y. fst x \<le> fst y) (js_sort by_start ?rs)"
    using range_order.sorted_sort [of ?rs] by (simp add: by_start_def)
  from merge_ranges_apart [OF this] show ?thesis by (simp add: windows_def covered_def)
qed

lemma sorted_concat_ranges:
  "sorted_wrt (\<lambda>x y. snd x + 1 < fst y) rs \<Longrightarrow> sorted_wrt (<) (concat (map (\<lambda>r. filter P [fst r..snd r :: int]) rs))"
proof (induction rs)
  case (Cons r rs)
  then show ?case by (fastforce simp: sorted_wrt_append intro: sorted_wrt_filter)
qed simp

text \<open>Every new-side line of the patch is in the range of its hunk.\<close>

definition in_ranges :: "render_state \<Rightarrow> line_no \<Rightarrow> bool" where
  "in_ranges st n \<longleftrightarrow> (\<exists>r \<in> set (rs_ranges st) \<union> set_option (rs_range st). fst r \<le> n \<and> n \<le> snd r)"

definition scanned :: "render_state \<Rightarrow> bool" where
  "scanned st \<longleftrightarrow> (\<forall>n. al_get (rs_text st) n \<noteq> None \<longrightarrow> in_ranges st n) \<and> (\<forall>n \<in> set (rs_added st). al_get (rs_text st) n \<noteq> None)"

lemma scan_line_scanned: "scanned st \<Longrightarrow> scanned (scan_line l st)"
proof -
  assume s: "scanned st"
  show ?thesis
  proof (cases "dl_kind l = Del \<or> dl_newLine l = None")
    case True
    with s show ?thesis by (auto simp: scan_line_def scanned_def in_ranges_def)
  next
    case False
    then obtain n where n: "dl_kind l \<noteq> Del" "dl_newLine l = Some n" by auto
    then have r: "set_option (rs_range (scan_line l st)) = {case rs_range st of None \<Rightarrow> (n, n) | Some (a, b) \<Rightarrow> (min a n, max b n)}"
      "rs_ranges (scan_line l st) = rs_ranges st" "rs_text (scan_line l st) = al_set n (dl_text l) (rs_text st)"
      "set (rs_added (scan_line l st)) \<subseteq> insert n (set (rs_added st))"
      by (auto simp: scan_line_def)
    have "in_ranges (scan_line l st) m" if "m = n \<or> in_ranges st m" for m
      using that by (cases "rs_range st") (auto simp: in_ranges_def r)
    with s r(3,4) show ?thesis by (auto simp: scanned_def)
  qed
qed

lemma scan_lines_scanned: "scanned st \<Longrightarrow> scanned (fold scan_line ls st)"
  by (induction ls arbitrary: st) (simp_all add: scan_line_scanned)

lemma scan_hunk_scanned:
  assumes "scanned (st\<lparr>rs_range := None\<rparr>)"
  shows "scanned (scan_hunk h st\<lparr>rs_range := None\<rparr>)"
proof -
  let ?st = "fold scan_line (dh_lines h) (st\<lparr>rs_pending := [], rs_range := None\<rparr>)"
  have "scanned (st\<lparr>rs_pending := [], rs_range := None\<rparr>)" using assms by (simp add: scanned_def in_ranges_def)
  then have "scanned ?st" by (rule scan_lines_scanned)
  then show ?thesis by (auto simp: scan_hunk_def Let_def scanned_def in_ranges_def split: option.splits)
qed

lemma scan_hunks_scanned: "scanned (scan_hunks hunks\<lparr>rs_range := None\<rparr>)"
proof -
  have "scanned (fold scan_hunk hunks st\<lparr>rs_range := None\<rparr>)" if "scanned (st\<lparr>rs_range := None\<rparr>)" for st
    using that by (induction hunks arbitrary: st) (simp_all add: scan_hunk_scanned)
  from this [of render_init] show ?thesis by (simp add: scan_hunks_def render_init_def scanned_def)
qed

subsection \<open>The properties\<close>

text \<open>C3: what must not leave is not in the prompt.  Every file of the prompt is one of the pull request that is
  neither ignored nor a configuration file, and in the prompt and in what the answer is checked against a numbered line
  that a secret rule flagged is printed as redacted.\<close>

theorem secrets_redacted:
  "\<exists>kept notices. rq_user (pb_request (buildReviewPrompt mm inp)) = prompt_user inp kept notices \<and>
    (\<forall>f \<in> set kept. (\<exists>file \<in> set (pi_files inp). pf_path file = rf_path f \<and> \<not> isIgnoredPath mm (rf_path f) \<and> \<not> isMustScanPath mm (rf_path f)) \<and>
      (\<forall>added n t. NumberedLine added n t \<in> set (rf_lines f) \<longrightarrow>
        (\<exists>s \<in> set (pi_staticFindings inp). flags s (rf_path f) n) \<longrightarrow> t = REDACTED)) \<and>
    (\<forall>path sent n t. al_get (pb_sentFiles (buildReviewPrompt mm inp)) path = Some sent \<and> al_get (sn_lines sent) n = Some t \<longrightarrow>
      (\<exists>f \<in> set kept. rf_path f = path) \<and> ((\<exists>s \<in> set (pi_staticFindings inp). flags s path n) \<longrightarrow> t = REDACTED))"
proof -
  let ?R = "rendered_files mm inp"
  obtain k where r: "rq_user (pb_request (buildReviewPrompt mm inp)) = prompt_user inp (take k ?R)
      (prompt_notices (map rf_path (drop k ?R)) (not_sent mm inp))"
    "pb_sentFiles (buildReviewPrompt mm inp) = al_of (map (\<lambda>f. (rf_path f, rf_sent f)) (take k ?R))"
    by (rule build_review_prompt [of mm inp])
  have f0: "\<exists>file \<in> set (pi_files inp). pf_path file = rf_path f \<and> \<not> isIgnoredPath mm (rf_path f) \<and> \<not> isMustScanPath mm (rf_path f)"
    and red: "(\<exists>s \<in> set (pi_staticFindings inp). flags s (rf_path f) n) \<Longrightarrow> NumberedLine a n t \<in> set (rf_lines f) \<Longrightarrow> t = REDACTED"
    and sent: "sn_lines (rf_sent f) = fold shown_line (rf_lines f) []" if kept: "f \<in> set (take k ?R)" for f a n t
  proof -
    obtain fl where f: "fl \<in> set (pi_files inp)" "sendable_file mm fl"
      "renderFile fl (secret_lines (pi_staticFindings inp) (pf_path fl)) (pi_contextLines inp) = Some f"
      using rendered_file_of [of f mm inp] in_set_takeD [OF kept] by blast
    note o = renderFile_Some [OF f(3)]
    show "\<exists>file \<in> set (pi_files inp). pf_path file = rf_path f \<and> \<not> isIgnoredPath mm (rf_path f) \<and> \<not> isMustScanPath mm (rf_path f)"
      using f(1,2) o(1) by (auto simp: sendable_file_def)
    show "t = REDACTED" if "\<exists>s \<in> set (pi_staticFindings inp). flags s (rf_path f) n" "NumberedLine a n t \<in> set (rf_lines f)"
      using o(5) [OF that(2)] that(1) secret_lines_complete [of n "pi_staticFindings inp" "pf_path fl"] o(1) by simp
    show "sn_lines (rf_sent f) = fold shown_line (rf_lines f) []" by (rule o(3))
  qed
  have "(\<exists>f \<in> set (take k ?R). rf_path f = path) \<and> ((\<exists>s \<in> set (pi_staticFindings inp). flags s path n) \<longrightarrow> t = REDACTED)"
    if here: "al_get (pb_sentFiles (buildReviewPrompt mm inp)) path = Some sf" "al_get (sn_lines sf) n = Some t" for path sf n t
  proof -
    obtain f where f: "f \<in> set (take k ?R)" "rf_path f = path" "rf_sent f = sf"
      using al_get_of_in [OF here(1) [unfolded r(2)]] by auto
    from shown_lines [OF here(2) [folded f(3), unfolded sent [OF f(1)]]] obtain a where "NumberedLine a n t \<in> set (rf_lines f)" by auto
    with red [OF f(1) _ this] f show ?thesis by auto
  qed
  with r(1) f0 red show ?thesis by blast
qed

lemma estimateTokens_mono: "length s \<le> length t \<Longrightarrow> estimateTokens s \<le> estimateTokens t"
  by (simp add: estimateTokens_def div_le_mono)

lemma estimateTokens_extra: "length t \<le> length s + 6 \<Longrightarrow> estimateTokens t \<le> estimateTokens s + 2"
proof -
  assume "length t \<le> length s + 6"
  then have "2 * length t + 6 \<le> (2 * length s + 6) + 2 * 7" by simp
  then have "(2 * length t + 6) div 7 \<le> ((2 * length s + 6) + 2 * 7) div 7" by (rule div_le_mono)
  then show ?thesis by (simp add: estimateTokens_def)
qed

lemma file_order_comparator: "file_order inp a b \<le> 0 \<Longrightarrow> file_rank inp a \<le> file_rank inp b"
  by (auto simp: file_order_def split: if_splits)

interpretation prompt_order: js_comparator "file_order inp" for inp
  by unfold_locales (auto simp: file_order_def split: if_splits)

lemma rendered_ranks:
  "\<exists>files. sorted_wrt (\<lambda>a b. file_rank inp a \<le> file_rank inp b) files \<and> map rf_path (rendered_files mm inp) = map pf_path files"
proof -
  define fs where "fs = js_sort (file_order inp) (filter (sendable_file mm) (pi_files inp))"
  define render where "render f = renderFile f (secret_lines (pi_staticFindings inp) (pf_path f)) (pi_contextLines inp)" for f
  have "rendered_files mm inp = List.map_filter render fs"
    unfolding rendered_files_def render_def [abs_def] fs_def secret_lines_def lines_of_def Let_def by (rule refl)
  moreover have "map rf_path (List.map_filter render xs) = map pf_path (filter (\<lambda>f. render f \<noteq> None) xs)" for xs
    by (induction xs) (auto simp: map_filter_simps render_def renderFile_Some(1) split: option.split)
  moreover have "sorted_wrt (\<lambda>a b. file_rank inp a \<le> file_rank inp b) fs"
    using prompt_order.sorted_sort [of inp] by (auto simp: fs_def intro: sorted_wrt_mono_rel [OF file_order_comparator])
  ultimately show ?thesis by (metis sorted_wrt_filter)
qed

text \<open>C24: the prompt holds as many files as the budget allows.  The rendered files stand in the order of their rank: those with
  static findings, those of a risky kind, the rest.  The prompt has the longest prefix of them that is within the
  budget, the others are named as omitted, and every file that was to be sent is one or the other.  Without anything
  omitted the request is at most two tokens over the budget, those of its blank lines, as soon as it has a file.\<close>

theorem prompt_fits_budget:
  "\<exists>n files. n \<le> length (rendered_files mm inp) \<and>
    sorted_wrt (\<lambda>a b. file_rank inp a \<le> file_rank inp b) files \<and> map rf_path (rendered_files mm inp) = map pf_path files \<and>
    (\<exists>notices. rq_user (pb_request (buildReviewPrompt mm inp)) = prompt_user inp (take n (rendered_files mm inp)) notices) \<and>
    (n = 0 \<or> prompt_size inp (take n (rendered_files mm inp)) \<le> pi_maxInputTokens inp) \<and>
    (\<forall>m. n < m \<and> m \<le> length (rendered_files mm inp) \<longrightarrow> pi_maxInputTokens inp < prompt_size inp (take m (rendered_files mm inp))) \<and>
    fst ` set (pb_sentFiles (buildReviewPrompt mm inp)) = rf_path ` set (take n (rendered_files mm inp)) \<and>
    pb_filesOmitted (buildReviewPrompt mm inp) = map rf_path (drop n (rendered_files mm inp)) @ not_sent mm inp \<and>
    (pb_filesOmitted (buildReviewPrompt mm inp) = [] \<and> n > 0 \<longrightarrow>
      pb_estimatedTokens (buildReviewPrompt mm inp) \<le> pi_maxInputTokens inp + 2)"
proof -
  let ?R = "rendered_files mm inp"
  obtain n where n: "n \<le> length ?R" "n = 0 \<or> prompt_size inp (take n ?R) \<le> pi_maxInputTokens inp"
    "\<And>m. n < m \<Longrightarrow> m \<le> length ?R \<Longrightarrow> pi_maxInputTokens inp < prompt_size inp (take m ?R)"
    and r: "rq_user (pb_request (buildReviewPrompt mm inp)) = prompt_user inp (take n ?R) (prompt_notices (map rf_path (drop n ?R)) (not_sent mm inp))"
    "pb_sentFiles (buildReviewPrompt mm inp) = al_of (map (\<lambda>f. (rf_path f, rf_sent f)) (take n ?R))"
    "pb_filesOmitted (buildReviewPrompt mm inp) = map rf_path (drop n ?R) @ not_sent mm inp"
    by (rule build_review_prompt [of mm inp]) blast
  obtain files where files: "sorted_wrt (\<lambda>a b. file_rank inp a \<le> file_rank inp b) files" "map rf_path ?R = map pf_path files"
    using rendered_ranks by blast
  have "k \<in> fst ` set (al_of es) \<longleftrightarrow> k \<in> fst ` set es" for es :: "(jstr \<times> sent_file) list" and k
    using al_get_of_None [of es k] by (simp add: al_get_map_of map_of_eq_None_iff)
  then have keys: "fst ` set (al_of es) = fst ` set es" for es :: "(jstr \<times> sent_file) list" by blast
  have "pb_estimatedTokens (buildReviewPrompt mm inp) \<le> pi_maxInputTokens inp + 2" if "pb_filesOmitted (buildReviewPrompt mm inp) = []" "n > 0"
  proof -
    from that(1) r(3) have none: "map rf_path (drop n ?R) = []" "not_sent mm inp = []" by simp_all
    have "pb_estimatedTokens (buildReviewPrompt mm inp) = estimateTokens (prompt_system inp @ rq_user (pb_request (buildReviewPrompt mm inp)))"
      by (simp add: buildReviewPrompt_def Let_def case_prod_beta)
    also have "\<dots> \<le> prompt_size inp (take n ?R) + 2"
      unfolding r(1) none prompt_size_def
      by (rule estimateTokens_extra) (simp add: prompt_notices_def prompt_user_def NL_def)
    finally show ?thesis using n(2) that(2) by simp
  qed
  with n r(1,3) files show ?thesis unfolding r(2) keys
    by (intro exI [of _ n] exI [of _ files] conjI) (auto simp: image_image)
qed

text \<open>The new-side lines of a patch.\<close>

definition patch_lines :: "diff_hunk list \<Rightarrow> line_no set" where
  "patch_lines hunks = {n. \<exists>h \<in> set hunks. \<exists>l \<in> set (dh_lines h). dl_kind l \<noteq> Del \<and> dl_newLine l = Some n}"

definition text_keys :: "render_state \<Rightarrow> line_no set" where
  "text_keys st = {n. al_get (rs_text st) n \<noteq> None}"

lemma scan_line_keys:
  "text_keys (scan_line l st) = text_keys st \<union> {n. dl_kind l \<noteq> Del \<and> dl_newLine l = Some n}"
  by (auto simp: scan_line_def text_keys_def split: option.split)

lemma scan_hunk_keys: "text_keys (scan_hunk h st) = text_keys st \<union> patch_lines [h]"
proof -
  have "text_keys (fold scan_line ls st) = text_keys st \<union> {n. \<exists>l \<in> set ls. dl_kind l \<noteq> Del \<and> dl_newLine l = Some n}" for ls st
    by (induction ls arbitrary: st) (auto simp: scan_line_keys)
  moreover have "text_keys (st\<lparr>rs_pending := [], rs_range := None\<rparr>) = text_keys st" by (simp add: text_keys_def)
  moreover have "text_keys (scan_hunk h st) = text_keys (fold scan_line (dh_lines h) (st\<lparr>rs_pending := [], rs_range := None\<rparr>))"
    by (simp add: scan_hunk_def Let_def text_keys_def)
  ultimately show ?thesis by (simp add: patch_lines_def)
qed

lemma scan_hunks_keys: "text_keys (scan_hunks hunks) = patch_lines hunks"
proof -
  have "text_keys (fold scan_hunk hunks st) = text_keys st \<union> patch_lines hunks" for st
    by (induction hunks arbitrary: st) (auto simp: scan_hunk_keys patch_lines_def)
  then show ?thesis by (simp add: scan_hunks_def render_init_def text_keys_def)
qed

lemma in_patch_text: "n \<in> patch_lines hunks \<Longrightarrow> \<exists>t. al_get (rs_text (scan_hunks hunks)) n = Some t"
  using scan_hunks_keys [of hunks] by (auto simp: text_keys_def)

text \<open>Its added lines.\<close>

definition added_lines :: "diff_hunk list \<Rightarrow> line_no set" where
  "added_lines hunks = {n. \<exists>h \<in> set hunks. \<exists>l \<in> set (dh_lines h). dl_kind l = Add \<and> dl_newLine l = Some n}"

lemma added_in_patch: "added_lines hunks \<subseteq> patch_lines hunks"
  by (force simp: added_lines_def patch_lines_def)

lemma scan_line_added: "set (rs_added (scan_line l st)) = set (rs_added st) \<union> {n. dl_kind l = Add \<and> dl_newLine l = Some n}"
  by (auto simp: scan_line_def split: option.split)

lemma scan_hunk_added: "set (rs_added (scan_hunk h st)) = set (rs_added st) \<union> added_lines [h]"
proof -
  have "set (rs_added (fold scan_line ls st)) = set (rs_added st) \<union> {n. \<exists>l \<in> set ls. dl_kind l = Add \<and> dl_newLine l = Some n}" for ls st
    by (induction ls arbitrary: st) (auto simp: scan_line_added)
  then show ?thesis by (simp add: scan_hunk_def Let_def added_lines_def)
qed

lemma scan_hunks_added: "set (rs_added (scan_hunks hunks)) = added_lines hunks"
proof -
  have "set (rs_added (fold scan_hunk hunks st)) = set (rs_added st) \<union> added_lines hunks" for st
    by (induction hunks arbitrary: st) (auto simp: scan_hunk_added added_lines_def)
  then show ?thesis by (simp add: scan_hunks_def render_init_def)
qed

text \<open>A patch line is in a window that was not cut short.\<close>

lemma in_windows:
  assumes "n \<in> patch_lines hunks" "0 \<le> contextLines"
    and "\<And>hl. pf_headLines file = Some hl \<Longrightarrow> 1 \<le> n \<and> n \<le> int (length hl)"
  shows "\<exists>w \<in> set (windows file contextLines (scan_hunks hunks)). fst w \<le> n \<and> n \<le> snd w"
proof -
  let ?st = "scan_hunks hunks"
  obtain r where r: "r \<in> set (rs_ranges ?st)" "fst r \<le> n" "n \<le> snd r"
  proof -
    from in_patch_text [OF assms(1)] have "al_get (rs_text ?st) n \<noteq> None" by auto
    with scan_hunks_scanned [of hunks] have "\<exists>r \<in> set (rs_ranges ?st). fst r \<le> n \<and> n \<le> snd r" by (simp add: scanned_def in_ranges_def)
    with that show thesis by blast
  qed
  with assms(2,3) have "n \<in> {fst (widen (pf_headLines file) contextLines r)..snd (widen (pf_headLines file) contextLines r)}"
    by (cases "pf_headLines file") (auto simp: widen_def)
  with r(1) have "n \<in> covered (map (widen (pf_headLines file) contextLines) (rs_ranges ?st))" by (auto simp: covered_def)
  with windows_apart [of "file" contextLines ?st] have "n \<in> covered (windows file contextLines ?st)" by simp
  then show ?thesis by (auto simp: covered_def)
qed

text \<open>A file is printed line by line.  The numbered lines of a rendered file ascend, so none is printed twice, they
  are the lines the answer is checked against, and exactly the added ones are marked.  Where the head file is
  not at hand, or has all the lines of the patch, every new-side line of the patch is printed.\<close>

theorem patch_printed_once:
  assumes "renderFile file secretLines contextLines = Some f" "0 \<le> contextLines"
    "\<forall>hl. pf_headLines file = Some hl \<longrightarrow> (\<forall>n \<in> patch_lines (parsePatch (the (pf_patch file))). 1 \<le> n \<and> n \<le> int (length hl))"
    "pf_patch file \<noteq> None"
  shows "sorted_wrt (<) (numbers (rf_lines f)) \<and>
    (\<forall>a n t. NumberedLine a n t \<in> set (rf_lines f) \<longrightarrow> a = (n \<in> set (sn_addedLines (rf_sent f)))) \<and>
    (\<forall>n. al_get (sn_lines (rf_sent f)) n \<noteq> None \<longleftrightarrow> n \<in> set (numbers (rf_lines f))) \<and>
    set (sn_addedLines (rf_sent f)) = added_lines (parsePatch (the (pf_patch file))) \<and>
    patch_lines (parsePatch (the (pf_patch file))) \<subseteq> set (numbers (rf_lines f))"
proof -
  let ?hunks = "parsePatch (the (pf_patch file))" and ?st = "scan_hunks (parsePatch (the (pf_patch file)))"
  from assms(4) have p: "(case pf_patch file of Some p \<Rightarrow> p | None \<Rightarrow> []) = the (pf_patch file)" by auto
  note o = renderFile_Some [OF assms(1), unfolded p]
  have "sorted_wrt (<) (numbers (rf_lines f))"
    unfolding o(4) by (rule sorted_concat_ranges) (use windows_apart in blast)
  moreover have "a = (n \<in> set (sn_addedLines (rf_sent f)))" if "NumberedLine a n t \<in> set (rf_lines f)" for a n t
    using o(5) [OF that] by (simp add: o(2))
  moreover have "al_get (sn_lines (rf_sent f)) n \<noteq> None \<longleftrightarrow> n \<in> set (numbers (rf_lines f))" for n
    using shown_all [of "rf_lines f" "[]" n] by (simp add: o(3))
  moreover have "set (sn_addedLines (rf_sent f)) = added_lines ?hunks" by (simp add: o(2) scan_hunks_added)
  moreover have "n \<in> set (numbers (rf_lines f))" if in_patch: "n \<in> patch_lines ?hunks" for n
  proof -
    obtain w where "w \<in> set (windows file contextLines ?st)" "fst w \<le> n" "n \<le> snd w"
      using in_windows [OF in_patch assms(2)] assms(3) in_patch by blast
    moreover have "known_text (rs_text ?st) (pf_headLines file) n \<noteq> None"
      using in_patch_text [OF in_patch] by (auto simp: known_text_def)
    ultimately show ?thesis unfolding o(4) by auto
  qed
  ultimately show ?thesis by blast
qed

subsection \<open>From the prompt to an accepted finding\<close>

lemma accepted_placed:
  assumes "d \<in> set (vr_accepted (validateAiFindings findings sentFiles tiers))"
  shows "\<exists>sent. al_get sentFiles (dr_filePath d) = Some sent \<and> placed_in sent d"
proof -
  obtain f where f: "well_placed sentFiles tiers f" and d: "d = draft_of (path_of_finding f) f"
    using assms by (auto simp: validateAiFindings_def validate_fold)
  from reject_for_None [OF f [unfolded well_placed_def reason_for_def]] show ?thesis
    by (auto simp: d draft_of_def placed_in_def)
qed

text \<open>What is printed is in the text.\<close>

lemma sublist_append: "sublist x y \<Longrightarrow> sublist x (p @ y @ q)"
  unfolding sublist_def by (metis append.assoc)

lemma sublist_join: "x \<in> set xs \<Longrightarrow> sublist x (join s xs)"
proof (induction s xs rule: join.induct)
  case (3 s y z zs)
  then consider "x = y" | "sublist x (join s (z # zs))" by auto
  then show ?case
  proof cases
    case 1
    then show ?thesis using sublist_append [of x y "[]"] by simp
  next
    case 2
    then show ?thesis using sublist_append [of x "join s (z # zs)" "y @ s" "[]"] by simp
  qed
qed simp_all

lemma printed_in_prompt: "f \<in> set kept \<Longrightarrow> sublist (rf_text f) (prompt_user inp kept notices)"
proof -
  assume "f \<in> set kept"
  then have "sublist (rf_text f) (files_text kept)" using sublist_join [of "rf_text f" "map rf_text kept"] by (simp add: files_text_def)
  moreover have "sublist (files_text kept) (prompt_user inp kept notices)" unfolding prompt_user_def by (rule sublist_join) simp
  ultimately show ?thesis using sublist_order.order_trans by blast
qed

lemma rendered_distinct:
  assumes "distinct (map pf_path (pi_files inp))"
  shows "distinct (map rf_path (rendered_files mm inp))"
proof -
  define fs where "fs = js_sort (file_order inp) (filter (sendable_file mm) (pi_files inp))"
  define render where "render f = renderFile f (secret_lines (pi_staticFindings inp) (pf_path f)) (pi_contextLines inp)" for f
  have "rendered_files mm inp = List.map_filter render fs"
    unfolding rendered_files_def render_def [abs_def] fs_def secret_lines_def lines_of_def Let_def by (rule refl)
  moreover have "map rf_path (List.map_filter render xs) = map pf_path (filter (\<lambda>f. render f \<noteq> None) xs)" for xs
    by (induction xs) (auto simp: map_filter_simps render_def renderFile_Some(1) split: option.split)
  moreover have "distinct (map pf_path fs)"
  proof -
    have "mset (map pf_path fs) = mset (map pf_path (filter (sendable_file mm) (pi_files inp)))" by (simp add: fs_def)
    with assms show ?thesis by (metis distinct_map_filter mset_eq_imp_distinct_iff)
  qed
  ultimately show ?thesis by (simp add: distinct_map_filter)
qed

text \<open>C25: a finding of the model that is accepted is one of a file it was sent.  There is a changed file of the
  pull request with the finding's path that is neither ignored nor a configuration file, whose rendered text stands in the user message of
  the request and which, where no path occurs twice among the changed files, is not among the files reported as omitted; and each line
  of the finding is near an added line of its patch or, for a breaking change, is one of the lines printed of it.\<close>

theorem accepted_findings_were_sent:
  assumes "d \<in> set (vr_accepted (validateAiFindings findings (pb_sentFiles (buildReviewPrompt mm inp)) tiers))"
  shows "\<exists>file \<in> set (pi_files inp). pf_path file = dr_filePath d \<and> \<not> isIgnoredPath mm (dr_filePath d) \<and>
    \<not> isMustScanPath mm (dr_filePath d) \<and>
    (distinct (map pf_path (pi_files inp)) \<longrightarrow> dr_filePath d \<notin> set (pb_filesOmitted (buildReviewPrompt mm inp))) \<and>
    (\<exists>f. renderFile file (secret_lines (pi_staticFindings inp) (pf_path file)) (pi_contextLines inp) = Some f \<and>
      sublist (rf_text f) (rq_user (pb_request (buildReviewPrompt mm inp))) \<and> dr_lineStart d \<le> dr_lineEnd d \<and>
      (\<forall>n. dr_lineStart d \<le> n \<and> n \<le> dr_lineEnd d \<longrightarrow>
        (\<exists>m \<in> added_lines (parsePatch (the (pf_patch file))). \<bar>n - m\<bar> \<le> 1) \<or>
        dr_category d = CatBreakingChange \<and> n \<in> set (numbers (rf_lines f))))"
proof -
  let ?R = "rendered_files mm inp"
  obtain k where r: "rq_user (pb_request (buildReviewPrompt mm inp)) = prompt_user inp (take k ?R)
      (prompt_notices (map rf_path (drop k ?R)) (not_sent mm inp))"
    "pb_sentFiles (buildReviewPrompt mm inp) = al_of (map (\<lambda>f. (rf_path f, rf_sent f)) (take k ?R))"
    "pb_filesOmitted (buildReviewPrompt mm inp) = map rf_path (drop k ?R) @ not_sent mm inp"
    by (rule build_review_prompt [of mm inp])
  from accepted_placed [OF assms] obtain sf where sf: "al_get (pb_sentFiles (buildReviewPrompt mm inp)) (dr_filePath d) = Some sf"
    "placed_in sf d" by blast
  from al_get_of_in [OF sf(1) [unfolded r(2)]] obtain f where f: "f \<in> set (take k ?R)" "rf_path f = dr_filePath d" "rf_sent f = sf"
    by auto
  obtain fl where fl: "fl \<in> set (pi_files inp)" "sendable_file mm fl"
    "renderFile fl (secret_lines (pi_staticFindings inp) (pf_path fl)) (pi_contextLines inp) = Some f"
    using rendered_file_of [OF in_set_takeD [OF f(1)]] by blast
  then have p: "(case pf_patch fl of Some p \<Rightarrow> p | None \<Rightarrow> []) = the (pf_patch fl)" by (auto simp: sendable_file_def)
  note o = renderFile_Some [OF fl(3), unfolded p]
  have path: "pf_path fl = dr_filePath d" "\<not> isIgnoredPath mm (dr_filePath d)" "\<not> isMustScanPath mm (dr_filePath d)"
    using fl(2) f(2) o(1) by (auto simp: sendable_file_def)
  have kept: "dr_filePath d \<notin> set (pb_filesOmitted (buildReviewPrompt mm inp))" if "distinct (map pf_path (pi_files inp))"
  proof -
    from rendered_distinct [OF that, of mm] have "distinct (map rf_path (take k ?R) @ map rf_path (drop k ?R))"
      by (simp flip: map_append)
    then have "dr_filePath d \<notin> set (map rf_path (drop k ?R))" using f(1,2) by auto
    moreover have "dr_filePath d \<notin> set (not_sent mm inp)" using path(3) by (auto simp: not_sent_def)
    ultimately show ?thesis by (simp add: r(3))
  qed
  have "\<exists>m \<in> added_lines (parsePatch (the (pf_patch fl))). \<bar>n - m\<bar> \<le> 1" if "isReviewable n (sn_addedLines sf)" for n
    using that o(2) f(3) scan_hunks_added by (force simp: isReviewable_def)
  moreover have "al_get (sn_lines sf) n \<noteq> None \<longleftrightarrow> n \<in> set (numbers (rf_lines f))" for n
    using shown_all [of "rf_lines f" "[]" n] o(3) f(3) by simp
  ultimately have lines: "(\<exists>m \<in> added_lines (parsePatch (the (pf_patch fl))). \<bar>n - m\<bar> \<le> 1) \<or>
        dr_category d = CatBreakingChange \<and> n \<in> set (numbers (rf_lines f))" if "dr_lineStart d \<le> n" "n \<le> dr_lineEnd d" for n
    using sf(2) that by (auto simp: placed_in_def pointable_def split: if_splits)
  have "dr_lineStart d \<le> dr_lineEnd d" using sf(2) by (simp add: placed_in_def)
  then show ?thesis
    using fl(3) path kept lines printed_in_prompt [OF f(1)] unfolding r(1) by (intro bexI [OF _ fl(1)]) blast
qed

subsection \<open>An example\<close>

definition demo_patch :: jstr where
  "demo_patch = join NL [''@@ -1,2 +1,2 @@'', '' a'', ''-k = 0LD'', ''+k = N3W'']"

definition demo_file :: prompt_file where
  "demo_file = \<lparr>pf_path = ''a.ts'', pf_status = FileModified, pf_patch = Some demo_patch, pf_headLines = None\<rparr>"

definition demo_secret :: static_input where
  "demo_secret = \<lparr>si_ruleId = ''secret.generic'', si_category = Some CatSecret, si_filePath = ''a.ts'', si_lineStart = 2, si_lineEnd = 2,
    si_title = ''Secret'', si_suppressed = False\<rparr>"

definition demo_input :: prompt_input where
  "demo_input = \<lparr>pi_repoPath = ''o/r'', pi_pullTitle = ''t'', pi_pullDescription = None, pi_sourceBranch = ''f'', pi_targetBranch = ''main'',
    pi_files = [demo_file], pi_staticFindings = [demo_secret], pi_locale = ''en'', pi_contextLines = 0, pi_maxInputTokens = 100000,
    pi_maxOutputTokens = 1000, pi_timeoutMs = 1000, pi_systemSuffix = None, pi_mode = None, pi_ruleTiers = None, pi_lifecycle = None\<rparr>"

text \<open>The new value of the secret is redacted; the line that is removed with the old one is printed as it is.\<close>

lemma deleted_line_is_sent:
  "map_option rf_lines (renderFile demo_file [2] 0) =
    Some [TitleLine ''a.ts'' FileModified, NumberedLine False 1 ''a'', DeletedLine ''k = 0LD'', NumberedLine True 2 REDACTED]"
  by code_simp

lemma secrets_redacted_witness:
  "{t. \<exists>sent. al_get (pb_sentFiles (buildReviewPrompt (\<lambda>_ _. False) demo_input)) ''a.ts'' = Some sent \<and>
    al_get (sn_lines sent) 2 = Some t} \<subseteq> {REDACTED}"
proof -
  have "flags demo_secret ''a.ts'' 2" "pi_staticFindings demo_input = [demo_secret]"
    by (simp_all add: flags_def demo_secret_def demo_input_def starts_with_def)
  then have flagged: "\<exists>s \<in> set (pi_staticFindings demo_input). flags s ''a.ts'' 2" by simp
  obtain kept :: "rendered_file list" where "\<forall>path sent n t. al_get (pb_sentFiles (buildReviewPrompt (\<lambda>_ _. False) demo_input)) path = Some sent \<and>
      al_get (sn_lines sent) n = Some t \<longrightarrow> (\<exists>f \<in> set kept. rf_path f = path) \<and>
      ((\<exists>s \<in> set (pi_staticFindings demo_input). flags s path n) \<longrightarrow> t = REDACTED)"
    using secrets_redacted [of "\<lambda>_ _. False" demo_input] by blast
  with flagged show ?thesis by blast
qed

lemma prompt_fits_budget_witness:
  "\<exists>n \<le> length (rendered_files (\<lambda>_ _. False) demo_input).
    (n = 0 \<or> prompt_size demo_input (take n (rendered_files (\<lambda>_ _. False) demo_input)) \<le> 100000) \<and>
    pb_filesOmitted (buildReviewPrompt (\<lambda>_ _. False) demo_input) =
      map rf_path (drop n (rendered_files (\<lambda>_ _. False) demo_input)) @ not_sent (\<lambda>_ _. False) demo_input"
proof -
  have "pi_maxInputTokens demo_input = 100000" by (simp add: demo_input_def)
  with prompt_fits_budget [of "\<lambda>_ _. False" demo_input] show ?thesis by (elim exE conjE) (intro exI conjI, simp_all)
qed

lemma patch_printed_once_witness: "\<exists>f. renderFile demo_file [2] 0 = Some f \<and> set (numbers (rf_lines f)) \<supseteq> {1, 2}"
proof -
  obtain f where f: "renderFile demo_file [2] 0 = Some f" using deleted_line_is_sent by auto
  have "{1, 2} \<subseteq> patch_lines (parsePatch demo_patch)"
  proof -
    have "map dh_lines (parsePatch demo_patch) = [[\<lparr>dl_kind = Context, dl_newLine = Some 1, dl_oldLine = Some 1, dl_text = ''a''\<rparr>,
      \<lparr>dl_kind = Del, dl_newLine = None, dl_oldLine = Some 2, dl_text = ''k = 0LD''\<rparr>,
      \<lparr>dl_kind = Add, dl_newLine = Some 2, dl_oldLine = None, dl_text = ''k = N3W''\<rparr>]]" by code_simp
    then show ?thesis by (auto simp: patch_lines_def map_eq_Cons_conv)
  qed
  with patch_printed_once [OF f] f show ?thesis by (auto simp: demo_file_def)
qed

lemma accepted_findings_were_sent_witness:
  "dr_filePath ` set (vr_accepted (validateAiFindings [sample_report] (pb_sentFiles (buildReviewPrompt (\<lambda>_ _. False) demo_input)) ALL_RULE_TIERS)) \<subseteq> {''a.ts''}"
  using accepted_findings_were_sent [of _ "[sample_report]" "\<lambda>_ _. False" demo_input ALL_RULE_TIERS]
  by (force simp: demo_input_def demo_file_def)

end
