(* ===== verification/Scan_Requests.thy ===== *)
theory Scan_Requests
  imports Scan_Queue Members
begin

section \<open>Scans on request\<close>

text \<open>
  \<open>src/modules/scans/scans.service.ts\<close> with \<open>scan-in-flight.ts\<close> and the limiter of
  \<open>src/common/redis/rate-limiter.service.ts\<close>: a person asks for a scan, and the findings of a scan are
  listed.  The scan a request starts is that of \<open>Scan_Queue\<close>, run without interruption.  The clock, the id of the new
  scan, the progress a worker reports and the collation of the database are parameters.
\<close>

subsection \<open>The tables\<close>

record request_pull =
  qp_id :: jstr
  qp_organizationId :: jstr
  qp_repositoryId :: jstr
  qp_headSha :: "jstr option"

text \<open>\<open>qs_scanOrgs\<close> is the organization of a scan; \<open>qs_slots\<close> are the limiter's keys in Redis with the time they expire.\<close>

record request_db =
  qs_pulls :: "request_pull list"
  qs_scanOrgs :: "(jstr \<times> jstr) list"
  qs_world :: world
  qs_findings :: "db_finding list"
  qs_slots :: "(jstr \<times> int) list"

record request_env =
  qe_now :: int  \<comment> \<open>seconds\<close>
  qe_redisUp :: bool
  qe_up :: bool  \<comment> \<open>the database and the queue\<close>
  qe_newId :: jstr

subsection \<open>What is in flight\<close>

definition SCAN_IN_FLIGHT :: "scan_status list" where "SCAN_IN_FLIGHT = [ScanQueued, ScanRunning]"

definition AI_IN_FLIGHT :: "ai_scan_status list" where "AI_IN_FLIGHT = [AiQueued, AiRunning]"

datatype rescan_blocker = ScanInProgress | AiInProgress

definition rescanBlocker :: "bool \<Rightarrow> ai_scan_status option \<Rightarrow> rescan_blocker option" where
  "rescanBlocker staticInFlight latestAiStatus =
    (if staticInFlight then Some ScanInProgress
     else (case latestAiStatus of Some s \<Rightarrow> if s \<in> set AI_IN_FLIGHT then Some AiInProgress else None | None \<Rightarrow> None))"

fun blocker_name :: "rescan_blocker \<Rightarrow> jstr" where
  "blocker_name ScanInProgress = ''scan_in_progress''"
| "blocker_name AiInProgress = ''ai_in_progress''"

subsection \<open>The limiter\<close>

text \<open>\<open>SET key EX ttl NX\<close>; a Redis that does not answer lets everything through.\<close>

definition tryAcquire :: "request_env \<Rightarrow> jstr \<Rightarrow> int \<Rightarrow> (jstr \<times> int) list \<Rightarrow> bool \<times> (jstr \<times> int) list" where
  "tryAcquire env key ttl slots =
    (if \<not> qe_redisUp env then (True, slots)
     else if \<exists>(k, expires) \<in> set slots. k = key \<and> qe_now env < expires then (False, slots)
     else (True, (key, qe_now env + ttl) # filter (\<lambda>(k, _). k \<noteq> key) slots))"

subsection \<open>Asking for a scan\<close>

definition RESCAN_WINDOW_SECONDS :: int where "RESCAN_WINDOW_SECONDS = 30"
definition SCAN_HISTORY_LIMIT :: nat where "SCAN_HISTORY_LIMIT = 20"
definition QUEUE_POSITION_SCAN_LIMIT :: nat where "QUEUE_POSITION_SCAN_LIMIT = 1000"

definition rescan_key :: "jstr \<Rightarrow> jstr" where "rescan_key pullId = ''ratelimit:rescan:pull:'' @ pullId"

definition findPullOrThrow :: "request_db \<Rightarrow> jstr \<Rightarrow> jstr \<Rightarrow> jstr \<Rightarrow> api_error + request_pull" where
  "findPullOrThrow db organizationId repositoryId pullId =
    (case List.find (\<lambda>p. qp_id p = pullId) (qs_pulls db) of
      None \<Rightarrow> Inl (404, [], ''Pull request not found.'')
    | Some p \<Rightarrow> if qp_organizationId p \<noteq> organizationId \<or> qp_repositoryId p \<noteq> repositoryId
        then Inl (404, [], ''Pull request not found.'') else Inr p)"

definition findScanOrThrow :: "request_db \<Rightarrow> jstr \<Rightarrow> jstr \<Rightarrow> api_error + scan_row" where
  "findScanOrThrow db organizationId scanId =
    (case scan_of (qs_world db) scanId of
      None \<Rightarrow> Inl (404, [], ''Scan not found.'')
    | Some s \<Rightarrow> if al_get (qs_scanOrgs db) scanId = Some organizationId then Inr s else Inl (404, [], ''Scan not found.''))"

definition latest_ai_status :: "world \<Rightarrow> jstr \<Rightarrow> ai_scan_status option" where
  "latest_ai_status w pullId =
    (case w_latest w pullId of
      None \<Rightarrow> None
    | Some i \<Rightarrow> (case scan_of w i of Some s \<Rightarrow> sr_aiStatus s | None \<Rightarrow> None))"

definition rescan_check :: "request_db \<Rightarrow> request_pull \<Rightarrow> api_error option" where
  "rescan_check db pull =
    (if qp_headSha pull = None \<or> qp_headSha pull = Some [] then Some (409, ''pullId'', ''no_head_sha'')
     else map_option (\<lambda>b. (409, ''pullId'', blocker_name b))
       (rescanBlocker (List.find (\<lambda>s. sr_pullId s = qp_id pull \<and> sr_status s \<in> set SCAN_IN_FLIGHT) (w_scans (qs_world db)) \<noteq> None)
         (latest_ai_status (qs_world db) (qp_id pull))))"

definition rescan_input :: "jstr \<Rightarrow> jstr \<Rightarrow> request_pull \<Rightarrow> bool \<Rightarrow> enqueue_input" where
  "rescan_input organizationId repositoryId pull full =
    \<lparr>ei_organizationId = organizationId, ei_repositoryId = repositoryId, ei_pullId = qp_id pull,
     ei_headSha = (case qp_headSha pull of Some sha \<Rightarrow> sha | None \<Rightarrow> []), ei_trigger = TriggerRescan, ei_full = full\<rparr>"

definition requestRescan :: "request_env \<Rightarrow> jstr \<Rightarrow> jstr \<Rightarrow> jstr \<Rightarrow> bool \<Rightarrow> request_db \<Rightarrow>
    (api_error + jstr \<times> scan_status) \<times> request_db" where
  "requestRescan env organizationId repositoryId pullId full db =
    (case findPullOrThrow db organizationId repositoryId pullId of
      Inl e \<Rightarrow> (Inl e, db)
    | Inr pull \<Rightarrow>
       (case rescan_check db pull of
          Some e \<Rightarrow> (Inl e, db)
        | None \<Rightarrow>
           (let (allowed, slots) = tryAcquire env (rescan_key pullId) RESCAN_WINDOW_SECONDS (qs_slots db)
            in if \<not> allowed then (Inl (429, ''pullId'', ''rescan_rate_limited''), db)
               else (let (w, ph) = enqueue (qe_newId env) (qe_up env) (qs_world db) (rescan_input organizationId repositoryId pull full);
                         db' = db\<lparr>qs_slots := slots, qs_world := w\<rparr>
                     in (case ph of
                          PhReturned r \<Rightarrow> (Inr (er_scanId r, er_status r), db')
                        | _ \<Rightarrow> (Inl (500, [], ''error''), db'))))))"

subsection \<open>Reading scans\<close>

definition listForPull :: "request_db \<Rightarrow> jstr \<Rightarrow> jstr \<Rightarrow> jstr \<Rightarrow> api_error + scan_row list" where
  "listForPull db organizationId repositoryId pullId =
    (case findPullOrThrow db organizationId repositoryId pullId of
      Inl e \<Rightarrow> Inl e
    | Inr p \<Rightarrow> Inr (take SCAN_HISTORY_LIMIT (filter (\<lambda>s. sr_pullId s = pullId) (rev (w_scans (qs_world db))))))"

text \<open>The place in the queue, from one; \<open>None\<close> where the queue does not answer or the job is not among the first.\<close>

fun index_in :: "'a \<Rightarrow> 'a list \<Rightarrow> nat option" where
  "index_in x [] = None"
| "index_in x (y # ys) = (if x = y then Some 0 else map_option Suc (index_in x ys))"

definition readQueuePosition :: "bool \<Rightarrow> world \<Rightarrow> jstr \<Rightarrow> nat option" where
  "readQueuePosition queueUp w scanId =
    (if \<not> queueUp then None
     else map_option Suc (index_in scanId (take QUEUE_POSITION_SCAN_LIMIT (map fst (filter (\<lambda>(i, s). s = JobWaiting) (w_jobs w))))))"

definition getScan :: "bool \<Rightarrow> (jstr \<Rightarrow> (jstr \<times> rat) option) \<Rightarrow> request_db \<Rightarrow> jstr \<Rightarrow> jstr \<Rightarrow>
    api_error + scan_row \<times> (jstr \<times> rat) option \<times> nat option" where
  "getScan queueUp readProgress db organizationId scanId =
    (case findScanOrThrow db organizationId scanId of
      Inl e \<Rightarrow> Inl e
    | Inr s \<Rightarrow> Inr (s, if sr_status s \<in> set SCAN_IN_FLIGHT then readProgress (sr_id s) else None,
        if sr_status s = ScanQueued then readQueuePosition queueUp (qs_world db) (sr_id s) else None))"

text \<open>\<open>findActiveScans\<close>: of the scans in flight, newest first, the first of each pull request.\<close>

definition first_per_pull :: "scan_row \<Rightarrow> (jstr \<times> scan_row) list \<Rightarrow> (jstr \<times> scan_row) list" where
  "first_per_pull s m = (if al_get m (sr_pullId s) = None then al_set (sr_pullId s) s m else m)"

definition findActiveScans :: "(jstr \<Rightarrow> (jstr \<times> rat) option) \<Rightarrow> world \<Rightarrow> jstr list \<Rightarrow>
    (jstr \<times> jstr \<times> scan_status \<times> (jstr \<times> rat) option) list" where
  "findActiveScans readProgress w pullIds =
    (if pullIds = [] then []
     else map (\<lambda>(p, s). (p, sr_id s, sr_status s, readProgress (sr_id s)))
       (fold first_per_pull (filter (\<lambda>s. sr_pullId s \<in> set pullIds \<and> sr_status s \<in> set SCAN_IN_FLIGHT) (rev (w_scans w))) []))"

subsection \<open>Listing findings\<close>

datatype status_filter = ListActive | ListResolved | ListAll

definition ACTIVE_STATUSES :: "finding_status list" where "ACTIVE_STATUSES = [NEW, PERSISTED, REOPENED]"

fun STATUS_RANK :: "finding_status \<Rightarrow> int" where
  "STATUS_RANK REOPENED = 0"
| "STATUS_RANK NEW = 1"
| "STATUS_RANK PERSISTED = 2"
| "STATUS_RANK RESOLVED = 3"

text \<open>The place of a severity in the enumeration of the schema.\<close>

fun severity_place :: "finding_severity \<Rightarrow> int" where
  "severity_place CRITICAL = 0"
| "severity_place MAJOR = 1"
| "severity_place MINOR = 2"
| "severity_place INFO = 3"

definition status_where :: "status_filter \<Rightarrow> db_finding \<Rightarrow> bool" where
  "status_where statusFilter f =
    (case statusFilter of
      ListActive \<Rightarrow> fr_status f \<in> set ACTIVE_STATUSES
    | ListResolved \<Rightarrow> fr_status f = RESOLVED
    | ListAll \<Rightarrow> True)"

definition finding_order :: "(jstr \<Rightarrow> jstr \<Rightarrow> int) \<Rightarrow> db_finding \<Rightarrow> db_finding \<Rightarrow> int" where
  "finding_order collate a b =
    (if severity_place (fd_severity a) \<noteq> severity_place (fd_severity b)
     then severity_place (fd_severity a) - severity_place (fd_severity b)
     else if collate (fd_filePath a) (fd_filePath b) \<noteq> 0 then collate (fd_filePath a) (fd_filePath b)
     else fd_lineStart a - fd_lineStart b)"

definition found_rows :: "(jstr \<Rightarrow> jstr \<Rightarrow> int) \<Rightarrow> request_db \<Rightarrow> jstr \<Rightarrow> bool \<Rightarrow> status_filter \<Rightarrow> db_finding list" where
  "found_rows collate db scanId includeSuppressed statusFilter =
    js_sort (finding_order collate) (filter (\<lambda>f. db_scanId f = scanId \<and> status_where statusFilter f \<and>
      (includeSuppressed \<or> fd_suppressedReason f = None)) (qs_findings db))"

definition byStatusRank :: "db_finding \<Rightarrow> db_finding \<Rightarrow> int" where
  "byStatusRank a b = STATUS_RANK (fr_status a) - STATUS_RANK (fr_status b)"

text \<open>\<open>byFile\<close> is a plain object: under the name of something every object inherits, the sum is a text.\<close>

datatype file_count = FileCount nat | FileText

definition OBJECT_NAMES :: "jstr list" where
  "OBJECT_NAMES = [''constructor'', ''__proto__'', ''toString'', ''toLocaleString'', ''valueOf'', ''hasOwnProperty'',
    ''isPrototypeOf'', ''propertyIsEnumerable'', ''__defineGetter__'', ''__defineSetter__'', ''__lookupGetter__'', ''__lookupSetter__'']"

definition bump_file :: "jstr \<Rightarrow> (jstr \<times> file_count) list \<Rightarrow> (jstr \<times> file_count) list" where
  "bump_file path m =
    (if path = ''__proto__'' then m
     else al_set path (case al_get m path of
         Some (FileCount n) \<Rightarrow> FileCount (n + 1)
       | Some FileText \<Rightarrow> FileText
       | None \<Rightarrow> if path \<in> set OBJECT_NAMES then FileText else FileCount 1) m)"

record scan_findings =
  sl_items :: "db_finding list"
  sl_byFile :: "(jstr \<times> file_count) list"
  sl_static :: nat
  sl_ai :: nat
  sl_critical :: nat
  sl_major :: nat
  sl_minor :: nat
  sl_byStatus :: "finding_status \<Rightarrow> nat"
  sl_suppressedByReason :: "suppression_reason \<Rightarrow> nat"

definition counted :: "db_finding \<Rightarrow> scan_findings \<Rightarrow> scan_findings" where
  "counted f r =
    (if fr_status f = RESOLVED then r
     else r\<lparr>sl_byFile := bump_file (fd_filePath f) (sl_byFile r),
       sl_ai := sl_ai r + (if fd_source f = AI then 1 else 0),
       sl_static := sl_static r + (if fd_source f = AI then 0 else 1),
       sl_critical := sl_critical r + (if fd_severity f = CRITICAL then 1 else 0),
       sl_major := sl_major r + (if fd_severity f = MAJOR then 1 else 0),
       sl_minor := sl_minor r + (if fd_severity f = MINOR then 1 else 0)\<rparr>)"

definition group_count :: "(db_finding \<Rightarrow> bool) \<Rightarrow> request_db \<Rightarrow> jstr \<Rightarrow> nat" where
  "group_count p db scanId = length (filter (\<lambda>f. db_scanId f = scanId \<and> p f) (qs_findings db))"

definition listFindings :: "(jstr \<Rightarrow> jstr \<Rightarrow> int) \<Rightarrow> request_db \<Rightarrow> jstr \<Rightarrow> jstr \<Rightarrow> bool \<Rightarrow> status_filter \<Rightarrow>
    api_error + scan_findings" where
  "listFindings collate db organizationId scanId includeSuppressed statusFilter =
    (case findScanOrThrow db organizationId scanId of
      Inl e \<Rightarrow> Inl e
    | Inr s \<Rightarrow>
       (let findings = found_rows collate db scanId includeSuppressed statusFilter;
            active = js_sort byStatusRank (filter (\<lambda>f. fd_suppressedReason f = None) findings);
            suppressed = js_sort byStatusRank (filter (\<lambda>f. fd_suppressedReason f \<noteq> None) findings)
        in Inr (fold counted active
          \<lparr>sl_items = active @ suppressed, sl_byFile = [], sl_static = 0, sl_ai = 0, sl_critical = 0, sl_major = 0, sl_minor = 0,
           sl_byStatus = (\<lambda>st. group_count (\<lambda>f. fd_suppressedReason f = None \<and> fr_status f = st) db scanId),
           sl_suppressedByReason = (\<lambda>r. group_count (\<lambda>f. fd_suppressedReason f = Some r \<and> fr_status f \<noteq> RESOLVED) db scanId)\<rparr>)))"
subsection \<open>A request\<close>

lemma in_flight_statuses: "sr_status s \<in> set SCAN_IN_FLIGHT \<longleftrightarrow> in_flight s"
  by (auto simp: SCAN_IN_FLIGHT_def in_flight_def)

lemma none_in_flight:
  "List.find (\<lambda>s. sr_pullId s = p \<and> sr_status s \<in> set SCAN_IN_FLIGHT) (w_scans w) = None \<longleftrightarrow> in_flight_of w p = []"
  by (auto simp: find_None_iff in_flight_of_def filter_empty_conv in_flight_statuses)

lemma superseded_nothing: "in_flight_of w p = [] \<Longrightarrow> map (superseded p) (w_scans w) = w_scans w"
  by (intro map_idI) (auto simp: superseded_def in_flight_of_def filter_empty_conv)

lemma tryAcquire_once:
  assumes "qe_redisUp env" "qe_redisUp env'" "qe_now env \<le> qe_now env'" "qe_now env' < qe_now env + ttl"
    "tryAcquire env key ttl slots = (True, slots')"
  shows "tryAcquire env' key ttl slots' = (False, slots')"
  using assms by (auto simp: tryAcquire_def split: if_splits)

lemma findPullOrThrow_Inr:
  "findPullOrThrow db organizationId repositoryId pullId = Inr pull \<Longrightarrow>
    pull \<in> set (qs_pulls db) \<and> qp_id pull = pullId \<and> qp_organizationId pull = organizationId \<and> qp_repositoryId pull = repositoryId"
  by (auto simp: findPullOrThrow_def dest!: find_SomeD split: option.splits if_splits)

lemma rescan_check_None:
  assumes "rescan_check db pull = None"
  shows "\<exists>sha. qp_headSha pull = Some sha \<and> sha \<noteq> []" "in_flight_of (qs_world db) (qp_id pull) = []"
    "latest_ai_status (qs_world db) (qp_id pull) \<notin> {Some AiQueued, Some AiRunning}"
proof -
  from assms have h: "qp_headSha pull \<noteq> None" "qp_headSha pull \<noteq> Some []"
    and b: "rescanBlocker (List.find (\<lambda>s. sr_pullId s = qp_id pull \<and> sr_status s \<in> set SCAN_IN_FLIGHT) (w_scans (qs_world db)) \<noteq> None)
      (latest_ai_status (qs_world db) (qp_id pull)) = None"
    by (auto simp: rescan_check_def split: if_splits)
  from h show "\<exists>sha. qp_headSha pull = Some sha \<and> sha \<noteq> []" by auto
  from b show "in_flight_of (qs_world db) (qp_id pull) = []"
    unfolding none_in_flight [symmetric] by (auto simp: rescanBlocker_def split: if_splits)
  from b show "latest_ai_status (qs_world db) (qp_id pull) \<notin> {Some AiQueued, Some AiRunning}"
    by (auto simp: rescanBlocker_def AI_IN_FLIGHT_def split: if_splits)
qed

lemma rescan_check_busy:
  assumes "qp_headSha pull = Some sha" "sha \<noteq> []" "in_flight_of (qs_world db) (qp_id pull) \<noteq> []"
  shows "rescan_check db pull = Some (409, ''pullId'', ''scan_in_progress'')"
  using assms unfolding none_in_flight [symmetric] by (simp add: rescan_check_def rescanBlocker_def)

text \<open>C8: a person gets a scan only when nothing is at work, and then exactly one.  With every service up, a request that is
  refused changes nothing.  One that is granted found the pull request in the organization and repository it names,
  with a head commit, no scan of it in flight and no AI review of its latest scan at work.  It leaves all scans as they were
  and adds one, queued for the head commit and with a job; until that is finished another request is refused as in
  progress, and within thirty seconds, while Redis answers, the limiter refuses it in any case.\<close>

theorem rescan_granted_once:
  assumes run: "requestRescan env organizationId repositoryId pullId full db = (res, db')" and up: "qe_up env"
    and fresh: "qe_newId env \<notin> sr_id ` set (w_scans (qs_world db))" "al_get (w_jobs (qs_world db)) (qe_newId env) = None"
      "distinct (map sr_id (w_scans (qs_world db)))"
  shows "case res of Inl e \<Rightarrow> db' = db
    | Inr (i, st) \<Rightarrow> i = qe_newId env \<and> st = ScanQueued \<and>
       (\<exists>pull new. pull \<in> set (qs_pulls db) \<and> qp_id pull = pullId \<and> qp_organizationId pull = organizationId \<and>
          qp_repositoryId pull = repositoryId \<and> in_flight_of (qs_world db) pullId = [] \<and>
          latest_ai_status (qs_world db) pullId \<notin> {Some AiQueued, Some AiRunning} \<and>
          w_scans (qs_world db') = w_scans (qs_world db) @ [new] \<and> sr_id new = i \<and> sr_pullId new = pullId \<and>
          qp_headSha pull = Some (sr_headSha new)) \<and>
       in_flight_of (qs_world db') pullId = [i] \<and> al_get (w_jobs (qs_world db')) i = Some JobWaiting \<and>
       (\<forall>env' full'. requestRescan env' organizationId repositoryId pullId full' db' = (Inl (409, ''pullId'', ''scan_in_progress''), db')) \<and>
       (\<forall>env'. qe_redisUp env \<and> qe_redisUp env' \<and> qe_now env \<le> qe_now env' \<and> qe_now env' < qe_now env + 30 \<longrightarrow>
          \<not> fst (tryAcquire env' (rescan_key pullId) RESCAN_WINDOW_SECONDS (qs_slots db')))"
proof (cases "findPullOrThrow db organizationId repositoryId pullId")
  case (Inl e)
  with run show ?thesis by (auto simp: requestRescan_def)
next
  case (Inr pull)
  note pull = findPullOrThrow_Inr [OF Inr]
  show ?thesis
  proof (cases "rescan_check db pull")
    case (Some e)
    with Inr run show ?thesis by (auto simp: requestRescan_def)
  next
    case None
    from rescan_check_None(1) [OF None] obtain sha where sha: "qp_headSha pull = Some sha" "sha \<noteq> []" by blast
    have idle: "in_flight_of (qs_world db) pullId = []" "latest_ai_status (qs_world db) pullId \<notin> {Some AiQueued, Some AiRunning}"
      using rescan_check_None(2,3) [OF None] pull by auto
    obtain allowed slots where slot: "tryAcquire env (rescan_key pullId) RESCAN_WINDOW_SECONDS (qs_slots db) = (allowed, slots)" by fastforce
    show ?thesis
    proof (cases allowed)
      case False
      with Inr None slot run show ?thesis by (auto simp: requestRescan_def)
    next
      case True
      let ?inp = "rescan_input organizationId repositoryId pull full"
      have inp: "ei_pullId ?inp = pullId" "ei_headSha ?inp = sha" "ei_trigger ?inp \<noteq> TriggerWebhook"
        using pull sha by (simp_all add: rescan_input_def)
      obtain w ph where e: "enqueue (qe_newId env) True (qs_world db) ?inp = (w, ph)" by fastforce
      from enqueue_alone [OF fresh e] inp(3) obtain new where n:
        "ph = PhReturned \<lparr>er_scanId = qe_newId env, er_status = ScanQueued, er_deduplicated = False\<rparr>"
        "in_flight_of w pullId = [qe_newId env]" "al_get (w_jobs w) (qe_newId env) = Some JobWaiting"
        "w_scans w = map (superseded pullId) (w_scans (qs_world db)) @ [new]" "same_sha ?inp new"
        unfolding inp by blast
      have scans: "w_scans w = w_scans (qs_world db) @ [new]" using n(4) superseded_nothing [OF idle(1)] by simp
      have new: "sr_id new = qe_newId env" "sr_pullId new = pullId" "sr_headSha new = sha"
      proof -
        from n(5) inp show "sr_pullId new = pullId" "sr_headSha new = sha" by (simp_all add: same_sha_def)
        have "in_flight_of w pullId = in_flight_of (qs_world db) pullId @ (if sr_pullId new = pullId \<and> in_flight new then [sr_id new] else [])"
          by (simp add: in_flight_of_def scans)
        with n(2) idle(1) show "sr_id new = qe_newId env" by (auto split: if_splits)
      qed
      have r: "res = Inr (qe_newId env, ScanQueued)" "db' = db\<lparr>qs_slots := slots, qs_world := w\<rparr>"
        using run Inr None slot True up e n(1) by (simp_all add: requestRescan_def)
      have again: "requestRescan env' organizationId repositoryId pullId full' db' = (Inl (409, ''pullId'', ''scan_in_progress''), db')" for env' full'
      proof -
        have "findPullOrThrow db' organizationId repositoryId pullId = Inr pull" using Inr by (simp add: r(2) findPullOrThrow_def)
        moreover have "rescan_check db' pull = Some (409, ''pullId'', ''scan_in_progress'')"
          using n(2) pull by (intro rescan_check_busy [OF sha]) (simp add: r(2))
        ultimately show ?thesis by (simp add: requestRescan_def)
      qed
      have limited: "\<not> fst (tryAcquire env' (rescan_key pullId) RESCAN_WINDOW_SECONDS (qs_slots db'))"
        if "qe_redisUp env" "qe_redisUp env'" "qe_now env \<le> qe_now env'" "qe_now env' < qe_now env + 30" for env'
      proof -
        from slot True have "tryAcquire env (rescan_key pullId) RESCAN_WINDOW_SECONDS (qs_slots db) = (True, slots)" by simp
        from tryAcquire_once [OF that(1-3) _ this] that(4) show ?thesis by (simp add: RESCAN_WINDOW_SECONDS_def r(2))
      qed
      from n(2,3) again limited scans new sha pull idle r show ?thesis by auto
    qed
  qed
qed

subsection \<open>A listing\<close>

definition live :: "db_finding \<Rightarrow> bool" where
  "live f \<longleftrightarrow> fd_suppressedReason f = None \<and> fr_status f \<noteq> RESOLVED"

lemma counted_fold:
  "sl_items (fold counted fs r) = sl_items r" "sl_byStatus (fold counted fs r) = sl_byStatus r"
  "sl_suppressedByReason (fold counted fs r) = sl_suppressedByReason r"
  "sl_static (fold counted fs r) + sl_ai (fold counted fs r) = sl_static r + sl_ai r + length (filter (\<lambda>f. fr_status f \<noteq> RESOLVED) fs)"
  "sl_ai (fold counted fs r) = sl_ai r + length (filter (\<lambda>f. fr_status f \<noteq> RESOLVED \<and> fd_source f = AI) fs)"
  "sl_critical (fold counted fs r) = sl_critical r + length (filter (\<lambda>f. fr_status f \<noteq> RESOLVED \<and> fd_severity f = CRITICAL) fs)"
  "sl_major (fold counted fs r) = sl_major r + length (filter (\<lambda>f. fr_status f \<noteq> RESOLVED \<and> fd_severity f = MAJOR) fs)"
  "sl_minor (fold counted fs r) = sl_minor r + length (filter (\<lambda>f. fr_status f \<noteq> RESOLVED \<and> fd_severity f = MINOR) fs)"
  by (induction fs arbitrary: r) (simp_all add: counted_def)

definition file_value :: "nat \<Rightarrow> file_count option" where
  "file_value n = (if n = 0 then None else Some (FileCount n))"

lemma counted_files:
  assumes "path \<notin> set OBJECT_NAMES" "al_get (sl_byFile r) path = file_value n"
  shows "al_get (sl_byFile (fold counted fs r)) path =
    file_value (n + length (filter (\<lambda>f. fr_status f \<noteq> RESOLVED \<and> fd_filePath f = path) fs))"
  using assms(2)
proof (induction fs arbitrary: r n)
  case (Cons f fs)
  let ?k = "if fr_status f \<noteq> RESOLVED \<and> fd_filePath f = path then 1 else 0"
  have "al_get (sl_byFile (counted f r)) path = file_value (n + ?k)"
    using Cons.prems assms(1) by (auto simp: counted_def bump_file_def file_value_def OBJECT_NAMES_def)
  from Cons.IH [OF this] show ?case by (simp add: ac_simps)
qed simp

interpretation status_order: js_comparator byStatusRank
  by unfold_locales (auto simp: byStatusRank_def)

lemma size_filter_js_sort: "length (filter P (js_sort cmp xs)) = length (filter P xs)"
  by (metis mset_filter mset_js_sort size_mset)

text \<open>A listing accounts for its findings.  It has exactly the findings of the scan that the filter asks for, those
  that are not suppressed before the others and each part by status, reopened first.  The counts by source add up to the
  listed findings that are live, those by severity and by file are of the same ones, and the counts by status are
  of all findings that are not suppressed, whatever the filter.\<close>

theorem listing_accounts:
  assumes "listFindings collate db organizationId scanId includeSuppressed statusFilter = Inr r"
  shows "al_get (qs_scanOrgs db) scanId = Some organizationId \<and>
    mset (sl_items r) = mset (filter (\<lambda>f. db_scanId f = scanId \<and> status_where statusFilter f \<and>
      (includeSuppressed \<or> fd_suppressedReason f = None)) (qs_findings db)) \<and>
    (\<exists>active suppressed. sl_items r = active @ suppressed \<and> (\<forall>f \<in> set active. fd_suppressedReason f = None) \<and>
      (\<forall>f \<in> set suppressed. fd_suppressedReason f \<noteq> None) \<and>
      sorted (map (STATUS_RANK \<circ> fr_status) active) \<and> sorted (map (STATUS_RANK \<circ> fr_status) suppressed)) \<and>
    sl_static r + sl_ai r = length (filter live (sl_items r)) \<and>
    sl_ai r = length (filter (\<lambda>f. live f \<and> fd_source f = AI) (sl_items r)) \<and>
    sl_critical r = length (filter (\<lambda>f. live f \<and> fd_severity f = CRITICAL) (sl_items r)) \<and>
    sl_major r = length (filter (\<lambda>f. live f \<and> fd_severity f = MAJOR) (sl_items r)) \<and>
    sl_minor r = length (filter (\<lambda>f. live f \<and> fd_severity f = MINOR) (sl_items r)) \<and>
    (\<forall>path. path \<notin> set OBJECT_NAMES \<longrightarrow>
      al_get (sl_byFile r) path = file_value (length (filter (\<lambda>f. live f \<and> fd_filePath f = path) (sl_items r)))) \<and>
    (\<Sum>st \<in> {NEW, PERSISTED, REOPENED, RESOLVED}. sl_byStatus r st) =
      length (filter (\<lambda>f. db_scanId f = scanId \<and> fd_suppressedReason f = None) (qs_findings db))"
proof -
  let ?found = "found_rows collate db scanId includeSuppressed statusFilter"
  let ?A = "js_sort byStatusRank (filter (\<lambda>f. fd_suppressedReason f = None) ?found)"
    and ?S = "js_sort byStatusRank (filter (\<lambda>f. fd_suppressedReason f \<noteq> None) ?found)"
  let ?r0 = "\<lparr>sl_items = ?A @ ?S, sl_byFile = [], sl_static = 0, sl_ai = 0, sl_critical = 0, sl_major = 0, sl_minor = 0,
    sl_byStatus = (\<lambda>st. group_count (\<lambda>f. fd_suppressedReason f = None \<and> fr_status f = st) db scanId),
    sl_suppressedByReason = (\<lambda>r. group_count (\<lambda>f. fd_suppressedReason f = Some r \<and> fr_status f \<noteq> RESOLVED) db scanId)\<rparr>"
  from assms have r: "r = fold counted ?A ?r0" and o: "al_get (qs_scanOrgs db) scanId = Some organizationId"
    by (auto simp: listFindings_def findScanOrThrow_def Let_def split: sum.splits option.splits if_splits)
  have items: "sl_items r = ?A @ ?S" by (simp add: r counted_fold)
  have unsup: "\<forall>f \<in> set ?A. fd_suppressedReason f = None" "\<forall>f \<in> set ?S. fd_suppressedReason f \<noteq> None" by auto
  have part: "length (filter (\<lambda>f. fr_status f \<noteq> RESOLVED \<and> P f) ?A) = length (filter (\<lambda>f. live f \<and> P f) (sl_items r))" for P
  proof -
    have "filter (\<lambda>f. live f \<and> P f) ?S = []" using unsup(2) by (auto simp: live_def filter_empty_conv)
    moreover have "filter (\<lambda>f. live f \<and> P f) ?A = filter (\<lambda>f. fr_status f \<noteq> RESOLVED \<and> P f) ?A"
      using unsup(1) by (intro filter_cong) (auto simp: live_def)
    ultimately show ?thesis by (simp add: items)
  qed
  have all: "length (filter (\<lambda>f. fr_status f \<noteq> RESOLVED) ?A) = length (filter live (sl_items r))"
    using part [of "\<lambda>_. True"] by simp
  have sorted: "sorted (map (STATUS_RANK \<circ> fr_status) (js_sort byStatusRank xs))" for xs
    using status_order.sorted_sort [of xs] by (simp add: byStatusRank_def sorted_map)
  note counts = counted_fold(4-8) [of ?A ?r0, folded r, unfolded all part]
  have "sl_static r + sl_ai r = length (filter live (sl_items r))" "sl_ai r = length (filter (\<lambda>f. live f \<and> fd_source f = AI) (sl_items r))"
    "sl_critical r = length (filter (\<lambda>f. live f \<and> fd_severity f = CRITICAL) (sl_items r))"
    "sl_major r = length (filter (\<lambda>f. live f \<and> fd_severity f = MAJOR) (sl_items r))"
    "sl_minor r = length (filter (\<lambda>f. live f \<and> fd_severity f = MINOR) (sl_items r))"
    using counts by simp_all
  moreover have "mset (sl_items r) = mset ?found" 
    using mset_partition [of "\<lambda>f. fd_suppressedReason f = None" ?found] by (simp add: items)
  moreover have "al_get (sl_byFile r) path = file_value (length (filter (\<lambda>f. live f \<and> fd_filePath f = path) (sl_items r)))"
    if "path \<notin> set OBJECT_NAMES" for path
    using counted_files [OF that, of ?r0 0 ?A] part [of "\<lambda>f. fd_filePath f = path"] by (simp add: r file_value_def)
  moreover have "(\<Sum>st \<in> {NEW, PERSISTED, REOPENED, RESOLVED}. sl_byStatus r st) =
      length (filter (\<lambda>f. db_scanId f = scanId \<and> fd_suppressedReason f = None) (qs_findings db))"
  proof -
    have "length (filter (\<lambda>f. Q f) fs) = length (filter (\<lambda>f. Q f \<and> fr_status f = NEW) fs) + (length (filter (\<lambda>f. Q f \<and> fr_status f = PERSISTED) fs) +
      (length (filter (\<lambda>f. Q f \<and> fr_status f = REOPENED) fs) + length (filter (\<lambda>f. Q f \<and> fr_status f = RESOLVED) fs)))" for Q and fs :: "db_finding list"
    proof (induction fs)
      case (Cons f fs)
      then show ?case by (cases "fr_status f") auto
    qed simp
    from this [of "\<lambda>f. db_scanId f = scanId \<and> fd_suppressedReason f = None" "qs_findings db"]
    show ?thesis by (simp add: r counted_fold group_count_def conj_assoc)
  qed
  moreover have "\<exists>active suppressed. sl_items r = active @ suppressed \<and> (\<forall>f \<in> set active. fd_suppressedReason f = None) \<and>
      (\<forall>f \<in> set suppressed. fd_suppressedReason f \<noteq> None) \<and>
      sorted (map (STATUS_RANK \<circ> fr_status) active) \<and> sorted (map (STATUS_RANK \<circ> fr_status) suppressed)"
    using items unsup sorted by blast
  moreover have "mset ?found = mset (filter (\<lambda>f. db_scanId f = scanId \<and> status_where statusFilter f \<and>
      (includeSuppressed \<or> fd_suppressedReason f = None)) (qs_findings db))" by (simp only: found_rows_def mset_js_sort)
  ultimately show ?thesis using o by (intro conjI allI impI) (simp_all only:)
qed

subsection \<open>An example\<close>

definition demo_requests :: request_db where
  "demo_requests = \<lparr>qs_pulls = [\<lparr>qp_id = ''p'', qp_organizationId = ''o'', qp_repositoryId = ''r'', qp_headSha = Some ''1''\<rparr>],
    qs_scanOrgs = [(''s'', ''o'')], qs_world = sample_world, qs_findings = [], qs_slots = []\<rparr>"

definition demo_request_env :: request_env where
  "demo_request_env = \<lparr>qe_now = 5, qe_redisUp = True, qe_up = True, qe_newId = ''a''\<rparr>"

lemma rescan_granted_once_witness:
  "case requestRescan demo_request_env ''o'' ''r'' ''p'' False demo_requests of (res, db) \<Rightarrow> res = Inr (''a'', ScanQueued) \<and>
    in_flight_of (qs_world db) ''p'' = [''a'']"
proof -
  obtain res db where r: "requestRescan demo_request_env ''o'' ''r'' ''p'' False demo_requests = (res, db)" by fastforce
  have "fst (requestRescan demo_request_env ''o'' ''r'' ''p'' False demo_requests) = Inr (''a'', ScanQueued)" by code_simp
  with r have "res = Inr (''a'', ScanQueued)" by simp
  moreover have "qe_up demo_request_env" "qe_newId demo_request_env \<notin> sr_id ` set (w_scans (qs_world demo_requests))"
    "al_get (w_jobs (qs_world demo_requests)) (qe_newId demo_request_env) = None" "distinct (map sr_id (w_scans (qs_world demo_requests)))"
    by (simp_all add: demo_request_env_def demo_requests_def sample_world_def)
  ultimately show ?thesis using rescan_granted_once [OF r] r by simp
qed

definition demo_scanned :: request_db where
  "demo_scanned = demo_requests\<lparr>qs_world := sample_world\<lparr>w_scans := [new_scan ''s'' (enqueue_call sample_webhook)
    \<lparr>md_diffMode = DiffFull, md_fullReason = None, md_baseScanId = None, md_prevHeadSha = None\<rparr>]\<rparr>\<rparr>"

lemma listing_accounts_witness:
  "\<exists>r. listFindings (\<lambda>_ _. 0) demo_scanned ''o'' ''s'' False ListActive = Inr r \<and> sl_static r + sl_ai r = length (filter live (sl_items r))"
proof -
  have "\<exists>r. listFindings (\<lambda>_ _. 0) demo_scanned ''o'' ''s'' False ListActive = Inr r"
    by (simp add: listFindings_def findScanOrThrow_def scan_of_def demo_scanned_def demo_requests_def new_scan_def Let_def)
  with listing_accounts [of "\<lambda>_ _. 0" demo_scanned "''o''" "''s''" False ListActive] show ?thesis by blast
qed

end
