(* ===== verification/Base_Url_Guard.thy ===== *)
theory Base_Url_Guard
  imports Js_Regex "HOL-Library.Word"
begin

section \<open>The guard of a base URL\<close>

text \<open>
  \<open>src/modules/ai/base-url-guard.ts\<close>: the URL of an AI server that an Admin types in must not lead into the
  service's own network.  Addresses are 128-bit words, an IPv4 address at its mapped place, which is how Node's
  \<open>BlockList\<close> compares the two families; the parsers of addresses follow Node's \<open>inet_pton\<close>.  The URL parser and the
  name lookup are parameters.
\<close>

subsection \<open>Addresses\<close>

definition parse_octet :: "jstr \<Rightarrow> nat option" where
  "parse_octet s =
    (if s \<noteq> [] \<and> length s \<le> 3 \<and> list_all is_digit s \<and> (s = ''0'' \<or> hd s \<noteq> CHR ''0'') \<and> digits_val s \<le> 255
     then Some (digits_val s) else None)"

fun those_parsed :: "('a \<Rightarrow> 'b option) \<Rightarrow> 'a list \<Rightarrow> 'b list option" where
  "those_parsed f [] = Some []"
| "those_parsed f (x # xs) =
    (case f x of None \<Rightarrow> None | Some y \<Rightarrow> (case those_parsed f xs of None \<Rightarrow> None | Some ys \<Rightarrow> Some (y # ys)))"

definition parse_ipv4 :: "jstr \<Rightarrow> nat list option" where
  "parse_ipv4 s = (let ps = split_on CHR ''.'' s in if length ps = 4 then those_parsed parse_octet ps else None)"

definition hex_digit :: "char \<Rightarrow> nat option" where
  "hex_digit c = (case index_of ''0123456789abcdef'' [c] 0 of Some n \<Rightarrow> Some n
    | None \<Rightarrow> index_of ''0123456789ABCDEF'' [c] 0)"

definition parse_group :: "jstr \<Rightarrow> nat option" where
  "parse_group s =
    (if s = [] \<or> 4 < length s then None
     else map_option (foldl (\<lambda>n d. n * 16 + d) 0) (those_parsed hex_digit s))"

text \<open>The groups between colons; the last may be an IPv4 address when the address ends there.\<close>

fun parse_groups :: "bool \<Rightarrow> jstr list \<Rightarrow> nat list option" where
  "parse_groups v4 [] = Some []"
| "parse_groups v4 (p # ps) =
    (if ps = [] \<and> v4 \<and> parse_group p = None
     then (case parse_ipv4 p of Some [a, b, c, d] \<Rightarrow> Some [a * 256 + b, c * 256 + d] | _ \<Rightarrow> None)
     else (case parse_group p of
         None \<Rightarrow> None
       | Some g \<Rightarrow> map_option (\<lambda>gs. g # gs) (parse_groups v4 ps)))"

definition groups_of :: "bool \<Rightarrow> jstr \<Rightarrow> nat list option" where
  "groups_of v4 s = (if s = [] then Some [] else parse_groups v4 (split_on CHR '':'' s))"

text \<open>Without the zone, which follows a percent sign.\<close>

definition without_zone :: "jstr \<Rightarrow> jstr option" where
  "without_zone s =
    (let zone = dropWhile (\<lambda>c. c \<noteq> CHR ''%'') s
     in if zone = [] then Some s
        else if tl zone \<noteq> [] \<and> list_all (\<lambda>c. is_alnum c \<or> c \<in> set ''-.:'') (tl zone)
        then Some (takeWhile (\<lambda>c. c \<noteq> CHR ''%'') s) else None)"

definition parse_ipv6 :: "jstr \<Rightarrow> nat list option" where
  "parse_ipv6 s =
    (case without_zone s of
      None \<Rightarrow> None
    | Some t \<Rightarrow>
       (case index_of t ''::'' 0 of
          None \<Rightarrow> (case groups_of True t of Some gs \<Rightarrow> if length gs = 8 then Some gs else None | None \<Rightarrow> None)
        | Some k \<Rightarrow>
           (case (groups_of False (take k t), groups_of True (drop (k + 2) t)) of
              (Some l, Some r) \<Rightarrow> if length l + length r \<le> 7 then Some (l @ replicate (8 - (length l + length r)) 0 @ r) else None
            | _ \<Rightarrow> None)))"

definition isIP :: "jstr \<Rightarrow> nat" where
  "isIP s = (if parse_ipv4 s \<noteq> None then 4 else if parse_ipv6 s \<noteq> None then 6 else 0)"

definition groups_number :: "nat list \<Rightarrow> nat" where
  "groups_number gs = foldl (\<lambda>n g. n * 65536 + g) 0 gs"

definition v6_address :: "nat list \<Rightarrow> 128 word" where
  "v6_address gs = of_nat (groups_number gs)"

definition mapped_groups :: "nat list \<Rightarrow> nat list" where
  "mapped_groups q = [0, 0, 0, 0, 0, 0xFFFF, q ! 0 * 256 + q ! 1, q ! 2 * 256 + q ! 3]"

definition v4_address :: "nat list \<Rightarrow> 128 word" where
  "v4_address q = v6_address (mapped_groups q)"

subsection \<open>The block list\<close>

definition BLOCKED_IPV4 :: "(nat list \<times> nat) list" where
  "BLOCKED_IPV4 = [([0, 0, 0, 0], 8), ([10, 0, 0, 0], 8), ([100, 64, 0, 0], 10), ([127, 0, 0, 0], 8), ([169, 254, 0, 0], 16),
    ([172, 16, 0, 0], 12), ([192, 0, 0, 0], 24), ([192, 168, 0, 0], 16), ([198, 18, 0, 0], 15), ([224, 0, 0, 0], 4), ([240, 0, 0, 0], 4)]"

definition BLOCKED_IPV6 :: "(nat list \<times> nat) list" where
  "BLOCKED_IPV6 = [([0, 0, 0, 0, 0, 0, 0, 0], 128), ([0, 0, 0, 0, 0, 0, 0, 1], 128), ([0xFC00, 0, 0, 0, 0, 0, 0, 0], 7),
    ([0xFE80, 0, 0, 0, 0, 0, 0, 0], 10), ([0xFF00, 0, 0, 0, 0, 0, 0, 0], 8)]"

definition BLOCKED :: "(128 word \<times> nat) list" where
  "BLOCKED = map (\<lambda>(q, p). (v4_address q, 96 + p)) BLOCKED_IPV4 @ map (\<lambda>(gs, p). (v6_address gs, p)) BLOCKED_IPV6"

definition in_subnet :: "128 word \<Rightarrow> 128 word \<times> nat \<Rightarrow> bool" where
  "in_subnet a rule \<longleftrightarrow> drop_bit (128 - snd rule) a = drop_bit (128 - snd rule) (fst rule)"

definition blocked :: "128 word \<Rightarrow> bool" where
  "blocked a = list_ex (in_subnet a) BLOCKED"

text \<open>\<open>/^::ffff:(\d+\.\d+\.\d+\.\d+)$/i\<close>\<close>

definition MAPPED :: rx where
  "MAPPED = (let ds = rplus (RSet is_digit); dot = rchar (CHR ''.'')
     in rseq [RBol, rlit_i ''::ffff:'', RGroup 1 (rseq [ds, dot, ds, dot, ds, dot, ds]), REol])"

text \<open>\<open>None\<close> where \<open>BLOCKED.check\<close> throws: the text looks like a mapped address and is none.\<close>

definition isPrivateAddress :: "jstr \<Rightarrow> bool option" where
  "isPrivateAddress address =
    (case rx_exec MAPPED address 0 of
      Some m \<Rightarrow>
       (case parse_ipv4 (case rx_group 1 m address of Some t \<Rightarrow> t | None \<Rightarrow> []) of
          Some q \<Rightarrow> Some (blocked (v4_address q))
        | None \<Rightarrow> None)
    | None \<Rightarrow>
       (case parse_ipv4 address of
          Some q \<Rightarrow> Some (blocked (v4_address q))
        | None \<Rightarrow> (case parse_ipv6 address of Some gs \<Rightarrow> Some (blocked (v6_address gs)) | None \<Rightarrow> Some True)))"

subsection \<open>The check\<close>

record base_url =
  bu_protocol :: jstr
  bu_username :: jstr
  bu_password :: jstr
  bu_hostname :: jstr

datatype url_error = InsecureBaseUrl jstr | InvalidAddress

text \<open>\<open>replace(/^\[|\]$/g, '')\<close>\<close>

definition without_brackets :: "jstr \<Rightarrow> jstr" where
  "without_brackets s =
    (let t = (if s \<noteq> [] \<and> hd s = CHR ''['' then tl s else s) in if t \<noteq> [] \<and> last t = CHR '']'' then butlast t else t)"

definition url_host :: "base_url \<Rightarrow> jstr" where
  "url_host url = without_brackets (to_lower (bu_hostname url))"

text \<open>\<open>addresses.some(isPrivateAddress)\<close>, which stops at the first private one.\<close>

fun some_private :: "jstr list \<Rightarrow> bool option" where
  "some_private [] = Some False"
| "some_private (a # as) = (case isPrivateAddress a of None \<Rightarrow> None | Some True \<Rightarrow> Some True | Some False \<Rightarrow> some_private as)"

definition host_addresses :: "(jstr \<Rightarrow> jstr list option) \<Rightarrow> jstr \<Rightarrow> jstr list option" where
  "host_addresses lookup host = (if isIP host \<noteq> 0 then Some [host] else lookup host)"

definition assertSafeBaseUrl :: "(jstr \<Rightarrow> base_url option) \<Rightarrow> (jstr \<Rightarrow> jstr list option) \<Rightarrow> jstr list \<Rightarrow> jstr \<Rightarrow> url_error + base_url" where
  "assertSafeBaseUrl parse lookup allowlist raw =
    (case parse raw of
      None \<Rightarrow> Inl (InsecureBaseUrl ''Base URL is not a valid URL.'')
    | Some url \<Rightarrow>
        if bu_protocol url \<noteq> ''https:'' \<and> bu_protocol url \<noteq> ''http:'' then Inl (InsecureBaseUrl ''Base URL must use https.'')
        else if bu_username url \<noteq> [] \<or> bu_password url \<noteq> [] then Inl (InsecureBaseUrl ''Base URL must not contain credentials.'')
        else if url_host url \<in> set allowlist then Inr url
        else if bu_protocol url = ''http:'' then Inl (InsecureBaseUrl ''Base URL must use https unless its host is allowlisted.'')
        else (case host_addresses lookup (url_host url) of
            None \<Rightarrow> Inl (InsecureBaseUrl ''Base URL host could not be resolved.'')
          | Some addresses \<Rightarrow>
             (case (if addresses = [] then Some True else some_private addresses) of
                None \<Rightarrow> Inl InvalidAddress
              | Some True \<Rightarrow> Inl (InsecureBaseUrl
                  ''Base URL resolves to a private or internal address; allowlist the host to use it.'')
              | Some False \<Rightarrow> Inr url)))"

subsection \<open>Subnets as ranges\<close>

text \<open>The ranges that are meant, byte by byte.\<close>

definition private4 :: "nat \<Rightarrow> nat \<Rightarrow> nat \<Rightarrow> bool" where
  "private4 a b c \<longleftrightarrow> a \<in> {0, 10, 127} \<or> a = 100 \<and> 64 \<le> b \<and> b < 128 \<or> a = 169 \<and> b = 254 \<or> a = 172 \<and> 16 \<le> b \<and> b < 32 \<or>
    a = 192 \<and> b = 0 \<and> c = 0 \<or> a = 192 \<and> b = 168 \<or> a = 198 \<and> (b = 18 \<or> b = 19) \<or> 224 \<le> a"

definition private6 :: "nat list \<Rightarrow> bool" where
  "private6 gs \<longleftrightarrow> gs = [0, 0, 0, 0, 0, 0, 0, 0] \<or> gs = [0, 0, 0, 0, 0, 0, 0, 1] \<or>
    0xFC00 \<le> gs ! 0 \<and> gs ! 0 < 0xFE00 \<or> 0xFE80 \<le> gs ! 0 \<and> gs ! 0 < 0xFEC0 \<or> 0xFF00 \<le> gs ! 0 \<or>
    take 6 gs = [0, 0, 0, 0, 0, 0xFFFF] \<and> private4 (gs ! 6 div 256) (gs ! 6 mod 256) (gs ! 7 div 256)"
lemma in_subnet_nat:
  assumes "n < 2 ^ 128" "m < 2 ^ 128"
  shows "in_subnet (of_nat n) (of_nat m, p) \<longleftrightarrow> n div 2 ^ (128 - p) = m div 2 ^ (128 - p)"
proof -
  have u: "unat (drop_bit k (of_nat x :: 128 word)) = x div 2 ^ k" if "x < 2 ^ 128" for x k
  proof -
    have "unat (of_nat x :: 128 word) = x" using that by (simp add: unat_of_nat)
    then show ?thesis by (simp only: unat_drop_bit_eq flip: drop_bit_eq_div)
  qed
  show ?thesis using u [OF assms(1)] u [OF assms(2)] by (simp add: in_subnet_def word_unat_eq_iff)
qed

definition groups_ok :: "nat list \<Rightarrow> bool" where
  "groups_ok gs \<longleftrightarrow> list_all (\<lambda>g. g < 65536) gs"

lemma groups_number_snoc [simp]: "groups_number (gs @ [g]) = groups_number gs * 65536 + g"
  by (simp add: groups_number_def)

lemma groups_number_less:
  assumes "groups_ok gs"
  shows "groups_number gs < 2 ^ (16 * length gs)"
  using assms
proof (induction gs rule: rev_induct)
  case Nil
  then show ?case by (simp add: groups_number_def)
next
  case (snoc g gs)
  then have "groups_number gs + 1 \<le> 2 ^ (16 * length gs)" "g < 65536" by (simp_all add: groups_ok_def Suc_le_eq)
  then have "(groups_number gs + 1) * 65536 \<le> 2 ^ (16 * length gs) * 65536" by (intro mult_right_mono) simp_all
  with \<open>g < 65536\<close> show ?case by (simp add: power_add algebra_simps)
qed

lemma digits_eq:
  fixes n m g h b :: nat
  assumes "g < b" "h < b"
  shows "n * b + g = m * b + h \<longleftrightarrow> n = m \<and> g = h"
proof -
  have "(n * b + g) div b = n" "(n * b + g) mod b = g" "(m * b + h) div b = m" "(m * b + h) mod b = h"
    using assms by auto
  then show ?thesis by metis
qed

lemma groups_number_inj:
  assumes "groups_ok gs" "groups_ok hs" "length gs = length hs" "groups_number gs = groups_number hs"
  shows "gs = hs"
  using assms
proof (induction gs arbitrary: hs rule: rev_induct)
  case (snoc g gs)
  then obtain h hs' where hs: "hs = hs' @ [h]" by (cases hs rule: rev_cases) auto
  have "groups_number gs * 65536 + g = groups_number hs' * 65536 + h" "g < 65536" "h < 65536"
    using snoc.prems by (simp_all add: hs groups_ok_def)
  then have "groups_number gs = groups_number hs'" "g = h" by (simp_all add: digits_eq)
  then show ?case using snoc by (simp add: hs groups_ok_def)
qed simp

lemma groups_number_div:
  assumes "groups_ok gs" "k \<le> length gs"
  shows "groups_number gs div 2 ^ (16 * k) = groups_number (take (length gs - k) gs)"
  using assms
proof (induction k arbitrary: gs)
  case (Suc k)
  then obtain g gs' where gs: "gs = gs' @ [g]" by (cases gs rule: rev_cases) auto
  have "groups_number gs div 2 ^ (16 * Suc k) = groups_number gs div 65536 div 2 ^ (16 * k)"
    by (simp add: div_mult2_eq power_add)
  also have "groups_number gs div 65536 = groups_number gs'" using Suc.prems by (simp add: gs groups_ok_def)
  finally show ?case using Suc by (simp add: gs groups_ok_def)
qed simp

lemma div_last_group:
  fixes n m g h :: nat
  assumes "j \<le> 16" "g < 65536" "h < 65536"
  shows "(n * 65536 + g) div 2 ^ (16 - j) = (m * 65536 + h) div 2 ^ (16 - j) \<longleftrightarrow>
    n = m \<and> g div 2 ^ (16 - j) = h div 2 ^ (16 - j)"
proof -
  have two: "(65536::nat) = 2 ^ j * 2 ^ (16 - j)" using assms(1) by (simp flip: power_add)
  have step: "(x * 65536 + y) div 2 ^ (16 - j) = x * 2 ^ j + y div 2 ^ (16 - j)" for x y :: nat
    by (simp add: two flip: mult.assoc)
  have small: "y div 2 ^ (16 - j) < 2 ^ j" if "y < 65536" for y :: nat
    using that by (simp add: two less_mult_imp_div_less)
  show ?thesis unfolding step by (rule digits_eq) (use small assms in auto)
qed

text \<open>A subnet of \<open>16 * i + j\<close> bits: the first \<open>i\<close> groups, and \<open>j\<close> bits of the next one.\<close>

lemma in_subnet_groups:
  assumes gs: "groups_ok gs" "length gs = 8" and hs: "groups_ok hs" "length hs = 8" and ij: "i < 8" "j \<le> 16"
  shows "in_subnet (v6_address gs) (v6_address hs, 16 * i + j) \<longleftrightarrow>
    take i gs = take i hs \<and> gs ! i div 2 ^ (16 - j) = hs ! i div 2 ^ (16 - j)"
proof -
  have cut: "groups_number xs div 2 ^ (128 - (16 * i + j)) = (groups_number (take i xs) * 65536 + xs ! i) div 2 ^ (16 - j)"
    if "groups_ok xs" "length xs = 8" for xs
  proof -
    have "128 - (16 * i + j) = 16 * (7 - i) + (16 - j)" using ij by arith
    then have "groups_number xs div 2 ^ (128 - (16 * i + j)) = groups_number xs div 2 ^ (16 * (7 - i)) div 2 ^ (16 - j)"
      by (simp add: power_add div_mult2_eq)
    also have "groups_number xs div 2 ^ (16 * (7 - i)) = groups_number (take (Suc i) xs)"
      using groups_number_div [of xs "7 - i"] that ij by (simp add: Suc_diff_le)
    also have "\<dots> = groups_number (take i xs) * 65536 + xs ! i" using that ij by (simp add: take_Suc_conv_app_nth)
    finally show ?thesis .
  qed
  have lt: "groups_number xs < 2 ^ 128" if "groups_ok xs" "length xs = 8" for xs
    using groups_number_less [of xs] that by simp
  have nth: "xs ! i < 65536" if "groups_ok xs" "length xs = 8" for xs
    using that ij by (simp add: groups_ok_def list_all_length)
  have tk: "groups_number (take i gs) = groups_number (take i hs) \<longleftrightarrow> take i gs = take i hs"
    using groups_number_inj [of "take i gs" "take i hs"] gs hs
    by (auto simp: groups_ok_def list_all_length)
  show ?thesis
    unfolding v6_address_def in_subnet_nat [OF lt [OF gs] lt [OF hs]] cut [OF gs] cut [OF hs]
      div_last_group [OF ij(2) nth [OF gs] nth [OF hs]] tk ..
qed

lemma eight_groups:
  assumes "length gs = (8::nat)"
  obtains a b c d e f g h where "gs = [a, b, c, d, e, f, g, h]"
  using assms by (auto simp: numeral_eq_Suc length_Suc_conv)

lemma mapped_groups_ok:
  assumes "a < 256" "b < 256" "c < 256" "d < 256"
  shows "groups_ok (mapped_groups [a, b, c, d])" "length (mapped_groups [a, b, c, d]) = 8"
  using assms by (simp_all add: mapped_groups_def groups_ok_def)

lemma in_subnet_mapped:
  assumes gs: "groups_ok gs" "length gs = 8" and q: "a < 256" "b < 256" "c < 256" "d < 256" and p: "96 \<le> p" "p \<le> 112"
  shows "in_subnet (v6_address gs) (v4_address [a, b, c, d], p) \<longleftrightarrow>
    take 6 gs = [0, 0, 0, 0, 0, 0xFFFF] \<and> gs ! 6 div 2 ^ (112 - p) = (a * 256 + b) div 2 ^ (112 - p)"
  using in_subnet_groups [OF gs mapped_groups_ok [OF q], of 6 "p - 96"] p
  by (simp add: v4_address_def) (simp add: mapped_groups_def)

lemma in_subnet_first:
  assumes gs: "groups_ok gs" "length gs = 8" and hs: "groups_ok hs" "length hs = 8" and p: "p \<le> 16"
  shows "in_subnet (v6_address gs) (v6_address hs, p) \<longleftrightarrow> gs ! 0 div 2 ^ (16 - p) = hs ! 0 div 2 ^ (16 - p)"
  using in_subnet_groups [OF gs hs, of 0 p] p by simp

lemma in_subnet_whole:
  assumes gs: "groups_ok gs" "length gs = 8" and hs: "groups_ok hs" "length hs = 8"
  shows "in_subnet (v6_address gs) (v6_address hs, 128) \<longleftrightarrow> gs = hs"
proof -
  have "take 7 gs = take 7 hs \<and> gs ! 7 = hs ! 7 \<longleftrightarrow> take (Suc 7) gs = take (Suc 7) hs"
    using gs(2) hs(2) by (simp only: take_Suc_conv_app_nth) simp
  then show ?thesis using in_subnet_groups [OF gs hs, of 7 16] gs(2) hs(2) by simp
qed

text \<open>The ranges of the second block, the last of which is the first 24 bits of \<open>192.0.0.0\<close>.\<close>

lemma in_subnet_192:
  assumes gs: "groups_ok gs" "length gs = 8"
  shows "in_subnet (v6_address gs) (v4_address [192, 0, 0, 0], 120) \<longleftrightarrow>
    take 7 gs = [0, 0, 0, 0, 0, 0xFFFF, 49152] \<and> gs ! 7 div 256 = 0"
  using in_subnet_groups [OF gs mapped_groups_ok [of 192 0 0 0], of 7 8] by (simp add: v4_address_def) (simp add: mapped_groups_def)

lemma div_range:
  fixes n m k :: nat
  assumes "0 < m"
  shows "n div m = k \<longleftrightarrow> k * m \<le> n \<and> n < Suc k * m"
  using assms by (metis Suc_leI div_less_iff_less_mult lessI less_eq_div_iff_mult_less_eq order_antisym less_Suc_eq_le order_refl)

lemma byte_div:
  fixes a b m k :: nat
  assumes "b < 256" "m * k = 256" "e < k"
  shows "(a * 256 + b) div m = c * k + e \<longleftrightarrow> a = c \<and> e * m \<le> b \<and> b < Suc e * m"
proof -
  have m: "0 < m" using assms(2) by (cases m) auto
  have "a * 256 + b = b + m * (a * k)" by (simp only: mult.left_commute [of m a k] assms(2) add.commute)
  then have q: "(a * 256 + b) div m = a * k + b div m" using m by (simp only:) simp
  have lt: "b div m < k" using assms m by (simp add: div_less_iff_less_mult mult.commute)
  show ?thesis unfolding q digits_eq [OF lt assms(3)] div_range [OF m, of b] ..
qed

lemma byte_ranges:
  fixes a b :: nat
  assumes "b < 256"
  shows "(a * 256 + b) div 64 = 401 \<longleftrightarrow> a = 100 \<and> 64 \<le> b \<and> b < 128"
    and "a * 256 + b = 43518 \<longleftrightarrow> a = 169 \<and> b = 254"
    and "(a * 256 + b) div 16 = 2753 \<longleftrightarrow> a = 172 \<and> 16 \<le> b \<and> b < 32"
    and "a * 256 + b = 49152 \<longleftrightarrow> a = 192 \<and> b = 0"
    and "a * 256 + b = 49320 \<longleftrightarrow> a = 192 \<and> b = 168"
    and "(a * 256 + b) div 2 = 25353 \<longleftrightarrow> a = 198 \<and> (b = 18 \<or> b = 19)"
    and "(a * 256 + b) div 256 = a" and "(a * 256 + b) mod 256 = b"
  subgoal using byte_div [OF assms, of 64 4 1 a 100] by simp
  subgoal using byte_div [OF assms, of 1 256 254 a 169] by auto
  subgoal using byte_div [OF assms, of 16 16 1 a 172] by simp
  subgoal using byte_div [OF assms, of 1 256 0 a 192] by auto
  subgoal using byte_div [OF assms, of 1 256 168 a 192] by auto
  subgoal using byte_div [OF assms, of 2 128 9 a 198] by auto
  using assms by simp_all

lemma top_ranges:
  fixes g :: nat
  assumes "g < 65536"
  shows "g div 4096 = 14 \<or> g div 4096 = 15 \<longleftrightarrow> 57344 \<le> g"
    and "g div 512 = 126 \<longleftrightarrow> 0xFC00 \<le> g \<and> g < 0xFE00"
    and "g div 64 = 1018 \<longleftrightarrow> 0xFE80 \<le> g \<and> g < 0xFEC0"
    and "g div 256 = 255 \<longleftrightarrow> 0xFF00 \<le> g"
  using assms by (auto simp: div_range)

lemma blocked_rules:
  "blocked x \<longleftrightarrow> in_subnet x (v4_address [0, 0, 0, 0], 104) \<or> in_subnet x (v4_address [10, 0, 0, 0], 104) \<or>
    in_subnet x (v4_address [100, 64, 0, 0], 106) \<or> in_subnet x (v4_address [127, 0, 0, 0], 104) \<or>
    in_subnet x (v4_address [169, 254, 0, 0], 112) \<or> in_subnet x (v4_address [172, 16, 0, 0], 108) \<or>
    in_subnet x (v4_address [192, 0, 0, 0], 120) \<or> in_subnet x (v4_address [192, 168, 0, 0], 112) \<or>
    in_subnet x (v4_address [198, 18, 0, 0], 111) \<or> in_subnet x (v4_address [224, 0, 0, 0], 100) \<or>
    in_subnet x (v4_address [240, 0, 0, 0], 100) \<or>
    in_subnet x (v6_address [0, 0, 0, 0, 0, 0, 0, 0], 128) \<or> in_subnet x (v6_address [0, 0, 0, 0, 0, 0, 0, 1], 128) \<or>
    in_subnet x (v6_address [0xFC00, 0, 0, 0, 0, 0, 0, 0], 7) \<or>
    in_subnet x (v6_address [0xFE80, 0, 0, 0, 0, 0, 0, 0], 10) \<or>
    in_subnet x (v6_address [0xFF00, 0, 0, 0, 0, 0, 0, 0], 8)"
  by (simp add: blocked_def BLOCKED_def BLOCKED_IPV4_def BLOCKED_IPV6_def)

lemma blocked_groups:
  assumes "groups_ok gs" "length gs = 8"
  shows "blocked (v6_address gs) \<longleftrightarrow>
    take 6 gs = [0, 0, 0, 0, 0, 0xFFFF] \<and>
      (gs ! 6 div 256 \<in> {0, 10, 127} \<or> gs ! 6 div 64 = 401 \<or> gs ! 6 = 43518 \<or> gs ! 6 div 16 = 2753 \<or> gs ! 6 = 49320 \<or>
       gs ! 6 div 2 = 25353 \<or> gs ! 6 div 4096 = 14 \<or> gs ! 6 div 4096 = 15) \<or>
    take 7 gs = [0, 0, 0, 0, 0, 0xFFFF, 49152] \<and> gs ! 7 div 256 = 0 \<or>
    gs = [0, 0, 0, 0, 0, 0, 0, 0] \<or> gs = [0, 0, 0, 0, 0, 0, 0, 1] \<or>
    gs ! 0 div 512 = 126 \<or> gs ! 0 div 64 = 1018 \<or> gs ! 0 div 256 = 255"
  unfolding blocked_rules in_subnet_192 [OF assms]
  by (simp add: in_subnet_mapped [OF assms] in_subnet_first [OF assms] in_subnet_whole [OF assms] groups_ok_def) argo

lemma blocked_v6:
  assumes "groups_ok gs" "length gs = 8"
  shows "blocked (v6_address gs) \<longleftrightarrow> private6 gs"
proof -
  obtain g0 g1 g2 g3 g4 g5 g h where gs: "gs = [g0, g1, g2, g3, g4, g5, g, h]" using eight_groups [OF assms(2)] .
  define a b where "a = g div 256" and "b = g mod 256"
  have g: "g = a * 256 + b" and b: "b < 256" by (simp_all add: a_def b_def)
  have g0: "g0 < 65536" and gg: "g < 65536" using assms(1) by (simp_all add: gs groups_ok_def)
  have top: "(a * 256 + b) div 4096 = 14 \<or> (a * 256 + b) div 4096 = 15 \<longleftrightarrow> 224 \<le> a"
    using top_ranges(1) [OF gg] b unfolding g by linarith
  show ?thesis
    unfolding blocked_groups [OF assms] private6_def private4_def using top top_ranges(2-4) [OF g0] byte_ranges [OF b, of a]
    by (simp add: gs g) argo
qed

lemma blocked_v4:
  assumes "a < 256" "b < 256" "c < 256" "d < 256"
  shows "blocked (v4_address [a, b, c, d]) \<longleftrightarrow> private4 a b c"
  using blocked_v6 [OF mapped_groups_ok [OF assms]] assms
  by (simp add: v4_address_def private6_def) (simp add: mapped_groups_def)

subsection \<open>Addresses that are read\<close>

lemma those_parsed_all:
  assumes "those_parsed f xs = Some ys"
  shows "length ys = length xs" and "(\<And>x y. f x = Some y \<Longrightarrow> P y) \<Longrightarrow> list_all P ys"
  using assms by (induction xs arbitrary: ys) (auto split: option.splits)

lemma parse_ipv4_bytes:
  assumes "parse_ipv4 s = Some q"
  shows "length q = 4 \<and> list_all (\<lambda>b. b < 256) q"
  using assms those_parsed_all [of parse_octet "split_on CHR ''.'' s" q]
  by (fastforce simp: parse_ipv4_def parse_octet_def Let_def split: if_splits)

lemma hex_digit_less:
  assumes "hex_digit c = Some n"
  shows "n < 16"
  using assms index_of_end [of "''0123456789abcdef''" "[c]" 0 n] index_of_end [of "''0123456789ABCDEF''" "[c]" 0 n]
  by (auto simp: hex_digit_def split: option.splits)

lemma hex_number_less:
  assumes "list_all (\<lambda>d. d < 16) ds"
  shows "foldl (\<lambda>n d. n * 16 + d) 0 ds < (16::nat) ^ length ds"
  using assms
proof (induction ds rule: rev_induct)
  case (snoc d ds)
  then have "Suc (foldl (\<lambda>n d. n * 16 + d) 0 ds) * 16 \<le> 16 ^ length ds * 16" by (intro mult_right_mono) simp_all
  then show ?case using snoc.prems by simp
qed simp

lemma parse_group_less:
  assumes "parse_group s = Some g"
  shows "g < 65536"
proof -
  obtain ds where ds: "those_parsed hex_digit s = Some ds" "length s \<le> 4" and g: "g = foldl (\<lambda>n d. n * 16 + d) 0 ds"
    using assms by (auto simp: parse_group_def split: if_splits)
  have "g < 16 ^ length ds"
    unfolding g using those_parsed_all(2) [OF ds(1), of "\<lambda>d. d < 16"] hex_digit_less by (intro hex_number_less) blast
  also have "\<dots> \<le> 16 ^ 4" using ds(2) those_parsed_all(1) [OF ds(1)] by (intro power_increasing) simp_all
  finally show ?thesis by simp
qed

lemma parse_groups_ok:
  assumes "parse_groups v4 ps = Some gs"
  shows "groups_ok gs"
  using assms
proof (induction ps arbitrary: gs)
  case (Cons p ps)
  show ?case
  proof (cases "ps = [] \<and> v4 \<and> parse_group p = None")
    case True
    then obtain a b c d where q: "parse_ipv4 p = Some [a, b, c, d]" and gs: "gs = [a * 256 + b, c * 256 + d]"
      using Cons.prems by (auto split: option.splits list.splits)
    show ?thesis using parse_ipv4_bytes [OF q] by (simp add: gs groups_ok_def)
  next
    case False
    then show ?thesis using Cons by (auto simp: groups_ok_def split: option.splits dest: parse_group_less)
  qed
qed (simp add: groups_ok_def)

lemma groups_of_ok: "groups_of v4 s = Some gs \<Longrightarrow> groups_ok gs"
  by (auto simp: groups_of_def parse_groups_ok groups_ok_def split: if_splits dest: parse_groups_ok [unfolded groups_ok_def])

lemma parse_ipv6_groups:
  assumes "parse_ipv6 s = Some gs"
  shows "length gs = 8 \<and> groups_ok gs"
proof -
  obtain t where t: "without_zone s = Some t" using assms by (auto simp: parse_ipv6_def split: option.splits)
  show ?thesis
  proof (cases "index_of t ''::'' 0")
    case None
    then show ?thesis using assms t by (auto simp: parse_ipv6_def split: option.splits if_splits dest: groups_of_ok)
  next
    case (Some k)
    then obtain l r where "groups_of False (take k t) = Some l" "groups_of True (drop (k + 2) t) = Some r"
      "length l + length r \<le> 7" "gs = l @ replicate (8 - (length l + length r)) 0 @ r"
      using assms t by (auto simp: parse_ipv6_def split: option.splits if_splits)
    then show ?thesis using groups_of_ok [of False "take k t" l] groups_of_ok [of True "drop (k + 2) t" r]
      by (simp add: groups_ok_def) (simp add: list_all_iff)
  qed
qed

subsection \<open>What the check lets through\<close>

text \<open>The bytes that an address stands for when it is written as IPv4, mapped or not.\<close>

definition ipv4_text :: "jstr \<Rightarrow> nat list option" where
  "ipv4_text s =
    (case rx_exec MAPPED s 0 of Some m \<Rightarrow> parse_ipv4 (case rx_group 1 m s of Some t \<Rightarrow> t | None \<Rightarrow> []) | None \<Rightarrow> parse_ipv4 s)"

definition public_address :: "jstr \<Rightarrow> bool" where
  "public_address s =
    (case ipv4_text s of
      Some q \<Rightarrow> \<not> private4 (q ! 0) (q ! 1) (q ! 2)
    | None \<Rightarrow> (case parse_ipv6 s of Some gs \<Rightarrow> \<not> private6 gs | None \<Rightarrow> False))"

lemma blocked_read4:
  assumes "parse_ipv4 s = Some q"
  shows "blocked (v4_address q) \<longleftrightarrow> private4 (q ! 0) (q ! 1) (q ! 2)"
proof -
  obtain a b c d where q: "q = [a, b, c, d]" using parse_ipv4_bytes [OF assms] by (auto simp: numeral_eq_Suc length_Suc_conv)
  show ?thesis using parse_ipv4_bytes [OF assms] by (simp add: q blocked_v4)
qed

lemmas private_address_defs = isPrivateAddress_def ipv4_text_def public_address_def blocked_read4 blocked_v6 parse_ipv6_groups

lemma not_private_public: "isPrivateAddress s = Some False \<Longrightarrow> public_address s"
  by (auto simp: private_address_defs split: option.splits)

text \<open>C29: the answer of \<open>isPrivateAddress\<close>, which is found by comparing prefixes of 128-bit words with the block list, is
  the one that the ranges give byte by byte.  It answers unless the text has the shape of a mapped IPv4 address and is none
  (where \<open>BLOCKED.check\<close> throws), and a text that is no address counts as private.
\<close>

theorem private_address_ranges:
  "isPrivateAddress s =
    (if rx_exec MAPPED s 0 \<noteq> None \<and> ipv4_text s = None then None else Some (\<not> public_address s))"
  by (auto simp: private_address_defs split: option.splits)

lemma some_private_none:
  "some_private as = Some False \<Longrightarrow> list_all (\<lambda>a. isPrivateAddress a = Some False) as"
  by (induction as) (auto split: option.splits bool.splits)

text \<open>C9: a base URL that the check lets through was parsed from the input, has no credentials, and either its host
  is on the allowlist and its protocol is http or https, or it uses https and the host is, or resolves to, at least one
  address, every one of them outside the private ranges.
\<close>

theorem base_url_leaves_network:
  assumes "assertSafeBaseUrl parse lookup allowlist raw = Inr url"
  shows "parse raw = Some url \<and> bu_username url = [] \<and> bu_password url = [] \<and>
    (if url_host url \<in> set allowlist then bu_protocol url = ''https:'' \<or> bu_protocol url = ''http:''
     else bu_protocol url = ''https:'' \<and>
       (\<exists>as. host_addresses lookup (url_host url) = Some as \<and> as \<noteq> [] \<and> list_all public_address as))"
proof -
  have all: "some_private as = Some False \<Longrightarrow> list_all public_address as" for as
    using some_private_none [of as] by (auto simp: list_all_iff not_private_public)
  show ?thesis using assms
    by (auto simp: assertSafeBaseUrl_def split: option.splits if_splits bool.splits dest: all)
qed

definition ai_url :: "jstr \<Rightarrow> base_url" where
  "ai_url host = \<lparr>bu_protocol = ''https:'', bu_username = [], bu_password = [], bu_hostname = host\<rparr>"

lemma plain_ipv4:
  assumes "rx_exec MAPPED s 0 = None" "parse_ipv4 s = Some q" "private4 (q ! 0) (q ! 1) (q ! 2) = p"
  shows "isPrivateAddress s = Some p"
  using assms blocked_read4 [OF assms(2)] by (simp add: isPrivateAddress_def)

lemma base_url_leaves_network_witness:
  "assertSafeBaseUrl (\<lambda>raw. Some (ai_url ''ai.example'')) (\<lambda>host. Some [''93.184.216.34'']) [] ''https://ai.example'' =
     Inr (ai_url ''ai.example'') \<and> bu_username (ai_url ''ai.example'') = [] \<and>
   assertSafeBaseUrl (\<lambda>raw. Some (ai_url ''ai.example'')) (\<lambda>host. Some [''93.184.216.34'', ''169.254.169.254'']) [] ''https://ai.example'' =
     Inl (InsecureBaseUrl ''Base URL resolves to a private or internal address; allowlist the host to use it.'')"
proof -
  have reads: "rx_exec MAPPED ''93.184.216.34'' 0 = None" "parse_ipv4 ''93.184.216.34'' = Some [93, 184, 216, 34]"
    "rx_exec MAPPED ''169.254.169.254'' 0 = None" "parse_ipv4 ''169.254.169.254'' = Some [169, 254, 169, 254]"
    by code_simp+
  have "isPrivateAddress ''93.184.216.34'' = Some False" "isPrivateAddress ''169.254.169.254'' = Some True"
    using plain_ipv4 [OF reads(1,2), of False] plain_ipv4 [OF reads(3,4), of True] by (simp_all add: private4_def)
  moreover have "url_host (ai_url ''ai.example'') = ''ai.example''" "isIP ''ai.example'' = 0" by code_simp+
  ultimately have ok: "assertSafeBaseUrl (\<lambda>raw. Some (ai_url ''ai.example'')) (\<lambda>host. Some [''93.184.216.34'']) [] ''https://ai.example'' =
      Inr (ai_url ''ai.example'')"
    and no: "assertSafeBaseUrl (\<lambda>raw. Some (ai_url ''ai.example'')) (\<lambda>host. Some [''93.184.216.34'', ''169.254.169.254'']) [] ''https://ai.example'' =
      Inl (InsecureBaseUrl ''Base URL resolves to a private or internal address; allowlist the host to use it.'')"
    by (simp_all add: assertSafeBaseUrl_def host_addresses_def, simp_all add: ai_url_def)
  show ?thesis using base_url_leaves_network [OF ok] ok no by (elim conjE) (intro conjI)
qed

end
