(* ===== verification/Ai_Settings.thy ===== *)
theory Ai_Settings
  imports Ai_Gate Base_Url_Guard Members
begin

section \<open>The AI settings of an organization\<close>

text \<open>
  \<open>src/modules/settings\<close> (reading, changing and testing the settings, the models to pick from) and
  \<open>src/modules/ai/ai-provider.factory.ts\<close>, which makes an adapter from them.  A validated name of a provider is its
  enumeration value; an optional field of a request is \<open>None\<close> where it is absent and \<open>Some None\<close> where it is \<open>null\<close>.
  The cipher, the URL parser, the name lookup and the adapters are parameters.  A user is shown by id; the time a test
  took is left out.
\<close>

subsection \<open>State\<close>

record test_snapshot =
  ts_at :: int
  ts_ok :: bool
  ts_structuredOutput :: jstr
  ts_model :: "jstr option"
  ts_warning :: "jstr option"

record settings_org = organization_ai +
  so_aiConsentUser :: "jstr option"
  so_aiLastTest :: "test_snapshot option"

record settings_cred = ai_credential +
  sc_keyLast4 :: "jstr option"
  sc_updatedBy :: "jstr option"
  sc_updatedAt :: int

record model_info =
  mi_id :: jstr
  mi_label :: jstr
  mi_contextWindow :: "nat option"
  mi_createdAt :: "int option"

datatype models_source = SourceLive | SourceCatalog

record models_dto =
  md_provider :: ai_provider_id
  md_source :: models_source
  md_fetchedAt :: int
  md_warning :: "(jstr \<times> jstr) option"
  md_models :: "(jstr \<times> jstr \<times> nat option \<times> bool) list"

type_synonym models_key = "jstr \<times> ai_provider_id \<times> int option"

text \<open>
  \<open>sd_counters\<close> are the limiter's keys with the count and the time they expire, \<open>sd_models\<close> the cached lists of models,
  \<open>sd_testUsage\<close> the usage of kind TEST by organization and day, \<open>sd_audit\<close> the entries of the audit log.
\<close>

record settings_db =
  sd_members :: members_db
  sd_orgs :: "settings_org list"
  sd_creds :: "settings_cred list"
  sd_testUsage :: "((jstr \<times> int) \<times> (nat \<times> usage)) list"
  sd_counters :: "(jstr \<times> (nat \<times> int)) list"
  sd_models :: "(models_key \<times> (models_dto \<times> int)) list"
  sd_audit :: "(jstr \<times> jstr list) list"

text \<open>Times are milliseconds.\<close>

record settings_env =
  se_now :: int
  se_redisUp :: bool
  se_encrypt :: "jstr \<Rightarrow> jstr"
  se_decrypt :: "jstr \<Rightarrow> thrown + jstr"
  se_parseUrl :: "jstr \<Rightarrow> base_url option"
  se_lookup :: "jstr \<Rightarrow> jstr list option"
  se_allowlist :: "jstr list"

datatype settings_error = Unprocessable jstr jstr | TooMany jstr | ServerError

definition find_org :: "settings_db \<Rightarrow> jstr \<Rightarrow> settings_org option" where
  "find_org db organizationId = List.find (\<lambda>o'. oa_id o' = organizationId) (sd_orgs db)"

definition is_cred :: "jstr \<Rightarrow> ai_provider_id \<Rightarrow> 'a ai_credential_scheme \<Rightarrow> bool" where
  "is_cred organizationId p c \<longleftrightarrow> cd_organizationId c = organizationId \<and> cd_provider c = p"

definition find_cred :: "settings_db \<Rightarrow> jstr \<Rightarrow> ai_provider_id \<Rightarrow> settings_cred option" where
  "find_cred db organizationId p = List.find (is_cred organizationId p) (sd_creds db)"

definition nullish :: "'a option option \<Rightarrow> 'a option" where
  "nullish x = (case x of Some v \<Rightarrow> v | None \<Rightarrow> None)"

definition guarded :: "settings_env \<Rightarrow> jstr \<Rightarrow> url_error + base_url" where
  "guarded env u = assertSafeBaseUrl (se_parseUrl env) (se_lookup env) (se_allowlist env) u"

definition PROVIDERS :: "ai_provider_id list" where
  "PROVIDERS = map snd TO_ENUM"

subsection \<open>Reading\<close>

record credential_summary =
  sm_hasKey :: bool
  sm_last4 :: "jstr option"
  sm_baseUrl :: "jstr option option"

record ai_settings =
  as_provider :: "jstr option"
  as_model :: "jstr option"
  as_baseUrl :: "jstr option"
  as_credentials :: "(jstr \<times> credential_summary) list"
  as_consent :: "(int \<times> jstr option) option"
  as_locale :: jstr
  as_dailyTokenBudget :: nat
  as_lastTest :: "test_snapshot option"

datatype settings_view = FullSettings ai_settings | SettingsSummary "jstr option" "jstr option" bool jstr

definition summary_for :: "ai_provider_id \<Rightarrow> settings_cred option \<Rightarrow> credential_summary" where
  "summary_for p credential =
    (let hasKey = (case credential of Some c \<Rightarrow> truthy (cd_encryptedKey c) | None \<Rightarrow> False)
     in \<lparr>sm_hasKey = hasKey,
         sm_last4 = (case credential of Some c \<Rightarrow> if hasKey \<and> truthy (sc_keyLast4 c) then sc_keyLast4 c else None | None \<Rightarrow> None),
         sm_baseUrl = (if p = ProviderOpenaiCompatible
           then Some (case credential of Some c \<Rightarrow> cd_baseUrl c | None \<Rightarrow> None) else None)\<rparr>)"

definition getAi :: "settings_db \<Rightarrow> jstr \<Rightarrow> settings_error + ai_settings" where
  "getAi db organizationId =
    (case find_org db organizationId of
      None \<Rightarrow> Inl ServerError
    | Some org \<Rightarrow>
       (let summaries = map (\<lambda>p. (toProviderName p, summary_for p (find_cred db organizationId p))) PROVIDERS
        in Inr \<lparr>as_provider = map_option toProviderName (oa_aiProvider org), as_model = oa_aiModel org,
          as_baseUrl = (if oa_aiProvider org = Some ProviderOpenaiCompatible
            then nullish (sm_baseUrl (summary_for ProviderOpenaiCompatible (find_cred db organizationId ProviderOpenaiCompatible)))
            else None),
          as_credentials = summaries,
          as_consent = map_option (\<lambda>granted. (granted, so_aiConsentUser org)) (oa_aiConsentAt org),
          as_locale = oa_aiLocale org, as_dailyTokenBudget = oa_aiDailyTokenBudget org, as_lastTest = so_aiLastTest org\<rparr>))"

definition getAiForMember :: "settings_db \<Rightarrow> jstr \<Rightarrow> jstr \<Rightarrow> settings_error + settings_view" where
  "getAiForMember db organizationId userId =
    (if map_option mb_role (find_membership (sd_members db) organizationId userId) = Some ADMIN
     then map_sum id FullSettings (getAi db organizationId)
     else (case find_org db organizationId of
         None \<Rightarrow> Inl ServerError
       | Some org \<Rightarrow> Inr (SettingsSummary (map_option toProviderName (oa_aiProvider org)) (oa_aiModel org)
           (oa_aiConsentAt org \<noteq> None) (oa_aiLocale org))))"

subsection \<open>Changing\<close>

record update_dto =
  ud_provider :: "ai_provider_id option option"
  ud_model :: "jstr option option"
  ud_baseUrl :: "jstr option option"
  ud_apiKey :: "jstr option option"
  ud_locale :: "jstr option option"
  ud_dailyTokenBudget :: "nat option option"
  ud_consent :: "bool option option"

definition provider_after :: "settings_org \<Rightarrow> update_dto \<Rightarrow> ai_provider_id option" where
  "provider_after org dto = (case nullish (ud_provider dto) of Some p \<Rightarrow> Some p | None \<Rightarrow> oa_aiProvider org)"

definition providerChanged :: "settings_org \<Rightarrow> update_dto \<Rightarrow> bool" where
  "providerChanged org dto \<longleftrightarrow> ud_provider dto \<noteq> None \<and> nullish (ud_provider dto) \<noteq> oa_aiProvider org"

definition touchesCredential :: "update_dto \<Rightarrow> bool" where
  "touchesCredential dto \<longleftrightarrow> nullish (ud_apiKey dto) \<noteq> None \<or> ud_baseUrl dto \<noteq> None"

definition stored_url :: "settings_cred option \<Rightarrow> jstr option" where
  "stored_url credential = (case credential of Some c \<Rightarrow> cd_baseUrl c | None \<Rightarrow> None)"

definition base_url_after :: "settings_cred option \<Rightarrow> update_dto \<Rightarrow> jstr option" where
  "base_url_after credential dto =
    (case ud_baseUrl dto of Some u \<Rightarrow> if truthy u then u else None | None \<Rightarrow> stored_url credential)"

definition key_after :: "settings_cred option \<Rightarrow> update_dto \<Rightarrow> bool" where
  "key_after credential dto =
    (case nullish (ud_apiKey dto) of
      Some k \<Rightarrow> k \<noteq> []
    | None \<Rightarrow> (case credential of Some c \<Rightarrow> truthy (cd_encryptedKey c) | None \<Rightarrow> False))"

definition check_base_url :: "settings_env \<Rightarrow> ai_provider_id option \<Rightarrow> settings_cred option \<Rightarrow> update_dto \<Rightarrow> settings_error option" where
  "check_base_url env provider credential dto =
    (if nullish (ud_baseUrl dto) \<noteq> None \<and> provider \<noteq> Some ProviderOpenaiCompatible
     then Some (Unprocessable ''baseUrl'' ''base_url_not_supported'')
     else if provider \<noteq> Some ProviderOpenaiCompatible then None
     else if (ud_provider dto \<noteq> None \<or> ud_baseUrl dto \<noteq> None) \<and> \<not> truthy (base_url_after credential dto)
     then Some (Unprocessable ''baseUrl'' ''base_url_required'')
     else (case nullish (ud_baseUrl dto) of
         None \<Rightarrow> None
       | Some u \<Rightarrow>
           if u = [] then None
           else (case guarded env u of
               Inr url \<Rightarrow> None
             | Inl (InsecureBaseUrl m) \<Rightarrow> Some (Unprocessable ''baseUrl'' ''insecure_base_url'')
             | Inl InvalidAddress \<Rightarrow> Some ServerError)))"

definition refusal :: "settings_env \<Rightarrow> settings_org \<Rightarrow> settings_cred option \<Rightarrow> update_dto \<Rightarrow> settings_error option" where
  "refusal env org credential dto =
    (let provider = provider_after org dto
     in if touchesCredential dto \<and> provider = None then Some (Unprocessable ''provider'' ''provider_required'')
        else (case check_base_url env provider credential dto of
            Some e \<Rightarrow> Some e
          | None \<Rightarrow>
              if ud_provider dto \<noteq> None \<and> provider \<noteq> Some ProviderOpenaiCompatible \<and> \<not> key_after credential dto
              then Some (Unprocessable ''apiKey'' ''api_key_required'') else None))"

definition model_after :: "settings_org \<Rightarrow> update_dto \<Rightarrow> jstr option" where
  "model_after org dto =
    (case nullish (ud_model dto) of
      Some m \<Rightarrow> Some m
    | None \<Rightarrow>
       (case provider_after org dto of
          Some p \<Rightarrow> if providerChanged org dto then defaultModelFor (toProviderName p) else oa_aiModel org
        | None \<Rightarrow> oa_aiModel org))"

datatype consent_event = ConsentGranted | ConsentRevoked

definition consent_change :: "settings_org \<Rightarrow> update_dto \<Rightarrow> consent_event option" where
  "consent_change org dto =
    (if ud_consent dto = Some (Some True) \<and> oa_aiConsentAt org = None then Some ConsentGranted
     else if ud_consent dto = Some (Some False) \<and> oa_aiConsentAt org \<noteq> None then Some ConsentRevoked
     else None)"

text \<open>\<open>organizationData\<close>; a \<open>null\<close> locale or budget makes the transaction fail.\<close>

definition org_after :: "settings_env \<Rightarrow> jstr \<Rightarrow> update_dto \<Rightarrow> settings_org \<Rightarrow> settings_org" where
  "org_after env actorUserId dto org =
    (let org1 = org\<lparr>oa_aiProvider := (if providerChanged org dto then provider_after org dto else oa_aiProvider org),
           oa_aiModel := model_after org dto,
           oa_aiLocale := (case nullish (ud_locale dto) of Some l \<Rightarrow> l | None \<Rightarrow> oa_aiLocale org),
           oa_aiDailyTokenBudget := (case nullish (ud_dailyTokenBudget dto) of Some b \<Rightarrow> b | None \<Rightarrow> oa_aiDailyTokenBudget org)\<rparr>
     in (case consent_change org dto of
          Some ConsentGranted \<Rightarrow> org1\<lparr>oa_aiConsentAt := Some (se_now env), so_aiConsentUser := Some actorUserId\<rparr>
        | Some ConsentRevoked \<Rightarrow> org1\<lparr>oa_aiConsentAt := None, so_aiConsentUser := None\<rparr>
        | None \<Rightarrow> org1))"

definition null_column :: "update_dto \<Rightarrow> bool" where
  "null_column dto \<longleftrightarrow> ud_locale dto = Some None \<or> ud_dailyTokenBudget dto = Some None"

text \<open>\<open>credentialData\<close>: the key to store and the base URL, where they are given.\<close>

definition last4 :: "jstr \<Rightarrow> jstr" where
  "last4 k = drop (length k - 4) k"

definition new_key :: "settings_env \<Rightarrow> update_dto \<Rightarrow> (jstr option \<times> jstr option) option" where
  "new_key env dto = map_option (\<lambda>k. if k = [] then (None, None) else (Some (se_encrypt env k), Some (last4 k))) (nullish (ud_apiKey dto))"

definition new_url :: "settings_cred option \<Rightarrow> update_dto \<Rightarrow> jstr option option" where
  "new_url credential dto =
    (if ud_baseUrl dto \<noteq> None \<and> base_url_after credential dto \<noteq> stored_url credential
     then Some (base_url_after credential dto) else None)"

definition cred_after :: "settings_env \<Rightarrow> jstr \<Rightarrow> update_dto \<Rightarrow> settings_cred option \<Rightarrow> settings_cred \<Rightarrow> settings_cred" where
  "cred_after env actorUserId dto credential c =
    (let (k, l) = (case new_key env dto of Some kl \<Rightarrow> kl | None \<Rightarrow> (cd_encryptedKey c, sc_keyLast4 c))
     in c\<lparr>cd_encryptedKey := k, cd_baseUrl := (case new_url credential dto of Some u \<Rightarrow> u | None \<Rightarrow> cd_baseUrl c),
       sc_keyLast4 := l, sc_updatedBy := Some actorUserId, sc_updatedAt := se_now env\<rparr>)"

definition new_cred :: "settings_env \<Rightarrow> jstr \<Rightarrow> ai_provider_id \<Rightarrow> jstr \<Rightarrow> update_dto \<Rightarrow> settings_cred" where
  "new_cred env organizationId p actorUserId dto =
    (let (k, l) = (case new_key env dto of Some kl \<Rightarrow> kl | None \<Rightarrow> (None, None))
     in \<lparr>cd_organizationId = organizationId, cd_provider = p, cd_encryptedKey = k,
       cd_baseUrl = (case nullish (new_url None dto) of Some u \<Rightarrow> Some u | None \<Rightarrow> base_url_after None dto),
       sc_keyLast4 = l, sc_updatedBy = Some actorUserId, sc_updatedAt = se_now env\<rparr>)"

definition upsert_cred :: "settings_env \<Rightarrow> jstr \<Rightarrow> ai_provider_id \<Rightarrow> jstr \<Rightarrow> update_dto \<Rightarrow> settings_cred list \<Rightarrow> settings_cred list" where
  "upsert_cred env organizationId p actorUserId dto cs =
    (case List.find (is_cred organizationId p) cs of
      None \<Rightarrow> cs @ [new_cred env organizationId p actorUserId dto]
    | Some credential \<Rightarrow> map (\<lambda>c. if is_cred organizationId p c then cred_after env actorUserId dto (Some credential) c else c) cs)"

definition changedFields :: "settings_org \<Rightarrow> settings_cred option \<Rightarrow> update_dto \<Rightarrow> jstr list" where
  "changedFields org credential dto =
    (if providerChanged org dto then [''provider''] else []) @ (if model_after org dto \<noteq> oa_aiModel org then [''model''] else []) @
    (if ud_locale dto \<noteq> None then [''locale''] else []) @ (if ud_dailyTokenBudget dto \<noteq> None then [''dailyTokenBudget''] else []) @
    (if provider_after org dto \<noteq> None \<and> touchesCredential dto
     then (if nullish (ud_apiKey dto) \<noteq> None then [''apiKey''] else []) @ (if new_url credential dto \<noteq> None then [''baseUrl''] else [])
     else [])"

definition audit_entries :: "settings_org \<Rightarrow> settings_cred option \<Rightarrow> update_dto \<Rightarrow> (jstr \<times> jstr list) list" where
  "audit_entries org credential dto =
    (let changed = changedFields org credential dto
     in (if changed \<noteq> [] then [(''audit.ai.settings_changed'', changed)] else []) @
        (case consent_change org dto of
           Some ConsentGranted \<Rightarrow> [(''audit.ai.consent_granted'', [])]
         | Some ConsentRevoked \<Rightarrow> [(''audit.ai.consent_revoked'', [])]
         | None \<Rightarrow> []))"

definition apply_update :: "settings_env \<Rightarrow> jstr \<Rightarrow> jstr \<Rightarrow> update_dto \<Rightarrow> settings_org \<Rightarrow> settings_cred option \<Rightarrow> settings_db \<Rightarrow> settings_db" where
  "apply_update env organizationId actorUserId dto org credential db =
    db\<lparr>sd_orgs := map (\<lambda>o'. if oa_id o' = organizationId then org_after env actorUserId dto o' else o') (sd_orgs db),
      sd_creds := (case provider_after org dto of
        Some p \<Rightarrow> if touchesCredential dto then upsert_cred env organizationId p actorUserId dto (sd_creds db) else sd_creds db
      | None \<Rightarrow> sd_creds db),
      sd_audit := sd_audit db @ audit_entries org credential dto\<rparr>"

definition updateAi :: "settings_env \<Rightarrow> settings_db \<Rightarrow> jstr \<Rightarrow> jstr \<Rightarrow> update_dto \<Rightarrow> (settings_error + ai_settings) \<times> settings_db" where
  "updateAi env db organizationId actorUserId dto =
    (case find_org db organizationId of
      None \<Rightarrow> (Inl ServerError, db)
    | Some org \<Rightarrow>
       (let credential = (case provider_after org dto of Some p \<Rightarrow> find_cred db organizationId p | None \<Rightarrow> None)
        in (case refusal env org credential dto of
             Some e \<Rightarrow> (Inl e, db)
           | None \<Rightarrow>
               if null_column dto then (Inl ServerError, db)
               else (let db' = apply_update env organizationId actorUserId dto org credential db
                     in (getAi db' organizationId, db')))))"
subsection \<open>The adapter\<close>

record provider_override =
  ov_provider :: "ai_provider_id option"
  ov_model :: "jstr option"
  ov_baseUrl :: "jstr option"
  ov_apiKey :: "jstr option"

record provider_config =
  pc_name :: ai_provider_id
  pc_model :: jstr
  pc_apiKey :: "jstr option"
  pc_baseUrl :: "jstr option"

definition config_error :: "ai_error_code \<Rightarrow> jstr option \<Rightarrow> thrown" where
  "config_error code message = ThrownAi (new_ai_error code message None None None)"

definition adapter_key :: "settings_env \<Rightarrow> provider_override \<Rightarrow> settings_cred option \<Rightarrow> thrown + jstr option" where
  "adapter_key env ov credential =
    (if truthy (ov_apiKey ov) then Inr (ov_apiKey ov)
     else (case credential of
         Some c \<Rightarrow> (case cd_encryptedKey c of
             Some k \<Rightarrow> if k = [] then Inr None else map_sum id Some (se_decrypt env k)
           | None \<Rightarrow> Inr None)
       | None \<Rightarrow> Inr None))"

definition adapter_url :: "settings_env \<Rightarrow> provider_override \<Rightarrow> settings_cred option \<Rightarrow> thrown + jstr" where
  "adapter_url env ov credential =
    (case or_else (ov_baseUrl ov) (stored_url credential) of
      None \<Rightarrow> Inl (config_error CodeBaseUrlRequired None)
    | Some u \<Rightarrow>
        if u = [] then Inl (config_error CodeBaseUrlRequired None)
        else (case guarded env u of
            Inr url \<Rightarrow> Inr u
          | Inl (InsecureBaseUrl m) \<Rightarrow> Inl (config_error CodeInsecureBaseUrl (Some m))
          | Inl InvalidAddress \<Rightarrow> Inl (ThrownObject \<lparr>el_name = Some ''TypeError'', el_message = Some ''Invalid address'',
              el_status = None, el_code = Some ''ERR_INVALID_ADDRESS'', el_cause_code = None\<rparr>)))"

definition adapter_model :: "provider_override \<Rightarrow> settings_org option \<Rightarrow> ai_provider_id \<Rightarrow> jstr option" where
  "adapter_model ov organization name =
    or_else (ov_model ov) (or_else (case organization of Some org \<Rightarrow>
        if oa_aiProvider org = Some name then oa_aiModel org else None | None \<Rightarrow> None) (defaultModelFor (toProviderName name)))"

definition provider_for :: "settings_env \<Rightarrow> settings_db \<Rightarrow> jstr \<Rightarrow> provider_override \<Rightarrow> thrown + provider_config" where
  "provider_for env db organizationId ov =
    (let organization = find_org db organizationId
     in (case or_else (ov_provider ov) (case organization of Some org \<Rightarrow> oa_aiProvider org | None \<Rightarrow> None) of
          None \<Rightarrow> Inl (config_error CodeNotConfigured (Some ''No AI provider is selected.''))
        | Some name \<Rightarrow>
           (let credential = find_cred db organizationId name
            in (case adapter_model ov organization name of
                 None \<Rightarrow> Inl (config_error CodeNotConfigured (Some ''No model is selected.''))
               | Some model \<Rightarrow>
                   if model = [] then Inl (config_error CodeNotConfigured (Some ''No model is selected.''))
                   else (case adapter_key env ov credential of
                       Inl t \<Rightarrow> Inl t
                     | Inr key \<Rightarrow>
                         if name \<noteq> ProviderOpenaiCompatible \<and> \<not> truthy key then Inl (config_error CodeApiKeyRequired None)
                         else if name \<noteq> ProviderOpenaiCompatible
                         then Inr \<lparr>pc_name = name, pc_model = model, pc_apiKey = key, pc_baseUrl = None\<rparr>
                         else map_sum id (\<lambda>u. \<lparr>pc_name = name, pc_model = model, pc_apiKey = key, pc_baseUrl = Some u\<rparr>)
                           (adapter_url env ov credential))))))"

definition MODEL_LISTING_PLACEHOLDER :: jstr where "MODEL_LISTING_PLACEHOLDER = ''model-listing''"

definition forModelListing :: "settings_env \<Rightarrow> settings_db \<Rightarrow> jstr \<Rightarrow> provider_override \<Rightarrow> thrown + provider_config" where
  "forModelListing env db organizationId ov =
    provider_for env db organizationId (ov\<lparr>ov_model := or_else (ov_model ov) (Some MODEL_LISTING_PLACEHOLDER)\<rparr>)"

subsection \<open>What a failure is shown as\<close>

fun ai_error_code_name :: "ai_error_code \<Rightarrow> jstr" where
  "ai_error_code_name CodeAuthFailed = ''auth_failed''"
| "ai_error_code_name CodeRateLimited = ''rate_limited''"
| "ai_error_code_name CodeTimeout = ''timeout''"
| "ai_error_code_name CodeProviderUnreachable = ''provider_unreachable''"
| "ai_error_code_name CodeInvalidResponse = ''invalid_response''"
| "ai_error_code_name CodeOutputTruncated = ''output_truncated''"
| "ai_error_code_name CodeReasoningExhausted = ''reasoning_exhausted''"
| "ai_error_code_name CodeBadRequest = ''bad_request''"
| "ai_error_code_name CodeInsecureBaseUrl = ''insecure_base_url''"
| "ai_error_code_name CodeNotConfigured = ''not_configured''"
| "ai_error_code_name CodeApiKeyRequired = ''api_key_required''"
| "ai_error_code_name CodeBaseUrlRequired = ''base_url_required''"

definition aiErrorMessage :: "ai_error \<Rightarrow> jstr" where
  "aiErrorMessage e =
    (let status = (case ae_status e of Some s \<Rightarrow> if s = 0 then [] else '' ('' @ show_int s @ '')'' | None \<Rightarrow> []);
         or = (\<lambda>d. case ae_providerMessage e of Some m \<Rightarrow> m | None \<Rightarrow> d)
     in (case ae_code e of
          CodeAuthFailed \<Rightarrow> ''Provider rejected the API key'' @ status @ ''.''
        | CodeRateLimited \<Rightarrow> ''Provider rate limit reached'' @ status @ ''. Try again later.''
        | CodeTimeout \<Rightarrow> ''Provider did not respond in time.''
        | CodeProviderUnreachable \<Rightarrow> ''Provider could not be reached'' @ status @ ''.''
        | CodeInvalidResponse \<Rightarrow> ''Provider replied, but not with a valid structured result.''
        | CodeOutputTruncated \<Rightarrow> ''Provider stopped at the output token limit before finishing the result.''
        | CodeReasoningExhausted \<Rightarrow> ''The model spent its whole output budget on reasoning before answering. '' @
            ''Split the pull request or choose another model.''
        | CodeBadRequest \<Rightarrow> ''Provider rejected the request'' @ status @ '': '' @ or []
        | CodeInsecureBaseUrl \<Rightarrow> or ''Base URL is not allowed.''
        | CodeNotConfigured \<Rightarrow> or ''No AI provider is configured.''
        | CodeApiKeyRequired \<Rightarrow> ''An API key is required for this provider.''
        | CodeBaseUrlRequired \<Rightarrow> ''A base URL is required for this provider.''))"

subsection \<open>The limiter\<close>

text \<open>\<open>INCR\<close> and \<open>EXPIRE NX\<close>: the window starts at the first call.\<close>

definition tryConsume :: "settings_env \<Rightarrow> jstr \<Rightarrow> nat \<Rightarrow> int \<Rightarrow> settings_db \<Rightarrow> bool \<times> settings_db" where
  "tryConsume env key limit windowSeconds db =
    (if \<not> se_redisUp env then (True, db)
     else (let (n, e) = (case al_get (sd_counters db) key of
                  Some (n, e) \<Rightarrow> if se_now env < e then (n, e) else (0, se_now env + windowSeconds * 1000)
                | None \<Rightarrow> (0, se_now env + windowSeconds * 1000))
           in (Suc n \<le> limit, db\<lparr>sd_counters := al_set key (Suc n, e) (sd_counters db)\<rparr>)))"

subsection \<open>Testing the connection\<close>

definition TEST_LIMIT_PER_HOUR :: nat where "TEST_LIMIT_PER_HOUR = 5"
definition HOUR_SECONDS :: int where "HOUR_SECONDS = 3600"

record test_result =
  tr_ok :: bool
  tr_model :: "jstr option"
  tr_structuredOutput :: jstr
  tr_usage :: "usage option"
  tr_error :: "(jstr \<times> jstr) option"
  tr_warning :: "jstr option"

text \<open>What an adapter does: the health check, each completion, the schema check and the list of models.\<close>

record adapter =
  ad_healthcheck :: "provider_config \<Rightarrow> thrown option"
  ad_complete :: "provider_config \<Rightarrow> nat \<Rightarrow> thrown + ai_answer"
  ad_matches :: "json \<Rightarrow> bool"
  ad_models :: "provider_config \<Rightarrow> thrown + model_info list"

definition test_options :: "adapter \<Rightarrow> unit call_options" where
  "test_options ad = \<lparr>co_retryRequest = (\<lambda>r e. r), co_normalize = id, co_matches = ad_matches ad, co_salvage = (\<lambda>attempts. None)\<rparr>"

definition test_key :: "jstr \<Rightarrow> jstr" where "test_key organizationId = ''ratelimit:ai-test:org:'' @ organizationId"

definition test_outcome :: "settings_env \<Rightarrow> adapter \<Rightarrow> settings_db \<Rightarrow> jstr \<Rightarrow> provider_override \<Rightarrow> thrown + ai_answer" where
  "test_outcome env ad db organizationId dto =
    (case provider_for env db organizationId dto of
      Inl t \<Rightarrow> Inl t
    | Inr cfg \<Rightarrow>
       (case ad_healthcheck ad cfg of
          Some t \<Rightarrow> Inl t
        | None \<Rightarrow> fst (completeValidated (\<lambda>n r. ad_complete ad cfg n) (test_options ad) ())))"

definition recordTestUsage :: "int \<Rightarrow> jstr \<Rightarrow> usage \<Rightarrow> settings_db \<Rightarrow> settings_db" where
  "recordTestUsage now organizationId u db =
    (let k = (organizationId, todayUtc now);
         row = (case al_get (sd_testUsage db) k of
           Some (calls, i, out) \<Rightarrow> (calls + 1, i + fst u, out + snd u) | None \<Rightarrow> (1, u))
     in db\<lparr>sd_testUsage := al_set k row (sd_testUsage db)\<rparr>)"

definition test_passed :: "ai_answer \<Rightarrow> test_result" where
  "test_passed ans = \<lparr>tr_ok = True, tr_model = Some (an_model ans), tr_structuredOutput = an_structuredOutput ans,
    tr_usage = Some (an_usage ans), tr_error = None, tr_warning = (if an_reasoning ans then Some ''reasoning_model'' else None)\<rparr>"

definition test_failed :: "ai_error \<Rightarrow> test_result" where
  "test_failed e = \<lparr>tr_ok = False, tr_model = None, tr_structuredOutput = ''failed'', tr_usage = ae_usage e,
    tr_error = Some (ai_error_code_name (ae_code e), aiErrorMessage e), tr_warning = None\<rparr>"

definition snapshot :: "int \<Rightarrow> test_result \<Rightarrow> test_snapshot" where
  "snapshot now r = \<lparr>ts_at = now, ts_ok = tr_ok r, ts_structuredOutput = tr_structuredOutput r, ts_model = tr_model r,
    ts_warning = tr_warning r\<rparr>"

definition settle_test :: "settings_env \<Rightarrow> jstr \<Rightarrow> test_result \<Rightarrow> settings_db \<Rightarrow> (settings_error + test_result) \<times> settings_db" where
  "settle_test env organizationId r db =
    (let db1 = (case tr_usage r of Some u \<Rightarrow> recordTestUsage (se_now env) organizationId u db | None \<Rightarrow> db)
     in (Inr r, db1\<lparr>sd_orgs := map (\<lambda>o'. if oa_id o' = organizationId then o'\<lparr>so_aiLastTest := Some (snapshot (se_now env) r)\<rparr> else o')
       (sd_orgs db1)\<rparr>))"

definition testAi :: "settings_env \<Rightarrow> adapter \<Rightarrow> settings_db \<Rightarrow> jstr \<Rightarrow> provider_override \<Rightarrow> (settings_error + test_result) \<times> settings_db" where
  "testAi env ad db organizationId dto =
    (let (allowed, db1) = tryConsume env (test_key organizationId) TEST_LIMIT_PER_HOUR HOUR_SECONDS db
     in if \<not> allowed then (Inl (TooMany ''ai_test_rate_limited''), db1)
        else (case test_outcome env ad db1 organizationId dto of
            Inr ans \<Rightarrow> settle_test env organizationId (test_passed ans) db1
          | Inl t \<Rightarrow>
             (case toAiError t of
                Inl t' \<Rightarrow> (Inl ServerError, db1)
              | Inr e \<Rightarrow> settle_test env organizationId (test_failed e) db1)))"

subsection \<open>The models to pick from\<close>

definition CATALOG_MODELS :: "(jstr \<times> jstr list) list" where
  "CATALOG_MODELS = [(''anthropic'', [''claude-sonnet-5'', ''claude-opus-5-5'', ''claude-haiku-4-5-20251001'']),
    (''openai'', [''gpt-4o'', ''gpt-4o-mini'', ''gpt-4.1'']), (''openai_compatible'', []),
    (''google'', [''gemini-3.8-flash'', ''gemini-4-argon'', ''gemini-3.5-flash-lite''])]"

definition RECOMMENDED_MODELS :: "(jstr \<times> jstr list) list" where
  "RECOMMENDED_MODELS = [(''anthropic'', [''claude-sonnet-5'', ''claude-opus-5-5'', ''claude-haiku-4-5-20251001'']),
    (''openai'', [''gpt-4o'', ''gpt-4o-mini'']),
    (''openai_compatible'', [''gpt-4o-mini'', ''llama-3.1-70b-instruct'', ''qwen2.5-coder-32b-instruct'']), (''google'', [])]"

definition CACHE_TTL_SECONDS :: int where "CACHE_TTL_SECONDS = 3600"
definition PREVIEW_LIMIT_PER_HOUR :: nat where "PREVIEW_LIMIT_PER_HOUR = 20"

definition INPUT_ERRORS :: "ai_error_code list" where "INPUT_ERRORS = [CodeInsecureBaseUrl, CodeBaseUrlRequired]"

definition created_desc :: "model_info \<Rightarrow> model_info \<Rightarrow> int" where
  "created_desc a b = (case mi_createdAt b of Some x \<Rightarrow> x | None \<Rightarrow> 0) - (case mi_createdAt a of Some x \<Rightarrow> x | None \<Rightarrow> 0)"

definition newestFirst :: "model_info list \<Rightarrow> model_info list" where
  "newestFirst models = js_sort created_desc (filter (\<lambda>m. mi_createdAt m \<noteq> None) models) @ filter (\<lambda>m. mi_createdAt m = None) models"

definition recommended :: "ai_provider_id \<Rightarrow> jstr list" where
  "recommended p = (case al_get RECOMMENDED_MODELS (toProviderName p) of Some ms \<Rightarrow> ms | None \<Rightarrow> [])"

definition catalogModels :: "ai_provider_id \<Rightarrow> model_info list" where
  "catalogModels p =
    (let ids = (case al_get CATALOG_MODELS (toProviderName p) of Some ms \<Rightarrow> if ms \<noteq> [] then ms else recommended p | None \<Rightarrow> recommended p)
     in map (\<lambda>i. \<lparr>mi_id = i, mi_label = i, mi_contextWindow = None, mi_createdAt = None\<rparr>) ids)"

definition toDto :: "settings_env \<Rightarrow> ai_provider_id \<Rightarrow> models_source \<Rightarrow> model_info list \<Rightarrow> (jstr \<times> jstr) option \<Rightarrow> models_dto" where
  "toDto env p source models warning = \<lparr>md_provider = p, md_source = source, md_fetchedAt = se_now env, md_warning = warning,
    md_models = map (\<lambda>m. (mi_id m, mi_label m, mi_contextWindow m, mi_id m \<in> set (recommended p))) models\<rparr>"

definition fetch_models :: "settings_env \<Rightarrow> adapter \<Rightarrow> settings_db \<Rightarrow> jstr \<Rightarrow> ai_provider_id \<Rightarrow> jstr option \<Rightarrow> jstr option \<Rightarrow>
    settings_error + models_dto" where
  "fetch_models env ad db organizationId p apiKey baseUrl =
    (case (case forModelListing env db organizationId
            \<lparr>ov_provider = Some p, ov_model = None, ov_baseUrl = baseUrl, ov_apiKey = apiKey\<rparr> of
          Inl t \<Rightarrow> Inl t
        | Inr cfg \<Rightarrow> ad_models ad cfg) of
      Inr models \<Rightarrow> Inr (toDto env p SourceLive (newestFirst models) None)
    | Inl t \<Rightarrow>
       (case toAiError t of
          Inl t' \<Rightarrow> Inl ServerError
        | Inr e \<Rightarrow>
            if ae_code e \<in> set INPUT_ERRORS then Inl (Unprocessable ''baseUrl'' (ai_error_code_name (ae_code e)))
            else Inr (toDto env p SourceCatalog (catalogModels p) (Some (ai_error_code_name (ae_code e), aiErrorMessage e)))))"

definition models_key :: "settings_db \<Rightarrow> jstr \<Rightarrow> ai_provider_id \<Rightarrow> models_key" where
  "models_key db organizationId p = (organizationId, p, map_option sc_updatedAt (find_cred db organizationId p))"

definition readCache :: "settings_env \<Rightarrow> models_key \<Rightarrow> settings_db \<Rightarrow> models_dto option" where
  "readCache env key db =
    (if \<not> se_redisUp env then None
     else (case al_get (sd_models db) key of Some (v, e) \<Rightarrow> if se_now env < e then Some v else None | None \<Rightarrow> None))"

definition writeCache :: "settings_env \<Rightarrow> models_key \<Rightarrow> models_dto \<Rightarrow> settings_db \<Rightarrow> settings_db" where
  "writeCache env key v db =
    (if se_redisUp env then db\<lparr>sd_models := al_set key (v, se_now env + CACHE_TTL_SECONDS * 1000) (sd_models db)\<rparr> else db)"

definition listForOrg :: "settings_env \<Rightarrow> adapter \<Rightarrow> settings_db \<Rightarrow> jstr \<Rightarrow> ai_provider_id \<Rightarrow> (settings_error + models_dto) \<times> settings_db" where
  "listForOrg env ad db organizationId p =
    (let key = models_key db organizationId p
     in (case readCache env key db of
          Some v \<Rightarrow> (Inr v, db)
        | None \<Rightarrow>
           (case fetch_models env ad db organizationId p None None of
              Inl e \<Rightarrow> (Inl e, db)
            | Inr v \<Rightarrow> (Inr v, if md_source v = SourceLive then writeCache env key v db else db))))"

definition preview_models :: "settings_env \<Rightarrow> adapter \<Rightarrow> settings_db \<Rightarrow> jstr \<Rightarrow> ai_provider_id \<Rightarrow> jstr option \<Rightarrow> jstr option \<Rightarrow>
    (settings_error + models_dto) \<times> settings_db" where
  "preview_models env ad db organizationId p apiKey baseUrl =
    (let (allowed, db1) = tryConsume env (''ratelimit:ai-models:org:'' @ organizationId) PREVIEW_LIMIT_PER_HOUR HOUR_SECONDS db
     in if \<not> allowed then (Inl (TooMany ''ai_models_rate_limited''), db1)
        else (fetch_models env ad db1 organizationId p apiKey baseUrl, db1))"

end
