(* ===== verification/Settings_Safety.thy ===== *)
theory Settings_Safety
  imports Ai_Settings
begin

section \<open>What the settings keep\<close>

text \<open>
  Properties of \<open>Ai_Settings\<close>: which credential an adapter gets, what is shown of a key, when the settings make an
  organization ready for AI review, what a sequence of changes keeps, and the limits.
\<close>

subsection \<open>Rows after a change\<close>

lemma find_map_same:
  assumes "\<And>x. P (f x) = P x"
  shows "List.find P (map f xs) = map_option f (List.find P xs)"
  using assms by (induction xs) auto

lemma find_app: "List.find P (xs @ ys) = (case List.find P xs of None \<Rightarrow> List.find P ys | Some x \<Rightarrow> Some x)"
  by (induction xs) auto

lemma is_cred_after [simp]: "is_cred org p (cred_after env actor dto cr c) = is_cred org p c"
  by (simp add: is_cred_def cred_after_def split: prod.splits)

lemma org_after_id [simp]: "oa_id (org_after env actor dto org) = oa_id org"
  by (simp add: org_after_def Let_def split: option.splits consent_event.splits)

lemma find_org_some: "find_org db i = Some org \<Longrightarrow> oa_id org = i \<and> org \<in> set (sd_orgs db)"
  by (auto simp: find_org_def find_Some_iff)

lemma find_cred_some: "find_cred db i p = Some c \<Longrightarrow> is_cred i p c \<and> c \<in> set (sd_creds db)"
  by (auto simp: find_cred_def find_Some_iff)

lemma find_org_apply:
  assumes "find_org db i = Some org"
  shows "find_org (apply_update env i actor dto org cr db) i = Some (org_after env actor dto org)"
proof -
  have "find_org (apply_update env i actor dto org cr db) i =
      map_option (\<lambda>o'. if oa_id o' = i then org_after env actor dto o' else o') (find_org db i)"
    by (simp add: find_org_def apply_update_def find_map_same)
  then show ?thesis using assms find_org_some [OF assms] by simp
qed

lemma find_upsert:
  "List.find (is_cred i q) (upsert_cred env i p actor dto cs) =
    (if q = p then Some (case List.find (is_cred i p) cs of
        Some c \<Rightarrow> cred_after env actor dto (Some c) c | None \<Rightarrow> new_cred env i p actor dto)
     else List.find (is_cred i q) cs)"
proof (cases "List.find (is_cred i p) cs")
  case None
  have new: "is_cred i q (new_cred env i p actor dto) \<longleftrightarrow> q = p"
    by (auto simp: is_cred_def new_cred_def split: prod.splits)
  show ?thesis using None new by (auto simp: upsert_cred_def find_app split: option.splits)
next
  case (Some c)
  have "List.find (is_cred i q) (upsert_cred env i p actor dto cs) =
      map_option (\<lambda>x. if is_cred i p x then cred_after env actor dto (Some c) x else x) (List.find (is_cred i q) cs)"
    using Some by (simp add: upsert_cred_def find_map_same)
  moreover have "is_cred i p x \<longleftrightarrow> q = p" if "List.find (is_cred i q) cs = Some x" for x
    using that by (auto simp: find_Some_iff is_cred_def)
  ultimately show ?thesis using Some by (cases "List.find (is_cred i q) cs") auto
qed

lemma find_cred_apply:
  "find_cred (apply_update env i actor dto org cr db) i q =
    (if provider_after org dto = Some q \<and> touchesCredential dto
     then Some (case find_cred db i q of Some c \<Rightarrow> cred_after env actor dto (Some c) c | None \<Rightarrow> new_cred env i q actor dto)
     else find_cred db i q)"
  by (auto simp: find_cred_def apply_update_def find_upsert split: option.splits)

lemma updateAi_accepted:
  assumes "updateAi env db i actor dto = (Inr v, db')"
  obtains org cr where "find_org db i = Some org" "cr = (case provider_after org dto of Some p \<Rightarrow> find_cred db i p | None \<Rightarrow> None)"
    "refusal env org cr dto = None" "\<not> null_column dto" "db' = apply_update env i actor dto org cr db" "getAi db' i = Inr v"
  using assms by (auto simp: updateAi_def Let_def split: option.splits if_splits)

lemma updateAi_refused: "updateAi env db i actor dto = (Inl e, db') \<Longrightarrow> db' = db"
  by (auto simp: updateAi_def getAi_def Let_def find_org_apply split: option.splits if_splits)

subsection \<open>The adapter's credential\<close>

text \<open>C11: an adapter is made only from what belongs to it.  Its name is the one asked for, or the provider the organization has
  selected; its key is the one typed in for this call, or else the decrypted key of that very organization and provider;
  every provider but \<open>openai_compatible\<close> has a key and no base URL; and an \<open>openai_compatible\<close> adapter has a base URL, typed in
  or stored for it, that passed the guard in this very call.\<close>

theorem adapter_credential_scoped:
  assumes "provider_for env db organizationId ov = Inr cfg"
  shows "(ov_provider ov = Some (pc_name cfg) \<or>
      ov_provider ov = None \<and> (\<exists>org. find_org db organizationId = Some org \<and> oa_aiProvider org = Some (pc_name cfg)))
    \<and> pc_model cfg \<noteq> []
    \<and> (if truthy (ov_apiKey ov) then pc_apiKey cfg = ov_apiKey ov
       else (case pc_apiKey cfg of
           None \<Rightarrow> pc_name cfg = ProviderOpenaiCompatible
         | Some key \<Rightarrow> \<exists>c k. c \<in> set (sd_creds db) \<and> cd_organizationId c = organizationId \<and> cd_provider c = pc_name cfg \<and>
             cd_encryptedKey c = Some k \<and> se_decrypt env k = Inr key))
    \<and> (case pc_baseUrl cfg of
         None \<Rightarrow> pc_name cfg \<noteq> ProviderOpenaiCompatible \<and> truthy (pc_apiKey cfg)
       | Some u \<Rightarrow> pc_name cfg = ProviderOpenaiCompatible \<and> (\<exists>url. guarded env u = Inr url) \<and>
           (ov_baseUrl ov = Some u \<or> ov_baseUrl ov = None \<and>
             (\<exists>c. c \<in> set (sd_creds db) \<and> cd_organizationId c = organizationId \<and> cd_provider c = ProviderOpenaiCompatible \<and>
               cd_baseUrl c = Some u)))"
proof -
  obtain model key where name: "or_else (ov_provider ov) (case find_org db organizationId of Some org \<Rightarrow> oa_aiProvider org | None \<Rightarrow> None) =
      Some (pc_name cfg)"
    and model: "pc_model cfg = model" "model \<noteq> []"
    and key: "adapter_key env ov (find_cred db organizationId (pc_name cfg)) = Inr key" "pc_apiKey cfg = key"
    and url: "if pc_name cfg = ProviderOpenaiCompatible
      then (\<exists>u. adapter_url env ov (find_cred db organizationId (pc_name cfg)) = Inr u \<and> pc_baseUrl cfg = Some u)
      else pc_baseUrl cfg = None \<and> truthy key"
    using assms
    by (auto simp: provider_for_def Let_def map_sum_def split: option.splits if_splits sum.splits)
  note cred = find_cred_some [of db organizationId "pc_name cfg"]
  have name': "ov_provider ov = Some (pc_name cfg) \<or>
      ov_provider ov = None \<and> (\<exists>org. find_org db organizationId = Some org \<and> oa_aiProvider org = Some (pc_name cfg))"
    using name by (auto simp: or_else_def split: option.splits)
  have key': "if truthy (ov_apiKey ov) then pc_apiKey cfg = ov_apiKey ov
       else (case pc_apiKey cfg of
           None \<Rightarrow> pc_name cfg = ProviderOpenaiCompatible
         | Some key \<Rightarrow> \<exists>c k. c \<in> set (sd_creds db) \<and> cd_organizationId c = organizationId \<and> cd_provider c = pc_name cfg \<and>
             cd_encryptedKey c = Some k \<and> se_decrypt env k = Inr key)"
    using key url cred by (auto simp: adapter_key_def truthy_def is_cred_def map_sum_def split: option.splits if_splits sum.splits)
  have url': "case pc_baseUrl cfg of
         None \<Rightarrow> pc_name cfg \<noteq> ProviderOpenaiCompatible \<and> truthy (pc_apiKey cfg)
       | Some u \<Rightarrow> pc_name cfg = ProviderOpenaiCompatible \<and> (\<exists>url. guarded env u = Inr url) \<and>
           (ov_baseUrl ov = Some u \<or> ov_baseUrl ov = None \<and>
             (\<exists>c. c \<in> set (sd_creds db) \<and> cd_organizationId c = organizationId \<and> cd_provider c = ProviderOpenaiCompatible \<and>
               cd_baseUrl c = Some u))"
    using key url cred
    by (auto simp: adapter_url_def or_else_def stored_url_def is_cred_def split: option.splits if_splits sum.splits url_error.splits)
  show ?thesis using name' model key' url' by blast
qed
definition demo_settings_env :: settings_env where
  "demo_settings_env = \<lparr>se_now = 1000, se_redisUp = True, se_encrypt = (\<lambda>k. ''enc:'' @ k), se_decrypt = (\<lambda>k. Inr (drop 4 k)),
    se_parseUrl = (\<lambda>u. Some (ai_url ''ai.local'')), se_lookup = (\<lambda>h. None), se_allowlist = [''ai.local'']\<rparr>"

definition demo_settings_db :: settings_db where
  "demo_settings_db = \<lparr>sd_members = \<lparr>mdb_memberships = [], mdb_invitations = [], mdb_emails = [], mdb_invites_sent = [], mdb_mail = []\<rparr>,
    sd_orgs = [\<lparr>oa_id = ''o'', oa_aiProvider = None, oa_aiModel = None, oa_aiConsentAt = None, oa_aiDailyTokenBudget = 2000000,
      oa_aiLocale = ''en'', so_aiConsentUser = None, so_aiLastTest = None\<rparr>],
    sd_creds = [], sd_testUsage = [], sd_counters = [], sd_models = [], sd_audit = []\<rparr>"

definition no_change :: update_dto where
  "no_change = \<lparr>ud_provider = None, ud_model = None, ud_baseUrl = None, ud_apiKey = None, ud_locale = None,
    ud_dailyTokenBudget = None, ud_consent = None\<rparr>"

definition demo_update :: update_dto where
  "demo_update = no_change\<lparr>ud_provider := Some (Some ProviderOpenaiCompatible), ud_model := Some (Some ''m''),
    ud_baseUrl := Some (Some ''https://ai.local''), ud_apiKey := Some (Some ''sk-secret''), ud_consent := Some (Some True)\<rparr>"

definition demo_settings_saved :: settings_db where
  "demo_settings_saved = demo_settings_db\<lparr>
    sd_orgs := [\<lparr>oa_id = ''o'', oa_aiProvider = Some ProviderOpenaiCompatible, oa_aiModel = Some ''m'', oa_aiConsentAt = Some 1000,
      oa_aiDailyTokenBudget = 2000000, oa_aiLocale = ''en'', so_aiConsentUser = Some ''u'', so_aiLastTest = None\<rparr>],
    sd_creds := [\<lparr>cd_organizationId = ''o'', cd_provider = ProviderOpenaiCompatible, cd_encryptedKey = Some ''enc:sk-secret'',
      cd_baseUrl = Some ''https://ai.local'', sc_keyLast4 = Some ''cret'', sc_updatedBy = Some ''u'', sc_updatedAt = 1000\<rparr>]\<rparr>"

definition no_override :: provider_override where
  "no_override = \<lparr>ov_provider = None, ov_model = None, ov_baseUrl = None, ov_apiKey = None\<rparr>"

lemma no_override_simps [simp]:
  "ov_provider no_override = None" "ov_model no_override = None" "ov_baseUrl no_override = None" "ov_apiKey no_override = None"
  by (simp_all add: no_override_def)

lemma demo_saved_simps:
  "find_org demo_settings_saved ''o'' = Some (hd (sd_orgs demo_settings_saved))"
  "find_cred demo_settings_saved ''o'' ProviderOpenaiCompatible = Some (hd (sd_creds demo_settings_saved))"
  "oa_aiProvider (hd (sd_orgs demo_settings_saved)) = Some ProviderOpenaiCompatible"
  "oa_aiModel (hd (sd_orgs demo_settings_saved)) = Some ''m''"
  "cd_encryptedKey (hd (sd_creds demo_settings_saved)) = Some ''enc:sk-secret''"
  "cd_baseUrl (hd (sd_creds demo_settings_saved)) = Some ''https://ai.local''"
  by (simp_all add: demo_settings_saved_def find_org_def find_cred_def is_cred_def)

lemma demo_guarded: "guarded demo_settings_env ''https://ai.local'' = Inr (ai_url ''ai.local'')"
  by (simp add: guarded_def demo_settings_env_def assertSafeBaseUrl_def url_host_def ai_url_def) code_simp

lemma adapter_credential_scoped_witness:
  "provider_for demo_settings_env demo_settings_saved ''o'' no_override =
     Inr \<lparr>pc_name = ProviderOpenaiCompatible, pc_model = ''m'', pc_apiKey = Some ''sk-secret'', pc_baseUrl = Some ''https://ai.local''\<rparr>
   \<and> (\<exists>url. guarded demo_settings_env ''https://ai.local'' = Inr url)"
proof -
  have key: "adapter_key demo_settings_env no_override (Some (hd (sd_creds demo_settings_saved))) = Inr (Some ''sk-secret'')"
    by (simp add: adapter_key_def demo_saved_simps truthy_def) (simp add: demo_settings_env_def)
  have url: "adapter_url demo_settings_env no_override (Some (hd (sd_creds demo_settings_saved))) = Inr ''https://ai.local''"
    by (simp add: adapter_url_def stored_url_def or_else_def demo_saved_simps demo_guarded)
  have ok: "provider_for demo_settings_env demo_settings_saved ''o'' no_override =
     Inr \<lparr>pc_name = ProviderOpenaiCompatible, pc_model = ''m'', pc_apiKey = Some ''sk-secret'', pc_baseUrl = Some ''https://ai.local''\<rparr>"
    using key url by (simp add: provider_for_def adapter_model_def or_else_def demo_saved_simps)
  show ?thesis using adapter_credential_scoped [OF ok] ok by simp
qed

subsection \<open>Keys\<close>

text \<open>The same state, in which a stored key can only be told from no key.\<close>

definition starred_key :: "jstr option \<Rightarrow> jstr option" where
  "starred_key = map_option (\<lambda>k. if k = [] then [] else ''*'')"

definition mask_cred :: "settings_cred \<Rightarrow> settings_cred" where
  "mask_cred c = c\<lparr>cd_encryptedKey := starred_key (cd_encryptedKey c)\<rparr>"

definition mask_keys :: "settings_db \<Rightarrow> settings_db" where
  "mask_keys db = db\<lparr>sd_creds := map mask_cred (sd_creds db)\<rparr>"

lemma truthy_masked [simp]: "truthy (starred_key k) = truthy k"
  by (cases k) (auto simp: starred_key_def truthy_def)

lemma mask_cred_simps [simp]:
  "is_cred i p (mask_cred c) = is_cred i p c" "cd_baseUrl (mask_cred c) = cd_baseUrl c"
  "cd_encryptedKey (mask_cred c) = starred_key (cd_encryptedKey c)" "sc_keyLast4 (mask_cred c) = sc_keyLast4 c"
  by (simp_all add: mask_cred_def is_cred_def)

lemma mask_keys_simps [simp]:
  "find_org (mask_keys db) i = find_org db i" "find_cred (mask_keys db) i p = map_option mask_cred (find_cred db i p)"
  "sd_members (mask_keys db) = sd_members db"
  by (simp_all add: mask_keys_def find_org_def find_cred_def find_map_same)

lemma summary_for_mask [simp]: "summary_for p (map_option mask_cred c) = summary_for p c"
  by (cases c) (simp_all add: summary_for_def Let_def)

lemma getAi_mask [simp]: "getAi (mask_keys db) i = getAi db i"
  by (cases "find_org db i") (simp_all add: getAi_def)

lemma getAiForMember_mask: "getAiForMember (mask_keys db) i user = getAiForMember db i user"
  by (auto simp: getAiForMember_def)

lemma stored_url_mask [simp]: "stored_url (map_option mask_cred c) = stored_url c"
  by (cases c) (simp_all add: stored_url_def)

lemma base_url_after_mask [simp]: "base_url_after (map_option mask_cred c) dto = base_url_after c dto"
  by (simp add: base_url_after_def split: option.split)

lemma key_after_mask [simp]: "key_after (map_option mask_cred c) dto = key_after c dto"
  by (cases c) (simp_all add: key_after_def split: option.split)

lemma new_url_mask [simp]: "new_url (map_option mask_cred c) dto = new_url c dto"
  by (simp add: new_url_def)

definition masking :: "settings_env \<Rightarrow> settings_env" where
  "masking env = env\<lparr>se_encrypt := (\<lambda>k. ''*'')\<rparr>"

lemma guarded_masking [simp]: "guarded (masking env) u = guarded env u" "se_now (masking env) = se_now env"
  by (simp_all add: guarded_def masking_def)

lemma check_mask [simp]: "check_base_url (masking env) p (map_option mask_cred c) dto = check_base_url env p c dto"
  unfolding check_base_url_def guarded_masking base_url_after_mask by (rule refl)

lemma refusal_mask [simp]: "refusal (masking env) org (map_option mask_cred c) dto = refusal env org c dto"
  unfolding refusal_def check_mask key_after_mask by (rule refl)

lemma audit_mask [simp]: "audit_entries org (map_option mask_cred c) dto = audit_entries org c dto"
  by (simp add: audit_entries_def changedFields_def)

lemma org_after_masking [simp]: "org_after (masking env) actor dto = org_after env actor dto"
  by (rule ext) (simp add: org_after_def Let_def split: option.split consent_event.split)

lemma new_key_masking:
  assumes "\<And>k. se_encrypt env k \<noteq> []"
  shows "new_key (masking env) dto = map_option (\<lambda>(k, l). (starred_key k, l)) (new_key env dto)"
  using assms by (cases "nullish (ud_apiKey dto)") (auto simp: new_key_def starred_key_def masking_def)

lemma cred_after_mask:
  assumes "\<And>k. se_encrypt env k \<noteq> []"
  shows "cred_after (masking env) actor dto (Some (mask_cred cr)) (mask_cred c) = mask_cred (cred_after env actor dto (Some cr) c)"
  using new_url_mask [of "Some cr" dto]
  by (cases "new_key env dto"; cases "new_url (Some cr) dto")
    (simp_all add: cred_after_def new_key_masking [OF assms] mask_cred_def split: prod.splits)

lemma new_cred_mask:
  assumes "\<And>k. se_encrypt env k \<noteq> []"
  shows "new_cred (masking env) i p actor dto = mask_cred (new_cred env i p actor dto)"
  by (cases "new_key env dto") (auto simp: new_cred_def new_key_masking [OF assms] mask_cred_def starred_key_def split: prod.splits)

lemma upsert_mask:
  assumes "\<And>k. se_encrypt env k \<noteq> []"
  shows "upsert_cred (masking env) i p actor dto (map mask_cred cs) = map mask_cred (upsert_cred env i p actor dto cs)"
  by (simp add: upsert_cred_def find_map_same new_cred_mask [OF assms] cred_after_mask [OF assms] split: option.splits)

lemma apply_mask:
  assumes "\<And>k. se_encrypt env k \<noteq> []"
  shows "apply_update (masking env) i actor dto org (map_option mask_cred c) (mask_keys db) =
    mask_keys (apply_update env i actor dto org c db)"
  by (simp add: apply_update_def mask_keys_def upsert_mask [OF assms] split: option.splits)

lemma updateAi_mask:
  assumes "\<And>k. se_encrypt env k \<noteq> []"
  shows "updateAi (masking env) (mask_keys db) organizationId actorUserId dto =
       (fst (updateAi env db organizationId actorUserId dto), mask_keys (snd (updateAi env db organizationId actorUserId dto)))"
proof (cases "find_org db organizationId")
  case None
  then show ?thesis by (simp add: updateAi_def)
next
  case (Some org)
  define cr where "cr = (case provider_after org dto of Some p \<Rightarrow> find_cred db organizationId p | None \<Rightarrow> None)"
  have cr': "(case provider_after org dto of Some p \<Rightarrow> find_cred (mask_keys db) organizationId p | None \<Rightarrow> None) = map_option mask_cred cr"
    by (cases "provider_after org dto") (simp_all add: cr_def)
  have step: "updateAi e d organizationId actorUserId dto =
      (case refusal e org c dto of
        Some x \<Rightarrow> (Inl x, d)
      | None \<Rightarrow> if null_column dto then (Inl ServerError, d)
          else (getAi (apply_update e organizationId actorUserId dto org c d) organizationId, apply_update e organizationId actorUserId dto org c d))"
    if "find_org d organizationId = Some org" "(case provider_after org dto of Some p \<Rightarrow> find_cred d organizationId p | None \<Rightarrow> None) = c"
    for e d c
    unfolding updateAi_def that(1) option.case that(2) Let_def by (rule refl)
  show ?thesis
    unfolding step [OF Some cr_def [symmetric]] step [OF _ cr', unfolded mask_keys_simps, OF Some] refusal_mask apply_mask [OF assms]
    by (simp split: option.split)
qed

text \<open>Two key fields of a request that may be told apart only by what a key may show: whether there is a key in it, and its last
  four characters.\<close>

fun keys_alike :: "jstr option option \<Rightarrow> jstr option option \<Rightarrow> bool" where
  "keys_alike (Some (Some k)) (Some (Some k')) = ((k = []) = (k' = []) \<and> last4 k = last4 k')"
| "keys_alike a b = (a = b)"

lemma keys_alike_nullish:
  assumes "keys_alike a b"
  shows "nullish a = None \<longleftrightarrow> nullish b = None"
    "\<And>k k'. nullish a = Some k \<Longrightarrow> nullish b = Some k' \<Longrightarrow> (k = [] \<longleftrightarrow> k' = []) \<and> last4 k = last4 k'"
  using assms by (induction a b rule: keys_alike.induct) (auto simp: nullish_def)

text \<open>A cipher that always answers a star sees of a typed key only that it is there.\<close>

lemma keys_alike_key_after:
  assumes "keys_alike (ud_apiKey dto) k'"
  shows "key_after c (dto\<lparr>ud_apiKey := k'\<rparr>) = key_after c dto"
proof (cases "nullish (ud_apiKey dto)")
  case None
  then show ?thesis using keys_alike_nullish(1) [OF assms] by (simp add: key_after_def)
next
  case (Some k)
  then obtain l where "nullish k' = Some l" using keys_alike_nullish(1) [OF assms] by fastforce
  with Some keys_alike_nullish(2) [OF assms Some this] show ?thesis by (simp add: key_after_def)
qed

lemma keys_alike_touches:
  assumes "keys_alike (ud_apiKey dto) k'"
  shows "touchesCredential (dto\<lparr>ud_apiKey := k'\<rparr>) = touchesCredential dto"
  using keys_alike_nullish(1) [OF assms] by (simp add: touchesCredential_def)

lemma keys_alike_new_key:
  assumes "keys_alike (ud_apiKey dto) k'"
  shows "new_key (masking env) (dto\<lparr>ud_apiKey := k'\<rparr>) = new_key (masking env) dto"
proof (cases "nullish (ud_apiKey dto)")
  case None
  then show ?thesis using keys_alike_nullish(1) [OF assms] by (simp add: new_key_def)
next
  case (Some k)
  then obtain l where "nullish k' = Some l" using keys_alike_nullish(1) [OF assms] by fastforce
  with Some keys_alike_nullish(2) [OF assms Some this] show ?thesis
    unfolding new_key_def update_dto.simps by (cases "k = []") (simp_all add: masking_def)
qed

lemma with_key_fields:
  "ud_provider (dto\<lparr>ud_apiKey := k'\<rparr>) = ud_provider dto" "ud_model (dto\<lparr>ud_apiKey := k'\<rparr>) = ud_model dto"
  "ud_baseUrl (dto\<lparr>ud_apiKey := k'\<rparr>) = ud_baseUrl dto" "ud_locale (dto\<lparr>ud_apiKey := k'\<rparr>) = ud_locale dto"
  "ud_dailyTokenBudget (dto\<lparr>ud_apiKey := k'\<rparr>) = ud_dailyTokenBudget dto" "ud_consent (dto\<lparr>ud_apiKey := k'\<rparr>) = ud_consent dto"
  by simp_all

lemma with_key_provider:
  "provider_after org (dto\<lparr>ud_apiKey := k'\<rparr>) = provider_after org dto" "providerChanged org (dto\<lparr>ud_apiKey := k'\<rparr>) = providerChanged org dto"
  unfolding provider_after_def providerChanged_def with_key_fields by (rule refl)+

lemma with_key_url: "base_url_after c (dto\<lparr>ud_apiKey := k'\<rparr>) = base_url_after c dto"
  unfolding base_url_after_def with_key_fields by (rule refl)

lemma with_key_values:
  "new_url c (dto\<lparr>ud_apiKey := k'\<rparr>) = new_url c dto"
  "model_after org (dto\<lparr>ud_apiKey := k'\<rparr>) = model_after org dto" "consent_change org (dto\<lparr>ud_apiKey := k'\<rparr>) = consent_change org dto"
  "null_column (dto\<lparr>ud_apiKey := k'\<rparr>) = null_column dto"
  unfolding new_url_def model_after_def consent_change_def null_column_def with_key_fields with_key_provider with_key_url by (rule refl)+

lemma with_key_org: "org_after env actor (dto\<lparr>ud_apiKey := k'\<rparr>) = org_after env actor dto"
  unfolding org_after_def with_key_fields with_key_provider with_key_values by (rule refl)

lemma with_key_check: "check_base_url env p c (dto\<lparr>ud_apiKey := k'\<rparr>) = check_base_url env p c dto"
  unfolding check_base_url_def with_key_fields with_key_url by (rule refl)

lemma keys_alike_refusal:
  assumes "keys_alike (ud_apiKey dto) k'"
  shows "refusal env org c (dto\<lparr>ud_apiKey := k'\<rparr>) = refusal env org c dto"
  unfolding refusal_def with_key_provider with_key_fields with_key_check keys_alike_touches [OF assms] keys_alike_key_after [OF assms]
  by (rule refl)

lemma keys_alike_audit:
  assumes "keys_alike (ud_apiKey dto) k'"
  shows "audit_entries org c (dto\<lparr>ud_apiKey := k'\<rparr>) = audit_entries org c dto"
proof -
  have "changedFields org c (dto\<lparr>ud_apiKey := k'\<rparr>) = changedFields org c dto"
    using keys_alike_nullish(1) [OF assms]
    by (simp add: changedFields_def with_key_provider with_key_values keys_alike_touches [OF assms])
  then show ?thesis unfolding audit_entries_def with_key_values by simp
qed

lemma keys_alike_upsert:
  assumes "keys_alike (ud_apiKey dto) k'"
  shows "upsert_cred (masking env) i p actor (dto\<lparr>ud_apiKey := k'\<rparr>) cs = upsert_cred (masking env) i p actor dto cs"
  unfolding upsert_cred_def cred_after_def new_cred_def keys_alike_new_key [OF assms] with_key_values with_key_url by (rule refl)

lemma keys_alike_updateAi:
  assumes "keys_alike (ud_apiKey dto) k'"
  shows "updateAi (masking env) db i actor (dto\<lparr>ud_apiKey := k'\<rparr>) = updateAi (masking env) db i actor dto"
  unfolding updateAi_def apply_update_def with_key_provider with_key_values with_key_org keys_alike_refusal [OF assms]
    keys_alike_touches [OF assms] keys_alike_upsert [OF assms] keys_alike_audit [OF assms]
  by (rule refl)

text \<open>C10: keys do not leave the settings.  Take two states that are equal but for the stored (encrypted) keys, two ciphers, and two
  requests to change the settings that are equal but for the key typed in, where both or neither type a key and the two keys
  end in the same four characters.  Then the settings and the summary read as the same; the two requests get the same answer,
  a refusal or the settings; and they leave states that are again equal but for the stored keys, so the same last four
  characters beside each key and the same entries of the audit log.  What is shown or logged, now or after any change, thus
  depends on no key beyond its presence and last four characters (a typed key of four characters or fewer is all of those).\<close>

theorem settings_hide_keys:
  assumes "mask_keys db = mask_keys db'"
    and "masking env = masking env'" "\<And>k. se_encrypt env k \<noteq> []" "\<And>k. se_encrypt env' k \<noteq> []"
    and "keys_alike (ud_apiKey dto) k'"
  shows "getAiForMember db organizationId userId = getAiForMember db' organizationId userId
    \<and> fst (updateAi env db organizationId actorUserId dto) = fst (updateAi env' db' organizationId actorUserId (dto\<lparr>ud_apiKey := k'\<rparr>))
    \<and> mask_keys (snd (updateAi env db organizationId actorUserId dto)) =
        mask_keys (snd (updateAi env' db' organizationId actorUserId (dto\<lparr>ud_apiKey := k'\<rparr>)))"
proof -
  have "getAiForMember db organizationId userId = getAiForMember db' organizationId userId"
    by (metis assms(1) getAiForMember_mask)
  moreover have "updateAi (masking env) (mask_keys db) organizationId actorUserId dto =
      updateAi (masking env') (mask_keys db') organizationId actorUserId (dto\<lparr>ud_apiKey := k'\<rparr>)"
    unfolding keys_alike_updateAi [OF assms(5)] assms(1,2) by (rule refl)
  ultimately show ?thesis
    unfolding updateAi_mask [OF assms(3)] updateAi_mask [OF assms(4)] by simp
qed

lemma settings_hide_keys_witness:
  "fst (updateAi demo_settings_env demo_settings_saved ''o'' ''u'' (no_change\<lparr>ud_apiKey := Some (Some ''sk-one-tail'')\<rparr>)) =
    fst (updateAi (demo_settings_env\<lparr>se_encrypt := (\<lambda>k. ''enc'')\<rparr>) (mask_keys demo_settings_saved) ''o'' ''u''
      (no_change\<lparr>ud_apiKey := Some (Some ''sk-other-tail'')\<rparr>))
   \<and> map cd_encryptedKey (sd_creds demo_settings_saved) = [Some ''enc:sk-secret'']
   \<and> map cd_encryptedKey (sd_creds (mask_keys demo_settings_saved)) = [Some ''*'']"
proof -
  have same: "mask_keys demo_settings_saved = mask_keys (mask_keys demo_settings_saved)"
    by (simp add: demo_settings_saved_def mask_keys_def mask_cred_def starred_key_def)
  have ciphers: "masking demo_settings_env = masking (demo_settings_env\<lparr>se_encrypt := (\<lambda>k. ''enc'')\<rparr>)"
    "se_encrypt demo_settings_env k \<noteq> []" "se_encrypt (demo_settings_env\<lparr>se_encrypt := (\<lambda>k. ''enc'')\<rparr>) k \<noteq> []" for k
    by (simp_all add: demo_settings_env_def masking_def)
  have alike: "keys_alike (ud_apiKey (no_change\<lparr>ud_apiKey := Some (Some ''sk-one-tail'')\<rparr>)) (Some (Some ''sk-other-tail''))"
    by (simp add: last4_def)
  from settings_hide_keys [OF same ciphers alike, of "''o''" "''u''" "''u''"]
  have "fst (updateAi demo_settings_env demo_settings_saved ''o'' ''u'' (no_change\<lparr>ud_apiKey := Some (Some ''sk-one-tail'')\<rparr>)) =
    fst (updateAi (demo_settings_env\<lparr>se_encrypt := (\<lambda>k. ''enc'')\<rparr>) (mask_keys demo_settings_saved) ''o'' ''u''
      (no_change\<lparr>ud_apiKey := Some (Some ''sk-other-tail'')\<rparr>))" by simp
  moreover have "map cd_encryptedKey (sd_creds demo_settings_saved) = [Some ''enc:sk-secret'']"
    "map cd_encryptedKey (sd_creds (mask_keys demo_settings_saved)) = [Some ''*'']"
    by (simp_all add: demo_settings_saved_def mask_keys_def starred_key_def)
  ultimately show ?thesis by blast
qed

subsection \<open>Settings that make an organization ready\<close>

text \<open>The tables as \<open>ai-scan.service.ts\<close> reads them.\<close>

definition gate_world :: "settings_db \<Rightarrow> ai_world \<Rightarrow> ai_world" where
  "gate_world db w = w\<lparr>aw_orgs := map organization_ai.truncate (sd_orgs db), aw_credentials := map ai_credential.truncate (sd_creds db)\<rparr>"

lemma truncate_simps [simp]:
  "oa_id (organization_ai.truncate org) = oa_id org" "oa_aiProvider (organization_ai.truncate org) = oa_aiProvider org"
  "oa_aiModel (organization_ai.truncate org) = oa_aiModel org" "oa_aiConsentAt (organization_ai.truncate org) = oa_aiConsentAt org"
  "cd_encryptedKey (ai_credential.truncate c) = cd_encryptedKey c" "cd_baseUrl (ai_credential.truncate c) = cd_baseUrl c"
  "cd_organizationId (ai_credential.truncate c) = cd_organizationId c" "cd_provider (ai_credential.truncate c) = cd_provider c"
  by (simp_all add: organization_ai.truncate_def ai_credential.truncate_def)

lemma find_map_to:
  assumes "\<And>x. P (f x) = Q x"
  shows "List.find P (map f xs) = map_option f (List.find Q xs)"
  using assms by (induction xs) auto

lemma configurationFor_gate_world:
  "configurationFor (gate_world db w) i = map_option (\<lambda>org.
    case oa_aiProvider org of None \<Rightarrow> ConfigBlocked AiNotConfigured
    | Some p \<Rightarrow> configuration_with (organization_ai.truncate org) p (map_option ai_credential.truncate (find_cred db i p))) (find_org db i)"
proof -
  have orgs: "List.find (\<lambda>o'. oa_id o' = i) (aw_orgs (gate_world db w)) = map_option organization_ai.truncate (find_org db i)"
    unfolding gate_world_def find_org_def by simp (rule find_map_to, simp)
  have cred: "findCredential (gate_world db w) j p = map_option ai_credential.truncate (find_cred db j p)" for j p
    unfolding findCredential_def find_cred_def gate_world_def by simp (rule find_map_to, simp add: is_cred_def)
  show ?thesis
    by (cases "find_org db i")
      (auto simp: configurationFor_def orgs resolveConfiguration_def cred dest: find_org_some split: option.split)
qed

lemma org_after_view:
  "oa_aiProvider (org_after env actor dto org) = (if providerChanged org dto then provider_after org dto else oa_aiProvider org)"
  "oa_aiModel (org_after env actor dto org) = model_after org dto"
  by (simp_all add: org_after_def Let_def split: option.split consent_event.split)

lemma cred_after_view:
  "cd_baseUrl (cred_after env actor dto cr c) = (case new_url cr dto of Some u \<Rightarrow> u | None \<Rightarrow> cd_baseUrl c)"
  "cd_encryptedKey (cred_after env actor dto cr c) = (case new_key env dto of Some (k, l) \<Rightarrow> k | None \<Rightarrow> cd_encryptedKey c)"
  "sc_keyLast4 (cred_after env actor dto cr c) = (case new_key env dto of Some (k, l) \<Rightarrow> l | None \<Rightarrow> sc_keyLast4 c)"
  by (simp_all add: cred_after_def split: option.split prod.split)

lemma new_cred_view:
  "cd_baseUrl (new_cred env i p actor dto) = base_url_after None dto"
  "cd_encryptedKey (new_cred env i p actor dto) = (case new_key env dto of Some (k, l) \<Rightarrow> k | None \<Rightarrow> None)"
  "sc_keyLast4 (new_cred env i p actor dto) = (case new_key env dto of Some (k, l) \<Rightarrow> l | None \<Rightarrow> None)"
  by (auto simp: new_cred_def new_url_def nullish_def stored_url_def split: option.split prod.split)

text \<open>The credential that is there after a change, and what the gate reads of it.\<close>

lemma url_after_update:
  assumes "touchesCredential dto" "provider_after org dto = Some p"
  shows "stored_url (find_cred (apply_update env i actor dto org (find_cred db i p) db) i p) = base_url_after (find_cred db i p) dto"
  using assms
  by (cases "find_cred db i p")
    (auto simp: find_cred_apply stored_url_def cred_after_view new_cred_view new_url_def base_url_after_def split: option.split)

lemma key_after_update:
  assumes "\<And>k. se_encrypt env k \<noteq> []" "touchesCredential dto" "provider_after org dto = Some p"
  shows "truthy (Option.bind (find_cred (apply_update env i actor dto org (find_cred db i p) db) i p) cd_encryptedKey) \<longleftrightarrow>
    key_after (find_cred db i p) dto"
  using assms
  by (cases "find_cred db i p")
    (auto simp: find_cred_apply cred_after_view new_cred_view new_key_def key_after_def truthy_def split: option.split)

definition configured_with :: "ai_provider_id \<Rightarrow> settings_cred option \<Rightarrow> bool" where
  "configured_with p cr \<longleftrightarrow> (if p = ProviderOpenaiCompatible then truthy (stored_url cr) else truthy (Option.bind cr cd_encryptedKey))"

lemma configuration_with_settings:
  assumes "configured_with p cr"
  shows "configuration_with (organization_ai.truncate org) p (map_option ai_credential.truncate cr) =
    (let model = or_else (oa_aiModel org) (defaultModelFor (toProviderName p))
     in if \<not> truthy model then ConfigBlocked AiNotConfigured
        else if oa_aiConsentAt org = None then ConfigBlocked AiConsentRequired
        else ConfigReady (toProviderName p) (the model))"
  using assms
  by (cases cr) (auto simp: configured_with_def configuration_with_def stored_url_def or_else_def truthy_def Let_def split: option.splits if_splits)

lemma selected_is_configured:
  assumes ok: "\<And>k. se_encrypt env k \<noteq> []" and p: "nullish (ud_provider dto) = Some p"
    and cr: "refusal env org (find_cred db i p) dto = None"
  shows "configured_with p (find_cred (apply_update env i actor dto org (find_cred db i p) db) i p)"
proof -
  have after: "provider_after org dto = Some p" and given: "ud_provider dto \<noteq> None"
    using p by (auto simp: provider_after_def nullish_def split: option.splits)
  have need: "if p = ProviderOpenaiCompatible then truthy (base_url_after (find_cred db i p) dto) else key_after (find_cred db i p) dto"
    using cr given after by (auto simp: refusal_def check_base_url_def Let_def split: option.splits if_splits)
  show ?thesis
  proof (cases "touchesCredential dto")
    case True
    show ?thesis
      unfolding configured_with_def url_after_update [OF True after] key_after_update [OF ok True after] by (rule need)
  next
    case False
    then have "ud_baseUrl dto = None" "nullish (ud_apiKey dto) = None" by (auto simp: touchesCredential_def)
    then show ?thesis using need False
      by (cases "find_cred db i p")
        (auto simp: configured_with_def find_cred_apply base_url_after_def key_after_def truthy_def split: if_splits)
  qed
qed

text \<open>C27: settings that are accepted work.  After a change that selects a provider and is accepted, the gate of the AI
  reviews finds that provider configured: it waits for nothing but a model (only \<open>openai_compatible\<close> has no default)
  and the consent, which are the ones the answer shows.\<close>

theorem accepted_settings_ready:
  assumes "\<And>k. se_encrypt env k \<noteq> []" and "nullish (ud_provider dto) = Some p"
    and "updateAi env db organizationId actorUserId dto = (Inr view, db')"
  shows "as_provider view = Some (toProviderName p)
    \<and> configurationFor (gate_world db' w) organizationId =
       Some (let model = or_else (as_model view) (defaultModelFor (toProviderName p))
         in if \<not> truthy model then ConfigBlocked AiNotConfigured
            else if as_consent view = None then ConfigBlocked AiConsentRequired
            else ConfigReady (toProviderName p) (the model))"
proof -
  have after: "provider_after org dto = Some p" for org using assms(2) by (simp add: provider_after_def)
  obtain org where org: "find_org db organizationId = Some org"
    and ok: "refusal env org (find_cred db organizationId p) dto = None"
    and db': "db' = apply_update env organizationId actorUserId dto org (find_cred db organizationId p) db"
    and view: "getAi db' organizationId = Inr view"
    using updateAi_accepted [OF assms(3)] unfolding after by auto
  define new where "new = org_after env actorUserId dto org"
  have found: "find_org db' organizationId = Some new" unfolding db' new_def by (rule find_org_apply [OF org])
  have provider: "oa_aiProvider new = Some p"
    using assms(2) by (auto simp: new_def org_after_view after providerChanged_def nullish_def split: option.splits)
  have shown: "as_provider view = Some (toProviderName p)" "as_model view = oa_aiModel new"
    "as_consent view = None \<longleftrightarrow> oa_aiConsentAt new = None"
    using view provider by (auto simp: getAi_def found Let_def)
  note conf = configuration_with_settings [OF selected_is_configured [OF assms(1,2) ok], of new actorUserId, folded db']
  show ?thesis using shown by (simp add: configurationFor_gate_world found provider conf Let_def)
qed

lemma accepted_settings_ready_witness:
  "as_provider (projr (fst (updateAi demo_settings_env demo_settings_saved ''o'' ''u''
      (no_change\<lparr>ud_provider := Some (Some ProviderAnthropic), ud_apiKey := Some (Some ''k12345'')\<rparr>)))) = Some ''anthropic''
   \<and> isl (fst (updateAi demo_settings_env demo_settings_saved ''o'' ''u'' (no_change\<lparr>ud_provider := Some (Some ProviderAnthropic)\<rparr>)))"
proof -
  let ?dto = "no_change\<lparr>ud_provider := Some (Some ProviderAnthropic), ud_apiKey := Some (Some ''k12345'')\<rparr>"
  have enc: "se_encrypt demo_settings_env k \<noteq> []" for k by (simp add: demo_settings_env_def)
  have other: "find_cred demo_settings_saved ''o'' ProviderAnthropic = None"
    by (simp add: demo_settings_saved_def find_cred_def is_cred_def)
  have refused: "isl (fst (updateAi demo_settings_env demo_settings_saved ''o'' ''u'' (no_change\<lparr>ud_provider := Some (Some ProviderAnthropic)\<rparr>)))"
    by (simp add: updateAi_def demo_saved_simps provider_after_def no_change_def nullish_def other refusal_def check_base_url_def
        touchesCredential_def key_after_def)
  have none: "refusal demo_settings_env (hd (sd_orgs demo_settings_saved)) None ?dto = None"
    by (simp add: refusal_def check_base_url_def provider_after_def no_change_def nullish_def touchesCredential_def key_after_def)
  have after: "provider_after (hd (sd_orgs demo_settings_saved)) ?dto = Some ProviderAnthropic"
    by (simp add: provider_after_def nullish_def)
  have columns: "\<not> null_column ?dto" by (simp add: null_column_def no_change_def)
  let ?after = "apply_update demo_settings_env ''o'' ''u'' ?dto (hd (sd_orgs demo_settings_saved)) None demo_settings_saved"
  have "updateAi demo_settings_env demo_settings_saved ''o'' ''u'' ?dto = (getAi ?after ''o'', ?after)"
    unfolding updateAi_def demo_saved_simps(1) option.case after other none Let_def using columns by (simp only: if_False)
  moreover obtain view where "getAi ?after ''o'' = Inr view"
    using find_org_apply [OF demo_saved_simps(1), of demo_settings_env "''u''" ?dto None] by (simp add: getAi_def)
  ultimately obtain view db' where run: "updateAi demo_settings_env demo_settings_saved ''o'' ''u'' ?dto = (Inr view, db')" by metis
  have "nullish (ud_provider ?dto) = Some ProviderAnthropic" by (simp add: nullish_def)
  from accepted_settings_ready [OF enc this run] refused show ?thesis
    by (simp add: run toProviderName_def TO_ENUM_def)
qed

subsection \<open>Any sequence of requests\<close>

text \<open>Organizations start without settings; every request has its own circumstances out of \<open>envs\<close>.\<close>

inductive settings_run :: "settings_env set \<Rightarrow> settings_db \<Rightarrow> bool" for envs where
  run_start: "sd_creds db = [] \<Longrightarrow> list_all (\<lambda>o'. oa_aiProvider o' = None) (sd_orgs db) \<Longrightarrow> distinct (map oa_id (sd_orgs db)) \<Longrightarrow>
    settings_run envs db"
| run_update: "settings_run envs db \<Longrightarrow> env \<in> envs \<Longrightarrow> settings_run envs (snd (updateAi env db i actor dto))"
| run_test: "settings_run envs db \<Longrightarrow> env \<in> envs \<Longrightarrow> settings_run envs (snd (testAi env ad db i ov))"
| run_list: "settings_run envs db \<Longrightarrow> env \<in> envs \<Longrightarrow> settings_run envs (snd (listForOrg env ad db i p))"
| run_preview: "settings_run envs db \<Longrightarrow> env \<in> envs \<Longrightarrow> settings_run envs (snd (preview_models env ad db i p key url))"

definition key_ok :: "settings_env set \<Rightarrow> jstr option \<times> jstr option \<Rightarrow> bool" where
  "key_ok envs kl \<longleftrightarrow>
    (case fst kl of None \<Rightarrow> snd kl = None
     | Some e \<Rightarrow> \<exists>env \<in> envs. \<exists>k. k \<noteq> [] \<and> e = se_encrypt env k \<and> snd kl = Some (last4 k))"

definition url_ok :: "settings_env set \<Rightarrow> ai_provider_id \<Rightarrow> jstr option \<Rightarrow> bool" where
  "url_ok envs p u \<longleftrightarrow>
    (case u of None \<Rightarrow> True | Some u \<Rightarrow> p = ProviderOpenaiCompatible \<and> u \<noteq> [] \<and> (\<exists>env \<in> envs. \<exists>url. guarded env u = Inr url))"

definition stored_ok :: "settings_env set \<Rightarrow> settings_cred \<Rightarrow> bool" where
  "stored_ok envs c \<longleftrightarrow> url_ok envs (cd_provider c) (cd_baseUrl c) \<and> key_ok envs (cd_encryptedKey c, sc_keyLast4 c)"

definition settings_sound :: "settings_env set \<Rightarrow> settings_db \<Rightarrow> bool" where
  "settings_sound envs db \<longleftrightarrow> distinct (map oa_id (sd_orgs db)) \<and>
    (\<forall>c \<in> set (sd_creds db). stored_ok envs c) \<and>
    distinct (map (\<lambda>c. (cd_organizationId c, cd_provider c)) (sd_creds db)) \<and>
    (\<forall>o' \<in> set (sd_orgs db). oa_aiProvider o' = Some ProviderOpenaiCompatible \<longrightarrow>
      truthy (stored_url (find_cred db (oa_id o') ProviderOpenaiCompatible)))"

text \<open>Requests that change neither a credential nor a provider.\<close>

definition same_settings :: "settings_db \<Rightarrow> settings_db \<Rightarrow> bool" where
  "same_settings db db' \<longleftrightarrow> sd_creds db' = sd_creds db \<and>
    map (\<lambda>o'. (oa_id o', oa_aiProvider o')) (sd_orgs db') = map (\<lambda>o'. (oa_id o', oa_aiProvider o')) (sd_orgs db)"

lemma same_settings_sound:
  assumes "same_settings db db'" "settings_sound envs db"
  shows "settings_sound envs db'"
proof -
  have ids: "map oa_id (sd_orgs db') = map oa_id (sd_orgs db)"
    using arg_cong [OF assms(1) [unfolded same_settings_def, THEN conjunct2], of "map fst"] by (simp add: comp_def)
  have orgs: "(\<lambda>o'. (oa_id o', oa_aiProvider o')) ` set (sd_orgs db') = (\<lambda>o'. (oa_id o', oa_aiProvider o')) ` set (sd_orgs db)"
    using assms(1) unfolding same_settings_def by (metis list.set_map)
  have "truthy (stored_url (find_cred db' (oa_id o') ProviderOpenaiCompatible))"
    if "o' \<in> set (sd_orgs db')" "oa_aiProvider o' = Some ProviderOpenaiCompatible" for o'
  proof -
    have "(oa_id o', oa_aiProvider o') \<in> (\<lambda>o'. (oa_id o', oa_aiProvider o')) ` set (sd_orgs db)"
      unfolding orgs [symmetric] using that(1) by simp
    then obtain o2 where "o2 \<in> set (sd_orgs db)" "oa_id o2 = oa_id o'" "oa_aiProvider o2 = oa_aiProvider o'" by auto
    moreover have "find_cred db' j q = find_cred db j q" for j q
      using assms(1) by (simp add: find_cred_def same_settings_def)
    ultimately show ?thesis using that(2) assms(2) unfolding settings_sound_def by metis
  qed
  then show ?thesis using assms ids by (simp add: settings_sound_def same_settings_def)
qed

lemma same_settings_refl [simp]: "same_settings db db"
  by (simp add: same_settings_def)

lemma tryConsume_same: "tryConsume env key limit w db = (ok, db') \<Longrightarrow> same_settings db db'"
  by (auto simp: tryConsume_def same_settings_def Let_def split: if_splits prod.splits)

lemma last_test_keeps_orgs:
  "map (\<lambda>o'. (oa_id o', oa_aiProvider o')) (map (\<lambda>o'. if oa_id o' = i then o'\<lparr>so_aiLastTest := t\<rparr> else o') os) =
    map (\<lambda>o'. (oa_id o', oa_aiProvider o')) os"
  by simp

lemma settle_test_same: "same_settings db0 db \<Longrightarrow> same_settings db0 (snd (settle_test env i r db))"
  unfolding same_settings_def settle_test_def recordTestUsage_def Let_def
  by (cases "tr_usage r") (simp_all add: last_test_keeps_orgs del: map_map map_eq_conv)

lemma testAi_same: "same_settings db (snd (testAi env ad db i ov))"
proof -
  obtain ok db1 where c: "tryConsume env (test_key i) TEST_LIMIT_PER_HOUR HOUR_SECONDS db = (ok, db1)" by fastforce
  note same = tryConsume_same [OF c]
  show ?thesis by (simp add: testAi_def c same settle_test_same [OF same] split: sum.split)
qed

lemma listForOrg_same: "same_settings db (snd (listForOrg env ad db i p))"
  by (auto simp: listForOrg_def Let_def writeCache_def same_settings_def split: option.split sum.split)

lemma preview_same: "same_settings db (snd (preview_models env ad db i p key url))"
proof -
  obtain ok db1 where c: "tryConsume env (''ratelimit:ai-models:org:'' @ i) PREVIEW_LIMIT_PER_HOUR HOUR_SECONDS db = (ok, db1)" by fastforce
  show ?thesis using tryConsume_same [OF c] unfolding preview_models_def c Let_def prod.case by simp
qed

lemma accepted_url:
  assumes "refusal env org cr dto = None" "provider_after org dto = Some p" "ud_baseUrl dto = Some v" "base_url_after cr dto = Some u"
  shows "p = ProviderOpenaiCompatible \<and> u \<noteq> [] \<and> (\<exists>url. guarded env u = Inr url)"
proof -
  have v: "v = Some u" "u \<noteq> []" using assms(3,4) by (auto simp: base_url_after_def truthy_def split: if_splits)
  have "check_base_url env (Some p) cr dto = None"
    using assms(1,2) by (auto simp: refusal_def Let_def split: if_splits option.splits)
  then have "p = ProviderOpenaiCompatible" "case guarded env u of Inr url \<Rightarrow> True | _ \<Rightarrow> False"
    using assms(3) v by (auto simp: check_base_url_def nullish_def split: if_splits sum.splits url_error.splits)
  then show ?thesis using v(2) by (auto split: sum.splits)
qed

lemma new_key_ok: "env \<in> envs \<Longrightarrow> new_key env dto = Some kl \<Longrightarrow> key_ok envs kl"
  by (auto simp: new_key_def key_ok_def intro!: bexI [of _ env])

lemma url_after_ok:
  assumes "env \<in> envs" "refusal env org cr dto = None" "provider_after org dto = Some p" "url_ok envs p (stored_url cr)"
  shows "url_ok envs p (base_url_after cr dto)"
proof (cases "ud_baseUrl dto")
  case None
  then show ?thesis using assms(4) by (simp add: base_url_after_def)
next
  case (Some v)
  show ?thesis
  proof (cases "base_url_after cr dto")
    case None
    then show ?thesis by (simp add: url_ok_def)
  next
    case u: (Some u)
    then show ?thesis using accepted_url [OF assms(2,3) Some u] assms(1) by (auto simp: url_ok_def)
  qed
qed

lemma cred_after_same [simp]:
  "cd_provider (cred_after env actor dto cr c) = cd_provider c" "cd_organizationId (cred_after env actor dto cr c) = cd_organizationId c"
  by (simp_all add: cred_after_def split: option.split prod.split)

lemma new_cred_same [simp]:
  "cd_provider (new_cred env i p actor dto) = p" "cd_organizationId (new_cred env i p actor dto) = i"
  by (simp_all add: new_cred_def split: option.split prod.split)

lemma cred_after_ok:
  assumes "env \<in> envs" "refusal env org (Some c) dto = None" "provider_after org dto = Some (cd_provider c)" "stored_ok envs c"
  shows "stored_ok envs (cred_after env actor dto (Some c) c)"
proof -
  have old: "url_ok envs (cd_provider c) (cd_baseUrl c)" "key_ok envs (cd_encryptedKey c, sc_keyLast4 c)"
    using assms(4) by (simp_all add: stored_ok_def)
  have url: "url_ok envs (cd_provider c) (base_url_after (Some c) dto)"
    using url_after_ok [OF assms(1-3)] old(1) by (simp add: stored_url_def)
  show ?thesis
    using old url new_key_ok [OF assms(1), of dto]
    by (auto simp: stored_ok_def cred_after_view new_url_def split: option.split prod.split)
qed

lemma new_cred_ok:
  assumes "env \<in> envs" "refusal env org None dto = None" "provider_after org dto = Some p"
  shows "stored_ok envs (new_cred env i p actor dto)"
proof -
  have "url_ok envs p (base_url_after None dto)" using url_after_ok [OF assms] by (simp add: stored_url_def url_ok_def)
  moreover have "key_ok envs (None, None)" by (simp add: key_ok_def)
  ultimately show ?thesis
    using new_key_ok [OF assms(1), of dto] by (auto simp: stored_ok_def new_cred_view split: option.split prod.split)
qed

lemma upsert_keys:
  "map (\<lambda>c. (cd_organizationId c, cd_provider c)) (upsert_cred env i p actor dto cs) =
    map (\<lambda>c. (cd_organizationId c, cd_provider c)) cs @ (if List.find (is_cred i p) cs = None then [(i, p)] else [])"
  by (auto simp: upsert_cred_def split: option.split)

lemma upsert_members:
  assumes "distinct (map (\<lambda>c. (cd_organizationId c, cd_provider c)) cs)" "c' \<in> set (upsert_cred env i p actor dto cs)"
  shows "c' \<in> set cs \<or> List.find (is_cred i p) cs = None \<and> c' = new_cred env i p actor dto \<or>
    (\<exists>c. List.find (is_cred i p) cs = Some c \<and> c' = cred_after env actor dto (Some c) c)"
proof (cases "List.find (is_cred i p) cs")
  case None
  then show ?thesis using assms(2) by (auto simp: upsert_cred_def)
next
  case (Some c)
  have c: "c \<in> set cs" "is_cred i p c" using Some by (auto simp: find_Some_iff)
  have "x = c" if "x \<in> set cs" "is_cred i p x" for x
    using that c assms(1) by (auto simp: is_cred_def distinct_map dest: inj_onD)
  then show ?thesis using assms(2) Some by (auto simp: upsert_cred_def split: if_splits)
qed

lemma find_cred_other:
  assumes "j \<noteq> i"
  shows "find_cred (apply_update env i actor dto org cr db) j q = find_cred db j q"
proof -
  have other: "is_cred j q x \<Longrightarrow> \<not> is_cred i p x" for p x using assms by (auto simp: is_cred_def)
  have new: "\<not> is_cred j q (new_cred env i p actor dto)" for p using assms by (simp add: is_cred_def)
  have upd: "List.find (is_cred j q) (map (\<lambda>c. if is_cred i p c then f c else c) cs) = List.find (is_cred j q) cs"
    if "\<And>c. is_cred j q (f c) = is_cred j q c" for p f cs
    using that other by (induction cs) auto
  show ?thesis
    by (simp add: find_cred_def apply_update_def upsert_cred_def find_app new upd split: option.split)
qed

text \<open>The base URL that an accepted change leaves an organization whose provider is \<open>openai_compatible\<close>.\<close>

lemma compatible_url:
  assumes org: "find_org db i = Some org" and sound: "settings_sound envs db"
    and provider: "oa_aiProvider (org_after env actor dto org) = Some ProviderOpenaiCompatible"
    and cr: "cr = find_cred db i ProviderOpenaiCompatible" and ok: "refusal env org cr dto = None"
  shows "provider_after org dto = Some ProviderOpenaiCompatible \<and>
    truthy (stored_url (find_cred (apply_update env i actor dto org cr db) i ProviderOpenaiCompatible))"
proof -
  have after: "provider_after org dto = Some ProviderOpenaiCompatible"
    using provider by (auto simp: org_after_view provider_after_def providerChanged_def nullish_def split: option.splits if_splits)
  have "truthy (base_url_after cr dto)"
  proof (cases "ud_provider dto = None \<and> ud_baseUrl dto = None")
    case True
    then have "oa_aiProvider org = Some ProviderOpenaiCompatible" using after by (simp add: provider_after_def nullish_def)
    then show ?thesis using True sound find_org_some [OF org] by (auto simp: settings_sound_def base_url_after_def cr)
  next
    case False
    then show ?thesis using ok after by (auto simp: refusal_def check_base_url_def Let_def split: if_splits option.splits)
  qed
  moreover have "stored_url (find_cred (apply_update env i actor dto org cr db) i ProviderOpenaiCompatible) = base_url_after cr dto"
  proof (cases "touchesCredential dto")
    case True
    then show ?thesis unfolding cr by (rule url_after_update [OF _ after])
  next
    case False
    then show ?thesis by (auto simp: find_cred_apply cr base_url_after_def touchesCredential_def)
  qed
  ultimately show ?thesis using after by simp
qed

lemma updateAi_sound:
  assumes "env \<in> envs" "settings_sound envs db"
  shows "settings_sound envs (snd (updateAi env db i actor dto))"
proof (cases "\<exists>v db'. updateAi env db i actor dto = (Inr v, db')")
  case False
  then have "snd (updateAi env db i actor dto) = db"
    by (metis prod.collapse sum.exhaust updateAi_refused)
  then show ?thesis using assms by simp
next
  case True
  then obtain v db' where run: "updateAi env db i actor dto = (Inr v, db')" by blast
  obtain org cr where org: "find_org db i = Some org"
    and cr: "cr = (case provider_after org dto of Some p \<Rightarrow> find_cred db i p | None \<Rightarrow> None)"
    and ok: "refusal env org cr dto = None" and db': "db' = apply_update env i actor dto org cr db"
    by (rule updateAi_accepted [OF run])
  have orgs: "sd_orgs db' = map (\<lambda>o'. if oa_id o' = i then org_after env actor dto o' else o') (sd_orgs db)"
    by (simp add: db' apply_update_def)
  have same_org: "o' = org" if "o' \<in> set (sd_orgs db)" "oa_id o' = i" for o'
    using that find_org_some [OF org] assms(2) by (auto simp: settings_sound_def distinct_map dest: inj_onD)
  show ?thesis unfolding run snd_conv
  proof (unfold settings_sound_def, intro conjI ballI impI)
    have "map oa_id (sd_orgs db') = map oa_id (sd_orgs db)" by (simp add: orgs)
    then show "distinct (map oa_id (sd_orgs db'))" using assms(2) by (simp add: settings_sound_def)
  next
    fix c' assume c': "c' \<in> set (sd_creds db')"
    show "stored_ok envs c'"
    proof (cases "c' \<in> set (sd_creds db)")
      case True
      then show ?thesis using assms(2) by (simp add: settings_sound_def)
    next
      case False
      then obtain p where p: "provider_after org dto = Some p" "c' \<in> set (upsert_cred env i p actor dto (sd_creds db))"
        using c' by (auto simp: db' apply_update_def split: option.splits if_splits)
      have "distinct (map (\<lambda>c. (cd_organizationId c, cd_provider c)) (sd_creds db))" using assms(2) by (simp add: settings_sound_def)
      from upsert_members [OF this p(2)] False consider
        "find_cred db i p = None" "c' = new_cred env i p actor dto"
        | c where "find_cred db i p = Some c" "c' = cred_after env actor dto (Some c) c"
        by (auto simp: find_cred_def)
      then show ?thesis
      proof cases
        case 1
        then show ?thesis using new_cred_ok [OF assms(1) _ p(1)] ok by (simp add: cr p)
      next
        case (2 c)
        then have "c \<in> set (sd_creds db)" "cd_provider c = p" using find_cred_some [OF 2(1)] by (auto simp: is_cred_def)
        then show ?thesis using cred_after_ok [OF assms(1), of org c dto] assms(2) ok 2 by (simp add: cr p settings_sound_def)
      qed
    qed
  next
    show "distinct (map (\<lambda>c. (cd_organizationId c, cd_provider c)) (sd_creds db'))"
      using assms(2)
      by (auto simp: db' apply_update_def settings_sound_def upsert_keys find_None_iff is_cred_def simp del: map_append split: option.split)
  next
    fix o' assume o': "o' \<in> set (sd_orgs db')" "oa_aiProvider o' = Some ProviderOpenaiCompatible"
    show "truthy (stored_url (find_cred db' (oa_id o') ProviderOpenaiCompatible))"
    proof (cases "oa_id o' = i")
      case True
      then have o'_is: "o' = org_after env actor dto org" using o'(1) same_org by (auto simp: orgs split: if_splits)
      have "provider_after org dto = Some ProviderOpenaiCompatible"
        using o'(2) by (auto simp: o'_is org_after_view provider_after_def providerChanged_def nullish_def split: option.splits if_splits)
      then have "cr = find_cred db i ProviderOpenaiCompatible" by (simp add: cr)
      from compatible_url [OF org assms(2) o'(2) [unfolded o'_is] this ok] show ?thesis by (simp add: True db')
    next
      case False
      then have "o' \<in> set (sd_orgs db)" using o'(1) by (auto simp: orgs split: if_splits)
      then show ?thesis using o'(2) assms(2) by (simp add: db' find_cred_other [OF False] settings_sound_def)
    qed
  qed
qed

text \<open>C13: what is stored stays sound.  However requests to change, test and list follow each other from organizations without
  settings on, a stored base URL belongs to \<open>openai_compatible\<close> and passed the guard when it was saved; a stored key is
  the encryption of a non-empty one, beside the last four characters of that very key; there is one credential of a provider
  in an organization; and an organization that has \<open>openai_compatible\<close> selected has a base URL for it.\<close>

theorem stored_settings_sound:
  assumes "settings_run envs db"
  shows "settings_sound envs db"
  using assms
proof induction
  case (run_start db)
  then show ?case by (auto simp: settings_sound_def list_all_iff)
next
  case run_update
  then show ?case by (simp add: updateAi_sound)
next
  case run_test
  then show ?case using same_settings_sound [OF testAi_same] by blast
next
  case run_list
  then show ?case using same_settings_sound [OF listForOrg_same] by blast
next
  case run_preview
  then show ?case using same_settings_sound [OF preview_same] by blast
qed

lemma demo_update_simps [simp]:
  "ud_provider demo_update = Some (Some ProviderOpenaiCompatible)" "ud_baseUrl demo_update = Some (Some ''https://ai.local'')"
  "ud_apiKey demo_update = Some (Some ''sk-secret'')" "ud_locale demo_update = None" "ud_dailyTokenBudget demo_update = None"
  by (simp_all add: demo_update_def no_change_def)

lemma stored_settings_sound_witness:
  "settings_sound {demo_settings_env} (snd (updateAi demo_settings_env demo_settings_db ''o'' ''u'' demo_update)) \<and>
    map cd_baseUrl (sd_creds (snd (updateAi demo_settings_env demo_settings_db ''o'' ''u'' demo_update))) = [Some ''https://ai.local'']"
proof -
  let ?org = "hd (sd_orgs demo_settings_db)"
  have "settings_run {demo_settings_env} demo_settings_db" by (rule run_start) (simp_all add: demo_settings_db_def)
  then have "settings_run {demo_settings_env} (snd (updateAi demo_settings_env demo_settings_db ''o'' ''u'' demo_update))"
    by (rule run_update) simp
  moreover have org: "find_org demo_settings_db ''o'' = Some ?org" by (simp add: demo_settings_db_def find_org_def)
  moreover have after: "provider_after ?org demo_update = Some ProviderOpenaiCompatible"
    by (simp add: provider_after_def nullish_def)
  moreover have cred: "find_cred demo_settings_db ''o'' p = None" for p by (simp add: find_cred_def demo_settings_db_def)
  moreover have ok: "refusal demo_settings_env ?org None demo_update = None" "\<not> null_column demo_update"
    by (simp_all add: refusal_def after check_base_url_def base_url_after_def nullish_def truthy_def
        demo_guarded null_column_def)
  moreover have "base_url_after None demo_update = Some ''https://ai.local''" "touchesCredential demo_update"
    by (simp_all add: base_url_after_def touchesCredential_def truthy_def nullish_def)
  moreover have "sd_creds demo_settings_db = []" by (simp add: demo_settings_db_def)
  ultimately show ?thesis
    using stored_settings_sound by (simp add: updateAi_def nullish_def Let_def apply_update_def upsert_cred_def new_cred_view)
qed

subsection \<open>The limit on tests\<close>

fun run_tests :: "adapter \<Rightarrow> jstr \<Rightarrow> (settings_env \<times> provider_override) list \<Rightarrow> settings_db \<Rightarrow> (settings_error + test_result) list" where
  "run_tests ad i [] db = []"
| "run_tests ad i ((env, ov) # rs) db = (let (r, db') = testAi env ad db i ov in r # run_tests ad i rs db')"

definition was_limited :: "settings_error + test_result \<Rightarrow> bool" where
  "was_limited r \<longleftrightarrow> r = Inl (TooMany ''ai_test_rate_limited'')"

lemma testAi_counts:
  assumes "tryConsume env (test_key i) TEST_LIMIT_PER_HOUR HOUR_SECONDS db = (ok, db1)"
  shows "was_limited (fst (testAi env ad db i ov)) \<longleftrightarrow> \<not> ok" "sd_counters (snd (testAi env ad db i ov)) = sd_counters db1"
  using assms
  by (auto simp: testAi_def was_limited_def settle_test_def recordTestUsage_def Let_def split: sum.split option.split)

lemma run_tests_limited:
  assumes "list_all (\<lambda>(env, ov). se_redisUp env \<and> se_now env < e) rs" "al_get (sd_counters db) (test_key i) = Some (n, e)"
  shows "map was_limited (run_tests ad i rs db) = map (\<lambda>k. 5 \<le> n + k) [0..<length rs]"
  using assms
proof (induction rs arbitrary: db n)
  case (Cons r rs)
  obtain env ov where r: "r = (env, ov)" by fastforce
  have c: "tryConsume env (test_key i) TEST_LIMIT_PER_HOUR HOUR_SECONDS db =
      (Suc n \<le> 5, db\<lparr>sd_counters := al_set (test_key i) (Suc n, e) (sd_counters db)\<rparr>)"
    using Cons.prems by (simp add: r tryConsume_def TEST_LIMIT_PER_HOUR_def)
  have "map was_limited (run_tests ad i rs (snd (testAi env ad db i ov))) = map (\<lambda>k. 5 \<le> Suc n + k) [0..<length rs]"
    by (rule Cons.IH) (use Cons.prems in \<open>simp_all add: testAi_counts(2) [OF c]\<close>)
  moreover have "map (\<lambda>k. 5 \<le> n + k) [0..<length (r # rs)] = (5 \<le> n) # map (\<lambda>k. 5 \<le> Suc n + k) [0..<length rs]"
    by (simp add: upt_conv_Cons map_Suc_upt [symmetric] comp_def del: upt_Suc)
  moreover have "was_limited (fst (testAi env ad db i ov)) \<longleftrightarrow> 5 \<le> n" using testAi_counts(1) [OF c] by auto
  ultimately show ?case by (simp add: r case_prod_beta)
qed simp

text \<open>C28: five tests in an hour.  While Redis answers, of the tests of an organization that start within an hour of the first one
  exactly the first five are carried out, whatever each of them asks for and comes to; every further one is refused.\<close>

theorem five_tests_an_hour:
  assumes "list_all (\<lambda>(env, ov). se_redisUp env \<and> start \<le> se_now env \<and> se_now env < start + 3600000) (r # rs)"
    and "se_now (fst r) = start" "al_get (sd_counters db) (test_key organizationId) = None"
  shows "map was_limited (run_tests ad organizationId (r # rs) db) = map (\<lambda>k. 5 \<le> k) [0..<Suc (length rs)]"
proof -
  obtain env ov where r: "r = (env, ov)" by fastforce
  let ?e = "start + 3600000"
  have c: "tryConsume env (test_key organizationId) TEST_LIMIT_PER_HOUR HOUR_SECONDS db =
      (True, db\<lparr>sd_counters := al_set (test_key organizationId) (Suc 0, ?e) (sd_counters db)\<rparr>)"
    using assms by (simp add: r tryConsume_def TEST_LIMIT_PER_HOUR_def HOUR_SECONDS_def)
  have "map was_limited (run_tests ad organizationId rs (snd (testAi env ad db organizationId ov))) = map (\<lambda>k. 5 \<le> Suc 0 + k) [0..<length rs]"
    by (rule run_tests_limited [where e = ?e])
      (use assms in \<open>auto simp: testAi_counts(2) [OF c] elim!: list.pred_mono_strong\<close>)
  then show ?thesis using testAi_counts(1) [OF c]
    by (simp add: r case_prod_beta upt_conv_Cons map_Suc_upt [symmetric] comp_def del: upt_Suc)
qed

definition silent_adapter :: adapter where
  "silent_adapter = \<lparr>ad_healthcheck = (\<lambda>cfg. Some (ThrownOther ''no answer'')), ad_complete = (\<lambda>cfg n. Inl (ThrownOther ''no answer'')),
    ad_matches = (\<lambda>v. True), ad_models = (\<lambda>cfg. Inl (ThrownOther ''no answer''))\<rparr>"

lemma five_tests_an_hour_witness:
  "map was_limited (run_tests silent_adapter ''o'' (replicate 7 (demo_settings_env, no_override)) demo_settings_saved) =
    [False, False, False, False, False, True, True]"
proof -
  have "se_redisUp demo_settings_env" "se_now demo_settings_env = 1000" "sd_counters demo_settings_saved = []"
    by (simp_all add: demo_settings_env_def demo_settings_saved_def demo_settings_db_def)
  then show ?thesis
    using five_tests_an_hour [of 1000 "(demo_settings_env, no_override)" "replicate 6 (demo_settings_env, no_override)"
      demo_settings_saved "''o''" silent_adapter]
    by (simp add: numeral_eq_Suc)
qed


subsection \<open>The list of models\<close>

interpretation created: js_comparator created_desc
  by unfold_locales (auto simp: created_desc_def split: option.split)

definition newer :: "model_info \<Rightarrow> model_info \<Rightarrow> bool" where
  "newer a b \<longleftrightarrow> (case (mi_createdAt a, mi_createdAt b) of (Some x, Some y) \<Rightarrow> y \<le> x | (None, Some y) \<Rightarrow> False | _ \<Rightarrow> True)"

text \<open>All the models of the provider, the dated ones first and from new to old, the others in the provider's order.\<close>

lemma newestFirst_order:
  "mset (newestFirst ms) = mset ms" "sorted_wrt newer (newestFirst ms)"
  "filter (\<lambda>m. mi_createdAt m = None) (newestFirst ms) = filter (\<lambda>m. mi_createdAt m = None) ms"
proof -
  show "mset (newestFirst ms) = mset ms" by (induction ms) (auto simp: newestFirst_def)
  have "sorted_wrt newer (js_sort created_desc (filter (\<lambda>m. mi_createdAt m \<noteq> None) ms))"
    by (rule sorted_wrt_mono_rel [OF _ created.sorted_sort])
      (auto simp: newer_def created_desc_def split: option.splits)
  moreover have "sorted_wrt newer (filter (\<lambda>m. mi_createdAt m = None) ms)"
    by (induction ms) (auto simp: newer_def)
  moreover have "newer a b" if "mi_createdAt b = None" for a b using that by (simp add: newer_def split: option.split)
  ultimately show "sorted_wrt newer (newestFirst ms)" by (simp add: newestFirst_def sorted_wrt_append)
  have "filter (\<lambda>m. mi_createdAt m = None) (js_sort created_desc (filter (\<lambda>m. mi_createdAt m \<noteq> None) ms)) = []"
    by (auto simp: filter_empty_conv)
  then show "filter (\<lambda>m. mi_createdAt m = None) (newestFirst ms) = filter (\<lambda>m. mi_createdAt m = None) ms"
    by (simp add: newestFirst_def)
qed

subsection \<open>Two consequences\<close>

text \<open>A request whose provider is \<open>null\<close> passes for a change of provider: the provider stays and the model is reset.\<close>

lemma null_provider_resets_model:
  assumes "oa_aiProvider org = Some p"
  shows "provider_after org (no_change\<lparr>ud_provider := Some None\<rparr>) = Some p \<and>
    model_after org (no_change\<lparr>ud_provider := Some None\<rparr>) = defaultModelFor (toProviderName p)"
  using assms by (simp add: provider_after_def model_after_def providerChanged_def no_change_def nullish_def)

text \<open>A test that types in a base URL and no key sends the stored key to that URL.\<close>

lemma stored_key_goes_to_typed_url:
  assumes "find_cred db i ProviderOpenaiCompatible = Some c" "cd_encryptedKey c = Some k" "k \<noteq> []" "se_decrypt env k = Inr key"
    and "guarded env u = Inr url" "u \<noteq> []" "m \<noteq> []"
  shows "provider_for env db i \<lparr>ov_provider = Some ProviderOpenaiCompatible, ov_model = Some m, ov_baseUrl = Some u, ov_apiKey = None\<rparr> =
    Inr \<lparr>pc_name = ProviderOpenaiCompatible, pc_model = m, pc_apiKey = Some key, pc_baseUrl = Some u\<rparr>"
  using assms by (simp add: provider_for_def or_else_def adapter_model_def adapter_key_def adapter_url_def truthy_def)

end
