(* ===== verification/Org_Roles.thy ===== *)
theory Org_Roles
  imports Members
begin

section \<open>Who may call a route\<close>

text \<open>
  \<open>src/common/guards/org-roles.guard.ts\<close>: every route of an organization reads the caller's membership again, whatever
  the token says.  \<open>None\<close> is a route without an organization, or without roles of its own.
\<close>

fun role_name :: "role \<Rightarrow> jstr" where
  "role_name ADMIN = ''ADMIN''"
| "role_name REVIEWER = ''REVIEWER''"
| "role_name VIEWER = ''VIEWER''"

definition canActivate :: "members_db \<Rightarrow> jstr option \<Rightarrow> jstr \<Rightarrow> role list option \<Rightarrow> jstr + bool" where
  "canActivate db orgParam userId requiredRoles =
    (case orgParam of
      None \<Rightarrow> Inl ''Organization context is required for this route.''
    | Some orgId \<Rightarrow>
        if orgId = [] then Inl ''Organization context is required for this route.''
        else (case find_membership db orgId userId of
            None \<Rightarrow> Inl ''You are not a member of this organization.''
          | Some m \<Rightarrow>
              if mb_status m \<noteq> MemberActive then Inl ''You are not a member of this organization.''
              else (case requiredRoles of
                  None \<Rightarrow> Inr True
                | Some roles \<Rightarrow>
                    if roles \<noteq> [] \<and> mb_role m \<notin> set roles
                    then Inl (''This action requires one of the following roles: '' @ join '', '' (map role_name roles))
                    else Inr True)))"

definition may_call :: "members_db \<Rightarrow> jstr \<Rightarrow> jstr \<Rightarrow> role list \<Rightarrow> bool" where
  "may_call db orgId userId roles \<longleftrightarrow> canActivate db (Some orgId) userId (Some roles) = Inr True"

lemma may_call_iff:
  "may_call db orgId userId roles \<longleftrightarrow> orgId \<noteq> [] \<and>
    (\<exists>m. find_membership db orgId userId = Some m \<and> mb_status m = MemberActive \<and> (roles = [] \<or> mb_role m \<in> set roles))"
  by (auto simp: may_call_def canActivate_def split: option.split)

lemma find_delete_member:
  "find_membership (delete_member orgId userId db) o' u =
    (if o' = orgId \<and> u = userId then None else find_membership db o' u)"
proof (induction "mdb_memberships db" arbitrary: db)
  case Nil
  then show ?case by (simp add: find_membership_def delete_member_def)
next
  case (Cons m ms)
  from Cons(1) [of "db\<lparr>mdb_memberships := ms\<rparr>"] show ?case
    by (auto simp: find_membership_def delete_member_def same_member_def Cons(2) [symmetric])
qed

lemma find_set_role:
  "find_membership (set_role orgId userId new db) o' u =
    map_option (\<lambda>m. if o' = orgId \<and> u = userId then m\<lparr>mb_role := new\<rparr> else m) (find_membership db o' u)"
proof (induction "mdb_memberships db" arbitrary: db)
  case Nil
  then show ?case by (simp add: find_membership_def set_role_def)
next
  case (Cons m ms)
  from Cons(1) [of "db\<lparr>mdb_memberships := ms\<rparr>"] show ?case
    by (auto simp: find_membership_def set_role_def same_member_def Cons(2) [symmetric])
qed

text \<open>C12: access follows the membership from the next request on.  Once a member is removed every route of the organization is
  closed to them; once the role is changed exactly the routes of the new role are open; and neither changes what anyone
  else may call, or the same person in another organization.\<close>

theorem access_follows_membership:
  assumes "changeRole orgId userId new db = (Inr m, db1)" and "remove_member orgId userId db = (Inr removed, db2)"
  shows "(may_call db1 orgId userId roles \<longleftrightarrow> orgId \<noteq> [] \<and> (roles = [] \<or> new \<in> set roles)) \<and>
    \<not> may_call db2 orgId userId roles \<and>
    (o' \<noteq> orgId \<or> u \<noteq> userId \<longrightarrow>
      (may_call db1 o' u rs \<longleftrightarrow> may_call db o' u rs) \<and> (may_call db2 o' u rs \<longleftrightarrow> may_call db o' u rs))"
proof -
  obtain current where cur: "find_membership db orgId userId = Some current" "mb_status current = MemberActive"
    using assms(1) by (auto simp: changeRole_def findMemberOrThrow_def split: option.splits if_splits)
  have db1: "find_membership db1 o' u = map_option (\<lambda>m. if o' = orgId \<and> u = userId then m\<lparr>mb_role := new\<rparr> else m) (find_membership db o' u)"
    for o' u
  proof (cases "mb_role current = new")
    case True
    then have "db1 = db" using assms(1) cur by (simp add: changeRole_def findMemberOrThrow_def)
    then show ?thesis using True cur by (cases "find_membership db o' u") auto
  next
    case False
    then have "db1 = set_role orgId userId new db"
      using assms(1) cur by (auto simp: changeRole_def findMemberOrThrow_def split: option.splits if_splits)
    then show ?thesis by (simp add: find_set_role)
  qed
  have "db2 = delete_member orgId userId db"
    using assms(2) cur by (auto simp: remove_member_def findMemberOrThrow_def split: option.splits if_splits)
  then have db2: "find_membership db2 o' u = (if o' = orgId \<and> u = userId then None else find_membership db o' u)" for o' u
    by (simp add: find_delete_member)
  show ?thesis using cur by (auto simp: may_call_iff db1 db2)
qed

definition two_members :: members_db where
  "two_members = \<lparr>mdb_memberships = [\<lparr>mb_userId = ''a'', mb_organizationId = ''o'', mb_role = ADMIN, mb_status = MemberActive\<rparr>,
    \<lparr>mb_userId = ''r'', mb_organizationId = ''o'', mb_role = REVIEWER, mb_status = MemberActive\<rparr>],
    mdb_invitations = [], mdb_emails = [], mdb_invites_sent = [], mdb_mail = []\<rparr>"

lemma access_follows_membership_witness:
  "may_call two_members ''o'' ''r'' [ADMIN, REVIEWER] \<and>
    \<not> may_call (snd (changeRole ''o'' ''r'' VIEWER two_members)) ''o'' ''r'' [ADMIN, REVIEWER] \<and>
    \<not> may_call (snd (remove_member ''o'' ''r'' two_members)) ''o'' ''r'' []"
proof -
  have find: "find_membership two_members ''o'' ''r'' =
      Some \<lparr>mb_userId = ''r'', mb_organizationId = ''o'', mb_role = REVIEWER, mb_status = MemberActive\<rparr>"
    by (simp add: two_members_def find_membership_def)
  obtain m db1 where change: "changeRole ''o'' ''r'' VIEWER two_members = (Inr m, db1)"
    by (simp add: changeRole_def findMemberOrThrow_def find)
  obtain i db2 where remove: "remove_member ''o'' ''r'' two_members = (Inr i, db2)"
    by (simp add: remove_member_def findMemberOrThrow_def find)
  show ?thesis
    using access_follows_membership [OF change remove, of "[ADMIN, REVIEWER]" "[]" "[]" "[]"]
      access_follows_membership [OF change remove, of "[]" "[]" "[]" "[]"]
    by (simp add: change remove may_call_iff [of two_members] find)
qed

end
