(* ===== verification/Pull_Summary.thy ===== *)
theory Pull_Summary
  imports Ai_Admission Scan_Requests
begin

section \<open>The summary of a pull request\<close>

text \<open>
  \<open>src/modules/pulls/pull-summary.service.ts\<close>: the AI review of the latest scan, why there is none, and asking for it
  again.  The latest scan's own columns are those of \<open>Ai_Gate\<close>, a forced regenerate is a rescan of \<open>Scan_Requests\<close>.  The time
  a summary was written is left out; arrows in the hints are written \<open>->\<close>.
\<close>

definition REGENERATE_WINDOW_SECONDS :: int where "REGENERATE_WINDOW_SECONDS = 120"

definition CONFIGURATION_STATUSES :: "ai_scan_status list" where
  "CONFIGURATION_STATUSES = [AiNotConfigured, AiConsentRequired]"

fun toApiAiStatus :: "ai_scan_status \<Rightarrow> jstr" where
  "toApiAiStatus AiQueued = ''queued''"
| "toApiAiStatus AiRunning = ''running''"
| "toApiAiStatus AiDone = ''done''"
| "toApiAiStatus AiCached = ''cached''"
| "toApiAiStatus AiFailed = ''failed''"
| "toApiAiStatus AiSkippedManualMode = ''skipped_manual_mode''"
| "toApiAiStatus AiConsentRequired = ''consent_required''"
| "toApiAiStatus AiNotConfigured = ''not_configured''"
| "toApiAiStatus AiSkippedTooLarge = ''skipped_too_large''"
| "toApiAiStatus AiBudgetExceeded = ''budget_exceeded''"

fun api_risk :: "risk_level \<Rightarrow> jstr" where
  "api_risk RiskLow = ''low''"
| "api_risk RiskMedium = ''medium''"
| "api_risk RiskHigh = ''high''"

definition STALE_HINTS :: "(jstr \<times> jstr) list" where
  "STALE_HINTS = [(''not_configured'', ''No AI provider was configured when this scan ran. One is configured now -- '' @
      ''an Admin or Reviewer can regenerate to run the AI review.''),
    (''consent_required'', ''Sending diffs to the AI provider was not enabled when this scan ran. It is enabled now -- '' @
      ''an Admin or Reviewer can regenerate to run the AI review.'')]"

definition FAILED_HINTS :: "(jstr \<times> jstr) list" where
  "FAILED_HINTS = [(''reasoning_exhausted'', ''The AI model spent its whole output budget on reasoning before answering. '' @
      ''Regenerating will fail the same way -- split the pull request, or an Admin can choose another model in Settings -> AI Provider.''),
    (''output_truncated'', ''The AI answer was cut off at the output token limit. Regenerating will fail the same way -- '' @
      ''an Admin can choose another model in Settings -> AI Provider.''),
    (''worker_lost'', ''The AI review stopped before finishing (the worker running it went away). Regenerate to run it again.'')]"

text \<open>\<open>Math.round\<close>\<close>

definition kb :: "nat \<Rightarrow> jstr" where
  "kb bytes = show_nat ((2 * bytes + 1024) div 2048) @ '' KB''"

definition errorFor :: "gate_env \<Rightarrow> ai_scan_status option \<Rightarrow> jstr option \<Rightarrow> nat option \<Rightarrow> (jstr \<times> jstr) option" where
  "errorFor env aiStatus aiErrorCode diffBytes =
    (case aiStatus of
      Some AiNotConfigured \<Rightarrow> Some (''not_configured'', ''No AI provider is configured. An Admin can set one up in Settings -> AI Provider.'')
    | Some AiConsentRequired \<Rightarrow> Some (''consent_required'',
        ''Enable '' @ [CHR 0x22] @ ''Send diff content to the configured AI provider'' @ [CHR 0x22] @ '' in Settings -> AI Provider.'')
    | Some AiSkippedManualMode \<Rightarrow> Some (''skipped_manual_mode'',
        ''The target branch policy is Manual only, so AI review does not run for this pull request.'')
    | Some AiSkippedTooLarge \<Rightarrow> Some (''skipped_too_large'', ''The diff is too large for AI review: '' @
        kb (case diffBytes of Some n \<Rightarrow> n | None \<Rightarrow> 0) @ '' > '' @ kb (ge_maxDiffBytes env) @ ''.'')
    | Some AiBudgetExceeded \<Rightarrow> Some (''budget_exceeded'',
        ''The organization'' @ [CHR 0x27] @ ''s daily AI token budget is used up. It resets at 00:00 UTC.'')
    | Some AiFailed \<Rightarrow>
        Some (case aiErrorCode of Some c \<Rightarrow> c | None \<Rightarrow> ''failed'',
          case al_get FAILED_HINTS (case aiErrorCode of Some c \<Rightarrow> c | None \<Rightarrow> []) of Some h \<Rightarrow> h
          | None \<Rightarrow> ''AI review failed ('' @ (case aiErrorCode of Some c \<Rightarrow> c | None \<Rightarrow> ''unknown'') @
              ''). An Admin or Reviewer can regenerate it.'')
    | _ \<Rightarrow> None)"

text \<open>A missing setting may be in place by now, or another one be missing.\<close>

definition not_stale :: "(jstr \<times> jstr) option \<Rightarrow> (jstr \<times> jstr \<times> bool) option" where
  "not_stale e = map_option (\<lambda>(code, hint). (code, hint, False)) e"

definition currentErrorFor :: "gate_env \<Rightarrow> ai_world \<Rightarrow> jstr \<Rightarrow> gate_scan \<Rightarrow> ai_columns \<Rightarrow> (jstr \<times> jstr \<times> bool) option" where
  "currentErrorFor env w organizationId scan cols =
    (let own = not_stale (errorFor env (ax_status cols) (ax_errorCode cols) (gs_diffBytes scan))
     in (case ax_status cols of
          None \<Rightarrow> own
        | Some st \<Rightarrow>
            if st \<notin> set CONFIGURATION_STATUSES then own
            else (case configurationFor w organizationId of
                Some (ConfigReady provider model) \<Rightarrow>
                  Some (toApiAiStatus st, case al_get STALE_HINTS (toApiAiStatus st) of Some h \<Rightarrow> h | None \<Rightarrow> [], True)
              | Some (ConfigBlocked st') \<Rightarrow> not_stale (errorFor env (Some st') (ax_errorCode cols) (gs_diffBytes scan))
              | None \<Rightarrow> own)))"

record pull_summary =
  py_scanId :: "jstr option"
  py_aiStatus :: "jstr option"
  py_summaryMd :: "jstr option"
  py_riskLevel :: "jstr option"
  py_reportedRiskLevel :: "jstr option"
  py_partial :: bool
  py_provider :: "jstr option"
  py_model :: "jstr option"
  py_cached :: bool
  py_filesOmitted :: "jstr list"
  py_tokens :: "(nat \<times> nat) option"
  py_error :: "(jstr \<times> jstr \<times> bool) option"

definition PARTIAL_RESPONSE :: jstr where "PARTIAL_RESPONSE = ''partial_response''"

definition no_scan_summary :: pull_summary where
  "no_scan_summary = \<lparr>py_scanId = None, py_aiStatus = None, py_summaryMd = None, py_riskLevel = None, py_reportedRiskLevel = None,
    py_partial = False, py_provider = None, py_model = None, py_cached = False, py_filesOmitted = [], py_tokens = None,
    py_error = Some (''no_scan'', ''This pull request has not been scanned yet.'', False)\<rparr>"

definition latest_scan :: "request_db \<Rightarrow> ai_world \<Rightarrow> jstr \<Rightarrow> (gate_scan \<times> ai_columns) option" where
  "latest_scan rdb w pullId =
    (case w_latest (qs_world rdb) pullId of
      None \<Rightarrow> None
    | Some i \<Rightarrow> (case (gate_scan_of w i, columns_of w i) of (Some s, Some c) \<Rightarrow> Some (s, c) | _ \<Rightarrow> None))"

definition summary_dto :: "gate_env \<Rightarrow> ai_world \<Rightarrow> jstr \<Rightarrow> gate_scan \<Rightarrow> ai_columns \<Rightarrow> pull_summary" where
  "summary_dto env w organizationId scan cols =
    (let summary = summary_of w (gs_id scan)
     in \<lparr>py_scanId = Some (gs_id scan), py_aiStatus = map_option toApiAiStatus (ax_status cols),
       py_summaryMd = map_option as_summaryMd summary, py_riskLevel = map_option (api_risk \<circ> as_riskLevel) summary,
       py_reportedRiskLevel = (if summary = None then None else map_option api_risk (ax_reportedRiskLevel cols)),
       py_partial = (PARTIAL_RESPONSE \<in> set (ax_flags cols)), py_provider = ax_provider cols, py_model = ax_model cols,
       py_cached = ax_cached cols, py_filesOmitted = (case summary of Some s \<Rightarrow> as_filesOmitted s | None \<Rightarrow> []),
       py_tokens = (case (ax_tokensIn cols, ax_tokensOut cols) of (Some i, Some out) \<Rightarrow> Some (i, out) | _ \<Rightarrow> None),
       py_error = currentErrorFor env w organizationId scan cols\<rparr>)"

definition getSummary :: "gate_env \<Rightarrow> jstr \<Rightarrow> jstr \<Rightarrow> jstr \<Rightarrow> request_db \<times> ai_world \<Rightarrow> api_error + pull_summary" where
  "getSummary env organizationId repositoryId pullId db =
    (case findPullOrThrow (fst db) organizationId repositoryId pullId of
      Inl e \<Rightarrow> Inl e
    | Inr pull \<Rightarrow>
       (case latest_scan (fst db) (snd db) pullId of
          None \<Rightarrow> Inr no_scan_summary
        | Some (scan, cols) \<Rightarrow> Inr (summary_dto env (snd db) organizationId scan cols)))"

definition regenerate_key :: "jstr \<Rightarrow> jstr" where
  "regenerate_key pullId = ''ratelimit:ai-regenerate:pull:'' @ pullId"

text \<open>The answer to the gate's verdict.\<close>

definition regenerate_answer :: "jstr \<Rightarrow> gate_phase \<Rightarrow> api_error + jstr \<times> jstr" where
  "regenerate_answer scanId ph =
    (case ph of
      GateReturned (Some st) \<Rightarrow>
        if st = AiQueued \<or> st = AiCached then Inr (scanId, toApiAiStatus st) else Inl (412, ''pullId'', toApiAiStatus st)
    | GateReturned None \<Rightarrow> Inl (412, ''pullId'', ''scan_not_done'')
    | _ \<Rightarrow> Inl (500, [], ''error''))"

definition regenerate :: "request_env \<Rightarrow> gate_env \<Rightarrow> jstr \<Rightarrow> jstr \<Rightarrow> jstr \<Rightarrow> bool \<Rightarrow> request_db \<times> ai_world \<Rightarrow>
    (api_error + jstr \<times> jstr) \<times> (request_db \<times> ai_world)" where
  "regenerate renv env organizationId repositoryId pullId force db =
    (let (rdb, w) = db
     in if force
        then (let (r, rdb') = requestRescan renv organizationId repositoryId pullId True rdb
              in (map_sum id (\<lambda>(scanId, st). (scanId, ''queued'')) r, (rdb', w)))
        else (case findPullOrThrow rdb organizationId repositoryId pullId of
            Inl e \<Rightarrow> (Inl e, db)
          | Inr pull \<Rightarrow>
             (case latest_scan rdb w pullId of
                None \<Rightarrow> (Inl (412, ''pullId'', ''scan_not_done''), db)
              | Some (scan, cols) \<Rightarrow>
                  if gs_status scan \<noteq> ScanDone then (Inl (412, ''pullId'', ''scan_not_done''), db)
                  else if ai_in_flight (ax_status cols) then (Inl (409, ''pullId'', ''ai_in_progress''), db)
                  else (let (allowed, slots) = tryAcquire renv (regenerate_key pullId) REGENERATE_WINDOW_SECONDS (qs_slots rdb)
                        in if \<not> allowed then (Inl (429, ''pullId'', ''regenerate_rate_limited''), db)
                           else (let (w', ph) = maybeEnqueue env \<lparr>gq_scanId = gs_id scan, gq_force = False\<rparr> w
                                 in (regenerate_answer (gs_id scan) ph, (rdb\<lparr>qs_slots := slots\<rparr>, w')))))))"

subsection \<open>What the gate settled\<close>

text \<open>The settings a status is about, where it is about settings: they block with that status, or block no more.\<close>

definition settled_by :: "gate_request \<Rightarrow> ai_world \<Rightarrow> ai_scan_status \<Rightarrow> bool" where
  "settled_by req w st \<longleftrightarrow> (\<exists>scan. gate_scan_of w (gq_scanId req) = Some scan \<and>
    (st \<in> set CONFIGURATION_STATUSES \<longrightarrow>
      (\<exists>conf. configurationFor w (gs_organizationId scan) = Some conf \<and> (\<forall>st'. conf = ConfigBlocked st' \<longrightarrow> st' = st))))"

fun settle_inv :: "gate_env \<Rightarrow> gate_request \<Rightarrow> ai_world \<Rightarrow> ai_world \<Rightarrow> gate_phase \<Rightarrow> bool" where
  "settle_inv env req w0 w (GateSettle i st) \<longleftrightarrow> w = w0 \<and> i = gq_scanId req \<and> settled_by req w0 st"
| "settle_inv env req w0 w (GateReturned r) \<longleftrightarrow>
    (\<forall>st. r = Some st \<and> st \<notin> {AiQueued, AiCached} \<longrightarrow> w = setStatus (gq_scanId req) st w0 \<and> settled_by req w0 st)"
| "settle_inv env req w0 w ph \<longleftrightarrow> gate_inv env req w0 w ph"

lemma configured_conf:
  "configured req w ctx \<Longrightarrow> configurationFor w (gs_organizationId (gc_scan ctx)) = Some (resolveConfiguration w (gc_org ctx))"
  by (simp add: configured_def configurationFor_def)

lemma settled_ready:
  assumes "configured req w ctx" "resolveConfiguration w (gc_org ctx) = ConfigReady p m"
  shows "settled_by req w st"
  using assms configured_conf [OF assms(1)] by (simp add: settled_by_def configured_def)

lemma settled_blocked:
  assumes "configured req w ctx" "resolveConfiguration w (gc_org ctx) = ConfigBlocked st"
  shows "settled_by req w st"
  using assms configured_conf [OF assms(1)] by (simp add: settled_by_def configured_def)

lemma gate_settle_inv:
  assumes "gate_inv env req w0 w ph" "\<And>i st. ph \<noteq> GateSettle i st" "\<And>r. ph \<noteq> GateReturned r"
  shows "settle_inv env req w0 w ph"
  using assms by (cases ph) auto
lemma settle_of_gate_inv: "settle_inv env req w0 w ph \<Longrightarrow> (\<And>r. ph \<noteq> GateReturned r) \<Longrightarrow> gate_inv env req w0 w ph"
  by (cases ph) auto

text \<open>Where a settle step can come from.\<close>

lemma resolved_settle:
  assumes "configured req w0 ctx" "resolveConfiguration w0 (gc_org ctx) = conf"
  shows "settle_inv env req w0 w0 (resolved env ctx conf)"
proof (cases conf)
  case (ConfigBlocked st)
  then show ?thesis using assms settled_blocked [OF assms(1)] by (simp add: resolved_def configured_def)
next
  case (ConfigReady provider model)
  have id: "gq_scanId ctx = gq_scanId req" using assms(1) by (simp add: configured_def)
  have "configured req w0 (ctx\<lparr>gc_provider := provider, gc_model := model\<rparr>)"
    "resolveConfiguration w0 (gc_org (ctx\<lparr>gc_provider := provider, gc_model := model\<rparr>)) = ConfigReady provider model"
    using assms ConfigReady by (auto simp: configured_def)
  then show ?thesis
    using ConfigReady settled_ready [OF assms(1), of provider model] assms(2) id
    by (auto simp: resolved_def after_configuration_def check_size_def Let_def)
qed

lemma read_scan_settle: "settle_inv env req w0 w0 (read_scan env req w0)"
proof -
  have "settle_inv env req w0 w0 (case oa_aiProvider org of None \<Rightarrow> resolved env ctx (ConfigBlocked AiNotConfigured)
      | Some p \<Rightarrow> GateCredential ctx p)" if "configured req w0 ctx" "gc_org ctx = org" for ctx org
    using that resolved_settle [OF that(1), of "ConfigBlocked AiNotConfigured"]
    by (simp add: resolveConfiguration_def split: option.split)
  then show ?thesis
    by (auto simp: read_scan_def Let_def configured_def gate_request.defs gate_ctx.defs settled_by_def CONFIGURATION_STATUSES_def
        split: option.split)
qed

lemma read_base_settle:
  assumes "configured req w0 ctx" "resolveConfiguration w0 (gc_org ctx) = ConfigReady (gc_provider ctx) (gc_model ctx)"
  shows "settle_inv env req w0 w0 (read_base env ctx w0)"
  using assms settled_ready [OF assms]
  by (auto simp: read_base_def check_size_def Let_def configured_def split: option.split)

lemma read_usage_settle:
  assumes "configured req w0 ctx" "resolveConfiguration w0 (gc_org ctx) = ConfigReady (gc_provider ctx) (gc_model ctx)"
    "diff_bytes (gc_scan ctx) \<le> ge_maxDiffBytes env"
  shows "settle_inv env req w0 w0 (read_usage env ctx w0)"
proof -
  have id: "gq_scanId ctx = gq_scanId req" using assms(1) by (simp add: configured_def)
  show ?thesis using settled_ready [OF assms(1,2)] assms id by (auto simp: read_usage_def Let_def admitted_def)
qed

lemma settle_step:
  assumes "settle_inv env req w0 w ph" "gate_step env req w ph = (w', ph')" "ai_tables w0"
  shows "settle_inv env req w0 w' ph'"
proof (cases "\<exists>r. ph = GateReturned r")
  case True
  then show ?thesis using assms by auto
next
  case False
  then have inv: "gate_inv env req w0 w ph" using settle_of_gate_inv [OF assms(1)] by blast
  note next_inv = gate_step_inv [OF inv assms(2,3)]
  show ?thesis
  proof (cases ph)
    case GateScan
    then show ?thesis using assms inv read_scan_settle by auto
  next
    case (GateCredential ctx p)
    then show ?thesis using assms inv resolved_settle [of req w0 ctx _ env] by (auto simp: resolveConfiguration_def)
  next
    case (GateBase ctx)
    then show ?thesis using assms inv read_base_settle by auto
  next
    case (GateUsage ctx)
    then show ?thesis using assms inv read_usage_settle by auto
  next
    case (GateSettle i st)
    then show ?thesis using assms by auto
  next
    case (GateCopyBase ctx base summary)
    then show ?thesis using assms by auto
  next
    case (GateCache ctx merge)
    then show ?thesis using assms next_inv by (auto simp: read_cache_def split: option.splits if_splits)
  next
    case (GateSource ctx merge i)
    then show ?thesis using assms next_inv by (auto simp: read_source_def split: option.splits if_splits)
  next
    case (GateDrafts ctx merge source summary drafts)
    then show ?thesis using assms next_inv by (auto simp: read_drafts_def Let_def split: sum.splits prod.splits)
  next
    case (GateCopy ctx res)
    then show ?thesis using assms next_inv by (auto simp: Let_def split: prod.splits if_splits)
  next
    case (GateClaim ctx merge)
    then show ?thesis using assms next_inv by (auto simp: Let_def split: prod.splits if_splits)
  next
    case (GateAdd ctx merge)
    then show ?thesis using assms next_inv by (auto split: if_splits)
  next
    case (GateFailAdd i)
    then show ?thesis using assms next_inv by auto
  qed (use False assms in auto)
qed

lemma settle_run: "settle_inv env req w0 (fst s) (snd s) \<Longrightarrow> ai_tables w0 \<Longrightarrow>
    settle_inv env req w0 (fst (gate_run n env req s)) (snd (gate_run n env req s))"
proof (induction n arbitrary: s)
  case (Suc n)
  have "settle_inv env req w0 (fst (gate_step env req (fst s) (snd s))) (snd (gate_step env req (fst s) (snd s)))"
    by (rule settle_step [OF Suc.prems(1) _ Suc.prems(2)]) simp
  with Suc show ?case by simp
qed simp

lemma maybeEnqueue_settled:
  assumes "maybeEnqueue env req w = (w', GateReturned (Some st))" "ai_tables w" "st \<notin> {AiQueued, AiCached}"
  shows "w' = setStatus (gq_scanId req) st w \<and> settled_by req w st"
  using settle_run [of env req w "(w, GateScan)" 12] assms by (simp add: maybeEnqueue_def)

subsection \<open>A refused regenerate\<close>

lemma setStatus_tables:
  "gate_scan_of (setStatus i st w) k = gate_scan_of w k" "configurationFor (setStatus i st w) o' = configurationFor w o'"
proof -
  obtain d where d: "setStatus i st w = w\<lparr>aw_db := d\<rparr>" by (simp add: setStatus_def write_columns_def case_prod_beta Let_def)
  have "findCredential (w\<lparr>aw_db := d\<rparr>) = findCredential w" by (intro ext) (simp add: findCredential_def)
  then have "resolveConfiguration (w\<lparr>aw_db := d\<rparr>) = resolveConfiguration w" by (intro ext) (simp add: resolveConfiguration_def split: option.split)
  then show "gate_scan_of (setStatus i st w) k = gate_scan_of w k" "configurationFor (setStatus i st w) o' = configurationFor w o'"
    by (simp_all add: d gate_scan_of_def configurationFor_def)
qed

lemma setStatus_columns:
  assumes "columns_of w i = Some cols" "\<not> ai_in_flight (ax_status cols)"
  shows "columns_of (setStatus i st w) i = Some (cols\<lparr>ax_status := Some st\<rparr>)"
  unfolding setStatus_def using assms columns_of_id by (subst columns_of_write [where i = i]) (auto simp: not_in_flight_def)

definition EXPLAINED :: "ai_scan_status list" where
  "EXPLAINED = [AiNotConfigured, AiConsentRequired, AiSkippedManualMode, AiSkippedTooLarge, AiBudgetExceeded]"

lemma errorFor_code:
  assumes "st \<in> set EXPLAINED"
  shows "map_option fst (not_stale (errorFor env (Some st) code bytes)) = Some (toApiAiStatus st)"
  using assms by (auto simp: EXPLAINED_def errorFor_def not_stale_def)

lemma toApiAiStatus_done: "toApiAiStatus st \<noteq> ''scan_not_done''"
  by (cases st) simp_all

text \<open>The error that is shown right after the gate settled on a status.\<close>

lemma settled_error:
  assumes "settled_by req w st" "gate_scan_of w (gq_scanId req) = Some scan" "st \<in> set EXPLAINED" "ax_status cols = Some st"
    "\<And>o'. configurationFor w' o' = configurationFor w o'"
  shows "map_option fst (currentErrorFor env w' (gs_organizationId scan) scan cols) = Some (toApiAiStatus st)"
proof (cases "st \<in> set CONFIGURATION_STATUSES")
  case False
  then show ?thesis using assms(4) errorFor_code [OF assms(3)] by (simp add: currentErrorFor_def)
next
  case True
  then obtain conf where conf: "configurationFor w' (gs_organizationId scan) = Some conf" "\<And>st'. conf = ConfigBlocked st' \<Longrightarrow> st' = st"
    using assms(1,2,5) by (auto simp: settled_by_def)
  then show ?thesis
    using True assms(4) errorFor_code [OF assms(3)] by (cases conf) (simp_all add: currentErrorFor_def)
qed

lemma regenerate_refused:
  assumes "regenerate renv env organizationId repositoryId pullId False (rdb, w) = (Inl (412, ''pullId'', m), db')"
    "m \<noteq> ''scan_not_done''" "ai_tables w"
  obtains pull scan cols st slots where
    "findPullOrThrow rdb organizationId repositoryId pullId = Inr pull" "latest_scan rdb w pullId = Some (scan, cols)"
    "\<not> ai_in_flight (ax_status cols)" "m = toApiAiStatus st" "settled_by \<lparr>gq_scanId = gs_id scan, gq_force = False\<rparr> w st"
    "db' = (rdb\<lparr>qs_slots := slots\<rparr>, setStatus (gs_id scan) st w)"
proof -
  have err: "findPullOrThrow rdb organizationId repositoryId pullId \<noteq> Inl (412, ''pullId'', m)"
    by (auto simp: findPullOrThrow_def split: option.split)
  obtain pull scan cols slots where p: "findPullOrThrow rdb organizationId repositoryId pullId = Inr pull"
    "latest_scan rdb w pullId = Some (scan, cols)" "\<not> ai_in_flight (ax_status cols)"
    and ans: "regenerate_answer (gs_id scan) (snd (maybeEnqueue env \<lparr>gq_scanId = gs_id scan, gq_force = False\<rparr> w)) = Inl (412, ''pullId'', m)"
    and db': "db' = (rdb\<lparr>qs_slots := slots\<rparr>, fst (maybeEnqueue env \<lparr>gq_scanId = gs_id scan, gq_force = False\<rparr> w))"
    using assms(1,2) err by (auto simp: regenerate_def Let_def split: sum.splits option.splits if_splits prod.splits)
  obtain w' ph where run: "maybeEnqueue env \<lparr>gq_scanId = gs_id scan, gq_force = False\<rparr> w = (w', ph)" by fastforce
  obtain st where st: "ph = GateReturned (Some st)" "st \<notin> {AiQueued, AiCached}" "m = toApiAiStatus st"
    using ans assms(2) by (auto simp: run regenerate_answer_def split: gate_phase.splits option.splits if_splits)
  from maybeEnqueue_settled [OF run [unfolded st(1)] assms(3) st(2)]
  show thesis using that [OF p st(3)] db' by (simp add: run)
qed

text \<open>C31: a regenerate that is refused leaves its reason behind.  When the gate turns a request down because of something else than
  an unfinished scan, the message is the status that the latest scan now has, and the summary that is shown next has that
  status and explains it: its error has the same code for a missing provider or consent, a manual branch, a
  diff that is too large and a used-up budget.\<close>

theorem refused_regenerate_explained:
  assumes "regenerate renv env organizationId repositoryId pullId False (rdb, w) = (Inl (412, ''pullId'', m), db')"
    "m \<noteq> ''scan_not_done''" "ai_tables w"
    "\<And>scan cols. latest_scan rdb w pullId = Some (scan, cols) \<Longrightarrow> gs_organizationId scan = organizationId"
  shows "\<exists>st s. m = toApiAiStatus st \<and> getSummary env organizationId repositoryId pullId db' = Inr s \<and> py_aiStatus s = Some m \<and>
    (st \<in> set EXPLAINED \<longrightarrow> map_option fst (py_error s) = Some m)"
proof -
  obtain pull scan cols st slots where p: "findPullOrThrow rdb organizationId repositoryId pullId = Inr pull"
    "latest_scan rdb w pullId = Some (scan, cols)" "\<not> ai_in_flight (ax_status cols)" "m = toApiAiStatus st"
    "settled_by \<lparr>gq_scanId = gs_id scan, gq_force = False\<rparr> w st" "db' = (rdb\<lparr>qs_slots := slots\<rparr>, setStatus (gs_id scan) st w)"
    by (rule regenerate_refused [OF assms(1-3)])
  let ?cols = "cols\<lparr>ax_status := Some st\<rparr>" and ?w = "setStatus (gs_id scan) st w"
  obtain i where i: "w_latest (qs_world rdb) pullId = Some i" "gate_scan_of w i = Some scan" "columns_of w i = Some cols"
    using p(2) by (auto simp: latest_scan_def split: option.splits)
  then have id: "i = gs_id scan" by (auto simp: gate_scan_of_def dest: find_SomeD)
  have "latest_scan (rdb\<lparr>qs_slots := slots\<rparr>) ?w pullId = Some (scan, ?cols)"
    using i setStatus_columns [OF i(3) p(3)] by (simp add: latest_scan_def setStatus_tables id)
  moreover have "findPullOrThrow (rdb\<lparr>qs_slots := slots\<rparr>) organizationId repositoryId pullId = Inr pull"
    using p(1) by (simp add: findPullOrThrow_def)
  ultimately have "getSummary env organizationId repositoryId pullId db' = Inr (summary_dto env ?w organizationId scan ?cols)"
    by (simp add: getSummary_def p(6))
  moreover have "map_option fst (currentErrorFor env ?w organizationId scan ?cols) = Some m" if "st \<in> set EXPLAINED"
    using settled_error [OF p(5), of scan ?cols ?w env] that i(2) assms(4) [OF p(2)] by (simp add: id setStatus_tables p(4))
  ultimately show ?thesis by (auto simp: p(4) summary_dto_def Let_def intro!: exI [of _ st])
qed

subsection \<open>An example\<close>

definition bare_world :: ai_world where
  "bare_world = Ai_Admission.sample_world\<lparr>aw_orgs := [sample_org\<lparr>oa_aiProvider := None\<rparr>]\<rparr>"

definition bare_requests :: request_db where
  "bare_requests = \<lparr>qs_pulls = [\<lparr>qp_id = ''p1'', qp_organizationId = ''o1'', qp_repositoryId = ''r1'', qp_headSha = Some ''1''\<rparr>],
    qs_scanOrgs = [(''s1'', ''o1'')], qs_world = Scan_Queue.sample_world\<lparr>w_latest := (\<lambda>_. Some ''s1'')\<rparr>, qs_findings = [], qs_slots = []\<rparr>"

lemma bare_latest:
  "latest_scan bare_requests bare_world ''p1'' =
    Some (sample_gate_scan ''s1'', (new_columns ''s1'')\<lparr>ax_status := Some AiFailed, ax_startedAt := Some 20\<rparr>)"
  by (simp add: latest_scan_def bare_requests_def bare_world_def gate_scan_of_def columns_of_def Ai_Admission.sample_world_def
      sample_gate_scan_def new_columns_def)

lemma bare_refused:
  "maybeEnqueue sample_env \<lparr>gq_scanId = ''s1'', gq_force = False\<rparr> bare_world =
    (setStatus ''s1'' AiNotConfigured bare_world, GateReturned (Some AiNotConfigured))"
proof -
  have r: "read_scan sample_env \<lparr>gq_scanId = ''s1'', gq_force = False\<rparr> bare_world = GateSettle ''s1'' AiNotConfigured"
    by (simp add: read_scan_def bare_world_def gate_scan_of_def columns_of_def Ai_Admission.sample_world_def sample_gate_scan_def
        sample_org_def new_columns_def resolved_def gate_request.defs gate_ctx.defs)
  show ?thesis by (simp add: maybeEnqueue_def eval_nat_numeral r)
qed

lemma refused_regenerate_explained_witness:
  "fst (regenerate demo_request_env sample_env ''o1'' ''r1'' ''p1'' False (bare_requests, bare_world)) =
     Inl (412, ''pullId'', ''not_configured'')
   \<and> (\<exists>s. getSummary sample_env ''o1'' ''r1'' ''p1''
        (snd (regenerate demo_request_env sample_env ''o1'' ''r1'' ''p1'' False (bare_requests, bare_world))) = Inr s \<and>
      py_aiStatus s = Some ''not_configured'')"
proof -
  have "findPullOrThrow bare_requests ''o1'' ''r1'' ''p1'' = Inr (hd (qs_pulls bare_requests))"
    by (simp add: findPullOrThrow_def bare_requests_def)
  moreover have "tryAcquire demo_request_env (regenerate_key ''p1'') REGENERATE_WINDOW_SECONDS (qs_slots bare_requests) =
      (True, [(regenerate_key ''p1'', 125)])"
    by (simp add: tryAcquire_def demo_request_env_def bare_requests_def REGENERATE_WINDOW_SECONDS_def)
  moreover have "gs_status (sample_gate_scan ''s1'') = ScanDone" "gs_id (sample_gate_scan ''s1'') = ''s1''"
    "gs_organizationId (sample_gate_scan ''s1'') = ''o1''"
    by (simp_all add: sample_gate_scan_def)
  ultimately have run: "regenerate demo_request_env sample_env ''o1'' ''r1'' ''p1'' False (bare_requests, bare_world) =
      (Inl (412, ''pullId'', ''not_configured''),
       (bare_requests\<lparr>qs_slots := [(regenerate_key ''p1'', 125)]\<rparr>, setStatus ''s1'' AiNotConfigured bare_world))"
    by (simp add: regenerate_def bare_latest bare_refused regenerate_answer_def ai_in_flight_def Let_def)
  have "ai_tables bare_world" using sample_tables by (simp add: ai_tables_def bare_world_def)
  moreover have "gs_organizationId scan = ''o1''" if "latest_scan bare_requests bare_world ''p1'' = Some (scan, cols)" for scan cols
    using that by (auto simp: bare_latest sample_gate_scan_def)
  ultimately show ?thesis using refused_regenerate_explained [OF run] run by auto
qed

end
