(* ===== verification/Spec2Isabelle.thy ===== *)
theory Spec2Isabelle
  imports Scan_Counts Code_Rules Analyze_Diff Ai_Admission Scan_Serial Comment_Sync Webhook_Events Review_Prompt Scan_Requests Settings_Safety Org_Roles Pull_Summary
begin

text \<open>
  This is a model of critiq-be, the backend of a code-review service (NestJS, TypeScript; paths below are
  under \<open>src/\<close> of the repository).  A pull request of GitHub or GitLab reaches it as a webhook; a queue
  holds the scans to run; a worker fetches the diff, runs the static rules and a syntax check,
  carries the findings of the scan before over and stores the new ones; an AI review may follow, whose answer is
  checked and merged; people comment, review and merge in the service, and jobs copy that to the code host.

  \<^bold>\<open>How the theories follow the code\<close>

  \<^item> \<open>Critiq_Prelude\<close>, \<open>Js_Text\<close>, \<open>Js_Regex\<close>: what the source uses of JavaScript: maps that keep their
    insertion order, the stable sort (locale \<open>js_comparator\<close>, interpreted at every comparator of the code), string
    functions, and a backtracking matcher for its regular expressions.
  \<^item> \<open>Diff_Parser\<close> (\<open>queue/diff\<close>, \<open>lifecycle/line-mapping\<close>), \<open>Syntax_Check\<close>, \<open>Path_Language\<close>:
    hunks with the numbers of both sides, the old file rebuilt from the new one, the files and languages rules apply to.
  \<^item> \<open>Line_Spans\<close>, \<open>Regex_Literals\<close>, \<open>Value_Filter\<close>, \<open>Rule_Interface\<close>, \<open>Secret_Rules\<close>,
    \<open>Code_Rules\<close>, \<open>Rule_Runner\<close>, \<open>Suppression\<close>, \<open>Dedupe_Findings\<close>, \<open>Analyze_Diff\<close>
    (\<open>queue/rules\<close>, \<open>queue/suppression.ts\<close>, \<open>dedupe-findings.ts\<close>, \<open>analyze-diff.ts\<close>): the
    static analysis, from a line to the sorted and capped findings of a diff.
  \<^item> \<open>Title_Similarity\<close>, \<open>Finding_Model\<close>, \<open>Lifecycle\<close>, \<open>Scan_Counts\<close> (\<open>queue/lifecycle\<close>,
    \<open>rule-tiers.ts\<close>): which finding is new, persisted, reopened or resolved, and the counts of a scan.
  \<^item> \<open>Scan_Queue\<close> (\<open>scan-queue.service.ts\<close>), \<open>Scan_Flow\<close>, \<open>Scan_Progress\<close> (\<open>scan.processor.ts\<close>:
    claim, transactions, failure): a call is a program counter that steps from one \<open>await\<close> to the next; the
    callers and workers run interleaved as the relation \<open>reachable\<close>.  In \<open>Scan_Serial\<close> the calls come one after
    another (the relation \<open>served\<close>) and only the workers run in between.
  \<^item> \<open>Ai_Prompt\<close>, \<open>Review_Prompt\<close> (\<open>ai-prompt-builder.ts\<close>), \<open>Ai_Call\<close> (\<open>ai-call.ts\<close>), \<open>Ai_Review\<close>
    (clamp, repair), \<open>Ai_Validator\<close>, \<open>Ai_Dedupe\<close>, \<open>Ai_Merge\<close>, \<open>Ai_Persist\<close>: an AI review from what the model is sent to
    the rows that are stored.  \<open>Ai_Gate\<close>, \<open>Ai_Admission\<close> (\<open>ai-scan.service.ts\<close>, \<open>ai-orphan-reaper.ts\<close>,
    \<open>ai-scan.processor.ts\<close>: claim, ends, base merge): which scan gets a review, side by side with the workers.
  \<^item> \<open>Members\<close>, \<open>Reviews\<close> (with the merge and \<open>review-sync.processor.ts\<close>), \<open>Comment_Marker\<close>, \<open>Comments\<close>,
    \<open>Comment_Sync\<close> (\<open>modules/comments\<close>, \<open>comment-sync.processor.ts\<close>): what people do.  \<open>Attempt_Jobs\<close> states
    once what a job with a limited number of attempts guarantees (locales \<open>attempt_job\<close>, \<open>settling_job\<close>); \<open>Reviews\<close>
    and \<open>Comments\<close> interpret it on the two sync processors.
  \<^item> \<open>Webhook_Payload\<close>, \<open>Webhooks\<close>, \<open>Webhook_Events\<close> (\<open>modules/webhooks\<close>, \<open>upsertFromWebhook\<close> of
    \<open>pulls.service.ts\<close>): the guards of the payloads, the authentication and the claim of a delivery, and what its event does.

  \<^item> \<open>Scan_Requests\<close> (\<open>scans.service.ts\<close>, \<open>scan-in-flight.ts\<close>, the rate limiter): a manual rescan, the scans at
    work, the list of findings.  \<open>Base_Url_Guard\<close> (\<open>base-url-guard.ts\<close>): which URL an AI server may have.
    \<open>Ai_Settings\<close>, \<open>Settings_Safety\<close> (\<open>modules/settings\<close>, \<open>ai-provider.factory.ts\<close>): the AI settings of an organization and the
    adapter made from them.  \<open>Org_Roles\<close> (\<open>org-roles.guard.ts\<close>): who may call a route.  \<open>Pull_Summary\<close>
    (\<open>pull-summary.service.ts\<close>): the review that is shown of a pull request, and the regenerate.

  A table is a list of records in the order of insertion, a row's columns are those the code reads or writes; an
  operation takes the state and returns the result and the new state.  A thrown error is \<open>Inl\<close> or an error value.

  \<^bold>\<open>What the properties show\<close>

  They are numbered C1 to C40, the most important first.  The data: printing a diff and parsing it, rebuilding the base
  file, mapping lines, and taking the framing off a comment are inverse to each other; the lifecycle conserves the
  findings of the base scan; every finding of the analysis points to an added line or, for a rule on
  files, to line 1 of a file of the diff.  The concurrent
  part: in every interleaving a scan's results are stored once, every scan can be brought to a final state by the
  jobs and workers that are there, the AI review refines an abstract machine of reviews, and the orphan reaper takes
  exactly the reviews that nothing will finish.  One scan of a pull request is in flight at most when requests follow one
  another (C5); two requests that overlap can leave two scans queued (lemma \<open>overlapping_calls\<close>).  Safety of what leaves and enters: flagged secrets are
  redacted in the prompt, findings of a model are accepted only where they point at what it was sent, nothing is merged
  without approval, an organization keeps an Admin, unauthenticated deliveries change nothing, a delivery that comes again
  changes nothing, a pull request is stored from fields of the body that have their types, a base URL cannot lead into private
  networks, what is shown or logged depends on no key, stored or typed in, beyond its last four characters, and
  a stored key is used for its own organization and provider only.

  \<^bold>\<open>Bounds\<close>

  A repetition of the matcher of \<open>Js_Regex\<close> carries fuel; the lemma \<open>rep_run_enough\<close> shows that what \<open>rx_run\<close>
  gives it is never used up.  \<open>enqueue\<close>
  and \<open>cancelPending\<close> run alone for the number of scans and ten, or four, steps, one step for each scan that is cancelled
  and the fixed ones; the theorems about them show that they return.  \<open>maybeEnqueue\<close> takes at most twelve steps.
  Line numbers are integers, lengths and columns naturals, confidences and similarities exact rationals;
  where the code compares a quotient in floating point the theory says why no comparison differs.

  \<^bold>\<open>Assumptions\<close>

  Characters are those below 256; an em dash is two hyphens in the messages that are compared, one character in the prompt.  Parameters stand
  for code that is not in the repository: \<open>minimatch\<close>, SHA-1, SHA-256, HMAC, the encryption of secrets, Babel's parser,
  JSON, dates, the clock, random ids, the answers of the code hosts and the models, and which services answer.

  \<^bold>\<open>Not modelled\<close>

  The HTTP clients of GitHub, GitLab and the model vendors, OAuth, mail, realtime events, probes and the wiring of the
  framework are input and output.  The dashboard, insights, search, activity and the lists of pull requests are queries over the tables above, mostly SQL.  Of \<open>scan.processor.ts\<close> and \<open>ai-scan.processor.ts\<close> the fetching of diffs and
  files is left out.  The connection of repositories and integrations is
  a sequence of calls to those clients and is left out with them.
\<close>

end
